(* ===== verification/Prelude.thy ===== *)
theory Prelude
  imports Main "HOL-Library.Word"
begin

text \<open>
  Shared vocabulary of the WarkRune development: the fixed-width integer types of
  \<^verbatim>\<open>libs/C/stdint.h\<close> and \<^verbatim>\<open>kernel/klib/types.h\<close>, the idiom
  \<^verbatim>\<open>for (i = lo; i < hi; i++) if (P(i)) return i;\<close> as a library search, generic facts
  about words, bits and array updates, and the collections \<open>kinv\<close> (invariant
  preservation) and \<open>kframe\<close> (what an operation leaves alone) that the component
  theories fill.
\<close>

unbundle bit_operations_syntax

type_synonym u8 = "8 word"
type_synonym u16 = "16 word"
type_synonym u32 = "32 word"
type_synonym u64 = "64 word"

named_theorems kinv "operations preserve their component's invariant"
named_theorems kframe "fields an operation does not write"

subsection \<open>Search loops\<close>

text \<open>
  A counting loop that returns the first index satisfying a test is
  \<open>find P [lo..<hi]\<close>. The two lemmas are the loop's postconditions.
\<close>

lemma find_upt_Some_iff:
  "List.find P [lo..<hi] = Some i \<longleftrightarrow>
     lo \<le> i \<and> i < hi \<and> P i \<and> (\<forall>j. lo \<le> j \<longrightarrow> j < i \<longrightarrow> \<not> P j)"
proof
  assume "List.find P [lo..<hi] = Some i"
  then obtain k where k: "k < hi - lo" "P (lo + k)" "i = lo + k" "\<forall>j<k. \<not> P (lo + j)"
    by (auto simp: find_Some_iff)
  have "\<not> P j" if "lo \<le> j" "j < i" for j
    using k(3,4) that by (metis le_Suc_ex nat_add_left_cancel_less)
  with k show "lo \<le> i \<and> i < hi \<and> P i \<and> (\<forall>j. lo \<le> j \<longrightarrow> j < i \<longrightarrow> \<not> P j)"
    by auto
next
  assume i: "lo \<le> i \<and> i < hi \<and> P i \<and> (\<forall>j. lo \<le> j \<longrightarrow> j < i \<longrightarrow> \<not> P j)"
  then have "i - lo < length [lo..<hi] \<and> P ([lo..<hi] ! (i - lo)) \<and> i = [lo..<hi] ! (i - lo)
      \<and> (\<forall>j<i - lo. \<not> P ([lo..<hi] ! j))"
    by auto
  then show "List.find P [lo..<hi] = Some i"
    unfolding find_Some_iff by blast
qed

lemma find_upt_None_iff:
  "List.find P [lo..<hi] = None \<longleftrightarrow> (\<forall>j. lo \<le> j \<longrightarrow> j < hi \<longrightarrow> \<not> P j)"
  by (auto simp: find_None_iff)

subsection \<open>Words\<close>

lemma unat_u32_less [simp]: "unat (w :: u32) < 4294967296"
  using unsigned_less [of w] by simp

lemma unat_u16_less [simp]: "unat (w :: u16) < 65536"
  using unsigned_less [of w] by simp

lemma unat_u8_less [simp]: "unat (w :: u8) < 256"
  using unsigned_less [of w] by simp

lemma unat_of_nat_u32: "n < 4294967296 \<Longrightarrow> unat (word_of_nat n :: u32) = n"
  by (simp add: unat_of_nat take_bit_nat_eq_self)

lemma unat_of_nat_u16: "n < 65536 \<Longrightarrow> unat (word_of_nat n :: u16) = n"
  by (simp add: unat_of_nat take_bit_nat_eq_self)

lemma of_nat_eq_u32_iff: "n < 4294967296 \<Longrightarrow> (word_of_nat n :: u32) = w \<longleftrightarrow> n = unat w"
  by (auto simp: unat_of_nat_u32)

lemma unat_add_u32:
  "unat (a :: u32) + unat b < 4294967296 \<Longrightarrow> unat (a + b) = unat a + unat b"
  using unat_add_lem [of a b] by simp

lemma unat_mult_u32:
  "unat (a :: u32) * unat b < 4294967296 \<Longrightarrow> unat (a * b) = unat a * unat b"
  using unat_mult_lem [of a b] by simp

lemma unat_sub_u32: "b \<le> a \<Longrightarrow> unat (a - b :: u32) = unat a - unat b"
  by (simp add: unat_sub word_le_nat_alt)

end
