(* ===== verification/E820.thy ===== *)
theory E820
  imports Prelude
begin

text \<open>
  \<^verbatim>\<open>kernel/memory/memory.cpp\<close>: the scan of the BIOS memory map. The bootloader
  leaves \<^verbatim>\<open>*e820_count\<close> packed entries at physical address 0x6000; the model takes them
  as a list. The kernel keeps the base and the length of the largest usable region above
  1 MB; \<^verbatim>\<open>pmm_init\<close> repeats the scan on its own (theory Pmm).
\<close>

record e820_entry =
  e_base :: u64
  e_length :: u64
  e_type :: u32

record memory_state =
  heap_base :: u64
  heap_size :: u64

definition memory_state0 :: memory_state where
  "memory_state0 = \<lparr>heap_base = 0, heap_size = 0\<rparr>"

text \<open>One iteration of the loop of \<^verbatim>\<open>memory_init\<close>.\<close>

definition memory_scan :: "e820_entry \<Rightarrow> memory_state \<Rightarrow> memory_state" where
  "memory_scan e m =
     (if e_type e = 1 \<and> 0x100000 \<le> e_base e \<and> heap_size m < e_length e
      then m\<lparr>heap_base := e_base e, heap_size := e_length e\<rparr> else m)"

definition memory_init :: "e820_entry list \<Rightarrow> memory_state \<Rightarrow> memory_state" where
  "memory_init es m = fold memory_scan es m"

definition get_heap_base :: "memory_state \<Rightarrow> u64" where
  "get_heap_base m = heap_base m"

definition get_heap_size :: "memory_state \<Rightarrow> u64" where
  "get_heap_size m = heap_size m"

subsection \<open>What the scan selects\<close>

definition e820_usable :: "e820_entry \<Rightarrow> bool" where
  "e820_usable e \<longleftrightarrow> e_type e = 1 \<and> 0x100000 \<le> e_base e"

text \<open>
  \<open>e820_best es b l\<close>: \<open>(b, l)\<close> is the first of the longest usable regions of \<open>es\<close>, or
  \<open>(0, 0)\<close> when no usable region is non-empty.
\<close>

definition e820_best :: "e820_entry list \<Rightarrow> u64 \<Rightarrow> u64 \<Rightarrow> bool" where
  "e820_best es b l \<longleftrightarrow>
     (\<forall>e \<in> set es. e820_usable e \<longrightarrow> e_length e \<le> l) \<and>
     (if l = 0 then b = 0
      else \<exists>i < length es. e820_usable (es ! i) \<and> e_base (es ! i) = b \<and> e_length (es ! i) = l
             \<and> (\<forall>j < i. e820_usable (es ! j) \<longrightarrow> e_length (es ! j) < l))"

lemma e820_best_Nil: "e820_best [] 0 0"
  by (simp add: e820_best_def)

lemma e820_best_snoc:
  assumes "e820_best es b l"
  shows "e820_best (es @ [e]) (if e820_usable e \<and> l < e_length e then e_base e else b)
           (if e820_usable e \<and> l < e_length e then e_length e else l)"
proof (cases "e820_usable e \<and> l < e_length e")
  case True
  have "\<forall>j < length es. e820_usable ((es @ [e]) ! j) \<longrightarrow> e_length ((es @ [e]) ! j) < e_length e"
    using assms True by (auto simp: e820_best_def nth_append dest: nth_mem)
  with True assms show ?thesis
    by (auto simp: e820_best_def intro!: exI [of _ "length es"])
next
  case False
  then have le: "e820_usable e \<longrightarrow> e_length e \<le> l" by auto
  show ?thesis
  proof (cases "l = 0")
    case True
    with False le assms show ?thesis by (auto simp: e820_best_def)
  next
    case nz: False
    then obtain i where i: "i < length es" "e820_usable (es ! i)" "e_base (es ! i) = b"
        "e_length (es ! i) = l" "\<forall>j < i. e820_usable (es ! j) \<longrightarrow> e_length (es ! j) < l"
      using assms by (auto simp: e820_best_def)
    have "\<exists>i < length (es @ [e]). e820_usable ((es @ [e]) ! i) \<and> e_base ((es @ [e]) ! i) = b
        \<and> e_length ((es @ [e]) ! i) = l
        \<and> (\<forall>j < i. e820_usable ((es @ [e]) ! j) \<longrightarrow> e_length ((es @ [e]) ! j) < l)"
      using i by (intro exI [of _ i]) (auto simp: nth_append)
    with False nz le assms show ?thesis by (auto simp: e820_best_def)
  qed
qed

text \<open>\<^verbatim>\<open>memory_init\<close> selects the first of the longest usable regions at or above 1 MB as the
  kernel heap region, and leaves base and length 0 when there is none.\<close>
theorem memory_init_best:
  "e820_best es (heap_base (memory_init es memory_state0)) (heap_size (memory_init es memory_state0))"
proof (induction es rule: rev_induct)
  case Nil
  then show ?case by (simp add: memory_init_def memory_state0_def e820_best_Nil)
next
  case (snoc e es)
  from e820_best_snoc [OF snoc, of e] show ?case
    by (auto simp: memory_init_def memory_scan_def e820_usable_def split: if_splits)
qed

end
