(* ===== verification/Frame_Allocator.thy ===== *)
theory Frame_Allocator
  imports Prelude
begin

text \<open>
  The interface between the physical memory manager and its clients (the virtual memory
  manager, the ELF loader, the user stacks of \<^verbatim>\<open>elf_exec\<close>): an allocator of page
  frames identified by their 32-bit address, with null for exhaustion. The clients loop
  over it; \<open>alloc_frames\<close> is that loop, and its lemmas are proved once from the laws.
\<close>

fun alloc_frames :: "('s \<Rightarrow> 's \<times> u32) \<Rightarrow> nat \<Rightarrow> 's \<Rightarrow> 's \<times> u32 list" where
  "alloc_frames falloc 0 s = (s, [])"
| "alloc_frames falloc (Suc n) s =
     (let (s1, a) = falloc s in
      if a = 0 then (s1, []) else let (s2, as) = alloc_frames falloc n s1 in (s2, a # as))"

locale frame_allocator =
  fixes inv :: "'s \<Rightarrow> bool"
    and pool :: "'s \<Rightarrow> u32 set"
    and live :: "'s \<Rightarrow> u32 set"
    and falloc :: "'s \<Rightarrow> 's \<times> u32"
    and ffree :: "u32 \<Rightarrow> 's \<Rightarrow> 's"
  assumes pool_finite: "finite (pool s)"
    and pool_nonnull: "inv s \<Longrightarrow> 0 \<notin> pool s"
    and live_pool: "inv s \<Longrightarrow> live s \<subseteq> pool s"
    and falloc_null: "inv s \<Longrightarrow> falloc s = (s', 0) \<Longrightarrow> s' = s \<and> live s = pool s"
    and falloc_fresh: "inv s \<Longrightarrow> falloc s = (s', a) \<Longrightarrow> a \<noteq> 0 \<Longrightarrow>
          inv s' \<and> a \<in> pool s - live s \<and> live s' = insert a (live s) \<and> pool s' = pool s"
    and ffree_live: "inv s \<Longrightarrow> a \<in> pool s \<Longrightarrow>
          inv (ffree a s) \<and> live (ffree a s) = live s - {a} \<and> pool (ffree a s) = pool s"
    and ffree_falloc: "inv s \<Longrightarrow> falloc s = (s', a) \<Longrightarrow> a \<noteq> 0 \<Longrightarrow> ffree a s' = s"
begin

lemma falloc_inv: "inv s \<Longrightarrow> falloc s = (s', a) \<Longrightarrow> inv s'"
  by (metis falloc_null falloc_fresh)

lemma falloc_null_iff:
  assumes "inv s" "falloc s = (s', a)"
  shows "a = 0 \<longleftrightarrow> live s = pool s"
proof
  show "live s = pool s" if "a = 0"
    using assms falloc_null that by metis
  show "a = 0" if "live s = pool s"
    using assms falloc_fresh that by (metis Diff_cancel empty_iff)
qed

lemma alloc_frames_spec:
  assumes "inv s" and "alloc_frames falloc n s = (s', as)"
  shows "inv s' \<and> pool s' = pool s \<and> live s' = live s \<union> set as \<and> distinct as
       \<and> set as \<subseteq> pool s - live s"
  using assms
proof (induction n arbitrary: s s' as)
  case 0
  then show ?case by auto
next
  case (Suc n)
  obtain s1 a where fa: "falloc s = (s1, a)" by (cases "falloc s")
  show ?case
  proof (cases "a = 0")
    case True
    with fa Suc.prems falloc_null [of s s1] show ?thesis by auto
  next
    case False
    obtain s2 bs where ab: "alloc_frames falloc n s1 = (s2, bs)"
      by (cases "alloc_frames falloc n s1")
    from falloc_fresh [OF Suc.prems(1) fa False] have f:
      "inv s1" "a \<in> pool s - live s" "live s1 = insert a (live s)" "pool s1 = pool s" by auto
    from Suc.prems(2) fa ab False have eq: "s' = s2" "as = a # bs" by auto
    from Suc.IH [OF f(1) ab] f eq show ?thesis by auto
  qed
qed

lemma alloc_frames_length:
  assumes "inv s" and "alloc_frames falloc n s = (s', as)"
  shows "length as = min n (card (pool s - live s))"
  using assms
proof (induction n arbitrary: s s' as)
  case 0
  then show ?case by auto
next
  case (Suc n)
  obtain s1 a where fa: "falloc s = (s1, a)" by (cases "falloc s")
  show ?case
  proof (cases "a = 0")
    case True
    with fa Suc.prems falloc_null [of s s1] show ?thesis by auto
  next
    case False
    obtain s2 bs where ab: "alloc_frames falloc n s1 = (s2, bs)"
      by (cases "alloc_frames falloc n s1")
    from falloc_fresh [OF Suc.prems(1) fa False] have f:
      "inv s1" "a \<in> pool s - live s" "live s1 = insert a (live s)" "pool s1 = pool s" by auto
    from Suc.prems(2) fa ab False have eq: "s' = s2" "as = a # bs" by auto
    have "pool s - live s = insert a (pool s1 - live s1)" using f by auto
    moreover have "a \<notin> pool s1 - live s1" using f by auto
    ultimately have "card (pool s - live s) = Suc (card (pool s1 - live s1))"
      using pool_finite by simp
    with Suc.IH [OF f(1) ab] eq show ?thesis by simp
  qed
qed

text \<open>Freeing in the reverse order undoes a run of allocations exactly.\<close>

lemma alloc_frames_undo:
  assumes "inv s" and "alloc_frames falloc n s = (s', as)"
  shows "fold ffree (rev as) s' = s"
  using assms
proof (induction n arbitrary: s s' as)
  case 0
  then show ?case by auto
next
  case (Suc n)
  obtain s1 a where fa: "falloc s = (s1, a)" by (cases "falloc s")
  show ?case
  proof (cases "a = 0")
    case True
    with fa Suc.prems falloc_null [of s s1] show ?thesis by auto
  next
    case False
    obtain s2 bs where ab: "alloc_frames falloc n s1 = (s2, bs)"
      by (cases "alloc_frames falloc n s1")
    from Suc.prems(2) fa ab False have eq: "s' = s2" "as = a # bs" by auto
    from falloc_inv [OF Suc.prems(1) fa] have "inv s1" .
    from Suc.IH [OF this ab] ffree_falloc [OF Suc.prems(1) fa False] eq show ?thesis by simp
  qed
qed

text \<open>Freeing any list of pool frames, in any order, removes exactly them.\<close>

lemma ffree_list:
  "inv s \<Longrightarrow> set as \<subseteq> pool s \<Longrightarrow>
     inv (fold ffree as s) \<and> pool (fold ffree as s) = pool s
     \<and> live (fold ffree as s) = live s - set as"
proof (induction as arbitrary: s)
  case Nil
  then show ?case by simp
next
  case (Cons a as)
  with ffree_live [of s a] Cons.IH [of "ffree a s"] show ?case by auto
qed

end

end
