(* ===== verification/Pmm.thy ===== *)
theory Pmm
  imports E820 Frame_Allocator
begin

text \<open>
  \<^verbatim>\<open>kernel/memory/pmm/pmm.cpp\<close>: the bitmap allocator of physical page frames. The
  static variables are the record \<open>pmm\<close>; the bitmap, which lives at physical address
  \<^verbatim>\<open>bitmap\<close>, is a function from word index to 32-bit word. Bit set means frame in use.
\<close>

subsection \<open>State and operations\<close>

record pmm =
  pm_bitmap :: u32                \<comment> \<open>address of the bitmap and of frame 0\<close>
  pm_words :: "u32 \<Rightarrow> u32"        \<comment> \<open>\<^verbatim>\<open>bitmap[i]\<close>\<close>
  pm_total :: u32
  pm_used :: u32
  pm_skip :: u32                  \<comment> \<open>\<^verbatim>\<open>bmap_skip\<close>: first allocatable frame\<close>

definition pmm_set :: "u32 \<Rightarrow> pmm \<Rightarrow> pmm" where
  "pmm_set f p = p\<lparr>pm_words := (pm_words p)
     (f div 32 := pm_words p (f div 32) OR push_bit (unat (f mod 32)) 1)\<rparr>"

definition pmm_clr :: "u32 \<Rightarrow> pmm \<Rightarrow> pmm" where
  "pmm_clr f p = p\<lparr>pm_words := (pm_words p)
     (f div 32 := pm_words p (f div 32) AND NOT (push_bit (unat (f mod 32)) 1))\<rparr>"

definition pmm_tst :: "pmm \<Rightarrow> u32 \<Rightarrow> bool" where
  "pmm_tst p f \<longleftrightarrow> drop_bit (unat (f mod 32)) (pm_words p (f div 32)) AND 1 \<noteq> 0"

text \<open>The scan of \<^verbatim>\<open>pmm_init\<close> keeps \<^verbatim>\<open>(best_base, best_len)\<close>.\<close>

definition pmm_scan :: "e820_entry \<Rightarrow> u64 \<times> u64 \<Rightarrow> u64 \<times> u64" where
  "pmm_scan e bl =
     (if e_type e = 1 \<and> 0x100000 \<le> e_base e \<and> snd bl < e_length e
      then (e_base e, e_length e) else bl)"

definition pmm_bmap_pages :: "u32 \<Rightarrow> u32" where
  "pmm_bmap_pages tot = (((tot + 31) div 32) * 4 + 4096 - 1) div 4096"

definition pmm_fill_word :: "nat \<Rightarrow> pmm \<Rightarrow> pmm" where
  "pmm_fill_word i p = p\<lparr>pm_words := (pm_words p)(word_of_nat i := 0xFFFFFFFF)\<rparr>"

definition pmm_init :: "e820_entry list \<Rightarrow> pmm \<Rightarrow> pmm" where
  "pmm_init es p =
     (let bl = fold pmm_scan es (0, 0); best_base = fst bl; best_len = snd bl in
      if best_base = 0 \<or> best_len = 0 then p
      else
        let tot = ucast (best_len div 4096) :: u32;
            skip = pmm_bmap_pages tot + 128;
            p1 = p\<lparr>pm_total := tot, pm_bitmap := ucast best_base, pm_skip := skip\<rparr>;
            p2 = fold pmm_fill_word [0..<unat ((tot + 31) div 32)] p1;
            p3 = fold (\<lambda>i. pmm_clr (word_of_nat i)) [unat skip..<unat tot] p2
        in p3\<lparr>pm_used := skip\<rparr>)"

definition frame_addr :: "pmm \<Rightarrow> nat \<Rightarrow> u32" where
  "frame_addr p i = pm_bitmap p + word_of_nat i * 4096"

definition pmm_alloc :: "pmm \<Rightarrow> pmm \<times> u32" where
  "pmm_alloc p =
     (case List.find (\<lambda>i. \<not> pmm_tst p (word_of_nat i)) [unat (pm_skip p)..<unat (pm_total p)] of
        Some i \<Rightarrow> ((pmm_set (word_of_nat i) p)\<lparr>pm_used := pm_used p + 1\<rparr>, frame_addr p i)
      | None \<Rightarrow> (p, 0))"

definition pmm_free :: "u32 \<Rightarrow> pmm \<Rightarrow> pmm" where
  "pmm_free addr p =
     (if addr = 0 then p
      else let frame = (addr - pm_bitmap p) div 4096 in
        if frame < pm_skip p \<or> pm_total p \<le> frame then p
        else if \<not> pmm_tst p frame then p
        else (pmm_clr frame p)\<lparr>pm_used := pm_used p - 1\<rparr>)"

definition pmm_used :: "pmm \<Rightarrow> u32" where
  "pmm_used p = pm_used p"

definition pmm_free_count :: "pmm \<Rightarrow> u32" where
  "pmm_free_count p = pm_total p - pm_used p"

definition pmm_total :: "pmm \<Rightarrow> u32" where
  "pmm_total p = pm_total p"

subsection \<open>Bits of the bitmap\<close>

lemma pmm_tst_bit: "pmm_tst p f \<longleftrightarrow> bit (pm_words p (f div 32)) (unat (f mod 32))"
  by (simp add: pmm_tst_def bit_iff_odd_drop_bit and_one_eq odd_iff_mod_2_eq_one)

lemma unat_mod_32_less: "unat (f mod 32 :: u32) < 32"
  by (simp add: unat_mod)

lemma u32_div_mod_32_eq:
  fixes f g :: u32
  assumes "f div 32 = g div 32" "unat (f mod 32) = unat (g mod 32)"
  shows "f = g"
  using assms by (metis div_mult_mod_eq unsigned_word_eqI)

lemma pmm_tst_set: "pmm_tst (pmm_set f p) g \<longleftrightarrow> g = f \<or> pmm_tst p g"
  using u32_div_mod_32_eq [of g f]
  by (auto simp: pmm_tst_bit pmm_set_def bit_or_iff bit_exp_iff unat_mod_32_less)

lemma pmm_tst_clr: "pmm_tst (pmm_clr f p) g \<longleftrightarrow> g \<noteq> f \<and> pmm_tst p g"
  using u32_div_mod_32_eq [of g f] unat_mod_32_less [of g]
  by (auto simp: pmm_tst_bit pmm_clr_def bit_and_iff bit_not_iff bit_exp_iff)

lemma pmm_clr_set: "\<not> pmm_tst p f \<Longrightarrow> pmm_clr f (pmm_set f p) = p"
  by (cases p)
    (auto simp: pmm_tst_bit pmm_clr_def pmm_set_def bit_and_iff bit_or_iff bit_not_iff bit_exp_iff
      intro!: bit_word_eqI ext split: if_splits)

subsection \<open>Invariant\<close>

definition pmm_in_range :: "pmm \<Rightarrow> nat \<Rightarrow> bool" where
  "pmm_in_range p i \<longleftrightarrow> unat (pm_skip p) \<le> i \<and> i < unat (pm_total p)"

definition pmm_live_set :: "pmm \<Rightarrow> nat set" where
  "pmm_live_set p = {i. pmm_in_range p i \<and> pmm_tst p (word_of_nat i)}"

text \<open>
  The invariant: the reserved frames fit in the region, the region lies below 4 GB, and
  \<^verbatim>\<open>used\<close> counts the reserved frames and the set bits of the allocatable range.
\<close>

definition pmm_inv :: "pmm \<Rightarrow> bool" where
  "pmm_inv p \<longleftrightarrow> 0 < pm_skip p \<and> pm_skip p \<le> pm_total p
     \<and> unat (pm_bitmap p) + unat (pm_total p) * 4096 \<le> 4294967296
     \<and> unat (pm_used p) = unat (pm_skip p) + card (pmm_live_set p)"

definition pmm_pool :: "pmm \<Rightarrow> u32 set" where
  "pmm_pool p = frame_addr p ` {i. pmm_in_range p i}"

definition pmm_live :: "pmm \<Rightarrow> u32 set" where
  "pmm_live p = frame_addr p ` pmm_live_set p"

lemma pmm_range_finite [simp]: "finite {i. pmm_in_range p i}"
  by (rule finite_subset [of _ "{..<unat (pm_total p)}"]) (auto simp: pmm_in_range_def)

lemma pmm_live_set_finite [simp]: "finite (pmm_live_set p)"
  by (rule finite_subset [of _ "{i. pmm_in_range p i}"]) (auto simp: pmm_live_set_def)

lemma pmm_in_range_u32: "pmm_in_range p i \<Longrightarrow> i < 4294967296"
  using unat_u32_less [of "pm_total p"] by (auto simp: pmm_in_range_def intro: less_trans)

lemma unat_frame_addr:
  assumes "pmm_inv p" "pmm_in_range p i"
  shows "unat (frame_addr p i) = unat (pm_bitmap p) + i * 4096"
proof -
  have b: "unat (pm_bitmap p) + i * 4096 < 4294967296"
    using assms by (auto simp: pmm_inv_def pmm_in_range_def)
  then have "unat (word_of_nat i * 4096 :: u32) = i * 4096"
    by (subst unat_mult_u32) (simp_all add: unat_of_nat_u32)
  with b show ?thesis
    unfolding frame_addr_def by (subst unat_add_u32) simp_all
qed

lemma frame_addr_inj: "pmm_inv p \<Longrightarrow> inj_on (frame_addr p) {i. pmm_in_range p i}"
  by (rule inj_onI) (metis unat_frame_addr add_left_cancel mem_Collect_eq mult_right_cancel
      zero_neq_numeral)

lemma frame_addr_nonnull: "pmm_inv p \<Longrightarrow> pmm_in_range p i \<Longrightarrow> frame_addr p i \<noteq> 0"
  using unat_frame_addr [of p i]
  by (auto simp: pmm_inv_def pmm_in_range_def word_less_nat_alt unat_eq_0)

text \<open>\<^verbatim>\<open>pmm_free\<close> recovers the frame index from its address.\<close>

lemma frame_of_addr:
  assumes "pmm_inv p" "pmm_in_range p i"
  shows "(frame_addr p i - pm_bitmap p) div 4096 = word_of_nat i"
proof -
  have b: "i * 4096 < 4294967296"
    using assms by (auto simp: pmm_inv_def pmm_in_range_def)
  then have "unat (word_of_nat i * 4096 :: u32) = i * 4096"
    by (subst unat_mult_u32) (simp_all add: unat_of_nat_u32)
  then have "unat ((word_of_nat i * 4096 :: u32) div 4096) = i"
    by (simp add: unat_div)
  with b show ?thesis
    by (simp add: frame_addr_def unat_of_nat_u32 word_unat_eq_iff)
qed

subsection \<open>Allocation and release\<close>

lemma pmm_in_range_set [simp]: "pmm_in_range (pmm_set f p) i = pmm_in_range p i"
  by (simp add: pmm_in_range_def pmm_set_def)

lemma pmm_in_range_clr [simp]: "pmm_in_range (pmm_clr f p) i = pmm_in_range p i"
  by (simp add: pmm_in_range_def pmm_clr_def)

lemma pmm_in_range_used [simp]: "pmm_in_range (p\<lparr>pm_used := u\<rparr>) i = pmm_in_range p i"
  by (simp add: pmm_in_range_def)

lemma pmm_tst_used [simp]: "pmm_tst (p\<lparr>pm_used := u\<rparr>) i = pmm_tst p i"
  by (simp add: pmm_tst_def)

lemma pmm_set_fields [simp]:
  "pm_bitmap (pmm_set f p) = pm_bitmap p" "pm_total (pmm_set f p) = pm_total p"
  "pm_used (pmm_set f p) = pm_used p" "pm_skip (pmm_set f p) = pm_skip p"
  by (simp_all add: pmm_set_def)

lemma pmm_clr_fields [simp]:
  "pm_bitmap (pmm_clr f p) = pm_bitmap p" "pm_total (pmm_clr f p) = pm_total p"
  "pm_used (pmm_clr f p) = pm_used p" "pm_skip (pmm_clr f p) = pm_skip p"
  by (simp_all add: pmm_clr_def)

lemma frame_addr_upd [simp]:
  "frame_addr ((pmm_set f p)\<lparr>pm_used := u\<rparr>) = frame_addr p"
  "frame_addr ((pmm_clr f p)\<lparr>pm_used := u\<rparr>) = frame_addr p"
  by (simp_all add: frame_addr_def fun_eq_iff)

lemma pmm_index_eq_iff:
  "pmm_in_range p i \<Longrightarrow> pmm_in_range p j \<Longrightarrow> (word_of_nat i :: u32) = word_of_nat j \<longleftrightarrow> i = j"
  by (metis pmm_in_range_u32 unat_of_nat_u32)

text \<open>The live frames as a set of indices, after setting and clearing one bit.\<close>

lemma pmm_live_set_set:
  "pmm_in_range p i \<Longrightarrow> pmm_live_set ((pmm_set (word_of_nat i) p)\<lparr>pm_used := u\<rparr>) = insert i (pmm_live_set p)"
  by (auto simp: pmm_live_set_def pmm_tst_set pmm_index_eq_iff)

lemma pmm_live_set_clr:
  "pmm_in_range p i \<Longrightarrow> pmm_live_set ((pmm_clr (word_of_nat i) p)\<lparr>pm_used := u\<rparr>) = pmm_live_set p - {i}"
  by (auto simp: pmm_live_set_def pmm_tst_clr pmm_index_eq_iff)

lemma pmm_alloc_cases:
  obtains (None) "pmm_alloc p = (p, 0)" "\<forall>i. pmm_in_range p i \<longrightarrow> pmm_tst p (word_of_nat i)"
  | (Some) i where "pmm_alloc p = ((pmm_set (word_of_nat i) p)\<lparr>pm_used := pm_used p + 1\<rparr>, frame_addr p i)"
      "pmm_in_range p i" "\<not> pmm_tst p (word_of_nat i)"
      "\<forall>j. pmm_in_range p j \<longrightarrow> j < i \<longrightarrow> pmm_tst p (word_of_nat j)"
proof (cases "List.find (\<lambda>i. \<not> pmm_tst p (word_of_nat i)) [unat (pm_skip p)..<unat (pm_total p)]")
  case None
  then show ?thesis
    by (intro that(1)) (simp add: pmm_alloc_def, auto simp: find_upt_None_iff pmm_in_range_def)
next
  case (Some i)
  then show ?thesis
    by (intro that(2) [of i]) (simp add: pmm_alloc_def, auto simp: find_upt_Some_iff pmm_in_range_def)
qed

lemma card_live_set_bound: "pmm_inv p \<Longrightarrow> unat (pm_skip p) + card (pmm_live_set p) \<le> unat (pm_total p)"
proof -
  assume "pmm_inv p"
  then have "unat (pm_skip p) \<le> unat (pm_total p)" by (simp add: pmm_inv_def word_le_nat_alt)
  moreover have "card (pmm_live_set p) \<le> card {unat (pm_skip p)..<unat (pm_total p)}"
    by (rule card_mono) (auto simp: pmm_live_set_def pmm_in_range_def)
  ultimately show ?thesis by simp
qed

lemma card_live_set_free_bound:
  assumes "pmm_inv p" "pmm_in_range p i" "i \<notin> pmm_live_set p"
  shows "unat (pm_skip p) + card (pmm_live_set p) < unat (pm_total p)"
proof -
  have "card (insert i (pmm_live_set p)) \<le> card {unat (pm_skip p)..<unat (pm_total p)}"
    using assms(2) by (intro card_mono) (auto simp: pmm_live_set_def pmm_in_range_def)
  with assms(2,3) show ?thesis by (auto simp: pmm_in_range_def)
qed

lemma pmm_inv_alloc [kinv]:
  assumes "pmm_inv p" "pmm_in_range p i" "\<not> pmm_tst p (word_of_nat i)"
  shows "pmm_inv ((pmm_set (word_of_nat i) p)\<lparr>pm_used := pm_used p + 1\<rparr>)"
proof -
  have n: "i \<notin> pmm_live_set p" using assms(3) by (simp add: pmm_live_set_def)
  have "unat (pm_used p) < unat (pm_total p)"
    using card_live_set_free_bound [OF assms(1,2) n] assms(1) by (simp add: pmm_inv_def)
  then have "unat (pm_used p) + 1 < 4294967296"
    using unat_u32_less [of "pm_total p"] by linarith
  then have "unat (pm_used p + 1) = unat (pm_used p) + 1"
    by (subst unat_add_u32) simp_all
  with assms n show ?thesis
    by (simp add: pmm_inv_def pmm_live_set_set)
qed

lemma pmm_inv_free [kinv]:
  assumes "pmm_inv p" "pmm_in_range p i" "pmm_tst p (word_of_nat i)"
  shows "pmm_inv ((pmm_clr (word_of_nat i) p)\<lparr>pm_used := pm_used p - 1\<rparr>)"
proof -
  have m: "i \<in> pmm_live_set p" using assms by (simp add: pmm_live_set_def)
  then have c: "0 < card (pmm_live_set p)" by (auto simp: card_gt_0_iff)
  then have "1 \<le> pm_used p"
    using assms(1) by (simp add: pmm_inv_def word_le_nat_alt)
  then have "unat (pm_used p - 1) = unat (pm_used p) - 1"
    by (simp add: unat_sub_u32)
  with assms m c show ?thesis
    by (simp add: pmm_inv_def pmm_live_set_clr)
qed

lemma pmm_free_frame:
  assumes "pmm_inv p" "pmm_in_range p i"
  shows "pmm_free (frame_addr p i) p =
    (if pmm_tst p (word_of_nat i) then (pmm_clr (word_of_nat i) p)\<lparr>pm_used := pm_used p - 1\<rparr> else p)"
proof -
  have "i < 4294967296" using assms(2) by (rule pmm_in_range_u32)
  then have "\<not> word_of_nat i < pm_skip p" "\<not> pm_total p \<le> word_of_nat i"
    using assms(2) by (auto simp: word_less_nat_alt word_le_nat_alt unat_of_nat_u32 pmm_in_range_def)
  with frame_addr_nonnull [OF assms] frame_of_addr [OF assms] show ?thesis
    by (simp add: pmm_free_def Let_def)
qed

text \<open>Any other address leaves the allocator alone.\<close>

lemma pmm_free_outside:
  assumes "(addr - pm_bitmap p) div 4096 < pm_skip p \<or> pm_total p \<le> (addr - pm_bitmap p) div 4096"
  shows "pmm_free addr p = p"
  using assms by (simp add: pmm_free_def Let_def)

subsection \<open>The physical memory manager implements the frame allocator interface\<close>

lemma pmm_pool_alloc:
  "pmm_pool ((pmm_set f p)\<lparr>pm_used := u\<rparr>) = pmm_pool p"
  "pmm_pool ((pmm_clr f p)\<lparr>pm_used := u\<rparr>) = pmm_pool p"
  by (simp_all add: pmm_pool_def)

lemma pmm_live_alloc:
  "pmm_in_range p i \<Longrightarrow>
   pmm_live ((pmm_set (word_of_nat i) p)\<lparr>pm_used := u\<rparr>) = insert (frame_addr p i) (pmm_live p)"
  by (simp add: pmm_live_def pmm_live_set_set)

lemma pmm_live_free:
  assumes "pmm_inv p" "pmm_in_range p i"
  shows "pmm_live ((pmm_clr (word_of_nat i) p)\<lparr>pm_used := u\<rparr>) = pmm_live p - {frame_addr p i}"
proof -
  have "frame_addr p ` (pmm_live_set p - {i}) = frame_addr p ` pmm_live_set p - frame_addr p ` {i}"
    by (rule inj_on_image_set_diff [OF frame_addr_inj [OF assms(1)]])
      (use assms(2) in \<open>auto simp: pmm_live_set_def\<close>)
  with assms show ?thesis
    by (simp add: pmm_live_def pmm_live_set_clr)
qed

lemma frame_addr_live_iff:
  assumes "pmm_inv p" "pmm_in_range p i"
  shows "frame_addr p i \<in> pmm_live p \<longleftrightarrow> pmm_tst p (word_of_nat i)"
proof -
  have "pmm_live_set p \<subseteq> {i. pmm_in_range p i}" by (auto simp: pmm_live_set_def)
  with assms show ?thesis
    unfolding pmm_live_def
    by (subst inj_on_image_mem_iff [OF frame_addr_inj]) (auto simp: pmm_live_set_def)
qed

text \<open>Releasing the frame just allocated restores the state bit for bit.\<close>

lemma pmm_free_alloc:
  assumes I: "pmm_inv p" and al: "pmm_alloc p = (p', a)" and nz: "a \<noteq> 0"
  shows "pmm_free a p' = p"
proof (cases rule: pmm_alloc_cases [of p])
  case None
  with al nz show ?thesis by simp
next
  case (Some i)
  with al have p': "p' = (pmm_set (word_of_nat i) p)\<lparr>pm_used := pm_used p + 1\<rparr>"
    and a: "a = frame_addr p' i" by auto
  from p' Some have I': "pmm_inv p'" "pmm_in_range p' i" by (auto simp: pmm_inv_alloc I)
  have "pmm_clr (word_of_nat i) p' = p\<lparr>pm_used := pm_used p + 1\<rparr>"
    using pmm_clr_set [OF Some(3)] by (cases p) (simp add: p' pmm_clr_def pmm_set_def)
  then show ?thesis
    unfolding a by (subst pmm_free_frame [OF I']) (simp add: p' pmm_tst_set)
qed

lemma pmm_alloc_fresh:
  assumes "pmm_inv p" "pmm_alloc p = (p', a)" "a \<noteq> 0"
  shows "pmm_inv p' \<and> a \<in> pmm_pool p - pmm_live p \<and> pmm_live p' = insert a (pmm_live p)
      \<and> pmm_pool p' = pmm_pool p"
proof (cases rule: pmm_alloc_cases [of p])
  case None
  with assms show ?thesis by simp
next
  case (Some i)
  moreover from Some have "frame_addr p i \<in> pmm_pool p" by (simp add: pmm_pool_def)
  ultimately show ?thesis
    using assms by (auto simp: pmm_live_alloc pmm_pool_alloc frame_addr_live_iff pmm_inv_alloc)
qed

lemma pmm_alloc_null:
  assumes "pmm_inv p" "pmm_alloc p = (p', 0)"
  shows "p' = p \<and> pmm_live p = pmm_pool p"
  using assms frame_addr_nonnull [OF assms(1)]
  by (cases rule: pmm_alloc_cases [of p]) (auto simp: pmm_live_def pmm_pool_def pmm_live_set_def)

lemma pmm_free_live:
  assumes "pmm_inv p" "a \<in> pmm_pool p"
  shows "pmm_inv (pmm_free a p) \<and> pmm_live (pmm_free a p) = pmm_live p - {a}
      \<and> pmm_pool (pmm_free a p) = pmm_pool p"
proof -
  obtain i where i: "a = frame_addr p i" "pmm_in_range p i" using assms by (auto simp: pmm_pool_def)
  with assms show ?thesis
    by (auto simp: pmm_free_frame pmm_live_free pmm_pool_alloc frame_addr_live_iff pmm_inv_free)
qed

interpretation pmm: frame_allocator pmm_inv pmm_pool pmm_live pmm_alloc pmm_free
proof unfold_locales
  show "finite (pmm_pool p)" for p by (simp add: pmm_pool_def)
  show "0 \<notin> pmm_pool p" if "pmm_inv p" for p
    using frame_addr_nonnull [OF that] by (auto simp: pmm_pool_def)
  show "pmm_live p \<subseteq> pmm_pool p" for p by (auto simp: pmm_live_def pmm_pool_def pmm_live_set_def)
qed (rule pmm_alloc_null pmm_alloc_fresh pmm_free_live pmm_free_alloc; assumption)+

subsection \<open>Initialisation\<close>

text \<open>The scan of \<^verbatim>\<open>pmm_init\<close> finds the region \<^verbatim>\<open>memory_init\<close> found.\<close>

lemma pmm_scan_step:
  "pmm_scan e (heap_base m, heap_size m) = (heap_base (memory_scan e m), heap_size (memory_scan e m))"
  by (simp add: memory_scan_def pmm_scan_def)

lemma pmm_scan_eq:
  "fold pmm_scan es (heap_base m, heap_size m) = (heap_base (memory_init es m), heap_size (memory_init es m))"
  by (induction es arbitrary: m) (simp_all add: memory_init_def pmm_scan_step)

lemma fold_clr_tst:
  "pmm_tst (fold (\<lambda>i. pmm_clr (word_of_nat i)) xs p) g \<longleftrightarrow> g \<notin> word_of_nat ` set xs \<and> pmm_tst p g"
  by (induction xs arbitrary: p) (auto simp: pmm_tst_clr)

lemma fold_clr_fields [simp]:
  "pm_bitmap (fold (\<lambda>i. pmm_clr (f i)) xs p) = pm_bitmap p"
  "pm_total (fold (\<lambda>i. pmm_clr (f i)) xs p) = pm_total p"
  "pm_skip (fold (\<lambda>i. pmm_clr (f i)) xs p) = pm_skip p"
  by (induction xs arbitrary: p) simp_all

lemma fold_fill_fields [simp]:
  "pm_bitmap (fold pmm_fill_word xs p) = pm_bitmap p"
  "pm_total (fold pmm_fill_word xs p) = pm_total p"
  "pm_skip (fold pmm_fill_word xs p) = pm_skip p"
  by (induction xs arbitrary: p) (simp_all add: pmm_fill_word_def)

text \<open>
  \<open>pmm_region es b t\<close>: the largest usable region of the memory map starts at \<open>b\<close>, has \<open>t\<close>
  frames, lies below 4 GB and has room for the reserved frames.
\<close>

definition pmm_region :: "e820_entry list \<Rightarrow> u32 \<Rightarrow> u32 \<Rightarrow> bool" where
  "pmm_region es b t \<longleftrightarrow>
     (let m = memory_init es memory_state0 in
      heap_base m = ucast b \<and> b \<noteq> 0 \<and> heap_size m div 4096 = ucast t \<and> heap_size m \<noteq> 0
      \<and> unat b + unat t * 4096 \<le> 4294967296 \<and> pmm_bmap_pages t + 128 \<le> t)"

lemma pmm_init_fields:
  assumes "pmm_region es b t"
  shows "pm_bitmap (pmm_init es p) = b" "pm_total (pmm_init es p) = t"
    "pm_skip (pmm_init es p) = pmm_bmap_pages t + 128" "pm_used (pmm_init es p) = pmm_bmap_pages t + 128"
    "unat (pmm_bmap_pages t + 128) \<le> i \<Longrightarrow> i < unat t \<Longrightarrow> \<not> pmm_tst (pmm_init es p) (word_of_nat i)"
proof -
  let ?m = "memory_init es memory_state0"
  have r: "heap_base ?m = ucast b" "b \<noteq> 0" "heap_size ?m div 4096 = ucast t" "heap_size ?m \<noteq> 0"
    using assms by (simp_all add: pmm_region_def Let_def)
  have sc: "fold pmm_scan es (0, 0) = (heap_base ?m, heap_size ?m)"
    using pmm_scan_eq [of es memory_state0] by (simp add: memory_state0_def)
  have t: "ucast (ucast t :: u64) = t" "ucast (ucast b :: u64) = b" by (simp_all add: ucast_up_ucast_id is_up)
  have nz: "heap_base ?m \<noteq> 0" using r(1,2) t(2) by (metis unsigned_0)
  note e = pmm_init_def Let_def sc fst_conv snd_conv r(1,3) t
  show "pm_bitmap (pmm_init es p) = b" "pm_total (pmm_init es p) = t"
    "pm_skip (pmm_init es p) = pmm_bmap_pages t + 128" "pm_used (pmm_init es p) = pmm_bmap_pages t + 128"
    using nz r(4) r(1) by (simp_all add: e)
  show "\<not> pmm_tst (pmm_init es p) (word_of_nat i)" if "unat (pmm_bmap_pages t + 128) \<le> i" "i < unat t"
    using nz r(4) r(1) that by (simp add: e fold_clr_tst)
qed

lemma unat_pmm_skip: "unat (pmm_bmap_pages t + 128) = unat (pmm_bmap_pages t) + 128"
proof -
  have "unat (pmm_bmap_pages t) = unat (((t + 31) div 32) * 4 + 4096 - 1) div 4096"
    by (simp add: pmm_bmap_pages_def unat_div)
  moreover have "unat (((t + 31) div 32) * 4 + 4096 - 1) < 4294967296" by (rule unat_u32_less)
  ultimately have "unat (pmm_bmap_pages t) \<le> 1048576" by linarith
  then show ?thesis by (subst unat_add_u32) simp_all
qed

lemma pmm_init_ready:
  assumes "pmm_region es b t"
  shows "pmm_inv (pmm_init es p)" "pmm_live (pmm_init es p) = {}"
proof -
  note f = pmm_init_fields [OF assms, where p = p]
  have "pmm_live_set (pmm_init es p) = {}"
    using pmm_init_fields(5) [OF assms] by (auto simp: pmm_live_set_def pmm_in_range_def f)
  then show "pmm_live (pmm_init es p) = {}" by (simp add: pmm_live_def)
  have "unat (pmm_bmap_pages t + 128) \<noteq> 0" by (simp add: unat_pmm_skip)
  then have "pmm_bmap_pages t + 128 \<noteq> 0" by (metis unat_0)
  with \<open>pmm_live_set (pmm_init es p) = {}\<close> assms show "pmm_inv (pmm_init es p)"
    by (simp add: pmm_inv_def f pmm_region_def Let_def word_gt_0)
qed

subsection \<open>Properties\<close>

text \<open>The statics of \<^verbatim>\<open>pmm.cpp\<close> before \<^verbatim>\<open>pmm_init\<close>, and a machine with 16 MB above 1 MB.\<close>

definition pmm0 :: pmm where
  "pmm0 = \<lparr>pm_bitmap = 0, pm_words = (\<lambda>_. 0), pm_total = 0, pm_used = 0, pm_skip = 0\<rparr>"

definition map_16mb :: "e820_entry list" where
  "map_16mb = [\<lparr>e_base = 0, e_length = 0x9FC00, e_type = 1\<rparr>,
               \<lparr>e_base = 0x100000, e_length = 0x1000000, e_type = 1\<rparr>]"

lemma region_16mb: "pmm_region map_16mb 0x100000 4096"
  by (simp add: pmm_region_def map_16mb_def memory_init_def memory_scan_def memory_state0_def pmm_bmap_pages_def)

lemma pmm_16mb: "pmm_inv (pmm_init map_16mb pmm0)" "pmm_live (pmm_init map_16mb pmm0) = {}"
  by (rule pmm_init_ready [OF region_16mb])+

lemma pool_16mb: "0x181000 \<in> pmm_pool (pmm_init map_16mb pmm0)"
proof -
  note f = pmm_init_fields [OF region_16mb, where p = pmm0]
  have "pmm_in_range (pmm_init map_16mb pmm0) 129"
    by (simp add: pmm_in_range_def f pmm_bmap_pages_def)
  moreover have "frame_addr (pmm_init map_16mb pmm0) 129 = 0x181000" by (simp add: frame_addr_def f)
  ultimately show ?thesis unfolding pmm_pool_def by (metis image_eqI mem_Collect_eq)
qed

lemma frame_addr_mono:
  assumes "pmm_inv p" "pmm_in_range p i" "pmm_in_range p j" "i \<le> j"
  shows "frame_addr p i \<le> frame_addr p j"
  using assms unat_frame_addr [OF assms(1)] by (simp add: word_le_nat_alt)

text \<open>On a memory map whose largest usable region lies below 4 GB and has room for the
  reserved frames, \<^verbatim>\<open>pmm_init\<close> establishes the allocator's invariant with no frame in use,
  whatever the bitmap memory held before.\<close>
theorem pmm_init_spec:
  assumes "pmm_region es b t"
  shows "pmm_inv (pmm_init es p) \<and> pmm_live (pmm_init es p) = {} \<and> pm_bitmap (pmm_init es p) = b
    \<and> pmm_total (pmm_init es p) = t \<and> pmm_used (pmm_init es p) = pmm_bmap_pages t + 128"
  using pmm_init_ready [OF assms] pmm_init_fields [OF assms] by (simp add: pmm_total_def pmm_used_def)

lemma pmm_init_spec_witness: "pmm_inv (pmm_init map_16mb pmm0) \<and> pmm_total (pmm_init map_16mb pmm0) = 4096"
  using pmm_init_spec [OF region_16mb, of pmm0] by simp

text \<open>C13. \<^verbatim>\<open>pmm_alloc\<close> returns the lowest free frame of the pool and marks only that frame; it
  returns null, changing nothing, exactly when every frame is in use.\<close>
theorem pmm_alloc_spec:
  assumes "pmm_inv p" "pmm_alloc p = (p', a)"
  shows "if a = 0 then p' = p \<and> pmm_live p = pmm_pool p
    else pmm_inv p' \<and> a \<in> pmm_pool p - pmm_live p \<and> (\<forall>x \<in> pmm_pool p - pmm_live p. a \<le> x)
       \<and> pmm_live p' = insert a (pmm_live p) \<and> pmm_pool p' = pmm_pool p"
proof (cases rule: pmm_alloc_cases [of p])
  case None
  with assms pmm_alloc_null [of p p'] show ?thesis by simp
next
  case (Some i)
  have a: "a = frame_addr p i" using Some(1) assms(2) by simp
  then have "a \<noteq> 0" using frame_addr_nonnull [OF assms(1) Some(2)] by simp
  moreover have "a \<le> x" if "x \<in> pmm_pool p - pmm_live p" for x
  proof -
    from that obtain j where j: "x = frame_addr p j" "pmm_in_range p j" "j \<notin> pmm_live_set p"
      by (auto simp: pmm_pool_def pmm_live_def)
    then have "i \<le> j" using Some(4) by (auto simp: pmm_live_set_def not_less)
    then show ?thesis using frame_addr_mono [OF assms(1) Some(2) j(2)] a j(1) by simp
  qed
  ultimately show ?thesis using pmm_alloc_fresh [OF assms] by simp
qed

lemma pmm_alloc_spec_witness:
  "\<exists>p' a. pmm_alloc (pmm_init map_16mb pmm0) = (p', a) \<and> a \<noteq> 0 \<and> pmm_live p' = {a}"
proof -
  obtain p' a where al: "pmm_alloc (pmm_init map_16mb pmm0) = (p', a)" by fastforce
  from pmm_alloc_spec [OF pmm_16mb(1) al] pmm_16mb(2) pool_16mb
  show ?thesis using al by (auto split: if_splits)
qed

text \<open>\<^verbatim>\<open>pmm_free\<close> after \<^verbatim>\<open>pmm_alloc\<close> restores the allocator bit for bit, counters included,
  and freeing an address outside the pool or a frame not in use does nothing.\<close>
theorem pmm_free_undoes_alloc:
  assumes "pmm_inv p" "pmm_alloc p = (p', a)" "a \<noteq> 0"
  shows "pmm_free a p' = p \<and> pmm_free a p = p"
proof -
  from pmm_alloc_fresh [OF assms] obtain i where "a = frame_addr p i" "pmm_in_range p i" "a \<notin> pmm_live p"
    by (auto simp: pmm_pool_def)
  with assms(1) have "pmm_free a p = p" by (simp add: pmm_free_frame frame_addr_live_iff)
  with pmm.ffree_falloc [OF assms] show ?thesis by simp
qed

lemma pmm_free_undoes_alloc_witness:
  "\<exists>p' a. pmm_alloc (pmm_init map_16mb pmm0) = (p', a) \<and> pmm_free a p' = pmm_init map_16mb pmm0"
proof -
  obtain p' a where al: "pmm_alloc (pmm_init map_16mb pmm0) = (p', a)" by fastforce
  have "a \<noteq> 0" using pmm.falloc_null_iff [OF pmm_16mb(1) al] pmm_16mb(2) pool_16mb by auto
  from pmm_free_undoes_alloc [OF pmm_16mb(1) al this] al show ?thesis by blast
qed

text \<open>The counters are exact: \<^verbatim>\<open>pmm_free_count\<close> is the number of frames \<^verbatim>\<open>pmm_alloc\<close> can
  still hand out. A caller that takes \<open>n\<close> frames in a row gets that many distinct new ones,
  or as many as were left.\<close>
theorem pmm_free_count_exact:
  assumes "pmm_inv p" "alloc_frames pmm_alloc n p = (p', as)"
  shows "unat (pmm_free_count p) = card (pmm_pool p - pmm_live p)
    \<and> length as = min n (unat (pmm_free_count p)) \<and> distinct as \<and> set as \<subseteq> pmm_pool p - pmm_live p"
proof -
  have card: "card (pmm_pool p) = card {i. pmm_in_range p i}" "card (pmm_live p) = card (pmm_live_set p)"
    unfolding pmm_pool_def pmm_live_def using frame_addr_inj [OF assms(1)]
    by (auto intro!: card_image intro: inj_on_subset simp: pmm_live_set_def)
  have "{i. pmm_in_range p i} = {unat (pm_skip p)..<unat (pm_total p)}" by (auto simp: pmm_in_range_def)
  then have "card (pmm_pool p - pmm_live p) = unat (pm_total p) - unat (pm_skip p) - card (pmm_live_set p)"
    using card pmm.live_pool [OF assms(1)] pmm.pool_finite [of p]
    by (subst card_Diff_subset) (auto intro: finite_subset)
  moreover have "pm_used p \<le> pm_total p" "unat (pm_used p) = unat (pm_skip p) + card (pmm_live_set p)"
    using card_live_set_bound [OF assms(1)] assms(1) by (auto simp: pmm_inv_def word_le_nat_alt)
  ultimately have "unat (pmm_free_count p) = card (pmm_pool p - pmm_live p)"
    by (simp add: pmm_free_count_def unat_sub_u32)
  with pmm.alloc_frames_length [OF assms] pmm.alloc_frames_spec [OF assms] show ?thesis by simp
qed

lemma pmm_free_count_exact_witness:
  "\<exists>p' as. alloc_frames pmm_alloc 3 (pmm_init map_16mb pmm0) = (p', as) \<and> distinct as"
proof -
  obtain p' as where al: "alloc_frames pmm_alloc 3 (pmm_init map_16mb pmm0) = (p', as)" by fastforce
  from pmm_free_count_exact [OF pmm_16mb(1) al] al show ?thesis by blast
qed

end
