(* ===== verification/Page_Map.thy ===== *)
theory Page_Map
  imports Prelude
begin

text \<open>
  The interface of the paging code to its clients: a translation from virtual to physical
  addresses (0 for an unmapped page) that \<^verbatim>\<open>map\<close> and \<^verbatim>\<open>unmap\<close> update one
  4 KB page at a time. The range loops of \<^verbatim>\<open>paging_init\<close> are proved correct once,
  from the laws.
\<close>

definition page_base :: "u32 \<Rightarrow> u32" where
  "page_base a = a AND 0xFFFFF000"

definition page_off :: "u32 \<Rightarrow> u32" where
  "page_off a = a AND 0xFFF"

text \<open>
  The values the counter of \<^verbatim>\<open>for (addr = lo; addr < hi; addr += 0x1000)\<close> takes, when
  \<open>hi - lo\<close> is a multiple of the stride or \<open>hi\<close> is below the last page.
\<close>

definition page_range :: "u32 \<Rightarrow> u32 \<Rightarrow> u32 list" where
  "page_range lo hi = map (\<lambda>k. lo + word_of_nat k * 0x1000) [0..<(unat hi - unat lo + 0xFFF) div 0x1000]"

lemma high_mask: "(0xFFFFF000 :: u32) = NOT (mask 12)"
  by (simp add: mask_eq_exp_minus_1)

lemma low_mask: "(0xFFF :: u32) = mask 12"
  by (simp add: mask_eq_exp_minus_1)

lemma page_base_off: "page_base a OR page_off a = a"
  by (auto simp: page_base_def page_off_def high_mask low_mask bit_simps intro!: bit_word_eqI)

lemma page_base_idem [simp]: "page_base (page_base a) = page_base a"
  by (auto simp: page_base_def high_mask bit_simps intro!: bit_word_eqI)

lemma page_base_join [simp]: "page_base (page_base a OR page_off b) = page_base a"
  by (auto simp: page_base_def page_off_def high_mask low_mask bit_simps intro!: bit_word_eqI)

lemma page_off_join [simp]: "page_off (page_base a OR page_off b) = page_off b"
  by (auto simp: page_base_def page_off_def high_mask low_mask bit_simps intro!: bit_word_eqI)

locale page_map =
  fixes inv :: "'s \<Rightarrow> bool"
    and translate :: "'s \<Rightarrow> u32 \<Rightarrow> u32"
    and pmap :: "u32 \<Rightarrow> u32 \<Rightarrow> u32 \<Rightarrow> 's \<Rightarrow> 's"
    and punmap :: "u32 \<Rightarrow> 's \<Rightarrow> 's"
  assumes inv_map: "inv s \<Longrightarrow> inv (pmap v ph fl s)"
    and inv_unmap: "inv s \<Longrightarrow> inv (punmap v s)"
    and translate_map_same: "inv s \<Longrightarrow> page_base w = page_base v \<Longrightarrow>
          translate (pmap v ph fl s) w = page_base ph OR page_off w"
    and translate_map_other: "inv s \<Longrightarrow> page_base w \<noteq> page_base v \<Longrightarrow>
          translate (pmap v ph fl s) w = translate s w"
    and translate_unmap_same: "inv s \<Longrightarrow> page_base w = page_base v \<Longrightarrow> translate (punmap v s) w = 0"
    and translate_unmap_other: "inv s \<Longrightarrow> page_base w \<noteq> page_base v \<Longrightarrow>
          translate (punmap v s) w = translate s w"
begin

text \<open>Identity mapping a list of addresses: pages in the list translate to themselves.\<close>

lemma inv_map_list: "inv s \<Longrightarrow> inv (fold (\<lambda>a. pmap a a fl) as s)"
  by (induction as arbitrary: s) (simp_all add: inv_map)

lemma translate_identity_list:
  assumes "inv s"
  shows "translate (fold (\<lambda>a. pmap a a fl) as s) w =
    (if page_base w \<in> page_base ` set as then w else translate s w)"
  using assms
proof (induction as arbitrary: s)
  case Nil
  then show ?case by simp
next
  case (Cons a as)
  have "translate (pmap a a fl s) w = (if page_base w = page_base a then w else translate s w)"
    using Cons.prems translate_map_same [of s w a a fl] translate_map_other [of s w a a fl]
      page_base_off [of w] by (metis (full_types))
  with Cons.IH [OF inv_map [OF Cons.prems]] show ?case by auto
qed

text \<open>Mapping and then unmapping one page leaves every other page as it was.\<close>

lemma translate_unmap_map:
  "inv s \<Longrightarrow> translate (punmap v (pmap v ph fl s)) w =
     (if page_base w = page_base v then 0 else translate s w)"
  by (simp add: inv_map translate_unmap_same translate_unmap_other translate_map_other)

end

text \<open>Page numbers of the counter's values.\<close>

lemma page_base_le: "page_base a \<le> a"
  by (simp add: page_base_def word_and_le2)

lemma unat_page_base: "unat (page_base a) = unat a div 4096 * 4096"
proof -
  have "page_base a = push_bit 12 (drop_bit 12 a)"
    by (auto simp: page_base_def high_mask bit_simps intro!: bit_word_eqI)
  moreover have "unat a div 4096 * 4096 < 4294967296"
    using unat_u32_less [of a] by (meson div_times_less_eq_dividend le_less_trans)
  then have "unat (push_bit 12 (drop_bit 12 a)) = unat a div 4096 * 4096"
    by (simp add: push_bit_eq_mult drop_bit_eq_div unat_mult_u32 unat_div)
  ultimately show ?thesis by simp
qed

lemma page_base_eq_iff: "page_base v = page_base w \<longleftrightarrow> unat v div 4096 = unat w div 4096"
  by (simp add: word_unat_eq_iff unat_page_base)

lemma page_range_mem:
  assumes n: "n = (unat hi - unat lo + 0xFFF) div 0x1000" and w: "unat lo + n * 4096 \<le> 4294967296"
  shows "page_base a \<in> page_base ` set (page_range lo hi) \<longleftrightarrow>
     unat lo div 4096 \<le> unat a div 4096 \<and> unat a div 4096 < unat lo div 4096 + n"
proof -
  have u: "unat (lo + word_of_nat k * 0x1000) = unat lo + k * 4096" if "k < n" for k
  proof -
    have b: "unat lo + k * 4096 < 4294967296" using that w by simp
    then have "unat (word_of_nat k * 0x1000 :: u32) = k * 4096"
      by (subst unat_mult_u32) (simp_all add: unat_of_nat_u32)
    with b show ?thesis by (subst unat_add_u32) simp_all
  qed
  have "page_base a \<in> page_base ` set (page_range lo hi) \<longleftrightarrow>
      (\<exists>k<n. unat a div 4096 = unat (lo + word_of_nat k * 0x1000) div 4096)"
    unfolding page_range_def n [symmetric] by (auto simp: page_base_eq_iff)
  also have "\<dots> \<longleftrightarrow> (\<exists>k<n. unat a div 4096 = unat lo div 4096 + k)"
    using u by auto
  also have "\<dots> \<longleftrightarrow> unat lo div 4096 \<le> unat a div 4096 \<and> unat a div 4096 < unat lo div 4096 + n"
    by (auto intro!: exI [of _ "unat a div 4096 - unat lo div 4096"])
  finally show ?thesis .
qed

lemma page_range_empty: "hi \<le> lo \<Longrightarrow> page_range lo hi = []"
  by (simp add: page_range_def word_le_nat_alt)

lemma aligned_iff: "page_base a = a \<longleftrightarrow> unat a mod 4096 = 0"
proof -
  have "(n :: nat) div 4096 * 4096 = n \<longleftrightarrow> n mod 4096 = 0" for n
    using div_mult_mod_eq [of n 4096] by linarith
  then show ?thesis by (simp only: word_unat_eq_iff unat_page_base)
qed

lemma page_off_base [simp]: "page_off (page_base a) = 0"
  by (auto simp: page_base_def page_off_def high_mask low_mask bit_simps intro!: bit_word_eqI)

lemma page_off_aligned: "page_base a = a \<Longrightarrow> page_off a = 0"
  using page_off_base [of a] by simp

end
