(* ===== verification/Paging.thy ===== *)
theory Paging
  imports Page_Map
begin

text \<open>
  \<^verbatim>\<open>kernel/memory/paging/paging.cpp\<close>: two-level page tables. The static arrays
  \<^verbatim>\<open>page_directory\<close> and \<^verbatim>\<open>page_tables\<close> are functions of their indices; their
  link-time addresses (section \<^verbatim>\<open>.pagetab\<close>) are fields, as are the control registers
  and the sequence of \<^verbatim>\<open>invlpg\<close> operands.
\<close>

definition PAGE_PRESENT :: u32 where "PAGE_PRESENT = 0x1"
definition PAGE_WRITE :: u32 where "PAGE_WRITE = 0x2"
definition PAGE_USER :: u32 where "PAGE_USER = 0x4"
definition PAGE_SIZE_4K :: u32 where "PAGE_SIZE_4K = 0x1000"
definition BACKBUF_PHYS_ADDR :: u32 where "BACKBUF_PHYS_ADDR = 0xA00000"

lemmas page_flags = PAGE_PRESENT_def PAGE_WRITE_def PAGE_USER_def PAGE_SIZE_4K_def

record paging =
  page_directory :: "u32 \<Rightarrow> u32"
  page_tables :: "u32 \<Rightarrow> u32 \<Rightarrow> u32"
  pd_addr :: u32
  pt_addr :: u32
  tlb_flushes :: "u32 list"
  cr0 :: u32
  cr3 :: u32

definition dir_idx :: "u32 \<Rightarrow> u32" where
  "dir_idx virt = drop_bit 22 virt"

definition table_idx :: "u32 \<Rightarrow> u32" where
  "table_idx virt = drop_bit 12 virt AND 0x3FF"

definition flush_tlb :: "u32 \<Rightarrow> paging \<Rightarrow> paging" where
  "flush_tlb virt s = s\<lparr>tlb_flushes := tlb_flushes s @ [virt]\<rparr>"

definition paging_map :: "u32 \<Rightarrow> u32 \<Rightarrow> u32 \<Rightarrow> paging \<Rightarrow> paging" where
  "paging_map virt phys flags s =
     (let d = dir_idx virt; t = table_idx virt;
          s1 = (if page_directory s d AND PAGE_PRESENT = 0
                then s\<lparr>page_directory := (page_directory s)
                        (d := (pt_addr s + d * 4096) OR PAGE_PRESENT OR PAGE_WRITE)\<rparr>
                else if flags AND PAGE_USER \<noteq> 0 \<and> page_directory s d AND PAGE_USER = 0
                then s\<lparr>page_directory := (page_directory s)(d := page_directory s d OR PAGE_USER)\<rparr>
                else s);
          s2 = s1\<lparr>page_tables := (page_tables s1)
                  (d := (page_tables s1 d)
                     (t := (phys AND 0xFFFFF000) OR (flags AND 0xFFF) OR PAGE_PRESENT))\<rparr>
      in flush_tlb virt s2)"

definition paging_unmap :: "u32 \<Rightarrow> paging \<Rightarrow> paging" where
  "paging_unmap virt s =
     (let d = dir_idx virt; t = table_idx virt in
      if page_directory s d AND PAGE_PRESENT = 0 then s
      else flush_tlb virt
             (s\<lparr>page_tables := (page_tables s)(d := (page_tables s d)(t := 0))\<rparr>))"

definition paging_get_physical :: "paging \<Rightarrow> u32 \<Rightarrow> u32" where
  "paging_get_physical s virt =
     (let d = dir_idx virt; t = table_idx virt in
      if page_directory s d AND PAGE_PRESENT = 0 then 0
      else let entry = page_tables s d t in
        if entry AND PAGE_PRESENT = 0 then 0
        else (entry AND 0xFFFFF000) OR (virt AND 0xFFF))"

text \<open>
  \<^verbatim>\<open>paging_init\<close>, with the linear framebuffer address the bootloader left at 0x5000 as
  an argument: every entry is cleared, the first 64 MB, the VGA window, the BIOS area, the
  framebuffer and the back buffer are identity mapped, then paging is switched on.
\<close>

definition map_identity :: "u32 \<Rightarrow> u32 \<Rightarrow> u32 \<Rightarrow> paging \<Rightarrow> paging" where
  "map_identity lo hi flags s = fold (\<lambda>addr. paging_map addr addr flags) (page_range lo hi) s"

definition paging_clear :: "paging \<Rightarrow> paging" where
  "paging_clear s =
     s\<lparr>page_directory := (\<lambda>i. if i < 1024 then PAGE_WRITE else page_directory s i),
       page_tables := (\<lambda>i j. if i < 1024 \<and> j < 1024 then 0 else page_tables s i j)\<rparr>"

definition paging_init :: "u32 \<Rightarrow> paging \<Rightarrow> paging" where
  "paging_init fb s =
     (let s1 = paging_clear s;
          s2 = map_identity 0 0x4000000 (PAGE_PRESENT OR PAGE_WRITE) s1;
          s3 = map_identity 0xA0000 0xC0000 (PAGE_PRESENT OR PAGE_WRITE) s2;
          s4 = map_identity 0xC0000 0x100000 PAGE_PRESENT s3;
          s5 = (if 0 < fb then map_identity fb (fb + 0x400000) (PAGE_PRESENT OR PAGE_WRITE) s4 else s4);
          s6 = map_identity BACKBUF_PHYS_ADDR (BACKBUF_PHYS_ADDR + 0x400000)
                 (PAGE_PRESENT OR PAGE_WRITE) s5
      in s6\<lparr>cr3 := pd_addr s6, cr0 := cr0 s6 OR 0x80000000\<rparr>)"

subsection \<open>Entries and indices\<close>

lemma present_or [simp]: "(x OR PAGE_PRESENT) AND PAGE_PRESENT \<noteq> 0"
  by (simp add: PAGE_PRESENT_def and_one_eq odd_iff_mod_2_eq_one [symmetric] even_or_iff)

lemma idx_mask: "(0x3FF :: u32) = mask 10"
  by (simp add: mask_eq_exp_minus_1)

lemma unat_dir_idx: "unat (dir_idx v) = unat v div 4096 div 1024"
proof -
  have "unat v div 4194304 = unat v div 4096 div 1024" by (simp flip: div_mult2_eq)
  then show ?thesis by (simp add: dir_idx_def drop_bit_eq_div unat_div)
qed

lemma unat_table_idx: "unat (table_idx v) = unat v div 4096 mod 1024"
proof -
  have "table_idx v = take_bit 10 (drop_bit 12 v)"
    by (simp only: table_idx_def idx_mask take_bit_eq_mask)
  then have "unat (table_idx v) = take_bit 10 (drop_bit 12 (unat v))"
    by (simp add: unsigned_take_bit_eq unat_drop_bit_eq)
  then show ?thesis by (simp only: take_bit_eq_mod drop_bit_eq_div) simp
qed

lemma div_mod_eq_iff: "(a :: nat) div n = b div n \<and> a mod n = b mod n \<longleftrightarrow> a = b"
  by (metis div_mult_mod_eq)

lemma idx_eq_iff: "dir_idx v = dir_idx w \<and> table_idx v = table_idx w \<longleftrightarrow> page_base v = page_base w"
  by (simp only: page_base_eq_iff word_unat_eq_iff [of "dir_idx v"] word_unat_eq_iff [of "table_idx v"]
      unat_dir_idx unat_table_idx div_mod_eq_iff)

lemma dir_idx_less: "dir_idx v < 1024"
proof -
  have "unat v div 4096 div 1024 < 1024" using unat_u32_less [of v] by linarith
  then show ?thesis by (simp add: word_less_nat_alt unat_dir_idx)
qed

lemma table_idx_less: "table_idx v < 1024"
  by (simp add: word_less_nat_alt unat_table_idx)

subsection \<open>Invariant\<close>

text \<open>
  A directory entry that is not present has an empty table: what \<^verbatim>\<open>paging_init\<close>
  establishes and lets \<^verbatim>\<open>paging_map\<close> publish a table without clearing it.
\<close>

definition paging_inv :: "paging \<Rightarrow> bool" where
  "paging_inv s \<longleftrightarrow> (\<forall>d < 1024. page_directory s d AND PAGE_PRESENT = 0 \<longrightarrow>
      (\<forall>t < 1024. page_tables s d t AND PAGE_PRESENT = 0))"

lemma present_mask: "x AND PAGE_PRESENT = 0 \<longleftrightarrow> even x"
  by (simp add: PAGE_PRESENT_def and_one_eq even_iff_mod_2_eq_zero)

lemma even_flags [simp]: "odd PAGE_PRESENT" "even PAGE_WRITE" "even PAGE_USER"
  by (simp_all add: page_flags)

lemma pde_present_map:
  "page_directory (paging_map v ph fl s) d AND PAGE_PRESENT = 0 \<longleftrightarrow>
     d \<noteq> dir_idx v \<and> page_directory s d AND PAGE_PRESENT = 0"
  by (auto simp: paging_map_def Let_def flush_tlb_def present_mask even_or_iff)

lemma page_tables_map:
  "page_tables (paging_map v ph fl s) d t =
     (if d = dir_idx v \<and> t = table_idx v then (ph AND 0xFFFFF000) OR (fl AND 0xFFF) OR PAGE_PRESENT
      else page_tables s d t)"
  by (simp add: paging_map_def Let_def flush_tlb_def)

lemma page_directory_unmap [simp]: "page_directory (paging_unmap v s) = page_directory s"
  by (simp add: paging_unmap_def Let_def flush_tlb_def)

lemma page_tables_unmap:
  "page_tables (paging_unmap v s) d t =
     (if d = dir_idx v \<and> t = table_idx v \<and> page_directory s d AND PAGE_PRESENT \<noteq> 0 then 0
      else page_tables s d t)"
  by (simp add: paging_unmap_def Let_def flush_tlb_def)

lemma paging_inv_map [kinv]: "paging_inv s \<Longrightarrow> paging_inv (paging_map v ph fl s)"
  by (auto simp: paging_inv_def pde_present_map page_tables_map)

lemma paging_inv_unmap [kinv]: "paging_inv s \<Longrightarrow> paging_inv (paging_unmap v s)"
  by (auto simp: paging_inv_def page_tables_unmap)

lemma paging_inv_clear [kinv]: "paging_inv (paging_clear s)"
  by (simp add: paging_inv_def paging_clear_def)

subsection \<open>Translation\<close>

lemma entry_frame: "((ph AND 0xFFFFF000) OR (fl AND 0xFFF) OR PAGE_PRESENT) AND 0xFFFFF000 = page_base ph"
  by (auto simp: page_base_def high_mask low_mask PAGE_PRESENT_def bit_simps intro!: bit_word_eqI)

lemma present_entry: "(a OR b OR PAGE_PRESENT) AND PAGE_PRESENT \<noteq> 0"
  by (simp add: present_mask even_or_iff)

lemma get_physical_map_same:
  assumes "page_base w = page_base v"
  shows "paging_get_physical (paging_map v ph fl s) w = page_base ph OR page_off w"
proof -
  have "dir_idx w = dir_idx v" "table_idx w = table_idx v" using assms idx_eq_iff by auto
  then show ?thesis
    by (simp add: paging_get_physical_def Let_def pde_present_map page_tables_map present_entry
        entry_frame page_off_def)
qed

lemma get_physical_map_other:
  assumes "paging_inv s" "page_base w \<noteq> page_base v"
  shows "paging_get_physical (paging_map v ph fl s) w = paging_get_physical s w"
proof -
  have "\<not> (dir_idx w = dir_idx v \<and> table_idx w = table_idx v)" using assms idx_eq_iff by auto
  with assms(1) dir_idx_less [of w] table_idx_less [of w] show ?thesis
    by (auto simp: paging_get_physical_def Let_def pde_present_map page_tables_map paging_inv_def)
qed

lemma get_physical_unmap_same:
  assumes "page_base w = page_base v"
  shows "paging_get_physical (paging_unmap v s) w = 0"
proof -
  have "dir_idx w = dir_idx v" "table_idx w = table_idx v" using assms idx_eq_iff by auto
  then show ?thesis by (simp add: paging_get_physical_def Let_def page_tables_unmap)
qed

lemma get_physical_unmap_other:
  assumes "page_base w \<noteq> page_base v"
  shows "paging_get_physical (paging_unmap v s) w = paging_get_physical s w"
proof -
  have "\<not> (dir_idx w = dir_idx v \<and> table_idx w = table_idx v)" using assms idx_eq_iff by auto
  then show ?thesis by (auto simp: paging_get_physical_def Let_def page_tables_unmap)
qed

interpretation pg: page_map paging_inv paging_get_physical paging_map paging_unmap
  by unfold_locales
    (auto simp: paging_inv_map paging_inv_unmap get_physical_map_same get_physical_map_other
      get_physical_unmap_same get_physical_unmap_other)

subsection \<open>The address space that paging\_init builds\<close>

lemma paging_inv_identity [kinv]: "paging_inv s \<Longrightarrow> paging_inv (map_identity lo hi fl s)"
  unfolding map_identity_def by (rule pg.inv_map_list)

lemma get_physical_identity:
  assumes "paging_inv s" "n = (unat hi - unat lo + 0xFFF) div 0x1000" "unat lo + n * 4096 \<le> 4294967296"
  shows "paging_get_physical (map_identity lo hi fl s) w =
    (if unat lo div 4096 \<le> unat w div 4096 \<and> unat w div 4096 < unat lo div 4096 + n then w
     else paging_get_physical s w)"
  unfolding map_identity_def pg.translate_identity_list [OF assms(1)] page_range_mem [OF assms(2,3)] ..

lemma get_physical_clear: "paging_get_physical (paging_clear s) w = 0"
  using dir_idx_less [of w]
  by (simp add: paging_get_physical_def Let_def paging_clear_def present_mask)

text \<open>The part of the address space that the framebuffer mapping covers.\<close>

definition fb_page :: "u32 \<Rightarrow> u32 \<Rightarrow> bool" where
  "fb_page fb w \<longleftrightarrow> 0 < fb \<and> unat fb + 0x400000 < 4294967296
     \<and> unat fb div 4096 \<le> unat w div 4096 \<and> unat w div 4096 < unat fb div 4096 + 1024"

lemma get_physical_fb:
  assumes "paging_inv s"
  shows "paging_get_physical
     (if 0 < fb then map_identity fb (fb + 0x400000) fl s else s) w =
   (if fb_page fb w then w else paging_get_physical s w)"
proof (cases "0 < fb \<and> unat fb + 0x400000 < 4294967296")
  case True
  then have "unat (fb + 0x400000) = unat fb + 0x400000" by (subst unat_add_u32) simp_all
  then have "1024 = (unat (fb + 0x400000) - unat fb + 0xFFF) div 0x1000" by simp
  from get_physical_identity [OF assms this, of fl w] True show ?thesis
    by (simp add: fb_page_def)
next
  case False
  have "fb + 0x400000 \<le> fb" if "0 < fb"
  proof -
    have "\<not> unat fb + unat (0x400000 :: u32) < 2 ^ LENGTH(32)" using that False by simp
    then have "unat (fb + 0x400000) = unat fb + 0x400000 - 4294967296"
      by (subst unat_plus_if') simp
    then show ?thesis using unat_u32_less [of fb] by (simp only: word_le_nat_alt)
  qed
  with False show ?thesis by (auto simp: fb_page_def map_identity_def page_range_empty)
qed

lemma paging_get_physical_cr [simp]:
  "paging_get_physical (s\<lparr>cr3 := x, cr0 := y\<rparr>) w = paging_get_physical s w"
  by (simp add: paging_get_physical_def Let_def)

lemma paging_init_translate:
  "paging_get_physical (paging_init fb s) w = (if w < 0x4000000 \<or> fb_page fb w then w else 0)"
proof -
  have lt: "w < 0x4000000 \<longleftrightarrow> unat w div 4096 < 16384" by (simp add: word_less_nat_alt, arith)
  have fbinv: "paging_inv t \<Longrightarrow> paging_inv (if 0 < fb then map_identity fb (fb + 0x400000) fl t else t)"
    for t fl by (simp add: paging_inv_identity)
  show ?thesis
    unfolding paging_init_def Let_def paging_get_physical_cr
    by (simp add: get_physical_identity [where n = 1024] get_physical_identity [where n = 64]
        get_physical_identity [where n = 32] get_physical_identity [where n = 16384]
        get_physical_fb paging_inv_identity paging_inv_clear fbinv get_physical_clear
        BACKBUF_PHYS_ADDR_def lt)
qed

subsection \<open>User access\<close>

text \<open>
  The processor lets ring 3 reach a page only when both its directory entry and its table
  entry carry the user bit (and are present).
\<close>

definition paging_user :: "paging \<Rightarrow> u32 \<Rightarrow> bool" where
  "paging_user s w \<longleftrightarrow>
     page_directory s (dir_idx w) AND PAGE_PRESENT \<noteq> 0 \<and> page_directory s (dir_idx w) AND PAGE_USER \<noteq> 0
     \<and> page_tables s (dir_idx w) (table_idx w) AND PAGE_PRESENT \<noteq> 0
     \<and> page_tables s (dir_idx w) (table_idx w) AND PAGE_USER \<noteq> 0"

lemma page_flag_bits [simp]:
  "(ph AND 0xFFFFF000) AND PAGE_USER = 0" "((x AND 0xFFF) AND PAGE_USER = 0) = (x AND PAGE_USER = 0)"
  "PAGE_PRESENT AND PAGE_USER = 0" "PAGE_WRITE AND PAGE_USER = 0" "PAGE_USER AND PAGE_USER \<noteq> 0"
  by (simp_all add: page_flags and.assoc)

lemma and_or_zero_iff: "((a OR b) AND c = 0) \<longleftrightarrow> a AND c = 0 \<and> b AND c = (0 :: u32)"
  by (simp add: word_ao_dist or_eq_0_iff)

text \<open>
  A user mapping of a page whose directory entry already exists is reachable from ring 3;
  one that has to create the directory entry is not, because the new entry is written with
  the present and write bits only.
\<close>

lemma paging_user_map:
  assumes "(pt_addr s + dir_idx v * 4096) AND PAGE_USER = 0"
  shows "paging_user (paging_map v ph fl s) v \<longleftrightarrow>
     fl AND PAGE_USER \<noteq> 0 \<and> page_directory s (dir_idx v) AND PAGE_PRESENT \<noteq> 0"
  using assms
  by (auto simp: paging_user_def page_tables_map pde_present_map present_entry and_or_zero_iff)
    (auto simp: paging_map_def Let_def flush_tlb_def and_or_zero_iff split: if_splits)

subsection \<open>Properties\<close>

text \<open>C16. Mapping and unmapping act on one page: \<^verbatim>\<open>paging_map\<close> makes \<^verbatim>\<open>paging_get_physical\<close>
  translate every address of the page to the given frame plus offset, \<^verbatim>\<open>paging_unmap\<close> makes
  it answer 0 there, and neither changes the translation of any other page.\<close>
theorem paging_map_unmap_translate:
  assumes "paging_inv s"
  shows "(page_base w = page_base v \<longrightarrow>
        paging_get_physical (paging_map v ph fl s) w = page_base ph OR page_off w
        \<and> paging_get_physical (paging_unmap v s) w = 0)
    \<and> (page_base w \<noteq> page_base v \<longrightarrow>
        paging_get_physical (paging_map v ph fl s) w = paging_get_physical s w
        \<and> paging_get_physical (paging_unmap v s) w = paging_get_physical s w)
    \<and> paging_inv (paging_map v ph fl s) \<and> paging_inv (paging_unmap v s)"
  using pg.translate_map_same [OF assms] pg.translate_map_other [OF assms]
    pg.translate_unmap_same [OF assms] pg.translate_unmap_other [OF assms]
    paging_inv_map [OF assms] paging_inv_unmap [OF assms] by blast

text \<open>The zeroed tables, at the addresses the linker script gives them.\<close>

definition paging0 :: paging where
  "paging0 = \<lparr>page_directory = (\<lambda>_. 0), page_tables = (\<lambda>_ _. 0), pd_addr = 0x300000, pt_addr = 0x301000,
              tlb_flushes = [], cr0 = 0x11, cr3 = 0\<rparr>"

lemma paging0_inv: "paging_inv paging0"
  by (simp add: paging_inv_def paging0_def)

lemma paging_map_unmap_translate_witness:
  "paging_get_physical (paging_map 0x200000 0x100000 3 paging0) 0x200123
     = page_base 0x100000 OR page_off 0x200123"
  using paging_map_unmap_translate [OF paging0_inv, of "0x200123" "0x200000" "0x100000" 3]
  by (simp add: page_base_def)

text \<open>C15. \<^verbatim>\<open>paging_init\<close> builds the identity map of the first 64 MB and of the 4 MB of the
  framebuffer (unless it is absent or wraps past 4 GB) and maps nothing else, whatever the tables held;
  paging is enabled with the directory's address in \<^verbatim>\<open>cr3\<close>.\<close>
theorem paging_init_identity:
  "paging_get_physical (paging_init fb s) w = (if w < 0x4000000 \<or> fb_page fb w then w else 0)
   \<and> cr0 (paging_init fb s) AND 0x80000000 \<noteq> 0"
proof -
  have "(x OR m) AND m = m" for x m :: u32
    by (rule bit_word_eqI) (auto simp: bit_and_iff bit_or_iff)
  with paging_init_translate [of fb s w] show ?thesis by (simp add: paging_init_def Let_def)
qed

text \<open>A page mapped with \<^verbatim>\<open>PAGE_USER\<close> is reachable from ring 3 only if its directory entry
  existed before: the first page of each 4 MB range gets a directory entry without the user
  bit, so the first user mapping there faults.\<close>
theorem paging_map_user_bit:
  assumes "(pt_addr s + dir_idx v * 4096) AND PAGE_USER = 0"
  shows "paging_user (paging_map v ph fl s) v \<longleftrightarrow>
     fl AND PAGE_USER \<noteq> 0 \<and> page_directory s (dir_idx v) AND PAGE_PRESENT \<noteq> 0"
  by (rule paging_user_map [OF assms])

lemma paging_map_user_bit_witness:
  "\<not> paging_user (paging_map 0xE0000000 0x100000 7 paging0) 0xE0000000"
  using paging_map_user_bit [of paging0 "0xE0000000" "0x100000" 7]
  by (simp add: paging0_def dir_idx_def page_flags)

end
