(* ===== verification/Kmalloc.thy ===== *)
theory Kmalloc
  imports Prelude
begin

text \<open>
  \<^verbatim>\<open>kernel/memory/kmalloc.cpp\<close>: the first-fit kernel heap, a chain of block headers in
  memory. The model keeps the headers by address (\<open>kh_hdr\<close>) apart from the payload bytes
  (\<open>kh_bytes\<close>); the loops chase \<^verbatim>\<open>next\<close> pointers and are partial functions, with
  \<open>None\<close> for a walk that never ends. An abstract heap, the list of blocks in address order
  with the operations on it, is what they are proved to implement.
\<close>

subsection \<open>Headers and operations\<close>

record block_header =
  bh_magic :: u32
  bh_size :: u32
  bh_free :: u8
  bh_next :: u32

record kheap =
  kh_hdr :: "u32 \<Rightarrow> block_header"
  kh_bytes :: "u32 \<Rightarrow> u8"
  heap_pool :: u32
  heap_head :: u32
  heap_ready :: u8
  kh_if :: bool                \<comment> \<open>interrupt flag: \<^verbatim>\<open>cli\<close>/\<^verbatim>\<open>sti\<close>\<close>

definition BLOCK_MAGIC :: u32 where "BLOCK_MAGIC = 0xDEADBEEF"
definition KMALLOC_HEAP_SIZE :: u32 where "KMALLOC_HEAP_SIZE = 128 * 4096"

text \<open>\<^verbatim>\<open>sizeof(BlockHeader)\<close> on i386: three words and a byte padded to a word.\<close>

definition HDR :: u32 where "HDR = 16"

definition kmalloc_init :: "u64 \<Rightarrow> kheap \<Rightarrow> kheap" where
  "kmalloc_init heap_base h =
     (let base = (if heap_base < 0x100000 then 0x100000 else heap_base);
          pool = ucast (base + 8 * 4096) :: u32
      in h\<lparr>heap_pool := pool, heap_head := pool,
           kh_hdr := (kh_hdr h)(pool := \<lparr>bh_magic = BLOCK_MAGIC, bh_size = KMALLOC_HEAP_SIZE - HDR,
                                         bh_free = 1, bh_next = 0\<rparr>),
           heap_ready := 1\<rparr>)"

text \<open>The loop body of \<^verbatim>\<open>kmalloc\<close> on the block it takes: split, then mark used.\<close>

definition kmalloc_take :: "u32 \<Rightarrow> u32 \<Rightarrow> kheap \<Rightarrow> kheap" where
  "kmalloc_take aligned cur h =
     (let c = kh_hdr h cur; sp = cur + HDR + aligned;
          h1 = (if aligned + HDR + 8 \<le> bh_size c
                then h\<lparr>kh_hdr := (kh_hdr h)
                   (sp := \<lparr>bh_magic = BLOCK_MAGIC, bh_size = bh_size c - aligned - HDR,
                           bh_free = 1, bh_next = bh_next c\<rparr>,
                    cur := c\<lparr>bh_size := aligned, bh_next := sp\<rparr>)\<rparr>
                else h)
      in h1\<lparr>kh_hdr := (kh_hdr h1)(cur := (kh_hdr h1 cur)\<lparr>bh_free := 0\<rparr>)\<rparr>)"

partial_function (option) kmalloc_walk :: "u32 \<Rightarrow> u32 \<Rightarrow> kheap \<Rightarrow> (kheap \<times> u32) option" where
  "kmalloc_walk aligned cur h =
     (if cur = 0 then Some (h, 0)
      else if bh_free (kh_hdr h cur) \<noteq> 0 \<and> aligned \<le> bh_size (kh_hdr h cur)
      then Some (kmalloc_take aligned cur h, cur + HDR)
      else kmalloc_walk aligned (bh_next (kh_hdr h cur)) h)"

definition kalign :: "u32 \<Rightarrow> u32" where
  "kalign sz = (sz + 7) AND NOT 7"

definition kmalloc :: "u64 \<Rightarrow> u32 \<Rightarrow> kheap \<Rightarrow> (kheap \<times> u32) option" where
  "kmalloc heap_base sz h =
     (let h0 = (if heap_ready h = 0 then kmalloc_init heap_base h else h) in
      if sz = 0 then Some (h0, 0)
      else map_option (\<lambda>(h', p). (h'\<lparr>kh_if := True\<rparr>, p))
             (kmalloc_walk (kalign sz) (heap_head h0) (h0\<lparr>kh_if := False\<rparr>)))"

partial_function (option) merge_free_blocks :: "u32 \<Rightarrow> kheap \<Rightarrow> kheap option" where
  "merge_free_blocks cur h =
     (if cur = 0 \<or> bh_next (kh_hdr h cur) = 0 then Some h
      else
        let c = kh_hdr h cur; n = kh_hdr h (bh_next c) in
        if bh_free c \<noteq> 0 \<and> bh_free n \<noteq> 0
        then merge_free_blocks cur (h\<lparr>kh_hdr := (kh_hdr h)
               (cur := c\<lparr>bh_size := bh_size c + (HDR + bh_size n), bh_next := bh_next n\<rparr>)\<rparr>)
        else merge_free_blocks (bh_next c) h)"

definition kfree :: "u32 \<Rightarrow> kheap \<Rightarrow> kheap option" where
  "kfree ptr h =
     (if ptr = 0 then Some h
      else
        let hdr = ptr - HDR; h0 = h\<lparr>kh_if := False\<rparr> in
        if bh_magic (kh_hdr h0 hdr) \<noteq> BLOCK_MAGIC then Some (h0\<lparr>kh_if := True\<rparr>)
        else map_option (\<lambda>h'. h'\<lparr>kh_if := True\<rparr>)
               (merge_free_blocks (heap_head h0)
                  (h0\<lparr>kh_hdr := (kh_hdr h0)(hdr := (kh_hdr h0 hdr)\<lparr>bh_free := 1\<rparr>)\<rparr>)))"

definition copy_byte :: "u32 \<Rightarrow> u32 \<Rightarrow> nat \<Rightarrow> (u32 \<Rightarrow> u8) \<Rightarrow> (u32 \<Rightarrow> u8)" where
  "copy_byte dst src i m = m(dst + word_of_nat i := m (src + word_of_nat i))"

definition krealloc :: "u64 \<Rightarrow> u32 \<Rightarrow> u32 \<Rightarrow> kheap \<Rightarrow> (kheap \<times> u32) option" where
  "krealloc heap_base ptr new_size h =
     (if ptr = 0 then kmalloc heap_base new_size h
      else if new_size = 0 then map_option (\<lambda>h'. (h', 0)) (kfree ptr h)
      else
        let hdr = ptr - HDR in
        if bh_magic (kh_hdr h hdr) \<noteq> BLOCK_MAGIC then Some (h, 0)
        else if new_size \<le> bh_size (kh_hdr h hdr) then Some (h, ptr)
        else Option.bind (kmalloc heap_base new_size h) (\<lambda>(h1, fresh).
          if fresh = 0 then Some (h1, 0)
          else
            let n = unat (bh_size (kh_hdr h1 hdr));
                h2 = h1\<lparr>kh_bytes := fold (copy_byte fresh ptr) [0..<n] (kh_bytes h1)\<rparr>
            in map_option (\<lambda>h'. (h', fresh)) (kfree ptr h2)))"

definition ksize :: "u32 \<Rightarrow> kheap \<Rightarrow> u32" where
  "ksize ptr h =
     (if ptr = 0 then 0
      else if bh_magic (kh_hdr h (ptr - HDR)) \<noteq> BLOCK_MAGIC then 0
      else bh_size (kh_hdr h (ptr - HDR)))"

partial_function (option) kmem_walk :: "u32 \<Rightarrow> u32 \<Rightarrow> u32 \<Rightarrow> kheap \<Rightarrow> (u32 \<times> u32) option" where
  "kmem_walk cur used free h =
     (if cur = 0 then Some (used, free)
      else if bh_free (kh_hdr h cur) \<noteq> 0
      then kmem_walk (bh_next (kh_hdr h cur)) used (free + bh_size (kh_hdr h cur)) h
      else kmem_walk (bh_next (kh_hdr h cur)) (used + bh_size (kh_hdr h cur)) free h)"

definition kmem_info :: "kheap \<Rightarrow> (u32 \<times> u32) option" where
  "kmem_info h = kmem_walk (heap_head h) 0 0 h"

subsection \<open>The abstract heap\<close>

record block =
  b_addr :: u32
  b_size :: u32
  b_free :: bool

fun blk_alloc :: "u32 \<Rightarrow> block list \<Rightarrow> block list \<times> u32" where
  "blk_alloc n [] = ([], 0)"
| "blk_alloc n (b # bs) =
     (if b_free b \<and> n \<le> b_size b
      then (if n + 24 \<le> b_size b
            then b\<lparr>b_size := n, b_free := False\<rparr>
                 # \<lparr>b_addr = b_addr b + 16 + n, b_size = b_size b - n - 16, b_free = True\<rparr> # bs
            else b\<lparr>b_free := False\<rparr> # bs, b_addr b + 16)
      else (b # fst (blk_alloc n bs), snd (blk_alloc n bs)))"

function blk_merge :: "block list \<Rightarrow> block list" where
  "blk_merge [] = []"
| "blk_merge [b] = [b]"
| "blk_merge (b # c # bs) =
     (if b_free b \<and> b_free c
      then blk_merge (b\<lparr>b_size := b_size b + (16 + b_size c)\<rparr> # bs)
      else b # blk_merge (c # bs))"
  by pat_completeness auto
termination
  by (relation "measure length") auto

definition blk_release :: "u32 \<Rightarrow> block list \<Rightarrow> block list" where
  "blk_release a bs = map (\<lambda>b. if b_addr b = a then b\<lparr>b_free := True\<rparr> else b) bs"

text \<open>The blocks in use, as pairs of header address and payload size.\<close>

primrec blk_live :: "block list \<Rightarrow> (u32 \<times> u32) set" where
  "blk_live [] = {}"
| "blk_live (b # bs) = (if b_free b then {} else {(b_addr b, b_size b)}) \<union> blk_live bs"

fun no_adjacent_free :: "block list \<Rightarrow> bool" where
  "no_adjacent_free (b # c # bs) \<longleftrightarrow> \<not> (b_free b \<and> b_free c) \<and> no_adjacent_free (c # bs)"
| "no_adjacent_free _ \<longleftrightarrow> True"

subsection \<open>Representation\<close>

fun hchain :: "(u32 \<Rightarrow> block_header) \<Rightarrow> u32 \<Rightarrow> block list \<Rightarrow> bool" where
  "hchain H p [] \<longleftrightarrow> p = 0"
| "hchain H p (b # bs) \<longleftrightarrow> p = b_addr b \<and> p \<noteq> 0 \<and> bh_magic (H p) = BLOCK_MAGIC
     \<and> bh_size (H p) = b_size b \<and> (bh_free (H p) \<noteq> 0 \<longleftrightarrow> b_free b) \<and> hchain H (bh_next (H p)) bs"

text \<open>The blocks fill the address range from \<open>a\<close> to \<open>e\<close> without gap or overlap.\<close>

fun hlayout :: "nat \<Rightarrow> block list \<Rightarrow> nat \<Rightarrow> bool" where
  "hlayout a [] e \<longleftrightarrow> a = e"
| "hlayout a (b # bs) e \<longleftrightarrow> unat (b_addr b) = a \<and> unat (b_size b) mod 8 = 0
     \<and> hlayout (a + 16 + unat (b_size b)) bs e"

lemma hlayout_le: "hlayout a bs e \<Longrightarrow> a \<le> e"
  by (induction bs arbitrary: a) fastforce+

lemma hlayout_addr:
  "hlayout a bs e \<Longrightarrow> b \<in> set bs \<Longrightarrow> a \<le> unat (b_addr b) \<and> unat (b_addr b) + 16 + unat (b_size b) \<le> e"
proof (induction bs arbitrary: a)
  case Nil
  then show ?case by simp
next
  case (Cons c bs)
  from Cons.prems(1) have l: "hlayout (a + 16 + unat (b_size c)) bs e" by simp
  from Cons.IH [OF l] hlayout_le [OF l] Cons.prems show ?case by fastforce
qed

lemma hlayout_append:
  "hlayout a (xs @ ys) e \<longleftrightarrow> (\<exists>m. hlayout a xs m \<and> hlayout m ys e)"
  by (induction xs arbitrary: a) auto

text \<open>Writing a header outside the chain leaves the chain alone.\<close>

lemma hchain_upd:
  "\<forall>b \<in> set bs. b_addr b \<noteq> a \<Longrightarrow> hchain (H(a := v)) p bs \<longleftrightarrow> hchain H p bs"
  by (induction bs arbitrary: p) auto

lemma hchain_cong:
  "\<forall>b \<in> set bs. H' (b_addr b) = H (b_addr b) \<Longrightarrow> hchain H' p bs \<longleftrightarrow> hchain H p bs"
  by (induction bs arbitrary: p) auto

subsection \<open>kmalloc implements first fit\<close>

lemma kmalloc_take_hdr:
  "kmalloc_take n cur h = h\<lparr>kh_hdr := (if n + 24 \<le> bh_size (kh_hdr h cur)
     then (kh_hdr h)
       (cur + 16 + n := \<lparr>bh_magic = BLOCK_MAGIC, bh_size = bh_size (kh_hdr h cur) - n - 16,
                         bh_free = 1, bh_next = bh_next (kh_hdr h cur)\<rparr>,
        cur := (kh_hdr h cur)\<lparr>bh_size := n, bh_next := cur + 16 + n, bh_free := 0\<rparr>)
     else (kh_hdr h)(cur := (kh_hdr h cur)\<lparr>bh_free := 0\<rparr>))\<rparr>"
  by (simp add: kmalloc_take_def HDR_def Let_def add.assoc)

text \<open>The numbers of a split: no wrap-around, since the block lies below 4 GB.\<close>

lemma split_arith:
  assumes "a + 16 + unat (sz :: u32) \<le> 4294967296" "16 \<le> a" "n \<le> sz" "unat cur = a"
  shows "n + 24 \<le> sz \<Longrightarrow> unat (cur + 16 + n) = a + 16 + unat n"
    "n + 24 \<le> sz \<Longrightarrow> unat (sz - n - 16) = unat sz - unat n - 16"
    "n + 24 \<le> sz \<longleftrightarrow> unat n + 24 \<le> unat sz"
proof -
  have n: "unat n \<le> unat sz" using assms(3) by (simp add: word_le_nat_alt)
  then have "unat (n + 24) = unat n + 24"
    using assms(1,2) by (subst unat_add_u32) simp_all
  then show iff: "n + 24 \<le> sz \<longleftrightarrow> unat n + 24 \<le> unat sz" by (simp add: word_le_nat_alt)
  assume s: "n + 24 \<le> sz"
  have c: "unat (cur + 16) = a + 16" using assms(1,4) s iff by (subst unat_add_u32) simp_all
  show "unat (cur + 16 + n) = a + 16 + unat n"
    using assms(1) s c iff by (subst unat_add_u32) simp_all
  have d: "unat (sz - n) = unat sz - unat n" by (rule unat_sub_u32 [OF assms(3)])
  then have "16 \<le> sz - n" using s iff by (simp add: word_le_nat_alt)
  then show "unat (sz - n - 16) = unat sz - unat n - 16"
    using d by (simp add: unat_sub_u32)
qed

lemma kmalloc_take_refines:
  assumes ch: "hchain (kh_hdr h) cur (b # bs)" and ly: "hlayout a (b # bs) e"
    and e: "e \<le> 4294967296" and a: "16 \<le> a" and n: "unat n mod 8 = 0"
    and fit: "b_free b" "n \<le> b_size b"
  shows "\<exists>H'. kmalloc_take n cur h = h\<lparr>kh_hdr := H'\<rparr> \<and> hchain H' cur (fst (blk_alloc n (b # bs)))
      \<and> hlayout a (fst (blk_alloc n (b # bs))) e \<and> (\<forall>x. unat x < a \<longrightarrow> H' x = kh_hdr h x)"
proof -
  let ?H = "kh_hdr h"
  have cur: "cur = b_addr b" "cur \<noteq> 0" "unat cur = a" "bh_size (?H cur) = b_size b"
    and tl: "hchain ?H (bh_next (?H cur)) bs" "hlayout (a + 16 + unat (b_size b)) bs e"
    using ch ly by auto
  have le: "a + 16 + unat (b_size b) \<le> 4294967296" using hlayout_le [OF tl(2)] e by simp
  have far: "a + 16 + unat (b_size b) \<le> unat (b_addr c)" if "c \<in> set bs" for c
    using hlayout_addr [OF tl(2) that] by simp
  note ar = split_arith [OF le a fit(2) cur(3)]
  show ?thesis
  proof (cases "n + 24 \<le> b_size b")
    case True
    let ?sp = "cur + 16 + n"
    let ?new = "\<lparr>bh_magic = BLOCK_MAGIC, bh_size = b_size b - n - 16, bh_free = 1, bh_next = bh_next (?H cur)\<rparr>"
    let ?H' = "?H(?sp := ?new, cur := (?H cur)\<lparr>bh_size := n, bh_next := ?sp, bh_free := 0\<rparr>)"
    have sp: "unat ?sp = a + 16 + unat n" by (rule ar(1) [OF True])
    then have "unat ?sp \<noteq> unat cur" "unat ?sp \<noteq> unat (0 :: u32)" using cur(3) by simp_all
    then have ne: "?sp \<noteq> cur" "?sp \<noteq> 0" by metis+
    have big: "unat n + 24 \<le> unat (b_size b)" using True ar(3) by simp
    have bs: "\<forall>c \<in> set bs. b_addr c \<noteq> ?sp" "\<forall>c \<in> set bs. b_addr c \<noteq> cur"
      using far sp cur(3) big by fastforce+
    have tl': "hchain ?H' (bh_next (?H cur)) bs"
      using tl(1) bs by (simp add: hchain_upd)
    have "unat (b_size b - n - 16) mod 8 = 0"
    proof -
      have "unat (b_size b) mod 8 = 0" using ly by simp
      with n have "8 dvd unat (b_size b) - unat n - 16" by (auto intro!: dvd_diff_nat)
      with ar(2) [OF True] show ?thesis by simp
    qed
    moreover have "a + 16 + unat n + 16 + unat (b_size b - n - 16) = a + 16 + unat (b_size b)"
      using ar(2) [OF True] big by simp
    then have "hlayout (a + 16 + unat n + 16 + unat (b_size b - n - 16)) bs e"
      using tl(2) by (simp only:)
    ultimately have "hlayout a (fst (blk_alloc n (b # bs))) e"
      using fit True ly sp cur n by simp
    moreover have "hchain ?H' cur (fst (blk_alloc n (b # bs)))"
      using fit True ch cur tl' ne by simp
    moreover have "\<forall>x. unat x < a \<longrightarrow> ?H' x = ?H x" using sp cur(3) by auto
    moreover have "kmalloc_take n cur h = h\<lparr>kh_hdr := ?H'\<rparr>"
      using True cur(4) by (simp add: kmalloc_take_hdr)
    ultimately show ?thesis by blast
  next
    case False
    have "\<forall>c \<in> set bs. b_addr c \<noteq> cur" using far cur(3) by fastforce
    then have "hchain (?H(cur := (?H cur)\<lparr>bh_free := 0\<rparr>)) (bh_next (?H cur)) bs"
      using tl(1) by (simp add: hchain_upd)
    then show ?thesis using False fit ch ly cur by (auto simp: kmalloc_take_hdr)
  qed
qed

lemma kmalloc_walk_refines:
  assumes "hchain (kh_hdr h) cur bs" "hlayout a bs e" "e \<le> 4294967296" "16 \<le> a" "unat n mod 8 = 0"
  shows "\<exists>H'. kmalloc_walk n cur h = Some (h\<lparr>kh_hdr := H'\<rparr>, snd (blk_alloc n bs))
      \<and> hchain H' cur (fst (blk_alloc n bs)) \<and> hlayout a (fst (blk_alloc n bs)) e
      \<and> (\<forall>x. unat x < a \<longrightarrow> H' x = kh_hdr h x)"
  using assms
proof (induction bs arbitrary: a cur)
  case Nil
  then show ?case by (intro exI [of _ "kh_hdr h"]) (simp add: kmalloc_walk.simps)
next
  case (Cons b bs)
  have cur: "cur = b_addr b" "cur \<noteq> 0" "unat cur = a" using Cons.prems by auto
  show ?case
  proof (cases "b_free b \<and> n \<le> b_size b")
    case True
    from kmalloc_take_refines [OF Cons.prems(1-5)] True
    obtain H' where H': "kmalloc_take n cur h = h\<lparr>kh_hdr := H'\<rparr>"
      "hchain H' cur (fst (blk_alloc n (b # bs)))" "hlayout a (fst (blk_alloc n (b # bs))) e"
      "\<forall>x. unat x < a \<longrightarrow> H' x = kh_hdr h x" by blast
    have "kmalloc_walk n cur h = Some (h\<lparr>kh_hdr := H'\<rparr>, snd (blk_alloc n (b # bs)))"
      using True Cons.prems(1) cur H'(1) by (subst kmalloc_walk.simps) (simp add: HDR_def)
    with H' show ?thesis by blast
  next
    case False
    let ?nx = "bh_next (kh_hdr h cur)"
    have tl: "hchain (kh_hdr h) ?nx bs" "hlayout (a + 16 + unat (b_size b)) bs e"
      using Cons.prems by auto
    from Cons.IH [OF tl Cons.prems(3) _ Cons.prems(5)] Cons.prems(4)
    obtain H' where H': "kmalloc_walk n ?nx h = Some (h\<lparr>kh_hdr := H'\<rparr>, snd (blk_alloc n bs))"
      "hchain H' ?nx (fst (blk_alloc n bs))" "hlayout (a + 16 + unat (b_size b)) (fst (blk_alloc n bs)) e"
      "\<forall>x. unat x < a + 16 + unat (b_size b) \<longrightarrow> H' x = kh_hdr h x" by auto
    have "H' cur = kh_hdr h cur" using H'(4) cur(3) by simp
    then have "hchain H' cur (fst (blk_alloc n (b # bs)))" using False Cons.prems(1) H'(2) by auto
    moreover have "kmalloc_walk n cur h = Some (h\<lparr>kh_hdr := H'\<rparr>, snd (blk_alloc n (b # bs)))"
      using False Cons.prems(1) cur H'(1) by (subst kmalloc_walk.simps) auto
    ultimately show ?thesis using False Cons.prems(2) H'(3,4) by auto
  qed
qed

subsection \<open>merge\_free\_blocks implements the list merge\<close>

lemma merge_size_arith:
  assumes "a + 16 + unat (x :: u32) + 16 + unat (y :: u32) \<le> 4294967296"
  shows "unat (x + (16 + y)) = unat x + 16 + unat y"
proof -
  have "unat (16 + y) = 16 + unat y" using assms by (subst unat_add_u32) simp_all
  with assms show ?thesis by (subst unat_add_u32) simp_all
qed

lemma merge_refines:
  assumes "hchain (kh_hdr h) cur bs" "hlayout a bs e" "e \<le> 4294967296"
  shows "\<exists>H'. merge_free_blocks cur h = Some (h\<lparr>kh_hdr := H'\<rparr>) \<and> hchain H' cur (blk_merge bs)
      \<and> hlayout a (blk_merge bs) e \<and> (\<forall>x. unat x < a \<longrightarrow> H' x = kh_hdr h x)"
  using assms
proof (induction bs arbitrary: a cur h rule: blk_merge.induct)
  case 1
  then show ?case
    by (intro exI [of _ "kh_hdr h"]) (simp add: merge_free_blocks.simps)
next
  case (2 b)
  then show ?case
    by (intro exI [of _ "kh_hdr h"]) (subst merge_free_blocks.simps, auto)
next
  case (3 b c bs)
  let ?H = "kh_hdr h"
  have cur: "cur = b_addr b" "cur \<noteq> 0" "unat cur = a" "bh_size (?H cur) = b_size b"
      "(bh_free (?H cur) \<noteq> 0) = b_free b"
    and nx: "bh_next (?H cur) = b_addr c" "b_addr c \<noteq> 0" "unat (b_addr c) = a + 16 + unat (b_size b)"
      "bh_size (?H (b_addr c)) = b_size c" "(bh_free (?H (b_addr c)) \<noteq> 0) = b_free c"
    and tl: "hchain ?H (b_addr c) (c # bs)" "hlayout (a + 16 + unat (b_size b)) (c # bs) e"
      "hlayout (a + 16 + unat (b_size b) + 16 + unat (b_size c)) bs e"
    using "3.prems"(1,2) by auto
  show ?case
  proof (cases "b_free b \<and> b_free c")
    case True
    let ?sz = "b_size b + (16 + b_size c)"
    let ?h = "h\<lparr>kh_hdr := ?H(cur := (?H cur)\<lparr>bh_size := ?sz, bh_next := bh_next (?H (b_addr c))\<rparr>)\<rparr>"
    have sz: "unat ?sz = unat (b_size b) + 16 + unat (b_size c)"
      by (rule merge_size_arith [of a]) (use hlayout_le [OF tl(3)] "3.prems"(3) in simp)
    have "\<forall>d \<in> set bs. b_addr d \<noteq> cur"
      using hlayout_addr [OF tl(3)] cur(3) by fastforce
    then have ch: "hchain (kh_hdr ?h) cur (b\<lparr>b_size := ?sz\<rparr> # bs)"
      using "3.prems"(1) by (auto simp: hchain_upd)
    have "unat ?sz mod 8 = 0"
    proof -
      have "8 dvd unat (b_size b)" "8 dvd unat (b_size c)" using "3.prems"(2) by auto
      then have "8 dvd unat (b_size b) + 16 + unat (b_size c)" by (intro dvd_add) simp_all
      then show ?thesis by (simp add: sz)
    qed
    then have ly: "hlayout a (b\<lparr>b_size := ?sz\<rparr> # bs) e"
      using tl(3) cur(3) sz cur(1) by (simp add: add.assoc)
    from "3.IH"(1) [OF True ch ly "3.prems"(3)]
    obtain H' where H': "merge_free_blocks cur ?h = Some (?h\<lparr>kh_hdr := H'\<rparr>)"
      "hchain H' cur (blk_merge (b # c # bs))" "hlayout a (blk_merge (b # c # bs)) e"
      "\<forall>x. unat x < a \<longrightarrow> H' x = kh_hdr ?h x" using True by auto
    have "merge_free_blocks cur h = merge_free_blocks cur ?h"
      using True cur nx by (subst merge_free_blocks.simps) (auto simp: Let_def HDR_def)
    with H' cur(3) show ?thesis by auto
  next
    case False
    from "3.IH"(2) [OF False tl(1,2) "3.prems"(3)]
    obtain H' where H': "merge_free_blocks (b_addr c) h = Some (h\<lparr>kh_hdr := H'\<rparr>)"
      "hchain H' (b_addr c) (blk_merge (c # bs))"
      "hlayout (a + 16 + unat (b_size b)) (blk_merge (c # bs)) e"
      "\<forall>x. unat x < a + 16 + unat (b_size b) \<longrightarrow> H' x = ?H x" by auto
    have "H' cur = ?H cur" using H'(4) cur(3) by simp
    then have "hchain H' cur (blk_merge (b # c # bs))" using False "3.prems"(1) H'(2) nx(1) by auto
    moreover have "merge_free_blocks cur h = merge_free_blocks (b_addr c) h"
      using False cur nx by (subst merge_free_blocks.simps) (auto simp: Let_def)
    ultimately show ?thesis using False H' "3.prems"(2) by auto
  qed
qed

subsection \<open>Invariant of the heap\<close>

text \<open>
  \<open>kheap_rep h bs\<close>: the initialised heap \<open>h\<close> consists of the blocks \<open>bs\<close>, which tile its
  512 KB exactly, and no two neighbours are both free.
\<close>

definition kheap_rep :: "kheap \<Rightarrow> block list \<Rightarrow> bool" where
  "kheap_rep h bs \<longleftrightarrow> heap_ready h \<noteq> 0 \<and> 16 \<le> unat (heap_head h) \<and> unat (heap_head h) mod 8 = 0
     \<and> unat (heap_head h) + 524288 \<le> 4294967296
     \<and> hchain (kh_hdr h) (heap_head h) bs
     \<and> hlayout (unat (heap_head h)) bs (unat (heap_head h) + 524288) \<and> no_adjacent_free bs"

lemma kheap_rep_if [simp]: "kheap_rep (h\<lparr>kh_if := x\<rparr>) bs = kheap_rep h bs"
  by (simp add: kheap_rep_def)

text \<open>Rounding up to a multiple of 8; a size above \<^verbatim>\<open>0xFFFFFFF8\<close> wraps around to 0.\<close>

lemma unat_kalign: "unat (kalign n) = unat (n + 7) div 8 * 8"
proof -
  have m: "(7 :: u32) = mask 3" by (simp add: mask_eq_exp_minus_1)
  have "kalign n = push_bit 3 (drop_bit 3 (n + 7))"
    unfolding kalign_def by (subst (2) m) (auto simp: bit_simps intro!: bit_word_eqI)
  moreover have "unat (n + 7) div 8 * 8 < 4294967296"
    using unat_u32_less [of "n + 7"] div_times_less_eq_dividend [of "unat (n + 7)" 8] by linarith
  then have "unat (push_bit 3 (drop_bit 3 (n + 7))) = unat (n + 7) div 8 * 8"
    by (simp add: push_bit_eq_mult drop_bit_eq_div unat_mult_u32 unat_div)
  ultimately show ?thesis by simp
qed

lemma kalign_8: "unat (kalign n) mod 8 = 0"
  by (simp add: unat_kalign)

lemma kalign_ge: "n \<le> 0xFFFFFFF8 \<Longrightarrow> n \<le> kalign n"
proof -
  assume "n \<le> 0xFFFFFFF8"
  then have "unat n \<le> 4294967288" by (simp add: word_le_nat_alt)
  then have u: "unat (n + 7) = unat n + 7" by (subst unat_add_u32) simp_all
  have "unat n \<le> (unat n + 7) div 8 * 8" by linarith
  then show ?thesis by (simp add: word_le_nat_alt unat_kalign u)
qed

subsection \<open>Facts about the list operations\<close>

lemma no_adjacent_free_Cons:
  "no_adjacent_free (b # bs) \<longleftrightarrow> no_adjacent_free bs \<and> (bs = [] \<or> \<not> (b_free b \<and> b_free (hd bs)))"
  by (cases bs) auto

lemma hd_blk_alloc_free: "bs \<noteq> [] \<Longrightarrow> b_free (hd (fst (blk_alloc n bs))) \<Longrightarrow> b_free (hd bs)"
  by (cases bs) (auto split: if_splits)

lemma blk_alloc_eq_Nil [simp]: "fst (blk_alloc n bs) = [] \<longleftrightarrow> bs = []"
  by (cases bs) auto

lemma no_adjacent_alloc: "no_adjacent_free bs \<Longrightarrow> no_adjacent_free (fst (blk_alloc n bs))"
  by (induction bs) (auto simp: no_adjacent_free_Cons dest: hd_blk_alloc_free)

lemma hd_blk_merge_free: "bs \<noteq> [] \<Longrightarrow> b_free (hd (blk_merge bs)) = b_free (hd bs)"
  by (induction bs rule: blk_merge.induct) simp_all

lemma no_adjacent_merge: "no_adjacent_free (blk_merge bs)"
proof (induction bs rule: blk_merge.induct)
  case (3 b c bs)
  with hd_blk_merge_free [of "c # bs"] show ?case by (auto simp: no_adjacent_free_Cons)
qed simp_all

lemma blk_live_merge: "blk_live (blk_merge bs) = blk_live bs"
  by (induction bs rule: blk_merge.induct) auto

lemma blk_alloc_null: "snd (blk_alloc n bs) = 0 \<Longrightarrow> (\<forall>b \<in> set bs. b_addr b + 16 \<noteq> 0) \<Longrightarrow>
    fst (blk_alloc n bs) = bs \<and> (\<forall>b \<in> set bs. b_free b \<longrightarrow> b_size b < n)"
  by (induction bs) (auto split: if_splits)

text \<open>What a successful allocation adds to the blocks in use.\<close>

primrec blk_grant :: "u32 \<Rightarrow> block list \<Rightarrow> u32" where
  "blk_grant n [] = 0"
| "blk_grant n (b # bs) =
     (if b_free b \<and> n \<le> b_size b then (if n + 24 \<le> b_size b then n else b_size b) else blk_grant n bs)"

lemma blk_grant_ge: "snd (blk_alloc n bs) \<noteq> 0 \<Longrightarrow> n \<le> blk_grant n bs"
  by (induction bs) (simp_all split: if_splits)

lemma blk_alloc_live:
  "snd (blk_alloc n bs) \<noteq> 0 \<Longrightarrow>
     blk_live (fst (blk_alloc n bs)) = insert (snd (blk_alloc n bs) - 16, blk_grant n bs) (blk_live bs)"
proof (induction bs)
  case (Cons b bs)
  then show ?case
    by (cases "b_free b \<and> n \<le> b_size b") (simp_all add: insert_commute split: if_splits)
qed simp

end
