(* ===== verification/Kmalloc_Contract.thy ===== *)
theory Kmalloc_Contract
  imports Kmalloc
begin

text \<open>
  The contract of the kernel heap, over \<^verbatim>\<open>kernel/memory/kmalloc.cpp\<close> as modelled in
  \<open>Kmalloc\<close>: what \<^verbatim>\<open>kmalloc_init\<close> establishes, what \<^verbatim>\<open>kmalloc\<close>, \<^verbatim>\<open>kfree\<close> and
  \<^verbatim>\<open>krealloc\<close> do to the abstract heap, the accounting of \<^verbatim>\<open>kmem_info\<close>, and the request
  sizes whose rounding wraps around.
\<close>

subsection \<open>Blocks in use\<close>

lemma blk_live_iff: "(a, m) \<in> blk_live bs \<longleftrightarrow> (\<exists>b \<in> set bs. \<not> b_free b \<and> b_addr b = a \<and> b_size b = m)"
  by (induction bs) auto

lemma hchain_live:
  "hchain H p bs \<Longrightarrow> (a, m) \<in> blk_live bs \<Longrightarrow> a \<noteq> 0 \<and> bh_magic (H a) = BLOCK_MAGIC \<and> bh_size (H a) = m"
  by (induction bs arbitrary: p) (auto split: if_splits)

text \<open>Two entries of a laid-out list do not overlap, headers included.\<close>

lemma hlayout_disjoint:
  assumes "hlayout s bs e" "b \<in> set bs" "c \<in> set bs" "b \<noteq> c"
  shows "unat (b_addr b) + 16 + unat (b_size b) \<le> unat (b_addr c)
    \<or> unat (b_addr c) + 16 + unat (b_size c) \<le> unat (b_addr b)"
  using assms
proof (induction bs arbitrary: s)
  case (Cons d bs)
  then have l: "hlayout (s + 16 + unat (b_size d)) bs e" "unat (b_addr d) = s" by auto
  note far = hlayout_addr [OF l(1)]
  show ?case
  proof (cases "b \<in> set bs \<and> c \<in> set bs")
    case True
    with Cons.IH [OF l(1)] Cons.prems(4) show ?thesis by blast
  next
    case False
    with Cons.prems consider "b = d" "c \<in> set bs" | "c = d" "b \<in> set bs" by auto
    then show ?thesis using far l(2) by cases auto
  qed
qed simp

lemma hlayout_addr_inj:
  assumes "hlayout s bs e" "b \<in> set bs" "c \<in> set bs" "b_addr b = b_addr c"
  shows "b = c"
  using hlayout_disjoint [OF assms(1-3)] assms(4) by fastforce

lemma blk_live_unique:
  assumes "hlayout s bs e" "(a, m) \<in> blk_live bs" "(a, k) \<in> blk_live bs"
  shows "m = k"
proof -
  from assms(2,3) obtain b c where "b \<in> set bs" "b_addr b = a" "b_size b = m"
    "c \<in> set bs" "b_addr c = a" "b_size c = k" by (auto simp: blk_live_iff)
  with hlayout_addr_inj [OF assms(1), of b c] show ?thesis by simp
qed

lemma hlayout_aligned:
  "hlayout s bs e \<Longrightarrow> b \<in> set bs \<Longrightarrow> s mod 8 = 0 \<Longrightarrow> unat (b_addr b) mod 8 = 0"
proof (induction bs arbitrary: s)
  case (Cons c bs)
  have "8 dvd s + 16 + unat (b_size c)"
    using Cons.prems by (intro dvd_add) (auto simp: mod_eq_0_iff_dvd)
  with Cons show ?case by auto
qed simp

lemma hlayout_total:
  "hlayout s bs e \<Longrightarrow> s + (\<Sum>b\<leftarrow>bs. 16 + unat (b_size b)) = e"
proof (induction bs arbitrary: s)
  case (Cons b bs)
  from Cons.prems have "hlayout (s + 16 + unat (b_size b)) bs e" by simp
  from Cons.IH [OF this] show ?case by simp
qed simp

lemma kheap_rep_block:
  assumes "kheap_rep h bs" "b \<in> set bs"
  shows "unat (heap_head h) \<le> unat (b_addr b)" "16 \<le> unat (b_addr b)"
    "unat (b_addr b) + 16 + unat (b_size b) \<le> unat (heap_head h) + 524288"
    "unat (b_addr b) + 16 + unat (b_size b) \<le> 4294967296"
proof -
  have "hlayout (unat (heap_head h)) bs (unat (heap_head h) + 524288)" "16 \<le> unat (heap_head h)"
    "unat (heap_head h) + 524288 \<le> 4294967296"
    using assms(1) by (auto simp: kheap_rep_def)
  with hlayout_addr [OF this(1) assms(2)]
  show "unat (heap_head h) \<le> unat (b_addr b)" "16 \<le> unat (b_addr b)"
    "unat (b_addr b) + 16 + unat (b_size b) \<le> unat (heap_head h) + 524288"
    "unat (b_addr b) + 16 + unat (b_size b) \<le> 4294967296" by linarith+
qed

lemma unat_payload:
  assumes "unat (a :: u32) + 16 + unat (m :: u32) \<le> 4294967296" "0 < unat m"
  shows "unat (a + 16) = unat a + 16"
  using assms by (subst unat_add_u32) simp_all

subsection \<open>kmalloc\<close>

lemma kmalloc_refines:
  assumes rep: "kheap_rep h bs" and n: "sz \<noteq> 0"
  shows "\<exists>H'. kmalloc hb sz h = Some (h\<lparr>kh_hdr := H', kh_if := True\<rparr>, snd (blk_alloc (kalign sz) bs))
    \<and> kheap_rep (h\<lparr>kh_hdr := H', kh_if := True\<rparr>) (fst (blk_alloc (kalign sz) bs))"
proof -
  let ?h = "h\<lparr>kh_if := False\<rparr>"
  have p: "hchain (kh_hdr ?h) (heap_head h) bs"
    "hlayout (unat (heap_head h)) bs (unat (heap_head h) + 524288)"
    "unat (heap_head h) + 524288 \<le> 4294967296" "16 \<le> unat (heap_head h)" "heap_ready h \<noteq> 0"
    using rep by (auto simp: kheap_rep_def)
  from kmalloc_walk_refines [OF p(1-4) kalign_8 [of sz]]
  obtain H' where H': "kmalloc_walk (kalign sz) (heap_head h) ?h
      = Some (?h\<lparr>kh_hdr := H'\<rparr>, snd (blk_alloc (kalign sz) bs))"
    "hchain H' (heap_head h) (fst (blk_alloc (kalign sz) bs))"
    "hlayout (unat (heap_head h)) (fst (blk_alloc (kalign sz) bs)) (unat (heap_head h) + 524288)" by blast
  from H'(1) p(5) n have "kmalloc hb sz h
      = Some (h\<lparr>kh_hdr := H', kh_if := True\<rparr>, snd (blk_alloc (kalign sz) bs))"
    by (simp add: kmalloc_def)
  moreover have "kheap_rep (h\<lparr>kh_hdr := H', kh_if := True\<rparr>) (fst (blk_alloc (kalign sz) bs))"
    using rep H'(2,3) no_adjacent_alloc by (auto simp: kheap_rep_def)
  ultimately show ?thesis by blast
qed

lemma blk_alloc_addr:
  "snd (blk_alloc n bs) \<noteq> 0 \<Longrightarrow> \<exists>b \<in> set bs. b_free b \<and> n \<le> b_size b \<and> snd (blk_alloc n bs) = b_addr b + 16"
  by (induction bs) (auto split: if_splits)

lemma blk_payload_nz:
  assumes "kheap_rep h bs" "b \<in> set bs" "n \<noteq> 0" "n \<le> b_size b"
  shows "b_addr b + 16 \<noteq> 0"
proof -
  from assms(3,4) have "0 < unat (b_size b)"
    by (metis unat_gt_0 word_gt_0 le_zero_eq word_le_0_iff)
  with kheap_rep_block(4) [OF assms(1,2)] have "unat (b_addr b + 16) = unat (b_addr b) + 16"
    by (intro unat_payload [of _ "b_size b"]) simp_all
  then show ?thesis by (metis unat_0 add_is_0 zero_neq_numeral)
qed

text \<open>First fit is complete: null means that no free block holds the rounded request.\<close>

lemma blk_alloc_null_iff:
  assumes rep: "kheap_rep h bs" and n: "n \<noteq> 0"
  shows "snd (blk_alloc n bs) = 0 \<longleftrightarrow> (\<forall>b \<in> set bs. b_free b \<longrightarrow> b_size b < n)"
proof -
  have "\<forall>b \<in> set bs. n \<le> b_size b \<longrightarrow> b_addr b + 16 \<noteq> 0"
    using blk_payload_nz [OF rep _ n] by blast
  then show ?thesis
    by (induction bs) (auto simp: not_le not_less split: if_splits)
qed

lemma kalign_nz:
  assumes "sz \<noteq> 0" "sz \<le> 0xFFFFFFF8" shows "kalign sz \<noteq> 0"
  using kalign_ge [OF assms(2)] assms(1) by (metis word_le_0_iff le_zero_eq)

subsection \<open>kfree\<close>

lemma hchain_release:
  "hchain H p bs \<Longrightarrow> \<forall>b \<in> set bs. \<forall>c \<in> set bs. b_addr b = b_addr c \<longrightarrow> b = c \<Longrightarrow>
   hchain (H(a := (H a)\<lparr>bh_free := 1\<rparr>)) p (blk_release a bs)"
  by (induction bs arbitrary: p) (auto simp: blk_release_def)

lemma hlayout_release: "hlayout s (blk_release a bs) e = hlayout s bs e"
  by (induction bs arbitrary: s) (auto simp: blk_release_def)

lemma blk_live_release: "blk_live (blk_release a bs) = {x \<in> blk_live bs. fst x \<noteq> a}"
proof (intro set_eqI)
  fix x :: "u32 \<times> u32"
  obtain y m where x: "x = (y, m)" by (cases x)
  have "(\<exists>b \<in> set (blk_release a bs). \<not> b_free b \<and> b_addr b = y \<and> b_size b = m)
      \<longleftrightarrow> (\<exists>b \<in> set bs. \<not> b_free b \<and> b_addr b = y \<and> b_size b = m) \<and> y \<noteq> a"
    unfolding blk_release_def by force
  then show "x \<in> blk_live (blk_release a bs) \<longleftrightarrow> x \<in> {x \<in> blk_live bs. fst x \<noteq> a}"
    by (simp add: x blk_live_iff)
qed

lemma kfree_refines:
  assumes rep: "kheap_rep h bs" and live: "(p - 16, m) \<in> blk_live bs" and p: "p \<noteq> 0"
  shows "\<exists>H'. kfree p h = Some (h\<lparr>kh_hdr := H', kh_if := True\<rparr>)
    \<and> kheap_rep (h\<lparr>kh_hdr := H', kh_if := True\<rparr>) (blk_merge (blk_release (p - 16) bs))"
proof -
  let ?H = "kh_hdr h"
  let ?h = "h\<lparr>kh_if := False, kh_hdr := ?H(p - 16 := (?H (p - 16))\<lparr>bh_free := 1\<rparr>)\<rparr>"
  have r: "hchain ?H (heap_head h) bs" "hlayout (unat (heap_head h)) bs (unat (heap_head h) + 524288)"
    "unat (heap_head h) + 524288 \<le> 4294967296"
    using rep by (auto simp: kheap_rep_def)
  have "\<forall>b \<in> set bs. \<forall>c \<in> set bs. b_addr b = b_addr c \<longrightarrow> b = c"
    using hlayout_addr_inj [OF r(2)] by blast
  from hchain_release [OF r(1) this]
  have ch: "hchain (kh_hdr ?h) (heap_head h) (blk_release (p - 16) bs)" by simp
  have ly: "hlayout (unat (heap_head h)) (blk_release (p - 16) bs) (unat (heap_head h) + 524288)"
    using r(2) by (simp only: hlayout_release)
  from merge_refines [OF ch ly r(3)]
  obtain H' where H': "merge_free_blocks (heap_head h) ?h = Some (?h\<lparr>kh_hdr := H'\<rparr>)"
    "hchain H' (heap_head h) (blk_merge (blk_release (p - 16) bs))"
    "hlayout (unat (heap_head h)) (blk_merge (blk_release (p - 16) bs)) (unat (heap_head h) + 524288)"
    by (elim exE conjE)
  have mg: "bh_magic (?H (p - 16)) = BLOCK_MAGIC" using hchain_live [OF r(1) live] by simp
  have "kfree p h = map_option (kh_if_update (\<lambda>_. True)) (merge_free_blocks (heap_head h) ?h)"
    using p mg by (simp add: kfree_def HDR_def Let_def)
  then have "kfree p h = Some (h\<lparr>kh_hdr := H', kh_if := True\<rparr>)" by (simp only: H'(1)) simp
  moreover have "kheap_rep (h\<lparr>kh_hdr := H', kh_if := True\<rparr>) (blk_merge (blk_release (p - 16) bs))"
    using rep H'(2,3) by (simp add: kheap_rep_def no_adjacent_merge)
  ultimately show ?thesis by (intro exI conjI)
qed

text \<open>Freeing what was just allocated gives back the very list of blocks.\<close>

lemma blk_merge_id: "no_adjacent_free bs \<Longrightarrow> blk_merge bs = bs"
  by (induction bs rule: blk_merge.induct) auto

lemma blk_release_other: "\<forall>b \<in> set bs. b_addr b \<noteq> a \<Longrightarrow> blk_release a bs = bs"
  by (induction bs) (auto simp: blk_release_def)

lemma blk_release_Cons [simp]:
  "blk_release a (b # bs) = (if b_addr b = a then b\<lparr>b_free := True\<rparr> else b) # blk_release a bs"
  "blk_release a [] = []"
  by (simp_all add: blk_release_def)

lemma blk_merge_Cons:
  "\<not> (bs \<noteq> [] \<and> b_free b \<and> b_free (hd bs)) \<Longrightarrow> blk_merge (b # bs) = b # blk_merge bs"
  by (cases bs) auto

lemma blk_alloc_release:
  assumes "hlayout s bs e" "e \<le> 4294967296" "16 \<le> s" "no_adjacent_free bs" "snd (blk_alloc n bs) \<noteq> 0"
  shows "blk_merge (blk_release (snd (blk_alloc n bs) - 16) (fst (blk_alloc n bs))) = bs"
  using assms
proof (induction bs arbitrary: s)
  case (Cons b bs)
  have tl: "hlayout (s + 16 + unat (b_size b)) bs e" and s: "unat (b_addr b) = s"
    using Cons.prems(1) by auto
  have far: "\<forall>c \<in> set bs. s + 16 + unat (b_size b) \<le> unat (b_addr c)"
    using hlayout_addr [OF tl] by blast
  show ?case
  proof (cases "b_free b \<and> n \<le> b_size b")
    case True
    have other: "blk_release (b_addr b) bs = bs"
      using far s by (intro blk_release_other) fastforce
    show ?thesis
    proof (cases "n + 24 \<le> b_size b")
      case split: True
      have le: "s + 16 + unat (b_size b) \<le> 4294967296" using hlayout_le [OF tl] Cons.prems(2) by simp
      from True have "n \<le> b_size b" by simp
      from split_arith(1) [OF le Cons.prems(3) this s split]
      have "unat (b_addr b + 16 + n) \<noteq> unat (b_addr b)" using s by simp
      then have "b_addr b + 16 + n \<noteq> b_addr b" by metis
      moreover have "n + (16 + (b_size b - n - 16)) = b_size b" by simp
      moreover have "b\<lparr>b_free := True\<rparr> = b" using True by simp
      then have "blk_merge (b\<lparr>b_free := True\<rparr> # bs) = b # bs"
        by (simp only: blk_merge_id [OF Cons.prems(4)])
      ultimately show ?thesis
        using True split other blk_merge_id [OF Cons.prems(4)] by simp
    next
      case False
      from True have "b\<lparr>b_free := True\<rparr> = b" by simp
      then have "blk_merge (b\<lparr>b_free := True\<rparr> # bs) = b # bs"
        by (simp only: blk_merge_id [OF Cons.prems(4)])
      then show ?thesis using True False other by simp
    qed
  next
    case False
    then have al: "snd (blk_alloc n bs) \<noteq> 0" using Cons.prems(5) by (auto split: if_splits)
    from blk_alloc_addr [OF al] obtain c where c: "c \<in> set bs" "b_free c" "snd (blk_alloc n bs) - 16 = b_addr c"
      by auto
    with far s have ne: "b_addr b \<noteq> snd (blk_alloc n bs) - 16" by fastforce
    have na: "no_adjacent_free bs" "bs = [] \<or> \<not> (b_free b \<and> b_free (hd bs))"
      using Cons.prems(4) by (simp_all add: no_adjacent_free_Cons)
    have IH: "blk_merge (blk_release (snd (blk_alloc n bs) - 16) (fst (blk_alloc n bs))) = bs"
      by (rule Cons.IH [OF tl Cons.prems(2) _ na(1) al]) (use Cons.prems(3) in simp)
    let ?r = "blk_release (snd (blk_alloc n bs) - 16) (fst (blk_alloc n bs))"
    have "b_free (hd ?r) = b_free (hd bs)" if "?r \<noteq> []"
      using hd_blk_merge_free [OF that] IH by simp
    moreover have "bs \<noteq> []" using c by auto
    ultimately have "blk_merge (b # ?r) = b # blk_merge ?r"
      using na(2) by (intro blk_merge_Cons) auto
    then show ?thesis using False ne IH by auto
  qed
qed simp

subsection \<open>Contracts\<close>

lemma kmalloc_init_rep:
  assumes al: "unat hb mod 8 = 0" and fit: "unat hb + 0x88000 \<le> 0x100000000"
  shows "\<exists>a. kheap_rep (kmalloc_init hb h) [\<lparr>b_addr = a, b_size = 0x7FFF0, b_free = True\<rparr>]
    \<and> unat a = max (unat hb) 0x100000 + 0x8000"
proof -
  define base where "base = (if hb < 0x100000 then 0x100000 else hb)"
  have base: "unat base = max (unat hb) 0x100000"
    by (auto simp: base_def word_less_nat_alt max_def)
  have le: "unat base + 0x88000 \<le> 0x100000000" and b8: "unat base mod 8 = 0"
    using al fit by (auto simp: base max_def)
  have "unat (base + 0x8000) = unat base + 0x8000"
    using le by (subst unat_word_ariths) simp
  moreover have "unat (ucast (base + 0x8000) :: u32) = unat (base + 0x8000) mod 2 ^ 32"
    by (simp add: unsigned_ucast_eq take_bit_eq_mod)
  ultimately have pool: "unat (ucast (base + 0x8000) :: u32) = unat base + 0x8000"
    using le by simp
  let ?p = "ucast (base + 0x8000) :: u32"
  have "kmalloc_init hb h = h\<lparr>heap_pool := ?p, heap_head := ?p,
      kh_hdr := (kh_hdr h)(?p := \<lparr>bh_magic = BLOCK_MAGIC, bh_size = 0x7FFF0, bh_free = 1, bh_next = 0\<rparr>),
      heap_ready := 1\<rparr>"
    by (simp add: kmalloc_init_def base_def KMALLOC_HEAP_SIZE_def HDR_def Let_def)
  moreover have "?p \<noteq> 0" using pool base by (metis unat_0 add_is_0 max_def zero_neq_numeral)
  moreover have "(unat base + 32768) mod 8 = 0" using b8 by (simp flip: dvd_eq_mod_eq_0)
  ultimately have "kheap_rep (kmalloc_init hb h) [\<lparr>b_addr = ?p, b_size = 0x7FFF0, b_free = True\<rparr>]"
    using pool le by (simp add: kheap_rep_def)
  with pool base show ?thesis by auto
qed

lemma kmalloc_contract:
  assumes rep: "kheap_rep h bs" and sz: "sz \<noteq> 0" "sz \<le> 0xFFFFFFF8"
  shows "\<exists>h' p bs'. kmalloc hb sz h = Some (h', p) \<and> kheap_rep h' bs' \<and> kh_bytes h' = kh_bytes h
    \<and> (p = 0 \<longrightarrow> bs' = bs \<and> (\<forall>b \<in> set bs. b_free b \<longrightarrow> b_size b < kalign sz))
    \<and> (p \<noteq> 0 \<longrightarrow> unat p mod 8 = 0 \<and> (\<exists>m. sz \<le> m \<and> blk_live bs' = insert (p - 16, m) (blk_live bs))
        \<and> (\<forall>k. (p - 16, k) \<notin> blk_live bs))"
proof -
  let ?n = "kalign sz" and ?p = "snd (blk_alloc (kalign sz) bs)" and ?bs = "fst (blk_alloc (kalign sz) bs)"
  from kmalloc_refines [OF rep sz(1), of hb] obtain H' where
    k: "kmalloc hb sz h = Some (h\<lparr>kh_hdr := H', kh_if := True\<rparr>, ?p)"
    and rep': "kheap_rep (h\<lparr>kh_hdr := H', kh_if := True\<rparr>) ?bs" by blast
  have null: "?bs = bs \<and> (\<forall>b \<in> set bs. b_free b \<longrightarrow> b_size b < ?n)" if "?p = 0"
  proof -
    from blk_alloc_null_iff [OF rep kalign_nz [OF sz]] that
    have small: "\<forall>b \<in> set bs. b_free b \<longrightarrow> b_size b < ?n" by simp
    then have "?bs = bs" by (induction bs) (auto simp: not_le)
    with small show ?thesis by simp
  qed
  have al: "unat ?p mod 8 = 0 \<and> (\<exists>m. sz \<le> m \<and> blk_live ?bs = insert (?p - 16, m) (blk_live bs))
      \<and> (\<forall>k. (?p - 16, k) \<notin> blk_live bs)" if nz: "?p \<noteq> 0"
  proof (intro conjI)
    from blk_alloc_addr [OF nz] obtain b
      where b: "b \<in> set bs" "b_free b" "?n \<le> b_size b" "?p = b_addr b + 16" by blast
    have ly: "hlayout (unat (heap_head h)) bs (unat (heap_head h) + 524288)"
      and h8: "unat (heap_head h) mod 8 = 0" using rep by (auto simp: kheap_rep_def)
    have "unat ?n > 0" using kalign_nz [OF sz] by (simp add: unat_gt_0)
    with b(3) have "0 < unat (b_size b)" by (simp add: word_le_nat_alt)
    from unat_payload [OF kheap_rep_block(4) [OF rep b(1)] this]
    have "unat ?p = unat (b_addr b) + 16" using b(4) by simp
    moreover have "unat (b_addr b) mod 8 = 0" by (rule hlayout_aligned [OF ly b(1) h8])
    ultimately show "unat ?p mod 8 = 0" by (simp flip: dvd_eq_mod_eq_0)
    show "\<exists>m. sz \<le> m \<and> blk_live ?bs = insert (?p - 16, m) (blk_live bs)"
      using blk_alloc_live [OF nz] blk_grant_ge [OF nz] kalign_ge [OF sz(2)] by (meson order_trans)
    show "\<forall>k. (?p - 16, k) \<notin> blk_live bs"
      using hlayout_addr_inj [OF ly b(1)] b(2,4) by (fastforce simp: blk_live_iff)
  qed
  show ?thesis
    by (rule exI [of _ "h\<lparr>kh_hdr := H', kh_if := True\<rparr>"], rule exI [of _ ?p], rule exI [of _ ?bs])
       (use k rep' null al in \<open>simp add: k\<close>)
qed

lemma kfree_contract:
  assumes rep: "kheap_rep h bs" and live: "(p - 16, m) \<in> blk_live bs" and p: "p \<noteq> 0"
  shows "\<exists>h' bs'. kfree p h = Some h' \<and> kheap_rep h' bs' \<and> kh_bytes h' = kh_bytes h
    \<and> blk_live bs' = blk_live bs - {(p - 16, m)}"
proof -
  from kfree_refines [OF rep live p] obtain H' where
    k: "kfree p h = Some (h\<lparr>kh_hdr := H', kh_if := True\<rparr>)"
    and rep': "kheap_rep (h\<lparr>kh_hdr := H', kh_if := True\<rparr>) (blk_merge (blk_release (p - 16) bs))" by blast
  have ly: "hlayout (unat (heap_head h)) bs (unat (heap_head h) + 524288)"
    using rep by (simp add: kheap_rep_def)
  have u: "k = m" if "(p - 16, k) \<in> blk_live bs" for k
    by (rule blk_live_unique [OF ly that live])
  let ?bs = "blk_merge (blk_release (p - 16) bs)"
  have lv: "blk_live ?bs = {x \<in> blk_live bs. fst x \<noteq> p - 16}"
    unfolding blk_live_merge by (rule blk_live_release)
  have "x \<in> blk_live ?bs \<longleftrightarrow> x \<in> blk_live bs - {(p - 16, m)}" for x
  proof -
    obtain y k where x: "x = (y, k)" by (cases x)
    show ?thesis
      unfolding lv x mem_Collect_eq fst_conv Diff_iff singleton_iff prod.inject
      using u [of k] by (cases "y = p - 16") iprover+
  qed
  then have "blk_live ?bs = blk_live bs - {(p - 16, m)}" by (intro set_eqI)
  moreover have "kh_bytes (h\<lparr>kh_hdr := H', kh_if := True\<rparr>) = kh_bytes h" by simp
  ultimately show ?thesis using k rep' by (intro exI conjI)
qed

lemma kmalloc_kfree_id:
  assumes rep: "kheap_rep h bs" and sz: "sz \<noteq> 0" and k: "kmalloc hb sz h = Some (h1, p)" and p: "p \<noteq> 0"
  shows "\<exists>h2. kfree p h1 = Some h2 \<and> kheap_rep h2 bs"
proof -
  from kmalloc_refines [OF rep sz, of hb] k
  have r1: "kheap_rep h1 (fst (blk_alloc (kalign sz) bs))" and pe: "p = snd (blk_alloc (kalign sz) bs)"
    by auto
  from p pe blk_alloc_live have "(p - 16, blk_grant (kalign sz) bs) \<in> blk_live (fst (blk_alloc (kalign sz) bs))"
    by blast
  from kfree_refines [OF r1 this p] obtain h2 where
    h2: "kfree p h1 = Some h2" "kheap_rep h2 (blk_merge (blk_release (p - 16) (fst (blk_alloc (kalign sz) bs))))"
    by blast
  have "blk_merge (blk_release (p - 16) (fst (blk_alloc (kalign sz) bs))) = bs"
    unfolding pe by (rule blk_alloc_release [of "unat (heap_head h)" bs "unat (heap_head h) + 524288"])
       (use rep p pe in \<open>auto simp: kheap_rep_def\<close>)
  with h2 show ?thesis by auto
qed

subsection \<open>kmem\_info: the accounting\<close>

definition blk_used :: "block list \<Rightarrow> nat" where
  "blk_used bs = (\<Sum>b\<leftarrow>bs. if b_free b then 0 else unat (b_size b))"

definition blk_free :: "block list \<Rightarrow> nat" where
  "blk_free bs = (\<Sum>b\<leftarrow>bs. if b_free b then unat (b_size b) else 0)"

lemma kmem_walk_sum:
  "hchain (kh_hdr h) p bs \<Longrightarrow>
   kmem_walk p u f h = Some (u + of_nat (blk_used bs), f + of_nat (blk_free bs))"
proof (induction bs arbitrary: p u f)
  case Nil
  then show ?case by (subst kmem_walk.simps) (simp add: blk_used_def blk_free_def)
next
  case (Cons b bs)
  let ?c = "kh_hdr h p"
  have nx: "hchain (kh_hdr h) (bh_next ?c) bs" and p: "p \<noteq> 0" "bh_size ?c = b_size b"
    "bh_free ?c \<noteq> 0 \<longleftrightarrow> b_free b" using Cons.prems by auto
  show ?case
    by (subst kmem_walk.simps) (use p Cons.IH [OF nx] in \<open>simp add: blk_used_def blk_free_def\<close>)
qed

lemma blk_used_free_total: "blk_used bs + blk_free bs + 16 * length bs = (\<Sum>b\<leftarrow>bs. 16 + unat (b_size b))"
  by (induction bs) (simp_all add: blk_used_def blk_free_def)

lemma kmem_info_contract:
  assumes "kheap_rep h bs"
  shows "\<exists>u f. kmem_info h = Some (u, f) \<and> unat u = blk_used bs \<and> unat f = blk_free bs
    \<and> unat u + unat f + 16 * length bs = 524288"
proof -
  have ch: "hchain (kh_hdr h) (heap_head h) bs"
    and ly: "hlayout (unat (heap_head h)) bs (unat (heap_head h) + 524288)"
    using assms by (auto simp: kheap_rep_def)
  have t: "blk_used bs + blk_free bs + 16 * length bs = 524288"
    using hlayout_total [OF ly] by (simp add: blk_used_free_total)
  then have "unat (of_nat (blk_used bs) :: u32) = blk_used bs" "unat (of_nat (blk_free bs) :: u32) = blk_free bs"
    by (simp_all add: unat_of_nat_u32)
  with t kmem_walk_sum [OF ch, of 0 0] show ?thesis by (simp add: kmem_info_def)
qed

subsection \<open>krealloc moves the contents\<close>

lemma copy_fold:
  assumes "\<forall>i<n. \<forall>j<n. src + word_of_nat i \<noteq> dst + word_of_nat j" "n \<le> 4294967296"
  shows "(\<forall>i<n. fold (copy_byte dst src) [0..<n] m (dst + word_of_nat i) = m (src + word_of_nat i))
    \<and> (\<forall>x. (\<forall>i<n. x \<noteq> dst + word_of_nat i) \<longrightarrow> fold (copy_byte dst src) [0..<n] m x = m x)"
  using assms
proof (induction n)
  case (Suc n)
  let ?f = "fold (copy_byte dst src) [0..<n] m"
  have IH: "\<forall>i<n. ?f (dst + word_of_nat i) = m (src + word_of_nat i)"
    "\<forall>x. (\<forall>i<n. x \<noteq> dst + word_of_nat i) \<longrightarrow> ?f x = m x"
    using Suc by auto
  have "?f (src + word_of_nat n) = m (src + word_of_nat n)" using IH(2) Suc.prems(1) by simp
  moreover have "dst + word_of_nat i \<noteq> dst + word_of_nat n" if "i < n" for i
    using that Suc.prems(2) by (simp add: of_nat_eq_u32_iff unat_of_nat_u32)
  moreover have "fold (copy_byte dst src) [0..<Suc n] m = ?f(dst + word_of_nat n := ?f (src + word_of_nat n))"
    by (simp add: copy_byte_def)
  ultimately show ?case using IH by (simp add: less_Suc_eq all_conj_distrib)
qed simp

lemma blk_live_disjoint:
  assumes "kheap_rep h bs" "(a, m) \<in> blk_live bs" "(c, k) \<in> blk_live bs" "a \<noteq> c"
  shows "unat a + 16 + unat m \<le> unat c \<or> unat c + 16 + unat k \<le> unat a"
proof -
  from assms(2,3) obtain b d where "b \<in> set bs" "b_addr b = a" "b_size b = m"
    "d \<in> set bs" "b_addr d = c" "b_size d = k" by (auto simp: blk_live_iff)
  moreover have "hlayout (unat (heap_head h)) bs (unat (heap_head h) + 524288)"
    using assms(1) by (simp add: kheap_rep_def)
  ultimately show ?thesis using hlayout_disjoint [of _ bs _ b d] assms(4) by blast
qed

lemma blk_live_range:
  assumes "kheap_rep h bs" "(a, m) \<in> blk_live bs"
  shows "unat (heap_head h) \<le> unat a" "unat a + 16 + unat m \<le> unat (heap_head h) + 524288"
    "unat a + 16 + unat m \<le> 4294967296"
  using kheap_rep_block [OF assms(1)] assms(2) by (auto simp: blk_live_iff)

lemma unat_payload_byte:
  assumes "unat (p - 16 :: u32) + 16 + unat (m :: u32) \<le> 4294967296" "i < unat m"
  shows "unat (p + word_of_nat i) = unat (p - 16) + 16 + i"
proof -
  have i: "unat (word_of_nat i :: u32) = i" using assms by (intro unat_of_nat_u32) linarith
  have "unat (p - 16 + 16) = unat (p - 16) + 16" using assms by (subst unat_add_u32) simp_all
  then have "unat p = unat (p - 16) + 16" by simp
  with i assms show ?thesis by (subst unat_add_u32) simp_all
qed

lemma krealloc_contract:
  assumes rep: "kheap_rep h bs" and live: "(p - 16, m) \<in> blk_live bs" and p: "p \<noteq> 0"
    and grow: "m < sz" "sz \<le> 0xFFFFFFF8"
  shows "\<exists>h' q bs'. krealloc hb p sz h = Some (h', q) \<and> kheap_rep h' bs' \<and>
     (if q = 0 then bs' = bs \<and> kh_bytes h' = kh_bytes h
      else (\<exists>k. sz \<le> k \<and> blk_live bs' = insert (q - 16, k) (blk_live bs) - {(p - 16, m)})
         \<and> (\<forall>i<unat m. kh_bytes h' (q + word_of_nat i) = kh_bytes h (p + word_of_nat i)))"
proof -
  have nz: "sz \<noteq> 0" using grow(1) by auto
  have H: "bh_magic (kh_hdr h (p - 16)) = BLOCK_MAGIC" "bh_size (kh_hdr h (p - 16)) = m"
    using hchain_live [OF _ live] rep by (auto simp: kheap_rep_def)
  from kmalloc_contract [OF rep nz grow(2), of hb] obtain h1 q bs1 where
    k: "kmalloc hb sz h = Some (h1, q)" "kheap_rep h1 bs1" "kh_bytes h1 = kh_bytes h"
    and null: "q = 0 \<Longrightarrow> bs1 = bs"
    and new: "q \<noteq> 0 \<Longrightarrow> \<exists>n. sz \<le> n \<and> blk_live bs1 = insert (q - 16, n) (blk_live bs)"
      "q \<noteq> 0 \<Longrightarrow> \<forall>n. (q - 16, n) \<notin> blk_live bs" by blast
  have go: "krealloc hb p sz h = (if q = 0 then Some (h1, 0) else
      map_option (\<lambda>h'. (h', q)) (kfree p (h1\<lparr>kh_bytes :=
        fold (copy_byte q p) [0..<unat (bh_size (kh_hdr h1 (p - 16)))] (kh_bytes h1)\<rparr>)))"
    using p nz H grow(1) by (simp add: krealloc_def HDR_def k(1) Let_def not_le [symmetric])
  show ?thesis
  proof (cases "q = 0")
    case True
    then show ?thesis using go k null by (intro exI [of _ h1] exI [of _ 0] exI [of _ bs]) simp
  next
    case False
    from new [OF False] obtain n where n: "sz \<le> n" "blk_live bs1 = insert (q - 16, n) (blk_live bs)"
      and fresh: "(q - 16, m) \<notin> blk_live bs" by blast
    have ne: "q - 16 \<noteq> p - 16" using fresh live by metis
    have live1: "(p - 16, m) \<in> blk_live bs1" "(q - 16, n) \<in> blk_live bs1" using n(2) live by auto
    have sz1: "bh_size (kh_hdr h1 (p - 16)) = m"
      using hchain_live [OF _ live1(1)] k(2) by (auto simp: kheap_rep_def)
    let ?B = "fold (copy_byte q p) [0..<unat m] (kh_bytes h1)"
    have rep2: "kheap_rep (h1\<lparr>kh_bytes := ?B\<rparr>) bs1" using k(2) by (simp add: kheap_rep_def)
    from kfree_contract [OF rep2 live1(1) p] obtain h' bs' where
      f: "kfree p (h1\<lparr>kh_bytes := ?B\<rparr>) = Some h'" "kheap_rep h' bs'" "kh_bytes h' = ?B"
      "blk_live bs' = blk_live bs1 - {(p - 16, m)}" by auto
    have mn: "unat m < unat n" using grow(1) n(1) by (simp add: word_less_nat_alt word_le_nat_alt)
    note rp = blk_live_range(3) [OF k(2) live1(1)] and rq = blk_live_range(3) [OF k(2) live1(2)]
    have dis: "p + word_of_nat i \<noteq> q + word_of_nat j" if "i < unat m" "j < unat m" for i j
    proof -
      have "unat (p + word_of_nat i) = unat (p - 16) + 16 + i"
        by (rule unat_payload_byte [OF rp that(1)])
      moreover have "j < unat n" using that(2) mn by simp
      then have "unat (q + word_of_nat j) = unat (q - 16) + 16 + j" by (rule unat_payload_byte [OF rq])
      ultimately have "unat (p + word_of_nat i) \<noteq> unat (q + word_of_nat j)"
        using blk_live_disjoint [OF k(2) live1] ne that mn by auto
      then show ?thesis by metis
    qed
    have "\<forall>i<unat m. ?B (q + word_of_nat i) = kh_bytes h1 (p + word_of_nat i)"
      using copy_fold [of "unat m" p q "kh_bytes h1"] dis rp by auto
    with f(3) k(3) have bytes: "\<forall>i<unat m. kh_bytes h' (q + word_of_nat i) = kh_bytes h (p + word_of_nat i)"
      by simp
    have "krealloc hb p sz h = Some (h', q)" using go False sz1 f(1) by simp
    moreover have "blk_live bs' = insert (q - 16, n) (blk_live bs) - {(p - 16, m)}" using f(4) n(2) by simp
    ultimately show ?thesis using f(2) bytes n(1) False
      by (intro exI [of _ h'] exI [of _ q] exI [of _ bs'] conjI) (simp_all, blast)
  qed
qed

subsection \<open>Properties\<close>

text \<open>The heap before the first call: the zeroed statics of \<^verbatim>\<open>kmalloc.cpp\<close>.\<close>

definition kheap0 :: kheap where
  "kheap0 = \<lparr>kh_hdr = (\<lambda>_. \<lparr>bh_magic = 0, bh_size = 0, bh_free = 0, bh_next = 0\<rparr>), kh_bytes = (\<lambda>_. 0),
             heap_pool = 0, heap_head = 0, heap_ready = 0, kh_if = False\<rparr>"

lemma kheap_example:
  "\<exists>a. kheap_rep (kmalloc_init 0x100000 kheap0) [\<lparr>b_addr = a, b_size = 0x7FFF0, b_free = True\<rparr>]
     \<and> unat a = 0x108000"
  using kmalloc_init_rep [of "0x100000" kheap0] by simp

text \<open>C9. \<^verbatim>\<open>kmalloc\<close> is total and first fit is complete: it returns null exactly when no free
  block holds the rounded size (and then changes nothing), otherwise an 8-aligned pointer to a
  block that was not in use, of at least the requested size; every other block in use and all
  payload bytes stay, and the heap invariant holds again.\<close>
theorem kmalloc_spec:
  assumes "kheap_rep h bs" "sz \<noteq> 0" "sz \<le> 0xFFFFFFF8"
  shows "\<exists>h' p bs'. kmalloc hb sz h = Some (h', p) \<and> kheap_rep h' bs' \<and> kh_bytes h' = kh_bytes h
    \<and> (p = 0 \<longrightarrow> bs' = bs \<and> (\<forall>b \<in> set bs. b_free b \<longrightarrow> b_size b < kalign sz))
    \<and> (p \<noteq> 0 \<longrightarrow> unat p mod 8 = 0 \<and> (\<exists>m. sz \<le> m \<and> blk_live bs' = insert (p - 16, m) (blk_live bs))
        \<and> (\<forall>k. (p - 16, k) \<notin> blk_live bs))"
  by (rule kmalloc_contract [OF assms])

lemma kmalloc_spec_witness:
  "\<exists>h' p bs'. kmalloc 0x100000 100 (kmalloc_init 0x100000 kheap0) = Some (h', p) \<and> kheap_rep h' bs'
     \<and> (\<exists>bs. p \<noteq> 0 \<longrightarrow> unat p mod 8 = 0 \<and> (\<exists>m. 100 \<le> m \<and> blk_live bs' = insert (p - 16, m) (blk_live bs)))"
proof -
  obtain a where "kheap_rep (kmalloc_init 0x100000 kheap0) [\<lparr>b_addr = a, b_size = 0x7FFF0, b_free = True\<rparr>]"
    using kheap_example by blast
  from kmalloc_spec [OF this, of 100 "0x100000"] show ?thesis by fastforce
qed

text \<open>No two blocks in use overlap, headers included, and all lie in the 512 KB of the
  heap: the memory handed out to two callers is disjoint.\<close>
theorem kmalloc_blocks_disjoint:
  assumes "kheap_rep h bs" "(a, m) \<in> blk_live bs" "(c, k) \<in> blk_live bs" "a \<noteq> c"
  shows "(unat a + 16 + unat m \<le> unat c \<or> unat c + 16 + unat k \<le> unat a)
    \<and> unat (heap_head h) \<le> unat a \<and> unat a + 16 + unat m \<le> unat (heap_head h) + 524288"
  using blk_live_disjoint [OF assms] blk_live_range [OF assms(1,2)] by blast

definition kheap_two :: kheap where
  "kheap_two = kheap0\<lparr>heap_ready := 1, heap_head := 0x108000, heap_pool := 0x108000,
     kh_hdr := (kh_hdr kheap0)
       (0x108000 := \<lparr>bh_magic = BLOCK_MAGIC, bh_size = 16, bh_free = 0, bh_next = 0x108020\<rparr>,
        0x108020 := \<lparr>bh_magic = BLOCK_MAGIC, bh_size = 0x7FFD0, bh_free = 0, bh_next = 0\<rparr>)\<rparr>"

lemma kheap_two_rep:
  "kheap_rep kheap_two [\<lparr>b_addr = 0x108000, b_size = 16, b_free = False\<rparr>,
                        \<lparr>b_addr = 0x108020, b_size = 0x7FFD0, b_free = False\<rparr>]"
  by (simp add: kheap_rep_def kheap_two_def kheap0_def)

lemma kmalloc_blocks_disjoint_witness:
  "unat (0x108000 :: u32) + 16 + unat (16 :: u32) \<le> unat (0x108020 :: u32)
     \<or> unat (0x108020 :: u32) + 16 + unat (0x7FFD0 :: u32) \<le> unat (0x108000 :: u32)"
  using kmalloc_blocks_disjoint [OF kheap_two_rep, of "0x108000" 16 "0x108020" "0x7FFD0"] by simp

text \<open>C10. \<^verbatim>\<open>kfree\<close> of a block in use takes exactly that block out of use, keeps every other
  block and all payload bytes, returns, and leaves no two free neighbours unmerged (part of
  the heap invariant).\<close>
theorem kfree_spec:
  assumes "kheap_rep h bs" "(p - 16, m) \<in> blk_live bs" "p \<noteq> 0"
  shows "\<exists>h' bs'. kfree p h = Some h' \<and> kheap_rep h' bs' \<and> kh_bytes h' = kh_bytes h
    \<and> blk_live bs' = blk_live bs - {(p - 16, m)}"
  by (rule kfree_contract [OF assms])

lemma kfree_spec_witness: "\<exists>h' bs'. kfree 0x108010 kheap_two = Some h' \<and> kheap_rep h' bs'"
  using kfree_spec [OF kheap_two_rep, of "0x108010" 16] by auto

text \<open>\<^verbatim>\<open>kfree\<close> undoes \<^verbatim>\<open>kmalloc\<close>: after a successful allocation and its release the heap
  consists of the very same blocks, so no memory is lost to fragmentation or headers.\<close>
theorem kmalloc_kfree_roundtrip:
  assumes "kheap_rep h bs" "sz \<noteq> 0" "kmalloc hb sz h = Some (h1, p)" "p \<noteq> 0"
  shows "\<exists>h2. kfree p h1 = Some h2 \<and> kheap_rep h2 bs"
  by (rule kmalloc_kfree_id [OF assms])

lemma kmalloc_kfree_roundtrip_witness:
  "\<exists>h1 p h2. kmalloc 0x100000 100 (kmalloc_init 0x100000 kheap0) = Some (h1, p) \<and> kfree p h1 = Some h2"
proof -
  from kheap_example obtain a where
    a: "kheap_rep (kmalloc_init 0x100000 kheap0) [\<lparr>b_addr = a, b_size = 0x7FFF0, b_free = True\<rparr>]"
    "unat a = 0x108000" by blast
  have al: "kalign 100 = 104" by (simp add: kalign_def)
  from a(2) have "unat (a + 16) \<noteq> 0" by (subst unat_add_u32) simp_all
  then have "a + 16 \<noteq> 0" by (metis unat_0)
  moreover from kmalloc_refines [OF a(1), of 100 "0x100000"] obtain h1 where
    h1: "kmalloc 0x100000 100 (kmalloc_init 0x100000 kheap0) = Some (h1, a + 16)" by (auto simp: al)
  ultimately show ?thesis using kmalloc_kfree_roundtrip [OF a(1) _ h1] by auto
qed

text \<open>\<^verbatim>\<open>kmem_info\<close> accounts for the whole heap: used bytes, free bytes and 16 bytes of header
  per block add up to 512 KB, whatever was allocated and freed before.\<close>
theorem kmem_info_accounts:
  assumes "kheap_rep h bs"
  shows "\<exists>u f. kmem_info h = Some (u, f) \<and> unat u = blk_used bs \<and> unat f = blk_free bs
    \<and> unat u + unat f + 16 * length bs = 524288"
  by (rule kmem_info_contract [OF assms])

lemma kmem_info_accounts_witness: "\<exists>u f. kmem_info kheap_two = Some (u, f) \<and> unat u + unat f + 32 = 524288"
  using kmem_info_accounts [OF kheap_two_rep] by auto

text \<open>C14. Growing a block with \<^verbatim>\<open>krealloc\<close> either fails and changes nothing, or moves the block:
  the old one is released, the new one is at least as large as asked, and holds every byte
  of the old payload.\<close>
theorem krealloc_spec:
  assumes "kheap_rep h bs" "(p - 16, m) \<in> blk_live bs" "p \<noteq> 0" "m < sz" "sz \<le> 0xFFFFFFF8"
  shows "\<exists>h' q bs'. krealloc hb p sz h = Some (h', q) \<and> kheap_rep h' bs' \<and>
     (if q = 0 then bs' = bs \<and> kh_bytes h' = kh_bytes h
      else (\<exists>k. sz \<le> k \<and> blk_live bs' = insert (q - 16, k) (blk_live bs) - {(p - 16, m)})
         \<and> (\<forall>i<unat m. kh_bytes h' (q + word_of_nat i) = kh_bytes h (p + word_of_nat i)))"
  by (rule krealloc_contract [OF assms])

lemma krealloc_spec_witness: "\<exists>h' q bs'. krealloc 0x100000 0x108010 64 kheap_two = Some (h', q) \<and> kheap_rep h' bs'"
  using krealloc_spec [OF kheap_two_rep, of "0x108010" 16 64 "0x100000"] by auto

lemma kalign_wraps:
  assumes "0xFFFFFFF8 < sz" shows "kalign sz = 0"
proof -
  define k where "k = unat sz - 4294967289"
  have "unat sz < 4294967296" by (rule unat_u32_less)
  moreover have "4294967288 < unat sz" using assms by (simp add: word_less_nat_alt)
  ultimately have k: "unat sz + 7 = 4294967296 + k" "k < 7" unfolding k_def by linarith+
  have "unat (sz + 7) = (unat sz + 7) mod 4294967296" by (simp add: unat_word_ariths)
  also have "\<dots> = k" using k(2) by (simp add: k(1))
  finally have "unat (kalign sz) = k div 8 * 8" by (simp only: unat_kalign)
  also have "\<dots> = 0" using k(2) by simp
  finally show ?thesis by (simp only: unat_eq_0)
qed

text \<open>A request above \<^verbatim>\<open>0xFFFFFFF8\<close> wraps to size 0 in the rounding: instead of null, the
  freshly initialised heap answers a 4 GB request with a pointer to a block of no bytes.\<close>
theorem kmalloc_huge_wraps:
  "0xFFFFFFF8 < sz \<Longrightarrow> kheap_rep h [\<lparr>b_addr = a, b_size = 0x7FFF0, b_free = True\<rparr>] \<Longrightarrow>
   \<exists>h' bs'. kmalloc hb sz h = Some (h', a + 16) \<and> kheap_rep h' bs' \<and> blk_live bs' = {(a, 0)}"
proof -
  assume big: "0xFFFFFFF8 < sz" and rep: "kheap_rep h [\<lparr>b_addr = a, b_size = 0x7FFF0, b_free = True\<rparr>]"
  have k0: "kalign sz = 0" by (rule kalign_wraps [OF big])
  have "sz \<noteq> 0" using big by auto
  from kmalloc_refines [OF rep this, of hb, unfolded k0] obtain H' where
    "kmalloc hb sz h = Some (h\<lparr>kh_hdr := H', kh_if := True\<rparr>, a + 16)"
    "kheap_rep (h\<lparr>kh_hdr := H', kh_if := True\<rparr>)
      [\<lparr>b_addr = a, b_size = 0, b_free = False\<rparr>, \<lparr>b_addr = a + 16, b_size = 0x7FFE0, b_free = True\<rparr>]"
    by auto
  then show ?thesis by fastforce
qed

lemma kmalloc_huge_wraps_witness:
  "\<exists>h' a. kmalloc 0x100000 0xFFFFFFFF (kmalloc_init 0x100000 kheap0) = Some (h', a + 16) \<and> unat a = 0x108000"
proof -
  from kheap_example obtain a where
    a: "kheap_rep (kmalloc_init 0x100000 kheap0) [\<lparr>b_addr = a, b_size = 0x7FFF0, b_free = True\<rparr>]"
    "unat a = 0x108000" by blast
  from kmalloc_huge_wraps [OF _ a(1), of "0xFFFFFFFF" "0x100000"] a(2) show ?thesis by auto
qed

end
