(* ===== verification/Memory_Layout.thy ===== *)
theory Memory_Layout
  imports Pmm Paging Kmalloc_Contract
begin

text \<open>
  Physical memory as \<^verbatim>\<open>kernel_main\<close> lays it out: \<^verbatim>\<open>pmm_init\<close> and \<^verbatim>\<open>kmalloc_init\<close> place the
  frame bitmap, the 512 KB heap and the pool of frames in the same E820 region. The heap
  starts a fixed 8 pages into the region (\<^verbatim>\<open>KMALLOC_PMM_SKIP\<close>), the pool right behind as
  many bitmap pages as the region needs plus 128.
\<close>

definition heap_overlaps :: "kheap \<Rightarrow> nat \<Rightarrow> nat \<Rightarrow> bool" where
  "heap_overlaps h lo hi \<longleftrightarrow> lo < unat (heap_head h) + 524288 \<and> unat (heap_head h) < hi"

lemma heap_head_of_init:
  assumes "pmm_region es b t" "0x100000 \<le> b" "unat b + 0x88000 \<le> 4294967296"
  shows "unat (heap_head (kmalloc_init (get_heap_base (memory_init es memory_state0)) h)) = unat b + 0x8000"
proof -
  have hb: "heap_base (memory_init es memory_state0) = ucast b"
    using assms(1) by (simp add: pmm_region_def Let_def)
  have "unat b < 18446744073709551616" using unat_u32_less [of b] by linarith
  then have ub: "unat (ucast b :: u64) = unat b"
    by (simp add: unsigned_ucast_eq take_bit_nat_eq_self)
  have nb: "\<not> (ucast b :: u64) < 0x100000"
    using assms(2) by (simp add: word_less_nat_alt word_le_nat_alt ub not_less)
  have "unat (ucast b + 0x8000 :: u64) = unat b + 0x8000"
    using assms(3) ub by (subst unat_word_ariths) simp
  then have "unat (ucast (ucast b + 0x8000 :: u64) :: u32) = unat b + 0x8000"
    using assms(3) by (simp add: unsigned_ucast_eq take_bit_eq_mod)
  with nb hb show ?thesis by (simp add: kmalloc_init_def get_heap_base_def Let_def)
qed

lemma unat_pool_addr:
  assumes "pmm_region es b t" "a \<in> pmm_pool (pmm_init es p)"
  shows "\<exists>i. unat a = unat b + i * 4096 \<and> unat (pmm_bmap_pages t) + 128 \<le> i \<and> i < unat t"
proof -
  note f = pmm_init_fields [OF assms(1), where p = p]
  from assms(2) obtain i where "a = frame_addr (pmm_init es p) i" "pmm_in_range (pmm_init es p) i"
    by (auto simp: pmm_pool_def)
  with unat_frame_addr [OF pmm_init_ready(1) [OF assms(1)]] f show ?thesis
    by (intro exI [of _ i]) (simp add: pmm_in_range_def unat_pmm_skip)
qed

lemma pool_first:
  assumes "pmm_region es b t" "pmm_bmap_pages t + 128 < t"
  shows "\<exists>a \<in> pmm_pool (pmm_init es p). unat a = unat b + (unat (pmm_bmap_pages t) + 128) * 4096"
proof -
  note f = pmm_init_fields [OF assms(1), where p = p]
  let ?i = "unat (pmm_bmap_pages t) + 128"
  have r: "pmm_in_range (pmm_init es p) ?i"
    using assms(2) by (simp add: pmm_in_range_def f unat_pmm_skip word_less_nat_alt)
  then have "frame_addr (pmm_init es p) ?i \<in> pmm_pool (pmm_init es p)" by (simp add: pmm_pool_def)
  with unat_frame_addr [OF pmm_init_ready(1) [OF assms(1)] r] f show ?thesis by auto
qed

text \<open>C17. The kernel heap is kept out of the frame pool exactly when the bitmap takes at least 8
  pages (about 896 MB of memory), and clear of the bitmap exactly when it takes at most 8: with
  less memory \<^verbatim>\<open>pmm_alloc\<close> hands out frames of the heap, although \<^verbatim>\<open>pmm.cpp\<close> reserves
  128 pages so that it never does.\<close>
theorem heap_pool_layout:
  assumes "pmm_region es b t" "0x100000 \<le> b" "unat b + 0x88000 \<le> 4294967296" "pmm_bmap_pages t + 128 < t"
    "hp = kmalloc_init (get_heap_base (memory_init es memory_state0)) h"
  shows "((\<forall>a \<in> pmm_pool (pmm_init es p). \<not> heap_overlaps hp (unat a) (unat a + 4096))
      \<longleftrightarrow> 8 \<le> unat (pmm_bmap_pages t))
    \<and> (\<not> heap_overlaps hp (unat b) (unat b + unat (pmm_bmap_pages t) * 4096)
      \<longleftrightarrow> unat (pmm_bmap_pages t) \<le> 8)"
proof -
  have hh: "unat (heap_head hp) = unat b + 0x8000"
    using heap_head_of_init [OF assms(1-3)] assms(5) by simp
  have "\<not> heap_overlaps hp (unat a) (unat a + 4096)"
    if "8 \<le> unat (pmm_bmap_pages t)" "a \<in> pmm_pool (pmm_init es p)" for a
    using unat_pool_addr [OF assms(1) that(2)] that(1) by (auto simp: heap_overlaps_def hh)
  moreover have "\<exists>a \<in> pmm_pool (pmm_init es p). heap_overlaps hp (unat a) (unat a + 4096)"
    if "unat (pmm_bmap_pages t) < 8"
    using pool_first [OF assms(1,4), of p]
  proof (elim bexE)
    fix a assume "a \<in> pmm_pool (pmm_init es p)" "unat a = unat b + (unat (pmm_bmap_pages t) + 128) * 4096"
    with that show ?thesis by (intro bexI [of _ a]) (auto simp: heap_overlaps_def hh)
  qed
  ultimately have "(\<forall>a \<in> pmm_pool (pmm_init es p). \<not> heap_overlaps hp (unat a) (unat a + 4096))
      \<longleftrightarrow> 8 \<le> unat (pmm_bmap_pages t)" by (meson not_less)
  moreover have "\<not> heap_overlaps hp (unat b) (unat b + unat (pmm_bmap_pages t) * 4096)
      \<longleftrightarrow> unat (pmm_bmap_pages t) \<le> 8"
    by (auto simp: heap_overlaps_def hh)
  ultimately show ?thesis by blast
qed

lemma heap_pool_layout_witness:
  "\<not> (\<forall>a \<in> pmm_pool (pmm_init map_16mb pmm0).
        \<not> heap_overlaps (kmalloc_init (get_heap_base (memory_init map_16mb memory_state0)) kheap0) (unat a) (unat a + 4096))"
proof -
  have "pmm_bmap_pages 4096 + 128 < (4096 :: u32)" "unat (pmm_bmap_pages 4096) = 1"
    by (simp_all add: pmm_bmap_pages_def)
  with heap_pool_layout [OF region_16mb _ _ _ refl, of pmm0 kheap0] show ?thesis by simp
qed

subsection \<open>The kernel's fixed areas\<close>

text \<open>
  Two areas have fixed addresses above 1 MB: the section \<^verbatim>\<open>.pagetab\<close> with the 1024 page tables and the page directory,
  which \<^verbatim>\<open>linker.ld\<close> puts at 3 MB, and the back buffer of 800 by 600 pixels at 10 MB.
\<close>

definition pagetab_area :: "nat \<times> nat" where
  "pagetab_area = (0x300000, 0x300000 + 1024 * 1024 * 4 + 1024 * 4)"

definition backbuf_area :: "nat \<times> nat" where
  "backbuf_area = (unat BACKBUF_PHYS_ADDR, unat BACKBUF_PHYS_ADDR + 800 * 600 * 4)"

definition pool_touches :: "pmm \<Rightarrow> nat \<times> nat \<Rightarrow> bool" where
  "pool_touches p ar \<longleftrightarrow> (\<exists>a \<in> pmm_pool p. fst ar < unat a + 4096 \<and> unat a < snd ar)"

lemma pool_addr:
  assumes "pmm_region es b t" "unat (pmm_bmap_pages t) + 128 \<le> i" "i < unat t"
  shows "\<exists>a \<in> pmm_pool (pmm_init es p). unat a = unat b + i * 4096"
proof -
  note f = pmm_init_fields [OF assms(1), where p = p]
  have r: "pmm_in_range (pmm_init es p) i" using assms(2,3) by (simp add: pmm_in_range_def f unat_pmm_skip)
  then have "frame_addr (pmm_init es p) i \<in> pmm_pool (pmm_init es p)" by (simp add: pmm_pool_def)
  with unat_frame_addr [OF pmm_init_ready(1) [OF assms(1)] r] f show ?thesis by auto
qed

text \<open>The pool is one piece, from behind the reserved frames to the end of the region.\<close>

lemma pool_touches_iff:
  assumes "pmm_region es b t" "fst ar < snd ar"
  shows "pool_touches (pmm_init es p) ar \<longleftrightarrow> unat (pmm_bmap_pages t) + 128 < unat t
    \<and> fst ar < unat b + unat t * 4096 \<and> unat b + (unat (pmm_bmap_pages t) + 128) * 4096 < snd ar"
    (is "_ \<longleftrightarrow> ?lo < unat t \<and> _ \<and> _")
proof
  assume "pool_touches (pmm_init es p) ar"
  then obtain a where a: "a \<in> pmm_pool (pmm_init es p)" "fst ar < unat a + 4096" "unat a < snd ar"
    by (auto simp: pool_touches_def)
  from unat_pool_addr [OF assms(1) a(1)] obtain i where i: "unat a = unat b + i * 4096" "?lo \<le> i" "i < unat t" by blast
  then have "i * 4096 + 4096 \<le> unat t * 4096" "?lo * 4096 \<le> i * 4096" by simp_all
  with a i show "?lo < unat t \<and> fst ar < unat b + unat t * 4096 \<and> unat b + ?lo * 4096 < snd ar" by linarith
next
  assume h: "?lo < unat t \<and> fst ar < unat b + unat t * 4096 \<and> unat b + ?lo * 4096 < snd ar"
  define i where "i = max ?lo ((fst ar - unat b) div 4096)"
  have d: "(fst ar - unat b) div 4096 * 4096 \<le> fst ar - unat b"
    "fst ar - unat b < (fst ar - unat b) div 4096 * 4096 + 4096"
    by (simp_all add: dividend_less_div_times)
  have "i < unat t" using h d(1) by (auto simp: i_def max_def)
  moreover have "?lo \<le> i" by (simp add: i_def)
  ultimately obtain a where a: "a \<in> pmm_pool (pmm_init es p)" "unat a = unat b + i * 4096"
    using pool_addr [OF assms(1)] by blast
  have "(fst ar - unat b) div 4096 * 4096 \<le> i * 4096" by (simp add: i_def)
  moreover have "unat b + i * 4096 < snd ar" using h d(1) assms(2) by (auto simp: i_def max_def)
  ultimately show "pool_touches (pmm_init es p) ar"
    unfolding pool_touches_def using a d(2) by (intro bexI [OF _ a(1)]) linarith
qed

text \<open>C18. The pool of frames has nothing to do with the kernel's fixed areas only when the memory region lets it: the
  allocator hands out the memory of the page tables exactly when its pool begins below their end and the region ends
  above their start, and the pixels of the back buffer likewise. Neither area is reserved.\<close>
theorem fixed_areas_in_pool:
  assumes "pmm_region es b t" "pmm_bmap_pages t + 128 < t"
  shows "(pool_touches (pmm_init es p) pagetab_area \<longleftrightarrow>
       0x300000 < unat b + unat t * 4096 \<and> unat b + (unat (pmm_bmap_pages t) + 128) * 4096 < 0x701000)
    \<and> (pool_touches (pmm_init es p) backbuf_area \<longleftrightarrow>
       0xA00000 < unat b + unat t * 4096 \<and> unat b + (unat (pmm_bmap_pages t) + 128) * 4096 < 0xBD4C00)"
proof -
  have "unat (pmm_bmap_pages t) + 128 < unat t"
    using assms(2) by (simp add: word_less_nat_alt unat_pmm_skip)
  then show ?thesis
    by (simp add: pool_touches_iff [OF assms(1)] pagetab_area_def backbuf_area_def BACKBUF_PHYS_ADDR_def)
qed

lemma fixed_areas_in_pool_witness:
  "pool_touches (pmm_init map_16mb pmm0) pagetab_area \<and> pool_touches (pmm_init map_16mb pmm0) backbuf_area"
proof -
  have "pmm_bmap_pages 4096 + 128 < (4096 :: u32)" "unat (pmm_bmap_pages 4096) = 1"
    by (simp_all add: pmm_bmap_pages_def)
  with fixed_areas_in_pool [OF region_16mb, of pmm0] show ?thesis by simp
qed

text \<open>Frames are handed out from the lowest up, so the page tables are reached soon: with 16 MB of memory the 384th
  frame is the one in which the first page table lies.\<close>

lemma alloc_frames_ascend:
  assumes "pmm_inv p" "pmm_live_set p = {unat (pm_skip p)..<j}" "unat (pm_skip p) \<le> j" "j + n \<le> unat (pm_total p)"
  shows "snd (alloc_frames pmm_alloc n p) = map (frame_addr p) [j..<j + n]"
  using assms
proof (induction n arbitrary: p j)
  case (Suc n)
  have live: "pmm_tst p (word_of_nat i) \<longleftrightarrow> i < j" if "pmm_in_range p i" for i
    using eqset_imp_iff [OF Suc.prems(2), of i] that by (simp add: pmm_live_set_def pmm_in_range_def)
  have r: "pmm_in_range p j" using Suc.prems(3,4) by (simp add: pmm_in_range_def)
  show ?case
  proof (cases rule: pmm_alloc_cases [of p])
    case None
    with r live [OF r] show ?thesis by simp
  next
    case (Some i)
    have "\<not> i < j" using Some(3) live [OF Some(2)] by simp
    moreover have "\<not> j < i" using Some(4) r live [OF r] by blast
    ultimately have "i = j" by simp
    note S = Some [unfolded this]
    let ?p = "(pmm_set (word_of_nat j) p)\<lparr>pm_used := pm_used p + 1\<rparr>"
    have f: "pm_skip ?p = pm_skip p" "pm_total ?p = pm_total p" "frame_addr ?p = frame_addr p"
      by (simp_all add: pmm_set_def frame_addr_def fun_eq_iff)
    have "pmm_live_set ?p = {unat (pm_skip ?p)..<Suc j}"
      using pmm_live_set_set [OF r] Suc.prems(2,3) by (auto simp: f)
    from Suc.IH [OF pmm_inv_alloc [OF Suc.prems(1) r S(3)] this] Suc.prems(3,4)
    have "snd (alloc_frames pmm_alloc n ?p) = map (frame_addr p) [Suc j..<Suc (j + n)]" by (simp add: f del: upt_Suc)
    moreover have "[j..<j + Suc n] = j # [Suc j..<Suc (j + n)]" by (simp add: upt_conv_Cons del: upt_Suc)
    moreover have "frame_addr p j \<noteq> 0" by (rule frame_addr_nonnull [OF Suc.prems(1) r])
    ultimately show ?thesis using S(1) by (simp add: case_prod_unfold Let_def del: upt_Suc)
  qed
qed simp

lemma page_table_is_frame_384:
  "snd (alloc_frames pmm_alloc 384 (pmm_init map_16mb pmm0)) ! 383 = 0x300000"
proof -
  note f = pmm_init_fields [OF region_16mb, where p = pmm0]
  have s: "unat (pm_skip (pmm_init map_16mb pmm0)) = 129" by (simp add: f pmm_bmap_pages_def)
  have "frame_addr (pmm_init map_16mb pmm0) ` pmm_live_set (pmm_init map_16mb pmm0) = {}"
    using pmm_16mb(2) by (simp add: pmm_live_def)
  then have "pmm_live_set (pmm_init map_16mb pmm0) = {unat (pm_skip (pmm_init map_16mb pmm0))..<129}" by (simp add: s)
  from alloc_frames_ascend [OF pmm_16mb(1) this, of 384]
  have "snd (alloc_frames pmm_alloc 384 (pmm_init map_16mb pmm0)) = map (frame_addr (pmm_init map_16mb pmm0)) [129..<513]"
    by (simp add: s [unfolded f] f del: upt_rec_numeral)
  then show ?thesis by (simp add: frame_addr_def f del: upt_rec_numeral)
qed

end
