(* ===== verification/Vmm.thy ===== *)
theory Vmm
  imports Pmm Paging
begin

text \<open>
  \<^verbatim>\<open>kernel/memory/vmm/vmm.cpp\<close>: virtual pages on demand. The state puts the
  allocator and the page tables, which the code reaches through calls, beside the static
  \<^verbatim>\<open>next_virt\<close>.
\<close>

record vmm =
  vm_pmm :: pmm
  vm_pg :: paging
  next_virt :: u32

definition vmm_init :: "vmm \<Rightarrow> vmm" where
  "vmm_init s = s\<lparr>next_virt := 0xD0000000\<rparr>"

definition vmm_alloc :: "u32 \<Rightarrow> u32 \<Rightarrow> vmm \<Rightarrow> vmm \<times> u32" where
  "vmm_alloc virt flags s =
     (let (p, frame) = pmm_alloc (vm_pmm s); s1 = s\<lparr>vm_pmm := p\<rparr> in
      if frame = 0 then (s1, 0)
      else if virt = 0 \<and> next_virt s1 + 4096 < next_virt s1
      then (s1\<lparr>vm_pmm := pmm_free frame (vm_pmm s1)\<rparr>, 0)
      else
        let virt' = (if virt = 0 then next_virt s1 else virt);
            s2 = (if virt = 0 then s1\<lparr>next_virt := next_virt s1 + 4096\<rparr> else s1)
        in (s2\<lparr>vm_pg := paging_map virt' frame flags (vm_pg s2)\<rparr>, virt'))"

definition vmm_free :: "u32 \<Rightarrow> vmm \<Rightarrow> vmm" where
  "vmm_free virt s =
     (let phys = paging_get_physical (vm_pg s) virt in
      if phys = 0 then s
      else s\<lparr>vm_pg := paging_unmap virt (vm_pg s), vm_pmm := pmm_free phys (vm_pmm s)\<rparr>)"

subsection \<open>Invariant\<close>

definition vm_region :: "vmm \<Rightarrow> u32 \<Rightarrow> bool" where
  "vm_region s v \<longleftrightarrow> page_base v = v \<and> 0xD0000000 \<le> v \<and> v < next_virt s"

text \<open>
  Every page handed out and still mapped is backed by a frame of its own that the
  physical allocator knows to be in use.
\<close>

definition vm_backed :: "vmm \<Rightarrow> bool" where
  "vm_backed s \<longleftrightarrow>
     (\<forall>v. vm_region s v \<longrightarrow> paging_get_physical (vm_pg s) v \<noteq> 0 \<longrightarrow>
        paging_get_physical (vm_pg s) v \<in> pmm_live (vm_pmm s)) \<and>
     (\<forall>v w. vm_region s v \<longrightarrow> vm_region s w \<longrightarrow> paging_get_physical (vm_pg s) v \<noteq> 0 \<longrightarrow>
        paging_get_physical (vm_pg s) v = paging_get_physical (vm_pg s) w \<longrightarrow> v = w)"

definition vmm_inv :: "vmm \<Rightarrow> bool" where
  "vmm_inv s \<longleftrightarrow> pmm_inv (vm_pmm s) \<and> paging_inv (vm_pg s)
     \<and> page_base (pm_bitmap (vm_pmm s)) = pm_bitmap (vm_pmm s)
     \<and> page_base (next_virt s) = next_virt s \<and> 0xD0000000 \<le> next_virt s \<and> vm_backed s"

lemma pool_aligned:
  assumes "pmm_inv p" "page_base (pm_bitmap p) = pm_bitmap p" "a \<in> pmm_pool p"
  shows "page_base a = a"
proof -
  obtain i where "a = frame_addr p i" "pmm_in_range p i" using assms(3) by (auto simp: pmm_pool_def)
  with assms(1,2) unat_frame_addr [OF assms(1)] show ?thesis
    by (simp add: aligned_iff)
qed

lemma pm_bitmap_alloc: "pmm_alloc p = (p', a) \<Longrightarrow> pm_bitmap p' = pm_bitmap p"
  by (cases rule: pmm_alloc_cases [of p]) auto

lemma pm_bitmap_free [simp]: "pm_bitmap (pmm_free a p) = pm_bitmap p"
  by (simp add: pmm_free_def Let_def)

subsection \<open>Allocation\<close>

lemma vmm_alloc_fail:
  assumes "vmm_inv s" "vmm_alloc 0 flags s = (s', 0)"
  shows "s' = s \<and> (pmm_live (vm_pmm s) = pmm_pool (vm_pmm s) \<or> next_virt s = 0xFFFFF000)"
proof -
  obtain p a where al: "pmm_alloc (vm_pmm s) = (p, a)" by (cases "pmm_alloc (vm_pmm s)")
  have P: "pmm_inv (vm_pmm s)" using assms by (simp add: vmm_inv_def)
  show ?thesis
  proof (cases "a = 0")
    case True
    with al assms(2) pmm.falloc_null [OF P, of p] show ?thesis
      by (auto simp: vmm_alloc_def)
  next
    case False
    have nv: "next_virt s \<noteq> 0" using assms(1) by (auto simp: vmm_inv_def)
    with al False assms(2) have w: "next_virt s + 4096 < next_virt s"
      and s': "s' = s\<lparr>vm_pmm := pmm_free a p\<rparr>"
      by (auto simp: vmm_alloc_def Let_def split: if_splits)
    have "unat (next_virt s) mod 4096 = 0" using assms(1) by (simp add: vmm_inv_def aligned_iff)
    then obtain q where q: "unat (next_virt s) = 4096 * q" by blast
    have "\<not> unat (next_virt s) + 4096 < 4294967296"
    proof
      assume "unat (next_virt s) + 4096 < 4294967296"
      then have "unat (next_virt s + 4096) = unat (next_virt s) + 4096"
        by (subst unat_add_u32) simp_all
      with w show False by (simp add: word_less_nat_alt)
    qed
    then have "1048575 \<le> q" "q < 1048576"
      using unat_u32_less [of "next_virt s"] unfolding q by linarith+
    then have "unat (next_virt s) = 4294963200" unfolding q by linarith
    then have "next_virt s = 0xFFFFF000" by (simp add: word_unat_eq_iff)
    with s' pmm.ffree_falloc [OF P al False] show ?thesis by simp
  qed
qed

lemma vmm_alloc_ok:
  assumes I: "vmm_inv s" and al: "vmm_alloc 0 flags s = (s', v)" and nz: "v \<noteq> 0"
  obtains frame p where "pmm_alloc (vm_pmm s) = (p, frame)" "frame \<noteq> 0" "v = next_virt s"
    "s' = s\<lparr>vm_pmm := p, next_virt := next_virt s + 4096,
           vm_pg := paging_map (next_virt s) frame flags (vm_pg s)\<rparr>"
    "unat (next_virt s + 4096) = unat (next_virt s) + 4096"
proof -
  obtain p a where pa: "pmm_alloc (vm_pmm s) = (p, a)" by (cases "pmm_alloc (vm_pmm s)")
  with al nz have "a \<noteq> 0" "\<not> next_virt s + 4096 < next_virt s" "v = next_virt s"
    "s' = s\<lparr>vm_pmm := p, next_virt := next_virt s + 4096,
           vm_pg := paging_map (next_virt s) a flags (vm_pg s)\<rparr>"
    by (auto simp: vmm_alloc_def Let_def split: if_splits)
  moreover from this(2) have "unat (next_virt s + 4096) = unat (next_virt s) + 4096"
    using unat_plus_if' [of "next_virt s" 4096] unat_u32_less [of "next_virt s"]
    by (auto simp: word_less_nat_alt split: if_splits)
  ultimately show ?thesis using that pa by blast
qed

lemma vm_region_alloc:
  assumes "vmm_inv s" "unat (next_virt s + 4096) = unat (next_virt s) + 4096"
    and nv: "next_virt s' = next_virt s + 4096"
  shows "vm_region s' w \<longleftrightarrow> vm_region s w \<or> w = next_virt s"
proof
  assume L: "vm_region s' w"
  have "unat w mod 4096 = 0" "unat (next_virt s) mod 4096 = 0"
    using L assms(1) by (auto simp: vm_region_def vmm_inv_def aligned_iff)
  then obtain a b where ab: "unat w = 4096 * a" "unat (next_virt s) = 4096 * b" by blast
  have "unat w < unat (next_virt s) + 4096"
    using L nv assms(2) by (simp add: vm_region_def word_less_nat_alt)
  then have "a < b \<or> a = b" unfolding ab by linarith
  then show "vm_region s w \<or> w = next_virt s"
    using L ab by (auto simp: vm_region_def word_less_nat_alt word_unat_eq_iff)
next
  assume "vm_region s w \<or> w = next_virt s"
  with assms show "vm_region s' w" by (auto simp: vm_region_def vmm_inv_def word_less_nat_alt)
qed

lemma vmm_alloc_spec:
  assumes I: "vmm_inv s" and al: "vmm_alloc 0 flags s = (s', v)" and nz: "v \<noteq> 0"
  shows "vmm_inv s'" "v = next_virt s" "next_virt s' = next_virt s + 4096"
    "vm_region s' w \<longleftrightarrow> vm_region s w \<or> w = v"
    "paging_get_physical (vm_pg s') v \<in> pmm_live (vm_pmm s') - pmm_live (vm_pmm s)"
    "pmm_live (vm_pmm s') = insert (paging_get_physical (vm_pg s') v) (pmm_live (vm_pmm s))"
    "page_base x \<noteq> v \<Longrightarrow> paging_get_physical (vm_pg s') x = paging_get_physical (vm_pg s) x"
    "pmm_pool (vm_pmm s') = pmm_pool (vm_pmm s)"
proof -
  obtain frame p where al': "pmm_alloc (vm_pmm s) = (p, frame)" "frame \<noteq> 0" "v = next_virt s"
    and s': "s' = s\<lparr>vm_pmm := p, next_virt := next_virt s + 4096,
           vm_pg := paging_map (next_virt s) frame flags (vm_pg s)\<rparr>"
    and nw: "unat (next_virt s + 4096) = unat (next_virt s) + 4096"
    using vmm_alloc_ok [OF I al nz] by blast
  have P: "pmm_inv (vm_pmm s)" "paging_inv (vm_pg s)"
    and A: "page_base (pm_bitmap (vm_pmm s)) = pm_bitmap (vm_pmm s)"
      "page_base (next_virt s) = next_virt s" "0xD0000000 \<le> next_virt s"
    using I by (simp_all add: vmm_inv_def)
  from pmm.falloc_fresh [OF P(1) al'(1,2)] have F: "pmm_inv p"
    "frame \<in> pmm_pool (vm_pmm s) - pmm_live (vm_pmm s)"
    "pmm_live p = insert frame (pmm_live (vm_pmm s))" "pmm_pool p = pmm_pool (vm_pmm s)" by auto
  have fa: "page_base frame = frame" using pool_aligned [OF P(1) A(1)] F(2) by blast
  have tv: "paging_get_physical (vm_pg s') v = frame"
    using A(2) fa by (simp add: s' al'(3) pg.translate_map_same [OF P(2)] page_off_aligned)
  have other: "paging_get_physical (vm_pg s') x = paging_get_physical (vm_pg s) x"
    if "page_base x \<noteq> v" for x
    using that A(2) by (simp add: s' al'(3) pg.translate_map_other [OF P(2)])
  have reg: "vm_region s' w \<longleftrightarrow> vm_region s w \<or> w = v" for w
    using vm_region_alloc [OF I nw, of s'] by (simp add: s' al'(3))
  have rv: "page_base w \<noteq> v" if "vm_region s w" for w
    using that al'(3) by (auto simp: vm_region_def)
  have B: "vm_backed s" using I by (simp add: vmm_inv_def)
  have oldf: "paging_get_physical (vm_pg s) w \<noteq> frame" if "vm_region s w" for w
    using B F(2) al'(2) that unfolding vm_backed_def by (metis DiffE)
  have "vm_backed s'"
    unfolding vm_backed_def reg
    using B oldf other rv tv F(3) al'(2) by (auto simp: vm_backed_def s')
  moreover have "0xD0000000 \<le> next_virt s + 4096"
    using A(3) nw by (simp add: word_le_nat_alt)
  moreover have "page_base (next_virt s + 4096) = next_virt s + 4096"
    using A(2) nw by (simp add: aligned_iff)
  ultimately show "vmm_inv s'"
    using F(1) A(1) pm_bitmap_alloc [OF al'(1)] paging_inv_map [OF P(2)] by (simp add: vmm_inv_def s')
  show "v = next_virt s" by (rule al'(3))
  show "next_virt s' = next_virt s + 4096" by (simp add: s')
  show "vm_region s' w \<longleftrightarrow> vm_region s w \<or> w = v" by (rule reg)
  show "paging_get_physical (vm_pg s') v \<in> pmm_live (vm_pmm s') - pmm_live (vm_pmm s)"
    "pmm_live (vm_pmm s') = insert (paging_get_physical (vm_pg s') v) (pmm_live (vm_pmm s))"
    using F tv by (simp_all add: s')
  show "page_base x \<noteq> v \<Longrightarrow> paging_get_physical (vm_pg s') x = paging_get_physical (vm_pg s) x"
    by (rule other)
  show "pmm_pool (vm_pmm s') = pmm_pool (vm_pmm s)" using F(4) by (simp add: s')
qed

subsection \<open>Release\<close>

lemma vmm_free_spec:
  assumes I: "vmm_inv s" and r: "vm_region s v" and m: "paging_get_physical (vm_pg s) v \<noteq> 0"
  shows "vmm_inv (vmm_free v s)" "paging_get_physical (vm_pg (vmm_free v s)) v = 0"
    "pmm_live (vm_pmm (vmm_free v s)) = pmm_live (vm_pmm s) - {paging_get_physical (vm_pg s) v}"
    "page_base x \<noteq> v \<Longrightarrow> paging_get_physical (vm_pg (vmm_free v s)) x = paging_get_physical (vm_pg s) x"
    "next_virt (vmm_free v s) = next_virt s"
proof -
  let ?f = "paging_get_physical (vm_pg s) v"
  have P: "pmm_inv (vm_pmm s)" "paging_inv (vm_pg s)" and B: "vm_backed s"
    using I by (simp_all add: vmm_inv_def)
  have fl: "?f \<in> pmm_live (vm_pmm s)" using B r m by (simp add: vm_backed_def)
  then have "?f \<in> pmm_pool (vm_pmm s)" using pmm.live_pool [OF P(1)] by blast
  note F = pmm.ffree_live [OF P(1) this]
  have s': "vmm_free v s = s\<lparr>vm_pg := paging_unmap v (vm_pg s), vm_pmm := pmm_free ?f (vm_pmm s)\<rparr>"
    using m by (simp add: vmm_free_def Let_def)
  have va: "page_base v = v" using r by (simp add: vm_region_def)
  have tv: "paging_get_physical (vm_pg (vmm_free v s)) v = 0"
    by (simp add: s' pg.translate_unmap_same [OF P(2)])
  have other: "paging_get_physical (vm_pg (vmm_free v s)) x = paging_get_physical (vm_pg s) x"
    if "page_base x \<noteq> v" for x
    using that va by (simp add: s' pg.translate_unmap_other [OF P(2)])
  have reg: "vm_region (vmm_free v s) w = vm_region s w" for w by (simp add: s' vm_region_def)
  have tr: "paging_get_physical (vm_pg (vmm_free v s)) w =
      (if w = v then 0 else paging_get_physical (vm_pg s) w)" if "vm_region s w" for w
    using tv other that by (auto simp: vm_region_def)
  have "vm_backed (vmm_free v s)"
    unfolding vm_backed_def reg using B r m F
    by (auto simp: tr) (auto simp: s' vm_backed_def)
  then show "vmm_inv (vmm_free v s)"
    using I F paging_inv_unmap [OF P(2)] by (simp add: vmm_inv_def s')
  show "paging_get_physical (vm_pg (vmm_free v s)) v = 0" by (rule tv)
  show "pmm_live (vm_pmm (vmm_free v s)) = pmm_live (vm_pmm s) - {?f}"
    using F by (simp add: s')
  show "page_base x \<noteq> v \<Longrightarrow> paging_get_physical (vm_pg (vmm_free v s)) x = paging_get_physical (vm_pg s) x"
    by (rule other)
  show "next_virt (vmm_free v s) = next_virt s" by (simp add: s')
qed

subsection \<open>Properties\<close>

definition vmm_16mb :: vmm where
  "vmm_16mb = vmm_init \<lparr>vm_pmm = pmm_init map_16mb pmm0, vm_pg = paging0, next_virt = 0\<rparr>"

lemma vm_region_empty: "next_virt s = 0xD0000000 \<Longrightarrow> vm_region s v = False"
  by (auto simp: vm_region_def)

lemma vmm_16mb_inv: "vmm_inv vmm_16mb"
  using pmm_16mb pmm_init_fields(1) [OF region_16mb, where p = pmm0] paging0_inv
  by (simp add: vmm_16mb_def vmm_init_def vmm_inv_def vm_backed_def vm_region_empty page_base_def)

lemma vmm_16mb_alloc: "\<exists>s' v. vmm_alloc 0 3 vmm_16mb = (s', v) \<and> v \<noteq> 0"
proof -
  obtain s' v where al: "vmm_alloc 0 3 vmm_16mb = (s', v)" by fastforce
  have "pmm_live (vm_pmm vmm_16mb) \<noteq> pmm_pool (vm_pmm vmm_16mb)" "next_virt vmm_16mb = 0xD0000000"
    using pmm_16mb(2) pool_16mb by (auto simp: vmm_16mb_def vmm_init_def)
  with vmm_alloc_fail [OF vmm_16mb_inv] al show ?thesis by fastforce
qed

text \<open>C12. \<^verbatim>\<open>vmm_alloc\<close> of a fresh page: the result is the next page of the region at
  \<^verbatim>\<open>0xD0000000\<close>, backed by a frame that no page had; no other translation changes, and the invariant
  (every mapped page of the region owns its frame) is kept.\<close>
theorem vmm_alloc_backs_page:
  assumes "vmm_inv s" "vmm_alloc 0 flags s = (s', v)" "v \<noteq> 0"
  shows "vmm_inv s' \<and> v = next_virt s \<and> vm_region s' v
    \<and> paging_get_physical (vm_pg s') v \<in> pmm_live (vm_pmm s') - pmm_live (vm_pmm s)
    \<and> (\<forall>x. page_base x \<noteq> v \<longrightarrow> paging_get_physical (vm_pg s') x = paging_get_physical (vm_pg s) x)"
  using vmm_alloc_spec [OF assms] by blast

lemma vmm_alloc_backs_page_witness: "\<exists>s' v. vmm_alloc 0 3 vmm_16mb = (s', v) \<and> vmm_inv s' \<and> v = 0xD0000000"
proof -
  obtain s' v where "vmm_alloc 0 3 vmm_16mb = (s', v)" "v \<noteq> 0" using vmm_16mb_alloc by blast
  with vmm_alloc_backs_page [OF vmm_16mb_inv this] show ?thesis
    by (auto simp: vmm_16mb_def vmm_init_def)
qed

text \<open>A failing \<^verbatim>\<open>vmm_alloc\<close> leaks nothing: it returns null only when the frames are used
  up or the last page of the address space is reached, and leaves the state as it was.\<close>
theorem vmm_alloc_null_unchanged:
  assumes "vmm_inv s" "vmm_alloc 0 flags s = (s', 0)"
  shows "s' = s \<and> (pmm_live (vm_pmm s) = pmm_pool (vm_pmm s) \<or> next_virt s = 0xFFFFF000)"
  by (rule vmm_alloc_fail [OF assms])

lemma vmm_alloc_null_unchanged_witness:
  "vmm_alloc 0 3 (vmm_init \<lparr>vm_pmm = pmm0\<lparr>pm_skip := 1, pm_total := 1, pm_used := 1\<rparr>, vm_pg = paging0, next_virt = 0\<rparr>)
     = (vmm_init \<lparr>vm_pmm = pmm0\<lparr>pm_skip := 1, pm_total := 1, pm_used := 1\<rparr>, vm_pg = paging0, next_virt = 0\<rparr>, 0)"
proof -
  let ?s = "vmm_init \<lparr>vm_pmm = pmm0\<lparr>pm_skip := 1, pm_total := 1, pm_used := 1\<rparr>, vm_pg = paging0, next_virt = 0\<rparr>"
  have l: "pmm_live_set (pmm0\<lparr>pm_skip := 1, pm_total := 1, pm_used := 1\<rparr>) = {}"
    by (auto simp: pmm_live_set_def pmm_in_range_def)
  have I: "vmm_inv ?s"
    using paging0_inv by (simp add: vmm_init_def vmm_inv_def vm_backed_def vm_region_empty page_base_def
        pmm_inv_def l) (simp add: pmm0_def)
  have "snd (vmm_alloc 0 3 ?s) = 0"
    by (simp add: vmm_alloc_def vmm_init_def pmm_alloc_def Let_def)
  then obtain s' where al: "vmm_alloc 0 3 ?s = (s', 0)" by (metis prod.collapse)
  from vmm_alloc_null_unchanged [OF I al] al show ?thesis by simp
qed

text \<open>\<^verbatim>\<open>vmm_free\<close> of a mapped page unmaps that page, gives its frame back to the physical
  allocator, changes no other translation and keeps the invariant.\<close>
theorem vmm_free_releases:
  assumes "vmm_inv s" "vm_region s v" "paging_get_physical (vm_pg s) v \<noteq> 0"
  shows "vmm_inv (vmm_free v s) \<and> paging_get_physical (vm_pg (vmm_free v s)) v = 0
    \<and> pmm_live (vm_pmm (vmm_free v s)) = pmm_live (vm_pmm s) - {paging_get_physical (vm_pg s) v}
    \<and> (\<forall>x. page_base x \<noteq> v \<longrightarrow> paging_get_physical (vm_pg (vmm_free v s)) x = paging_get_physical (vm_pg s) x)"
  using vmm_free_spec [OF assms] by blast

lemma vmm_free_releases_witness:
  "\<exists>s' v. vmm_alloc 0 3 vmm_16mb = (s', v) \<and> vmm_inv (vmm_free v s')
     \<and> paging_get_physical (vm_pg (vmm_free v s')) v = 0"
proof -
  obtain s' v where al: "vmm_alloc 0 3 vmm_16mb = (s', v)" "v \<noteq> 0" using vmm_16mb_alloc by blast
  note sp = vmm_alloc_spec [OF vmm_16mb_inv al]
  have P: "pmm_inv (vm_pmm s')" using sp(1) by (simp add: vmm_inv_def)
  have "paging_get_physical (vm_pg s') v \<noteq> 0"
    using sp(5) pmm.live_pool [OF P] pmm.pool_nonnull [OF P] by auto
  moreover have "vm_region s' v" using sp(4) by blast
  ultimately show ?thesis using vmm_free_releases [OF sp(1)] al by blast
qed

end
