(* ===== verification/Sched.thy ===== *)
theory Sched
  imports Prelude
begin

text \<open>
  \<^verbatim>\<open>kernel/system/sched/sched.cpp\<close> and \<^verbatim>\<open>kernel/system/tss/tss.cpp\<close>: the
  preemptive round-robin scheduler, driven by \<^verbatim>\<open>sched_tick\<close> from the timer interrupt,
  and the task state segment whose \<^verbatim>\<open>esp0\<close> it switches. The kernel stacks, which
  \<^verbatim>\<open>sched_add_task\<close> fills with an interrupt frame, are 32-bit words of memory.
\<close>

subsection \<open>Task state segment\<close>

record tss =
  prev_tss :: u32
  tss_esp0 :: u32
  ss0 :: u32
  tss_other :: "u32 list"    \<comment> \<open>the 23 double words from \<^verbatim>\<open>esp1\<close> to \<^verbatim>\<open>ldt\<close>\<close>
  tss_trap :: u16
  iomap_base :: u16

definition tss_init :: "tss \<Rightarrow> tss" where
  "tss_init t = \<lparr>prev_tss = 0, tss_esp0 = 0x9FFFC, ss0 = 0x10, tss_other = replicate 23 0,
                 tss_trap = 0, iomap_base = 104\<rparr>"

definition tss_set_esp0 :: "u32 \<Rightarrow> tss \<Rightarrow> tss" where
  "tss_set_esp0 e t = t\<lparr>tss_esp0 := e\<rparr>"

subsection \<open>Tasks\<close>

datatype task_state = TASK_DEAD | TASK_READY | TASK_RUNNING

text \<open>The enumeration's values are ordered as in \<^verbatim>\<open>enum TaskState : uint8_t\<close>.\<close>

fun task_state_val :: "task_state \<Rightarrow> nat" where
  "task_state_val TASK_DEAD = 0"
| "task_state_val TASK_READY = 1"
| "task_state_val TASK_RUNNING = 2"

instantiation task_state :: linorder
begin

definition less_eq_task_state :: "task_state \<Rightarrow> task_state \<Rightarrow> bool" where
  "less_eq_task_state a b \<longleftrightarrow> task_state_val a \<le> task_state_val b"

definition less_task_state :: "task_state \<Rightarrow> task_state \<Rightarrow> bool" where
  "less_task_state a b \<longleftrightarrow> task_state_val a < task_state_val b"

instance
proof
  fix a b c :: task_state
  show "a < b \<longleftrightarrow> a \<le> b \<and> \<not> b \<le> a" by (auto simp: less_eq_task_state_def less_task_state_def)
  show "a \<le> a" by (simp add: less_eq_task_state_def)
  show "a \<le> b \<Longrightarrow> b \<le> c \<Longrightarrow> a \<le> c" by (simp add: less_eq_task_state_def)
  show "a \<le> b \<Longrightarrow> b \<le> a \<Longrightarrow> a = b" by (cases a; cases b) (simp_all add: less_eq_task_state_def)
  show "a \<le> b \<or> b \<le> a" by (auto simp: less_eq_task_state_def)
qed

end

record task =
  t_esp :: u32
  t_esp0 :: u32
  t_state :: task_state
  t_id :: u32
  t_entry :: u32
  t_user_esp :: u32

record sched =
  tasks :: "task list"           \<comment> \<open>\<^verbatim>\<open>tasks[MAX_TASKS]\<close>\<close>
  task_count :: nat
  cur_task :: nat
  ticks_left :: int
  kstacks :: u32                 \<comment> \<open>address of \<^verbatim>\<open>kstacks\<close>\<close>
  kstack_mem :: "u32 \<Rightarrow> u32"
  sched_tss :: tss

definition MAX_TASKS :: nat where "MAX_TASKS = 4"
definition QUANTUM_TICKS :: int where "QUANTUM_TICKS = 20"
definition KSTACK_SIZE :: u32 where "KSTACK_SIZE = 0x4000"

lemmas sched_consts = MAX_TASKS_def QUANTUM_TICKS_def KSTACK_SIZE_def

definition kstack_end :: "sched \<Rightarrow> nat \<Rightarrow> u32" where
  "kstack_end s i = kstacks s + word_of_nat i * KSTACK_SIZE + KSTACK_SIZE"

definition sched_init :: "sched \<Rightarrow> sched" where
  "sched_init s = s\<lparr>tasks := (tasks s)[0 := \<lparr>t_esp = 0, t_esp0 = kstack_end s 0,
       t_state = TASK_RUNNING, t_id = 0, t_entry = 0, t_user_esp = 0\<rparr>],
     task_count := 1, cur_task := 0, ticks_left := QUANTUM_TICKS\<rparr>"

text \<open>\<^verbatim>\<open>*--sp = v\<close>.\<close>

definition kpush :: "u32 \<Rightarrow> u32 \<times> (u32 \<Rightarrow> u32) \<Rightarrow> u32 \<times> (u32 \<Rightarrow> u32)" where
  "kpush v sm = (fst sm - 4, (snd sm)(fst sm - 4 := v))"

text \<open>The interrupt frame of a new task, in the order of the pushes.\<close>

definition task_frame :: "u32 \<Rightarrow> u32 \<Rightarrow> u32 list" where
  "task_frame entry user_esp = [0x23, user_esp, 0x200, 0x1B, entry, 0, 0, 0, 0, 0, 0, 0, 0]"

definition sched_add_task :: "u32 \<Rightarrow> u32 \<Rightarrow> sched \<Rightarrow> sched \<times> nat option" where
  "sched_add_task entry user_esp s =
     (if MAX_TASKS \<le> task_count s then (s, None)
      else
        let idx = task_count s;
            (sp, mem) = fold kpush (task_frame entry user_esp) (kstack_end s idx, kstack_mem s);
            t = \<lparr>t_esp = sp, t_esp0 = kstack_end s idx, t_state = TASK_READY,
                 t_id = word_of_nat idx, t_entry = entry, t_user_esp = user_esp\<rparr>
        in (s\<lparr>kstack_mem := mem, tasks := (tasks s)[idx := t], task_count := idx + 1\<rparr>, Some idx))"

definition task_set_state :: "nat \<Rightarrow> task_state \<Rightarrow> sched \<Rightarrow> sched" where
  "task_set_state i st s = s\<lparr>tasks := (tasks s)[i := (tasks s ! i)\<lparr>t_state := st\<rparr>]\<rparr>"

definition sched_kill_current :: "sched \<Rightarrow> sched" where
  "sched_kill_current s = task_set_state (cur_task s) TASK_DEAD s"

definition sched_kill_task :: "u32 \<Rightarrow> sched \<Rightarrow> sched" where
  "sched_kill_task i s =
     (if unat i < task_count s then task_set_state (unat i) TASK_DEAD s else s)"

definition sched_yield :: "sched \<Rightarrow> sched" where
  "sched_yield s = s"

definition sched_current_task :: "sched \<Rightarrow> task" where
  "sched_current_task s = tasks s ! cur_task s"

definition sched_task_count :: "sched \<Rightarrow> u32" where
  "sched_task_count s = word_of_nat (task_count s)"

definition runnable :: "sched \<Rightarrow> nat \<Rightarrow> bool" where
  "runnable s i \<longleftrightarrow> t_state (tasks s ! i) = TASK_READY \<or> t_state (tasks s ! i) = TASK_RUNNING"

definition sched_next :: "sched \<Rightarrow> nat" where
  "sched_next s =
     (case List.find (\<lambda>i. runnable s ((cur_task s + i) mod task_count s)) [1..<task_count s + 1] of
        Some i \<Rightarrow> (cur_task s + i) mod task_count s
      | None \<Rightarrow> cur_task s)"

definition sched_tick :: "u32 \<Rightarrow> sched \<Rightarrow> sched \<times> u32" where
  "sched_tick cur_esp s =
     (let s1 = s\<lparr>tasks := (tasks s)[cur_task s := (tasks s ! cur_task s)\<lparr>t_esp := cur_esp\<rparr>],
               ticks_left := ticks_left s - 1\<rparr> in
      if 0 < ticks_left s1 then (s1, cur_esp)
      else
        let s2 = s1\<lparr>ticks_left := QUANTUM_TICKS\<rparr>; nxt = sched_next s2 in
        if nxt = cur_task s2 then (s2, cur_esp)
        else
          let s3 = task_set_state (cur_task s2) TASK_READY s2;
              s4 = task_set_state nxt TASK_RUNNING s3;
              s5 = s4\<lparr>cur_task := nxt, sched_tss := tss_set_esp0 (t_esp0 (tasks s4 ! nxt)) (sched_tss s4)\<rparr>
          in (s5, t_esp (tasks s5 ! nxt)))"

text \<open>\<^verbatim>\<open>for (i = 0; i < n; i++) sched_tick(esp);\<close>\<close>

fun tick_n :: "nat \<Rightarrow> u32 \<Rightarrow> sched \<Rightarrow> sched" where
  "tick_n 0 esp s = s"
| "tick_n (Suc n) esp s = tick_n n esp (fst (sched_tick esp s))"

definition test_task :: "u32 \<Rightarrow> u32 \<Rightarrow> task_state \<Rightarrow> u32 \<Rightarrow> task" where
  "test_task esp esp0 st i =
     \<lparr>t_esp = esp, t_esp0 = esp0, t_state = st, t_id = i, t_entry = 0, t_user_esp = 0\<rparr>"

definition test_setup :: "nat \<Rightarrow> task list \<Rightarrow> sched \<Rightarrow> sched" where
  "test_setup n ts s = s\<lparr>task_count := n, cur_task := 0, ticks_left := QUANTUM_TICKS,
     tasks := ts @ drop (length ts) (tasks s)\<rparr>"

text \<open>
  \<^verbatim>\<open>sched_test\<close>: the boot-time self test; the result lists the five checks in order.
  The state is restored but for the stack words and the segment the tests wrote.
\<close>

definition sched_test :: "sched \<Rightarrow> sched \<times> bool list" where
  "sched_test s =
     (let a = test_task 0xA000 0xA100 TASK_RUNNING 0;
          b = test_task 0xB000 0xB100 TASK_READY 1;
          quantum = (\<lambda>s. sched_tick 0xA000 (tick_n (nat (QUANTUM_TICKS - 1)) 0xA000 s));
          (s1, r1) = quantum (test_setup 1 [a] s);
          (s2, r2) = quantum (test_setup 2 [a, b] s1);
          (s3, r3) = quantum (test_setup 3
             [a, b\<lparr>t_state := TASK_DEAD\<rparr>, test_task 0xC000 0xC100 TASK_READY 2] s2);
          (s4, r4) = sched_add_task 0xDEAD0000 0xBEEF0000 (test_setup 1 [a] s3);
          s5 = sched_kill_current (test_setup 2 [a, b] s4)
      in (s5\<lparr>task_count := task_count s, cur_task := cur_task s, ticks_left := ticks_left s,
             tasks := tasks s\<rparr>,
          [r1 = 0xA000, r2 = 0xB000 \<and> cur_task s2 = 1, r3 = 0xC000 \<and> cur_task s3 = 2,
           r4 = Some 1 \<and> t_state (tasks s4 ! 1) = TASK_READY,
           t_state (tasks s5 ! 0) = TASK_DEAD]))"

subsection \<open>Invariant\<close>

definition sched_inv :: "sched \<Rightarrow> bool" where
  "sched_inv s \<longleftrightarrow> length (tasks s) = MAX_TASKS \<and> 0 < task_count s \<and> task_count s \<le> MAX_TASKS
     \<and> cur_task s < task_count s \<and> 0 < ticks_left s \<and> ticks_left s \<le> QUANTUM_TICKS
     \<and> (\<forall>i < task_count s. t_state (tasks s ! i) = TASK_RUNNING \<longrightarrow> i = cur_task s)"

lemma sched_inv_init [kinv]: "length (tasks s) = MAX_TASKS \<Longrightarrow> sched_inv (sched_init s)"
  by (auto simp: sched_inv_def sched_init_def sched_consts)

lemma sched_inv_add [kinv]: "sched_inv s \<Longrightarrow> sched_inv (fst (sched_add_task e u s))"
  by (auto simp: sched_inv_def sched_add_task_def sched_consts Let_def nth_list_update
      split: prod.splits if_splits)

lemma task_set_state_fields [simp]:
  "length (tasks (task_set_state i st s)) = length (tasks s)"
  "task_count (task_set_state i st s) = task_count s" "cur_task (task_set_state i st s) = cur_task s"
  "ticks_left (task_set_state i st s) = ticks_left s" "sched_tss (task_set_state i st s) = sched_tss s"
  "kstacks (task_set_state i st s) = kstacks s" "kstack_mem (task_set_state i st s) = kstack_mem s"
  by (simp_all add: task_set_state_def)

lemma t_state_set_state:
  "i < length (tasks s) \<Longrightarrow>
   t_state (tasks (task_set_state i st s) ! j) = (if j = i then st else t_state (tasks s ! j))"
  by (auto simp: task_set_state_def nth_list_update)

lemma sched_inv_kill_current [kinv]: "sched_inv s \<Longrightarrow> sched_inv (sched_kill_current s)"
  by (auto simp: sched_inv_def sched_kill_current_def t_state_set_state split: if_splits)

lemma sched_inv_kill_task [kinv]: "sched_inv s \<Longrightarrow> sched_inv (sched_kill_task i s)"
  by (auto simp: sched_inv_def sched_kill_task_def t_state_set_state split: if_splits)

subsection \<open>Choice of the next task\<close>

text \<open>
  \<open>sched_next\<close> is the runnable task nearest after the current one in cyclic order; the
  current task itself comes last.
\<close>

lemma sched_next_Some:
  assumes "0 < d" "d \<le> task_count s" "runnable s ((cur_task s + d) mod task_count s)"
    and "\<forall>e. 0 < e \<longrightarrow> e < d \<longrightarrow> \<not> runnable s ((cur_task s + e) mod task_count s)"
  shows "sched_next s = (cur_task s + d) mod task_count s"
proof -
  have "List.find (\<lambda>i. runnable s ((cur_task s + i) mod task_count s)) [1..<task_count s + 1] = Some d"
    unfolding find_upt_Some_iff using assms by auto
  then show ?thesis by (simp add: sched_next_def)
qed

lemma sched_next_None:
  assumes "\<forall>d. 0 < d \<longrightarrow> d \<le> task_count s \<longrightarrow> \<not> runnable s ((cur_task s + d) mod task_count s)"
  shows "sched_next s = cur_task s"
proof -
  have "List.find (\<lambda>i. runnable s ((cur_task s + i) mod task_count s)) [1..<task_count s + 1] = None"
    unfolding find_upt_None_iff using assms by auto
  then show ?thesis by (simp add: sched_next_def)
qed

lemma sched_next_cases:
  obtains (nearest) d where "0 < d" "d \<le> task_count s" "runnable s ((cur_task s + d) mod task_count s)"
      "\<forall>e. 0 < e \<longrightarrow> e < d \<longrightarrow> \<not> runnable s ((cur_task s + e) mod task_count s)"
      "sched_next s = (cur_task s + d) mod task_count s"
  | (idle) "\<forall>d. 0 < d \<longrightarrow> d \<le> task_count s \<longrightarrow> \<not> runnable s ((cur_task s + d) mod task_count s)"
      "sched_next s = cur_task s"
proof (cases "List.find (\<lambda>i. runnable s ((cur_task s + i) mod task_count s)) [1..<task_count s + 1]")
  case None
  then have "\<forall>d. 0 < d \<longrightarrow> d \<le> task_count s \<longrightarrow> \<not> runnable s ((cur_task s + d) mod task_count s)"
    unfolding find_upt_None_iff by auto
  with that(2) sched_next_None show ?thesis by blast
next
  case (Some d)
  then have d: "0 < d" "d \<le> task_count s" "runnable s ((cur_task s + d) mod task_count s)"
    "\<forall>e. 0 < e \<longrightarrow> e < d \<longrightarrow> \<not> runnable s ((cur_task s + e) mod task_count s)"
    unfolding find_upt_Some_iff by auto
  with that(1) sched_next_Some show ?thesis by blast
qed

subsection \<open>One tick\<close>

definition save_esp :: "u32 \<Rightarrow> sched \<Rightarrow> sched" where
  "save_esp e s = s\<lparr>tasks := (tasks s)[cur_task s := (tasks s ! cur_task s)\<lparr>t_esp := e\<rparr>]\<rparr>"

lemma t_state_save_esp [simp]: "t_state (tasks (save_esp e s) ! i) = t_state (tasks s ! i)"
  by (cases "cur_task s < length (tasks s)")
    (auto simp: save_esp_def nth_list_update list_update_beyond)

lemma save_esp_fields [simp]:
  "length (tasks (save_esp e s)) = length (tasks s)" "task_count (save_esp e s) = task_count s"
  "cur_task (save_esp e s) = cur_task s" "ticks_left (save_esp e s) = ticks_left s"
  "sched_tss (save_esp e s) = sched_tss s"
  by (simp_all add: save_esp_def)

lemma sched_next_save [simp]: "sched_next (save_esp e s\<lparr>ticks_left := t\<rparr>) = sched_next s"
  by (simp add: sched_next_def runnable_def cong: option.case_cong)

definition switch_to :: "nat \<Rightarrow> sched \<Rightarrow> sched" where
  "switch_to n s = (let s' = task_set_state n TASK_RUNNING (task_set_state (cur_task s) TASK_READY s)
     in s'\<lparr>cur_task := n, sched_tss := tss_set_esp0 (t_esp0 (tasks s' ! n)) (sched_tss s')\<rparr>)"

lemma sched_tick_idle:
  "1 < ticks_left s \<Longrightarrow> sched_tick e s = (save_esp e s\<lparr>ticks_left := ticks_left s - 1\<rparr>, e)"
  by (simp add: sched_tick_def save_esp_def)

lemma sched_tick_expire:
  assumes "ticks_left s \<le> 1"
  shows "sched_tick e s = (let s2 = save_esp e s\<lparr>ticks_left := QUANTUM_TICKS\<rparr> in
     if sched_next s = cur_task s then (s2, e)
     else (switch_to (sched_next s) s2, t_esp (tasks (switch_to (sched_next s) s2) ! sched_next s)))"
proof -
  have "s\<lparr>tasks := (tasks s)[cur_task s := (tasks s ! cur_task s)\<lparr>t_esp := e\<rparr>],
      ticks_left := QUANTUM_TICKS\<rparr> = save_esp e s\<lparr>ticks_left := QUANTUM_TICKS\<rparr>"
    by (simp add: save_esp_def)
  moreover have "sched_next (save_esp e s\<lparr>ticks_left := QUANTUM_TICKS\<rparr>) = sched_next s" by simp
  ultimately show ?thesis
    using assms by (simp add: sched_tick_def Let_def switch_to_def)
qed

lemma sched_next_less: "sched_inv s \<Longrightarrow> sched_next s < task_count s"
  by (cases rule: sched_next_cases [of s]) (auto simp: sched_inv_def)

lemma switch_to_fields [simp]:
  "length (tasks (switch_to n s)) = length (tasks s)" "task_count (switch_to n s) = task_count s"
  "cur_task (switch_to n s) = n" "ticks_left (switch_to n s) = ticks_left s"
  by (simp_all add: switch_to_def Let_def)

lemma t_state_switch_to:
  assumes "n < length (tasks s)" "cur_task s < length (tasks s)" "n \<noteq> cur_task s"
  shows "t_state (tasks (switch_to n s) ! i) =
    (if i = n then TASK_RUNNING else if i = cur_task s then TASK_READY else t_state (tasks s ! i))"
  using assms by (simp add: switch_to_def Let_def t_state_set_state)

lemma sched_inv_save: "sched_inv s \<Longrightarrow> 0 < t \<Longrightarrow> t \<le> QUANTUM_TICKS \<Longrightarrow> sched_inv (save_esp e s\<lparr>ticks_left := t\<rparr>)"
  by (auto simp: sched_inv_def)

lemma sched_inv_switch:
  assumes "sched_inv s" "n < task_count s" "n \<noteq> cur_task s"
  shows "sched_inv (switch_to n s)"
  using assms by (auto simp: sched_inv_def t_state_switch_to split: if_splits)

lemma sched_inv_tick [kinv]: "sched_inv s \<Longrightarrow> sched_inv (fst (sched_tick e s))"
proof (cases "1 < ticks_left s")
  case True
  assume "sched_inv s"
  with True show ?thesis by (auto simp: sched_tick_idle sched_inv_def)
next
  case False
  assume I: "sched_inv s"
  then have I2: "sched_inv (save_esp e s\<lparr>ticks_left := QUANTUM_TICKS\<rparr>)"
    by (intro sched_inv_save) (auto simp: sched_consts)
  show ?thesis
    using False I2 sched_inv_switch [OF I2, of "sched_next s"] sched_next_less [OF I]
    by (auto simp: sched_tick_expire Let_def)
qed

text \<open>Ticks within a quantum only count down and record the stack pointer.\<close>

lemma tick_n_idle:
  "int n < ticks_left s \<Longrightarrow>
   tick_n n e s = (if n = 0 then s else save_esp e s\<lparr>ticks_left := ticks_left s - int n\<rparr>)"
proof (induction n arbitrary: s)
  case 0
  then show ?case by simp
next
  case (Suc n)
  have "save_esp e (save_esp e s\<lparr>ticks_left := t\<rparr>) = save_esp e s\<lparr>ticks_left := t\<rparr>" for t
    by (cases "cur_task s < length (tasks s)") (auto simp: save_esp_def list_update_beyond)
  with Suc show ?case by (simp add: sched_tick_idle)
qed

lemma tick_n_add: "tick_n (m + n) e s = tick_n n e (tick_n m e s)"
  by (induction m arbitrary: s) auto

lemma sched_inv_tick_n [kinv]: "sched_inv s \<Longrightarrow> sched_inv (tick_n n e s)"
  by (induction n arbitrary: s) (auto simp: sched_inv_tick)

subsection \<open>Quantum, fairness, dead tasks\<close>

lemma cur_task_tick:
  assumes "sched_inv s"
  shows "cur_task (fst (sched_tick e s)) = (if 1 < ticks_left s then cur_task s else sched_next s)"
    "ticks_left (fst (sched_tick e s)) = (if 1 < ticks_left s then ticks_left s - 1 else QUANTUM_TICKS)"
    "task_count (fst (sched_tick e s)) = task_count s"
  by (cases "1 < ticks_left s";
      cases "sched_next s = cur_task s"; simp add: sched_tick_idle sched_tick_expire Let_def not_less)+

lemma t_state_tick:
  assumes "sched_inv s" "i < task_count s"
  shows "t_state (tasks (fst (sched_tick e s)) ! i) =
    (if 1 < ticks_left s \<or> sched_next s = cur_task s then t_state (tasks s ! i)
     else if i = sched_next s then TASK_RUNNING
     else if i = cur_task s then TASK_READY else t_state (tasks s ! i))"
proof (cases "1 < ticks_left s \<or> sched_next s = cur_task s")
  case True
  then show ?thesis
    by (cases "1 < ticks_left s") (simp_all add: sched_tick_idle sched_tick_expire Let_def not_less)
next
  case False
  have "sched_next s < length (tasks s)" "cur_task s < length (tasks s)"
    using sched_next_less [OF assms(1)] assms(1) by (auto simp: sched_inv_def)
  with False show ?thesis
    by (simp add: sched_tick_expire Let_def not_less t_state_switch_to)
qed

text \<open>How many places after the current task a task comes in cyclic order.\<close>

definition turn_dist :: "sched \<Rightarrow> nat \<Rightarrow> nat" where
  "turn_dist s j = (j + task_count s - cur_task s) mod task_count s"

lemma turn_dist_less: "sched_inv s \<Longrightarrow> turn_dist s j < task_count s"
  by (simp add: turn_dist_def sched_inv_def)

lemma turn_dist_step:
  assumes "c < n" "j < n"
  shows "(c + (j + n - c) mod n) mod n = (j :: nat)"
proof -
  have "(c + (j + n - c) mod n) mod n = (c + (j + n - c)) mod n" by (simp add: mod_add_right_eq)
  also have "c + (j + n - c) = j + n" using assms by simp
  finally show ?thesis using assms by simp
qed

lemma turn_dist_unique:
  assumes "k < n" "y < n" "(k + y) mod n = j"
  shows "(j + n - k) mod n = (y :: nat)"
proof (cases "k + y < n")
  case True
  with assms have "j + n - k = y + n" by simp
  with assms show ?thesis by simp
next
  case False
  with assms have "k + y - n < n" "(k + y) mod n = (k + y - n) mod n"
    by (auto simp: le_mod_geq)
  with assms have "j = k + y - n" by simp
  with assms False have "j + n - k = y" by simp
  with assms show ?thesis by simp
qed

lemma turn_dist_0_iff:
  assumes "sched_inv s" "j < task_count s"
  shows "turn_dist s j = 0 \<longleftrightarrow> j = cur_task s"
proof -
  have "cur_task s < task_count s" using assms by (simp add: sched_inv_def)
  from turn_dist_step [OF this assms(2)] assms this show ?thesis
    by (auto simp: turn_dist_def)
qed

text \<open>At the end of a quantum a runnable task's distance shrinks, or it gets the processor.\<close>

lemma turn_dist_switch:
  assumes I: "sched_inv s" and j: "j < task_count s" "runnable s j" "j \<noteq> cur_task s"
  shows "(j + task_count s - sched_next s) mod task_count s < turn_dist s j"
proof -
  let ?n = "task_count s" and ?c = "cur_task s" and ?D = "turn_dist s j"
  have c: "?c < ?n" using I by (simp add: sched_inv_def)
  have D: "0 < ?D" "?D < ?n" using turn_dist_0_iff [OF I j(1)] j(3) turn_dist_less [OF I] by auto
  have jD: "(?c + ?D) mod ?n = j" using turn_dist_step [OF c j(1)] by (simp add: turn_dist_def)
  show ?thesis
  proof (cases rule: sched_next_cases [of s])
    case (nearest d)
    have "d \<le> ?D" using nearest(4) D jD j(2) by (metis not_le)
    have "(sched_next s + (?D - d)) mod ?n = (?c + d + (?D - d)) mod ?n"
      by (simp only: nearest(5) mod_add_left_eq)
    then have "(sched_next s + (?D - d)) mod ?n = j" using jD \<open>d \<le> ?D\<close> by simp
    from turn_dist_unique [OF sched_next_less [OF I] _ this] D
    have "(j + ?n - sched_next s) mod ?n = ?D - d" by simp
    then show ?thesis using nearest(1) \<open>d \<le> ?D\<close> D by simp
  next
    case idle
    with D jD j(2) have False by (metis less_imp_le)
    then show ?thesis ..
  qed
qed

text \<open>One whole quantum, seen from a runnable task that waits.\<close>

lemma tick_n_quantum:
  fixes e :: u32
  assumes I: "sched_inv s"
  defines "s' \<equiv> tick_n (nat (ticks_left s)) e s"
  shows "sched_inv s'" "cur_task s' = sched_next s" "task_count s' = task_count s"
    "ticks_left s' = QUANTUM_TICKS"
    "i < task_count s \<Longrightarrow> t_state (tasks s' ! i) =
       (if sched_next s = cur_task s then t_state (tasks s ! i)
        else if i = sched_next s then TASK_RUNNING
        else if i = cur_task s then TASK_READY else t_state (tasks s ! i))"
proof -
  let ?m = "nat (ticks_left s) - 1"
  have t: "nat (ticks_left s) = ?m + 1" "int ?m < ticks_left s" "ticks_left s - int ?m = 1"
    using I by (auto simp: sched_inv_def)
  define s1 where "s1 = tick_n ?m e s"
  have s1: "s1 = (if ?m = 0 then s else save_esp e s\<lparr>ticks_left := 1\<rparr>)"
    unfolding s1_def tick_n_idle [OF t(2)] t(3) ..
  have s': "s' = fst (sched_tick e s1)"
    unfolding s'_def by (subst t(1), subst tick_n_add) (simp add: s1_def)
  have I1: "sched_inv s1" unfolding s1_def by (rule sched_inv_tick_n [OF I])
  have f1: "cur_task s1 = cur_task s" "task_count s1 = task_count s" "sched_next s1 = sched_next s"
    "\<not> 1 < ticks_left s1" "\<And>i. t_state (tasks s1 ! i) = t_state (tasks s ! i)"
    using t by (auto simp: s1)
  show "sched_inv s'" unfolding s' by (rule sched_inv_tick [OF I1])
  show "cur_task s' = sched_next s" "task_count s' = task_count s" "ticks_left s' = QUANTUM_TICKS"
    unfolding s' using cur_task_tick [OF I1] f1 by auto
  show "i < task_count s \<Longrightarrow> t_state (tasks s' ! i) =
       (if sched_next s = cur_task s then t_state (tasks s ! i)
        else if i = sched_next s then TASK_RUNNING
        else if i = cur_task s then TASK_READY else t_state (tasks s ! i))"
    unfolding s' using t_state_tick [OF I1, of i e] f1 by simp
qed

lemma runnable_quantum:
  assumes "sched_inv s" "j < task_count s" "runnable s j"
  shows "runnable (tick_n (nat (ticks_left s)) e s) j"
  using tick_n_quantum(5) [OF assms(1,2), where e = e] assms(3) by (auto simp: runnable_def)

lemma turn_dist_quantum:
  assumes "sched_inv s" "j < task_count s" "runnable s j" "j \<noteq> cur_task s"
  shows "turn_dist (tick_n (nat (ticks_left s)) e s) j < turn_dist s j"
  using turn_dist_switch [OF assms] tick_n_quantum [OF assms(1), where e = e]
  by (simp add: turn_dist_def)

text \<open>A runnable task gets the processor within as many quanta as its distance.\<close>

lemma sched_no_starvation_aux:
  assumes "sched_inv s" "j < task_count s" "runnable s j" "turn_dist s j \<le> k"
  shows "\<exists>n \<le> k * 20. cur_task (tick_n n e s) = j"
  using assms
proof (induction k arbitrary: s)
  case 0
  then show ?case using turn_dist_0_iff [of s j] by (auto intro!: exI [of _ 0])
next
  case (Suc k)
  show ?case
  proof (cases "j = cur_task s")
    case True
    then show ?thesis by (auto intro!: exI [of _ 0])
  next
    case False
    let ?m = "nat (ticks_left s)"
    let ?s = "tick_n ?m e s"
    have m: "?m \<le> 20" using Suc.prems(1) by (auto simp: sched_inv_def sched_consts)
    have "turn_dist ?s j \<le> k"
      using turn_dist_quantum [OF Suc.prems(1-3) False, of e] Suc.prems(4) by simp
    moreover have "j < task_count ?s" using tick_n_quantum(3) [OF Suc.prems(1)] Suc.prems(2) by simp
    ultimately obtain n where n: "n \<le> k * 20" "cur_task (tick_n n e ?s) = j"
      using Suc.IH [OF tick_n_quantum(1) [OF Suc.prems(1)]] runnable_quantum [OF Suc.prems(1-3)]
      by blast
    have "tick_n n e ?s = tick_n (?m + n) e s" by (simp add: tick_n_add)
    with n m show ?thesis by (intro exI [of _ "?m + n"]) simp
  qed
qed

subsection \<open>The frame of a new task\<close>

lemma fold_kpush:
  "fold kpush vs (sp, mem) = (sp - 4 * word_of_nat (length vs), snd (fold kpush vs (sp, mem)))"
proof (induction vs arbitrary: sp mem)
  case Nil
  then show ?case by simp
next
  case (Cons v vs)
  have "fold kpush (v # vs) (sp, mem) = fold kpush vs (sp - 4, mem(sp - 4 := v))"
    by (simp add: kpush_def)
  also have "\<dots> = (sp - 4 - 4 * word_of_nat (length vs), snd (fold kpush (v # vs) (sp, mem)))"
    by (subst Cons.IH) (simp add: kpush_def)
  finally show ?case by (simp add: algebra_simps)
qed

text \<open>Reading upwards from the stack pointer gives the pushed words in reverse.\<close>

lemma kpush_read:
  assumes "length vs < 2 ^ 30" "k < length vs"
  shows "snd (fold kpush vs (sp, mem)) (sp - 4 * word_of_nat (length vs) + 4 * word_of_nat k) = rev vs ! k"
  using assms
proof (induction vs arbitrary: k rule: rev_induct)
  case Nil
  then show ?case by simp
next
  case (snoc v vs)
  let ?n = "length vs"
  have push: "snd (fold kpush (vs @ [v]) (sp, mem)) =
      (snd (fold kpush vs (sp, mem)))(sp - 4 * word_of_nat (Suc ?n) := v)"
  proof -
    obtain m where "fold kpush vs (sp, mem) = (sp - 4 * word_of_nat ?n, m)"
      using fold_kpush [of vs sp mem] by blast
    moreover have "sp - 4 * word_of_nat ?n - 4 = sp - 4 * word_of_nat (Suc ?n)"
      by (simp add: algebra_simps)
    ultimately show ?thesis by (simp only: fold_append o_apply fold_simps kpush_def fst_conv snd_conv)
  qed
  show ?case
  proof (cases k)
    case 0
    then show ?thesis unfolding push by simp
  next
    case (Suc j)
    have "4 * word_of_nat k \<noteq> (0 :: u32)"
    proof -
      have "unat (4 * word_of_nat k :: u32) = 4 * k"
        using snoc.prems by (subst unat_mult_u32) (simp_all add: unat_of_nat_u32)
      then show ?thesis using Suc by auto
    qed
    then have ne: "sp - 4 * word_of_nat (Suc ?n) + 4 * word_of_nat k \<noteq> sp - 4 * word_of_nat (Suc ?n)"
      by (simp del: of_nat_Suc)
    have eq: "sp - 4 * word_of_nat (Suc ?n) + 4 * word_of_nat k = sp - 4 * word_of_nat ?n + 4 * word_of_nat j"
      by (simp add: Suc algebra_simps)
    have "snd (fold kpush (vs @ [v]) (sp, mem)) (sp - 4 * word_of_nat (Suc ?n) + 4 * word_of_nat k)
        = snd (fold kpush vs (sp, mem)) (sp - 4 * word_of_nat ?n + 4 * word_of_nat j)"
      unfolding push using ne eq by (simp only: fun_upd_apply if_False)
    also have "\<dots> = rev (vs @ [v]) ! k"
      using snoc.IH [of j] snoc.prems Suc by simp
    finally show ?thesis by (simp only: length_append_singleton)
  qed
qed

lemma sched_add_task_Some:
  assumes "sched_add_task entry user_esp s = (s', Some i)" "length (tasks s) = MAX_TASKS"
  shows "i = task_count s" "task_count s' = Suc i" "i < MAX_TASKS"
    "t_esp (tasks s' ! i) = kstack_end s i - 52" "t_state (tasks s' ! i) = TASK_READY"
    "t_esp0 (tasks s' ! i) = kstack_end s i"
    "k < 13 \<Longrightarrow> kstack_mem s' (t_esp (tasks s' ! i) + 4 * word_of_nat k) = rev (task_frame entry user_esp) ! k"
proof -
  let ?f = "fold kpush (task_frame entry user_esp) (kstack_end s (task_count s), kstack_mem s)"
  have len: "length (task_frame entry user_esp) = 13" by (simp add: task_frame_def)
  have F: "?f = (kstack_end s (task_count s) - 52, snd ?f)"
    by (subst fold_kpush) (simp add: len)
  have r: "k < 13 \<Longrightarrow> snd ?f (kstack_end s (task_count s) - 52 + 4 * word_of_nat k) = rev (task_frame entry user_esp) ! k"
    using kpush_read [of "task_frame entry user_esp" k] by (simp add: len)
  have s': "\<not> MAX_TASKS \<le> task_count s" "i = task_count s"
    "s' = s\<lparr>kstack_mem := snd ?f, tasks := (tasks s)[task_count s :=
       \<lparr>t_esp = kstack_end s (task_count s) - 52, t_esp0 = kstack_end s (task_count s), t_state = TASK_READY,
        t_id = word_of_nat (task_count s), t_entry = entry, t_user_esp = user_esp\<rparr>],
      task_count := Suc (task_count s)\<rparr>"
    using assms(1) F by (auto simp: sched_add_task_def Let_def split: if_splits prod.splits)
  with assms(2) r show "i = task_count s" "task_count s' = Suc i" "i < MAX_TASKS"
    "t_esp (tasks s' ! i) = kstack_end s i - 52" "t_state (tasks s' ! i) = TASK_READY"
    "t_esp0 (tasks s' ! i) = kstack_end s i"
    "k < 13 \<Longrightarrow> kstack_mem s' (t_esp (tasks s' ! i) + 4 * word_of_nat k) = rev (task_frame entry user_esp) ! k"
    by simp_all
qed

subsection \<open>The self test\<close>

lemma quantum_result:
  assumes "ticks_left s = QUANTUM_TICKS"
  shows "sched_tick e (tick_n (nat (QUANTUM_TICKS - 1)) e s) =
    (let s2 = save_esp e s in
     if sched_next s = cur_task s then (s2, e)
     else (switch_to (sched_next s) s2, t_esp (tasks (switch_to (sched_next s) s2) ! sched_next s)))"
proof -
  have "tick_n (nat (QUANTUM_TICKS - 1)) e s = save_esp e s\<lparr>ticks_left := 1\<rparr>"
    using assms by (subst tick_n_idle) (simp_all add: sched_consts)
  moreover have "save_esp e (save_esp e s\<lparr>ticks_left := 1\<rparr>)\<lparr>ticks_left := QUANTUM_TICKS\<rparr> = save_esp e s"
    using assms by (cases "cur_task s < length (tasks s)")
      (auto simp: save_esp_def list_update_beyond)
  ultimately show ?thesis by (simp add: sched_tick_expire Let_def)
qed

lemma sched_test_result:
  assumes "length (tasks s) = MAX_TASKS"
  shows "snd (sched_test s) = replicate 5 True"
    "tasks (fst (sched_test s)) = tasks s" "task_count (fst (sched_test s)) = task_count s"
    "cur_task (fst (sched_test s)) = cur_task s" "ticks_left (fst (sched_test s)) = ticks_left s"
proof -
  obtain w x y z where ts: "tasks s = [w, x, y, z]"
    using assms by (auto simp: MAX_TASKS_def length_Suc_conv numeral_eq_Suc)
  show "snd (sched_test s) = replicate 5 True"
    by (simp add: sched_test_def test_setup_def test_task_def quantum_result ts sched_next_def
        runnable_def Let_def save_esp_def switch_to_def task_set_state_def sched_add_task_def
        sched_kill_current_def MAX_TASKS_def upt_rec split: prod.split)
      (simp add: numeral_eq_Suc)
qed (simp_all add: sched_test_def Let_def split: prod.split)

subsection \<open>Properties\<close>

definition sched0 :: sched where
  "sched0 = \<lparr>tasks = replicate 4 (test_task 0 0 TASK_DEAD 0), task_count = 0, cur_task = 0, ticks_left = 20,
     kstacks = 0x400000, kstack_mem = (\<lambda>_. 0), sched_tss = tss_init \<lparr>prev_tss = 0, tss_esp0 = 0, ss0 = 0,
     tss_other = [], tss_trap = 0, iomap_base = 0\<rparr>\<rparr>"

definition sched_two :: sched where
  "sched_two = fst (sched_add_task 0x8048000 0xC0000000 (sched_init sched0))"

lemma sched_two_inv: "sched_inv sched_two"
  unfolding sched_two_def by (rule sched_inv_add, rule sched_inv_init) (simp add: sched0_def MAX_TASKS_def)

lemma sched_two_eval: "task_count sched_two = 2" "cur_task sched_two = 0" "ticks_left sched_two = 20"
  "runnable sched_two 1" "length (tasks sched_two) = 4"
  by (simp_all add: sched_two_def sched_init_def sched0_def sched_add_task_def sched_consts Let_def
      runnable_def split: prod.split)

text \<open>C19. The scheduler's invariant (the table has 4 slots, the current task is one of those in use,
  the quantum is between 1 and 20 ticks and no other task is marked running) holds after
  \<^verbatim>\<open>sched_init\<close> and is kept by every operation.\<close>
theorem sched_invariant:
  "(length (tasks s) = MAX_TASKS \<longrightarrow> sched_inv (sched_init s))
   \<and> (sched_inv s \<longrightarrow> sched_inv (fst (sched_tick e s)) \<and> sched_inv (fst (sched_add_task f u s))
        \<and> sched_inv (sched_kill_current s) \<and> sched_inv (sched_kill_task i s) \<and> sched_inv (sched_yield s))"
  by (simp add: sched_inv_init sched_inv_tick sched_inv_add sched_inv_kill_current sched_inv_kill_task
      sched_yield_def)

lemma sched_invariant_witness: "sched_inv (fst (sched_tick 0x9000 sched_two))"
  using sched_invariant [of sched_two "0x9000" 0 0 0] sched_two_inv by blast

text \<open>C11. No runnable task starves: under any timer activity a runnable task has the processor within
  \<open>turn_dist\<close> quanta of 20 ticks, at most 60 ticks with the four task slots.\<close>
theorem sched_no_starvation:
  assumes "sched_inv s" "j < task_count s" "runnable s j"
  shows "\<exists>n \<le> 60. cur_task (tick_n n e s) = j"
proof -
  have "turn_dist s j \<le> 3"
    using turn_dist_less [OF assms(1), of j] assms(1) by (simp add: sched_inv_def MAX_TASKS_def)
  from sched_no_starvation_aux [OF assms this] show ?thesis by simp
qed

lemma sched_no_starvation_witness: "\<exists>n \<le> 60. cur_task (tick_n n 0x9000 sched_two) = 1"
  using sched_no_starvation [OF sched_two_inv, of 1] sched_two_eval by simp

text \<open>One timer tick: within a quantum the current task goes on with its own stack; at
  the end of the quantum the nearest runnable task in cyclic order takes over, is marked running
  while the preempted one becomes ready, the kernel stack in the task state segment is the new
  task's, and the stack pointer returned is the one saved for it.\<close>
theorem sched_tick_spec:
  assumes "sched_inv s"
  shows "if 1 < ticks_left s \<or> sched_next s = cur_task s
    then snd (sched_tick e s) = e \<and> cur_task (fst (sched_tick e s)) = cur_task s
    else let s' = fst (sched_tick e s); n = sched_next s in
      cur_task s' = n \<and> t_state (tasks s' ! n) = TASK_RUNNING
      \<and> t_state (tasks s' ! cur_task s) = TASK_READY \<and> t_esp (tasks s' ! cur_task s) = e
      \<and> tss_esp0 (sched_tss s') = t_esp0 (tasks s ! n) \<and> snd (sched_tick e s) = t_esp (tasks s ! n)
      \<and> ticks_left s' = QUANTUM_TICKS"
proof (cases "1 < ticks_left s \<or> sched_next s = cur_task s")
  case True
  then show ?thesis
    by (cases "1 < ticks_left s") (simp_all add: sched_tick_idle sched_tick_expire Let_def not_less)
next
  case False
  have l: "sched_next s < length (tasks s)" "cur_task s < length (tasks s)"
    using sched_next_less [OF assms] assms by (auto simp: sched_inv_def)
  have ne: "sched_next s \<noteq> cur_task s" "cur_task s \<noteq> sched_next s" using False by auto
  from False show ?thesis
    using l ne by (simp add: sched_tick_expire Let_def not_less switch_to_def task_set_state_def
        save_esp_def tss_set_esp0_def)
qed

lemma sched_tick_spec_witness: "snd (sched_tick 0x9000 sched_two) = 0x9000"
  using sched_tick_spec [OF sched_two_inv, of "0x9000"] sched_two_eval by simp

text \<open>A task that \<^verbatim>\<open>sched_add_task\<close> accepts is ready in the next slot, with a kernel stack holding
  exactly the frame \<^verbatim>\<open>iret\<close> needs: from the saved stack pointer upwards eight zeroed registers, then
  the entry point with the user code segment, flags with interrupts on, the user stack and its segment.\<close>
theorem sched_add_task_frame:
  assumes "sched_add_task entry user_esp s = (s', Some i)" "length (tasks s) = MAX_TASKS" "k < 13"
  shows "i = task_count s \<and> i < MAX_TASKS \<and> task_count s' = Suc i \<and> t_state (tasks s' ! i) = TASK_READY
    \<and> t_esp0 (tasks s' ! i) = kstack_end s i
    \<and> kstack_mem s' (t_esp (tasks s' ! i) + 4 * word_of_nat k) =
       [0, 0, 0, 0, 0, 0, 0, 0, entry, 0x1B, 0x200, user_esp, 0x23] ! k"
  using sched_add_task_Some [OF assms(1,2)] assms(3) by (simp add: task_frame_def)

lemma sched_add_task_frame_witness:
  "\<exists>s'. sched_add_task 0x8048000 0xC0000000 (sched_init sched0) = (s', Some 1)
     \<and> kstack_mem s' (t_esp (tasks s' ! 1) + 32) = 0x8048000"
proof -
  have "snd (sched_add_task 0x8048000 0xC0000000 (sched_init sched0)) = Some 1"
    by (simp add: sched_init_def sched0_def sched_add_task_def sched_consts Let_def split: prod.split)
  then obtain s' where al: "sched_add_task 0x8048000 0xC0000000 (sched_init sched0) = (s', Some 1)"
    by (metis prod.collapse)
  from sched_add_task_frame [OF al, of 8] al show ?thesis
    by (simp add: sched_init_def sched0_def MAX_TASKS_def)
qed

text \<open>Killing the current task does not stop it: at the end of its quantum \<^verbatim>\<open>sched_tick\<close>
  marks the preempted task ready again without looking at its state, so a task killed by
  \<^verbatim>\<open>sched_kill_current\<close> is runnable again as soon as another task exists.\<close>
theorem sched_killed_task_revives:
  assumes "sched_inv s" "ticks_left s = 1" "sched_next s \<noteq> cur_task s"
  shows "t_state (tasks (sched_kill_current s) ! cur_task s) = TASK_DEAD
    \<and> runnable (fst (sched_tick e (sched_kill_current s))) (cur_task s)"
proof -
  let ?k = "sched_kill_current s"
  have I: "sched_inv ?k" by (rule sched_inv_kill_current [OF assms(1)])
  have c: "cur_task s < length (tasks s)" "cur_task s < task_count s"
    using assms(1) by (auto simp: sched_inv_def)
  have dead: "t_state (tasks ?k ! j) = (if j = cur_task s then TASK_DEAD else t_state (tasks s ! j))" for j
    using c by (simp add: sched_kill_current_def t_state_set_state)
  have "sched_next ?k \<noteq> cur_task s"
  proof (cases rule: sched_next_cases [of s])
    case (nearest d)
    have f: "cur_task ?k = cur_task s" "task_count ?k = task_count s" by (simp_all add: sched_kill_current_def)
    have r: "runnable ?k j = (j \<noteq> cur_task s \<and> runnable s j)" for j
      by (simp add: runnable_def dead)
    have "sched_next ?k = (cur_task ?k + d) mod task_count ?k"
      by (rule sched_next_Some) (use nearest assms(3) in \<open>auto simp: f r\<close>)
    with nearest(5) assms(3) f show ?thesis by simp
  next
    case idle
    with assms(3) show ?thesis by simp
  qed
  with t_state_tick [OF I, of "cur_task s" e] c(2) assms(2) dead show ?thesis
    by (auto simp: runnable_def sched_kill_current_def)
qed

lemma sched_killed_task_revives_witness:
  "runnable (fst (sched_tick 0x9000 (sched_kill_current (sched_two\<lparr>ticks_left := 1\<rparr>)))) 0"
proof -
  have I: "sched_inv (sched_two\<lparr>ticks_left := 1\<rparr>)" using sched_two_inv by (simp add: sched_inv_def QUANTUM_TICKS_def)
  have "sched_next (sched_two\<lparr>ticks_left := 1\<rparr>) = 1"
    using sched_next_Some [of 1 "sched_two\<lparr>ticks_left := 1\<rparr>"] sched_two_eval by (simp add: runnable_def)
  with sched_killed_task_revives [OF I, of "0x9000"] sched_two_eval show ?thesis by simp
qed

text \<open>The boot-time self test passes all five checks on every state and restores the task table
  and the counters it overwrites.\<close>
theorem sched_test_passes:
  assumes "length (tasks s) = MAX_TASKS"
  shows "snd (sched_test s) = replicate 5 True \<and> tasks (fst (sched_test s)) = tasks s
    \<and> task_count (fst (sched_test s)) = task_count s \<and> cur_task (fst (sched_test s)) = cur_task s
    \<and> ticks_left (fst (sched_test s)) = ticks_left s"
  using sched_test_result [OF assms] by blast

lemma sched_test_passes_witness: "snd (sched_test (sched_init sched0)) = replicate 5 True"
  using sched_test_passes [of "sched_init sched0"] by (simp add: sched_init_def sched0_def MAX_TASKS_def)

end
