(* ===== verification/Bytes.thy ===== *)
theory Bytes
  imports Prelude
begin

text \<open>
  Little-endian words in byte arrays, C strings as lists of non-zero bytes, and the slices
  of a buffer that the drivers copy in and out.
\<close>

definition le16 :: "u8 \<Rightarrow> u8 \<Rightarrow> u16" where
  "le16 a b = ucast a OR push_bit 8 (ucast b)"

definition le32 :: "u8 \<Rightarrow> u8 \<Rightarrow> u8 \<Rightarrow> u8 \<Rightarrow> u32" where
  "le32 a b c d = ucast a OR push_bit 8 (ucast b) OR push_bit 16 (ucast c) OR push_bit 24 (ucast d)"

definition bytes16 :: "u16 \<Rightarrow> u8 list" where
  "bytes16 w = [ucast w, ucast (drop_bit 8 w)]"

definition bytes32 :: "u32 \<Rightarrow> u8 list" where
  "bytes32 w = [ucast w, ucast (drop_bit 8 w), ucast (drop_bit 16 w), ucast (drop_bit 24 w)]"

text \<open>A 16-bit and a 32-bit number in memory.\<close>

definition get16 :: "(u32 \<Rightarrow> u8) \<Rightarrow> u32 \<Rightarrow> u16" where
  "get16 m a = le16 (m a) (m (a + 1))"

definition get32 :: "(u32 \<Rightarrow> u8) \<Rightarrow> u32 \<Rightarrow> u32" where
  "get32 m a = le32 (m a) (m (a + 1)) (m (a + 2)) (m (a + 3))"

lemma length_bytes [simp]: "length (bytes16 w) = 2" "length (bytes32 x) = 4"
  by (simp_all add: bytes16_def bytes32_def)

lemma le16_bytes [simp]: "le16 (ucast w) (ucast (drop_bit 8 w)) = w"
  by (rule bit_word_eqI) (auto simp: le16_def bit_simps)

lemma le32_bytes [simp]:
  "le32 (ucast w) (ucast (drop_bit 8 w)) (ucast (drop_bit 16 w)) (ucast (drop_bit 24 w)) = w"
proof (rule bit_word_eqI)
  fix n assume "n < LENGTH(32)"
  then consider "n < 8" | "8 \<le> n" "n < 16" | "16 \<le> n" "n < 24" | "24 \<le> n" "n < 32" by fastforce
  then show "bit (le32 (ucast w) (ucast (drop_bit 8 w)) (ucast (drop_bit 16 w)) (ucast (drop_bit 24 w))) n
      = bit w n"
    by cases (auto simp: le32_def bit_simps)
qed

lemma u8_bit_high: "8 \<le> n \<Longrightarrow> \<not> bit (a :: u8) n"
  using bit_imp_le_length [of a n] by auto

lemma bytes16_le [simp]: "bytes16 (le16 a b) = [a, b]"
  by (auto simp: bytes16_def le16_def bit_simps intro!: bit_word_eqI simp: u8_bit_high)

lemma bytes32_le [simp]: "bytes32 (le32 a b c d) = [a, b, c, d]"
  by (auto simp: bytes32_def le32_def bit_simps intro!: bit_word_eqI simp: u8_bit_high)

text \<open>\<open>splice i xs ys\<close>: \<open>ys\<close> with \<open>xs\<close> copied over it from index \<open>i\<close>.\<close>

definition splice :: "nat \<Rightarrow> 'a list \<Rightarrow> 'a list \<Rightarrow> 'a list" where
  "splice i xs ys = take i ys @ xs @ drop (i + length xs) ys"

definition slice :: "nat \<Rightarrow> nat \<Rightarrow> 'a list \<Rightarrow> 'a list" where
  "slice i n xs = take n (drop i xs)"

lemma length_splice [simp]: "i + length xs \<le> length ys \<Longrightarrow> length (splice i xs ys) = length ys"
  by (simp add: splice_def)

lemma drop_splice:
  assumes "i + length xs \<le> k" "i \<le> length ys"
  shows "drop k (splice i xs ys) = drop k ys"
proof -
  have "drop k (splice i xs ys) = drop (k - (i + length xs)) (drop (i + length xs) ys)"
    using assms by (simp add: splice_def)
  with assms(1) show ?thesis by simp
qed

lemma length_slice [simp]: "i + n \<le> length xs \<Longrightarrow> length (slice i n xs) = n"
  by (simp add: slice_def)

lemma slice_splice_same: "i + length xs \<le> length ys \<Longrightarrow> slice i (length xs) (splice i xs ys) = xs"
  by (simp add: slice_def splice_def)

lemma nth_splice:
  "i + length xs \<le> length ys \<Longrightarrow> k < length ys \<Longrightarrow>
   splice i xs ys ! k = (if i \<le> k \<and> k < i + length xs then xs ! (k - i) else ys ! k)"
  by (auto simp: splice_def nth_append)

lemma nth_slice: "k < n \<Longrightarrow> i + n \<le> length xs \<Longrightarrow> slice i n xs ! k = xs ! (i + k)"
  by (simp add: slice_def)

lemma slice_splice_other:
  assumes "i + length xs \<le> length ys" "j + n \<le> length ys" "j + n \<le> i \<or> i + length xs \<le> j"
  shows "slice j n (splice i xs ys) = slice j n ys"
  using assms by (intro nth_equalityI) (auto simp: nth_slice nth_splice)

end
