(* ===== verification/Fat_Disk.thy ===== *)
theory Fat_Disk
  imports Bytes
begin

text \<open>
  \<^verbatim>\<open>kernel/fs/fat12.cpp\<close>, first part: the driver's static variables, the shared sector
  buffer \<^verbatim>\<open>g_buf\<close> and sector access. \<^verbatim>\<open>ata_read\<close> and \<^verbatim>\<open>ata_write\<close> of one sector are seen
  through their effect: a read that fails leaves the buffer as it was, a write may fail
  before the device takes the data or at the flush after it. Which sectors fail is part
  of the state and does not change.
\<close>

record fat_fd =
  ff_used :: bool
  ff_first :: u16
  ff_size :: u32
  ff_pos :: u32
  ff_parent :: u16
  ff_idx :: nat

record fatfs =
  disk :: "u32 \<Rightarrow> u8 list"
  rd_ok :: "u32 \<Rightarrow> bool"
  wr_data :: "u32 \<Rightarrow> bool"
  wr_flush :: "u32 \<Rightarrow> bool"
  g_buf :: "u8 list"
  g_part_lba :: u32
  g_fat_lba :: u32
  g_root_lba :: u32
  g_data_lba :: u32
  g_root_entries :: u16
  g_sec_per_clus :: u16
  g_reserved_sec :: u16
  g_num_fats :: u8
  g_fat_size :: u16
  g_total_clusters :: u32
  g_fds :: "fat_fd list"

definition read_sector :: "u32 \<Rightarrow> fatfs \<Rightarrow> fatfs \<times> bool" where
  "read_sector lba s = (if rd_ok s lba then (s\<lparr>g_buf := disk s lba\<rparr>, True) else (s, False))"

definition write_sector :: "u32 \<Rightarrow> fatfs \<Rightarrow> fatfs \<times> bool" where
  "write_sector lba s =
     (if wr_data s lba then (s\<lparr>disk := (disk s)(lba := g_buf s)\<rparr>, wr_flush s lba) else (s, False))"

definition buf_set :: "nat \<Rightarrow> u8 \<Rightarrow> fatfs \<Rightarrow> fatfs" where
  "buf_set i b s = s\<lparr>g_buf := (g_buf s)[i := b]\<rparr>"

definition cluster_lba :: "fatfs \<Rightarrow> u16 \<Rightarrow> u32" where
  "cluster_lba s c = g_data_lba s + (ucast c - 2) * ucast (g_sec_per_clus s)"

definition cluster_size :: "fatfs \<Rightarrow> u32" where
  "cluster_size s = ucast (g_sec_per_clus s) * 512"

definition zero_cluster :: "u16 \<Rightarrow> fatfs \<Rightarrow> fatfs" where
  "zero_cluster c s =
     fold (\<lambda>k s. fst (write_sector (cluster_lba s c + word_of_nat k) s))
       [0..<unat (g_sec_per_clus s)] (s\<lparr>g_buf := replicate 512 0\<rparr>)"

subsection \<open>A working device\<close>

text \<open>
  Every read succeeds, every write stores its data and sectors have 512 bytes. The result of \<^verbatim>\<open>ata_write\<close> does not
  matter: no caller looks at it (and on a conforming drive it is false, see \<^verbatim>\<open>Ata\<close>).
\<close>

definition disk_ok :: "fatfs \<Rightarrow> bool" where
  "disk_ok s \<longleftrightarrow> (\<forall>lba. rd_ok s lba \<and> wr_data s lba \<and> length (disk s lba) = 512)
     \<and> length (g_buf s) = 512"

text \<open>\<open>reads s s'\<close>: only the sector buffer differs.\<close>

definition reads :: "fatfs \<Rightarrow> fatfs \<Rightarrow> bool" where
  "reads s s' \<longleftrightarrow> (\<exists>b. length b = 512 \<and> s' = s\<lparr>g_buf := b\<rparr>)"

lemma reads_refl: "disk_ok s \<Longrightarrow> reads s s"
  unfolding reads_def disk_ok_def by (intro exI [of _ "g_buf s"]) simp

lemma reads_trans: "reads s s' \<Longrightarrow> reads s' s'' \<Longrightarrow> reads s s''"
  by (auto simp: reads_def)

lemma reads_disk_ok: "reads s s' \<Longrightarrow> disk_ok s \<Longrightarrow> disk_ok s'"
  by (auto simp: reads_def disk_ok_def)

lemma reads_fields:
  assumes "reads s s'"
  shows "disk s' = disk s" "rd_ok s' = rd_ok s" "wr_data s' = wr_data s" "wr_flush s' = wr_flush s"
    "g_part_lba s' = g_part_lba s" "g_fat_lba s' = g_fat_lba s" "g_root_lba s' = g_root_lba s"
    "g_data_lba s' = g_data_lba s" "g_root_entries s' = g_root_entries s"
    "g_sec_per_clus s' = g_sec_per_clus s" "g_reserved_sec s' = g_reserved_sec s"
    "g_num_fats s' = g_num_fats s" "g_fat_size s' = g_fat_size s"
    "g_total_clusters s' = g_total_clusters s" "g_fds s' = g_fds s"
  using assms by (auto simp: reads_def)

lemma read_sector_ok:
  "disk_ok s \<Longrightarrow> read_sector lba s = (s\<lparr>g_buf := disk s lba\<rparr>, True)"
  by (simp add: read_sector_def disk_ok_def)

lemma read_sector_reads: "disk_ok s \<Longrightarrow> reads s (s\<lparr>g_buf := disk s lba\<rparr>)"
  by (auto simp: reads_def disk_ok_def)

lemma write_sector_ok:
  "disk_ok s \<Longrightarrow> fst (write_sector lba s) = s\<lparr>disk := (disk s)(lba := g_buf s)\<rparr>"
  by (simp add: write_sector_def disk_ok_def)

lemma disk_ok_buf: "disk_ok s \<Longrightarrow> length b = 512 \<Longrightarrow> disk_ok (s\<lparr>g_buf := b\<rparr>)"
  by (simp add: disk_ok_def)

lemma disk_ok_write: "disk_ok s \<Longrightarrow> length b = 512 \<Longrightarrow> disk_ok (s\<lparr>disk := (disk s)(lba := b)\<rparr>)"
  by (simp add: disk_ok_def)

lemma disk_ok_len: "disk_ok s \<Longrightarrow> length (disk s lba) = 512" "disk_ok s \<Longrightarrow> length (g_buf s) = 512"
  by (simp_all add: disk_ok_def)

subsection \<open>Clusters\<close>

text \<open>The bytes of cluster \<open>c\<close> on disk.\<close>

definition cluster_bytes :: "fatfs \<Rightarrow> u16 \<Rightarrow> u8 list" where
  "cluster_bytes s c = concat (map (\<lambda>k. disk s (cluster_lba s c + word_of_nat k)) [0..<unat (g_sec_per_clus s)])"

lemma cluster_lba_disk [simp]: "cluster_lba (s\<lparr>disk := d\<rparr>) c = cluster_lba s c"
  "cluster_lba (s\<lparr>g_buf := b\<rparr>) c = cluster_lba s c"
  by (simp_all add: cluster_lba_def)

lemma zero_cluster_fold:
  assumes "length b = 512" "disk_ok s" "g_buf s = b"
  shows "fold (\<lambda>k s. fst (write_sector (cluster_lba s c + word_of_nat k) s)) ks s
    = s\<lparr>disk := (\<lambda>l. if \<exists>k \<in> set ks. l = cluster_lba s c + word_of_nat k then b else disk s l)\<rparr>"
  using assms
proof (induction ks arbitrary: s)
  case Nil
  then show ?case by simp
next
  case (Cons k ks)
  let ?s = "s\<lparr>disk := (disk s)(cluster_lba s c + word_of_nat k := b)\<rparr>"
  have ok: "disk_ok ?s" using disk_ok_write [OF Cons.prems(2) Cons.prems(1)] .
  have "fold (\<lambda>k s. fst (write_sector (cluster_lba s c + word_of_nat k) s)) (k # ks) s
      = fold (\<lambda>k s. fst (write_sector (cluster_lba s c + word_of_nat k) s)) ks ?s"
    using Cons.prems by (simp add: write_sector_ok)
  also have "\<dots> = ?s\<lparr>disk := (\<lambda>l. if \<exists>k \<in> set ks. l = cluster_lba s c + word_of_nat k then b else disk ?s l)\<rparr>"
    using Cons.IH [OF Cons.prems(1) ok] Cons.prems(3) by simp
  finally show ?case by (auto simp: fun_eq_iff intro!: arg_cong [where f = "\<lambda>d. s\<lparr>disk := d\<rparr>"])
qed

lemma zero_cluster_disk:
  assumes "disk_ok s"
  shows "zero_cluster c s = s\<lparr>g_buf := replicate 512 0,
    disk := (\<lambda>l. if \<exists>k < unat (g_sec_per_clus s). l = cluster_lba s c + word_of_nat k then replicate 512 0
                 else disk s l)\<rparr>"
  unfolding zero_cluster_def
  by (subst zero_cluster_fold [of "replicate 512 0"]) (auto simp: disk_ok_buf [OF assms] Bex_def cong: if_cong)

lemma disk_ok_upd:
  assumes "disk_ok s" "length b = 512" "\<forall>l. length (d l) = 512"
  shows "disk_ok (s\<lparr>g_buf := b, disk := d\<rparr>)"
  using assms by (simp add: disk_ok_def)

lemma disk_ok_zero: "disk_ok s \<Longrightarrow> disk_ok (zero_cluster c s)"
  unfolding zero_cluster_disk by (rule disk_ok_upd) (auto simp: disk_ok_len)

lemma cluster_bytes_zero:
  assumes "disk_ok s"
  shows "cluster_bytes (zero_cluster c s) c = replicate (unat (g_sec_per_clus s) * 512) 0"
proof -
  have c: "concat (map (\<lambda>k. replicate 512 (0 :: u8)) [0..<n]) = replicate (n * 512) 0" for n
    by (induction n) (simp_all add: replicate_add [symmetric] add.commute)
  have "disk (zero_cluster c s) (cluster_lba s c + word_of_nat k) = replicate 512 0"
    if "k < unat (g_sec_per_clus s)" for k
    unfolding zero_cluster_disk [OF assms] using that by auto
  moreover have g: "g_sec_per_clus (zero_cluster c s) = g_sec_per_clus s"
    "cluster_lba (zero_cluster c s) c = cluster_lba s c"
    by (simp_all add: zero_cluster_disk [OF assms])
  ultimately have "cluster_bytes (zero_cluster c s) c = concat (map (\<lambda>k. replicate 512 0) [0..<unat (g_sec_per_clus s)])"
    using g unfolding cluster_bytes_def by (auto intro!: arg_cong [where f = concat])
  then show ?thesis by (simp only: c)
qed

end
