(* ===== verification/Fat_Table.thy ===== *)
theory Fat_Table
  imports Fat_Disk
begin

text \<open>
  \<^verbatim>\<open>kernel/fs/fat12.cpp\<close>, the file allocation table: 12-bit entries packed in pairs into
  three bytes, an entry possibly straddling two sectors, two copies of the table. On top of
  \<^verbatim>\<open>fat_get\<close> and \<^verbatim>\<open>fat_set\<close> the driver allocates clusters and frees chains; these loops
  are stated over the interface \<open>fat_table\<close>, which the packed table on disk implements.
\<close>

definition FAT12_FREE :: u16 where "FAT12_FREE = 0x000"
definition FAT12_EOC :: u16 where "FAT12_EOC = 0xFF8"
definition FAT12_BAD :: u16 where "FAT12_BAD = 0xFF7"

lemmas fat_consts = FAT12_FREE_def FAT12_EOC_def FAT12_BAD_def

subsection \<open>Loops over a table\<close>

text \<open>\<^verbatim>\<open>fat_alloc\<close>: the first free cluster of the list is marked as end of chain.\<close>

fun fat_scan :: "(u16 \<Rightarrow> 's \<Rightarrow> 's \<times> u16) \<Rightarrow> (u16 \<Rightarrow> u16 \<Rightarrow> 's \<Rightarrow> 's) \<Rightarrow> u16 list \<Rightarrow> 's \<Rightarrow> 's \<times> u16" where
  "fat_scan get put [] s = (s, 0)"
| "fat_scan get put (i # is) s =
     (let (s1, e) = get i s in
      if e = FAT12_FREE then (put i FAT12_EOC s1, i) else fat_scan get put is s1)"

text \<open>\<^verbatim>\<open>fat_free_chain\<close>; the loop has no bound of its own.\<close>

partial_function (option) free_chain ::
  "(u16 \<Rightarrow> 's \<Rightarrow> 's \<times> u16) \<Rightarrow> (u16 \<Rightarrow> u16 \<Rightarrow> 's \<Rightarrow> 's) \<Rightarrow> u16 \<Rightarrow> 's \<Rightarrow> 's option" where
  "free_chain get put c s =
     (if 2 \<le> c \<and> c < FAT12_BAD
      then let (s1, nxt) = get c s; s2 = put c FAT12_FREE s1 in
           if FAT12_EOC \<le> nxt then Some s2 else free_chain get put nxt s2
      else Some s)"

text \<open>
  \<open>fat_chain E c cs\<close>: following the entries \<open>E\<close> from \<open>c\<close> visits exactly \<open>cs\<close> and ends at an
  end-of-chain mark.
\<close>

fun fat_chain :: "(u16 \<Rightarrow> u16) \<Rightarrow> u16 \<Rightarrow> u16 list \<Rightarrow> bool" where
  "fat_chain E c [] \<longleftrightarrow> False"
| "fat_chain E c [x] \<longleftrightarrow> x = c \<and> 2 \<le> c \<and> c < FAT12_BAD \<and> FAT12_EOC \<le> E c"
| "fat_chain E c (x # y # xs) \<longleftrightarrow> x = c \<and> 2 \<le> c \<and> c < FAT12_BAD \<and> E c < FAT12_EOC \<and> fat_chain E (E c) (y # xs)"

locale fat_table =
  fixes inv :: "'s \<Rightarrow> bool"
    and entry :: "'s \<Rightarrow> u16 \<Rightarrow> u16"
    and get :: "u16 \<Rightarrow> 's \<Rightarrow> 's \<times> u16"
    and put :: "u16 \<Rightarrow> u16 \<Rightarrow> 's \<Rightarrow> 's"
    and valid :: "'s \<Rightarrow> u16 \<Rightarrow> bool"
  assumes get_entry: "inv s \<Longrightarrow> snd (get c s) = entry s c"
    and get_keeps: "inv s \<Longrightarrow> inv (fst (get c s)) \<and> entry (fst (get c s)) = entry s \<and> valid (fst (get c s)) = valid s"
    and put_entry: "inv s \<Longrightarrow> valid s c \<Longrightarrow> valid s d \<Longrightarrow>
          entry (put c v s) d = (if d = c then v AND 0xFFF else entry s d)"
    and put_keeps: "inv s \<Longrightarrow> valid s c \<Longrightarrow> inv (put c v s) \<and> valid (put c v s) = valid s"
    and entry_12: "inv s \<Longrightarrow> entry s c < 0x1000"
begin

lemma scan_spec:
  assumes "inv s" "\<forall>i \<in> set is. valid s i \<and> i \<noteq> 0"
  shows "(if snd (fat_scan get put is s) = 0
      then (\<forall>i \<in> set is. entry s i \<noteq> 0) \<and> entry (fst (fat_scan get put is s)) = entry s
      else snd (fat_scan get put is s) \<in> set is \<and> entry s (snd (fat_scan get put is s)) = 0
         \<and> (\<forall>d. valid s d \<longrightarrow> entry (fst (fat_scan get put is s)) d =
               (if d = snd (fat_scan get put is s) then 0xFF8 else entry s d)))
    \<and> inv (fst (fat_scan get put is s)) \<and> valid (fst (fat_scan get put is s)) = valid s"
  using assms
proof (induction "is" arbitrary: s)
  case Nil
  then show ?case by simp
next
  case (Cons i "is")
  obtain s1 e where g: "get i s = (s1, e)" by (cases "get i s")
  have s1: "inv s1" "entry s1 = entry s" "valid s1 = valid s" "e = entry s i"
    using get_entry [OF Cons.prems(1), of i] get_keeps [OF Cons.prems(1), of i] g by auto
  have v: "valid s1 i" "i \<noteq> 0" using Cons.prems(2) s1(3) by auto
  show ?case
  proof (cases "e = 0")
    case True
    then have "fat_scan get put (i # is) s = (put i FAT12_EOC s1, i)" by (simp add: g fat_consts)
    then show ?thesis
      using True v s1 put_entry [OF s1(1) v(1)] put_keeps [OF s1(1) v(1)] by (simp add: fat_consts)
  next
    case False
    then have eq: "fat_scan get put (i # is) s = fat_scan get put is s1" by (simp add: g fat_consts)
    have "\<forall>j \<in> set is. valid s1 j \<and> j \<noteq> 0" using Cons.prems(2) s1(3) by simp
    from Cons.IH [OF s1(1) this] show ?thesis
      unfolding eq s1(2,3) using False s1(4) by auto
  qed
qed

text \<open>
  Freeing always ends, cyclic or corrupted chains included: every round frees an entry that
  was in use, or reaches an entry already free and stops.
\<close>

definition in_use :: "'s \<Rightarrow> u16 set" where
  "in_use s = {c. 2 \<le> c \<and> c < FAT12_BAD \<and> entry s c \<noteq> 0}"

lemma free_step:
  assumes "inv s" "\<forall>c. 2 \<le> c \<and> c < FAT12_BAD \<longrightarrow> valid s c" "2 \<le> c" "c < FAT12_BAD"
  shows "inv (put c FAT12_FREE (fst (get c s)))"
    "valid (put c FAT12_FREE (fst (get c s))) = valid s"
    "in_use (put c FAT12_FREE (fst (get c s))) = in_use s - {c}"
    "valid s d \<Longrightarrow> entry (put c FAT12_FREE (fst (get c s))) d = (if d = c then 0 else entry s d)"
proof -
  let ?s1 = "fst (get c s)"
  have s1: "inv ?s1" "entry ?s1 = entry s" "valid ?s1 = valid s"
    using get_keeps [OF assms(1), of c] by auto
  have v: "valid ?s1 c" using assms(2-4) s1(3) by simp
  show "inv (put c FAT12_FREE ?s1)" "valid (put c FAT12_FREE ?s1) = valid s"
    using put_keeps [OF s1(1) v] s1(3) by auto
  show e: "valid s d \<Longrightarrow> entry (put c FAT12_FREE ?s1) d = (if d = c then 0 else entry s d)" for d
    using put_entry [OF s1(1) v] s1 by (simp add: fat_consts)
  show "in_use (put c FAT12_FREE ?s1) = in_use s - {c}"
    unfolding in_use_def using e assms(2) by (auto split: if_splits)
qed

lemma free_chain_total:
  assumes "inv s" "\<forall>c. 2 \<le> c \<and> c < FAT12_BAD \<longrightarrow> valid s c"
  shows "\<exists>s'. free_chain get put c s = Some s' \<and> inv s' \<and> valid s' = valid s \<and> in_use s' \<subseteq> in_use s"
  using assms
proof (induction "card (in_use s)" arbitrary: c s rule: less_induct)
  case less
  show ?case
  proof (cases "2 \<le> c \<and> c < FAT12_BAD")
    case False
    then show ?thesis using less.prems by (subst free_chain.simps) auto
  next
    case True
    let ?s2 = "put c FAT12_FREE (fst (get c s))" and ?n = "snd (get c s)"
    have t: "2 \<le> c" "c < FAT12_BAD" using True by auto
    note st = free_step [OF less.prems t]
    have step: "free_chain get put c s = (if FAT12_EOC \<le> ?n then Some ?s2 else free_chain get put ?n ?s2)"
      using True by (subst free_chain.simps) (simp add: Let_def split: prod.split)
    have v2: "\<forall>c. 2 \<le> c \<and> c < FAT12_BAD \<longrightarrow> valid ?s2 c" using less.prems(2) st(2) True by simp
    have n: "?n = entry s c" by (rule get_entry [OF less.prems(1)])
    show ?thesis
    proof (cases "FAT12_EOC \<le> ?n \<or> ?n = 0")
      case True': True
      have "free_chain get put ?n ?s2 = Some ?s2" if "?n = 0"
        using that by (subst free_chain.simps) simp
      with True' step have "free_chain get put c s = Some ?s2" by auto
      moreover have "in_use ?s2 \<subseteq> in_use s" unfolding st(3) by blast
      ultimately show ?thesis using st(1,2) by blast
    next
      case False
      then have "c \<in> in_use s" using t n by (simp add: in_use_def)
      then have "in_use ?s2 \<subset> in_use s" unfolding st(3) by blast
      then have "card (in_use ?s2) < card (in_use s)" by (intro psubset_card_mono finite)
      from less.hyps [OF this st(1) v2] obtain s' where
        s': "free_chain get put ?n ?s2 = Some s'" "inv s'" "valid s' = valid ?s2" "in_use s' \<subseteq> in_use ?s2" by blast
      have "in_use s' \<subseteq> in_use s" using s'(4) unfolding st(3) by blast
      moreover have "free_chain get put c s = Some s'" using step False s'(1) by simp
      moreover have "valid s' = valid s" using s'(3) st(2) by simp
      ultimately show ?thesis using s'(2) by blast
    qed
  qed
qed

lemma fat_chain_hd: "fat_chain E c cs \<Longrightarrow> cs \<noteq> [] \<and> hd cs = c \<and> 2 \<le> c \<and> c < FAT12_BAD"
  by (cases "(E, c, cs)" rule: fat_chain.cases) auto

lemma fat_chain_cong:
  "\<forall>x \<in> set cs. E x = F x \<Longrightarrow> fat_chain E c cs = fat_chain F c cs"
  by (induction E c cs rule: fat_chain.induct) auto

text \<open>A proper chain is freed cluster by cluster; the rest of the table stays.\<close>

lemma free_chain_spec:
  assumes "inv s" "\<forall>c. 2 \<le> c \<and> c < FAT12_BAD \<longrightarrow> valid s c" "fat_chain (entry s) c cs" "distinct cs"
  shows "\<exists>s'. free_chain get put c s = Some s' \<and> inv s' \<and> valid s' = valid s
    \<and> (\<forall>d. valid s d \<longrightarrow> entry s' d = (if d \<in> set cs then 0 else entry s d))"
  using assms
proof (induction cs arbitrary: c s)
  case Nil
  then show ?case by simp
next
  case (Cons x xs)
  let ?s2 = "put c FAT12_FREE (fst (get c s))" and ?n = "snd (get c s)"
  have c: "x = c" "2 \<le> c" "c < FAT12_BAD" using fat_chain_hd [OF Cons.prems(3)] by auto
  note st = free_step [OF Cons.prems(1,2) c(2,3)]
  have n: "?n = entry s c" by (rule get_entry [OF Cons.prems(1)])
  have step: "free_chain get put c s = (if FAT12_EOC \<le> ?n then Some ?s2 else free_chain get put ?n ?s2)"
    using c by (subst free_chain.simps) (simp add: Let_def split: prod.split)
  show ?case
  proof (cases xs)
    case Nil
    then have "FAT12_EOC \<le> ?n" using Cons.prems(3) n c by simp
    then show ?thesis using step st Nil c by auto
  next
    case (Cons y ys)
    then have ch: "\<not> FAT12_EOC \<le> ?n" "fat_chain (entry s) ?n xs" using Cons.prems(3) n c by (auto simp: not_le)
    have vx: "valid s z" if "z \<in> set xs" for z
    proof -
      have "\<forall>z \<in> set zs. 2 \<le> z \<and> z < FAT12_BAD" if "fat_chain E d zs" for E d zs
        using that by (induction E d zs rule: fat_chain.induct) auto
      from this [OF ch(2)] that Cons.prems(2) show ?thesis by blast
    qed
    have "fat_chain (entry ?s2) ?n xs"
      using ch(2) fat_chain_cong [of xs "entry ?s2" "entry s" ?n] st(4) vx Cons.prems(4) c by auto
    moreover have "\<forall>c. 2 \<le> c \<and> c < FAT12_BAD \<longrightarrow> valid ?s2 c" using Cons.prems(2) st(2) by simp
    moreover have "distinct xs" using Cons.prems(4) by simp
    ultimately obtain s' where s': "free_chain get put ?n ?s2 = Some s'" "inv s'" "valid s' = valid ?s2"
      "\<forall>d. valid ?s2 d \<longrightarrow> entry s' d = (if d \<in> set xs then 0 else entry ?s2 d)"
      using Cons.IH [OF st(1)] by blast
    show ?thesis
      using s' step ch(1) st c by (intro exI [of _ s']) auto
  qed
qed

end

end
