(* ===== verification/Fat_Packed.thy ===== *)
theory Fat_Packed
  imports Fat_Table
begin

text \<open>
  \<^verbatim>\<open>fat_get\<close>, \<^verbatim>\<open>fat_set\<close>, \<^verbatim>\<open>fat_alloc\<close> and \<^verbatim>\<open>fat_free_chain\<close> of \<^verbatim>\<open>fat12.cpp\<close>
  on the sectors of the disk, and the proof that the packed table, straddling entries
  and both copies included, implements the interface \<open>fat_table\<close>.
\<close>

subsection \<open>Packing\<close>

definition fat_unpack :: "u16 \<Rightarrow> u8 \<Rightarrow> u8 \<Rightarrow> u16" where
  "fat_unpack cluster lo hi =
     (if cluster AND 1 \<noteq> 0 then drop_bit 4 (ucast lo) OR push_bit 4 (ucast hi)
      else ucast lo OR push_bit 8 (ucast (hi AND 0x0F)))"

definition fat_pack_lo :: "u16 \<Rightarrow> u16 \<Rightarrow> u8 \<Rightarrow> u8" where
  "fat_pack_lo cluster val lo =
     (if cluster AND 1 \<noteq> 0 then (lo AND 0x0F) OR ucast (push_bit 4 val) else ucast (val AND 0xFF))"

definition fat_pack_hi :: "u16 \<Rightarrow> u16 \<Rightarrow> u8 \<Rightarrow> u8" where
  "fat_pack_hi cluster val hi =
     (if cluster AND 1 \<noteq> 0 then ucast (drop_bit 4 val)
      else (hi AND 0xF0) OR ucast (drop_bit 8 val AND 0x0F))"

definition fat_off :: "u16 \<Rightarrow> u32" where
  "fat_off cluster = ucast cluster * 3 div 2"

definition fat_get :: "u16 \<Rightarrow> fatfs \<Rightarrow> fatfs \<times> u16" where
  "fat_get cluster s =
     (let sec_off = fat_off cluster div 512; in_sec = unat (fat_off cluster mod 512);
          s1 = fst (read_sector (g_fat_lba s + sec_off) s) in
      if in_sec = 511
      then let lo = g_buf s1 ! 511;
               s2 = fst (read_sector (g_fat_lba s1 + sec_off + 1) s1);
               hi = g_buf s2 ! 0
           in (s2, fat_unpack cluster lo hi)
      else (s1, fat_unpack cluster (g_buf s1 ! in_sec) (g_buf s1 ! (in_sec + 1))))"

text \<open>The lambda of \<^verbatim>\<open>fat_set\<close>, which patches one copy of the table.\<close>

definition write_fat :: "u16 \<Rightarrow> u16 \<Rightarrow> u32 \<Rightarrow> fatfs \<Rightarrow> fatfs" where
  "write_fat cluster val fat_base s =
     (let sec_off = fat_off cluster div 512; in_sec = unat (fat_off cluster mod 512);
          s1 = fst (read_sector (fat_base + sec_off) s) in
      if in_sec = 511
      then let lo = g_buf s1 ! 511;
               s2 = fst (read_sector (fat_base + sec_off + 1) s1);
               hi = g_buf s2 ! 0;
               s3 = fst (read_sector (fat_base + sec_off) s2);
               s4 = fst (write_sector (fat_base + sec_off) (buf_set 511 (fat_pack_lo cluster val lo) s3));
               s5 = fst (read_sector (fat_base + sec_off + 1) s4)
           in fst (write_sector (fat_base + sec_off + 1) (buf_set 0 (fat_pack_hi cluster val hi) s5))
      else let s2 = buf_set in_sec (fat_pack_lo cluster val (g_buf s1 ! in_sec)) s1;
               s3 = buf_set (in_sec + 1) (fat_pack_hi cluster val (g_buf s2 ! (in_sec + 1))) s2
           in fst (write_sector (fat_base + sec_off) s3))"

definition fat_set :: "u16 \<Rightarrow> u16 \<Rightarrow> fatfs \<Rightarrow> fatfs" where
  "fat_set cluster val s =
     (let s1 = write_fat cluster val (g_fat_lba s) s in
      if 1 < g_num_fats s1 then write_fat cluster val (g_fat_lba s1 + ucast (g_fat_size s1)) s1 else s1)"

definition fat_alloc :: "fatfs \<Rightarrow> fatfs \<times> u16" where
  "fat_alloc s = fat_scan fat_get fat_set (map word_of_nat [2..<unat (g_total_clusters s + 2)]) s"

definition fat_free_chain :: "u16 \<Rightarrow> fatfs \<Rightarrow> fatfs option" where
  "fat_free_chain cluster s = free_chain fat_get fat_set cluster s"

subsection \<open>Packing and unpacking\<close>

lemma nibble_masks: "(0x0F :: u8) = mask 4" "(0xF0 :: u8) = push_bit 4 (mask 4)" "(0xFF :: u16) = mask 8"
  "(0xFFF :: u16) = mask 12" "(0x0F :: u16) = mask 4"
  by (simp_all add: mask_eq_exp_minus_1)

lemma word16_eqI:
  fixes x y :: u16
  assumes "\<And>n. n < 4 \<Longrightarrow> bit x n = bit y n" "\<And>n. 4 \<le> n \<Longrightarrow> n < 8 \<Longrightarrow> bit x n = bit y n"
    "\<And>n. 8 \<le> n \<Longrightarrow> n < 12 \<Longrightarrow> bit x n = bit y n" "\<And>n. 12 \<le> n \<Longrightarrow> n < 16 \<Longrightarrow> bit x n = bit y n"
  shows "x = y"
proof (rule bit_word_eqI)
  fix n assume "n < LENGTH(16)"
  then consider "n < 4" | "4 \<le> n" "n < 8" | "8 \<le> n" "n < 12" | "12 \<le> n" "n < 16" by fastforce
  then show "bit x n = bit y n" using assms by cases auto
qed

lemma unpack_pack: "fat_unpack c (fat_pack_lo c v a) (fat_pack_hi c v b) = v AND 0xFFF"
  by (rule word16_eqI)
     (auto simp: fat_unpack_def fat_pack_lo_def fat_pack_hi_def nibble_masks bit_simps u8_bit_high)

text \<open>The two entries that share a byte do not disturb each other.\<close>

lemma unpack_other_even:
  "c AND 1 \<noteq> 0 \<Longrightarrow> d AND 1 = 0 \<Longrightarrow> fat_unpack d a (fat_pack_lo c v b) = fat_unpack d a b"
  by (rule word16_eqI) (auto simp: fat_unpack_def fat_pack_lo_def nibble_masks bit_simps u8_bit_high)

lemma unpack_other_odd:
  "c AND 1 = 0 \<Longrightarrow> d AND 1 \<noteq> 0 \<Longrightarrow> fat_unpack d (fat_pack_hi c v a) b = fat_unpack d a b"
  by (rule word16_eqI) (auto simp: fat_unpack_def fat_pack_hi_def nibble_masks bit_simps u8_bit_high)

lemma unpack_12: "fat_unpack c a b < 0x1000"
proof -
  have "fat_unpack c a b = take_bit 12 (fat_unpack c a b)"
    by (auto simp: fat_unpack_def nibble_masks bit_simps u8_bit_high intro!: bit_word_eqI)
  then have "unat (fat_unpack c a b) = take_bit 12 (unat (fat_unpack c a b))"
    by (metis unsigned_take_bit_eq)
  then have "unat (fat_unpack c a b) < 4096"
    using take_bit_nat_less_exp [of 12 "unat (fat_unpack c a b)"] by simp
  then show ?thesis by (simp add: word_less_nat_alt)
qed

subsection \<open>The table as an array of bytes\<close>

definition sec_byte :: "fatfs \<Rightarrow> u32 \<Rightarrow> nat \<Rightarrow> u8" where
  "sec_byte s base k = disk s (base + word_of_nat (k div 512)) ! (k mod 512)"

definition fat_entry :: "fatfs \<Rightarrow> u32 \<Rightarrow> u16 \<Rightarrow> u16" where
  "fat_entry s base c =
     fat_unpack c (sec_byte s base (unat (fat_off c))) (sec_byte s base (unat (fat_off c) + 1))"

lemma unat_fat_off: "unat (fat_off c) = unat c * 3 div 2"
proof -
  have u: "unat (ucast c :: u32) = unat c"
  proof -
    have "unat c < 2 ^ 32" by (rule less_trans [OF unat_u16_less]) simp
    then show ?thesis by (simp add: unsigned_ucast_eq take_bit_nat_eq_self)
  qed
  have "unat (ucast c * 3 :: u32) = unat c * 3"
  proof -
    from unat_u16_less [of c] have "unat c * 3 < 4294967296" by linarith
    then have "unat (ucast c :: u32) * unat (3 :: u32) < 4294967296" by (simp only: u unat_numeral) simp
    then show ?thesis by (subst unat_mult_u32) (simp_all add: u)
  qed
  then show ?thesis by (simp add: fat_off_def unat_div)
qed

lemma odd_word: "(c AND 1 \<noteq> 0) = odd (unat (c :: u16))"
  by (simp add: and_one_eq odd_iff_mod_2_eq_one unat_mod word_unat_eq_iff)

definition fat_sec :: "u32 \<Rightarrow> nat \<Rightarrow> u32" where
  "fat_sec base k = base + word_of_nat (k div 512)"

lemma fat_sec_eq_iff:
  "k < 2199023255552 \<Longrightarrow> j < 2199023255552 \<Longrightarrow> fat_sec base k = fat_sec base j \<longleftrightarrow> k div 512 = j div 512"
  by (simp add: fat_sec_def of_nat_eq_u32_iff unat_of_nat_u32)

lemma fat_sec_off:
  "base + fat_off c div 512 = fat_sec base (unat (fat_off c))"
  "unat (fat_off c mod 512) = unat (fat_off c) mod 512"
proof -
  have "word_of_nat (unat (fat_off c) div 512) = fat_off c div 512"
    by (simp add: word_unat_eq_iff unat_div unat_of_nat_u32 less_imp_diff_less div_less_dividend
        order_le_less_trans [OF div_le_dividend])
  then show "base + fat_off c div 512 = fat_sec base (unat (fat_off c))" by (simp add: fat_sec_def)
qed (simp add: unat_mod)

lemma fat_sec_next:
  assumes "k mod 512 = 511"
  shows "fat_sec base k + 1 = fat_sec base (k + 1)" "(k + 1) mod 512 = 0" "(k + 1) div 512 = k div 512 + 1"
proof -
  have "k = k div 512 * 512 + 511" using assms by (metis div_mult_mod_eq)
  then obtain q where q: "k = q * 512 + 511" by blast
  then show "(k + 1) mod 512 = 0" "(k + 1) div 512 = k div 512 + 1" by simp_all
  then show "fat_sec base k + 1 = fat_sec base (k + 1)" by (simp add: fat_sec_def)
qed

lemma fat_sec_same:
  assumes "k mod 512 \<noteq> 511"
  shows "fat_sec base (k + 1) = fat_sec base k" "(k + 1) mod 512 = k mod 512 + 1" "(k + 1) div 512 = k div 512"
proof -
  have "k mod 512 < 511" using assms mod_less_divisor [of 512 k] by linarith
  then show m: "(k + 1) mod 512 = k mod 512 + 1" by (simp add: mod_Suc)
  show "(k + 1) div 512 = k div 512" using assms by (simp add: div_Suc mod_Suc)
  then show "fat_sec base (k + 1) = fat_sec base k" by (simp add: fat_sec_def)
qed

lemma sec_byte_sec: "sec_byte s base k = disk s (fat_sec base k) ! (k mod 512)"
  by (simp add: sec_byte_def fat_sec_def)

subsection \<open>fat\_get and fat\_set on the bytes\<close>

lemma fat_get_spec:
  assumes "disk_ok s"
  shows "snd (fat_get c s) = fat_entry s (g_fat_lba s) c" "reads s (fst (fat_get c s))"
proof -
  let ?k = "unat (fat_off c)" and ?base = "g_fat_lba s"
  have "snd (fat_get c s) = fat_entry s ?base c \<and> reads s (fst (fat_get c s))"
  proof (cases "?k mod 512 = 511")
    case True
    note nx = fat_sec_next [OF True]
    have ok: "disk_ok (s\<lparr>g_buf := disk s (fat_sec ?base ?k)\<rparr>)"
      using assms by (simp add: disk_ok_buf disk_ok_len)
    show ?thesis
      using True nx read_sector_reads [OF assms]
      by (simp add: fat_get_def Let_def fat_sec_off read_sector_ok [OF assms] read_sector_ok [OF ok]
          fat_entry_def sec_byte_sec)
  next
    case False
    note sm = fat_sec_same [OF False]
    show ?thesis
      using False sm read_sector_reads [OF assms]
      by (simp add: fat_get_def Let_def fat_sec_off read_sector_ok [OF assms] fat_entry_def sec_byte_sec)
  qed
  then show "snd (fat_get c s) = fat_entry s (g_fat_lba s) c" "reads s (fst (fat_get c s))" by simp_all
qed

lemma fat_off_bound: "unat (fat_off c) + 1 < 2199023255552"
proof -
  have "unat (fat_off c) < 4294967296" by (rule unat_u32_less)
  then show ?thesis by linarith
qed

text \<open>The disk after one copy of the table is patched, in both cases of the code.\<close>

definition patched :: "u16 \<Rightarrow> u16 \<Rightarrow> u32 \<Rightarrow> fatfs \<Rightarrow> u32 \<Rightarrow> u8 list" where
  "patched c v base s =
     (let k = unat (fat_off c); A = fat_sec base k; B = fat_sec base (Suc k);
          lo = fat_pack_lo c v (sec_byte s base k); hi = fat_pack_hi c v (sec_byte s base (Suc k)) in
      if k mod 512 = 511 then (disk s)(A := (disk s A)[511 := lo], B := (disk s B)[0 := hi])
      else (disk s)(A := (disk s A)[k mod 512 := lo, Suc (k mod 512) := hi]))"

lemma write_fat_patched:
  assumes "disk_ok s"
  shows "\<exists>b. write_fat c v base s = s\<lparr>g_buf := b, disk := patched c v base s\<rparr> \<and> length b = 512"
proof -
  let ?k = "unat (fat_off c)"
  let ?A = "fat_sec base ?k" and ?B = "fat_sec base (Suc ?k)"
  note D = assms [unfolded disk_ok_def]
  have e: "base + fat_off c div 512 = ?A" "unat (fat_off c mod 512) = ?k mod 512"
    by (rule fat_sec_off)+
  show ?thesis
  proof (cases "?k mod 512 = 511")
    case True
    note nx = fat_sec_next [OF True, unfolded Suc_eq_plus1 [symmetric]]
    have ne: "?A \<noteq> ?B"
      using fat_sec_eq_iff [of ?k "Suc ?k" base] fat_off_bound [of c] nx(3) by simp
    have b: "sec_byte s base ?k = disk s ?A ! 511" "sec_byte s base (Suc ?k) = disk s ?B ! 0"
      using True nx(2) by (simp_all add: sec_byte_sec)
    have "write_fat c v base s
      = s\<lparr>g_buf := (disk s ?B)[0 := fat_pack_hi c v (disk s ?B ! 0)], disk := patched c v base s\<rparr>"
      using ne D True by (simp add: write_fat_def patched_def Let_def e nx(1) b read_sector_def
          write_sector_def buf_set_def)
    moreover have "length ((disk s ?B)[0 := fat_pack_hi c v (disk s ?B ! 0)]) = 512" using D by simp
    ultimately show ?thesis by (intro exI conjI)
  next
    case False
    note sm = fat_sec_same [OF False, unfolded Suc_eq_plus1 [symmetric]]
    have b: "sec_byte s base ?k = disk s ?A ! (?k mod 512)"
      "sec_byte s base (Suc ?k) = disk s ?A ! Suc (?k mod 512)"
      using sm by (simp_all add: sec_byte_sec)
    have "write_fat c v base s = s\<lparr>g_buf := patched c v base s ?A, disk := patched c v base s\<rparr>"
      using D False by (simp add: write_fat_def patched_def Let_def e b read_sector_def
          write_sector_def buf_set_def)
    moreover have "length (patched c v base s ?A) = 512" using D False by (simp add: patched_def Let_def)
    ultimately show ?thesis by (intro exI conjI)
  qed
qed

lemma patched_length: "disk_ok s \<Longrightarrow> length (patched c v base s l) = 512"
  by (simp add: patched_def Let_def disk_ok_def)

lemma patched_outside:
  "l \<noteq> fat_sec base (unat (fat_off c)) \<Longrightarrow> l \<noteq> fat_sec base (Suc (unat (fat_off c))) \<Longrightarrow>
   patched c v base s l = disk s l"
  by (simp add: patched_def Let_def)

lemma nth_upd2:
  "Suc a < length xs \<Longrightarrow>
   xs[a := x, Suc a := y] ! b = (if b = Suc a then y else if b = a then x else xs ! b)"
  by (auto simp: nth_list_update)

lemma patched_byte:
  fixes c :: u16
  assumes D: "disk_ok s" and j: "j < 2199023255552"
  defines "k \<equiv> unat (fat_off c)"
  shows "patched c v base s (fat_sec base j) ! (j mod 512) =
    (if j = k then fat_pack_lo c v (sec_byte s base k)
     else if j = Suc k then fat_pack_hi c v (sec_byte s base (Suc k)) else sec_byte s base j)"
proof -
  let ?A = "fat_sec base k" and ?B = "fat_sec base (Suc k)"
  have kb: "k < 2199023255552" "Suc k < 2199023255552" using fat_off_bound [of c] by (simp_all add: k_def)
  have A: "fat_sec base j = ?A \<longleftrightarrow> j div 512 = k div 512" by (rule fat_sec_eq_iff [OF j kb(1)])
  have B: "fat_sec base j = ?B \<longleftrightarrow> j div 512 = Suc k div 512" by (rule fat_sec_eq_iff [OF j kb(2)])
  have jk: "j div 512 = k div 512 \<and> j mod 512 = k mod 512 \<longleftrightarrow> j = k" by (metis div_mult_mod_eq)
  have jk1: "j div 512 = Suc k div 512 \<and> j mod 512 = Suc k mod 512 \<longleftrightarrow> j = Suc k" by (metis div_mult_mod_eq)
  have len: "length (disk s l) = 512" "j mod 512 < 512" for l using D by (simp_all add: disk_ok_def)
  show ?thesis
  proof (cases "k mod 512 = 511")
    case True
    note nx = fat_sec_next [OF True, unfolded Suc_eq_plus1 [symmetric]]
    have ne: "?A \<noteq> ?B" using fat_sec_eq_iff [OF kb, of base] nx(3) by simp
    have P: "patched c v base s = (disk s)(?A := (disk s ?A)[511 := fat_pack_lo c v (sec_byte s base k)],
        ?B := (disk s ?B)[0 := fat_pack_hi c v (sec_byte s base (Suc k))])"
      using True by (simp add: patched_def Let_def k_def)
    consider "fat_sec base j = ?A" | "fat_sec base j = ?B" | "fat_sec base j \<noteq> ?A" "fat_sec base j \<noteq> ?B" by blast
    then show ?thesis
    proof cases
      case 1
      then have "j \<noteq> Suc k" "j mod 512 = 511 \<longleftrightarrow> j = k" using A B ne jk True by auto
      with 1 ne len show ?thesis unfolding P by (simp add: nth_list_update sec_byte_sec)
    next
      case 2
      then have "j \<noteq> k" "j mod 512 = 0 \<longleftrightarrow> j = Suc k" using A B ne jk1 nx(2) by auto
      with 2 len show ?thesis unfolding P by (simp add: nth_list_update sec_byte_sec)
    next
      case 3
      then have "j \<noteq> k" "j \<noteq> Suc k" by auto
      with 3 show ?thesis unfolding P by (simp add: sec_byte_sec)
    qed
  next
    case False
    note sm = fat_sec_same [OF False, unfolded Suc_eq_plus1 [symmetric]]
    have P: "patched c v base s = (disk s)(?A := (disk s ?A)[k mod 512 := fat_pack_lo c v (sec_byte s base k),
        Suc (k mod 512) := fat_pack_hi c v (sec_byte s base (Suc k))])"
      using False by (simp add: patched_def Let_def k_def)
    show ?thesis
    proof (cases "fat_sec base j = ?A")
      case True
      then have jj: "(j mod 512 = k mod 512) = (j = k)" "(j mod 512 = Suc (k mod 512)) = (j = Suc k)"
        using A jk jk1 sm by auto
      have m: "Suc (k mod 512) < length (disk s ?A)"
        using \<open>k mod 512 \<noteq> 511\<close> mod_less_divisor [of 512 k] len(1) [of ?A] by linarith
      show ?thesis
        unfolding P True fun_upd_same nth_upd2 [OF m] jj
        by (auto simp: sec_byte_sec True)
    next
      case False
      then have "j \<noteq> k" "j \<noteq> Suc k" using sm(1) by auto
      with False show ?thesis unfolding P by (simp add: sec_byte_sec)
    qed
  qed
qed

subsection \<open>Entries after a write\<close>

lemma fat_off_neighbours:
  assumes "c \<noteq> d"
  shows "unat (fat_off d) \<noteq> unat (fat_off c)"
    "unat (fat_off d) = Suc (unat (fat_off c)) \<Longrightarrow> c AND 1 = 0 \<and> d AND 1 \<noteq> 0"
    "Suc (unat (fat_off d)) = unat (fat_off c) \<Longrightarrow> c AND 1 \<noteq> 0 \<and> d AND 1 = 0"
proof -
  have ne: "unat c \<noteq> unat d" using assms by (simp add: word_unat_eq_iff)
  define m p n q where d: "m = unat c div 2" "p = unat c mod 2" "n = unat d div 2" "q = unat d mod 2"
  have cd: "unat c = 2 * m + p" "unat d = 2 * n + q" "p < 2" "q < 2" unfolding d by simp_all
  have "(2 * m + p) * 3 div 2 = 3 * m + p" if "p < 2" for m p :: nat using that by (cases p) auto
  then have off: "unat (fat_off c) = 3 * m + p" "unat (fat_off d) = 3 * n + q"
    using cd by (simp_all add: unat_fat_off)
  have odd: "(c AND 1 \<noteq> 0) = (p = 1)" "(d AND 1 \<noteq> 0) = (q = 1)"
  proof -
    have "odd x \<longleftrightarrow> x = 1" if "x < 2" for x :: nat using that by (auto simp: less_2_cases_iff)
    then show "(c AND 1 \<noteq> 0) = (p = 1)" "(d AND 1 \<noteq> 0) = (q = 1)"
      using cd by (simp_all add: odd_word)
  qed
  show "unat (fat_off d) \<noteq> unat (fat_off c)" using ne cd unfolding off by linarith
  show "unat (fat_off d) = Suc (unat (fat_off c)) \<Longrightarrow> c AND 1 = 0 \<and> d AND 1 \<noteq> 0"
  proof -
    assume "unat (fat_off d) = Suc (unat (fat_off c))"
    then have "p = 0 \<and> q = 1" using cd(3,4) unfolding off by presburger
    with odd show ?thesis by auto
  qed
  show "Suc (unat (fat_off d)) = unat (fat_off c) \<Longrightarrow> c AND 1 \<noteq> 0 \<and> d AND 1 = 0"
  proof -
    assume "Suc (unat (fat_off d)) = unat (fat_off c)"
    then have "p = 1 \<and> q = 0" using cd(3,4) unfolding off by presburger
    with odd show ?thesis by auto
  qed
qed

lemma entry_patched:
  assumes D: "disk_ok s"
  shows "fat_entry (s\<lparr>g_buf := b, disk := patched c v base s\<rparr>) base d =
    (if d = c then v AND 0xFFF else fat_entry s base d)"
proof -
  let ?s = "s\<lparr>g_buf := b, disk := patched c v base s\<rparr>"
  let ?k = "unat (fat_off c)" and ?j = "unat (fat_off d)"
  have B: "sec_byte ?s base j = (if j = ?k then fat_pack_lo c v (sec_byte s base ?k)
     else if j = Suc ?k then fat_pack_hi c v (sec_byte s base (Suc ?k)) else sec_byte s base j)"
    if "j < 2199023255552" for j
    using patched_byte [OF D that, of c v base] by (simp add: sec_byte_sec)
  have jb: "?j < 2199023255552" "Suc ?j < 2199023255552" using fat_off_bound [of d] by simp_all
  note E = fat_entry_def Suc_eq_plus1 [symmetric]
  show ?thesis
  proof (cases "d = c")
    case True
    then show ?thesis using B jb by (simp add: E unpack_pack)
  next
    case False
    then have ne: "c \<noteq> d" by simp
    note nb = fat_off_neighbours [OF ne]
    consider "?j = Suc ?k" | "Suc ?j = ?k" | "?j \<noteq> Suc ?k" "Suc ?j \<noteq> ?k" by blast
    then show ?thesis
    proof cases
      case 1
      then show ?thesis using nb(2) [OF 1] B [OF jb(1)] B [OF jb(2)] False
        by (simp add: E unpack_other_odd)
    next
      case 2
      then have "?j \<noteq> ?k" "?j \<noteq> Suc ?k" by simp_all
      then have "sec_byte ?s base ?j = sec_byte s base ?j"
        "sec_byte ?s base (Suc ?j) = fat_pack_lo c v (sec_byte s base (Suc ?j))"
        using B [OF jb(1)] B [OF jb(2)] 2 by simp_all
      then show ?thesis using nb(3) [OF 2] False by (simp add: E unpack_other_even)
    next
      case 3
      then show ?thesis using nb(1) B [OF jb(1)] B [OF jb(2)] False by (simp add: E)
    qed
  qed
qed

text \<open>An entry lies in the table when its last byte does.\<close>

definition in_fat :: "fatfs \<Rightarrow> u16 \<Rightarrow> bool" where
  "in_fat s c \<longleftrightarrow> (unat (fat_off c) + 1) div 512 < unat (g_fat_size s)"

definition fat2_lba :: "fatfs \<Rightarrow> u32" where
  "fat2_lba s = g_fat_lba s + ucast (g_fat_size s)"

lemma fat_sec_copies:
  assumes "k div 512 < unat (g_fat_size s)" "j div 512 < unat (g_fat_size s)"
  shows "fat_sec (fat2_lba s) k \<noteq> fat_sec (g_fat_lba s) j"
proof
  assume e: "fat_sec (fat2_lba s) k = fat_sec (g_fat_lba s) j"
  have n: "unat (g_fat_size s) < 65536" by (rule unat_u16_less)
  have u: "(ucast (g_fat_size s) :: u32) = word_of_nat (unat (g_fat_size s))" by (simp add: of_nat_unat)
  from e have "ucast (g_fat_size s) + word_of_nat (k div 512) = (word_of_nat (j div 512) :: u32)"
    unfolding fat_sec_def fat2_lba_def add.assoc by (rule add_left_imp_eq)
  then have "(word_of_nat (unat (g_fat_size s) + k div 512) :: u32) = word_of_nat (j div 512)"
    unfolding u by (simp only: of_nat_add)
  then have w: "unat (word_of_nat (unat (g_fat_size s) + k div 512) :: u32) = unat (word_of_nat (j div 512) :: u32)"
    by (simp only:)
  have "unat (g_fat_size s) + k div 512 < 4294967296" "j div 512 < 4294967296" using assms n by linarith+
  from w [unfolded unat_of_nat_u32 [OF this(1)] unat_of_nat_u32 [OF this(2)]]
  have "unat (g_fat_size s) + k div 512 = j div 512" .
  with assms show False by linarith
qed

lemma entry_patched_copy:
  assumes D: "disk_ok s" and v: "in_fat s c" "in_fat s d"
    and b: "base = g_fat_lba s \<and> base' = fat2_lba s \<or> base = fat2_lba s \<and> base' = g_fat_lba s"
  shows "fat_entry (s\<lparr>g_buf := buf, disk := patched c v' base s\<rparr>) base' d = fat_entry s base' d"
proof -
  have lt: "unat (fat_off x) div 512 < unat (g_fat_size s)" "Suc (unat (fat_off x)) div 512 < unat (g_fat_size s)"
    if "in_fat s x" for x
    using that div_le_mono [of "unat (fat_off x)" "unat (fat_off x) + 1" 512] by (simp_all add: in_fat_def)
  have "fat_sec base' j \<noteq> fat_sec base k"
    if "j div 512 < unat (g_fat_size s)" "k div 512 < unat (g_fat_size s)" for j k
    using fat_sec_copies [OF that] fat_sec_copies [OF that(2,1)] b by metis
  then have "patched c v' base s (fat_sec base' j) = disk s (fat_sec base' j)"
    if "j div 512 < unat (g_fat_size s)" for j
    using that lt [OF v(1)] by (intro patched_outside) simp_all
  with lt [OF v(2)] show ?thesis
    by (simp add: fat_entry_def sec_byte_sec Suc_eq_plus1 [symmetric])
qed

text \<open>\<^verbatim>\<open>fat_set\<close> in one equation: the first copy patched, then the second.\<close>

lemma fat_set_eq:
  assumes "disk_ok s"
  shows "\<exists>b1 b2. length b1 = 512 \<and> length b2 = 512 \<and> fat_set c v s =
    (let s1 = s\<lparr>g_buf := b1, disk := patched c v (g_fat_lba s) s\<rparr> in
     if 1 < g_num_fats s then s1\<lparr>g_buf := b2, disk := patched c v (fat2_lba s) s1\<rparr> else s1)"
proof -
  obtain b1 where b1: "write_fat c v (g_fat_lba s) s = s\<lparr>g_buf := b1, disk := patched c v (g_fat_lba s) s\<rparr>"
    "length b1 = 512" using write_fat_patched [OF assms] by blast
  let ?s1 = "s\<lparr>g_buf := b1, disk := patched c v (g_fat_lba s) s\<rparr>"
  have D1: "disk_ok ?s1" using assms b1(2) by (intro disk_ok_upd) (simp_all add: patched_length)
  obtain b2 where b2: "write_fat c v (fat2_lba s) ?s1 = ?s1\<lparr>g_buf := b2, disk := patched c v (fat2_lba s) ?s1\<rparr>"
    "length b2 = 512" using write_fat_patched [OF D1] by blast
  have "fat_set c v s = (if 1 < g_num_fats s then write_fat c v (fat2_lba s) ?s1 else ?s1)"
    by (simp add: fat_set_def Let_def b1(1) fat2_lba_def)
  then show ?thesis unfolding b2(1) Let_def using b1(2) b2(2) by blast
qed

lemma fat_set_spec:
  assumes D: "disk_ok s" and c: "in_fat s c"
  shows "disk_ok (fat_set c v s)" "\<exists>d b. fat_set c v s = s\<lparr>g_buf := b, disk := d\<rparr>"
    "in_fat s d \<Longrightarrow> fat_entry (fat_set c v s) (g_fat_lba s) d =
       (if d = c then v AND 0xFFF else fat_entry s (g_fat_lba s) d)"
    "in_fat s d \<Longrightarrow> 1 < g_num_fats s \<Longrightarrow> fat_entry (fat_set c v s) (fat2_lba s) d =
       (if d = c then v AND 0xFFF else fat_entry s (fat2_lba s) d)"
proof -
  obtain b1 b2 where b: "length b1 = 512" "length b2 = 512" and e: "fat_set c v s =
    (let s1 = s\<lparr>g_buf := b1, disk := patched c v (g_fat_lba s) s\<rparr> in
     if 1 < g_num_fats s then s1\<lparr>g_buf := b2, disk := patched c v (fat2_lba s) s1\<rparr> else s1)"
    using fat_set_eq [OF D] by blast
  define s1 where "s1 = s\<lparr>g_buf := b1, disk := patched c v (g_fat_lba s) s\<rparr>"
  have e': "fat_set c v s = (if 1 < g_num_fats s then s1\<lparr>g_buf := b2, disk := patched c v (fat2_lba s) s1\<rparr> else s1)"
    using e by (simp add: s1_def Let_def)
  have D1: "disk_ok s1" unfolding s1_def using D b(1) by (intro disk_ok_upd) (simp_all add: patched_length)
  have D2: "disk_ok (s1\<lparr>g_buf := b2, disk := patched c v (fat2_lba s) s1\<rparr>)"
    using D1 b(2) by (intro disk_ok_upd) (simp_all add: patched_length)
  have g: "g_fat_lba s1 = g_fat_lba s" "fat2_lba s1 = fat2_lba s" "in_fat s1 = in_fat s"
    by (simp_all add: s1_def fat2_lba_def in_fat_def fun_eq_iff)
  show "disk_ok (fat_set c v s)" using D1 D2 by (simp add: e')
  show "\<exists>d b. fat_set c v s = s\<lparr>g_buf := b, disk := d\<rparr>"
    unfolding e' s1_def by (cases "1 < g_num_fats s") auto
  have E1: "fat_entry s1 (g_fat_lba s) d = (if d = c then v AND 0xFFF else fat_entry s (g_fat_lba s) d)" for d
    unfolding s1_def by (rule entry_patched [OF D])
  have E2: "fat_entry s1 (fat2_lba s) d = fat_entry s (fat2_lba s) d" if "in_fat s d"
    unfolding s1_def by (rule entry_patched_copy [OF D c that]) simp
  show "fat_entry (fat_set c v s) (g_fat_lba s) d = (if d = c then v AND 0xFFF else fat_entry s (g_fat_lba s) d)"
    if "in_fat s d"
  proof -
    have E3: "fat_entry (s1\<lparr>g_buf := b2, disk := patched c v (fat2_lba s) s1\<rparr>) (g_fat_lba s) d
        = fat_entry s1 (g_fat_lba s) d"
      using that c by (intro entry_patched_copy [OF D1]) (simp_all add: g)
    show ?thesis unfolding e' by (cases "1 < g_num_fats s") (simp_all only: if_True if_False E3 E1)
  qed
  show "fat_entry (fat_set c v s) (fat2_lba s) d = (if d = c then v AND 0xFFF else fat_entry s (fat2_lba s) d)"
    if "in_fat s d" "1 < g_num_fats s"
    unfolding e' using that(2) entry_patched [OF D1] E2 [OF that(1)] by simp
qed

text \<open>Sectors outside the two copies are not written.\<close>

definition fat_sector :: "fatfs \<Rightarrow> u32 \<Rightarrow> bool" where
  "fat_sector s l \<longleftrightarrow> (\<exists>q < unat (g_fat_size s).
     l = g_fat_lba s + word_of_nat q \<or> 1 < g_num_fats s \<and> l = fat2_lba s + word_of_nat q)"

lemma in_fat_secs:
  assumes "in_fat s c"
  shows "unat (fat_off c) div 512 < unat (g_fat_size s)" "Suc (unat (fat_off c)) div 512 < unat (g_fat_size s)"
  using assms div_le_mono [of "unat (fat_off c)" "unat (fat_off c) + 1" 512] by (simp_all add: in_fat_def)

lemma fat_set_outside:
  assumes "disk_ok s" "in_fat s c" "\<not> fat_sector s l"
  shows "disk (fat_set c v s) l = disk s l"
proof -
  have ne: "l \<noteq> fat_sec base k"
    if "base = g_fat_lba s \<or> 1 < g_num_fats s \<and> base = fat2_lba s" "k div 512 < unat (g_fat_size s)" for base k
    using assms(3) that by (auto simp: fat_sector_def fat_sec_def)
  have P: "patched c v base t l = disk t l"
    if "base = g_fat_lba s \<or> 1 < g_num_fats s \<and> base = fat2_lba s" for base t
    using that ne in_fat_secs [OF assms(2)] by (intro patched_outside) blast+
  obtain b1 b2 where e: "fat_set c v s =
    (let s1 = s\<lparr>g_buf := b1, disk := patched c v (g_fat_lba s) s\<rparr> in
     if 1 < g_num_fats s then s1\<lparr>g_buf := b2, disk := patched c v (fat2_lba s) s1\<rparr> else s1)"
    using fat_set_eq [OF assms(1)] by blast
  show ?thesis unfolding e Let_def by (cases "1 < g_num_fats s") (simp_all add: P)
qed

lemma in_fat_fat_set [simp]: "disk_ok s \<Longrightarrow> in_fat s c \<Longrightarrow> in_fat (fat_set c v s) = in_fat s"
  using fat_set_spec(2) [of s c v] by (auto simp: in_fat_def fun_eq_iff)

subsection \<open>The packed table implements the interface\<close>

definition fat_of :: "fatfs \<Rightarrow> u16 \<Rightarrow> u16" where
  "fat_of s = fat_entry s (g_fat_lba s)"

lemma fat_of_reads: "reads s s' \<Longrightarrow> fat_of s' = fat_of s \<and> in_fat s' = in_fat s"
  by (auto simp: reads_def fat_of_def fat_entry_def sec_byte_def in_fat_def fun_eq_iff)

lemma fat_of_set:
  assumes "disk_ok s" "in_fat s c" "in_fat s d"
  shows "fat_of (fat_set c v s) d = (if d = c then v AND 0xFFF else fat_of s d)"
proof -
  have "g_fat_lba (fat_set c v s) = g_fat_lba s" using fat_set_spec(2) [OF assms(1,2), of v] by auto
  then show ?thesis using fat_set_spec(3) [OF assms] by (simp add: fat_of_def)
qed

interpretation fat: fat_table disk_ok fat_of fat_get fat_set in_fat
proof unfold_locales
  fix s c d v assume D: "disk_ok s"
  show "snd (fat_get c s) = fat_of s c" using fat_get_spec(1) [OF D] by (simp add: fat_of_def)
  from fat_get_spec(2) [OF D, of c]
  show "disk_ok (fst (fat_get c s)) \<and> fat_of (fst (fat_get c s)) = fat_of s \<and> in_fat (fst (fat_get c s)) = in_fat s"
    using reads_disk_ok [OF _ D] fat_of_reads by blast
  show "fat_of s c < 0x1000" by (simp add: fat_of_def fat_entry_def unpack_12)
  show "fat_of (fat_set c v s) d = (if d = c then v AND 0xFFF else fat_of s d)"
    if "in_fat s c" "in_fat s d" by (rule fat_of_set [OF D that])
  show "disk_ok (fat_set c v s) \<and> in_fat (fat_set c v s) = in_fat s" if "in_fat s c"
    using fat_set_spec(1) [OF D that] D that by simp
qed

text \<open>A table of 12 sectors has all 4096 entries; \<^verbatim>\<open>fat12_init\<close> caps the cluster count at 4085.\<close>

definition fat_ok :: "fatfs \<Rightarrow> bool" where
  "fat_ok s \<longleftrightarrow> disk_ok s \<and> 12 \<le> g_fat_size s \<and> g_total_clusters s \<le> 4085"

lemma fat_ok_in_fat:
  assumes "fat_ok s" "c < 0x1000" shows "in_fat s c"
proof -
  have "unat c < 4096" using assms(2) by (simp add: word_less_nat_alt)
  then have "(unat c * 3 div 2 + 1) div 512 < 12" by linarith
  moreover have "12 \<le> unat (g_fat_size s)" using assms(1) by (simp add: fat_ok_def word_le_nat_alt)
  ultimately show ?thesis by (simp add: in_fat_def unat_fat_off)
qed

lemma fat_ok_valid: "fat_ok s \<Longrightarrow> \<forall>c. 2 \<le> c \<and> c < FAT12_BAD \<longrightarrow> in_fat s c"
  by (auto simp: fat_consts word_less_nat_alt intro!: fat_ok_in_fat)

lemma fat_range:
  assumes "g_total_clusters s \<le> 4085"
  shows "set (map word_of_nat [2..<unat (g_total_clusters s + 2)])
    = {c :: u16. 2 \<le> c \<and> unat c < unat (g_total_clusters s) + 2}"
proof -
  have t: "unat (g_total_clusters s) \<le> 4085" using assms by (simp add: word_le_nat_alt)
  then have n: "unat (g_total_clusters s + 2) = unat (g_total_clusters s) + 2" by (subst unat_add_u32) simp_all
  show ?thesis unfolding n
  proof (intro set_eqI iffI)
    fix c :: u16 assume "c \<in> set (map word_of_nat [2..<unat (g_total_clusters s) + 2])"
    then obtain i where "c = word_of_nat i" "i \<in> set [2..<unat (g_total_clusters s) + 2]"
      unfolding set_map by (rule imageE)
    then have "c = word_of_nat i" "2 \<le> i" "i < unat (g_total_clusters s) + 2"
      by (simp_all only: set_upt atLeastLessThan_iff)
    with t show "c \<in> {c. 2 \<le> c \<and> unat c < unat (g_total_clusters s) + 2}"
      by (simp add: word_le_nat_alt unat_of_nat_u16)
  next
    fix c :: u16 assume "c \<in> {c. 2 \<le> c \<and> unat c < unat (g_total_clusters s) + 2}"
    then have "c = word_of_nat (unat c)" "unat c \<in> set [2..<unat (g_total_clusters s) + 2]"
      by (auto simp: word_le_nat_alt)
    then show "c \<in> set (map word_of_nat [2..<unat (g_total_clusters s) + 2])" by (metis image_eqI set_map)
  qed
qed

lemma alloc_range:
  assumes "fat_ok s"
  shows "\<forall>i \<in> set (map word_of_nat [2..<unat (g_total_clusters s + 2)]). in_fat s i \<and> i \<noteq> 0"
proof -
  have t: "g_total_clusters s \<le> 4085" using assms by (simp add: fat_ok_def)
  then have "unat (g_total_clusters s) \<le> 4085" by (simp add: word_le_nat_alt)
  then have "in_fat s c \<and> c \<noteq> 0" if "2 \<le> c" "unat c < unat (g_total_clusters s) + 2" for c
    using that fat_ok_in_fat [OF assms, of c] by (auto simp: word_less_nat_alt)
  then show ?thesis unfolding fat_range [OF t] by blast
qed

lemma fat_alloc_frame:
  assumes "fat_ok s"
  shows "fat_ok (fst (fat_alloc s)) \<and> (\<exists>b d. fst (fat_alloc s) = s\<lparr>g_buf := b, disk := d\<rparr>)"
proof -
  have "fat_ok (fst (fat_scan fat_get fat_set is s)) \<and> (\<exists>b d. fst (fat_scan fat_get fat_set is s) = s\<lparr>g_buf := b, disk := d\<rparr>)"
    if "fat_ok s" "\<forall>i \<in> set is. in_fat s i" for s "is"
    using that
  proof (induction "is" arbitrary: s)
    case Nil
    have "s = s\<lparr>g_buf := g_buf s, disk := disk s\<rparr>" by simp
    with Nil show ?case by (metis fat_scan.simps(1) fst_conv)
  next
    case (Cons i "is")
    let ?s1 = "fst (fat_get i s)"
    have D: "disk_ok s" using Cons.prems(1) by (simp add: fat_ok_def)
    obtain b where s1: "?s1 = s\<lparr>g_buf := b\<rparr>" using fat_get_spec(2) [OF D, of i] by (auto simp: reads_def)
    have ok1: "fat_ok ?s1" "in_fat ?s1 = in_fat s"
      using Cons.prems(1) fat.get_keeps [OF D, of i] by (auto simp: fat_ok_def s1)
    then have D1: "disk_ok ?s1" by (simp add: fat_ok_def)
    have "fat_ok (fat_set i FAT12_EOC ?s1) \<and> (\<exists>b d. fat_set i FAT12_EOC ?s1 = s\<lparr>g_buf := b, disk := d\<rparr>)"
    proof -
      have "in_fat ?s1 i" using Cons.prems(2) ok1 by simp
      note sp = fat_set_spec(1) [OF D1 this, of FAT12_EOC] fat_set_spec(2) [OF D1 this, of FAT12_EOC]
      then obtain b' d where e: "fat_set i FAT12_EOC ?s1 = s\<lparr>g_buf := b', disk := d\<rparr>" unfolding s1 by auto
      then have "fat_ok (fat_set i FAT12_EOC ?s1)" using sp(1) ok1(1) unfolding fat_ok_def s1 by simp
      with e show ?thesis by blast
    qed
    moreover have "fat_ok (fst (fat_scan fat_get fat_set is ?s1))
        \<and> (\<exists>b d. fst (fat_scan fat_get fat_set is ?s1) = s\<lparr>g_buf := b, disk := d\<rparr>)"
      using Cons.IH [OF ok1(1)] Cons.prems(2) ok1(2) unfolding s1 by auto
    ultimately show ?case by (simp add: Let_def split: prod.split) (metis fst_conv)
  qed
  from this [OF assms] show ?thesis
    unfolding fat_alloc_def using alloc_range [OF assms] by blast
qed

subsection \<open>Properties\<close>

text \<open>A formatted 16 MB volume, as \<^verbatim>\<open>fat12_init\<close> describes it without a boot record: 16-sector
  tables, two copies, every sector zero.\<close>

definition fat_blank :: fatfs where
  "fat_blank = \<lparr>disk = (\<lambda>_. replicate 512 0), rd_ok = (\<lambda>_. True), wr_data = (\<lambda>_. True), wr_flush = (\<lambda>_. False),
     g_buf = replicate 512 0, g_part_lba = 256, g_fat_lba = 272, g_root_lba = 304, g_data_lba = 336,
     g_root_entries = 512, g_sec_per_clus = 16, g_reserved_sec = 16, g_num_fats = 2, g_fat_size = 16,
     g_total_clusters = 2043,
     g_fds = replicate 16 \<lparr>ff_used = False, ff_first = 0, ff_size = 0, ff_pos = 0, ff_parent = 0, ff_idx = 0\<rparr>\<rparr>"

lemma fat_blank_ok: "fat_ok fat_blank" "disk_ok fat_blank"
  by (simp_all add: fat_ok_def disk_ok_def fat_blank_def)

lemma fat_blank_entry: "fat_of fat_blank c = 0"
  by (simp add: fat_of_def fat_entry_def sec_byte_def fat_blank_def fat_unpack_def)

text \<open>C20. The packed table is an array of 12-bit entries: reading back what \<^verbatim>\<open>fat_set\<close> wrote gives
  the value (cut to 12 bits) and no other entry changes, although neighbours share a byte and every 341st
  entry straddles two sectors; the second copy of the table gets the same update, and no sector
  outside the two copies is written.\<close>
theorem fat_set_get:
  assumes "disk_ok s" "in_fat s c" "in_fat s d"
  shows "snd (fat_get d (fat_set c v s)) = (if d = c then v AND 0xFFF else snd (fat_get d s))
    \<and> (1 < g_num_fats s \<longrightarrow> fat_entry (fat_set c v s) (fat2_lba s) d =
         (if d = c then v AND 0xFFF else fat_entry s (fat2_lba s) d))
    \<and> (\<forall>l. \<not> fat_sector s l \<longrightarrow> disk (fat_set c v s) l = disk s l)"
  using fat.put_entry [OF assms] fat.get_entry [OF assms(1), of d]
    fat.get_entry [OF fat_set_spec(1) [OF assms(1,2)], of d v] fat_set_spec(4) [OF assms]
    fat_set_outside [OF assms(1,2)]
  by simp

lemma fat_set_get_witness: "snd (fat_get 341 (fat_set 341 0xABC fat_blank)) = 0xABC"
proof -
  have v: "in_fat fat_blank 341" by (rule fat_ok_in_fat [OF fat_blank_ok(1)]) simp
  from fat_set_get [OF fat_blank_ok(2) v v, of "0xABC"] show ?thesis by simp
qed

text \<open>\<^verbatim>\<open>fat_alloc\<close> takes a free data cluster of the volume and marks it end-of-chain, leaving
  every other entry alone; it returns 0, changing no entry, exactly when no cluster is free.\<close>
theorem fat_alloc_spec:
  assumes "fat_ok s"
  shows "let s' = fst (fat_alloc s); c = snd (fat_alloc s);
             data = {c :: u16. 2 \<le> c \<and> unat c < unat (g_total_clusters s) + 2} in
    fat_ok s' \<and>
    (if c = 0 then (\<forall>d \<in> data. fat_of s d \<noteq> 0) \<and> fat_of s' = fat_of s
     else c \<in> data \<and> fat_of s c = 0 \<and> (\<forall>d. in_fat s d \<longrightarrow> fat_of s' d = (if d = c then 0xFF8 else fat_of s d)))"
proof -
  have D: "disk_ok s" "g_total_clusters s \<le> 4085" using assms by (simp_all add: fat_ok_def)
  from fat.scan_spec [OF D(1) alloc_range [OF assms], unfolded fat_range [OF D(2)]] fat_alloc_frame [OF assms]
  show ?thesis unfolding Let_def fat_alloc_def by (simp split: if_splits)
qed

lemma fat_alloc_spec_witness: "snd (fat_alloc fat_blank) \<noteq> 0"
proof
  assume z: "snd (fat_alloc fat_blank) = 0"
  have "2 \<in> {c :: u16. 2 \<le> c \<and> unat c < unat (g_total_clusters fat_blank) + 2}" by (simp add: fat_blank_def)
  with fat_alloc_spec [OF fat_blank_ok(1)] z fat_blank_entry show False unfolding Let_def by auto
qed

text \<open>C22. \<^verbatim>\<open>fat_free_chain\<close> returns on every table, cyclic or corrupted chains included, and
  makes no cluster used that was free.\<close>
theorem fat_free_chain_terminates:
  assumes "fat_ok s"
  shows "\<exists>s'. fat_free_chain c s = Some s' \<and> disk_ok s'
    \<and> (\<forall>d. 2 \<le> d \<and> d < FAT12_BAD \<and> fat_of s d = 0 \<longrightarrow> fat_of s' d = 0)"
proof -
  from fat.free_chain_total [of s c] assms fat_ok_valid [OF assms]
  obtain s' where s': "free_chain fat_get fat_set c s = Some s'" "disk_ok s'" "fat.in_use s' \<subseteq> fat.in_use s"
    by (auto simp: fat_ok_def)
  have "fat_of s' d = 0" if "2 \<le> d \<and> d < FAT12_BAD \<and> fat_of s d = 0" for d
  proof (rule ccontr)
    assume "fat_of s' d \<noteq> 0"
    with that have "d \<in> fat.in_use s'" by (simp add: fat.in_use_def)
    with s'(3) that show False by (auto simp: fat.in_use_def)
  qed
  with s'(1,2) show ?thesis unfolding fat_free_chain_def by blast
qed

lemma fat_free_chain_terminates_witness:
  "\<exists>s'. fat_free_chain 5 (fat_set 5 5 fat_blank) = Some s' \<and> disk_ok s'"
proof -
  have v: "in_fat fat_blank 5" by (rule fat_ok_in_fat [OF fat_blank_ok(1)]) simp
  have "fat_ok (fat_set 5 5 fat_blank)"
    using fat_set_spec(1,2) [OF fat_blank_ok(2) v, where v = 5] fat_blank_ok(1) by (auto simp: fat_ok_def)
  from fat_free_chain_terminates [OF this, of 5] show ?thesis by blast
qed

text \<open>Freeing a file's chain frees exactly its clusters: afterwards they are all free, and every other
  entry of the table is what it was.\<close>
theorem fat_free_chain_frees:
  assumes "fat_ok s" "fat_chain (fat_of s) c cs" "distinct cs"
  shows "\<exists>s'. fat_free_chain c s = Some s'
    \<and> (\<forall>d. in_fat s d \<longrightarrow> fat_of s' d = (if d \<in> set cs then 0 else fat_of s d))"
  using fat.free_chain_spec [OF _ fat_ok_valid [OF assms(1)] assms(2,3)] assms(1)
  unfolding fat_free_chain_def fat_ok_def by blast

lemma fat_free_chain_frees_witness:
  "\<exists>s'. fat_free_chain 5 (fat_set 5 0xFFF fat_blank) = Some s' \<and> fat_of s' 5 = 0"
proof -
  have v: "in_fat fat_blank 5" by (rule fat_ok_in_fat [OF fat_blank_ok(1)]) simp
  let ?s = "fat_set 5 0xFFF fat_blank"
  have ok: "fat_ok ?s"
    using fat_set_spec(1,2) [OF fat_blank_ok(2) v, where v = "0xFFF"] fat_blank_ok(1) by (auto simp: fat_ok_def)
  have "fat_chain (fat_of ?s) 5 [5]" using fat_of_set [OF fat_blank_ok(2) v v, of "0xFFF"] by (simp add: fat_consts)
  from fat_free_chain_frees [OF ok this] v fat_blank_ok(2) show ?thesis by auto
qed

end
