(* ===== verification/Fat_Names.thy ===== *)
theory Fat_Names
  imports Bytes
begin

text \<open>
  \<^verbatim>\<open>kernel/fs/fat12.cpp\<close>, the name helpers: 8.3 names are lists of 11 bytes, C strings
  lists of their bytes before the terminating zero. \<^verbatim>\<open>char\<close> is signed on i386, but the only
  comparisons are equality and membership of the range \<^verbatim>\<open>'a'..'z'\<close>, which unsigned bytes decide alike.
\<close>

definition to_upper :: "u8 \<Rightarrow> u8" where
  "to_upper c = (if 0x61 \<le> c \<and> c \<le> 0x7A then c - 32 else c)"

definition pad :: "nat \<Rightarrow> u8 list \<Rightarrow> u8 list" where
  "pad n xs = xs @ replicate (n - length xs) 0x20"

text \<open>\<^verbatim>\<open>to_83\<close> returns its verdict and the bytes it leaves in \<^verbatim>\<open>name\<close>.\<close>

definition to_83 :: "u8 list \<Rightarrow> bool \<times> u8 list" where
  "to_83 inp =
     (if inp = [] \<or> hd inp = 0x2E then (False, replicate 11 0x20)
      else
        let base = map to_upper (take 8 (takeWhile (\<lambda>c. c \<noteq> 0x2E) inp));
            rest = dropWhile (\<lambda>c. c \<noteq> 0x2E) inp;
            ext = (if rest = [] then [] else map to_upper (take 3 (tl rest)))
        in (True, pad 8 base @ pad 3 ext))"

definition match_83 :: "u8 list \<Rightarrow> u8 list \<Rightarrow> bool" where
  "match_83 a b = list_all (\<lambda>i. to_upper (a ! i) = to_upper (b ! i)) [0..<11]"

definition from_83 :: "u8 list \<Rightarrow> u8 list" where
  "from_83 raw =
     takeWhile (\<lambda>c. c \<noteq> 0x20) (take 8 raw)
     @ (if raw ! 8 \<noteq> 0x20 then 0x2E # takeWhile (\<lambda>c. c \<noteq> 0x20) (take 3 (drop 8 raw)) else [])"

fun streq :: "u8 list \<Rightarrow> u8 list \<Rightarrow> bool" where
  "streq (a # as) (b # bs) = (to_upper a = to_upper b \<and> streq as bs)"
| "streq [] [] = True"
| "streq _ _ = False"

definition slen :: "u8 list \<Rightarrow> int" where
  "slen s = int (length s)"

subsection \<open>Round trip\<close>

lemma to_upper_special: "to_upper c = 0x20 \<longleftrightarrow> c = 0x20" "to_upper c = 0x2E \<longleftrightarrow> c = 0x2E"
proof -
  have "c - 32 \<noteq> k" if "0x61 \<le> c" "k < 0x41" for k
  proof
    assume "c - 32 = k"
    then have "c = k + 32" by (simp add: algebra_simps)
    moreover have "unat (k + 32) = unat k + 32"
      using that(2) by (subst unat_word_ariths) (simp add: word_less_nat_alt)
    ultimately show False using that by (simp add: word_le_nat_alt word_less_nat_alt)
  qed
  then show "to_upper c = 0x20 \<longleftrightarrow> c = 0x20" "to_upper c = 0x2E \<longleftrightarrow> c = 0x2E"
    by (auto simp: to_upper_def)
qed

lemma to_upper_idem [simp]: "to_upper (to_upper c) = to_upper c"
proof -
  have "\<not> 0x61 \<le> c - 32" if "0x61 \<le> c" "c \<le> 0x7A"
  proof -
    have "unat (c - 32) = unat c - 32" using that by (subst unat_sub) (auto simp: word_le_nat_alt)
    with that show ?thesis by (auto simp: word_le_nat_alt)
  qed
  then show ?thesis by (auto simp: to_upper_def)
qed

text \<open>A name the format can hold: a base of 1 to 8 and an extension of at most 3 characters,
  neither with spaces or dots.\<close>

definition name_char :: "u8 \<Rightarrow> bool" where
  "name_char c \<longleftrightarrow> c \<noteq> 0x20 \<and> c \<noteq> 0x2E \<and> c \<noteq> 0"

definition name_83 :: "u8 list \<Rightarrow> u8 list \<Rightarrow> bool" where
  "name_83 base ext \<longleftrightarrow> base \<noteq> [] \<and> length base \<le> 8 \<and> length ext \<le> 3
     \<and> list_all name_char base \<and> list_all name_char ext"

definition dotted :: "u8 list \<Rightarrow> u8 list \<Rightarrow> u8 list" where
  "dotted base ext = (if ext = [] then base else base @ 0x2E # ext)"

lemma takeWhile_pad: "list_all name_char xs \<Longrightarrow> takeWhile (\<lambda>c. c \<noteq> 0x20) (xs @ replicate n 0x20) = xs"
  by (induction xs) (auto simp: name_char_def takeWhile_replicate)

lemma length_pad [simp]: "length xs \<le> n \<Longrightarrow> length (pad n xs) = n"
  by (simp add: pad_def)

lemma map_upper_name: "list_all name_char xs \<Longrightarrow> list_all name_char (map to_upper xs)"
proof -
  have "to_upper c \<noteq> 0" if "c \<noteq> 0" for c
  proof (cases "0x61 \<le> c \<and> c \<le> 0x7A")
    case True
    then have "unat (c - 32) = unat c - 32" "32 < unat c" by (auto simp: unat_sub word_le_nat_alt)
    then have "unat (c - 32) \<noteq> 0" by simp
    then show ?thesis using True by (metis to_upper_def unat_0)
  qed (use that in \<open>auto simp: to_upper_def\<close>)
  then show "list_all name_char xs \<Longrightarrow> list_all name_char (map to_upper xs)"
    by (auto simp: list_all_iff name_char_def to_upper_special)
qed

lemma to_83_dotted:
  assumes "name_83 base ext"
  shows "to_83 (dotted base ext) = (True, pad 8 (map to_upper base) @ pad 3 (map to_upper ext))"
proof -
  have b: "base \<noteq> []" "length base \<le> 8" "length ext \<le> 3" "\<forall>c \<in> set base. c \<noteq> 0x2E" "\<forall>c \<in> set ext. c \<noteq> 0x2E"
    using assms by (auto simp: name_83_def list_all_iff name_char_def)
  have "hd (dotted base ext) \<noteq> 0x2E" using b by (cases base) (auto simp: dotted_def)
  moreover have "dotted base ext \<noteq> []" using b by (simp add: dotted_def)
  moreover have "takeWhile (\<lambda>c. c \<noteq> 0x2E) (dotted base ext) = base"
    using b by (auto simp: dotted_def takeWhile_tail takeWhile_eq_all_conv)
  moreover have "dropWhile (\<lambda>c. c \<noteq> 0x2E) (dotted base ext) = (if ext = [] then [] else 0x2E # ext)"
    using b by (auto simp: dotted_def dropWhile_append3)
  ultimately show ?thesis using b by (simp add: to_83_def Let_def)
qed

text \<open>C23. 8.3 names survive the round trip: for a name the format can hold, \<^verbatim>\<open>to_83\<close> succeeds and
  \<^verbatim>\<open>from_83\<close> gives back the name in upper case.\<close>
theorem name_83_roundtrip:
  assumes "name_83 base ext"
  shows "fst (to_83 (dotted base ext))
    \<and> from_83 (snd (to_83 (dotted base ext))) = map to_upper (dotted base ext)"
proof -
  have l: "length base \<le> 8" "length ext \<le> 3" using assms by (simp_all add: name_83_def)
  let ?B = "map to_upper base" and ?E = "map to_upper ext"
  have n: "list_all name_char ?B" "list_all name_char ?E"
    using assms by (auto simp: name_83_def intro: map_upper_name)
  have e8: "(pad 8 ?B @ pad 3 ?E) ! 8 = pad 3 ?E ! 0" using l by (simp add: nth_append)
  have "pad 3 ?E ! 0 \<noteq> 0x20 \<longleftrightarrow> ext \<noteq> []"
    using n(2) by (cases ext) (auto simp: pad_def name_char_def)
  then have "from_83 (pad 8 ?B @ pad 3 ?E) = ?B @ (if ext = [] then [] else 0x2E # ?E)"
    using l takeWhile_pad [OF n(1)] takeWhile_pad [OF n(2)] by (simp add: from_83_def e8) (simp add: pad_def)
  also have "\<dots> = map to_upper (dotted base ext)" by (simp add: dotted_def to_upper_def)
  finally show ?thesis unfolding to_83_dotted [OF assms] by simp
qed

lemma name_83_roundtrip_witness:
  "from_83 (snd (to_83 [0x72, 0x2E, 0x74, 0x78])) = [0x52, 0x2E, 0x54, 0x58]"
  using name_83_roundtrip [of "[0x72]" "[0x74, 0x78]"]
  by (simp add: name_83_def name_char_def dotted_def to_upper_def)

lemma match_83_upper:
  assumes "length a = 11" "length b = 11"
  shows "match_83 a b \<longleftrightarrow> map to_upper a = map to_upper b"
  using assms by (auto simp: match_83_def list_all_iff list_eq_iff_nth_eq)

lemma streq_upper: "streq a b \<longleftrightarrow> map to_upper a = map to_upper b"
  by (induction a b rule: streq.induct) auto

end
