(* ===== verification/Fat_Dir.thy ===== *)
theory Fat_Dir
  imports Fat_Packed Fat_Names
begin

text \<open>
  \<^verbatim>\<open>kernel/fs/fat12.cpp\<close>, directories: the 32-byte entries, their place in the root region
  or in a cluster chain, search, slot allocation and path resolution. A boolean result with an
  out parameter is an option; \<open>None\<close> around a whole result is a loop that never ends.
\<close>

subsection \<open>Entries\<close>

record dir_entry =
  de_name :: "u8 list"
  de_ext :: "u8 list"
  de_attr :: u8
  nt_reserved :: u8
  create_time_tenth :: u8
  create_time :: u16
  create_date :: u16
  access_date :: u16
  first_cluster_hi :: u16
  write_time :: u16
  write_date :: u16
  first_cluster :: u16
  file_size :: u32

definition ATTR_DIR :: u8 where "ATTR_DIR = 0x10"
definition ATTR_ARCH :: u8 where "ATTR_ARCH = 0x20"
definition ATTR_LFN :: u8 where "ATTR_LFN = 0x0F"
definition DIR_END :: u8 where "DIR_END = 0x00"
definition DIR_FREE :: u8 where "DIR_FREE = 0xE5"
definition SUBDIR_MAX_ENTS :: nat where "SUBDIR_MAX_ENTS = 10000"

lemmas dir_consts = ATTR_DIR_def ATTR_ARCH_def ATTR_LFN_def DIR_END_def DIR_FREE_def SUBDIR_MAX_ENTS_def

text \<open>The packed layout of \<^verbatim>\<open>struct DirEntry\<close>.\<close>

definition dirent_of :: "u8 list \<Rightarrow> dir_entry" where
  "dirent_of b =
     \<lparr>de_name = take 8 b, de_ext = slice 8 3 b, de_attr = b ! 11, nt_reserved = b ! 12,
      create_time_tenth = b ! 13, create_time = le16 (b ! 14) (b ! 15), create_date = le16 (b ! 16) (b ! 17),
      access_date = le16 (b ! 18) (b ! 19), first_cluster_hi = le16 (b ! 20) (b ! 21),
      write_time = le16 (b ! 22) (b ! 23), write_date = le16 (b ! 24) (b ! 25),
      first_cluster = le16 (b ! 26) (b ! 27), file_size = le32 (b ! 28) (b ! 29) (b ! 30) (b ! 31)\<rparr>"

definition dirent_bytes :: "dir_entry \<Rightarrow> u8 list" where
  "dirent_bytes e =
     de_name e @ de_ext e @ [de_attr e, nt_reserved e, create_time_tenth e]
     @ bytes16 (create_time e) @ bytes16 (create_date e) @ bytes16 (access_date e)
     @ bytes16 (first_cluster_hi e) @ bytes16 (write_time e) @ bytes16 (write_date e)
     @ bytes16 (first_cluster e) @ bytes32 (file_size e)"

text \<open>\<^verbatim>\<open>DirEntry e = {};\<close> and the eleven name bytes \<^verbatim>\<open>e.name[0..10]\<close>, which run on into \<^verbatim>\<open>ext\<close>.\<close>

definition dirent0 :: dir_entry where
  "dirent0 = dirent_of (replicate 32 0)"

definition de_name11 :: "dir_entry \<Rightarrow> u8 list" where
  "de_name11 e = de_name e @ de_ext e"

definition set_name11 :: "u8 list \<Rightarrow> dir_entry \<Rightarrow> dir_entry" where
  "set_name11 t e = e\<lparr>de_name := take 8 t, de_ext := slice 8 3 t\<rparr>"

definition name_first :: "dir_entry \<Rightarrow> u8" where
  "name_first e = de_name e ! 0"

subsection \<open>Reading and writing\<close>

text \<open>The walk \<^verbatim>\<open>for (i < skip) { clus = fat_get(clus); if (clus >= FAT12_EOC) return ...; }\<close>.\<close>

fun fat_skip :: "nat \<Rightarrow> u16 \<Rightarrow> fatfs \<Rightarrow> fatfs \<times> u16 option" where
  "fat_skip 0 clus s = (s, Some clus)"
| "fat_skip (Suc n) clus s =
     (let (s1, nxt) = fat_get clus s in
      if FAT12_EOC \<le> nxt then (s1, None) else fat_skip n nxt s1)"

definition entries_per_clus :: "fatfs \<Rightarrow> nat" where
  "entries_per_clus s = unat (cluster_size s div 32)"

definition dir_read_entry :: "u32 \<Rightarrow> u16 \<Rightarrow> nat \<Rightarrow> fatfs \<Rightarrow> fatfs \<times> dir_entry option" where
  "dir_read_entry dir_start_lba dir_cluster idx s =
     (if dir_cluster = 0
      then if unat (g_root_entries s) \<le> idx then (s, None)
           else let s1 = fst (read_sector (dir_start_lba + word_of_nat (idx div 16)) s)
                in (s1, Some (dirent_of (slice (idx mod 16 * 32) 32 (g_buf s1))))
      else case fat_skip (idx div entries_per_clus s) dir_cluster s of
             (s1, None) \<Rightarrow> (s1, None)
           | (s1, Some clus) \<Rightarrow>
               let ent = idx mod entries_per_clus s;
                   s2 = fst (read_sector (cluster_lba s1 clus + word_of_nat (ent div 16)) s1)
               in (s2, Some (dirent_of (slice (ent mod 16 * 32) 32 (g_buf s2)))))"

definition put_entry_at :: "u32 \<Rightarrow> nat \<Rightarrow> dir_entry \<Rightarrow> fatfs \<Rightarrow> fatfs" where
  "put_entry_at lba k e s =
     (let s1 = fst (read_sector lba s);
          s2 = s1\<lparr>g_buf := splice (k * 32) (dirent_bytes e) (g_buf s1)\<rparr>
      in fst (write_sector lba s2))"

definition dir_write_entry :: "u32 \<Rightarrow> u16 \<Rightarrow> nat \<Rightarrow> dir_entry \<Rightarrow> fatfs \<Rightarrow> fatfs \<times> bool" where
  "dir_write_entry dir_start_lba dir_cluster idx e s =
     (if dir_cluster = 0
      then if unat (g_root_entries s) \<le> idx then (s, False)
           else (put_entry_at (dir_start_lba + word_of_nat (idx div 16)) (idx mod 16) e s, True)
      else case fat_skip (idx div entries_per_clus s) dir_cluster s of
             (s1, None) \<Rightarrow> (s1, False)
           | (s1, Some clus) \<Rightarrow>
               let ent = idx mod entries_per_clus s
               in (put_entry_at (cluster_lba s1 clus + word_of_nat (ent div 16)) (ent mod 16) e s1, True))"

definition max_ents :: "fatfs \<Rightarrow> u16 \<Rightarrow> nat" where
  "max_ents s dir_cluster = (if dir_cluster = 0 then unat (g_root_entries s) else SUBDIR_MAX_ENTS)"

fun dir_count :: "u32 \<Rightarrow> u16 \<Rightarrow> nat list \<Rightarrow> int \<Rightarrow> fatfs \<Rightarrow> fatfs \<times> int" where
  "dir_count lba dc [] count s = (s, count)"
| "dir_count lba dc (i # is) count s =
     (case dir_read_entry lba dc i s of
        (s1, None) \<Rightarrow> (s1, count)
      | (s1, Some e) \<Rightarrow>
          if name_first e = DIR_END then (s1, count)
          else if name_first e = DIR_FREE then dir_count lba dc is count s1
          else dir_count lba dc is (count + 1) s1)"

definition dir_count_entries :: "u32 \<Rightarrow> u16 \<Rightarrow> fatfs \<Rightarrow> fatfs \<times> int" where
  "dir_count_entries lba dc s = dir_count lba dc [0..<max_ents s dc] 0 s"

subsection \<open>Search\<close>

fun dir_find :: "u16 \<Rightarrow> u8 list \<Rightarrow> nat list \<Rightarrow> fatfs \<Rightarrow> fatfs \<times> (nat \<times> dir_entry) option" where
  "dir_find dc target [] s = (s, None)"
| "dir_find dc target (i # is) s =
     (case dir_read_entry (g_root_lba s) dc i s of
        (s1, None) \<Rightarrow> (s1, None)
      | (s1, Some e) \<Rightarrow>
          if name_first e = DIR_END then (s1, None)
          else if name_first e = DIR_FREE then dir_find dc target is s1
          else if de_attr e AND ATTR_LFN \<noteq> 0 then dir_find dc target is s1
          else if \<not> match_83 (de_name11 e) target then dir_find dc target is s1
          else (s1, Some (i, e)))"

definition find_in_dir :: "u16 \<Rightarrow> u8 list \<Rightarrow> fatfs \<Rightarrow> fatfs \<times> (nat \<times> dir_entry) option" where
  "find_in_dir dc target s = dir_find dc target [0..<max_ents s dc] s"

text \<open>
  \<^verbatim>\<open>resolve_path\<close>. The result is the directory's cluster and the last component in 8.3 form;
  its first byte is 0 for the root itself (the other bytes, which the code leaves
  unwritten and nobody reads, are 0 here). The loop over intermediate components runs the same
  search as \<^verbatim>\<open>find_in_dir\<close>.
\<close>

definition comp_83 :: "u8 list \<Rightarrow> u8 list" where
  "comp_83 part = snd (to_83 (take 255 part))"

function resolve_loop :: "u8 list \<Rightarrow> u16 \<Rightarrow> fatfs \<Rightarrow> fatfs \<times> (u16 \<times> u8 list) option" where
  "resolve_loop path dc s =
     (let part = takeWhile (\<lambda>c. c \<noteq> 0x2F) path; rest = dropWhile (\<lambda>c. c \<noteq> 0x2F) path in
      if path = [] then (s, Some (dc, replicate 11 0))
      else if part = [] then resolve_loop (tl path) dc s
      else if rest = [] then (s, Some (dc, comp_83 part))
      else case find_in_dir dc (comp_83 part) s of
             (s1, None) \<Rightarrow> (s1, None)
           | (s1, Some (i, e)) \<Rightarrow>
               if de_attr e AND ATTR_DIR = 0 then (s1, None)
               else resolve_loop (tl rest) (first_cluster e) s1)"
  by pat_completeness auto
termination
proof (relation "measure (\<lambda>(path, dc, s). length path)", goal_cases)
  case (3 path dc s part rest)
  have "length rest \<le> length path" unfolding 3(2) by (rule length_dropWhile_le)
  moreover have "rest \<noteq> []" using 3 by simp
  ultimately show ?case using 3(3) by (cases rest) auto
qed (auto simp: neq_Nil_conv)

definition resolve_path :: "u8 list \<Rightarrow> fatfs \<Rightarrow> fatfs \<times> (u16 \<times> u8 list) option" where
  "resolve_path path s = resolve_loop (if path \<noteq> [] \<and> hd path = 0x2F then tl path else path) 0 s"

subsection \<open>A free slot\<close>

fun dir_slot :: "u16 \<Rightarrow> nat list \<Rightarrow> fatfs \<Rightarrow> fatfs \<times> nat option" where
  "dir_slot dc [] s = (s, None)"
| "dir_slot dc (i # is) s =
     (case dir_read_entry (g_root_lba s) dc i s of
        (s1, None) \<Rightarrow> (s1, None)
      | (s1, Some e) \<Rightarrow>
          if name_first e = DIR_END \<or> name_first e = DIR_FREE then (s1, Some i)
          else dir_slot dc is s1)"

partial_function (option) chain_end :: "u16 \<Rightarrow> fatfs \<Rightarrow> (fatfs \<times> u16) option" where
  "chain_end clus s =
     (if 2 \<le> clus \<and> clus < FAT12_EOC
      then let (s1, nxt) = fat_get clus s in
           if FAT12_EOC \<le> nxt then Some (s1, clus) else chain_end nxt s1
      else Some (s, clus))"

definition alloc_dir_entry :: "u16 \<Rightarrow> fatfs \<Rightarrow> (fatfs \<times> nat option) option" where
  "alloc_dir_entry dc s =
     (case dir_slot dc [0..<max_ents s dc] s of
        (s1, Some i) \<Rightarrow> Some (s1, Some i)
      | (s1, None) \<Rightarrow>
          if dc \<noteq> 0
          then Option.bind (chain_end dc s1) (\<lambda>(s2, clus).
                 let (s3, new_clus) = fat_alloc s2 in
                 if new_clus = 0 then Some (s3, None)
                 else Some (zero_cluster new_clus (fat_set clus new_clus s3), Some (max_ents s dc)))
          else Some (s1, None))"

end
