(* ===== verification/Fat12.thy ===== *)
theory Fat12
  imports Fat_Dir
begin

text \<open>
  \<^verbatim>\<open>kernel/fs/fat12.cpp\<close>, the file system's operations: mounting, the table of open files,
  \<^verbatim>\<open>open\<close>, \<^verbatim>\<open>create\<close>, \<^verbatim>\<open>read\<close>, \<^verbatim>\<open>write\<close>, \<^verbatim>\<open>flush\<close>, \<^verbatim>\<open>close\<close>, \<^verbatim>\<open>delete\<close>,
  \<^verbatim>\<open>rename\<close>, \<^verbatim>\<open>mkdir\<close>, \<^verbatim>\<open>rmdir\<close> and \<^verbatim>\<open>ls\<close>. An operation that follows a chain of
  unbounded length returns \<open>None\<close> when the chain never ends.
\<close>

definition FAT12_MAX_FDS :: nat where "FAT12_MAX_FDS = 16"

text \<open>A byte count converted to the result type \<^verbatim>\<open>int\<close>.\<close>

definition to_int :: "nat \<Rightarrow> int" where
  "to_int n = sint (word_of_nat n :: u32)"

lemma to_int_small: "n < 2147483648 \<Longrightarrow> to_int n = int n"
  by (simp add: to_int_def signed_of_nat signed_take_bit_int_eq_self)

subsection \<open>Open files\<close>

definition fd_is_valid :: "fatfs \<Rightarrow> int \<Rightarrow> bool" where
  "fd_is_valid s fd \<longleftrightarrow> 0 \<le> fd \<and> fd < int FAT12_MAX_FDS \<and> ff_used (g_fds s ! nat fd)"

definition fat_fd_alloc :: "u16 \<Rightarrow> u32 \<Rightarrow> u16 \<Rightarrow> nat \<Rightarrow> fatfs \<Rightarrow> fatfs \<times> int" where
  "fat_fd_alloc first sz parent idx s =
     (case List.find (\<lambda>fd. \<not> ff_used (g_fds s ! fd)) [0..<FAT12_MAX_FDS] of
        Some fd \<Rightarrow> (s\<lparr>g_fds := (g_fds s)[fd := \<lparr>ff_used = True, ff_first = first, ff_size = sz, ff_pos = 0,
                                       ff_parent = parent, ff_idx = idx\<rparr>]\<rparr>, int fd)
      | None \<Rightarrow> (s, -1))"

definition upd_fd :: "int \<Rightarrow> (fat_fd \<Rightarrow> fat_fd) \<Rightarrow> fatfs \<Rightarrow> fatfs" where
  "upd_fd fd f s = s\<lparr>g_fds := (g_fds s)[nat fd := f (g_fds s ! nat fd)]\<rparr>"

subsection \<open>Mounting\<close>

text \<open>The fields of the boot record that the driver reads, from the sector buffer.\<close>

record fat12_bpb =
  bytes_per_sec :: u16
  sec_per_clus :: u8
  reserved_sec :: u16
  num_fats :: u8
  root_entries :: u16
  total_sec16 :: u16
  fat_size16 :: u16
  total_sec32 :: u32

definition bpb_of :: "u8 list \<Rightarrow> fat12_bpb" where
  "bpb_of b = \<lparr>bytes_per_sec = le16 (b ! 11) (b ! 12), sec_per_clus = b ! 13, reserved_sec = le16 (b ! 14) (b ! 15),
     num_fats = b ! 16, root_entries = le16 (b ! 17) (b ! 18), total_sec16 = le16 (b ! 19) (b ! 20),
     fat_size16 = le16 (b ! 22) (b ! 23), total_sec32 = le32 (b ! 32) (b ! 33) (b ! 34) (b ! 35)\<rparr>"

definition has_bpb :: "u8 list \<Rightarrow> bool" where
  "has_bpb b \<longleftrightarrow> b ! 510 = 0x55 \<and> b ! 511 = 0xAA \<and> bytes_per_sec (bpb_of b) = 512
     \<and> 0 < sec_per_clus (bpb_of b) \<and> 0 < reserved_sec (bpb_of b) \<and> 0 < fat_size16 (bpb_of b)"

definition set_geometry :: "u32 \<Rightarrow> fatfs \<Rightarrow> fatfs" where
  "set_geometry lba_start s =
     (let b = bpb_of (g_buf s);
          s1 = (if has_bpb (g_buf s)
                then s\<lparr>g_sec_per_clus := ucast (sec_per_clus b), g_reserved_sec := reserved_sec b,
                       g_num_fats := num_fats b, g_root_entries := root_entries b, g_fat_size := fat_size16 b\<rparr>
                else s\<lparr>g_sec_per_clus := 16, g_reserved_sec := 16, g_num_fats := 2, g_root_entries := 512,
                       g_fat_size := 16\<rparr>);
          fat = lba_start + ucast (g_reserved_sec s1);
          root_dir_sectors = (ucast (g_root_entries s1) * 32 + 511) div 512;
          root = fat + ucast (g_num_fats s1) * ucast (g_fat_size s1)
      in s1\<lparr>g_fat_lba := fat, g_root_lba := root, g_data_lba := root + root_dir_sectors\<rparr>)"

definition total_sectors :: "u8 list \<Rightarrow> u32" where
  "total_sectors buf =
     (if has_bpb buf
      then if total_sec16 (bpb_of buf) \<noteq> 0 then ucast (total_sec16 (bpb_of buf)) else total_sec32 (bpb_of buf)
      else 32768)"

definition fat12_init :: "u32 \<Rightarrow> fatfs \<Rightarrow> fatfs \<times> bool" where
  "fat12_init lba_start s0 =
     (let (s, ok) = read_sector lba_start (s0\<lparr>g_part_lba := lba_start\<rparr>) in
      if \<not> ok then (s, False)
      else
        let s1 = set_geometry lba_start s; total = total_sectors (g_buf s); used = g_data_lba s1 - lba_start in
        if total \<le> used then (s1, False)
        else
          let s2 = s1\<lparr>g_total_clusters := (total - used) div ucast (g_sec_per_clus s1)\<rparr> in
          if g_total_clusters s2 = 0 then (s2, False)
          else if 4085 < g_total_clusters s2 then (s2, False)
          else (s2\<lparr>g_fds := map (\<lambda>f. f\<lparr>ff_used := False\<rparr>) (g_fds s2)\<rparr>, True))"

subsection \<open>Open and create\<close>

definition fat12_open :: "u8 list \<Rightarrow> fatfs \<Rightarrow> fatfs \<times> int" where
  "fat12_open path s =
     (case resolve_path path s of
        (s1, None) \<Rightarrow> (s1, -1)
      | (s1, Some (dc, target)) \<Rightarrow>
          if target ! 0 = 0 then (s1, -1)
          else case find_in_dir dc target s1 of
                 (s2, None) \<Rightarrow> (s2, -1)
               | (s2, Some (idx, e)) \<Rightarrow>
                   if de_attr e AND ATTR_DIR \<noteq> 0 then (s2, -1)
                   else fat_fd_alloc (first_cluster e) (file_size e) dc idx s2)"

definition fat12_create :: "u8 list \<Rightarrow> fatfs \<Rightarrow> (fatfs \<times> int) option" where
  "fat12_create path s =
     (case resolve_path path s of
        (s1, None) \<Rightarrow> Some (s1, -1)
      | (s1, Some (dc, target)) \<Rightarrow>
          if target ! 0 = 0 then Some (s1, -1)
          else case find_in_dir dc target s1 of
                 (s2, Some _) \<Rightarrow> Some (s2, -1)
               | (s2, None) \<Rightarrow>
                   map_option (\<lambda>(s3, slot). case slot of
                       None \<Rightarrow> (s3, -1)
                     | Some idx \<Rightarrow>
                         let e = set_name11 target (dirent0\<lparr>de_attr := ATTR_ARCH, first_cluster := 0, file_size := 0\<rparr>);
                             (s4, ok) = dir_write_entry (g_root_lba s3) dc idx e s3 in
                         if \<not> ok then (s4, -1) else fat_fd_alloc 0 0 dc idx s4)
                     (alloc_dir_entry dc s2))"

subsection \<open>Read\<close>

text \<open>The sectors of one cluster, with \<^verbatim>\<open>off_in_clus\<close> and the bytes delivered so far.\<close>

fun read_secs :: "u32 \<Rightarrow> nat list \<Rightarrow> nat \<Rightarrow> fatfs \<Rightarrow> nat \<Rightarrow> u8 list \<Rightarrow> fatfs \<times> nat \<times> u8 list" where
  "read_secs clba [] sz s off out = (s, off, out)"
| "read_secs clba (k # ks) sz s off out =
     (if sz \<le> length out then (s, off, out)
      else if 512 \<le> off then read_secs clba ks sz s (off - 512) out
      else let s1 = fst (read_sector (clba + word_of_nat k) s); n = min (sz - length out) (512 - off)
           in read_secs clba ks sz s1 0 (out @ slice off n (g_buf s1)))"

partial_function (option) read_clus :: "nat \<Rightarrow> u16 \<Rightarrow> fatfs \<Rightarrow> nat \<Rightarrow> u8 list \<Rightarrow> (fatfs \<times> u8 list) option" where
  "read_clus sz clus s off out =
     (if length out < sz \<and> 2 \<le> clus \<and> clus < FAT12_EOC
      then let (s1, off1, out1) = read_secs (cluster_lba s clus) [0..<unat (g_sec_per_clus s)] sz s off out in
           if length out1 < sz
           then let (s2, nxt) = fat_get clus s1 in
                if FAT12_EOC \<le> nxt then Some (s2, out1) else read_clus sz nxt s2 off1 out1
           else Some (s1, out1)
      else Some (s, out))"

text \<open>The result is the return value and the bytes stored through \<^verbatim>\<open>buf\<close>.\<close>

definition fat12_read :: "int \<Rightarrow> u32 \<Rightarrow> fatfs \<Rightarrow> (fatfs \<times> int \<times> u8 list) option" where
  "fat12_read fd size0 s =
     (if \<not> fd_is_valid s fd then Some (s, -1, [])
      else
        let f = g_fds s ! nat fd in
        if ff_size f \<le> ff_pos f then Some (s, 0, [])
        else
          let left = ff_size f - ff_pos f; sz = (if left < size0 then left else size0) in
          if sz = 0 \<or> ff_first f = 0 then Some (s, 0, [])
          else case fat_skip (unat (ff_pos f div cluster_size s)) (ff_first f) s of
                 (s1, None) \<Rightarrow> Some (s1, 0, [])
               | (s1, Some clus) \<Rightarrow>
                   map_option (\<lambda>(s2, out).
                       (upd_fd fd (\<lambda>f. f\<lparr>ff_pos := ff_pos f + word_of_nat (length out)\<rparr>) s2, to_int (length out), out))
                     (read_clus (unat sz) clus s1 (unat (ff_pos f mod cluster_size s)) []))"

subsection \<open>Write\<close>

text \<open>A new cluster at the end of the chain; \<^verbatim>\<open>None\<close> when the volume is full.\<close>

definition extend_chain :: "u16 \<Rightarrow> fatfs \<Rightarrow> fatfs \<times> u16 option" where
  "extend_chain clus s =
     (let (s1, nxt) = fat_alloc s in
      if nxt = 0 then (s1, None) else (zero_cluster nxt (fat_set clus nxt s1), Some nxt))"

fun write_skip :: "nat \<Rightarrow> u16 \<Rightarrow> fatfs \<Rightarrow> fatfs \<times> u16 option" where
  "write_skip 0 clus s = (s, Some clus)"
| "write_skip (Suc n) clus s =
     (let (s1, nxt) = fat_get clus s;
          (s2, r) = (if FAT12_EOC \<le> nxt then extend_chain clus s1 else (s1, Some nxt)) in
      case r of
        None \<Rightarrow> (s2, None)
      | Some nxt' \<Rightarrow>
          let clus' = (if FAT12_EOC \<le> nxt' then 0 else nxt') in
          if clus' = 0 then (s2, None) else write_skip n clus' s2)"

fun write_secs :: "u32 \<Rightarrow> nat list \<Rightarrow> u8 list \<Rightarrow> fatfs \<Rightarrow> nat \<Rightarrow> nat \<Rightarrow> fatfs \<times> nat \<times> nat" where
  "write_secs clba [] src s off done = (s, off, done)"
| "write_secs clba (k # ks) src s off done =
     (if length src \<le> done then (s, off, done)
      else if 512 \<le> off then write_secs clba ks src s (off - 512) done
      else let s1 = fst (read_sector (clba + word_of_nat k) s); n = min (length src - done) (512 - off);
               s2 = s1\<lparr>g_buf := splice off (slice done n src) (g_buf s1)\<rparr>
           in write_secs clba ks src (fst (write_sector (clba + word_of_nat k) s2)) 0 (done + n))"

partial_function (option) write_clus :: "u8 list \<Rightarrow> u16 \<Rightarrow> fatfs \<Rightarrow> nat \<Rightarrow> nat \<Rightarrow> (fatfs \<times> nat) option" where
  "write_clus src clus s off done =
     (if done < length src \<and> 2 \<le> clus \<and> clus < FAT12_EOC
      then let (s1, off1, done1) = write_secs (cluster_lba s clus) [0..<unat (g_sec_per_clus s)] src s off done in
           if done1 < length src
           then let (s2, nxt) = fat_get clus s1;
                    (s3, r) = (if FAT12_EOC \<le> nxt then extend_chain clus s2 else (s2, Some nxt)) in
                case r of None \<Rightarrow> Some (s3, done1) | Some nxt' \<Rightarrow> write_clus src nxt' s3 off1 done1
           else Some (s1, done1)
      else Some (s, done))"

definition fat12_write :: "int \<Rightarrow> u8 list \<Rightarrow> fatfs \<Rightarrow> (fatfs \<times> int) option" where
  "fat12_write fd src s =
     (if \<not> fd_is_valid s fd then Some (s, -1)
      else if src = [] then Some (s, 0)
      else
        let (s1, ok) = (if ff_first (g_fds s ! nat fd) = 0
                        then let (t, c) = fat_alloc s in
                             if c = 0 then (t, False)
                             else (zero_cluster c (upd_fd fd (\<lambda>f. f\<lparr>ff_first := c\<rparr>) t), True)
                        else (s, True)) in
        if \<not> ok then Some (s1, -1)
        else
          let f = g_fds s1 ! nat fd in
          case write_skip (unat (ff_pos f div cluster_size s1)) (ff_first f) s1 of
            (s2, None) \<Rightarrow> Some (s2, 0)
          | (s2, Some clus) \<Rightarrow>
              map_option (\<lambda>(s3, done).
                  (upd_fd fd (\<lambda>f. let p = ff_pos f + word_of_nat done in
                                 f\<lparr>ff_pos := p, ff_size := (if ff_size f < p then p else ff_size f)\<rparr>) s3,
                   to_int done))
                (write_clus src clus s2 (unat (ff_pos f mod cluster_size s1)) 0))"

subsection \<open>Flush, close, size\<close>

definition fat12_flush :: "int \<Rightarrow> fatfs \<Rightarrow> fatfs" where
  "fat12_flush fd s =
     (if \<not> fd_is_valid s fd then s
      else
        let f = g_fds s ! nat fd in
        case dir_read_entry (g_root_lba s) (ff_parent f) (ff_idx f) s of
          (s1, None) \<Rightarrow> s1
        | (s1, Some e) \<Rightarrow>
            fst (dir_write_entry (g_root_lba s1) (ff_parent f) (ff_idx f)
                   (e\<lparr>file_size := ff_size f, first_cluster := ff_first f\<rparr>) s1))"

definition fat12_close :: "int \<Rightarrow> fatfs \<Rightarrow> fatfs" where
  "fat12_close fd s =
     (if fd < 0 \<or> int FAT12_MAX_FDS \<le> fd then s
      else upd_fd fd (\<lambda>f. f\<lparr>ff_used := False\<rparr>) (fat12_flush fd s))"

definition fat12_size :: "int \<Rightarrow> fatfs \<Rightarrow> int" where
  "fat12_size fd s = (if \<not> fd_is_valid s fd then -1 else sint (ff_size (g_fds s ! nat fd)))"

subsection \<open>Delete, rename, mkdir, rmdir\<close>

definition free_entry_chain :: "dir_entry \<Rightarrow> fatfs \<Rightarrow> fatfs option" where
  "free_entry_chain e s = (if 2 \<le> first_cluster e then fat_free_chain (first_cluster e) s else Some s)"

definition mark_deleted :: "dir_entry \<Rightarrow> dir_entry" where
  "mark_deleted e = e\<lparr>de_name := (de_name e)[0 := DIR_FREE]\<rparr>"

definition fat12_delete :: "u8 list \<Rightarrow> fatfs \<Rightarrow> (fatfs \<times> bool) option" where
  "fat12_delete path s =
     (case resolve_path path s of
        (s1, None) \<Rightarrow> Some (s1, False)
      | (s1, Some (dc, target)) \<Rightarrow>
          if target ! 0 = 0 then Some (s1, False)
          else case find_in_dir dc target s1 of
                 (s2, None) \<Rightarrow> Some (s2, False)
               | (s2, Some (idx, e)) \<Rightarrow>
                   if de_attr e AND ATTR_DIR \<noteq> 0 then Some (s2, False)
                   else map_option (\<lambda>s3. (fst (dir_write_entry (g_root_lba s3) dc idx (mark_deleted e) s3), True))
                          (free_entry_chain e s2))"

definition fat12_rename :: "u8 list \<Rightarrow> u8 list \<Rightarrow> fatfs \<Rightarrow> fatfs \<times> bool" where
  "fat12_rename old_path new_path s =
     (case resolve_path old_path s of
        (s1, None) \<Rightarrow> (s1, False)
      | (s1, Some (old_dir, old_83)) \<Rightarrow>
          if old_83 ! 0 = 0 then (s1, False)
          else case find_in_dir old_dir old_83 s1 of
                 (s2, None) \<Rightarrow> (s2, False)
               | (s2, Some (idx, e)) \<Rightarrow>
                   case resolve_path new_path s2 of
                     (s3, None) \<Rightarrow> (s3, False)
                   | (s3, Some (new_dir, new_83)) \<Rightarrow>
                       if new_83 ! 0 = 0 then (s3, False)
                       else case find_in_dir new_dir new_83 s3 of
                              (s4, Some _) \<Rightarrow> (s4, False)
                            | (s4, None) \<Rightarrow>
                                (fst (dir_write_entry (g_root_lba s4) old_dir idx (set_name11 new_83 e) s4), True))"

definition fat12_mkdir :: "u8 list \<Rightarrow> fatfs \<Rightarrow> (fatfs \<times> bool) option" where
  "fat12_mkdir path s =
     (case resolve_path path s of
        (s1, None) \<Rightarrow> Some (s1, False)
      | (s1, Some (dc, target)) \<Rightarrow>
          if target ! 0 = 0 then Some (s1, False)
          else case find_in_dir dc target s1 of
                 (s2, Some _) \<Rightarrow> Some (s2, False)
               | (s2, None) \<Rightarrow>
                   let (s3, new_clus) = fat_alloc s2 in
                   if new_clus = 0 then Some (s3, False)
                   else map_option (\<lambda>(s5, slot). case slot of
                            None \<Rightarrow> (fat_set new_clus FAT12_FREE s5, False)
                          | Some idx \<Rightarrow>
                              dir_write_entry (g_root_lba s5) dc idx
                                (set_name11 target (dirent0\<lparr>de_attr := ATTR_DIR, first_cluster := new_clus, file_size := 0\<rparr>)) s5)
                          (alloc_dir_entry dc (zero_cluster new_clus s3)))"

text \<open>The dot entries \<^verbatim>\<open>.\<close> and \<^verbatim>\<open>..\<close>.\<close>

definition dot_entry :: "dir_entry \<Rightarrow> bool" where
  "dot_entry e \<longleftrightarrow> de_name e ! 0 = 0x2E
     \<and> (de_name e ! 1 = 0x20 \<or> de_name e ! 1 = 0x2E \<and> de_name e ! 2 = 0x20)"

fun dir_is_empty :: "u16 \<Rightarrow> nat list \<Rightarrow> fatfs \<Rightarrow> fatfs \<times> bool" where
  "dir_is_empty dc [] s = (s, True)"
| "dir_is_empty dc (i # is) s =
     (case dir_read_entry (g_root_lba s) dc i s of
        (s1, None) \<Rightarrow> (s1, True)
      | (s1, Some e) \<Rightarrow>
          if name_first e = DIR_END then (s1, True)
          else if name_first e = DIR_FREE then dir_is_empty dc is s1
          else if de_attr e AND ATTR_LFN \<noteq> 0 then dir_is_empty dc is s1
          else if dot_entry e then dir_is_empty dc is s1
          else (s1, False))"

definition fat12_rmdir :: "u8 list \<Rightarrow> fatfs \<Rightarrow> (fatfs \<times> bool) option" where
  "fat12_rmdir path s =
     (case resolve_path path s of
        (s1, None) \<Rightarrow> Some (s1, False)
      | (s1, Some (dc, target)) \<Rightarrow>
          if target ! 0 = 0 then Some (s1, False)
          else case find_in_dir dc target s1 of
                 (s2, None) \<Rightarrow> Some (s2, False)
               | (s2, Some (idx, e)) \<Rightarrow>
                   if de_attr e AND ATTR_DIR = 0 then Some (s2, False)
                   else
                     let (s3, empty) = dir_is_empty (first_cluster e) [0..<max_ents s2 (first_cluster e)] s2 in
                     if \<not> empty then Some (s3, False)
                     else map_option (\<lambda>s4. dir_write_entry (g_root_lba s4) dc idx (mark_deleted e) s4)
                            (free_entry_chain e s3))"

subsection \<open>Ls\<close>

text \<open>The calls of the callback, in order: name, size, directory flag.\<close>

fun dir_list :: "u16 \<Rightarrow> nat list \<Rightarrow> fatfs \<Rightarrow> fatfs \<times> (u8 list \<times> u32 \<times> bool) list" where
  "dir_list dc [] s = (s, [])"
| "dir_list dc (i # is) s =
     (case dir_read_entry (g_root_lba s) dc i s of
        (s1, None) \<Rightarrow> (s1, [])
      | (s1, Some e) \<Rightarrow>
          if name_first e = DIR_END then (s1, [])
          else if name_first e = DIR_FREE then dir_list dc is s1
          else if de_attr e AND ATTR_LFN \<noteq> 0 then dir_list dc is s1
          else if dot_entry e then dir_list dc is s1
          else let (s2, l) = dir_list dc is s1
               in (s2, (from_83 (de_name11 e), file_size e, de_attr e AND ATTR_DIR \<noteq> 0) # l))"

text \<open>
  \<open>e0\<close> is what the uninitialised local entry holds: the code reads it when the search fails,
  because it tests \<^verbatim>\<open>!find_in_dir(...)\<close>, which is true for index 0 and false for -1.
\<close>

definition fat12_ls :: "dir_entry \<Rightarrow> u8 list option \<Rightarrow> fatfs \<Rightarrow> fatfs \<times> bool \<times> (u8 list \<times> u32 \<times> bool) list" where
  "fat12_ls e0 path s =
     (let finish = (\<lambda>dc s. let (s', l) = dir_list dc [0..<max_ents s dc] s in (s', True, l)) in
      case path of
        None \<Rightarrow> finish 0 s
      | Some p \<Rightarrow>
          if p = [] \<or> p = [0x2F] then finish 0 s
          else case resolve_path p s of
                 (s1, None) \<Rightarrow> (s1, False, [])
               | (s1, Some (dc, fn)) \<Rightarrow>
                   if fn ! 0 = 0 then finish dc s1
                   else case find_in_dir dc fn s1 of
                          (s2, r) \<Rightarrow>
                            let e = (case r of None \<Rightarrow> e0 | Some (i, e) \<Rightarrow> e) in
                            if (case r of None \<Rightarrow> False | Some (i, e) \<Rightarrow> i = 0) then (s2, False, [])
                            else if de_attr e AND ATTR_DIR = 0 then (s2, False, [])
                            else finish (first_cluster e) s2)"

end
