(* ===== verification/Fat_Dir_Spec.thy ===== *)
theory Fat_Dir_Spec
  imports Fat_Dir
begin

text \<open>
  What the directory routines of \<^verbatim>\<open>fat12.cpp\<close> compute on a working disk: the place of
  an entry as a function of the table, reading and writing as lookup and update of
  that place, search as the first match, and the layout of a volume under which writes to
  directories, to file data and to the table do not interfere.
\<close>

subsection \<open>The packed entry\<close>

lemma slice_all: "length xs = 8 \<Longrightarrow> take 8 (xs @ ys) = xs"
  by simp

lemma list11:
  assumes "length n = 8" "length x = 3"
  shows "\<exists>a b c d e f g h i j k. n = [a, b, c, d, e, f, g, h] \<and> x = [i, j, k]"
  using assms by (auto simp: length_Suc_conv numeral_eq_Suc)

lemma dirent_of_bytes:
  assumes "length (de_name e) = 8" "length (de_ext e) = 3"
  shows "dirent_of (dirent_bytes e) = e"
proof -
  obtain a b c d f g h i j k l where "de_name e = [a, b, c, d, f, g, h, i]" "de_ext e = [j, k, l]"
    using list11 [OF assms] by blast
  then show ?thesis
    by (cases e) (simp add: dirent_of_def dirent_bytes_def slice_def bytes16_def bytes32_def)
qed

lemma dirent_of_names: "length b = 32 \<Longrightarrow> length (de_name (dirent_of b)) = 8 \<and> length (de_ext (dirent_of b)) = 3"
  by (simp add: dirent_of_def)

lemma length_dirent_bytes:
  "length (de_name e) = 8 \<Longrightarrow> length (de_ext e) = 3 \<Longrightarrow> length (dirent_bytes e) = 32"
  by (simp add: dirent_bytes_def)

lemma dirent_bytes_of:
  assumes "length b = 32" shows "dirent_bytes (dirent_of b) = b"
proof -
  have b: "b = map ((!) b) [0..<32]" using assms by (simp add: list_eq_iff_nth_eq)
  have "take 8 b = map ((!) b) [0..<8]" "slice 8 3 b = map ((!) b) [8..<11]"
    using assms by (auto simp: list_eq_iff_nth_eq slice_def numeral_3_eq_3 less_Suc_eq)
  moreover have "[0..<32] = [0..<8] @ [8..<32]" using upt_add_eq_append [of 0 8 24] by simp
  ultimately show ?thesis
    by (subst (2) b) (simp add: dirent_bytes_def dirent_of_def)
qed

subsection \<open>Where an entry is\<close>

fun fat_walk :: "(u16 \<Rightarrow> u16) \<Rightarrow> nat \<Rightarrow> u16 \<Rightarrow> u16 option" where
  "fat_walk E 0 c = Some c"
| "fat_walk E (Suc n) c = (if FAT12_EOC \<le> E c then None else fat_walk E n (E c))"

lemma fat_skip_spec:
  "disk_ok s \<Longrightarrow> snd (fat_skip n c s) = fat_walk (fat_of s) n c \<and> reads s (fst (fat_skip n c s))"
proof (induction n arbitrary: c s)
  case 0
  then show ?case by (simp add: reads_refl)
next
  case (Suc n)
  obtain s1 nx where g: "fat_get c s = (s1, nx)" by fastforce
  have s1: "nx = fat_of s c" "reads s s1"
    using fat.get_entry [OF Suc.prems, of c] fat_get_spec(2) [OF Suc.prems, of c] g by simp_all
  have D1: "disk_ok s1" by (rule reads_disk_ok [OF s1(2) Suc.prems])
  show ?case using Suc.IH [OF D1, of nx] s1 fat_of_reads [OF s1(2)] reads_trans [OF s1(2)] by (simp add: g)
qed

definition dir_loc :: "fatfs \<Rightarrow> u16 \<Rightarrow> nat \<Rightarrow> (u32 \<times> nat) option" where
  "dir_loc s dc idx =
     (if dc = 0
      then if unat (g_root_entries s) \<le> idx then None
           else Some (g_root_lba s + word_of_nat (idx div 16), idx mod 16)
      else map_option (\<lambda>c. (cluster_lba s c + word_of_nat (idx mod entries_per_clus s div 16),
                            idx mod entries_per_clus s mod 16))
             (fat_walk (fat_of s) (idx div entries_per_clus s) dc))"

definition entry_at :: "fatfs \<Rightarrow> u16 \<Rightarrow> nat \<Rightarrow> dir_entry option" where
  "entry_at s dc idx = map_option (\<lambda>(l, k). dirent_of (slice (k * 32) 32 (disk s l))) (dir_loc s dc idx)"

lemma dir_loc_less: "dir_loc s dc idx = Some (l, k) \<Longrightarrow> k < 16"
  by (auto simp: dir_loc_def split: if_splits)

lemma reads_read: "disk_ok s \<Longrightarrow> reads s s1 \<Longrightarrow> reads s (s1\<lparr>g_buf := disk s1 lba\<rparr>)"
  unfolding reads_def by (elim exE, rule exI [of _ "disk s1 lba"]) (auto simp: disk_ok_len)

lemma dir_read_entry_spec:
  assumes D: "disk_ok s"
  shows "snd (dir_read_entry (g_root_lba s) dc idx s) = entry_at s dc idx"
    "reads s (fst (dir_read_entry (g_root_lba s) dc idx s))"
proof -
  let ?n = "idx div entries_per_clus s"
  obtain s1 r where k: "fat_skip ?n dc s = (s1, r)" by fastforce
  have r: "r = fat_walk (fat_of s) ?n dc" "reads s s1" using fat_skip_spec [OF D, of ?n dc] k by simp_all
  have D1: "disk_ok s1" by (rule reads_disk_ok [OF r(2) D])
  have c: "cluster_lba s1 = cluster_lba s" "disk s1 = disk s"
    using reads_fields [OF r(2)] by (auto simp: cluster_lba_def fun_eq_iff)
  have "snd (dir_read_entry (g_root_lba s) dc idx s) = entry_at s dc idx
      \<and> reads s (fst (dir_read_entry (g_root_lba s) dc idx s))"
    using reads_refl [OF D] r(2) reads_read [OF D r(2)] read_sector_reads [OF D]
    by (auto simp: dir_read_entry_def entry_at_def dir_loc_def Let_def k read_sector_ok [OF D] read_sector_ok [OF D1]
        c r(1) split: option.splits)
  then show "snd (dir_read_entry (g_root_lba s) dc idx s) = entry_at s dc idx"
    "reads s (fst (dir_read_entry (g_root_lba s) dc idx s))" by simp_all
qed

lemma reads_put:
  assumes "disk_ok s" "reads s s1"
  shows "put_entry_at l k e s1
    = s\<lparr>g_buf := splice (k * 32) (dirent_bytes e) (disk s l),
        disk := (disk s)(l := splice (k * 32) (dirent_bytes e) (disk s l))\<rparr>"
proof -
  obtain b where "s1 = s\<lparr>g_buf := b\<rparr>" using assms(2) by (auto simp: reads_def)
  with assms(1) show ?thesis
    by (simp add: put_entry_at_def Let_def read_sector_def write_sector_def disk_ok_def)
qed

lemma dir_write_entry_spec:
  assumes D: "disk_ok s"
  shows "case dir_loc s dc idx of
      None \<Rightarrow> \<not> snd (dir_write_entry (g_root_lba s) dc idx e s) \<and> reads s (fst (dir_write_entry (g_root_lba s) dc idx e s))
    | Some (l, k) \<Rightarrow> dir_write_entry (g_root_lba s) dc idx e s =
        (s\<lparr>g_buf := splice (k * 32) (dirent_bytes e) (disk s l),
           disk := (disk s)(l := splice (k * 32) (dirent_bytes e) (disk s l))\<rparr>, True)"
proof -
  let ?n = "idx div entries_per_clus s"
  obtain s1 r where k: "fat_skip ?n dc s = (s1, r)" by fastforce
  have r: "r = fat_walk (fat_of s) ?n dc" "reads s s1" using fat_skip_spec [OF D, of ?n dc] k by simp_all
  have c: "cluster_lba s1 = cluster_lba s"
    using reads_fields [OF r(2)] by (auto simp: cluster_lba_def fun_eq_iff)
  show ?thesis
    using reads_refl [OF D] r(2)
    by (auto simp: dir_write_entry_def dir_loc_def Let_def k c r(1) reads_put [OF D reads_refl [OF D]]
        reads_put [OF D r(2)] split: option.splits)
qed

subsection \<open>The layout of a volume\<close>

text \<open>Tables, root directory and data clusters follow each other without overlap, below 2^32 sectors.\<close>

definition vol_ok :: "fatfs \<Rightarrow> bool" where
  "vol_ok s \<longleftrightarrow> fat_ok s \<and> 0 < unat (g_sec_per_clus s)
     \<and> 0 < unat (g_num_fats s)
     \<and> unat (g_fat_lba s) + unat (g_num_fats s) * unat (g_fat_size s) \<le> unat (g_root_lba s)
     \<and> unat (g_root_lba s) + (unat (g_root_entries s) + 15) div 16 \<le> unat (g_data_lba s)
     \<and> unat (g_data_lba s) + unat (g_total_clusters s) * unat (g_sec_per_clus s) \<le> 4294967296"

definition data_cluster :: "fatfs \<Rightarrow> u16 \<Rightarrow> bool" where
  "data_cluster s c \<longleftrightarrow> 2 \<le> c \<and> unat c < unat (g_total_clusters s) + 2"

lemma vol_ok_fat: "vol_ok s \<Longrightarrow> fat_ok s" "vol_ok s \<Longrightarrow> disk_ok s"
  by (simp_all add: vol_ok_def fat_ok_def)

lemma data_cluster_in_fat: "vol_ok s \<Longrightarrow> data_cluster s c \<Longrightarrow> in_fat s c"
proof -
  assume v: "vol_ok s" and c: "data_cluster s c"
  have f: "fat_ok s" "g_total_clusters s \<le> 4085" using v by (simp_all add: vol_ok_def fat_ok_def)
  from c have "c \<in> set (map word_of_nat [2..<unat (g_total_clusters s + 2)])"
    unfolding fat_range [OF f(2)] by (simp add: data_cluster_def)
  with alloc_range [OF f(1)] show ?thesis by blast
qed

lemma unat_ucast_u16: "unat (ucast (c :: u16) :: u32) = unat c"
proof -
  have "unat c < 2 ^ 32" by (rule less_trans [OF unat_u16_less]) simp
  then show ?thesis by (simp add: unsigned_ucast_eq take_bit_nat_eq_self)
qed

lemma cluster_sec:
  assumes "vol_ok s" "data_cluster s c" "k < unat (g_sec_per_clus s)"
  shows "unat (cluster_lba s c + word_of_nat k) = unat (g_data_lba s) + (unat c - 2) * unat (g_sec_per_clus s) + k"
proof -
  let ?n = "unat (g_sec_per_clus s)" and ?t = "unat (g_total_clusters s)"
  have c: "2 \<le> unat c" "unat c - 2 < ?t" using assms(2) by (auto simp: data_cluster_def word_le_nat_alt)
  have "Suc (unat c - 2) * ?n \<le> ?t * ?n" using c(2) by (intro mult_le_mono1) simp
  then have b: "unat (g_data_lba s) + ((unat c - 2) * ?n + k) < 4294967296"
    using assms(1,3) by (auto simp: vol_ok_def)
  have u: "unat (ucast c - 2 :: u32) = unat c - 2"
    using c(1) by (subst unat_sub_u32) (simp_all add: unat_ucast_u16 word_le_nat_alt)
  have m: "unat ((ucast c - 2) * ucast (g_sec_per_clus s) :: u32) = (unat c - 2) * ?n"
  proof -
    have "(unat c - 2) * ?n < 4294967296" using b by linarith
    then show ?thesis using u by (subst unat_mult_u32) (simp_all add: unat_ucast_u16)
  qed
  have l: "unat (cluster_lba s c) = unat (g_data_lba s) + (unat c - 2) * ?n"
    unfolding cluster_lba_def using m b by (subst unat_add_u32) simp_all
  have "unat (word_of_nat k :: u32) = k" using b by (intro unat_of_nat_u32) linarith
  then show ?thesis using l b by (subst unat_add_u32) simp_all
qed

lemma cluster_sec_inj:
  assumes "vol_ok s" "data_cluster s c" "data_cluster s d" "k < unat (g_sec_per_clus s)" "j < unat (g_sec_per_clus s)"
    "cluster_lba s c + word_of_nat k = cluster_lba s d + word_of_nat j"
  shows "c = d \<and> k = j"
proof -
  let ?n = "unat (g_sec_per_clus s)"
  have "(unat c - 2) * ?n + k = (unat d - 2) * ?n + j"
    using cluster_sec [OF assms(1,2,4)] cluster_sec [OF assms(1,3,5)] assms(6) by simp
  moreover have "((unat c - 2) * ?n + k) div ?n = unat c - 2" "((unat c - 2) * ?n + k) mod ?n = k"
    "((unat d - 2) * ?n + j) div ?n = unat d - 2" "((unat d - 2) * ?n + j) mod ?n = j"
    using assms(4,5) by simp_all
  ultimately have "unat c - 2 = unat d - 2" "k = j" by metis+
  moreover have "2 \<le> unat c" "2 \<le> unat d" using assms(2,3) by (auto simp: data_cluster_def word_le_nat_alt)
  ultimately show ?thesis by (simp add: word_unat_eq_iff)
qed

lemma root_sec:
  assumes "vol_ok s" "i < unat (g_root_entries s)"
  shows "unat (g_root_lba s + word_of_nat (i div 16)) = unat (g_root_lba s) + i div 16"
    "unat (g_root_lba s) + i div 16 < unat (g_data_lba s)"
proof -
  have "i div 16 < (unat (g_root_entries s) + 15) div 16" using assms(2) by linarith
  then show b: "unat (g_root_lba s) + i div 16 < unat (g_data_lba s)" using assms(1) by (simp add: vol_ok_def)
  then have lt: "unat (g_root_lba s) + i div 16 < 4294967296" by (rule less_trans) (rule unat_u32_less)
  then have "unat (word_of_nat (i div 16) :: u32) = i div 16" by (intro unat_of_nat_u32) linarith
  then show "unat (g_root_lba s + word_of_nat (i div 16)) = unat (g_root_lba s) + i div 16"
    using lt by (subst unat_add_u32) simp_all
qed

lemma fat_sector_below:
  assumes "vol_ok s" "fat_sector s l"
  shows "unat l < unat (g_root_lba s)"
proof -
  let ?f = "unat (g_fat_size s)"
  have v: "unat (g_fat_lba s) + unat (g_num_fats s) * ?f \<le> unat (g_root_lba s)" "0 < unat (g_num_fats s)"
    using assms(1) by (simp_all add: vol_ok_def)
  have add: "unat (g_fat_lba s + word_of_nat m) = unat (g_fat_lba s) + m"
    if "unat (g_fat_lba s) + m < unat (g_root_lba s)" for m
  proof -
    have b: "unat (g_fat_lba s) + m < 4294967296" using that by (rule less_trans) (rule unat_u32_less)
    then have "unat (word_of_nat m :: u32) = m" by (intro unat_of_nat_u32) linarith
    then show ?thesis using b by (subst unat_add_u32) simp_all
  qed
  from assms(2) obtain q where q: "q < ?f"
    "l = g_fat_lba s + word_of_nat q \<or> 1 < g_num_fats s \<and> l = fat2_lba s + word_of_nat q"
    by (auto simp: fat_sector_def)
  from q(2) show ?thesis
  proof
    assume l: "l = g_fat_lba s + word_of_nat q"
    have "1 * ?f \<le> unat (g_num_fats s) * ?f" using v(2) by (intro mult_le_mono1) simp
    then have "unat (g_fat_lba s) + q < unat (g_root_lba s)" using q(1) v(1) by linarith
    then show ?thesis using add l by simp
  next
    assume l: "1 < g_num_fats s \<and> l = fat2_lba s + word_of_nat q"
    then have "2 \<le> unat (g_num_fats s)" by (simp add: word_less_nat_alt)
    then have "2 * ?f \<le> unat (g_num_fats s) * ?f" by (intro mult_le_mono1)
    then have b: "unat (g_fat_lba s) + (?f + q) < unat (g_root_lba s)" using q(1) v(1) by linarith
    have "(ucast (g_fat_size s) :: u32) = word_of_nat ?f" by (simp add: of_nat_unat)
    then have "l = g_fat_lba s + word_of_nat (?f + q)"
      using l by (simp only: fat2_lba_def of_nat_add add.assoc)
    then show ?thesis using add [OF b] b by simp
  qed
qed

lemma fat_of_write:
  assumes "\<And>l. fat_sector s l \<Longrightarrow> d l = disk s l" "in_fat s c"
  shows "fat_of (s\<lparr>g_buf := b, disk := d\<rparr>) c = fat_of s c"
proof -
  have "d (g_fat_lba s + word_of_nat (j div 512)) = disk s (g_fat_lba s + word_of_nat (j div 512))"
    if "j div 512 < unat (g_fat_size s)" for j
    using that by (intro assms(1)) (auto simp: fat_sector_def)
  with in_fat_secs [OF assms(2)] show ?thesis
    by (simp add: fat_of_def fat_entry_def sec_byte_def Suc_eq_plus1 [symmetric])
qed

subsection \<open>Directories do not interfere\<close>

text \<open>\<open>dir_ok s dc cs\<close>: \<open>dc\<close> is the root, or the chain from \<open>dc\<close> is the data clusters \<open>cs\<close>.\<close>

definition dir_ok :: "fatfs \<Rightarrow> u16 \<Rightarrow> u16 list \<Rightarrow> bool" where
  "dir_ok s dc cs \<longleftrightarrow> dc = 0 \<or> dc \<noteq> 0 \<and> fat_chain (fat_of s) dc cs \<and> distinct cs \<and> list_all (data_cluster s) cs"

lemma fat_walk_chain:
  "fat_chain E c cs \<Longrightarrow> fat_walk E n c = (if n < length cs then Some (cs ! n) else None)"
proof (induction E c cs arbitrary: n rule: fat_chain.induct)
  case (2 E c x)
  then show ?case by (cases n) auto
next
  case (3 E c x y xs)
  then show ?case by (cases n) (auto simp: not_le)
qed simp

lemma entries_per_clus_eq: "entries_per_clus s = unat (g_sec_per_clus s) * 16"
proof -
  have "unat (ucast (g_sec_per_clus s) * 512 :: u32) = unat (g_sec_per_clus s) * 512"
  proof -
    have "unat (g_sec_per_clus s) < 65536" by (rule unat_u16_less)
    then have "unat (g_sec_per_clus s) * 512 < 4294967296" by linarith
    then show ?thesis by (subst unat_mult_u32) (simp_all add: unat_ucast_u16)
  qed
  then show ?thesis by (simp add: entries_per_clus_def cluster_size_def unat_div)
qed

lemma dir_loc_sub:
  assumes "dir_ok s dc cs" "dc \<noteq> 0"
  shows "dir_loc s dc i = (let e = entries_per_clus s in
    if i div e < length cs then Some (cluster_lba s (cs ! (i div e)) + word_of_nat (i mod e div 16), i mod e mod 16)
    else None)"
  using assms fat_walk_chain [of "fat_of s" dc cs] by (simp add: dir_ok_def dir_loc_def Let_def)

lemma dir_loc_subD:
  assumes V: "vol_ok s" and D: "dir_ok s dc cs" "dc \<noteq> 0" and i: "dir_loc s dc i = Some (l, k)"
  defines "e \<equiv> entries_per_clus s"
  shows "i div e < length cs" "l = cluster_lba s (cs ! (i div e)) + word_of_nat (i mod e div 16)"
    "k = i mod e mod 16" "i mod e div 16 < unat (g_sec_per_clus s)" "data_cluster s (cs ! (i div e))"
proof -
  have "(if i div e < length cs then Some (cluster_lba s (cs ! (i div e)) + word_of_nat (i mod e div 16), i mod e mod 16)
    else None) = Some (l, k)"
    using i unfolding dir_loc_sub [OF D] Let_def e_def .
  then show l: "i div e < length cs" "l = cluster_lba s (cs ! (i div e)) + word_of_nat (i mod e div 16)"
    "k = i mod e mod 16" by (simp_all split: if_splits)
  have n: "e = unat (g_sec_per_clus s) * 16" "0 < unat (g_sec_per_clus s)"
    using V entries_per_clus_eq [of s] by (simp_all add: vol_ok_def e_def)
  then have "i mod e < unat (g_sec_per_clus s) * 16" by simp
  then show "i mod e div 16 < unat (g_sec_per_clus s)" by (rule less_mult_imp_div_less)
  show "data_cluster s (cs ! (i div e))" using D l(1) by (simp add: dir_ok_def list_all_length)
qed

lemma nat_div_mod_eqI: "(i :: nat) div n = j div n \<Longrightarrow> i mod n = j mod n \<Longrightarrow> i = j"
  by (metis div_mult_mod_eq)

lemma dir_loc_rootD:
  "dir_loc s 0 i = Some (l, k) \<Longrightarrow> i < unat (g_root_entries s)"
  "dir_loc s 0 i = Some (l, k) \<Longrightarrow> l = g_root_lba s + word_of_nat (i div 16)"
  "dir_loc s 0 i = Some (l, k) \<Longrightarrow> k = i mod 16"
  by (simp_all add: dir_loc_def split: if_splits)

lemma dir_loc_inj:
  assumes V: "vol_ok s" and D: "dir_ok s dc cs" and i: "dir_loc s dc i = Some (l, k)" and j: "dir_loc s dc j = Some (l, k)"
  shows "i = j"
proof (cases "dc = 0")
  case True
  note ri = dir_loc_rootD [OF i [unfolded True]] and rj = dir_loc_rootD [OF j [unfolded True]]
  have "unat l = unat (g_root_lba s) + i div 16" unfolding ri(2) by (rule root_sec(1) [OF V ri(1)])
  moreover have "unat l = unat (g_root_lba s) + j div 16" unfolding rj(2) by (rule root_sec(1) [OF V rj(1)])
  ultimately have "i div 16 = j div 16" by linarith
  moreover have e: "k = i mod 16" "i mod 16 = j mod 16" using ri(3) rj(3) by simp_all
  ultimately have "i div 16 = j div 16" by blast
  then show ?thesis using e(2) by (rule nat_div_mod_eqI)
next
  case False
  note di = dir_loc_subD [OF V D False i] and dj = dir_loc_subD [OF V D False j]
  let ?e = "entries_per_clus s"
  have "cluster_lba s (cs ! (i div ?e)) + word_of_nat (i mod ?e div 16)
      = cluster_lba s (cs ! (j div ?e)) + word_of_nat (j mod ?e div 16)"
    using di(2) dj(2) by (rule trans [OF sym])
  note c = cluster_sec_inj [OF V di(5) dj(5) di(4) dj(4) this]
  then have "cs ! (i div ?e) = cs ! (j div ?e)" by (rule conjunct1)
  moreover have "distinct cs" using D False by (simp add: dir_ok_def)
  ultimately have "i div ?e = j div ?e" using di(1) dj(1) nth_eq_iff_index_eq by metis
  moreover from c have "i mod ?e div 16 = j mod ?e div 16" by (rule conjunct2)
  then have "i mod ?e = j mod ?e" by (rule nat_div_mod_eqI) (rule trans [OF di(3) [symmetric] dj(3)])
  ultimately show ?thesis by (rule nat_div_mod_eqI)
qed

lemma dir_loc_not_fat:
  assumes V: "vol_ok s" and D: "dir_ok s dc cs" and i: "dir_loc s dc i = Some (l, k)"
  shows "\<not> fat_sector s l"
proof (cases "dc = 0")
  case True
  with i have b: "i < unat (g_root_entries s)" and l: "l = g_root_lba s + word_of_nat (i div 16)"
    by (auto simp: dir_loc_def split: if_splits)
  with root_sec(1) [OF V b] fat_sector_below [OF V, of l] show ?thesis by auto
next
  case False
  note di = dir_loc_subD [OF V D False i]
  from cluster_sec [OF V di(5,4)] di(2) have "unat (g_data_lba s) \<le> unat l" by simp
  moreover have "unat (g_root_lba s) \<le> unat (g_data_lba s)" using V by (simp add: vol_ok_def)
  ultimately show ?thesis using fat_sector_below [OF V, of l] by auto
qed

text \<open>Writing an entry keeps the volume, the table and every directory in place.\<close>

lemma dir_ok_cong:
  assumes "vol_ok s" "dir_ok s dc cs" "\<And>c. in_fat s c \<Longrightarrow> fat_of s' c = fat_of s c"
    "data_cluster s' = data_cluster s"
  shows "dir_ok s' dc cs"
proof -
  have "\<forall>c \<in> set cs. in_fat s c" if "dc \<noteq> 0"
    using assms(1,2) that data_cluster_in_fat by (auto simp: dir_ok_def list_all_iff)
  then show ?thesis
    using assms(2-4) fat.fat_chain_cong [of cs "fat_of s'" "fat_of s" dc] by (auto simp: dir_ok_def)
qed

lemma splice_entry_len:
  "length b = 512 \<Longrightarrow> k < 16 \<Longrightarrow> length x = 32 \<Longrightarrow> length (splice (k * 32) x b) = 512"
  by simp

lemma dir_write_frame:
  assumes V: "vol_ok s" and D: "dir_ok s dc cs" and i: "dir_loc s dc i = Some (l, k)"
    and e: "length (de_name e) = 8" "length (de_ext e) = 3"
  defines "s' \<equiv> s\<lparr>g_buf := splice (k * 32) (dirent_bytes e) (disk s l),
                    disk := (disk s)(l := splice (k * 32) (dirent_bytes e) (disk s l))\<rparr>"
  shows "vol_ok s'" "in_fat s c \<Longrightarrow> fat_of s' c = fat_of s c" "dir_ok s dc' cs' \<Longrightarrow> dir_ok s' dc' cs'"
    "dir_ok s dc' cs' \<Longrightarrow> dir_loc s' dc' j = dir_loc s dc' j"
    "dir_write_entry (g_root_lba s) dc i e s = (s', True)"
proof -
  have ok: "disk_ok s" using V by (rule vol_ok_fat)
  note k = dir_loc_less [OF i]
  have len: "length (splice (k * 32) (dirent_bytes e) (disk s l)) = 512"
    using ok k length_dirent_bytes [OF e] by (intro splice_entry_len) (simp_all add: disk_ok_len)
  have "disk_ok s'" unfolding s'_def by (rule disk_ok_upd [OF ok len]) (simp add: len disk_ok_len [OF ok])
  then show "vol_ok s'" using V by (simp add: vol_ok_def fat_ok_def s'_def)
  have nf: "\<not> fat_sector s l" by (rule dir_loc_not_fat [OF V D i])
  have F: "fat_of s' c = fat_of s c" if "in_fat s c" for c
    unfolding s'_def by (rule fat_of_write) (use nf that in auto)
  then show "in_fat s c \<Longrightarrow> fat_of s' c = fat_of s c" .
  have "data_cluster s' = data_cluster s" by (simp add: s'_def data_cluster_def fun_eq_iff)
  then have Dk: "dir_ok s' dc' cs'" if "dir_ok s dc' cs'" for dc' cs' using dir_ok_cong [OF V that F] by blast
  then show "dir_ok s dc' cs' \<Longrightarrow> dir_ok s' dc' cs'" .
  have g: "g_root_entries s' = g_root_entries s" "g_root_lba s' = g_root_lba s" "cluster_lba s' = cluster_lba s"
    "entries_per_clus s' = entries_per_clus s"
    by (simp_all add: s'_def cluster_lba_def entries_per_clus_eq fun_eq_iff)
  show "dir_loc s' dc' j = dir_loc s dc' j" if "dir_ok s dc' cs'"
  proof (cases "dc' = 0")
    case True
    then show ?thesis by (simp add: dir_loc_def g)
  next
    case False
    show ?thesis unfolding dir_loc_sub [OF that False] dir_loc_sub [OF Dk [OF that] False] g ..
  qed
  show "dir_write_entry (g_root_lba s) dc i e s = (s', True)"
    using dir_write_entry_spec [OF ok, of dc i e] i by (simp add: s'_def)
qed

text \<open>Two slots of a directory do not overlap: writing one leaves the bytes of the other.\<close>

lemma slot_apart:
  assumes "vol_ok s" "dir_ok s dc cs" "dir_loc s dc i = Some (l, k)" "dir_loc s dc j = Some (l', k')" "j \<noteq> i" "length bs = 32"
  shows "slice (k' * 32) 32 (if l' = l then splice (k * 32) bs (disk s l) else disk s l') = slice (k' * 32) 32 (disk s l')"
proof (cases "l' = l")
  case True
  note ok = vol_ok_fat(2) [OF assms(1)]
  have "k' < k \<or> k < k'" using dir_loc_inj [OF assms(1-3), of j] assms(4,5) True by (cases "k' = k") auto
  then have "k' * 32 + 32 \<le> k * 32 \<or> k * 32 + length bs \<le> k' * 32" using assms(6) by auto
  moreover have "k' * 32 + 32 \<le> length (disk s l)" "k * 32 + length bs \<le> length (disk s l)"
    using dir_loc_less [OF assms(4)] dir_loc_less [OF assms(3)] assms(6) by (simp_all add: disk_ok_len [OF ok])
  ultimately show ?thesis using True slice_splice_other [of "k * 32" bs "disk s l"] by simp
qed simp

text \<open>A directory behaves as an array of entries: writing slot \<open>i\<close> succeeds if and only if
  reading it does, reads back what was written, changes no other slot of the directory, and leaves the
  allocation table alone; this holds for the root and for cluster-chain directories alike.\<close>
theorem dir_write_read:
  assumes "vol_ok s" "dir_ok s dc cs" "length (de_name e) = 8" "length (de_ext e) = 3"
    "snd (dir_read_entry (g_root_lba s) dc i s) = Some old"
  shows "let s' = fst (dir_write_entry (g_root_lba s) dc i e s) in
     snd (dir_write_entry (g_root_lba s) dc i e s) \<and> vol_ok s' \<and> dir_ok s' dc cs
     \<and> snd (dir_read_entry (g_root_lba s') dc j s') =
         (if j = i then Some e else snd (dir_read_entry (g_root_lba s) dc j s))
     \<and> (\<forall>c. in_fat s c \<longrightarrow> fat_of s' c = fat_of s c)"
proof -
  have ok: "disk_ok s" using assms(1) by (rule vol_ok_fat)
  from assms(5) obtain l k where i: "dir_loc s dc i = Some (l, k)"
    unfolding dir_read_entry_spec(1) [OF ok] by (auto simp: entry_at_def)
  note fr = dir_write_frame [OF assms(1,2) i assms(3,4)]
  let ?s = "s\<lparr>g_buf := splice (k * 32) (dirent_bytes e) (disk s l),
              disk := (disk s)(l := splice (k * 32) (dirent_bytes e) (disk s l))\<rparr>"
  have len: "length (dirent_bytes e) = 32" by (rule length_dirent_bytes [OF assms(3,4)])
  have k: "k * 32 + length (dirent_bytes e) \<le> length (disk s l)"
    using dir_loc_less [OF i] len by (simp add: disk_ok_len [OF ok])
  have "entry_at ?s dc j = (if j = i then Some e else entry_at s dc j)"
  proof (cases "j = i")
    case True
    then show ?thesis
      using i slice_splice_same [OF k] len dirent_of_bytes [OF assms(3,4)]
      by (simp add: entry_at_def fr(4) [OF assms(2)])
  next
    case False
    show ?thesis
    proof (cases "dir_loc s dc j")
      case None
      then show ?thesis using False by (simp add: entry_at_def fr(4) [OF assms(2)])
    next
      case (Some lk)
      obtain l' k' where lk: "lk = (l', k')" by (cases lk)
      note slot_apart [OF assms(1,2) i Some [unfolded lk] False len]
      then show ?thesis using False Some lk by (auto simp: entry_at_def fr(4) [OF assms(2)])
    qed
  qed
  moreover have "g_root_lba ?s = g_root_lba s" by simp
  ultimately show ?thesis
    unfolding fr(5) Let_def fst_conv snd_conv using fr(1,2) fr(3) [OF assms(2)]
      dir_read_entry_spec(1) [OF vol_ok_fat(2) [OF fr(1)]] dir_read_entry_spec(1) [OF ok] by simp
qed

lemma fat_blank_vol: "vol_ok fat_blank"
  using fat_blank_ok by (simp add: vol_ok_def) (simp add: fat_blank_def)

lemma dir_write_read_witness:
  "snd (dir_write_entry (g_root_lba fat_blank) 0 5 dirent0 fat_blank)"
proof -
  have e: "length (de_name dirent0) = 8" "length (de_ext dirent0) = 3"
    by (simp_all add: dirent0_def dirent_of_def)
  have "snd (dir_read_entry (g_root_lba fat_blank) 0 5 fat_blank) = Some (dirent_of (replicate 32 0))"
    by (simp add: dir_read_entry_def Let_def fat_blank_def read_sector_def slice_def)
  from dir_write_read [OF fat_blank_vol _ e this, of "[]" 0] show ?thesis by (simp add: dir_ok_def Let_def)
qed

subsection \<open>Search\<close>

text \<open>
  \<open>listed s dc i e\<close>: slot \<open>i\<close> of the directory holds the visible entry \<open>e\<close>: it lies before
  the end mark and is neither deleted nor carries one of the bits of \<^verbatim>\<open>ATTR_LFN\<close>.
\<close>

definition listed :: "fatfs \<Rightarrow> u16 \<Rightarrow> nat \<Rightarrow> dir_entry \<Rightarrow> bool" where
  "listed s dc i e \<longleftrightarrow> i < max_ents s dc \<and> entry_at s dc i = Some e
     \<and> (\<forall>j \<le> i. \<exists>f. entry_at s dc j = Some f \<and> name_first f \<noteq> DIR_END)
     \<and> name_first e \<noteq> DIR_FREE \<and> de_attr e AND ATTR_LFN = 0"

lemma entry_at_reads:
  assumes "reads s s'"
  shows "entry_at s' = entry_at s" "max_ents s' = max_ents s"
proof -
  note r = reads_fields [OF assms] fat_of_reads [OF assms]
  have c: "cluster_lba s' = cluster_lba s" by (simp add: cluster_lba_def r fun_eq_iff)
  have e: "entries_per_clus s' = entries_per_clus s" by (simp add: entries_per_clus_eq r)
  have "dir_loc s' = dir_loc s" by (simp add: dir_loc_def r c e fun_eq_iff)
  then show "entry_at s' = entry_at s" by (simp add: entry_at_def r fun_eq_iff)
  show "max_ents s' = max_ents s" by (simp add: max_ents_def r fun_eq_iff)
qed

lemma listed_reads: "reads s s' \<Longrightarrow> listed s' = listed s"
  by (simp add: listed_def entry_at_reads fun_eq_iff)

lemma dir_find_spec:
  assumes "disk_ok s" "m \<le> n" "n = max_ents s dc"
    "\<forall>j<m. \<exists>f. entry_at s dc j = Some f \<and> name_first f \<noteq> DIR_END"
    "\<forall>j<m. \<forall>f. listed s dc j f \<longrightarrow> \<not> match_83 (de_name11 f) t"
  shows "reads s (fst (dir_find dc t [m..<n] s))
    \<and> (case snd (dir_find dc t [m..<n] s) of
         None \<Rightarrow> \<forall>j f. listed s dc j f \<longrightarrow> \<not> match_83 (de_name11 f) t
       | Some (i, e) \<Rightarrow> listed s dc i e \<and> match_83 (de_name11 e) t
           \<and> (\<forall>j<i. \<forall>f. listed s dc j f \<longrightarrow> \<not> match_83 (de_name11 f) t))"
  using assms
proof (induction "n - m" arbitrary: m s)
  case 0
  then have "\<not> j < max_ents s dc" if "m \<le> j" for j using that by simp
  then have "\<forall>j f. listed s dc j f \<longrightarrow> \<not> match_83 (de_name11 f) t"
    using 0(6) unfolding listed_def by (metis leI)
  then show ?case using 0 reads_refl [OF 0(2)] by simp
next
  case (Suc d)
  then have m: "m < n" "[m..<n] = m # [Suc m..<n]" by (simp_all add: upt_conv_Cons)
  obtain s1 r where rd: "dir_read_entry (g_root_lba s) dc m s = (s1, r)" by fastforce
  have r: "r = entry_at s dc m" "reads s s1" using dir_read_entry_spec [OF Suc.prems(1), of dc m] rd by simp_all
  have D1: "disk_ok s1" by (rule reads_disk_ok [OF r(2) Suc.prems(1)])
  note eq = listed_reads [OF r(2)] entry_at_reads [OF r(2)]
  have stop: "\<forall>j f. listed s dc j f \<longrightarrow> \<not> match_83 (de_name11 f) t"
    if "\<forall>e. r = Some e \<longrightarrow> name_first e = DIR_END"
  proof (intro allI impI)
    fix j f assume L: "listed s dc j f"
    then have "\<not> m \<le> j" using that r(1) by (fastforce simp: listed_def)
    then show "\<not> match_83 (de_name11 f) t" using Suc.prems(5) L by (meson not_le)
  qed
  show ?case
  proof (cases "\<forall>e. r = Some e \<longrightarrow> name_first e = DIR_END")
    case True
    then have "dir_find dc t [m..<n] s = (s1, None)" unfolding m(2) by (cases r) (simp_all add: rd)
    with stop [OF True] r(2) show ?thesis by simp
  next
    case False
    then obtain e where e: "r = Some e" "name_first e \<noteq> DIR_END" by blast
    have before: "\<forall>j<Suc m. \<exists>f. entry_at s dc j = Some f \<and> name_first f \<noteq> DIR_END"
      using Suc.prems(4) e r(1) by (auto simp: less_Suc_eq)
    have lm: "listed s dc m f \<longleftrightarrow> f = e \<and> name_first e \<noteq> DIR_FREE \<and> de_attr e AND ATTR_LFN = 0" for f
      using before m(1) Suc.prems(3) e r(1) by (auto simp: listed_def less_Suc_eq_le)
    show ?thesis
    proof (cases "listed s dc m e \<and> match_83 (de_name11 e) t")
      case True
      then have "dir_find dc t [m..<n] s = (s1, Some (m, e))"
        unfolding m(2) using e lm by (simp add: rd)
      with True r(2) Suc.prems(5) show ?thesis by simp
    next
      case miss: False
      then have go: "dir_find dc t [m..<n] s = dir_find dc t [Suc m..<n] s1"
        unfolding m(2) using e lm [of e] by (auto simp: rd)
      have "\<forall>j<Suc m. \<forall>f. listed s dc j f \<longrightarrow> \<not> match_83 (de_name11 f) t"
        using Suc.prems(5) miss lm by (auto simp: less_Suc_eq)
      then have "reads s1 (fst (dir_find dc t [Suc m..<n] s1))
        \<and> (case snd (dir_find dc t [Suc m..<n] s1) of
         None \<Rightarrow> \<forall>j f. listed s1 dc j f \<longrightarrow> \<not> match_83 (de_name11 f) t
       | Some (i, e) \<Rightarrow> listed s1 dc i e \<and> match_83 (de_name11 e) t
           \<and> (\<forall>j<i. \<forall>f. listed s1 dc j f \<longrightarrow> \<not> match_83 (de_name11 f) t))"
        using Suc.hyps(2) m(1) Suc.prems(3) before
        by (intro Suc.hyps(1) [OF _ D1]) (simp_all add: eq)
      then show ?thesis unfolding go eq using reads_trans [OF r(2)] by blast
    qed
  qed
qed

text \<open>C24. \<^verbatim>\<open>find_in_dir\<close> returns the first visible entry of the directory whose 8.3 name equals the
  target up to case, and fails exactly when there is none; it modifies nothing but the sector buffer.\<close>
theorem find_in_dir_spec:
  assumes "disk_ok s"
  shows "reads s (fst (find_in_dir dc t s))
    \<and> (case snd (find_in_dir dc t s) of
         None \<Rightarrow> \<forall>j f. listed s dc j f \<longrightarrow> \<not> match_83 (de_name11 f) t
       | Some (i, e) \<Rightarrow> listed s dc i e \<and> match_83 (de_name11 e) t
           \<and> (\<forall>j<i. \<forall>f. listed s dc j f \<longrightarrow> \<not> match_83 (de_name11 f) t))"
  unfolding find_in_dir_def by (rule dir_find_spec [OF assms _ refl]) simp_all

lemma find_in_dir_spec_witness: "snd (find_in_dir 0 (replicate 11 0x41) fat_blank) = None"
proof -
  have "\<not> listed fat_blank 0 j f" for j f
  proof
    assume "listed fat_blank 0 j f"
    then obtain f where "entry_at fat_blank 0 0 = Some f" "name_first f \<noteq> DIR_END" by (auto simp: listed_def)
    then show False
      by (simp add: entry_at_def dir_loc_def fat_blank_def slice_def dirent_of_def name_first_def DIR_END_def split: if_splits)
        (auto simp: dirent_of_def)
  qed
  with find_in_dir_spec [OF fat_blank_ok(2), of 0 "replicate 11 0x41"] show ?thesis
    by (cases "snd (find_in_dir 0 (replicate 11 0x41) fat_blank)") auto
qed

end
