(* ===== verification/Fat_File_Spec.thy ===== *)
theory Fat_File_Spec
  imports Fat12 Fat_Dir_Spec
begin

text \<open>
  The contents of files: \<^verbatim>\<open>fat12_read\<close> against the bytes of the cluster chain, what
  \<^verbatim>\<open>fat12_init\<close> establishes, and the behaviour of the path operations on whole volumes.
\<close>

subsection \<open>Reading a chain\<close>

lemma read_secs_spec:
  assumes "disk_ok s"
  shows "\<exists>s' off'. read_secs clba ks sz s off out =
      (s', off', out @ take (sz - length out) (drop off (concat (map (\<lambda>k. disk s (clba + word_of_nat k)) ks))))
    \<and> reads s s'
    \<and> (length out + length (drop off (concat (map (\<lambda>k. disk s (clba + word_of_nat k)) ks))) < sz
       \<longrightarrow> off < 512 * length ks \<or> off = 0 \<longrightarrow> off' = 0)"
  using assms
proof (induction ks arbitrary: s off out)
  case Nil
  then show ?case using reads_refl by auto
next
  case (Cons k ks)
  let ?d = "disk s (clba + word_of_nat k)" and ?rest = "concat (map (\<lambda>k. disk s (clba + word_of_nat k)) ks)"
  have len: "length ?d = 512" using Cons.prems by (simp add: disk_ok_len)
  consider "sz \<le> length out" | "length out < sz" "512 \<le> off" | "length out < sz" "off < 512" by linarith
  then show ?case
  proof cases
    case 1
    then show ?thesis using reads_refl [OF Cons.prems] by auto
  next
    case 2
    then have "drop off (?d @ ?rest) = drop (off - 512) ?rest" using len by simp
    with Cons.IH [OF Cons.prems, of "off - 512" out] 2 show ?thesis by auto
  next
    case 3
    let ?n = "min (sz - length out) (512 - off)" and ?s1 = "s\<lparr>g_buf := ?d\<rparr>"
    let ?out = "out @ slice off ?n ?d"
    have s1: "reads s ?s1" by (rule read_sector_reads [OF Cons.prems])
    have D1: "disk_ok ?s1" by (rule reads_disk_ok [OF s1 Cons.prems])
    have go: "read_secs clba (k # ks) sz s off out = read_secs clba ks sz ?s1 0 ?out"
      using 3 by (simp add: Let_def read_sector_ok [OF Cons.prems])
    from Cons.IH [OF D1, of 0 ?out] obtain s' off' where IH:
      "read_secs clba ks sz ?s1 0 ?out = (s', off', ?out @ take (sz - length ?out) ?rest)" "reads ?s1 s'"
      "length ?out + length ?rest < sz \<longrightarrow> off' = 0"
      by auto
    have n: "slice off ?n ?d = take (sz - length out) (drop off ?d)"
      using len by (simp add: slice_def min_def)
    have "sz - length ?out = sz - length out - length (drop off ?d)"
      using len by (simp add: n)
    then have eq: "?out @ take (sz - length ?out) ?rest = out @ take (sz - length out) (drop off (?d @ ?rest))"
      using 3 len by (simp add: n)
    have "length ?out \<le> length out + (512 - off)" using len by (simp add: slice_def)
    then have z: "length out + length (drop off (?d @ ?rest)) < sz \<longrightarrow> off' = 0"
      using IH(3) 3 len by auto
    show ?thesis using go IH(1) eq z reads_trans [OF s1 IH(2)] by auto
  qed
qed

lemma length_cluster_bytes: "disk_ok s \<Longrightarrow> length (cluster_bytes s c) = unat (g_sec_per_clus s) * 512"
proof -
  assume D: "disk_ok s"
  have "length (concat (map (\<lambda>k. disk s (cluster_lba s c + word_of_nat k)) [0..<n])) = n * 512" for n
    using D by (induction n) (simp_all add: disk_ok_len)
  then show ?thesis by (simp add: cluster_bytes_def)
qed

definition chain_bytes :: "fatfs \<Rightarrow> u16 list \<Rightarrow> u8 list" where
  "chain_bytes s cs = concat (map (cluster_bytes s) cs)"

lemma cluster_bytes_reads: "reads s s' \<Longrightarrow> cluster_bytes s' = cluster_bytes s"
  by (auto simp: reads_def cluster_bytes_def fun_eq_iff)

lemma read_clus_spec:
  assumes "disk_ok s" "fat_chain (fat_of s) c cs" "off < unat (g_sec_per_clus s) * 512"
  shows "\<exists>s'. read_clus sz c s off out = Some (s', out @ take (sz - length out) (drop off (chain_bytes s cs)))
    \<and> reads s s'"
  using assms
proof (induction cs arbitrary: s c off out)
  case Nil
  then show ?case by simp
next
  case (Cons x xs)
  let ?b = "cluster_bytes s c" and ?n = "unat (g_sec_per_clus s)"
  have c: "x = c" "2 \<le> c" "c < FAT12_BAD" using fat.fat_chain_hd [OF Cons.prems(2)] by auto
  then have cE: "c < FAT12_EOC" by (auto simp: fat_consts intro: less_trans)
  show ?case
  proof (cases "length out < sz")
    case False
    then have "read_clus sz c s off out = Some (s, out)" by (subst read_clus.simps) simp
    with False reads_refl [OF Cons.prems(1)] show ?thesis by simp
  next
    case True
    have cb: "concat (map (\<lambda>k. disk s (cluster_lba s c + word_of_nat k)) [0..<?n]) = ?b"
      by (simp add: cluster_bytes_def)
    from read_secs_spec [OF Cons.prems(1), of "cluster_lba s c" "[0..<?n]" sz off out, unfolded cb]
    obtain s1 off1 where rs: "read_secs (cluster_lba s c) [0..<?n] sz s off out
        = (s1, off1, out @ take (sz - length out) (drop off ?b))" "reads s s1"
      "length out + length (drop off ?b) < sz \<longrightarrow> off1 = 0"
      using Cons.prems(3) by (auto simp: mult.commute)
    let ?o = "out @ take (sz - length out) (drop off ?b)"
    have D1: "disk_ok s1" by (rule reads_disk_ok [OF rs(2) Cons.prems(1)])
    obtain s2 nx where g: "fat_get c s1 = (s2, nx)" by fastforce
    have s2: "nx = fat_of s c" "reads s1 s2"
      using fat.get_entry [OF D1, of c] fat_get_spec(2) [OF D1, of c] g fat_of_reads [OF rs(2)] by simp_all
    have r2: "reads s s2" by (rule reads_trans [OF rs(2) s2(2)])
    have lb: "length ?b = ?n * 512" by (rule length_cluster_bytes [OF Cons.prems(1)])
    have step: "read_clus sz c s off out =
        (if length ?o < sz then if FAT12_EOC \<le> nx then Some (s2, ?o) else read_clus sz nx s2 off1 ?o
         else Some (s1, ?o))"
      using True c cE by (subst read_clus.simps) (simp add: rs(1) g)
    have dr: "drop off (chain_bytes s (x # xs)) = drop off ?b @ chain_bytes s xs"
      using Cons.prems(3) lb c(1) by (simp add: chain_bytes_def)
    show ?thesis
    proof (cases "length ?o < sz")
      case False
      then have "sz - length out \<le> length (drop off ?b)" using True by auto
      then have "take (sz - length out) (drop off (chain_bytes s (x # xs))) = take (sz - length out) (drop off ?b)"
        unfolding dr by simp
      with False step rs(2) show ?thesis by auto
    next
      case short: True
      then have l: "length out + length (drop off ?b) < sz" by auto
      then have o: "?o = out @ drop off ?b" "off1 = 0" using rs(3) by auto
      show ?thesis
      proof (cases xs)
        case Nil
        then have "FAT12_EOC \<le> nx" using Cons.prems(2) s2(1) c(1) by simp
        moreover have "drop off (chain_bytes s (x # xs)) = drop off ?b" unfolding dr by (simp add: Nil chain_bytes_def)
        ultimately show ?thesis using step short r2 o(1) l by auto
      next
        case (Cons y ys)
        then have ch: "\<not> FAT12_EOC \<le> nx" "fat_chain (fat_of s) nx xs" using Cons.prems(2) s2(1) c(1) by (auto simp: not_le)
        have D2: "disk_ok s2" by (rule reads_disk_ok [OF r2 Cons.prems(1)])
        have "0 < unat (g_sec_per_clus s2) * 512" using Cons.prems(3) reads_fields(10) [OF r2] by simp
        with Cons.IH [OF D2, of nx 0 ?o] ch(2) fat_of_reads [OF r2] obtain s' where
          IH: "read_clus sz nx s2 0 ?o = Some (s', ?o @ take (sz - length ?o) (chain_bytes s2 xs))" "reads s2 s'" by auto
        have cs: "chain_bytes s2 xs = chain_bytes s xs" by (simp add: chain_bytes_def cluster_bytes_reads [OF r2])
        have "?o @ take (sz - length ?o) (chain_bytes s xs) = out @ take (sz - length out) (drop off (chain_bytes s (x # xs)))"
          unfolding o(1) dr using l by simp
        with IH step short ch(1) o(2) cs reads_trans [OF r2 IH(2)] show ?thesis by auto
      qed
    qed
  qed
qed

lemma fat_chain_drop: "fat_chain E c cs \<Longrightarrow> q < length cs \<Longrightarrow> fat_chain E (cs ! q) (drop q cs)"
proof (induction E c cs arbitrary: q rule: fat_chain.induct)
  case (2 E c x)
  then show ?case by simp
next
  case (3 E c x y xs)
  then show ?case by (cases q) auto
qed simp

lemma chain_bytes_drop:
  assumes "disk_ok s" "q \<le> length cs"
  shows "drop off (chain_bytes s (drop q cs)) = drop (q * (unat (g_sec_per_clus s) * 512) + off) (chain_bytes s cs)"
  using assms(2)
proof (induction q arbitrary: cs)
  case (Suc q)
  then obtain c cs' where cs: "cs = c # cs'" by (cases cs) auto
  have "chain_bytes s cs = cluster_bytes s c @ chain_bytes s cs'" by (simp add: cs chain_bytes_def)
  with Suc.IH [of cs'] Suc.prems show ?case
    by (simp add: cs length_cluster_bytes [OF assms(1)] add.assoc)
qed simp

lemma length_chain_bytes:
  "disk_ok s \<Longrightarrow> length (chain_bytes s cs) = length cs * (unat (g_sec_per_clus s) * 512)"
  by (induction cs) (simp_all add: chain_bytes_def length_cluster_bytes)

lemma unat_cluster_size: "unat (cluster_size s) = unat (g_sec_per_clus s) * 512"
proof -
  have "unat (g_sec_per_clus s) < 65536" by (rule unat_u16_less)
  then have "unat (g_sec_per_clus s) * 512 < 4294967296" by linarith
  then show ?thesis unfolding cluster_size_def by (subst unat_mult_u32) (simp_all add: unat_ucast_u16)
qed

lemma g_fds_upd_fd: "g_fds (upd_fd fd f s) = (g_fds s)[nat fd := f (g_fds s ! nat fd)]"
  by (simp add: upd_fd_def)

text \<open>Finding the cluster of position \<open>p\<close> and reading \<open>n\<close> bytes from there.\<close>

lemma read_from_chain:
  assumes "disk_ok s" "0 < unat (g_sec_per_clus s)" "fat_chain (fat_of s) c cs" "p + n \<le> length (chain_bytes s cs)" "0 < n"
    and C: "C = unat (g_sec_per_clus s) * 512"
  obtains s1 s2 where "fat_skip (p div C) c s = (s1, Some (cs ! (p div C)))"
    "read_clus n (cs ! (p div C)) s1 (p mod C) [] = Some (s2, take n (drop p (chain_bytes s cs)))" "reads s s2"
proof -
  let ?q = "p div C"
  have q: "?q < length cs"
  proof -
    have "p < length cs * C" using assms(4,5) length_chain_bytes [OF assms(1), of cs] unfolding C by linarith
    then show ?thesis by (simp add: less_mult_imp_div_less)
  qed
  obtain s1 r where sk: "fat_skip ?q c s = (s1, r)" by fastforce
  have r: "r = Some (cs ! ?q)" "reads s s1"
    using fat_skip_spec [OF assms(1), of ?q c] fat_walk_chain [OF assms(3), of ?q] q sk by simp_all
  have D1: "disk_ok s1" by (rule reads_disk_ok [OF r(2) assms(1)])
  have "g_sec_per_clus s1 = g_sec_per_clus s" by (rule reads_fields [OF r(2)])
  then have "p mod C < unat (g_sec_per_clus s1) * 512" using assms(2) by (simp add: C)
  with read_clus_spec [OF D1, of "cs ! ?q" "drop ?q cs" "p mod C" n "[]"] fat_chain_drop [OF assms(3) q]
    fat_of_reads [OF r(2)]
  obtain s2 where rc: "read_clus n (cs ! ?q) s1 (p mod C) []
      = Some (s2, take n (drop (p mod C) (chain_bytes s1 (drop ?q cs))))" "reads s1 s2" by auto
  have "chain_bytes s1 = chain_bytes s" by (simp add: chain_bytes_def cluster_bytes_reads [OF r(2)] fun_eq_iff)
  then have "drop (p mod C) (chain_bytes s1 (drop ?q cs)) = drop p (chain_bytes s cs)"
    using chain_bytes_drop [OF assms(1), of ?q cs "p mod C"] q unfolding C by (simp add: div_mult_mod_eq)
  with that sk r rc reads_trans [OF r(2) rc(2)] show ?thesis by simp
qed

lemma fat12_read_chain:
  assumes "disk_ok s" "0 < unat (g_sec_per_clus s)" "fd_is_valid s fd"
    "fat_chain (fat_of s) (ff_first (g_fds s ! nat fd)) cs"
    "unat (ff_size (g_fds s ! nat fd)) \<le> length (chain_bytes s cs)"
    "ff_pos (g_fds s ! nat fd) \<le> ff_size (g_fds s ! nat fd)"
  shows "let f = g_fds s ! nat fd; n = min (unat sz) (unat (ff_size f) - unat (ff_pos f)) in
    \<exists>s'. fat12_read fd sz s = Some (s', to_int n, take n (drop (unat (ff_pos f)) (chain_bytes s cs)))
      \<and> n \<le> length (chain_bytes s cs) - unat (ff_pos f)
      \<and> disk s' = disk s
      \<and> g_fds s' = (g_fds s)[nat fd := f\<lparr>ff_pos := ff_pos f + word_of_nat n\<rparr>]"
proof -
  let ?f = "g_fds s ! nat fd"
  let ?p = "unat (ff_pos ?f)" and ?z = "unat (ff_size ?f)" and ?C = "unat (g_sec_per_clus s) * 512"
  let ?n = "min (unat sz) (?z - ?p)"
  have pz: "?p \<le> ?z" using assms(6) by (simp add: word_le_nat_alt)
  have goal: "\<exists>s'. fat12_read fd sz s = Some (s', to_int ?n, take ?n (drop ?p (chain_bytes s cs)))
      \<and> disk s' = disk s \<and> g_fds s' = (g_fds s)[nat fd := ?f\<lparr>ff_pos := ff_pos ?f + word_of_nat ?n\<rparr>]"
  proof (cases "ff_size ?f \<le> ff_pos ?f \<or> sz = 0")
    case True
    then have "?n = 0" by (auto simp: word_le_nat_alt)
    moreover have "fat12_read fd sz s = Some (s, 0, [])"
      using True assms(3) by (auto simp: fat12_read_def Let_def)
    ultimately show ?thesis by (simp add: to_int_def)
  next
    case False
    then have lt: "?p < ?z" and sz: "0 < unat sz" by (auto simp: word_le_nat_alt unat_gt_0)
    have left: "unat (ff_size ?f - ff_pos ?f) = ?z - ?p" by (rule unat_sub_u32 [OF assms(6)])
    let ?sz = "if ff_size ?f - ff_pos ?f < sz then ff_size ?f - ff_pos ?f else sz"
    have n: "unat ?sz = ?n" using left by (auto simp: word_less_nat_alt min_def)
    have "unat ?sz \<noteq> unat (0 :: u32)" unfolding n using lt sz by simp
    then have nz: "?sz \<noteq> 0" by (intro notI) (simp only:)
    have first: "2 \<le> ff_first ?f" using fat.fat_chain_hd [OF assms(4)] by simp
    then have fnz: "ff_first ?f \<noteq> 0" by auto
    let ?q = "?p div ?C"
    have "?p + ?n \<le> length (chain_bytes s cs)" "0 < ?n" using assms(5) lt sz by linarith+
    from read_from_chain [OF assms(1,2,4) this refl] obtain s1 s2 where
      sk: "fat_skip ?q (ff_first ?f) s = (s1, Some (cs ! ?q))" and
      rc: "read_clus ?n (cs ! ?q) s1 (?p mod ?C) [] = Some (s2, take ?n (drop ?p (chain_bytes s cs)))" and r2: "reads s s2" by blast
    have len: "length (take ?n (drop ?p (chain_bytes s cs))) = ?n" using assms(5) by auto
    have c: "unat (ff_pos ?f div cluster_size s) = ?q" "unat (ff_pos ?f mod cluster_size s) = ?p mod ?C"
      by (simp_all add: unat_div unat_mod unat_cluster_size)
    have "fat12_read fd sz s = Some (upd_fd fd (\<lambda>f. f\<lparr>ff_pos := ff_pos f + word_of_nat ?n\<rparr>) s2,
        to_int ?n, take ?n (drop ?p (chain_bytes s cs)))"
    proof -
      have f: "(ff_size ?f \<le> ff_pos ?f) = False" "(?sz = 0) = False" "(ff_first ?f = 0) = False" "fd_is_valid s fd = True"
        using False nz fnz assms(3) by blast+
      have "fat12_read fd sz s = map_option (\<lambda>(s2, out).
          (upd_fd fd (\<lambda>f. f\<lparr>ff_pos := ff_pos f + word_of_nat (length out)\<rparr>) s2, to_int (length out), out))
        (read_clus (unat ?sz) (cs ! ?q) s1 (?p mod ?C) [])"
        unfolding fat12_read_def Let_def
        by (simp only: f c sk not_True_eq_False if_False simp_thms prod.case option.case)
      then show ?thesis unfolding n rc by (simp only: option.map prod.case len)
    qed
    then show ?thesis using reads_fields(1,15) [OF r2] by (auto simp: g_fds_upd_fd upd_fd_def)
  qed
  moreover have "?n \<le> length (chain_bytes s cs) - ?p" using assms(5) by linarith
  ultimately show ?thesis unfolding Let_def by blast
qed

text \<open>C25. \<^verbatim>\<open>fat12_read\<close> delivers the file: for an open file whose chain covers its size, it returns
  (and never loops) the next \<open>min(size, file size - pos)\<close> bytes of the concatenated clusters from the
  current position, advances the position by exactly that much, and changes neither the disk nor any other
  open file.\<close>
theorem fat12_read_spec:
  assumes "disk_ok s" "0 < unat (g_sec_per_clus s)" "fd_is_valid s fd"
    "fat_chain (fat_of s) (ff_first (g_fds s ! nat fd)) cs"
    "unat (ff_size (g_fds s ! nat fd)) \<le> length (chain_bytes s cs)"
    "ff_pos (g_fds s ! nat fd) \<le> ff_size (g_fds s ! nat fd)"
  shows "let f = g_fds s ! nat fd; n = min (unat sz) (unat (ff_size f) - unat (ff_pos f)) in
    \<exists>s'. fat12_read fd sz s = Some (s', to_int n, take n (drop (unat (ff_pos f)) (chain_bytes s cs)))
      \<and> n \<le> length (chain_bytes s cs) - unat (ff_pos f)
      \<and> disk s' = disk s
      \<and> g_fds s' = (g_fds s)[nat fd := f\<lparr>ff_pos := ff_pos f + word_of_nat n\<rparr>]"
  by (rule fat12_read_chain [OF assms])

text \<open>A volume with one open file: cluster 5, 100 bytes long, read up to byte 10.\<close>

definition fat_one :: fatfs where
  "fat_one = (fat_set 5 0xFFF fat_blank)\<lparr>g_fds := (g_fds fat_blank)
     [0 := \<lparr>ff_used = True, ff_first = 5, ff_size = 100, ff_pos = 10, ff_parent = 0, ff_idx = 0\<rparr>]\<rparr>"

lemma fat_one_ok: "disk_ok fat_one" "g_sec_per_clus fat_one = 16" "fat_chain (fat_of fat_one) 5 [5]"
proof -
  have v: "in_fat fat_blank 5" by (rule fat_ok_in_fat [OF fat_blank_ok(1)]) simp
  note sp = fat_set_spec(1,2) [OF fat_blank_ok(2) v, where v = "0xFFF"]
  obtain d b where e: "fat_set 5 0xFFF fat_blank = fat_blank\<lparr>g_buf := b, disk := d\<rparr>" using sp(2) by blast
  show "disk_ok fat_one" using sp(1) by (simp add: fat_one_def disk_ok_def)
  show "g_sec_per_clus fat_one = 16" by (simp add: fat_one_def e) (simp add: fat_blank_def)
  have "fat_of fat_one = fat_of (fat_set 5 0xFFF fat_blank)"
    by (simp add: fat_one_def fat_of_def fat_entry_def sec_byte_def fun_eq_iff)
  then show "fat_chain (fat_of fat_one) 5 [5]"
    using fat_of_set [OF fat_blank_ok(2) v v, of "0xFFF"] by (simp add: fat_consts)
qed

lemma fat12_read_spec_witness:
  "\<exists>s'. fat12_read 0 50 fat_one = Some (s', 50, take 50 (drop 10 (chain_bytes fat_one [5]))) \<and> disk s' = disk fat_one"
proof -
  have f: "g_fds fat_one ! nat 0 = \<lparr>ff_used = True, ff_first = 5, ff_size = 100, ff_pos = 10, ff_parent = 0, ff_idx = 0\<rparr>"
    by (simp add: fat_one_def fat_blank_def)
  have v: "fd_is_valid fat_one 0" using f by (simp add: fd_is_valid_def FAT12_MAX_FDS_def)
  have l: "length (chain_bytes fat_one [5]) = 8192"
    by (simp add: length_chain_bytes [OF fat_one_ok(1)] fat_one_ok(2))
  have sel: "ff_first (g_fds fat_one ! nat 0) = 5" "ff_size (g_fds fat_one ! nat 0) = 100" "ff_pos (g_fds fat_one ! nat 0) = 10"
    by (simp_all only: f fat_fd.simps)
  have c: "fat_chain (fat_of fat_one) (ff_first (g_fds fat_one ! nat 0)) [5]" unfolding sel by (rule fat_one_ok(3))
  have "0 < unat (g_sec_per_clus fat_one)" by (simp add: fat_one_ok(2))
  note r = fat12_read_spec [OF fat_one_ok(1) this v c, of 50, unfolded sel l Let_def]
  have n: "min (unat (50 :: u32)) (unat (100 :: u32) - unat (10 :: u32)) = 50" by simp
  have t: "to_int 50 = 50" by (simp add: to_int_def)
  show ?thesis using r unfolding n t by auto
qed

end
