(* ===== verification/Fat_Frame.thy ===== *)
theory Fat_Frame
  imports Fat12
begin

text \<open>
  What the operations of \<^verbatim>\<open>fat12.cpp\<close> do to the table of open files: everything below
  \<^verbatim>\<open>fd_alloc\<close> and the public operations leaves \<^verbatim>\<open>g_fds\<close> alone, and the public operations
  open or close at most one descriptor. None of it depends on the device working.
\<close>

lemma g_fds_read_sector [kframe]: "g_fds (fst (read_sector lba s)) = g_fds s"
  by (simp add: read_sector_def)

lemma g_fds_write_sector [kframe]: "g_fds (fst (write_sector lba s)) = g_fds s"
  by (simp add: write_sector_def)

lemma g_fds_buf_set [kframe]: "g_fds (buf_set i b s) = g_fds s"
  by (simp add: buf_set_def)

lemma g_fds_write_run: "g_fds (fold (\<lambda>k s. fst (write_sector (l k s) s)) ks t) = g_fds t"
  by (induction ks arbitrary: t) (simp_all add: kframe)

lemma g_fds_zero_cluster [kframe]: "g_fds (zero_cluster c s) = g_fds s"
  unfolding zero_cluster_def g_fds_write_run by simp

lemma g_fds_fat_get [kframe]: "g_fds (fst (fat_get c s)) = g_fds s"
  by (simp add: fat_get_def Let_def kframe)

lemma g_fds_write_fat [kframe]: "g_fds (write_fat c v base s) = g_fds s"
  by (simp add: write_fat_def Let_def kframe)

lemma g_fds_fat_set [kframe]: "g_fds (fat_set c v s) = g_fds s"
  by (simp add: fat_set_def Let_def kframe)

lemma g_fds_fat_scan [kframe]: "g_fds (fst (fat_scan fat_get fat_set cs s)) = g_fds s"
  by (induction cs arbitrary: s) (auto simp: kframe split_def Let_def)

lemma g_fds_fat_alloc [kframe]: "g_fds (fst (fat_alloc s)) = g_fds s"
  by (simp add: fat_alloc_def kframe)

lemma g_fds_fat_skip [kframe]: "g_fds (fst (fat_skip n c s)) = g_fds s"
  by (induction n arbitrary: c s) (auto simp: kframe split_def Let_def)

lemma g_fds_dir_read_entry [kframe]: "g_fds (fst (dir_read_entry lba dc i s)) = g_fds s"
  using g_fds_fat_skip [of "i div entries_per_clus s" dc s]
  by (auto simp: dir_read_entry_def g_fds_read_sector Let_def split: prod.splits option.splits)

lemma g_fds_put_entry_at [kframe]: "g_fds (put_entry_at lba k e s) = g_fds s"
  by (simp add: put_entry_at_def Let_def kframe)

lemma g_fds_dir_write_entry [kframe]: "g_fds (fst (dir_write_entry lba dc i e s)) = g_fds s"
  using g_fds_fat_skip [of "i div entries_per_clus s" dc s]
  by (auto simp: dir_write_entry_def g_fds_read_sector g_fds_put_entry_at Let_def split: prod.splits option.splits)

lemma g_fds_dir_find [kframe]: "g_fds (fst (dir_find dc t is s)) = g_fds s"
proof (induction "is" arbitrary: s)
  case (Cons i "is")
  from g_fds_dir_read_entry [of "g_root_lba s" dc i s] Cons.IH [of "fst (dir_read_entry (g_root_lba s) dc i s)"]
  show ?case by (auto split: prod.splits option.splits)
qed simp

lemma g_fds_find_in_dir [kframe]: "g_fds (fst (find_in_dir dc t s)) = g_fds s"
  by (simp add: find_in_dir_def kframe)

lemma g_fds_resolve_loop [kframe]: "g_fds (fst (resolve_loop path dc s)) = g_fds s"
proof (induction path dc s rule: resolve_loop.induct)
  case (1 path dc s)
  let ?part = "takeWhile (\<lambda>c. c \<noteq> 0x2F) path" and ?rest = "dropWhile (\<lambda>c. c \<noteq> 0x2F) path"
  note f = g_fds_find_in_dir [of dc "comp_83 ?part" s]
  show ?case
  proof (cases "path = [] \<or> ?part = [] \<or> ?rest = []")
    case True
    with 1(1) [OF refl refl] show ?thesis by (subst resolve_loop.simps) (auto simp: Let_def)
  next
    case False
    then have ne: "path \<noteq> []" "?part \<noteq> []" "?rest \<noteq> []" by auto
    show ?thesis
    proof (cases "find_in_dir dc (comp_83 ?part) s")
      case (Pair s1 r)
      show ?thesis
      proof (cases r)
        case None
        with ne Pair f show ?thesis by (subst resolve_loop.simps) (simp add: Let_def)
      next
        case (Some ie)
        obtain i e where ie: "ie = (i, e)" by fastforce
        from 1(2) [OF refl refl ne Pair [symmetric] Some ie [symmetric]] f ne Pair Some ie
        show ?thesis by (subst resolve_loop.simps) (simp add: Let_def)
      qed
    qed
  qed
qed

lemma g_fds_resolve_path [kframe]: "g_fds (fst (resolve_path path s)) = g_fds s"
  unfolding resolve_path_def by (rule g_fds_resolve_loop)

lemma g_fds_dir_slot [kframe]: "g_fds (fst (dir_slot dc is s)) = g_fds s"
proof (induction "is" arbitrary: s)
  case (Cons i "is")
  from g_fds_dir_read_entry [of "g_root_lba s" dc i s] Cons.IH [of "fst (dir_read_entry (g_root_lba s) dc i s)"]
  show ?case by (auto split: prod.splits option.splits)
qed simp

lemma g_fds_chain_end:
  assumes "chain_end c s = Some y"
  shows "g_fds (fst y) = g_fds s"
proof (rule chain_end.raw_induct [where P = "\<lambda>c s y. g_fds (fst y) = g_fds s", OF _ assms], goal_cases)
  case (1 self c s y)
  obtain s1 nxt where g: "fat_get c s = (s1, nxt)" by fastforce
  with g_fds_fat_get [of c s] have "g_fds s1 = g_fds s" by simp
  with 1 g show ?case by (auto split: if_splits)
qed

subsection \<open>Operations that follow chains\<close>

lemma g_fds_free_chain:
  assumes "free_chain get put c s = Some s'" "get = fat_get" "put = fat_set"
  shows "g_fds s' = g_fds s"
proof -
  have "get = fat_get \<longrightarrow> put = fat_set \<longrightarrow> g_fds s' = g_fds s"
  proof (rule free_chain.raw_induct [where P = "\<lambda>get put c s s'. get = fat_get \<longrightarrow> put = fat_set \<longrightarrow> g_fds s' = g_fds s",
        OF _ assms(1)], goal_cases)
    case (1 self get put c s s')
    obtain s1 nxt where g: "fat_get c s = (s1, nxt)" by fastforce
    with g_fds_fat_get [of c s] have "g_fds (fat_set c FAT12_FREE s1) = g_fds s" by (simp add: kframe)
    with 1 g show ?case by (auto simp: Let_def split: if_splits)
  qed
  with assms show ?thesis by simp
qed

lemma g_fds_fat_free_chain: "fat_free_chain c s = Some s' \<Longrightarrow> g_fds s' = g_fds s"
  unfolding fat_free_chain_def by (erule g_fds_free_chain) simp_all

lemma g_fds_alloc_dir_entry:
  assumes "alloc_dir_entry dc s = Some (s', r)"
  shows "g_fds s' = g_fds s"
proof -
  obtain s1 o1 where d: "dir_slot dc [0..<max_ents s dc] s = (s1, o1)" by fastforce
  with g_fds_dir_slot [of dc "[0..<max_ents s dc]" s] have s1: "g_fds s1 = g_fds s" by simp
  show ?thesis
  proof (cases "o1 = None \<and> dc \<noteq> 0")
    case False
    with assms d s1 show ?thesis by (auto simp: alloc_dir_entry_def split: option.splits if_splits)
  next
    case True
    with assms d obtain s2 clus where ce: "chain_end dc s1 = Some (s2, clus)"
      by (auto simp: alloc_dir_entry_def bind_eq_Some_conv)
    obtain s3 new where fa: "fat_alloc s2 = (s3, new)" by fastforce
    with g_fds_fat_alloc [of s2] g_fds_chain_end [OF ce] s1 have "g_fds s3 = g_fds s" by simp
    with assms d True ce fa show ?thesis
      by (auto simp: alloc_dir_entry_def Let_def g_fds_zero_cluster g_fds_fat_set split: if_splits)
  qed
qed

lemma g_fds_read_secs [kframe]: "g_fds (fst (read_secs clba ks sz s off out)) = g_fds s"
  by (induction clba ks sz s off out rule: read_secs.induct) (simp_all add: Let_def g_fds_read_sector)

lemma g_fds_read_clus:
  assumes "read_clus sz c s off out = Some y"
  shows "g_fds (fst y) = g_fds s"
proof (rule read_clus.raw_induct [where P = "\<lambda>sz c s off out y. g_fds (fst y) = g_fds s", OF _ assms], goal_cases)
  case (1 self sz c s off out y)
  obtain s1 off1 out1 where r: "read_secs (cluster_lba s c) [0..<unat (g_sec_per_clus s)] sz s off out = (s1, off1, out1)"
    by (metis prod_cases3)
  obtain s2 nxt where g: "fat_get c s1 = (s2, nxt)" by fastforce
  from r g have "g_fds s1 = g_fds s" "g_fds s2 = g_fds s"
    using g_fds_read_secs [of "cluster_lba s c" "[0..<unat (g_sec_per_clus s)]" sz s off out] g_fds_fat_get [of c s1] by simp_all
  with 1 r g show ?case by (auto split: if_splits)
qed

lemma g_fds_extend_chain [kframe]: "g_fds (fst (extend_chain c s)) = g_fds s"
  using g_fds_fat_alloc [of s] by (auto simp: extend_chain_def Let_def g_fds_zero_cluster g_fds_fat_set split: prod.splits)

lemma g_fds_write_skip [kframe]: "g_fds (fst (write_skip n c s)) = g_fds s"
proof (induction n arbitrary: c s)
  case (Suc n)
  obtain s1 nxt where g: "fat_get c s = (s1, nxt)" by fastforce
  obtain s2 r where r: "(if FAT12_EOC \<le> nxt then extend_chain c s1 else (s1, Some nxt)) = (s2, r)" by fastforce
  from g r have "g_fds s2 = g_fds s"
    using g_fds_fat_get [of c s] g_fds_extend_chain [of c s1] by (auto split: if_splits)
  with Suc g r show ?case by (auto simp: Let_def split: option.splits)
qed simp

lemma g_fds_write_secs [kframe]: "g_fds (fst (write_secs clba ks src s off done)) = g_fds s"
  by (induction clba ks src s off "done" rule: write_secs.induct)
     (simp_all add: Let_def g_fds_read_sector g_fds_write_sector)

lemma g_fds_write_clus:
  assumes "write_clus src c s off done = Some y"
  shows "g_fds (fst y) = g_fds s"
proof (rule write_clus.raw_induct [where P = "\<lambda>src c s off done y. g_fds (fst y) = g_fds s", OF _ assms], goal_cases)
  case (1 self src c s off "done" y)
  obtain s1 off1 done1 where w: "write_secs (cluster_lba s c) [0..<unat (g_sec_per_clus s)] src s off done = (s1, off1, done1)"
    by (metis prod_cases3)
  obtain s2 nxt where g: "fat_get c s1 = (s2, nxt)" by fastforce
  obtain s3 r where r: "(if FAT12_EOC \<le> nxt then extend_chain c s2 else (s2, Some nxt)) = (s3, r)" by fastforce
  from w g r have "g_fds s1 = g_fds s" "g_fds s3 = g_fds s"
    using g_fds_write_secs [of "cluster_lba s c" "[0..<unat (g_sec_per_clus s)]" src s off "done"] g_fds_fat_get [of c s1]
      g_fds_extend_chain [of c s2] by (auto split: if_splits)
  with 1 w g r show ?case by (auto split: if_splits option.splits)
qed

subsection \<open>The public operations\<close>

text \<open>A failed or a successful open: the descriptor was free and only its entry changes.\<close>

definition fat_opened :: "fatfs \<Rightarrow> fatfs \<Rightarrow> int \<Rightarrow> bool" where
  "fat_opened s s' fd \<longleftrightarrow> fd = -1 \<and> g_fds s' = g_fds s
     \<or> 0 \<le> fd \<and> fd < int FAT12_MAX_FDS \<and> \<not> ff_used (g_fds s ! nat fd)
       \<and> (\<exists>f. ff_used f \<and> g_fds s' = (g_fds s)[nat fd := f])"

lemma fat_opened_fail: "g_fds s' = g_fds s \<Longrightarrow> fat_opened s s' (-1)"
  by (simp add: fat_opened_def)

lemma fat_fd_alloc_opened:
  assumes "fat_fd_alloc c sz par idx t = (s', fd)" "g_fds t = g_fds s"
  shows "fat_opened s s' fd"
proof (cases "List.find (\<lambda>fd. \<not> ff_used (g_fds t ! fd)) [0..<FAT12_MAX_FDS]")
  case None
  with assms show ?thesis by (auto simp: fat_fd_alloc_def fat_opened_def)
next
  case (Some k)
  then have "k < FAT12_MAX_FDS" "\<not> ff_used (g_fds t ! k)" by (auto simp: find_upt_Some_iff)
  with assms Some show ?thesis by (auto simp: fat_fd_alloc_def fat_opened_def intro!: exI [of _ "\<lparr>ff_used = True, ff_first = c, ff_size = sz, ff_pos = 0, ff_parent = par, ff_idx = idx\<rparr>"])
qed

lemma fat12_open_opened:
  assumes "fat12_open path s = (s', fd)"
  shows "fat_opened s s' fd"
proof -
  obtain s1 r where p: "resolve_path path s = (s1, r)" by fastforce
  with g_fds_resolve_path [of path s] have s1: "g_fds s1 = g_fds s" by simp
  show ?thesis
  proof (cases r)
    case (Some dt)
    obtain dc target where dt: "dt = (dc, target)" by fastforce
    obtain s2 q where f: "find_in_dir dc target s1 = (s2, q)" by fastforce
    with g_fds_find_in_dir [of dc target s1] s1 have s2: "g_fds s2 = g_fds s" by simp
    show ?thesis using assms p Some dt f s1 s2
      by (auto simp: fat12_open_def split: if_splits option.splits intro: fat_fd_alloc_opened fat_opened_fail)
  qed (use assms p s1 in \<open>auto simp: fat12_open_def fat_opened_fail\<close>)
qed

lemma fat12_create_opened:
  assumes "fat12_create path s = Some (s', fd)"
  shows "fat_opened s s' fd"
proof -
  obtain s1 r where p: "resolve_path path s = (s1, r)" by fastforce
  with g_fds_resolve_path [of path s] have s1: "g_fds s1 = g_fds s" by simp
  show ?thesis
  proof (cases r)
    case (Some dt)
    obtain dc target where dt: "dt = (dc, target)" by fastforce
    obtain s2 q where f: "find_in_dir dc target s1 = (s2, q)" by fastforce
    with g_fds_find_in_dir [of dc target s1] s1 have s2: "g_fds s2 = g_fds s" by simp
    show ?thesis
    proof (cases "target ! 0 = 0 \<or> q \<noteq> None")
      case True
      with assms p Some dt f s1 s2 show ?thesis by (auto simp: fat12_create_def fat_opened_fail split: if_splits)
    next
      case no: False
      then have q: "q = None" and t0: "target ! 0 \<noteq> 0" by (cases q; simp)+
      let ?e = "set_name11 target (dirent0\<lparr>de_attr := ATTR_ARCH, first_cluster := 0, file_size := 0\<rparr>)"
      obtain s3 slot where a: "alloc_dir_entry dc s2 = Some (s3, slot)"
        using assms p Some dt f q t0 by (auto simp: fat12_create_def)
      with g_fds_alloc_dir_entry [OF a] s2 have s3: "g_fds s3 = g_fds s" by simp
      show ?thesis
      proof (cases slot)
        case None
        with assms p \<open>r = Some dt\<close> dt f q t0 a s3 show ?thesis by (auto simp: fat12_create_def fat_opened_fail)
      next
        case (Some idx)
        obtain s4 ok where w: "dir_write_entry (g_root_lba s3) dc idx ?e s3 = (s4, ok)" by fastforce
        with g_fds_dir_write_entry [of "g_root_lba s3" dc idx ?e s3] s3 have s4: "g_fds s4 = g_fds s" by simp
        from assms p \<open>r = Some dt\<close> dt f q t0 a Some w
        have "(if \<not> ok then (s4, -1) else fat_fd_alloc 0 0 dc idx s4) = (s', fd)" by (simp add: fat12_create_def)
        with fat_fd_alloc_opened [OF _ s4] s4 show ?thesis by (auto simp: fat_opened_fail split: if_splits)
      qed
    qed
  qed (use assms p s1 in \<open>auto simp: fat12_create_def fat_opened_fail\<close>)
qed

text \<open>Reading and writing keep every descriptor's \<^verbatim>\<open>used\<close> flag.\<close>

definition used_fds :: "fatfs \<Rightarrow> bool list" where
  "used_fds s = map ff_used (g_fds s)"

lemma used_fds_upd_fd [simp]:
  assumes "\<And>f. ff_used (h f) = ff_used f"
  shows "used_fds (upd_fd fd h s) = used_fds s"
proof (cases "nat fd < length (g_fds s)")
  case True
  have "used_fds (upd_fd fd h s) = (used_fds s)[nat fd := ff_used (g_fds s ! nat fd)]"
    unfolding used_fds_def upd_fd_def by (simp add: map_update assms)
  also have "ff_used (g_fds s ! nat fd) = used_fds s ! nat fd" using True by (simp add: used_fds_def)
  finally show ?thesis by (simp only: list_update_id)
next
  case False
  then show ?thesis unfolding used_fds_def upd_fd_def by (simp add: list_update_beyond)
qed

lemma used_fds_cong: "g_fds s' = g_fds s \<Longrightarrow> used_fds s' = used_fds s"
  by (simp add: used_fds_def)

lemma guards_Some:
  "(if \<not> a then Some x else if b then Some y else if c then Some z else w) = Some r
     \<Longrightarrow> a \<and> \<not> b \<and> \<not> c \<and> w = Some r \<or> r = x \<or> r = y \<or> r = z"
  by (auto split: if_splits)

lemma fat12_read_used:
  assumes "fat12_read fd sz s = Some (s', r, out)"
  shows "used_fds s' = used_fds s"
proof -
  let ?f = "g_fds s ! nat fd"
  let ?upd = "\<lambda>out f. f\<lparr>ff_pos := ff_pos f + word_of_nat (length out)\<rparr>"
  obtain s1 q where k: "fat_skip (unat (ff_pos ?f div cluster_size s)) (ff_first ?f) s = (s1, q)" by fastforce
  with g_fds_fat_skip [of "unat (ff_pos ?f div cluster_size s)" "ff_first ?f" s] have s1: "used_fds s1 = used_fds s"
    by (simp add: used_fds_def)
  obtain n where n: "n = unat (if ff_size ?f - ff_pos ?f < sz then ff_size ?f - ff_pos ?f else sz)" by blast
  have "(case q of None \<Rightarrow> Some (s1, 0, [])
      | Some clus \<Rightarrow> map_option (\<lambda>(s2, out). (upd_fd fd (?upd out) s2, to_int (length out), out))
          (read_clus n clus s1 (unat (ff_pos ?f mod cluster_size s)) [])) = Some (s', r, out) \<or> s' = s"
  proof -
    note guards_Some [OF assms [unfolded fat12_read_def Let_def k prod.case, folded n]]
    then show ?thesis by (elim disjE conjE) (rule disjI1, assumption | rule disjI2, drule prod.inject [THEN iffD1], erule conjunct1)+
  qed
  then consider (same) "s' = s \<or> s' = s1"
    | (read) clus where "map_option (\<lambda>(s2, out). (upd_fd fd (?upd out) s2, to_int (length out), out))
          (read_clus n clus s1 (unat (ff_pos ?f mod cluster_size s)) []) = Some (s', r, out)"
    by (cases q) (simp_all only: option.case option.inject prod.inject, blast+)
  then show ?thesis
  proof cases
    case (read clus)
    then obtain y where y: "read_clus n clus s1 (unat (ff_pos ?f mod cluster_size s)) [] = Some y"
      "(case y of (s2, out) \<Rightarrow> (upd_fd fd (?upd out) s2, to_int (length out), out)) = (s', r, out)"
      unfolding map_option_eq_Some by iprover
    then have "read_clus n clus s1 (unat (ff_pos ?f mod cluster_size s)) [] = Some (fst y, out)"
      "s' = upd_fd fd (?upd out) (fst y)" by (cases y; simp)+
    moreover obtain s2 where "fst y = s2" by blast
    ultimately have "read_clus n clus s1 (unat (ff_pos ?f mod cluster_size s)) [] = Some (s2, out)"
      "s' = upd_fd fd (?upd out) s2" by simp_all
    with g_fds_read_clus [OF this(1)] s1 show ?thesis by (simp add: used_fds_def [of s1] used_fds_def [of s2])
  qed (use s1 in auto)
qed

lemma fat12_write_used:
  assumes "fat12_write fd src s = Some (s', r)"
  shows "used_fds s' = used_fds s"
proof -
  obtain s1 ok where a: "(if ff_first (g_fds s ! nat fd) = 0
      then let (t, c) = fat_alloc s in
           if c = 0 then (t, False) else (zero_cluster c (upd_fd fd (\<lambda>f. f\<lparr>ff_first := c\<rparr>) t), True)
      else (s, True)) = (s1, ok)" by fastforce
  have s1: "used_fds s1 = used_fds s"
  proof -
    obtain t c where tc: "fat_alloc s = (t, c)" by fastforce
    with g_fds_fat_alloc [of s] have t: "used_fds t = used_fds s" by (simp add: used_fds_def)
    have "used_fds (zero_cluster c u) = used_fds u" for u by (simp add: used_fds_def g_fds_zero_cluster)
    with a tc t show ?thesis by (auto split: if_splits)
  qed
  let ?f = "g_fds s1 ! nat fd"
  obtain s2 q where k: "write_skip (unat (ff_pos ?f div cluster_size s1)) (ff_first ?f) s1 = (s2, q)" by fastforce
  with g_fds_write_skip [of "unat (ff_pos ?f div cluster_size s1)" "ff_first ?f" s1] s1
  have s2: "used_fds s2 = used_fds s" by (simp add: used_fds_def)
  let ?upd = "\<lambda>done f. let p = ff_pos f + word_of_nat done in
       f\<lparr>ff_pos := p, ff_size := (if ff_size f < p then p else ff_size f)\<rparr>"
  show ?thesis
  proof (cases "s' = s \<or> s' = s1 \<or> s' = s2")
    case False
    then obtain clus where q: "q = Some clus" and
      m: "map_option (\<lambda>(s3, done). (upd_fd fd (?upd done) s3, to_int done))
            (write_clus src clus s2 (unat (ff_pos ?f mod cluster_size s1)) 0) = Some (s', r)"
      using assms k unfolding fat12_write_def Let_def [of "if ff_first (g_fds s ! nat fd) = 0 then _ else _"] a
      by (cases q) (auto simp: Let_def simp del: map_option_eq_Some split: if_splits)
    then obtain s3 n where "write_clus src clus s2 (unat (ff_pos ?f mod cluster_size s1)) 0 = Some (s3, n)"
      "s' = upd_fd fd (?upd n) s3" by auto
    with g_fds_write_clus [OF this(1)] s2 show ?thesis by (simp add: used_fds_def [of s2] used_fds_def [of s3] Let_def)
  qed (use s1 s2 in auto)
qed

lemma g_fds_fat12_flush [kframe]: "g_fds (fat12_flush fd s) = g_fds s"
proof -
  let ?f = "g_fds s ! nat fd"
  obtain s1 r where d: "dir_read_entry (g_root_lba s) (ff_parent ?f) (ff_idx ?f) s = (s1, r)" by fastforce
  with g_fds_dir_read_entry [of "g_root_lba s" "ff_parent ?f" "ff_idx ?f" s] have "g_fds s1 = g_fds s" by simp
  with d show ?thesis by (simp add: fat12_flush_def Let_def g_fds_dir_write_entry split: option.split)
qed

lemma g_fds_fat12_close:
  "g_fds (fat12_close fd s) =
     (if 0 \<le> fd \<and> fd < int FAT12_MAX_FDS then (g_fds s)[nat fd := (g_fds s ! nat fd)\<lparr>ff_used := False\<rparr>] else g_fds s)"
  by (auto simp: fat12_close_def upd_fd_def g_fds_fat12_flush)

end
