(* ===== verification/Fat_Copy.thy ===== *)
theory Fat_Copy
  imports Fat_File_Spec Fat_Frame
begin

text \<open>
  The copying loop of \<^verbatim>\<open>fat12_write\<close>: states that differ in disk, buffer and open files only, the sectors
  of a data cluster and their distance from the tables and from other clusters, and the bytes
  \<^verbatim>\<open>write_secs\<close> leaves in the sectors of one cluster.
\<close>

subsection \<open>Splicing\<close>

lemma splice_Nil [simp]: "splice i [] ys = ys"
  by (simp add: splice_def)

lemma splice_skip: "length a \<le> i \<Longrightarrow> splice i xs (a @ b) = a @ splice (i - length a) xs b"
  by (simp add: splice_def)

lemma splice_left: "i + length xs \<le> length a \<Longrightarrow> splice i xs (a @ b) = splice i xs a @ b"
  by (simp add: splice_def)

lemma splice_append:
  "i + length xs \<le> length zs \<Longrightarrow> splice (i + length xs) ys (splice i xs zs) = splice i (xs @ ys) zs"
  by (simp add: splice_def ac_simps)

lemma splice_both:
  assumes "i + length xs \<le> length a" "ys = [] \<or> i + length xs = length a"
  shows "splice i (xs @ ys) (a @ b) = splice i xs a @ splice 0 ys b"
proof -
  have "i + (length xs + length ys) - length a = length ys \<or> ys = []" using assms(2) by auto
  with assms show ?thesis by (auto simp: splice_def)
qed

lemma slice_add: "i + m \<le> length xs \<Longrightarrow> slice i (m + n) xs = slice i m xs @ slice (i + m) n xs"
  by (simp add: slice_def take_add add.commute)

subsection \<open>States that differ in disk, buffer and open files\<close>

definition moved :: "fatfs \<Rightarrow> fatfs \<Rightarrow> bool" where
  "moved s s' \<longleftrightarrow> disk_ok s' \<and> (\<exists>b d f. s' = s\<lparr>g_buf := b, disk := d, g_fds := f\<rparr>)"

lemma movedI: "disk_ok s' \<Longrightarrow> s' = s\<lparr>g_buf := b, disk := d, g_fds := f\<rparr> \<Longrightarrow> moved s s'"
  unfolding moved_def by blast

lemma moved_refl: "disk_ok s \<Longrightarrow> moved s s"
  by (rule movedI [where b = "g_buf s" and d = "disk s" and f = "g_fds s"]) simp_all

lemma moved_trans: "moved s s1 \<Longrightarrow> moved s1 s2 \<Longrightarrow> moved s s2"
  by (clarsimp simp: moved_def, blast)

lemma moved_fields:
  assumes "moved s s'"
  shows "g_sec_per_clus s' = g_sec_per_clus s" "cluster_lba s' = cluster_lba s" "data_cluster s' = data_cluster s"
    "in_fat s' = in_fat s" "fat_sector s' = fat_sector s" "disk_ok s'" "g_fat_lba s' = g_fat_lba s"
    "g_root_lba s' = g_root_lba s" "g_root_entries s' = g_root_entries s" "g_data_lba s' = g_data_lba s"
  using assms
  by (auto simp: moved_def cluster_lba_def data_cluster_def in_fat_def fat_sector_def fat2_lba_def fun_eq_iff)

lemma moved_vol: "moved s s' \<Longrightarrow> vol_ok s \<Longrightarrow> vol_ok s'"
  by (auto simp: moved_def vol_ok_def fat_ok_def)

lemma reads_moved: "disk_ok s \<Longrightarrow> reads s s' \<Longrightarrow> moved s s'"
proof -
  assume D: "disk_ok s" and r: "reads s s'"
  from r obtain b where "s' = s\<lparr>g_buf := b, disk := disk s, g_fds := g_fds s\<rparr>" by (auto simp: reads_def)
  with reads_disk_ok [OF r D] show ?thesis by (rule movedI)
qed

subsection \<open>Sectors of a cluster\<close>

definition in_clus :: "fatfs \<Rightarrow> u16 \<Rightarrow> u32 \<Rightarrow> bool" where
  "in_clus s c l \<longleftrightarrow> (\<exists>k < unat (g_sec_per_clus s). l = cluster_lba s c + word_of_nat k)"

lemma in_clus_moved: "moved s s' \<Longrightarrow> in_clus s' = in_clus s"
  by (simp add: in_clus_def moved_fields fun_eq_iff)

lemma in_clus_data:
  assumes "vol_ok s" "data_cluster s c" "in_clus s c l"
  shows "unat (g_data_lba s) \<le> unat l" "\<not> fat_sector s l"
proof -
  from assms(3) obtain k where "k < unat (g_sec_per_clus s)" "l = cluster_lba s c + word_of_nat k"
    by (auto simp: in_clus_def)
  with cluster_sec [OF assms(1,2)] show d: "unat (g_data_lba s) \<le> unat l" by simp
  have "unat (g_root_lba s) \<le> unat (g_data_lba s)" using assms(1) by (simp add: vol_ok_def)
  then show "\<not> fat_sector s l" using fat_sector_below [OF assms(1), of l] d by linarith
qed

lemma in_clus_unique:
  "vol_ok s \<Longrightarrow> data_cluster s c \<Longrightarrow> data_cluster s d \<Longrightarrow> in_clus s c l \<Longrightarrow> in_clus s d l \<Longrightarrow> c = d"
  unfolding in_clus_def using cluster_sec_inj by blast

lemma cluster_bytes_cong:
  assumes "moved s s'" "\<And>l. in_clus s c l \<Longrightarrow> disk s' l = disk s l"
  shows "cluster_bytes s' c = cluster_bytes s c"
  unfolding cluster_bytes_def moved_fields [OF assms(1)]
  by (intro arg_cong [where f = concat] map_cong refl assms(2)) (auto simp: in_clus_def)

lemma fat_of_cong:
  assumes "moved s s'" "\<And>l. fat_sector s l \<Longrightarrow> disk s' l = disk s l" "in_fat s c"
  shows "fat_of s' c = fat_of s c"
proof -
  obtain b d f where s': "s' = s\<lparr>g_buf := b, disk := d, g_fds := f\<rparr>" using assms(1) by (auto simp: moved_def)
  have "fat_of (s\<lparr>g_buf := b, disk := d\<rparr>) c = fat_of s c"
    using assms(2) by (intro fat_of_write [OF _ assms(3)]) (simp add: s')
  then show ?thesis by (simp add: s' fat_of_def fat_entry_def sec_byte_def)
qed

lemma inj_secs:
  assumes "vol_ok s" "data_cluster s c"
  shows "inj_on (\<lambda>k. cluster_lba s c + word_of_nat k) (set [0..<unat (g_sec_per_clus s)])"
  using cluster_sec_inj [OF assms(1) assms(2) assms(2)] by (intro inj_onI) auto

subsection \<open>The bytes copied into one cluster\<close>

lemma write_secs_spec:
  fixes clba :: u32 and src :: "u8 list"
  defines "A \<equiv> \<lambda>k. clba + word_of_nat k"
  defines "B \<equiv> \<lambda>s ks. concat (map (\<lambda>k. disk s (A k)) ks)"
  assumes "disk_ok s" "inj_on A (set ks)" "distinct ks" "off \<le> length (B s ks)" "done \<le> length src"
    "n = min (length src - done) (length (B s ks) - off)"
  shows "\<exists>s' off'. write_secs clba ks src s off done = (s', off', done + n) \<and> moved s s' \<and> g_fds s' = g_fds s
    \<and> B s' ks = splice off (slice done n src) (B s ks)
    \<and> (\<forall>l. l \<notin> A ` set ks \<longrightarrow> disk s' l = disk s l) \<and> (done + n < length src \<longrightarrow> off' = 0)"
  using assms(3-)
proof (induction ks arbitrary: s off "done" n)
  case Nil
  then show ?case using moved_refl by (auto simp: B_def slice_def)
next
  case (Cons k ks)
  let ?d = "disk s (A k)"
  have d: "length ?d = 512" using Cons.prems(1) by (simp add: disk_ok_len)
  have B: "B s (k # ks) = ?d @ B s ks" by (simp add: B_def)
  have i: "inj_on A (set ks)" "distinct ks" using Cons.prems(2,3) by simp_all
  have k: "A x \<noteq> A k" if "x \<in> set ks" for x using inj_onD [OF Cons.prems(2), of x k] Cons.prems(3) that by auto
  then have ki: "A k \<notin> A ` set ks" by (metis imageE)
  consider "length src \<le> done" | "done < length src" "512 \<le> off" | "done < length src" "off < 512" by linarith
  then show ?case
  proof cases
    case 1
    then show ?thesis using Cons.prems moved_refl [OF Cons.prems(1)] by (auto simp: slice_def)
  next
    case 2
    have go: "write_secs clba (k # ks) src s off done = write_secs clba ks src s (off - 512) done"
      using 2 by simp
    have o: "off - 512 \<le> length (B s ks)" "n = min (length src - done) (length (B s ks) - (off - 512))"
      using Cons.prems(4,6) 2 d unfolding B by simp_all
    from Cons.IH [OF Cons.prems(1) i o(1) Cons.prems(5) o(2)] obtain s' off' where
      IH: "write_secs clba ks src s (off - 512) done = (s', off', done + n)" "moved s s'" "g_fds s' = g_fds s"
        "B s' ks = splice (off - 512) (slice done n src) (B s ks)"
        "\<forall>l. l \<notin> A ` set ks \<longrightarrow> disk s' l = disk s l" "done + n < length src \<longrightarrow> off' = 0" by blast
    have "B s' (k # ks) = splice off (slice done n src) (?d @ B s ks)"
      using IH(4,5) ki d 2 by (simp add: B_def splice_skip)
    with go IH show ?thesis unfolding B by auto
  next
    case 3
    let ?n = "min (length src - done) (512 - off)"
    let ?b = "splice off (slice done ?n src) ?d" and ?m = "min (length src - (done + ?n)) (length (B s ks))"
    let ?s1 = "s\<lparr>g_buf := ?b, disk := (disk s)(A k := ?b)\<rparr>"
    have sl: "length (slice done ?n src) = ?n" by (rule length_slice) (use 3 in linarith)
    then have b: "length ?b = 512" using 3 d by simp
    have D1: "disk_ok ?s1" using Cons.prems(1) b by (simp add: disk_ok_def)
    have m1: "moved s ?s1" by (rule movedI [OF D1, where f = "g_fds s"]) simp
    have go: "write_secs clba (k # ks) src s off done = write_secs clba ks src ?s1 0 (done + ?n)"
      using 3 Cons.prems(1)
      by (simp add: Let_def read_sector_ok A_def write_sector_def disk_ok_def)
    have B1: "B ?s1 ks = B s ks" unfolding B_def
      by (intro arg_cong [where f = concat] map_cong refl) (use k in auto)
    have o: "0 \<le> length (B ?s1 ks)" "done + ?n \<le> length src" using 3 by linarith+
    have "?m = min (length src - (done + ?n)) (length (B ?s1 ks) - 0)" unfolding B1 by simp
    from Cons.IH [OF D1 i o this, unfolded B1] obtain s' off' where
      IH: "write_secs clba ks src ?s1 0 (done + ?n) = (s', off', done + ?n + ?m)" "moved ?s1 s'" "g_fds s' = g_fds s"
        "B s' ks = splice 0 (slice (done + ?n) ?m src) (B s ks)"
        "\<forall>l. l \<notin> A ` set ks \<longrightarrow> disk s' l = disk ?s1 l" "done + ?n + ?m < length src \<longrightarrow> off' = 0" by auto
    have n: "n = ?n + ?m" using Cons.prems(6) 3 d unfolding B length_append by linarith
    have "B s' (k # ks) = ?b @ splice 0 (slice (done + ?n) ?m src) (B s ks)"
      using IH(4,5) ki by (simp add: B_def)
    also have "\<dots> = splice off (slice done ?n src @ slice (done + ?n) ?m src) (?d @ B s ks)"
    proof (rule splice_both [symmetric])
      show "off + length (slice done ?n src) \<le> length ?d" unfolding sl d using 3 by linarith
      show "slice (done + ?n) ?m src = [] \<or> off + length (slice done ?n src) = length ?d"
      proof (cases "?n = 512 - off")
        case True
        then have "off + ?n = 512" using 3(2) by linarith
        then show ?thesis unfolding sl d by (rule disjI2)
      next
        case False
        then have "?n = length src - done" by (simp add: min_def split: if_splits)
        then have "?m = 0" by simp
        then show ?thesis by (simp add: slice_def)
      qed
    qed
    also have "slice done ?n src @ slice (done + ?n) ?m src = slice done n src"
      unfolding n by (rule slice_add [symmetric, OF o(2)])
    finally have Bk: "B s' (k # ks) = splice off (slice done n src) (?d @ B s ks)" .
    have out: "\<forall>l. l \<notin> A ` set (k # ks) \<longrightarrow> disk s' l = disk s l" using IH(5) by auto
    have e: "done + n = done + ?n + ?m" by (subst n) (rule add.assoc [symmetric])
    have "write_secs clba (k # ks) src s off done = (s', off', done + n)" unfolding go IH(1) e ..
    moreover have "done + n < length src \<longrightarrow> off' = 0" unfolding e by (rule IH(6))
    ultimately show ?thesis using moved_trans [OF m1 IH(2)] IH(3) Bk out unfolding B by blast
  qed
qed

end
