(* ===== verification/Fat_Write.thy ===== *)
theory Fat_Write
  imports Fat_Copy
begin

text \<open>
  Writing to files: \<^verbatim>\<open>fat12_write\<close> on a volume whose parts do not overlap. Every step of the
  operation, the bytes copied into a cluster, a cluster appended to the chain and the walk to
  the position, is one instance of the relation \<open>wrote\<close>; the relation composes, and what the
  whole operation does to the chain, to the table and to the rest of the disk is read off it.
\<close>

subsection \<open>The relation\<close>

definition csize :: "fatfs \<Rightarrow> nat" where
  "csize s = unat (g_sec_per_clus s) * 512"

definition file_chain :: "fatfs \<Rightarrow> u16 \<Rightarrow> u16 list \<Rightarrow> bool" where
  "file_chain s c cs \<longleftrightarrow> fat_chain (fat_of s) c cs \<and> distinct cs \<and> list_all (data_cluster s) cs"

text \<open>No data cluster of the volume is free.\<close>

definition full :: "fatfs \<Rightarrow> bool" where
  "full s \<longleftrightarrow> (\<forall>c. data_cluster s c \<longrightarrow> fat_of s c \<noteq> 0)"

text \<open>
  \<open>wrote s cs p xs s' c ext\<close>: from \<open>s\<close> to \<open>s'\<close> the free clusters \<open>ext\<close> were appended, zeroed, to
  the chain \<open>cs\<close>, which now starts at \<open>c\<close>, and the bytes \<open>xs\<close> were put at position \<open>p\<close>; nothing was appended behind the cluster of the
  position after the last byte; every other entry of the table and every sector outside the tables and these clusters is as before.
\<close>

definition wrote :: "fatfs \<Rightarrow> u16 list \<Rightarrow> nat \<Rightarrow> u8 list \<Rightarrow> fatfs \<Rightarrow> u16 \<Rightarrow> u16 list \<Rightarrow> bool" where
  "wrote s cs p xs s' c ext \<longleftrightarrow> moved s s' \<and> file_chain s' c (cs @ ext)
     \<and> chain_bytes s' (cs @ ext) = splice p xs (chain_bytes s cs @ replicate (length ext * csize s) 0)
     \<and> (ext = [] \<or> (length (cs @ ext) - 1) * csize s \<le> p + length xs) \<and> (\<forall>d \<in> set ext. fat_of s d = 0)
     \<and> (\<forall>d. in_fat s d \<and> d \<notin> set (cs @ ext) \<longrightarrow> fat_of s' d = fat_of s d)
     \<and> (\<forall>l. \<not> fat_sector s l \<and> (\<forall>d \<in> set (cs @ ext). \<not> in_clus s d l) \<longrightarrow> disk s' l = disk s l)"

lemma wroteD:
  assumes "wrote s cs p xs s' c ext"
  shows "moved s s'" "file_chain s' c (cs @ ext)"
    "chain_bytes s' (cs @ ext) = splice p xs (chain_bytes s cs @ replicate (length ext * csize s) 0)"
    "\<And>d. d \<in> set ext \<Longrightarrow> fat_of s d = 0"
    "\<And>d. in_fat s d \<Longrightarrow> d \<notin> set (cs @ ext) \<Longrightarrow> fat_of s' d = fat_of s d"
    "\<And>l. \<not> fat_sector s l \<Longrightarrow> \<forall>d \<in> set (cs @ ext). \<not> in_clus s d l \<Longrightarrow> disk s' l = disk s l"
    "ext = [] \<or> (length (cs @ ext) - 1) * csize s \<le> p + length xs"
  using assms unfolding wrote_def by blast+

lemma csize_moved: "moved s s' \<Longrightarrow> csize s' = csize s"
  by (simp add: csize_def moved_fields)

lemma length_chain: "disk_ok s \<Longrightarrow> length (chain_bytes s cs) = length cs * csize s"
  by (simp add: length_chain_bytes csize_def)

lemma chain_bytes_append: "chain_bytes s (xs @ ys) = chain_bytes s xs @ chain_bytes s ys"
  by (simp add: chain_bytes_def)

lemma file_chainD:
  assumes "file_chain s c cs"
  shows "fat_chain (fat_of s) c cs" "distinct cs" "d \<in> set cs \<Longrightarrow> data_cluster s d"
  using assms by (auto simp: file_chain_def list_all_iff)

lemma file_chain_in_fat: "vol_ok s \<Longrightarrow> file_chain s c cs \<Longrightarrow> d \<in> set cs \<Longrightarrow> in_fat s d"
  using data_cluster_in_fat file_chainD(3) by blast

lemma wrote_trans:
  assumes V: "vol_ok s" and w1: "wrote s cs p xs s1 c1 e1" and w2: "wrote s1 (cs @ e1) (p + length xs) ys s2 c e2"
    and len: "xs = [] \<or> p + length xs \<le> (length cs + length e1) * csize s"
  shows "wrote s cs p (xs @ ys) s2 c (e1 @ e2)"
proof -
  note 1 = wroteD [OF w1] and 2 = wroteD [OF w2]
  note eq = moved_fields [OF 1(1)] csize_moved [OF 1(1)] in_clus_moved [OF 1(1)]
  have V1: "vol_ok s1" by (rule moved_vol [OF 1(1) V])
  have B: "length (chain_bytes s cs @ replicate (length e1 * csize s) 0) = (length cs + length e1) * csize s"
    using V by (simp add: length_chain vol_ok_fat add_mult_distrib)
  have "chain_bytes s2 ((cs @ e1) @ e2)
      = splice (p + length xs) ys (splice p xs (chain_bytes s cs @ replicate (length e1 * csize s) 0) @ replicate (length e2 * csize s) 0)"
    using 2(3) unfolding 1(3) eq by simp
  also have "\<dots> = splice p (xs @ ys) ((chain_bytes s cs @ replicate (length e1 * csize s) 0) @ replicate (length e2 * csize s) 0)"
  proof (cases "xs = []")
    case False
    then have l: "p + length xs \<le> length (chain_bytes s cs @ replicate (length e1 * csize s) 0)" using len unfolding B by blast
    show ?thesis
      unfolding splice_left [OF l, symmetric] by (rule splice_append) (use l in simp)
  qed simp
  finally have bytes: "chain_bytes s2 (cs @ e1 @ e2)
      = splice p (xs @ ys) (chain_bytes s cs @ replicate (length (e1 @ e2) * csize s) 0)"
    by (simp add: add_mult_distrib replicate_add)
  have free: "fat_of s d = 0" if d: "d \<in> set (e1 @ e2)" for d
  proof (cases "d \<in> set e1")
    case False
    with d have e2: "d \<in> set e2" by simp
    then have "d \<notin> set (cs @ e1)" using file_chainD(2) [OF 2(2)] by auto
    moreover have "in_fat s d"
      using data_cluster_in_fat [OF V1] file_chainD(3) [OF 2(2), of d] e2 by (simp add: moved_fields [OF 2(1)] eq)
    ultimately show ?thesis using 1(5) 2(4) [OF e2] by simp
  qed (rule 1(4))
  have ents: "fat_of s2 d = fat_of s d" if "in_fat s d" "d \<notin> set (cs @ e1 @ e2)" for d
    using 1(5) [of d] 2(5) [of d] that unfolding eq by simp
  have secs: "disk s2 l = disk s l" if "\<not> fat_sector s l" "\<forall>d \<in> set (cs @ e1 @ e2). \<not> in_clus s d l" for l
  proof -
    have "\<forall>d \<in> set (cs @ e1). \<not> in_clus s d l" "\<forall>d \<in> set ((cs @ e1) @ e2). \<not> in_clus s d l" using that(2) by auto
    then show ?thesis using 1(6) [of l] 2(6) [of l] that(1) unfolding eq by simp
  qed
  have "e1 @ e2 = [] \<or> (length (cs @ e1 @ e2) - 1) * csize s \<le> p + length (xs @ ys)"
    using 1(7) 2(7) unfolding eq by (cases "e2 = []") auto
  then show ?thesis
    unfolding wrote_def using moved_trans [OF 1(1) 2(1)] 2(2) bytes free ents secs by simp
qed

lemma wrote_same:
  assumes "moved s s'" "file_chain s c cs" "vol_ok s"
    "\<And>d. in_fat s d \<Longrightarrow> fat_of s' d = fat_of s d" "\<And>l. \<not> fat_sector s l \<Longrightarrow> disk s' l = disk s l"
  shows "wrote s cs p [] s' c []"
proof -
  have "\<forall>d \<in> set cs. fat_of s d = fat_of s' d" using assms(4) file_chain_in_fat [OF assms(3,2)] by simp
  from fat.fat_chain_cong [OF this] assms(2) have "file_chain s' c cs"
    by (simp add: file_chain_def moved_fields [OF assms(1)])
  moreover have "cluster_bytes s' d = cluster_bytes s d" if "d \<in> set cs" for d
    by (rule cluster_bytes_cong [OF assms(1)])
      (use assms(5) in_clus_data(2) [OF assms(3) file_chainD(3) [OF assms(2) that]] in blast)
  then have "chain_bytes s' cs = chain_bytes s cs" by (simp add: chain_bytes_def cong: map_cong)
  ultimately show ?thesis using assms(1,4,5) by (simp add: wrote_def)
qed

lemma wrote_reads:
  assumes "reads s s'" "file_chain s c cs" "vol_ok s"
  shows "wrote s cs p [] s' c []"
  using wrote_same [OF reads_moved [OF vol_ok_fat(2) [OF assms(3)] assms(1)] assms(2,3)]
    fat_of_reads [OF assms(1)] reads_fields(1) [OF assms(1)] by simp

subsection \<open>Copying into a cluster\<close>

lemma write_cluster:
  fixes src :: "u8 list"
  assumes V: "vol_ok s" and ch: "file_chain s c cs" and i: "i < length cs"
    and off: "off \<le> csize s" and dn: "done \<le> length src" and n: "n = min (length src - done) (csize s - off)"
  shows "\<exists>s' off'. write_secs (cluster_lba s (cs ! i)) [0..<unat (g_sec_per_clus s)] src s off done = (s', off', done + n)
    \<and> wrote s cs (i * csize s + off) (slice done n src) s' c [] \<and> g_fds s' = g_fds s
    \<and> (done + n < length src \<longrightarrow> off' = 0)"
proof -
  let ?x = "cs ! i" and ?ks = "[0..<unat (g_sec_per_clus s)]" and ?xs = "slice done n src"
  have D: "disk_ok s" using V by (rule vol_ok_fat)
  have x: "?x \<in> set cs" "data_cluster s ?x" using i file_chainD(3) [OF ch] by simp_all
  have len: "length (concat (map (\<lambda>k. disk s (cluster_lba s ?x + word_of_nat k)) ?ks)) = csize s"
    using length_cluster_bytes [OF D, of ?x] by (simp add: cluster_bytes_def csize_def)
  from write_secs_spec [where s = s and clba = "cluster_lba s ?x" and ks = ?ks, OF D inj_secs [OF V x(2)] distinct_upt, unfolded len, OF off dn n]
  obtain s' off' where r: "write_secs (cluster_lba s ?x) ?ks src s off done = (s', off', done + n)" "moved s s'" "g_fds s' = g_fds s"
    "concat (map (\<lambda>k. disk s' (cluster_lba s ?x + word_of_nat k)) ?ks)
      = splice off ?xs (concat (map (\<lambda>k. disk s (cluster_lba s ?x + word_of_nat k)) ?ks))"
    "\<forall>l. l \<notin> (\<lambda>k. cluster_lba s ?x + word_of_nat k) ` set ?ks \<longrightarrow> disk s' l = disk s l"
    "done + n < length src \<longrightarrow> off' = 0" by blast
  have cb: "cluster_bytes s' ?x = splice off ?xs (cluster_bytes s ?x)"
    using r(4) by (simp add: cluster_bytes_def moved_fields [OF r(2)])
  have out: "disk s' l = disk s l" if "\<not> in_clus s ?x l" for l
    using that by (intro r(5) [rule_format]) (auto simp: in_clus_def)
  have ents: "fat_of s' d = fat_of s d" if "in_fat s d" for d
    by (rule fat_of_cong [OF r(2) _ that]) (use out in_clus_data(2) [OF V x(2)] in blast)
  have other: "cluster_bytes s' d = cluster_bytes s d" if "d \<in> set cs" "d \<noteq> ?x" for d
    by (rule cluster_bytes_cong [OF r(2)])
      (use out in_clus_unique [OF V file_chainD(3) [OF ch that(1)] x(2)] that(2) in blast)
  have cs: "cs = take i cs @ ?x # drop (Suc i) cs" by (rule id_take_nth_drop [OF i])
  have dist: "?x \<notin> set (take i cs)" "?x \<notin> set (drop (Suc i) cs)"
    using file_chainD(2) [OF ch] cs by (metis distinct_append disjoint_iff list.set_intros(1), metis distinct.simps(2) distinct_append)
  have "chain_bytes s' ds = chain_bytes s ds" if "?x \<notin> set ds" "set ds \<subseteq> set cs" for ds
    unfolding chain_bytes_def using that by (intro arg_cong [where f = concat] map_cong refl other) auto
  then have same: "chain_bytes s' (take i cs) = chain_bytes s (take i cs)"
    "chain_bytes s' (drop (Suc i) cs) = chain_bytes s (drop (Suc i) cs)"
    using dist by (simp_all add: set_take_subset set_drop_subset)
  have split: "chain_bytes t cs = chain_bytes t (take i cs) @ cluster_bytes t ?x @ chain_bytes t (drop (Suc i) cs)" for t
    by (subst cs) (simp add: chain_bytes_def)
  have l: "length (chain_bytes s (take i cs)) = i * csize s" using i by (simp add: length_chain [OF D])
  have xs: "off + length ?xs \<le> length (cluster_bytes s ?x)"
    unfolding length_cluster_bytes [OF D] using off n dn by (simp add: csize_def)
  have bytes: "chain_bytes s' cs = splice (i * csize s + off) ?xs (chain_bytes s cs)"
    unfolding split [of s'] split [of s] same cb
    by (subst splice_skip) (simp_all add: l splice_left [OF xs])
  have "fat_chain (fat_of s') c cs = fat_chain (fat_of s) c cs"
    by (rule fat.fat_chain_cong) (simp add: ents file_chain_in_fat [OF V ch])
  then have "file_chain s' c cs" using ch by (simp add: file_chain_def moved_fields [OF r(2)])
  then have "wrote s cs (i * csize s + off) ?xs s' c []"
    unfolding wrote_def using r(2) bytes ents out x(1) by auto
  with r(1,3,6) show ?thesis by blast
qed

subsection \<open>A new cluster\<close>

lemma fat_scan_outside:
  "disk_ok s \<Longrightarrow> \<forall>i \<in> set is. in_fat s i \<Longrightarrow> \<not> fat_sector s l \<Longrightarrow>
   disk (fst (fat_scan fat_get fat_set is s)) l = disk s l"
proof (induction "is" arbitrary: s)
  case (Cons i "is")
  obtain s1 e where g: "fat_get i s = (s1, e)" by fastforce
  have r: "reads s s1" using fat_get_spec(2) [OF Cons.prems(1), of i] g by simp
  have D1: "disk_ok s1" by (rule reads_disk_ok [OF r Cons.prems(1)])
  have k: "in_fat s1 = in_fat s" "disk s1 = disk s" "fat_sector s1 = fat_sector s"
    using fat_of_reads [OF r] reads_fields(1) [OF r] moved_fields(5) [OF reads_moved [OF Cons.prems(1) r]] by simp_all
  show ?case
  proof (cases "e = FAT12_FREE")
    case True
    then show ?thesis using fat_set_outside [OF D1, of i l FAT12_EOC] Cons.prems k by (simp add: g)
  next
    case False
    then show ?thesis using Cons.IH [OF D1] Cons.prems k by (simp add: g)
  qed
qed simp

lemma fat_alloc_moved:
  assumes V: "vol_ok s" and a: "fat_alloc s = (s1, c)"
  shows "moved s s1" "\<not> fat_sector s l \<Longrightarrow> disk s1 l = disk s l" "g_fds s1 = g_fds s"
    "c = 0 \<Longrightarrow> full s \<and> fat_of s1 = fat_of s"
    "c \<noteq> 0 \<Longrightarrow> data_cluster s c \<and> fat_of s c = 0"
    "c \<noteq> 0 \<Longrightarrow> in_fat s d \<Longrightarrow> fat_of s1 d = (if d = c then 0xFF8 else fat_of s d)"
proof -
  have F: "fat_ok s" and D: "disk_ok s" using V by (simp_all add: vol_ok_fat)
  obtain b dk where s1: "s1 = s\<lparr>g_buf := b, disk := dk\<rparr>" "fat_ok s1" using fat_alloc_frame [OF F] a by auto
  then show "moved s s1" by (intro movedI [where b = b and d = dk and f = "g_fds s"]) (simp_all add: fat_ok_def)
  show "g_fds s1 = g_fds s" by (simp add: s1(1))
  show "\<not> fat_sector s l \<Longrightarrow> disk s1 l = disk s l"
    using fat_scan_outside [OF D, of _ l] alloc_range [OF F] a unfolding fat_alloc_def by (metis fst_conv)
  from fat_alloc_spec [OF F] a
  show "c = 0 \<Longrightarrow> full s \<and> fat_of s1 = fat_of s" "c \<noteq> 0 \<Longrightarrow> data_cluster s c \<and> fat_of s c = 0"
    "c \<noteq> 0 \<Longrightarrow> in_fat s d \<Longrightarrow> fat_of s1 d = (if d = c then 0xFF8 else fat_of s d)"
    by (auto simp: Let_def full_def data_cluster_def)
qed

lemma zero_cluster_spec:
  assumes V: "vol_ok s" and c: "data_cluster s c"
  shows "moved s (zero_cluster c s)" "\<not> in_clus s c l \<Longrightarrow> disk (zero_cluster c s) l = disk s l"
    "in_fat s d \<Longrightarrow> fat_of (zero_cluster c s) d = fat_of s d"
    "cluster_bytes (zero_cluster c s) c = replicate (csize s) 0"
    "data_cluster s d \<Longrightarrow> d \<noteq> c \<Longrightarrow> cluster_bytes (zero_cluster c s) d = cluster_bytes s d"
proof -
  let ?z = "zero_cluster c s"
  have D: "disk_ok s" using V by (rule vol_ok_fat)
  show m: "moved s ?z"
    by (rule movedI [OF disk_ok_zero [OF D], where f = "g_fds s"]) (simp add: zero_cluster_disk [OF D])
  show out: "\<not> in_clus s c l \<Longrightarrow> disk ?z l = disk s l" for l
    by (auto simp: zero_cluster_disk [OF D] in_clus_def)
  show "in_fat s d \<Longrightarrow> fat_of ?z d = fat_of s d"
    by (rule fat_of_cong [OF m]) (use out in_clus_data(2) [OF V c] in blast)+
  show "cluster_bytes ?z c = replicate (csize s) 0" by (simp add: cluster_bytes_zero [OF D] csize_def)
  show "data_cluster s d \<Longrightarrow> d \<noteq> c \<Longrightarrow> cluster_bytes ?z d = cluster_bytes s d"
    by (rule cluster_bytes_cong [OF m]) (use out in_clus_unique [OF V c] in blast)
qed

lemma fat_chain_snoc:
  assumes "fat_chain E c cs" "\<forall>d \<in> set cs. F d = (if d = last cs then n else E d)" "distinct cs"
    "2 \<le> n" "n < FAT12_BAD" "FAT12_EOC \<le> F n"
  shows "fat_chain F c (cs @ [n])"
  using assms
proof (induction E c cs rule: fat_chain.induct)
  case (2 E c x)
  then have "n < FAT12_EOC" by (auto simp: fat_consts intro: less_trans)
  with 2 show ?case by simp
next
  case (3 E c x y xs)
  then have "x \<noteq> last (y # xs)" using last_in_set [of "y # xs"] by (auto simp del: last.simps)
  then have "F c = E c" using 3(2,3) by simp
  with 3 show ?case by simp
qed simp

lemma data_cluster_range:
  assumes "vol_ok s" "data_cluster s c"
  shows "2 \<le> c" "c < FAT12_BAD" "c AND 0xFFF = c" "c \<noteq> 0"
proof -
  have "unat (g_total_clusters s) \<le> 4085" using assms(1) by (simp add: vol_ok_def fat_ok_def word_le_nat_alt)
  then have u: "unat c < 4087" using assms(2) by (simp add: data_cluster_def)
  then show "c < FAT12_BAD" by (simp add: fat_consts word_less_nat_alt)
  have "c < 2 ^ 12" using u by (simp add: word_less_nat_alt)
  then have "c AND mask 12 = c" by (rule less_mask_eq)
  then show "c AND 0xFFF = c" by (simp add: mask_eq_exp_minus_1)
  show "2 \<le> c" using assms(2) by (simp add: data_cluster_def)
  then show "c \<noteq> 0" by auto
qed

lemma chain_last: "fat_chain E c cs \<Longrightarrow> FAT12_EOC \<le> E (last cs)"
  by (induction E c cs rule: fat_chain.induct) simp_all

lemma chain_next:
  "fat_chain E c cs \<Longrightarrow> Suc i < length cs \<Longrightarrow> E (cs ! i) = cs ! Suc i \<and> E (cs ! i) < FAT12_EOC"
proof (induction E c cs arbitrary: i rule: fat_chain.induct)
  case (3 E c x y xs)
  show ?case
  proof (cases i)
    case 0
    then show ?thesis using 3 fat.fat_chain_hd [of E "E c" "y # xs"] by auto
  next
    case (Suc j)
    then show ?thesis using 3(1) [of j] 3(2,3) by auto
  qed
qed simp_all

lemma chain_used:
  assumes "fat_chain E c cs" "d \<in> set cs"
  shows "E d \<noteq> 0"
proof -
  obtain i where i: "i < length cs" "d = cs ! i" using assms(2) by (auto simp: in_set_conv_nth)
  show ?thesis
  proof (cases "Suc i < length cs")
    case True
    have "2 \<le> cs ! Suc i" using fat.fat_chain_hd [OF fat_chain_drop [OF assms(1) True]] by simp
    then show ?thesis using chain_next [OF assms(1) True] i(2) by auto
  next
    case False
    then have "d = last cs" using i by (metis Suc_lessI diff_Suc_1 last_conv_nth length_greater_0_conv less_nat_zero_code list.size(3) not_less_eq)
    then show ?thesis using chain_last [OF assms(1)] by (auto simp: fat_consts)
  qed
qed

lemma extend_chain_spec:
  assumes V: "vol_ok s" and ch: "file_chain s c cs" and p: "length cs * csize s \<le> p"
    and e: "extend_chain (last cs) s = (s', r)"
  shows "g_fds s' = g_fds s"
    "case r of None \<Rightarrow> full s' \<and> wrote s cs p [] s' c [] | Some n \<Rightarrow> wrote s cs p [] s' c [n]"
proof -
  show "g_fds s' = g_fds s" using g_fds_extend_chain [of "last cs" s] e by simp
  obtain s1 n where a: "fat_alloc s = (s1, n)" by fastforce
  note al = fat_alloc_moved [OF V a]
  note E = moved_fields [OF al(1)] in_clus_moved [OF al(1)] csize_moved [OF al(1)]
  have D1: "disk_ok s1" and V1: "vol_ok s1" using E(6) moved_vol [OF al(1) V] by simp_all
  show "case r of None \<Rightarrow> full s' \<and> wrote s cs p [] s' c [] | Some n \<Rightarrow> wrote s cs p [] s' c [n]"
  proof (cases "n = 0")
    case True
    then have "r = None" "s' = s1" using e by (simp_all add: extend_chain_def a)
    moreover have "full s1" using al(4) [OF True] by (simp add: full_def E)
    moreover have "wrote s cs p [] s1 c []"
      by (rule wrote_same [OF al(1) ch V]) (use al(2) al(4) [OF True] in simp_all)
    ultimately show ?thesis by simp
  next
    case False
    let ?x = "last cs" and ?s2 = "fat_set (last cs) n s1"
    let ?s3 = "zero_cluster n ?s2"
    have r: "r = Some n" "s' = ?s3" using e False by (simp_all add: extend_chain_def a)
    have n: "data_cluster s n" "fat_of s n = 0" using al(5) [OF False] by simp_all
    have ne: "cs \<noteq> []" using fat.fat_chain_hd [OF file_chainD(1) [OF ch]] by simp
    then have x: "?x \<in> set cs" by simp
    have xf: "in_fat s1 ?x" using file_chain_in_fat [OF V ch x] by (simp add: E)
    obtain d b where s2: "?s2 = s1\<lparr>g_buf := b, disk := d\<rparr>" using fat_set_spec(2) [OF D1 xf] by blast
    have m2: "moved s1 ?s2"
      by (rule movedI [OF fat_set_spec(1) [OF D1 xf], where f = "g_fds s1"]) (use s2 in simp)
    note E2 = moved_fields [OF m2] in_clus_moved [OF m2] csize_moved [OF m2]
    have V2: "vol_ok ?s2" by (rule moved_vol [OF m2 V1])
    have n2: "data_cluster ?s2 n" using n(1) by (simp add: E E2)
    note z = zero_cluster_spec [OF V2 n2]
    have m: "moved s ?s3" using moved_trans [OF moved_trans [OF al(1) m2] z(1)] .
    have nc: "n \<notin> set cs" using chain_used [OF file_chainD(1) [OF ch]] n(2) by blast
    then have nx: "n \<noteq> ?x" using x by blast
    have entry: "fat_of ?s3 d = (if d = ?x then n else if d = n then 0xFF8 else fat_of s d)" if "in_fat s d" for d
      using that z(3) [of d] fat_of_set [OF D1 xf, of d n] al(6) [OF False that] data_cluster_range(3) [OF V n(1)]
      by (simp add: E E2)
    have nf: "in_fat s n" by (rule data_cluster_in_fat [OF V n(1)])
    have "fat_chain (fat_of ?s3) c (cs @ [n])"
    proof (rule fat_chain_snoc [OF file_chainD(1) [OF ch] _ file_chainD(2) [OF ch]])
      show "\<forall>d \<in> set cs. fat_of ?s3 d = (if d = ?x then n else fat_of s d)"
        using entry file_chain_in_fat [OF V ch] nc by auto
      show "FAT12_EOC \<le> fat_of ?s3 n" using entry [OF nf] nx by (simp add: fat_consts)
    qed (use data_cluster_range [OF V n(1)] in auto)
    then have fc: "file_chain ?s3 c (cs @ [n])"
      using ch n(1) nc by (simp add: file_chain_def moved_fields [OF m])
    have secs: "disk ?s3 l = disk s l" if "\<not> fat_sector s l" "\<not> in_clus s n l" for l
      using that z(2) [of l] fat_set_outside [OF D1 xf, of l n] al(2) [of l] by (simp add: E E2)
    have "cluster_bytes ?s3 d = cluster_bytes s d" if "d \<in> set cs" for d
    proof (rule cluster_bytes_cong [OF m])
      fix l assume l: "in_clus s d l"
      have dd: "data_cluster s d" by (rule file_chainD(3) [OF ch that])
      have "n \<noteq> d" using nc that by blast
      then show "disk ?s3 l = disk s l"
        using in_clus_unique [OF V n(1) dd _ l] in_clus_data(2) [OF V dd l] by (intro secs) auto
    qed
    then have "chain_bytes ?s3 cs = chain_bytes s cs" by (simp add: chain_bytes_def cong: map_cong)
    moreover have "cluster_bytes ?s3 n = replicate (csize s) 0" using z(4) by (simp add: E E2)
    ultimately have "chain_bytes ?s3 (cs @ [n]) = chain_bytes s cs @ replicate (csize s) 0"
      unfolding chain_bytes_append by (simp add: chain_bytes_def)
    then have "wrote s cs p [] ?s3 c [n]"
      using m fc n(2) entry secs x p by (auto simp: wrote_def)
    then show ?thesis by (simp add: r)
  qed
qed

subsection \<open>Walking and writing along the chain\<close>

text \<open>The step to the next cluster, shared by the walk to the position and the copying loop.\<close>

definition next_cluster :: "u16 \<Rightarrow> fatfs \<Rightarrow> fatfs \<times> u16 option" where
  "next_cluster x s = (let (s1, nxt) = fat_get x s in
     if FAT12_EOC \<le> nxt then extend_chain x s1 else (s1, Some nxt))"

lemma write_skip_next:
  "write_skip (Suc n) x s = (case next_cluster x s of (s2, None) \<Rightarrow> (s2, None)
     | (s2, Some y) \<Rightarrow> if FAT12_EOC \<le> y \<or> y = 0 then (s2, None) else write_skip n y s2)"
  by (simp add: next_cluster_def Let_def split: prod.splits option.splits)

lemma write_clus_next:
  assumes "done < length src" "2 \<le> x" "x < FAT12_EOC"
    "write_secs (cluster_lba s x) [0..<unat (g_sec_per_clus s)] src s off done = (s1, off1, done1)"
  shows "write_clus src x s off done = (if done1 < length src
     then case next_cluster x s1 of (s2, None) \<Rightarrow> Some (s2, done1) | (s2, Some y) \<Rightarrow> write_clus src y s2 off1 done1
     else Some (s1, done1))"
  using assms
  by (subst write_clus.simps) (simp add: next_cluster_def Let_def split: prod.splits option.splits)

lemma next_cluster_spec:
  assumes V: "vol_ok s" and ch: "file_chain s c cs" and i: "i < length cs" and p: "Suc i * csize s \<le> p"
  shows "\<exists>s' r ext. next_cluster (cs ! i) s = (s', r) \<and> g_fds s' = g_fds s \<and> wrote s cs p [] s' c ext
    \<and> (case r of None \<Rightarrow> full s' | Some y \<Rightarrow> Suc i < length (cs @ ext) \<and> y = (cs @ ext) ! Suc i)"
proof -
  have D: "disk_ok s" using V by (rule vol_ok_fat)
  obtain s1 nx where g: "fat_get (cs ! i) s = (s1, nx)" by fastforce
  have r: "reads s s1" "nx = fat_of s (cs ! i)"
    using fat_get_spec(2) [OF D, of "cs ! i"] fat.get_entry [OF D, of "cs ! i"] g by simp_all
  have w: "wrote s cs p [] s1 c []" by (rule wrote_reads [OF r(1) ch V])
  show ?thesis
  proof (cases "Suc i < length cs")
    case True
    then have "next_cluster (cs ! i) s = (s1, Some (cs ! Suc i))"
      using chain_next [OF file_chainD(1) [OF ch] True] r(2) by (auto simp: next_cluster_def g not_le)
    then show ?thesis using w True reads_fields(15) [OF r(1)] by (intro exI conjI) (assumption | simp)+
  next
    case False
    then have n: "length cs = Suc i" using i by linarith
    moreover from n have "cs \<noteq> []" by auto
    ultimately have l: "length cs = Suc i" "cs ! i = last cs" by (simp_all add: last_conv_nth)
    obtain s2 r' where e: "extend_chain (last cs) s1 = (s2, r')" by fastforce
    have go: "next_cluster (cs ! i) s = (s2, r')"
      using chain_last [OF file_chainD(1) [OF ch]] r(2) l(2) e g by (simp add: next_cluster_def)
    have V1: "vol_ok s1" by (rule moved_vol [OF wroteD(1) [OF w] V])
    have c1: "file_chain s1 c cs" using wroteD(2) [OF w] by simp
    have "length cs * csize s1 \<le> p" using p unfolding l(1) csize_moved [OF wroteD(1) [OF w]] .
    note ex = extend_chain_spec [OF V1 c1 this e]
    have fds: "g_fds s2 = g_fds s" using ex(1) reads_fields(15) [OF r(1)] by simp
    show ?thesis
    proof (cases r')
      case None
      then have "full s2" "wrote s1 (cs @ []) (p + length ([] :: u8 list)) [] s2 c []" using ex(2) by simp_all
      with wrote_trans [OF V w this(2)] go None fds show ?thesis by auto
    next
      case (Some n)
      then have "wrote s1 (cs @ []) (p + length ([] :: u8 list)) [] s2 c [n]" using ex(2) by simp
      from wrote_trans [OF V w this] have "wrote s cs p [] s2 c [n]" by simp
      with go Some fds l(1) show ?thesis by (intro exI conjI) (assumption | simp add: nth_append)+
    qed
  qed
qed

lemma wrote_nil_trans:
  assumes "vol_ok s" "wrote s cs p [] s1 c1 e1" "wrote s1 (cs @ e1) p ys s2 c e2"
  shows "wrote s cs p ys s2 c (e1 @ e2)"
  using wrote_trans [OF assms(1,2), of ys s2 c e2] assms(3) by simp

lemma chain_range:
  assumes "vol_ok s" "file_chain s c cs" "x \<in> set cs"
  shows "2 \<le> x" "x < FAT12_EOC" "x \<noteq> 0"
proof -
  have r: "2 \<le> x" "x < FAT12_BAD" "x \<noteq> 0" using data_cluster_range [OF assms(1) file_chainD(3) [OF assms(2,3)]] by simp_all
  then show "2 \<le> x" "x < FAT12_EOC" "x \<noteq> 0" by (auto simp: fat_consts intro: less_trans)
qed

lemma write_skip_spec:
  assumes "vol_ok s" "file_chain s c cs" "i < length cs" "(i + n) * csize s \<le> p"
  shows "\<exists>s' r ext. write_skip n (cs ! i) s = (s', r) \<and> g_fds s' = g_fds s \<and> wrote s cs p [] s' c ext
    \<and> (case r of None \<Rightarrow> full s' | Some y \<Rightarrow> i + n < length (cs @ ext) \<and> y = (cs @ ext) ! (i + n))"
  using assms
proof (induction n arbitrary: s cs i)
  case 0
  have "wrote s cs p [] s c []"
    by (rule wrote_reads [OF reads_refl [OF vol_ok_fat(2) [OF 0(1)]] 0(2) 0(1)])
  then show ?case using 0(3) by (intro exI conjI) (assumption | simp)+
next
  case (Suc n)
  have "Suc i * csize s \<le> (i + Suc n) * csize s" by (intro mult_le_mono1) simp
  then have "Suc i * csize s \<le> p" using Suc.prems(4) by linarith
  from next_cluster_spec [OF Suc.prems(1-3) this] obtain s1 r e1 where
    st: "next_cluster (cs ! i) s = (s1, r)" "g_fds s1 = g_fds s" "wrote s cs p [] s1 c e1"
      "case r of None \<Rightarrow> full s1 | Some y \<Rightarrow> Suc i < length (cs @ e1) \<and> y = (cs @ e1) ! Suc i" by blast
  show ?case
  proof (cases r)
    case None
    then have "write_skip (Suc n) (cs ! i) s = (s1, None)" unfolding write_skip_next by (simp add: st(1))
    with st None show ?thesis by auto
  next
    case (Some y)
    then have y: "Suc i < length (cs @ e1)" "y = (cs @ e1) ! Suc i" using st(4) by simp_all
    have V1: "vol_ok s1" and c1: "file_chain s1 c (cs @ e1)"
      using moved_vol [OF wroteD(1) [OF st(3)] Suc.prems(1)] wroteD(2) [OF st(3)] by simp_all
    have "y \<in> set (cs @ e1)" unfolding y(2) by (rule nth_mem [OF y(1)])
    note yr = chain_range [OF V1 c1 this]
    have go: "write_skip (Suc n) (cs ! i) s = write_skip n ((cs @ e1) ! Suc i) s1"
      using yr unfolding write_skip_next by (simp add: st(1) Some flip: y(2) not_less)
    have "(Suc i + n) * csize s1 \<le> p" using Suc.prems(4) by (simp add: csize_moved [OF wroteD(1) [OF st(3)]])
    from Suc.IH [OF V1 c1 y(1) this] obtain s' r' e2 where
      IH: "write_skip n ((cs @ e1) ! Suc i) s1 = (s', r')" "g_fds s' = g_fds s1" "wrote s1 (cs @ e1) p [] s' c e2"
        "case r' of None \<Rightarrow> full s' | Some y \<Rightarrow> Suc i + n < length ((cs @ e1) @ e2) \<and> y = ((cs @ e1) @ e2) ! (Suc i + n)" by blast
    have "wrote s cs p [] s' c (e1 @ e2)" by (rule wrote_nil_trans [OF Suc.prems(1) st(3) IH(3)])
    then show ?thesis using IH(4) IH(2) st(2) unfolding go IH(1) add_Suc_shift append_assoc
      by (intro exI [of _ s'] exI [of _ r'] exI [of _ "e1 @ e2"]) simp
  qed
qed

lemma write_clus_spec:
  fixes src :: "u8 list"
  assumes "vol_ok s" "file_chain s c cs" "i < length cs" "off < csize s" "done < length src"
  shows "\<exists>s' n ext. write_clus src (cs ! i) s off done = Some (s', done + n) \<and> 0 < n \<and> done + n \<le> length src
    \<and> g_fds s' = g_fds s \<and> wrote s cs (i * csize s + off) (slice done n src) s' c ext
    \<and> (done + n < length src \<longrightarrow> full s')"
  using assms
proof (induction "length src - done" arbitrary: s cs i off "done" rule: less_induct)
  case less
  note V = less.prems(1) and ch = less.prems(2) and i = less.prems(3)
  define n where "n = min (length src - done) (csize s - off)"
  have "off \<le> csize s" "done \<le> length src" using less.prems(4,5) by simp_all
  from write_cluster [OF V ch i this n_def] obtain s1 off1 where
    w: "write_secs (cluster_lba s (cs ! i)) [0..<unat (g_sec_per_clus s)] src s off done = (s1, off1, done + n)"
      "wrote s cs (i * csize s + off) (slice done n src) s1 c []" "g_fds s1 = g_fds s" "done + n < length src \<longrightarrow> off1 = 0" by blast
  have V1: "vol_ok s1" and c1: "file_chain s1 c cs"
    using moved_vol [OF wroteD(1) [OF w(2)] V] wroteD(2) [OF w(2)] by simp_all
  have n0: "0 < n" "done + n \<le> length src" using less.prems(4,5) unfolding n_def by linarith+
  have "cs ! i \<in> set cs" using i by simp
  note go = write_clus_next [OF less.prems(5) chain_range(1,2) [OF V ch this] w(1)]
  show ?case
  proof (cases "done + n < length src")
    case False
    then have "write_clus src (cs ! i) s off done = Some (s1, done + n)" using go by simp
    with w(2,3) n0 False show ?thesis by blast
  next
    case True
    then have "n = csize s - off" unfolding n_def by linarith
    then have q: "i * csize s + off + n = Suc i * csize s" using less.prems(4) by simp
    have sl: "length (slice done n src) = n" by (rule length_slice [OF n0(2)])
    have lim: "i * csize s + off + n \<le> length cs * csize s" unfolding q using i by (intro mult_le_mono1) simp
    have z1: "Suc i * csize s = Suc i * csize s1" by (simp add: csize_moved [OF wroteD(1) [OF w(2)]])
    from next_cluster_spec [OF V1 c1 i eq_imp_le [OF z1 [symmetric]]] obtain s2 r e1 where
      st: "next_cluster (cs ! i) s1 = (s2, r)" "g_fds s2 = g_fds s1" "wrote s1 cs (Suc i * csize s) [] s2 c e1"
        "case r of None \<Rightarrow> full s2 | Some y \<Rightarrow> Suc i < length (cs @ e1) \<and> y = (cs @ e1) ! Suc i" by blast
    have w2: "wrote s cs (i * csize s + off) (slice done n src) s2 c e1"
      using wrote_trans [OF V w(2), of "[]" s2 c e1] st(3) lim unfolding sl q by simp
    show ?thesis
    proof (cases r)
      case None
      then have "write_clus src (cs ! i) s off done = Some (s2, done + n)" using go True by (simp add: st(1))
      with w2 w(3) st(2,4) None n0 show ?thesis by (intro exI conjI) (assumption | simp)+
    next
      case (Some y)
      then have y: "Suc i < length (cs @ e1)" "y = (cs @ e1) ! Suc i" using st(4) by simp_all
      have V2: "vol_ok s2" and c2: "file_chain s2 c (cs @ e1)" and z: "csize s2 = csize s"
        using moved_vol [OF wroteD(1) [OF w2] V] wroteD(2) [OF w2] csize_moved [OF wroteD(1) [OF w2]] by simp_all
      have sm: "length src - (done + n) < length src - done" using n0 less.prems(5) by linarith
      have "0 < csize s2" using less.prems(4) z by simp
      from less.hyps [OF sm V2 c2 y(1) this True] obtain s' m e2 where
        IH: "write_clus src ((cs @ e1) ! Suc i) s2 0 (done + n) = Some (s', done + n + m)" "0 < m" "done + n + m \<le> length src"
          "g_fds s' = g_fds s2" "wrote s2 (cs @ e1) (Suc i * csize s2 + 0) (slice (done + n) m src) s' c e2"
          "done + n + m < length src \<longrightarrow> full s'" by blast
      have off1: "off1 = 0" using w(4) True by simp
      have "write_clus src (cs ! i) s off done = Some (s', done + (n + m))"
        using go True IH(1) y(2) by (simp add: st(1) Some off1 add.assoc)
      moreover have "slice done n src @ slice (done + n) m src = slice done (n + m) src"
        by (rule slice_add [symmetric, OF n0(2)])
      moreover have "wrote s2 (cs @ e1) (i * csize s + off + length (slice done n src)) (slice (done + n) m src) s' c e2"
        using IH(5) unfolding sl q z by simp
      from wrote_trans [OF V w2 this] have "wrote s cs (i * csize s + off) (slice done n src @ slice (done + n) m src) s' c (e1 @ e2)"
        unfolding sl using lim by (simp add: add_mult_distrib trans_le_add1)
      ultimately show ?thesis
        using IH(2,3,4,6) w(3) st(2) by (intro exI [of _ s'] exI [of _ "n + m"] exI [of _ "e1 @ e2"]) (simp add: add.assoc)
    qed
  qed
qed

subsection \<open>The whole operation\<close>

lemma wrote_upd_fd:
  assumes "wrote s cs p xs s' c ext"
  shows "wrote s cs p xs (upd_fd fd h s') c ext"
proof -
  have m: "moved s' (upd_fd fd h s')"
    by (rule movedI [where b = "g_buf s'" and d = "disk s'"])
      (use moved_fields(6) [OF wroteD(1) [OF assms]] in \<open>simp_all add: upd_fd_def disk_ok_def\<close>)
  have "fat_of (upd_fd fd h s') = fat_of s'" "disk (upd_fd fd h s') = disk s'"
    "cluster_bytes (upd_fd fd h s') = cluster_bytes s'"
    by (simp_all add: upd_fd_def fat_of_def fat_entry_def sec_byte_def cluster_bytes_def cluster_lba_def fun_eq_iff)
  then show ?thesis
    using assms moved_trans [OF wroteD(1) [OF assms] m] unfolding wrote_def
    by (simp add: file_chain_def chain_bytes_def moved_fields [OF m])
qed

text \<open>The first cluster of an empty file.\<close>

lemma wrote_first:
  assumes V: "vol_ok s" and a: "fat_alloc s = (t, c)" and c: "c \<noteq> 0"
  shows "wrote s [] p [] (zero_cluster c (upd_fd fd h t)) c [c]"
proof -
  note al = fat_alloc_moved [OF V a]
  let ?t = "upd_fd fd h t"
  have mt: "moved t ?t"
    by (rule movedI [where b = "g_buf t" and d = "disk t"])
      (use moved_fields(6) [OF al(1)] in \<open>simp_all add: upd_fd_def disk_ok_def\<close>)
  have eq: "fat_of ?t = fat_of t" "disk ?t = disk t"
    by (simp_all add: upd_fd_def fat_of_def fat_entry_def sec_byte_def fun_eq_iff)
  have m1: "moved s ?t" by (rule moved_trans [OF al(1) mt])
  note E = moved_fields [OF m1] in_clus_moved [OF m1] csize_moved [OF m1]
  have V1: "vol_ok ?t" by (rule moved_vol [OF m1 V])
  have d: "data_cluster s c" "fat_of s c = 0" using al(5) [OF c] by simp_all
  have "data_cluster ?t c" using d(1) by (simp add: E)
  note z = zero_cluster_spec [OF V1 this]
  have m: "moved s (zero_cluster c ?t)" by (rule moved_trans [OF m1 z(1)])
  have "fat_of (zero_cluster c ?t) x = (if x = c then 0xFF8 else fat_of s x)" if "in_fat s x" for x
    using z(3) [of x] al(6) [OF c that] that by (simp add: E eq)
  moreover have "file_chain (zero_cluster c ?t) c [c]"
    using calculation [OF data_cluster_in_fat [OF V d(1)]] data_cluster_range [OF V d(1)] d(1)
    by (simp add: file_chain_def moved_fields [OF m] fat_consts)
  moreover have "disk (zero_cluster c ?t) l = disk s l" if "\<not> fat_sector s l" "\<not> in_clus s c l" for l
    using z(2) [of l] al(2) [OF that(1)] that(2) by (simp add: E eq)
  ultimately show ?thesis
    using m d(2) z(4) by (simp add: wrote_def chain_bytes_def E)
qed

text \<open>From a state whose file has clusters: the walk, the copy and the update of the open file.\<close>

definition write_rest :: "int \<Rightarrow> u8 list \<Rightarrow> fatfs \<Rightarrow> (fatfs \<times> int) option" where
  "write_rest fd src s = (let f = g_fds s ! nat fd in
     case write_skip (unat (ff_pos f div cluster_size s)) (ff_first f) s of
       (s2, None) \<Rightarrow> Some (s2, 0)
     | (s2, Some clus) \<Rightarrow> map_option (\<lambda>(s3, done).
           (upd_fd fd (\<lambda>f. let p = ff_pos f + word_of_nat done in
                          f\<lparr>ff_pos := p, ff_size := (if ff_size f < p then p else ff_size f)\<rparr>) s3,
            to_int done))
         (write_clus src clus s2 (unat (ff_pos f mod cluster_size s)) 0))"

definition advanced :: "nat \<Rightarrow> fat_fd \<Rightarrow> fat_fd" where
  "advanced n f = (if n = 0 then f else let p = ff_pos f + word_of_nat n in
     f\<lparr>ff_pos := p, ff_size := max (ff_size f) p\<rparr>)"

lemma write_rest_spec:
  fixes src :: "u8 list"
  assumes V: "vol_ok s" and ch: "file_chain s c cs" and c: "ff_first (g_fds s ! nat fd) = c" and src: "src \<noteq> []"
  shows "\<exists>s' n ext. write_rest fd src s = Some (s', to_int n) \<and> n \<le> length src
    \<and> wrote s cs (unat (ff_pos (g_fds s ! nat fd))) (take n src) s' c ext \<and> (n < length src \<longrightarrow> full s')
    \<and> g_fds s' = (g_fds s)[nat fd := advanced n (g_fds s ! nat fd)]"
proof -
  let ?f = "g_fds s ! nat fd"
  let ?p = "unat (ff_pos ?f)"
  have C: "unat (cluster_size s) = csize s" "0 < csize s"
    using V by (simp_all add: unat_cluster_size csize_def vol_ok_def)
  have hd: "0 < length cs" "c = cs ! 0"
    using fat.fat_chain_hd [OF file_chainD(1) [OF ch]] by (auto simp: hd_conv_nth)
  have "(0 + ?p div csize s) * csize s \<le> ?p" by simp
  from write_skip_spec [OF V ch hd(1) this] obtain s2 r e1 where
    sk: "write_skip (?p div csize s) c s = (s2, r)" "g_fds s2 = g_fds s" "wrote s cs ?p [] s2 c e1"
      "case r of None \<Rightarrow> full s2 | Some y \<Rightarrow> ?p div csize s < length (cs @ e1) \<and> y = (cs @ e1) ! (?p div csize s)"
    unfolding hd(2) [symmetric] add_0 by blast
  have V2: "vol_ok s2" and c2: "file_chain s2 c (cs @ e1)" and z: "csize s2 = csize s"
    using moved_vol [OF wroteD(1) [OF sk(3)] V] wroteD(2) [OF sk(3)] csize_moved [OF wroteD(1) [OF sk(3)]] by simp_all
  show ?thesis
  proof (cases r)
    case None
    then have "write_rest fd src s = Some (s2, to_int 0)"
      using sk(1) c by (simp add: write_rest_def Let_def unat_div C to_int_def)
    with None sk src show ?thesis by (intro exI [of _ s2] exI [of _ "0 :: nat"] exI [of _ e1]) (simp add: advanced_def)
  next
    case (Some y)
    then have y: "?p div csize s < length (cs @ e1)" "y = (cs @ e1) ! (?p div csize s)" using sk(4) by simp_all
    have off: "?p mod csize s < csize s2" "0 < length src" using C(2) src z by simp_all
    from write_clus_spec [OF V2 c2 y(1) off] obtain s3 n e2 where
      w: "write_clus src y s2 (?p mod csize s) 0 = Some (s3, 0 + n)" "0 < n" "0 + n \<le> length src" "g_fds s3 = g_fds s2"
        "wrote s2 (cs @ e1) (?p div csize s * csize s2 + ?p mod csize s) (slice 0 n src) s3 c e2" "0 + n < length src \<longrightarrow> full s3"
      unfolding y(2) by blast
    define h where "h = (\<lambda>f :: fat_fd. let p = ff_pos f + word_of_nat n in f\<lparr>ff_pos := p, ff_size := (if ff_size f < p then p else ff_size f)\<rparr>)"
    have go: "write_rest fd src s = Some (upd_fd fd h s3, to_int n)"
      using sk(1) c w(1) Some by (simp add: write_rest_def Let_def unat_div unat_mod C h_def)
    have "wrote s2 (cs @ e1) ?p (take n src) s3 c e2" using w(5) by (simp add: z slice_def)
    then have "wrote s cs ?p (take n src) (upd_fd fd h s3) c (e1 @ e2)"
      by (intro wrote_upd_fd wrote_nil_trans [OF V sk(3)])
    moreover have "h ?f = advanced n ?f" using w(2) by (auto simp: h_def advanced_def Let_def max_def)
    moreover have "full (upd_fd fd h s3) = full s3"
      by (simp add: full_def data_cluster_def upd_fd_def fat_of_def fat_entry_def sec_byte_def)
    ultimately show ?thesis
      using go w(3,4,6) sk(2) by (intro exI [of _ "upd_fd fd h s3"] exI [of _ n] exI [of _ "e1 @ e2"]) (simp add: g_fds_upd_fd)
  qed
qed

text \<open>The chain of an open file: none while the file has no cluster.\<close>

definition open_chain :: "fatfs \<Rightarrow> fat_fd \<Rightarrow> u16 list \<Rightarrow> bool" where
  "open_chain s f cs \<longleftrightarrow> (if ff_first f = 0 then cs = [] else file_chain s (ff_first f) cs)"

lemma fat12_write_rest:
  assumes "fd_is_valid s fd" "src \<noteq> []"
  shows "fat12_write fd src s =
    (if ff_first (g_fds s ! nat fd) = 0
     then let (t, c) = fat_alloc s in
          if c = 0 then Some (t, -1) else write_rest fd src (zero_cluster c (upd_fd fd (\<lambda>f. f\<lparr>ff_first := c\<rparr>) t))
     else write_rest fd src s)"
  using assms unfolding fat12_write_def write_rest_def Let_def by (auto split: prod.splits)

lemma write_outcome:
  fixes src :: "u8 list"
  assumes V: "vol_ok s" and v: "fd_is_valid s fd" and L: "length (g_fds s) = FAT12_MAX_FDS"
    and ch: "open_chain s (g_fds s ! nat fd) cs" and src: "src \<noteq> []"
  defines "f \<equiv> g_fds s ! nat fd"
  shows "(\<exists>s'. fat12_write fd src s = Some (s', -1) \<and> cs = [] \<and> full s \<and> fat_of s' = fat_of s \<and> g_fds s' = g_fds s) \<or>
    (\<exists>s' n c ext. fat12_write fd src s = Some (s', to_int n) \<and> n \<le> length src \<and> (n < length src \<longrightarrow> full s')
       \<and> wrote s cs (unat (ff_pos f)) (take n src) s' c ext
       \<and> g_fds s' = (g_fds s)[nat fd := advanced n (f\<lparr>ff_first := c\<rparr>)])"
proof (cases "ff_first f = 0")
  case False
  then have fc: "file_chain s (ff_first f) cs" using ch by (simp add: open_chain_def f_def)
  have "fat12_write fd src s = write_rest fd src s"
    using fat12_write_rest [OF v src] False by (simp add: f_def)
  with write_rest_spec [OF V fc _ src, of fd] obtain s' n ext where
    "fat12_write fd src s = Some (s', to_int n)" "n \<le> length src" "wrote s cs (unat (ff_pos f)) (take n src) s' (ff_first f) ext"
    "n < length src \<longrightarrow> full s'" "g_fds s' = (g_fds s)[nat fd := advanced n f]"
    unfolding f_def by auto
  moreover have "f\<lparr>ff_first := ff_first f\<rparr> = f" by simp
  ultimately show ?thesis by metis
next
  case True
  then have cs: "cs = []" using ch by (simp add: open_chain_def f_def)
  obtain t c where a: "fat_alloc s = (t, c)" by fastforce
  note al = fat_alloc_moved [OF V a]
  show ?thesis
  proof (cases "c = 0")
    case True
    then have "fat12_write fd src s = Some (t, -1)"
      using fat12_write_rest [OF v src] \<open>ff_first f = 0\<close> a by (simp add: f_def)
    with al(3) al(4) [OF True] cs show ?thesis by blast
  next
    case False
    let ?h = "\<lambda>f :: fat_fd. f\<lparr>ff_first := c\<rparr>"
    let ?s1 = "zero_cluster c (upd_fd fd ?h t)"
    have go: "fat12_write fd src s = write_rest fd src ?s1"
      using fat12_write_rest [OF v src] \<open>ff_first f = 0\<close> a False by (simp add: f_def)
    have w: "wrote s [] p [] ?s1 c [c]" for p by (rule wrote_first [OF V a False])
    have V1: "vol_ok ?s1" and c1: "file_chain ?s1 c [c]"
      using moved_vol [OF wroteD(1) [OF w] V] wroteD(2) [OF w] by simp_all
    have "nat fd < length (g_fds s)" using v by (auto simp: L fd_is_valid_def)
    then have fds: "g_fds ?s1 = (g_fds s)[nat fd := ?h f]" "g_fds ?s1 ! nat fd = ?h f"
      by (simp_all add: g_fds_zero_cluster g_fds_upd_fd al(3) f_def)
    then have "ff_first (g_fds ?s1 ! nat fd) = c" by simp
    from write_rest_spec [OF V1 c1 this src, unfolded fds(2)] obtain s' n ext where r:
      "write_rest fd src ?s1 = Some (s', to_int n)" "n \<le> length src" "wrote ?s1 [c] (unat (ff_pos f)) (take n src) s' c ext"
      "n < length src \<longrightarrow> full s'" "g_fds s' = (g_fds ?s1)[nat fd := advanced n (?h f)]" by auto
    have "wrote s [] (unat (ff_pos f)) (take n src) s' c ([c] @ ext)"
      by (rule wrote_nil_trans [OF V w]) (use r(3) in simp)
    with r(1,2,4,5) go fds(1) show ?thesis unfolding cs by auto
  qed
qed

text \<open>C21. \<^verbatim>\<open>fat12_write\<close> always returns, and writes the file and nothing else. Either the file had no cluster
  and the volume none to give: -1, nothing changed. Or it returns the number \<open>n\<close> of bytes written, short only when
  the volume is full: the file's chain is the old one followed by formerly free clusters, its bytes are the old
  ones, extended by zeros, with the first \<open>n\<close> bytes of the buffer at the current position; every other table
  entry and every sector outside the tables and the chain is as before, and the open file's position and size advance.\<close>
theorem fat12_write_spec:
  assumes "vol_ok s" "fd_is_valid s fd" "length (g_fds s) = FAT12_MAX_FDS" "src \<noteq> []" "length src < 2147483648"
    "open_chain s (g_fds s ! nat fd) cs"
  shows "let f = g_fds s ! nat fd in
    (\<exists>s'. fat12_write fd src s = Some (s', -1) \<and> cs = [] \<and> full s \<and> fat_of s' = fat_of s \<and> g_fds s' = g_fds s) \<or>
    (\<exists>s' n c ext. fat12_write fd src s = Some (s', int n) \<and> n \<le> length src \<and> (n < length src \<longrightarrow> full s')
       \<and> wrote s cs (unat (ff_pos f)) (take n src) s' c ext
       \<and> g_fds s' = (g_fds s)[nat fd := advanced n (f\<lparr>ff_first := c\<rparr>)])"
proof -
  have "to_int n = int n" if "n \<le> length src" for n using that assms(5) by (intro to_int_small) simp
  then show ?thesis using write_outcome [OF assms(1-3,6,4)] unfolding Let_def by metis
qed

text \<open>The open file of \<open>fat_one\<close>: cluster 5, position 10.\<close>

lemma fat_one_open:
  "vol_ok fat_one" "fd_is_valid fat_one 0" "length (g_fds fat_one) = FAT12_MAX_FDS"
  "open_chain fat_one (g_fds fat_one ! nat 0) [5]" "ff_pos (g_fds fat_one ! nat 0) = 10"
proof -
  have f: "g_fds fat_one ! nat 0 = \<lparr>ff_used = True, ff_first = 5, ff_size = 100, ff_pos = 10, ff_parent = 0, ff_idx = 0\<rparr>"
    by (simp add: fat_one_def fat_blank_def)
  show "fd_is_valid fat_one 0" "ff_pos (g_fds fat_one ! nat 0) = 10" using f by (simp_all add: fd_is_valid_def FAT12_MAX_FDS_def)
  have v: "in_fat fat_blank 5" by (rule fat_ok_in_fat [OF fat_blank_ok(1)]) simp
  note sp = fat_set_spec(1,2) [OF fat_blank_ok(2) v, where v = "0xFFF"]
  obtain d b where e: "fat_set 5 0xFFF fat_blank = fat_blank\<lparr>g_buf := b, disk := d\<rparr>" using sp(2) by blast
  have "moved fat_blank fat_one"
    by (rule movedI [OF fat_one_ok(1), where b = b and d = d and f = "g_fds fat_one"]) (simp add: fat_one_def e)
  from moved_vol [OF this fat_blank_vol] show "vol_ok fat_one" .
  show "length (g_fds fat_one) = FAT12_MAX_FDS" by (simp add: fat_one_def fat_blank_def FAT12_MAX_FDS_def)
  have "data_cluster fat_one 5" unfolding moved_fields(3) [OF \<open>moved fat_blank fat_one\<close>]
    by (simp add: data_cluster_def fat_blank_def)
  then show "open_chain fat_one (g_fds fat_one ! nat 0) [5]"
    unfolding open_chain_def f fat_fd.simps using fat_one_ok(3) by (simp add: file_chain_def)
qed

lemma fat12_write_spec_witness:
  "\<exists>s' n c ext. fat12_write 0 [1, 2, 3] fat_one = Some (s', int n)
     \<and> wrote fat_one [5] 10 (take n [1, 2, 3]) s' c ext"
  using fat12_write_spec [OF fat_one_open(1-3), of "[1, 2, 3]" "[5]"] fat_one_open(4,5) unfolding Let_def by auto

end
