(* ===== verification/Fat_Roundtrip.thy ===== *)
theory Fat_Roundtrip
  imports Fat_Write
begin

text \<open>
  A whole session with a file of the root directory: \<^verbatim>\<open>fat12_create\<close>, \<^verbatim>\<open>fat12_write\<close>,
  \<^verbatim>\<open>fat12_close\<close>, \<^verbatim>\<open>fat12_open\<close> and \<^verbatim>\<open>fat12_read\<close> in a row. The entry made by the first is
  found again by the fourth, with the size and the first cluster that the third stored, and the chain
  the second built is what the last one reads.
\<close>

subsection \<open>Names in the root directory\<close>

definition root_path :: "u8 list \<Rightarrow> u8 list \<Rightarrow> bool" where
  "root_path part path \<longleftrightarrow> part \<noteq> [] \<and> 0x2F \<notin> set part \<and> (path = part \<or> path = 0x2F # part)"

lemma resolve_root_path:
  assumes "root_path part path"
  shows "resolve_path path s = (s, Some (0, comp_83 part))"
proof -
  have all: "takeWhile (\<lambda>c. c \<noteq> 0x2F) part = part" "dropWhile (\<lambda>c. c \<noteq> 0x2F) part = []"
    using assms by (auto simp: root_path_def takeWhile_eq_all_conv dropWhile_eq_Nil_conv)
  have "hd part \<noteq> 0x2F" "part \<noteq> []" using assms by (cases part; auto simp: root_path_def)+
  then have "(if path \<noteq> [] \<and> hd path = 0x2F then tl path else path) = part"
    using assms by (auto simp: root_path_def)
  then show ?thesis
    unfolding resolve_path_def using \<open>part \<noteq> []\<close> by (subst resolve_loop.simps) (simp add: all Let_def)
qed

lemma length_to_83: "length (snd (to_83 xs)) = 11"
  by (simp add: to_83_def Let_def)

lemma length_comp_83: "length (comp_83 part) = 11"
  by (simp add: comp_83_def length_to_83)

lemma set_name11_fields:
  assumes "length t = 11"
  shows "de_name11 (set_name11 t e) = t" "length (de_name (set_name11 t e)) = 8" "length (de_ext (set_name11 t e)) = 3"
    "name_first (set_name11 t e) = t ! 0" "de_attr (set_name11 t e) = de_attr e"
proof -
  have "take 3 (drop 8 t) = drop 8 t" using assms by simp
  then show "de_name11 (set_name11 t e) = t" "length (de_name (set_name11 t e)) = 8" "length (de_ext (set_name11 t e)) = 3"
    "name_first (set_name11 t e) = t ! 0" "de_attr (set_name11 t e) = de_attr e"
    using assms by (simp_all add: de_name11_def set_name11_def slice_def name_first_def)
qed

lemma match_83_refl [simp]: "match_83 t t"
  by (simp add: match_83_def list_all_iff)

subsection \<open>A free slot\<close>

lemma dir_slot_spec:
  assumes "disk_ok s" "snd (dir_slot dc [m..<n] s) = Some i"
  shows "reads s (fst (dir_slot dc [m..<n] s)) \<and> m \<le> i \<and> i < n
    \<and> (\<exists>e. entry_at s dc i = Some e \<and> (name_first e = DIR_END \<or> name_first e = DIR_FREE))
    \<and> (\<forall>j. m \<le> j \<and> j < i \<longrightarrow> (\<exists>e. entry_at s dc j = Some e \<and> name_first e \<noteq> DIR_END \<and> name_first e \<noteq> DIR_FREE))"
  using assms
proof (induction "n - m" arbitrary: m s)
  case (Suc d)
  then have m: "m < n" "[m..<n] = m # [Suc m..<n]" by (simp_all add: upt_conv_Cons)
  obtain s1 r where rd: "dir_read_entry (g_root_lba s) dc m s = (s1, r)" by fastforce
  have r: "r = entry_at s dc m" "reads s s1" using dir_read_entry_spec [OF Suc.prems(1), of dc m] rd by simp_all
  have D1: "disk_ok s1" by (rule reads_disk_ok [OF r(2) Suc.prems(1)])
  obtain e where e: "r = Some e" using Suc.prems(2) rd unfolding m(2) by (cases r) simp_all
  then have em: "entry_at s dc m = Some e" using r(1) by simp
  show ?case
  proof (cases "name_first e = DIR_END \<or> name_first e = DIR_FREE")
    case True
    then have "dir_slot dc [m..<n] s = (s1, Some m)" unfolding m(2) by (simp add: rd e)
    then show ?thesis using Suc.prems(2) r(2) em m(1) True by auto
  next
    case False
    then have go: "dir_slot dc [m..<n] s = dir_slot dc [Suc m..<n] s1" unfolding m(2) by (simp add: rd e)
    have "d = n - Suc m" using Suc.hyps(2) by simp
    from Suc.hyps(1) [OF this D1] Suc.prems(2) have
      "reads s1 (fst (dir_slot dc [Suc m..<n] s1)) \<and> Suc m \<le> i \<and> i < n
        \<and> (\<exists>e. entry_at s dc i = Some e \<and> (name_first e = DIR_END \<or> name_first e = DIR_FREE))
        \<and> (\<forall>j. Suc m \<le> j \<and> j < i \<longrightarrow> (\<exists>e. entry_at s dc j = Some e \<and> name_first e \<noteq> DIR_END \<and> name_first e \<noteq> DIR_FREE))"
      unfolding go entry_at_reads [OF r(2)] by blast
    then show ?thesis
      using reads_trans [OF r(2)] False em unfolding go by (metis Suc_leD Suc_leI le_neq_implies_less)
  qed
qed simp

subsection \<open>The root directory and the files\<close>

text \<open>\<open>root_at s i e\<close>: the first \<open>i\<close> slots of the root are in use or deleted, none of the visible ones has the
  name of the visible entry \<open>e\<close> in slot \<open>i\<close>.\<close>

definition root_at :: "fatfs \<Rightarrow> nat \<Rightarrow> dir_entry \<Rightarrow> bool" where
  "root_at s i e \<longleftrightarrow> listed s 0 i e \<and> (\<forall>j < i. \<forall>f. listed s 0 j f \<longrightarrow> \<not> match_83 (de_name11 f) (de_name11 e))"

lemma root_at_cong:
  assumes "root_at s i e" "max_ents s' 0 = max_ents s 0"
    "\<And>j. j \<le> i \<Longrightarrow> entry_at s' 0 j = (if j = i then Some e' else entry_at s 0 j)"
    "de_name11 e' = de_name11 e" "name_first e' = name_first e" "de_attr e' = de_attr e"
  shows "root_at s' i e'"
proof -
  have L: "listed s' 0 j f \<longleftrightarrow> listed s 0 j f" if "j < i" for j f
    using that assms(2,3) by (auto simp: listed_def)
  have "listed s' 0 i e'"
    using assms(1-3,5,6) unfolding listed_def root_at_def by (auto split: if_splits)
  with L assms(1,4) show ?thesis by (simp add: root_at_def)
qed

lemma find_root_at:
  assumes "disk_ok s" "root_at s i e" "de_name11 e = t"
  shows "\<exists>s'. find_in_dir 0 t s = (s', Some (i, e)) \<and> reads s s'"
proof -
  obtain s' r where f: "find_in_dir 0 t s = (s', r)" by fastforce
  have sp: "reads s s'" "case r of None \<Rightarrow> \<forall>j f. listed s 0 j f \<longrightarrow> \<not> match_83 (de_name11 f) t
       | Some (j, g) \<Rightarrow> listed s 0 j g \<and> match_83 (de_name11 g) t \<and> (\<forall>k<j. \<forall>f. listed s 0 k f \<longrightarrow> \<not> match_83 (de_name11 f) t)"
    using dir_find_spec [OF assms(1) _ refl, of 0 0 t] f unfolding find_in_dir_def by simp_all
  have L: "listed s 0 i e" "\<forall>j < i. \<forall>f. listed s 0 j f \<longrightarrow> \<not> match_83 (de_name11 f) t" "match_83 (de_name11 e) t"
    using assms(2,3) by (simp_all add: root_at_def)
  obtain j g where r: "r = Some (j, g)" using sp(2) L(1,3) by (cases r) auto
  have j: "listed s 0 j g" "match_83 (de_name11 g) t" "\<forall>k<j. \<forall>f. listed s 0 k f \<longrightarrow> \<not> match_83 (de_name11 f) t"
    using sp(2) r by simp_all
  have "j = i" using j L by (meson linorder_neqE_nat)
  moreover have "g = e" using j(1) L(1) \<open>j = i\<close> by (simp add: listed_def)
  ultimately show ?thesis using f r sp(1) by simp
qed

text \<open>Writing a file leaves the root directory alone, and writing an entry leaves the files alone.\<close>

lemma root_dir_ok: "dir_ok s 0 []"
  by (simp add: dir_ok_def)

lemma root_sector_apart:
  assumes V: "vol_ok s" and i: "dir_loc s 0 i = Some (l, k)"
  shows "\<not> fat_sector s l" "data_cluster s c \<Longrightarrow> \<not> in_clus s c l"
proof -
  show "\<not> fat_sector s l" by (rule dir_loc_not_fat [OF V root_dir_ok i])
  note r = dir_loc_rootD [OF i]
  have "unat l < unat (g_data_lba s)" using root_sec [OF V r(1)] r(2) by simp
  then show "data_cluster s c \<Longrightarrow> \<not> in_clus s c l" using in_clus_data(1) [OF V] by (meson not_less)
qed

lemma dir_loc_moved: "moved s s' \<Longrightarrow> dir_loc s' 0 i = dir_loc s 0 i" "moved s s' \<Longrightarrow> max_ents s' 0 = max_ents s 0"
  by (simp_all add: dir_loc_def moved_fields max_ents_def)

lemma wrote_root:
  assumes V: "vol_ok s" and w: "wrote s cs p xs s' c ext"
  shows "entry_at s' 0 i = entry_at s 0 i"
proof (cases "dir_loc s 0 i")
  case None
  then show ?thesis by (simp add: entry_at_def dir_loc_moved [OF wroteD(1) [OF w]])
next
  case (Some lk)
  obtain l k where lk: "lk = (l, k)" by (cases lk)
  note ap = root_sector_apart [OF V Some [unfolded lk]]
  have "data_cluster s d" if "d \<in> set (cs @ ext)" for d
    using file_chainD(3) [OF wroteD(2) [OF w] that] by (simp add: moved_fields [OF wroteD(1) [OF w]])
  then have "disk s' l = disk s l" using ap by (intro wroteD(6) [OF w]) blast+
  then show ?thesis by (simp add: entry_at_def dir_loc_moved [OF wroteD(1) [OF w]] Some lk)
qed

lemma entry_write_file:
  assumes V: "vol_ok s" and i: "dir_loc s 0 i = Some (l, k)" and e: "length (de_name e) = 8" "length (de_ext e) = 3"
    and w: "fst (dir_write_entry (g_root_lba s) 0 i e s) = s'" and ch: "file_chain s c cs"
  shows "file_chain s' c cs" "chain_bytes s' cs = chain_bytes s cs" "moved s s'"
proof -
  note fr = dir_write_frame [OF V root_dir_ok i e]
  let ?s = "s\<lparr>g_buf := splice (k * 32) (dirent_bytes e) (disk s l),
              disk := (disk s)(l := splice (k * 32) (dirent_bytes e) (disk s l))\<rparr>"
  have s': "s' = ?s" using w fr(5) by simp
  show m: "moved s s'" unfolding s'
    by (rule movedI [OF vol_ok_fat(2) [OF fr(1)], where f = "g_fds s"]) simp
  note ap = root_sector_apart [OF V i]
  have "cluster_bytes s' d = cluster_bytes s d" if "d \<in> set cs" for d
    by (rule cluster_bytes_cong [OF m]) (use ap(2) [OF file_chainD(3) [OF ch that]] in \<open>auto simp: s'\<close>)
  then show "chain_bytes s' cs = chain_bytes s cs" by (simp add: chain_bytes_def cong: map_cong)
  have "\<forall>d \<in> set cs. fat_of s d = fat_of s' d" using fr(2) file_chain_in_fat [OF V ch] s' by simp
  from fat.fat_chain_cong [OF this] ch show "file_chain s' c cs"
    by (simp add: file_chain_def moved_fields [OF m])
qed

lemma entry_at_moved: "moved s s' \<Longrightarrow> disk s' = disk s \<Longrightarrow> entry_at s' 0 i = entry_at s 0 i"
  by (simp add: entry_at_def dir_loc_moved)

lemma root_at_same:
  assumes "root_at s i e" "moved s s'" "\<And>j. entry_at s' 0 j = entry_at s 0 j"
  shows "root_at s' i e"
proof (rule root_at_cong [OF assms(1)])
  have "entry_at s 0 i = Some e" using assms(1) by (simp add: root_at_def listed_def)
  then show "entry_at s' 0 j = (if j = i then Some e else entry_at s 0 j)" for j using assms(3) by simp
qed (simp_all add: dir_loc_moved [OF assms(2)])

subsection \<open>Creating\<close>

lemma moved_fds: "disk_ok s \<Longrightarrow> moved s (s\<lparr>g_fds := h\<rparr>)"
  by (rule movedI [where b = "g_buf s" and d = "disk s" and f = h]) (simp_all add: disk_ok_def)

lemma fat_fd_alloc_some:
  assumes "fat_fd_alloc c z par idx s = (s', fd)" "length (g_fds s) = FAT12_MAX_FDS"
    "0 \<le> fd \<or> (\<exists>k < FAT12_MAX_FDS. \<not> ff_used (g_fds s ! k))"
  shows "0 \<le> fd" "nat fd < FAT12_MAX_FDS"
    "s' = s\<lparr>g_fds := (g_fds s)[nat fd := \<lparr>ff_used = True, ff_first = c, ff_size = z, ff_pos = 0, ff_parent = par, ff_idx = idx\<rparr>]\<rparr>"
    "g_fds s' ! nat fd = \<lparr>ff_used = True, ff_first = c, ff_size = z, ff_pos = 0, ff_parent = par, ff_idx = idx\<rparr>"
    "fd_is_valid s' fd"
proof -
  obtain k where k: "List.find (\<lambda>fd. \<not> ff_used (g_fds s ! fd)) [0..<FAT12_MAX_FDS] = Some k"
    using assms(1,3) by (cases "List.find (\<lambda>fd. \<not> ff_used (g_fds s ! fd)) [0..<FAT12_MAX_FDS]")
      (auto simp: fat_fd_alloc_def find_None_iff)
  then have lt: "k < FAT12_MAX_FDS" by (auto simp: find_Some_iff)
  have fd: "fd = int k"
    "s' = s\<lparr>g_fds := (g_fds s)[k := \<lparr>ff_used = True, ff_first = c, ff_size = z, ff_pos = 0, ff_parent = par, ff_idx = idx\<rparr>]\<rparr>"
    using assms(1) k by (simp_all add: fat_fd_alloc_def)
  then show "0 \<le> fd" "nat fd < FAT12_MAX_FDS"
    "s' = s\<lparr>g_fds := (g_fds s)[nat fd := \<lparr>ff_used = True, ff_first = c, ff_size = z, ff_pos = 0, ff_parent = par, ff_idx = idx\<rparr>]\<rparr>"
    using lt by simp_all
  show e: "g_fds s' ! nat fd = \<lparr>ff_used = True, ff_first = c, ff_size = z, ff_pos = 0, ff_parent = par, ff_idx = idx\<rparr>"
    using fd lt assms(2) by simp
  then show "fd_is_valid s' fd" using fd(1) lt by (simp add: fd_is_valid_def)
qed

text \<open>The state after a successful \<^verbatim>\<open>fat12_create\<close>: slot \<open>idx\<close> of the root names the empty open file \<open>fd\<close>.\<close>

definition created :: "fatfs \<Rightarrow> int \<Rightarrow> u8 list \<Rightarrow> nat \<Rightarrow> dir_entry \<Rightarrow> bool" where
  "created s fd t idx e \<longleftrightarrow> vol_ok s \<and> length (g_fds s) = FAT12_MAX_FDS \<and> fd_is_valid s fd
     \<and> root_at s idx e \<and> de_name11 e = t \<and> length (de_name e) = 8 \<and> length (de_ext e) = 3 \<and> de_attr e = ATTR_ARCH
     \<and> g_fds s ! nat fd = \<lparr>ff_used = True, ff_first = 0, ff_size = 0, ff_pos = 0, ff_parent = 0, ff_idx = idx\<rparr>"

lemma create_created:
  assumes V: "vol_ok s0" and L: "length (g_fds s0) = FAT12_MAX_FDS" and P: "root_path part path"
    and c: "fat12_create path s0 = Some (s, fd)" "0 \<le> fd" and n: "comp_83 part ! 0 \<noteq> DIR_FREE"
  shows "\<exists>idx e. created s fd (comp_83 part) idx e" "moved s0 s" "in_fat s0 c' \<Longrightarrow> fat_of s c' = fat_of s0 c'"
proof -
  let ?t = "comp_83 part" and ?n = "max_ents s0 0"
  define e where "e = set_name11 ?t (dirent0\<lparr>de_attr := ATTR_ARCH, first_cluster := 0, file_size := 0\<rparr>)"
  have D: "disk_ok s0" using V by (rule vol_ok_fat)
  obtain s1 r where f: "find_in_dir 0 ?t s0 = (s1, r)" by fastforce
  have f1: "reads s0 s1" "r = None \<Longrightarrow> \<forall>j f. listed s0 0 j f \<longrightarrow> \<not> match_83 (de_name11 f) ?t"
    using dir_find_spec [OF D _ refl, of 0 0 ?t] f unfolding find_in_dir_def by auto
  have D1: "disk_ok s1" by (rule reads_disk_ok [OF f1(1) D])
  have m1: "max_ents s1 0 = ?n" by (simp add: entry_at_reads [OF f1(1)])
  obtain s2 sl where d: "dir_slot 0 [0..<?n] s1 = (s2, sl)" by fastforce
  have a: "alloc_dir_entry 0 s1 = Some (s2, sl)"
    using d by (cases sl) (simp_all add: alloc_dir_entry_def m1)
  obtain i where t0: "?t ! 0 \<noteq> 0" "r = None" and sl: "sl = Some i"
    using c unfolding fat12_create_def resolve_root_path [OF P]
    by (cases r; cases sl) (auto simp: f a split: if_splits)
  have ds: "reads s1 s2" "i < ?n" "\<exists>e. entry_at s0 0 i = Some e"
    "\<forall>j<i. \<exists>e. entry_at s0 0 j = Some e \<and> name_first e \<noteq> DIR_END \<and> name_first e \<noteq> DIR_FREE"
    using dir_slot_spec [OF D1, of 0 0 ?n i] d sl unfolding entry_at_reads [OF f1(1)] by auto
  have r2: "reads s0 s2" by (rule reads_trans [OF f1(1) ds(1)])
  have V2: "vol_ok s2" by (rule moved_vol [OF reads_moved [OF D r2] V])
  have D2: "disk_ok s2" using V2 by (rule vol_ok_fat)
  have e: "length (de_name e) = 8" "length (de_ext e) = 3" "de_name11 e = ?t" "name_first e = ?t ! 0" "de_attr e = ATTR_ARCH"
    using set_name11_fields [OF length_comp_83, of part] by (simp_all add: e_def)
  from ds(3) obtain old where "entry_at s2 0 i = Some old" by (auto simp: entry_at_reads [OF r2])
  then have "snd (dir_read_entry (g_root_lba s2) 0 i s2) = Some old" by (simp add: dir_read_entry_spec(1) [OF D2])
  note w = dir_write_read [OF V2 root_dir_ok e(1,2) this, unfolded Let_def]
  define s3 where "s3 = fst (dir_write_entry (g_root_lba s2) 0 i e s2)"
  note w = w [folded s3_def]
  have V3: "vol_ok s3" by (rule conjunct1 [OF conjunct2 [OF w]])
  have w1: "dir_write_entry (g_root_lba s2) 0 i e s2 = (s3, True)" using conjunct1 [OF w] by (simp add: s3_def prod_eq_iff)
  have E3: "entry_at s3 0 j = (if j = i then Some e else entry_at s0 0 j)" for j
    using w [of j] unfolding dir_read_entry_spec(1) [OF vol_ok_fat(2) [OF V3]] dir_read_entry_spec(1) [OF D2]
    by (simp add: entry_at_reads [OF r2])
  have al: "fat_fd_alloc 0 0 0 i s3 = (s, fd)"
    using c(1) t0 unfolding fat12_create_def resolve_root_path [OF P]
    by (simp add: f a sl w1 Let_def flip: e_def)
  have m3: "moved s2 s3"
  proof -
    obtain l k where "dir_loc s2 0 i = Some (l, k)" using \<open>entry_at s2 0 i = Some old\<close> by (auto simp: entry_at_def)
    note dir_write_frame(5) [OF V2 root_dir_ok this e(1,2)]
    then show ?thesis by (intro movedI [OF vol_ok_fat(2) [OF V3], where f = "g_fds s2"]) (simp add: s3_def)
  qed
  have M3: "max_ents s3 0 = ?n"
    using dir_loc_moved(2) [OF m3] dir_loc_moved(2) [OF reads_moved [OF D r2]] by simp
  have old: "listed s3 0 j f \<longleftrightarrow> listed s0 0 j f" if "j < i" for j f
    using that unfolding listed_def M3 by (auto simp: E3)
  have "\<exists>f. entry_at s3 0 j = Some f \<and> name_first f \<noteq> DIR_END" if "j \<le> i" for j
  proof (cases "j = i")
    case True
    then show ?thesis using t0(1) by (simp add: E3 e(4) DIR_END_def)
  next
    case False
    then have "j < i" using that by simp
    then show ?thesis using ds(4) False by (auto simp: E3)
  qed
  then have "listed s3 0 i e"
    using ds(2) n unfolding listed_def M3 e(4,5) by (simp add: E3 dir_consts)
  then have R3: "root_at s3 i e" using old f1(2) [OF t0(2)] by (simp add: root_at_def e(3))
  have L3: "length (g_fds s3) = FAT12_MAX_FDS"
    by (simp add: s3_def g_fds_dir_write_entry reads_fields(15) [OF r2] L)
  note fa = fat_fd_alloc_some [OF al L3 disjI1, OF c(2)]
  have ms: "moved s3 s" unfolding fa(3) by (rule moved_fds [OF vol_ok_fat(2) [OF V3]])
  have "root_at s i e" by (rule root_at_same [OF R3 ms entry_at_moved [OF ms]]) (simp add: fa(3))
  moreover have "length (g_fds s) = FAT12_MAX_FDS" unfolding fa(3) by (simp add: L3)
  ultimately have "created s fd ?t i e"
    using fa(4,5) moved_vol [OF ms V3] e by (simp add: created_def)
  then show "\<exists>idx e. created s fd ?t idx e" by blast
  show "moved s0 s"
    by (rule moved_trans [OF reads_moved [OF D r2] moved_trans [OF m3 ms]])
  have "fat_of s = fat_of s3" by (simp add: fa(3) fat_of_def fat_entry_def sec_byte_def fun_eq_iff)
  then show "in_fat s0 c' \<Longrightarrow> fat_of s c' = fat_of s0 c'" using w fat_of_reads [OF r2] by simp
qed

subsection \<open>Writing, closing, opening, reading\<close>

lemma write_created:
  fixes src :: "u8 list"
  assumes C: "created s fd t idx e" and src: "src \<noteq> []" "length src < 2147483648"
    and w: "fat12_write fd src s = Some (s1, int (length src))"
  obtains c ext where "wrote s [] 0 src s1 c ext" "length src \<le> length (chain_bytes s1 ext)"
    "g_fds s1 = (g_fds s)[nat fd := \<lparr>ff_used = True, ff_first = c, ff_size = word_of_nat (length src),
       ff_pos = word_of_nat (length src), ff_parent = 0, ff_idx = idx\<rparr>]"
proof -
  let ?f = "\<lparr>ff_used = True, ff_first = 0, ff_size = 0, ff_pos = 0, ff_parent = 0, ff_idx = idx\<rparr>"
  have c: "vol_ok s" "fd_is_valid s fd" "length (g_fds s) = FAT12_MAX_FDS" "g_fds s ! nat fd = ?f"
    using C by (simp_all add: created_def)
  have oc: "open_chain s (g_fds s ! nat fd) []" unfolding c(4) by (simp add: open_chain_def)
  from write_outcome [OF c(1-3) oc src(1)] w obtain n c' ext where
    n: "to_int n = int (length src)" "n \<le> length src" and
    wr: "wrote s [] (unat (ff_pos (g_fds s ! nat fd))) (take n src) s1 c' ext" and
    fds: "g_fds s1 = (g_fds s)[nat fd := advanced n ((g_fds s ! nat fd)\<lparr>ff_first := c'\<rparr>)]"
    by (auto simp del: of_nat_le_iff)
  have "to_int n = int n" using n(2) src(2) by (intro to_int_small) simp
  then have n': "n = length src" using n(1) by simp
  have w0: "wrote s [] 0 src s1 c' ext" using wr unfolding c(4) n' by simp
  have "length (chain_bytes s1 ext) = length ext * csize s"
    using length_chain [OF moved_fields(6) [OF wroteD(1) [OF w0]], of ext] csize_moved [OF wroteD(1) [OF w0]] by simp
  moreover have "length (chain_bytes s1 ext) = length (splice 0 src (replicate (length ext * csize s) (0 :: u8)))"
    using wroteD(3) [OF w0] by (simp add: chain_bytes_def)
  ultimately have len: "length src \<le> length (chain_bytes s1 ext)" by (simp add: splice_def)
  have "advanced n (?f\<lparr>ff_first := c'\<rparr>) = \<lparr>ff_used = True, ff_first = c', ff_size = word_of_nat (length src),
       ff_pos = word_of_nat (length src), ff_parent = 0, ff_idx = idx\<rparr>"
    using src(1) by (simp add: advanced_def n' Let_def)
  with w0 len fds that show ?thesis unfolding c(4) by simp
qed

lemma close_root_file:
  assumes V: "vol_ok s" and R: "root_at s idx e" and e: "length (de_name e) = 8" "length (de_ext e) = 3"
    and f: "g_fds s ! nat fd = \<lparr>ff_used = True, ff_first = c, ff_size = z, ff_pos = p, ff_parent = 0, ff_idx = idx\<rparr>"
    and fd: "0 \<le> fd" "nat fd < FAT12_MAX_FDS" and ch: "file_chain s c cs"
  defines "s' \<equiv> fat12_close fd s"
  shows "vol_ok s'" "root_at s' idx (e\<lparr>file_size := z, first_cluster := c\<rparr>)" "file_chain s' c cs"
    "chain_bytes s' cs = chain_bytes s cs" "g_fds s' = (g_fds s)[nat fd := (g_fds s ! nat fd)\<lparr>ff_used := False\<rparr>]"
proof -
  let ?e = "e\<lparr>file_size := z, first_cluster := c\<rparr>"
  have D: "disk_ok s" using V by (rule vol_ok_fat)
  have v: "fd_is_valid s fd" using f fd by (simp add: fd_is_valid_def)
  have at: "entry_at s 0 idx = Some e" using R by (simp add: root_at_def listed_def)
  obtain s1 r where rd: "dir_read_entry (g_root_lba s) 0 idx s = (s1, r)" by fastforce
  have r: "r = Some e" "reads s s1" using dir_read_entry_spec [OF D, of 0 idx] rd at by simp_all
  note m1 = reads_moved [OF D r(2)]
  have V1: "vol_ok s1" by (rule moved_vol [OF m1 V])
  have at1: "entry_at s1 0 idx = Some e" using at by (simp add: entry_at_reads [OF r(2)])
  then obtain l k where loc: "dir_loc s1 0 idx = Some (l, k)" by (auto simp: entry_at_def)
  define s2 where "s2 = fst (dir_write_entry (g_root_lba s1) 0 idx ?e s1)"
  have e': "length (de_name ?e) = 8" "length (de_ext ?e) = 3" using e by simp_all
  have fl: "fat12_flush fd s = s2" using v rd r(1) by (simp add: fat12_flush_def f s2_def)
  have c1: "file_chain s1 c cs" using wroteD(2) [OF wrote_reads [OF r(2) ch V]] by simp
  note wf = entry_write_file [OF V1 loc e' s2_def [symmetric] c1]
  have V2: "vol_ok s2" by (rule moved_vol [OF wf(3) V1])
  have "snd (dir_read_entry (g_root_lba s1) 0 idx s1) = Some e" using at1 dir_read_entry_spec(1) [OF vol_ok_fat(2) [OF V1]] by simp
  note w = dir_write_read [OF V1 root_dir_ok e' this, unfolded Let_def, folded s2_def]
  have E2: "entry_at s2 0 j = (if j = idx then Some ?e else entry_at s 0 j)" for j
    using w [of j] unfolding dir_read_entry_spec(1) [OF vol_ok_fat(2) [OF V2]] dir_read_entry_spec(1) [OF vol_ok_fat(2) [OF V1]]
    by (simp add: entry_at_reads [OF r(2)])
  have m2: "moved s s2" by (rule moved_trans [OF m1 wf(3)])
  have R2: "root_at s2 idx ?e"
    by (rule root_at_cong [OF R dir_loc_moved(2) [OF m2] E2]) (simp_all add: de_name11_def name_first_def)
  have s': "s' = s2\<lparr>g_fds := (g_fds s2)[nat fd := (g_fds s2 ! nat fd)\<lparr>ff_used := False\<rparr>]\<rparr>"
    using fd fl by (auto simp: s'_def fat12_close_def upd_fd_def FAT12_MAX_FDS_def)
  have m: "moved s2 s'" unfolding s' by (rule moved_fds [OF vol_ok_fat(2) [OF V2]])
  show "vol_ok s'" by (rule moved_vol [OF m V2])
  have dk: "disk s' = disk s2" by (simp add: s')
  show "root_at s' idx ?e" by (rule root_at_same [OF R2 m entry_at_moved [OF m dk]])
  have cb: "cluster_bytes s' x = cluster_bytes s2 x" for x by (rule cluster_bytes_cong [OF m]) (simp add: dk)
  have "cluster_bytes s1 = cluster_bytes s" by (rule cluster_bytes_reads [OF r(2)])
  then show "chain_bytes s' cs = chain_bytes s cs" using wf(2) by (simp add: chain_bytes_def cb cong: map_cong)
  have "fat_of s' = fat_of s2" by (simp add: s' fat_of_def fat_entry_def sec_byte_def fun_eq_iff)
  then show "file_chain s' c cs" using wf(1) by (simp add: file_chain_def moved_fields [OF m])
  have "g_fds s2 = g_fds s" by (simp add: s2_def g_fds_dir_write_entry reads_fields(15) [OF r(2)])
  then show "g_fds s' = (g_fds s)[nat fd := (g_fds s ! nat fd)\<lparr>ff_used := False\<rparr>]" by (simp add: s')
qed

lemma open_read_root_file:
  assumes V: "vol_ok s" and L: "length (g_fds s) = FAT12_MAX_FDS" and P: "root_path part path"
    and t: "comp_83 part ! 0 \<noteq> 0" and R: "root_at s idx e" and n: "de_name11 e = comp_83 part" "de_attr e AND ATTR_DIR = 0"
    and ch: "file_chain s (first_cluster e) cs" and z: "unat (file_size e) \<le> length (chain_bytes s cs)" "unat (file_size e) < 2147483648"
    and free: "k < FAT12_MAX_FDS" "\<not> ff_used (g_fds s ! k)" and want: "file_size e \<le> sz"
  shows "\<exists>s1 fd s2. fat12_open path s = (s1, fd) \<and> 0 \<le> fd
    \<and> fat12_read fd sz s1 = Some (s2, int (unat (file_size e)), take (unat (file_size e)) (chain_bytes s cs))"
proof -
  have D: "disk_ok s" using V by (rule vol_ok_fat)
  from find_root_at [OF D R n(1)] obtain s1 where f: "find_in_dir 0 (comp_83 part) s = (s1, Some (idx, e))" "reads s s1" by blast
  obtain s2 fd where al: "fat_fd_alloc (first_cluster e) (file_size e) 0 idx s1 = (s2, fd)" by fastforce
  have op: "fat12_open path s = (s2, fd)"
    using t n(2) al by (simp add: fat12_open_def resolve_root_path [OF P] f(1))
  have fds: "g_fds s1 = g_fds s" by (rule reads_fields(15) [OF f(2)])
  note fa = fat_fd_alloc_some [OF al, unfolded fds, OF L disjI2, OF exI, OF conjI, OF free]
  note m1 = reads_moved [OF D f(2)]
  have V1: "vol_ok s1" by (rule moved_vol [OF m1 V])
  have m2: "moved s1 s2" unfolding fa(3) by (rule moved_fds [OF vol_ok_fat(2) [OF V1]])
  note m = moved_trans [OF m1 m2]
  have V2: "vol_ok s2" by (rule moved_vol [OF m2 V1])
  have dk: "disk s2 = disk s" using reads_fields(1) [OF f(2)] by (simp add: fa(3))
  have ft: "fat_of s2 = fat_of s"
    using fat_of_reads [OF f(2)] by (simp add: fa(3) fat_of_def fat_entry_def sec_byte_def fun_eq_iff)
  have cb: "chain_bytes s2 cs = chain_bytes s cs"
    using cluster_bytes_cong [OF m] dk by (simp add: chain_bytes_def cong: map_cong)
  have g: "0 < unat (g_sec_per_clus s2)" using V2 by (simp add: vol_ok_def)
  have c2: "fat_chain (fat_of s2) (ff_first (g_fds s2 ! nat fd)) cs"
    using file_chainD(1) [OF ch] unfolding fa(4) ft by simp
  have r: "unat (ff_size (g_fds s2 ! nat fd)) \<le> length (chain_bytes s2 cs)" "ff_pos (g_fds s2 ! nat fd) \<le> ff_size (g_fds s2 ! nat fd)"
    using z(1) unfolding fa(4) cb by simp_all
  have mn: "min (unat sz) (unat (file_size e)) = unat (file_size e)" using want by (simp add: word_le_nat_alt)
  from fat12_read_chain [OF vol_ok_fat(2) [OF V2] g fa(5) c2 r, of sz] obtain s3 where
    "fat12_read fd sz s2 = Some (s3, to_int (unat (file_size e)), take (unat (file_size e)) (chain_bytes s cs))"
    unfolding Let_def fa(4) cb by (auto simp: mn)
  then show ?thesis using op fa(1) to_int_small [OF z(2)] by (intro exI conjI) (assumption | simp)+
qed

text \<open>C5. What was written is read back: after \<^verbatim>\<open>fat12_create\<close> of a file in the root directory, a complete
  \<^verbatim>\<open>fat12_write\<close> of up to 2 GB and \<^verbatim>\<open>fat12_close\<close>, \<^verbatim>\<open>fat12_open\<close> of the same path succeeds and
  \<^verbatim>\<open>fat12_read\<close> of at least that many bytes returns exactly the bytes written. The one restriction on the
  name is that its 8.3 form must not begin with the byte \<open>0xE5\<close>, which marks a deleted entry.\<close>
theorem fat12_file_roundtrip:
  assumes "vol_ok s0" "length (g_fds s0) = FAT12_MAX_FDS" "root_path part path" "comp_83 part ! 0 \<noteq> DIR_FREE"
    "fat12_create path s0 = Some (s, fd)" "0 \<le> fd"
    "src \<noteq> []" "length src < 2147483648" "fat12_write fd src s = Some (s1, int (length src))" "length src \<le> unat sz"
  shows "\<exists>s2 fd' s3. fat12_open path (fat12_close fd s1) = (s2, fd') \<and> 0 \<le> fd'
    \<and> fat12_read fd' sz s2 = Some (s3, int (length src), src)"
proof -
  let ?n = "length src" and ?t = "comp_83 part"
  from create_created(1) [OF assms(1-3,5,6,4)] obtain idx e where C: "created s fd ?t idx e" by blast
  then have c: "vol_ok s" "length (g_fds s) = FAT12_MAX_FDS" "fd_is_valid s fd" "root_at s idx e" "de_name11 e = ?t"
    "length (de_name e) = 8" "length (de_ext e) = 3" "de_attr e = ATTR_ARCH" by (simp_all add: created_def)
  have t0: "?t ! 0 \<noteq> 0" using assms(5,6) by (auto simp: fat12_create_def resolve_root_path [OF assms(3)])
  from write_created [OF C assms(7-9)] obtain cl ext where w: "wrote s [] 0 src s1 cl ext" "?n \<le> length (chain_bytes s1 ext)"
    "g_fds s1 = (g_fds s)[nat fd := \<lparr>ff_used = True, ff_first = cl, ff_size = word_of_nat ?n,
       ff_pos = word_of_nat ?n, ff_parent = 0, ff_idx = idx\<rparr>]" .
  note m1 = wroteD(1) [OF w(1)]
  have V1: "vol_ok s1" by (rule moved_vol [OF m1 c(1)])
  have R1: "root_at s1 idx e" by (rule root_at_same [OF c(4) m1 wrote_root [OF c(1) w(1)]])
  have fd: "0 \<le> fd" "nat fd < FAT12_MAX_FDS" using c(3) by (auto simp: fd_is_valid_def)
  have f1: "g_fds s1 ! nat fd = \<lparr>ff_used = True, ff_first = cl, ff_size = word_of_nat ?n,
       ff_pos = word_of_nat ?n, ff_parent = 0, ff_idx = idx\<rparr>" using w(3) c(2) fd by simp
  have ch: "file_chain s1 cl ext" using wroteD(2) [OF w(1)] by simp
  note cl = close_root_file [OF V1 R1 c(6,7) f1 fd ch]
  let ?s = "fat12_close fd s1" and ?e = "e\<lparr>file_size := word_of_nat ?n, first_cluster := cl\<rparr>"
  have L: "length (g_fds ?s) = FAT12_MAX_FDS" unfolding cl(5) w(3) using c(2) by simp
  have un: "\<not> ff_used (g_fds ?s ! nat fd)" unfolding cl(5) w(3) using c(2) fd by simp
  have u: "unat (word_of_nat ?n :: u32) = ?n" using assms(8) by (intro unat_of_nat_u32) simp
  have b: "take ?n (chain_bytes ?s ext) = src"
    unfolding cl(4) using wroteD(3) [OF w(1)] by (simp add: chain_bytes_def splice_def)
  have "word_of_nat ?n \<le> sz" using assms(10) by (simp add: word_le_nat_alt u)
  moreover have "?n \<le> length (chain_bytes ?s ext)" using w(2) by (simp add: cl(4))
  moreover have "de_name11 ?e = ?t" "de_attr ?e AND ATTR_DIR = 0" using c(5,8) by (simp_all add: de_name11_def dir_consts)
  ultimately show ?thesis
    using open_read_root_file [OF cl(1) L assms(3) t0 cl(2) _ _ _ _ _ fd(2) un, of ext sz] cl(3) b u assms(8) by simp
qed

text \<open>On the empty volume: the file \<^verbatim>\<open>A\<close>, three bytes.\<close>

lemma root_path_A: "root_path [0x41] [0x41]" "comp_83 [0x41] ! 0 = 0x41"
  by (simp_all add: root_path_def comp_83_def to_83_def Let_def pad_def to_upper_def)

lemma blank_slot: "entry_at fat_blank 0 0 = Some (dirent_of (replicate 32 0))"
  by (simp add: entry_at_def dir_loc_def fat_blank_def slice_def)

lemma blank_first: "name_first (dirent_of (replicate 32 0)) = DIR_END"
  by (simp add: name_first_def dirent_of_def DIR_END_def)

lemma blank_create: "\<exists>s fd. fat12_create [0x41] fat_blank = Some (s, fd) \<and> 0 \<le> fd"
proof -
  note B = fat_blank_ok(2)
  let ?t = "comp_83 [0x41]"
  obtain s1 r where f: "find_in_dir 0 ?t fat_blank = (s1, r)" by fastforce
  have nl: "\<not> listed fat_blank 0 j g" for j g
    using blank_slot blank_first by (auto simp: listed_def)
  have f1: "reads fat_blank s1" "r = None"
    using dir_find_spec [OF B _ refl, of 0 0 ?t] f nl unfolding find_in_dir_def by (cases r; auto)+
  note B1 = reads_disk_ok [OF f1(1) B]
  obtain s2 where d: "dir_read_entry (g_root_lba s1) 0 0 s1 = (s2, Some (dirent_of (replicate 32 0)))"
    using dir_read_entry_spec(1) [OF B1, of 0 0] blank_slot
    by (cases "dir_read_entry (g_root_lba s1) 0 0 s1") (simp add: entry_at_reads [OF f1(1)])
  have m: "max_ents s1 0 = Suc 511" using f1(1) by (simp add: entry_at_reads max_ents_def fat_blank_def)
  have "[0..<Suc 511] = 0 # [1..<Suc 511]" by (simp only: One_nat_def upt_conv_Cons zero_less_Suc)
  then have "dir_slot 0 [0..<max_ents s1 0] s1 = (s2, Some 0)" unfolding m by (simp only: dir_slot.simps d) (simp add: blank_first)
  then have a: "alloc_dir_entry 0 s1 = Some (s2, Some 0)" by (simp add: alloc_dir_entry_def)
  have r2: "reads fat_blank s2"
    using reads_trans [OF f1(1)] dir_read_entry_spec(2) [OF B1, of 0 0] d by simp
  define e where "e = set_name11 ?t (dirent0\<lparr>de_attr := ATTR_ARCH, first_cluster := 0, file_size := 0\<rparr>)"
  have "snd (dir_write_entry (g_root_lba s2) 0 0 e s2)"
    using reads_fields(9) [OF r2] by (simp add: dir_write_entry_def fat_blank_def)
  then obtain s3 where w: "dir_write_entry (g_root_lba s2) 0 0 e s2 = (s3, True)"
    by (cases "dir_write_entry (g_root_lba s2) 0 0 e s2") simp
  obtain s fd where al: "fat_fd_alloc 0 0 0 0 s3 = (s, fd)" by fastforce
  have "g_fds s3 = g_fds fat_blank"
    using g_fds_dir_write_entry [of "g_root_lba s2" 0 0 e s2] w reads_fields(15) [OF r2] by simp
  then have "length (g_fds s3) = FAT12_MAX_FDS" "\<exists>k < FAT12_MAX_FDS. \<not> ff_used (g_fds s3 ! k)"
    by (simp_all add: fat_blank_def FAT12_MAX_FDS_def exI [of _ "0 :: nat"])
  then have "0 \<le> fd" using fat_fd_alloc_some(1) [OF al] by blast
  moreover have "fat12_create [0x41] fat_blank = Some (s, fd)"
    unfolding fat12_create_def resolve_root_path [OF root_path_A(1)]
    by (simp add: f f1(2) a root_path_A(2) w al flip: e_def)
  ultimately show ?thesis by blast
qed

lemma blank_fds: "length (g_fds fat_blank) = FAT12_MAX_FDS"
  by (simp add: fat_blank_def FAT12_MAX_FDS_def)

text \<open>There is room for three bytes.\<close>

lemma blank_write:
  assumes "fat12_create [0x41] fat_blank = Some (s, fd)" "0 \<le> fd"
  shows "\<exists>s1. fat12_write fd [1, 2, 3] s = Some (s1, int (length [1 :: u8, 2, 3]))"
proof -
  let ?src = "[1, 2, 3] :: u8 list"
  note n = root_path_A(2)
  have "comp_83 [0x41] ! 0 \<noteq> DIR_FREE" by (simp add: n DIR_FREE_def)
  note cr = create_created [OF fat_blank_vol blank_fds root_path_A(1) assms this]
  from cr(1) obtain idx e where "created s fd (comp_83 [0x41]) idx e" by blast
  then have c: "vol_ok s" "fd_is_valid s fd" "length (g_fds s) = FAT12_MAX_FDS"
    "g_fds s ! nat fd = \<lparr>ff_used = True, ff_first = 0, ff_size = 0, ff_pos = 0, ff_parent = 0, ff_idx = idx\<rparr>"
    by (simp_all add: created_def)
  have oc: "open_chain s (g_fds s ! nat fd) []" unfolding c(4) by (simp add: open_chain_def)
  have two: "data_cluster s 2" "data_cluster s 3" "csize s = 8192"
    unfolding moved_fields(3) [OF cr(2)] csize_moved [OF cr(2)] by (simp_all add: data_cluster_def csize_def fat_blank_def)
  then have inf: "in_fat s 2" "in_fat s 3" using data_cluster_in_fat [OF c(1)] by simp_all
  then have free: "fat_of s 2 = 0" "fat_of s 3 = 0"
    using cr(3) [of 2] cr(3) [of 3] unfolding moved_fields(4) [OF cr(2)] by (simp_all add: fat_blank_entry)
  have nf: "\<not> full s" using two(1) free(1) by (auto simp: full_def)
  from write_outcome [OF c(1-3) oc, of ?src] nf obtain s1 m d ext where
    w: "fat12_write fd ?src s = Some (s1, to_int m)" "m \<le> length ?src" "m < length ?src \<longrightarrow> full s1"
      "wrote s [] (unat (ff_pos (g_fds s ! nat fd))) (take m ?src) s1 d ext" by auto
  have "\<not> full s1"
  proof
    assume F: "full s1"
    have x: "x \<in> set ext" if "data_cluster s x" "in_fat s x" "fat_of s x = 0" for x
      using F wroteD(5) [OF w(4) that(2)] that moved_fields(3) [OF wroteD(1) [OF w(4)]] by (auto simp: full_def)
    have "ext = [] \<or> (length ext - 1) * 8192 \<le> m" using wroteD(7) [OF w(4)] w(2) unfolding c(4) two(3) by auto
    moreover have "m \<le> 3" using w(2) by simp
    ultimately have "length ext \<le> 1" by (elim disjE) (simp, linarith)
    then show False using x [OF two(1) inf(1) free(1)] x [OF two(2) inf(2) free(2)] by (cases ext) auto
  qed
  then have "m = length ?src" using w(2,3) by linarith
  then show ?thesis using w(1) to_int_small [of m] by auto
qed

lemma fat12_file_roundtrip_witness:
  "\<exists>s fd s1 s2 fd' s3. fat12_create [0x41] fat_blank = Some (s, fd) \<and> fat12_write fd [1, 2, 3] s = Some (s1, 3)
     \<and> fat12_open [0x41] (fat12_close fd s1) = (s2, fd') \<and> fat12_read fd' 3 s2 = Some (s3, 3, [1, 2, 3])"
proof -
  from blank_create obtain s fd where c: "fat12_create [0x41] fat_blank = Some (s, fd)" "0 \<le> fd" by blast
  from blank_write [OF c] obtain s1 where w: "fat12_write fd [1, 2, 3] s = Some (s1, int (length [1 :: u8, 2, 3]))" by blast
  have "comp_83 [0x41] ! 0 \<noteq> DIR_FREE" by (simp add: root_path_A(2) DIR_FREE_def)
  from fat12_file_roundtrip [OF fat_blank_vol blank_fds root_path_A(1) this c _ _ w, of 3] c w
  show ?thesis by auto
qed

end
