(* ===== verification/Ring.thy ===== *)
theory Ring
  imports Prelude
begin

text \<open>
  Bounded queues. The two loops of the pipe code, \<^verbatim>\<open>while (n < size && count < cap)\<close> storing
  bytes and \<^verbatim>\<open>while (n < size && count > 0)\<close> taking them, are stated over the interface
  \<open>bounded_queue\<close>, whose laws a ring buffer discharges; what a client of the queue relies on is
  proved once, inside the locale, against the list of live elements.
\<close>

subsection \<open>Loops\<close>

text \<open>Store until the source or the space runs out; the result counts the stored elements.\<close>

fun fill_loop :: "('q \<Rightarrow> nat) \<Rightarrow> nat \<Rightarrow> ('a \<Rightarrow> 'q \<Rightarrow> 'q) \<Rightarrow> 'a list \<Rightarrow> 'q \<Rightarrow> 'q \<times> nat" where
  "fill_loop cnt cap push [] q = (q, 0)"
| "fill_loop cnt cap push (x # xs) q =
     (if cnt q < cap then let (q', n) = fill_loop cnt cap push xs (push x q) in (q', n + 1) else (q, 0))"

text \<open>Take at most \<open>n\<close> elements.\<close>

fun drain_loop :: "('q \<Rightarrow> nat) \<Rightarrow> ('q \<Rightarrow> 'q \<times> 'a) \<Rightarrow> nat \<Rightarrow> 'q \<Rightarrow> 'q \<times> 'a list" where
  "drain_loop cnt pop 0 q = (q, [])"
| "drain_loop cnt pop (Suc n) q =
     (if 0 < cnt q then let (q', x) = pop q; (q'', xs) = drain_loop cnt pop n q' in (q'', x # xs) else (q, []))"

subsection \<open>The contract\<close>

locale bounded_queue =
  fixes inv :: "'q \<Rightarrow> bool"
    and live :: "'q \<Rightarrow> 'a list"
    and cnt :: "'q \<Rightarrow> nat"
    and cap :: nat
    and push :: "'a \<Rightarrow> 'q \<Rightarrow> 'q"
    and pop :: "'q \<Rightarrow> 'q \<times> 'a"
  assumes cnt_live: "inv q \<Longrightarrow> cnt q = length (live q)"
    and live_cap: "inv q \<Longrightarrow> length (live q) \<le> cap"
    and push_inv: "inv q \<Longrightarrow> length (live q) < cap \<Longrightarrow> inv (push x q)"
    and push_live: "inv q \<Longrightarrow> length (live q) < cap \<Longrightarrow> live (push x q) = live q @ [x]"
    and pop_inv: "inv q \<Longrightarrow> live q \<noteq> [] \<Longrightarrow> inv (fst (pop q))"
    and pop_live: "inv q \<Longrightarrow> live q \<noteq> [] \<Longrightarrow> live q = snd (pop q) # live (fst (pop q))"
begin

lemma fill_spec:
  "inv q \<Longrightarrow> \<exists>q' n. fill_loop cnt cap push xs q = (q', n) \<and> inv q' \<and> n = min (length xs) (cap - length (live q))
     \<and> live q' = live q @ take n xs"
proof (induction xs arbitrary: q)
  case (Cons x xs)
  show ?case
  proof (cases "length (live q) < cap")
    case True
    from Cons.IH [OF push_inv [OF Cons.prems True]]
    obtain q' n where "fill_loop cnt cap push xs (push x q) = (q', n)" "inv q'"
      "n = min (length xs) (cap - length (live (push x q)))" "live q' = live (push x q) @ take n xs" by blast
    then show ?thesis using True push_live [OF Cons.prems True] cnt_live [OF Cons.prems] by auto
  qed (use Cons.prems cnt_live in auto)
qed simp

lemma drain_spec:
  "inv q \<Longrightarrow> \<exists>q'. drain_loop cnt pop n q = (q', take n (live q)) \<and> inv q' \<and> live q' = drop n (live q)"
proof (induction n arbitrary: q)
  case (Suc n)
  show ?case
  proof (cases "live q = []")
    case False
    obtain q1 x where p: "pop q = (q1, x)" by fastforce
    with pop_inv [OF Suc.prems False] pop_live [OF Suc.prems False]
    have q1: "inv q1" "live q = x # live q1" by auto
    from Suc.IH [OF q1(1)] p q1(2) cnt_live [OF Suc.prems] show ?thesis by auto
  qed (use Suc.prems cnt_live in auto)
qed simp

text \<open>What was stored comes out first in, first out.\<close>

lemma fill_drain:
  assumes "inv q" "length (live q) + length xs \<le> cap"
  shows "\<exists>q1 q2. fill_loop cnt cap push xs q = (q1, length xs) \<and> inv q1 \<and> live q1 = live q @ xs
     \<and> drain_loop cnt pop (length (live q) + length xs) q1 = (q2, live q @ xs) \<and> inv q2 \<and> live q2 = []"
  using fill_spec [OF assms(1), of xs] drain_spec [of _ "length (live q) + length xs"] assms(2) by fastforce

end

end
