(* ===== verification/Pipe.thy ===== *)
theory Pipe
  imports Ring
begin

text \<open>
  The pipes of \<^verbatim>\<open>kernel/system/ipc/fd.cpp\<close>: a 512-byte ring buffer with a read and a write
  position and a count, the two loops of \<^verbatim>\<open>fd_read\<close> and \<^verbatim>\<open>fd_write\<close> over it, and the proof
  that a pipe is a bounded queue of bytes.
\<close>

definition PIPE_BUF :: nat where "PIPE_BUF = 512"

record pipe =
  p_used :: bool
  p_buf :: "u8 list"
  read_pos :: nat
  write_pos :: nat
  p_count :: nat
  write_closed :: bool

definition pipe_reset :: "pipe \<Rightarrow> pipe" where
  "pipe_reset p = p\<lparr>p_used := True, read_pos := 0, write_pos := 0, p_count := 0, write_closed := False\<rparr>"

definition pipe_push :: "u8 \<Rightarrow> pipe \<Rightarrow> pipe" where
  "pipe_push b p = p\<lparr>p_buf := (p_buf p)[write_pos p := b], write_pos := (write_pos p + 1) mod PIPE_BUF,
                     p_count := p_count p + 1\<rparr>"

definition pipe_pop :: "pipe \<Rightarrow> pipe \<times> u8" where
  "pipe_pop p = (p\<lparr>read_pos := (read_pos p + 1) mod PIPE_BUF, p_count := p_count p - 1\<rparr>, p_buf p ! read_pos p)"

definition pipe_store :: "u8 list \<Rightarrow> pipe \<Rightarrow> pipe \<times> nat" where
  "pipe_store src p = fill_loop p_count PIPE_BUF pipe_push src p"

definition pipe_take :: "nat \<Rightarrow> pipe \<Rightarrow> pipe \<times> u8 list" where
  "pipe_take n p = drain_loop p_count pipe_pop n p"

subsection \<open>The ring as a queue\<close>

definition pipe_ok :: "pipe \<Rightarrow> bool" where
  "pipe_ok p \<longleftrightarrow> length (p_buf p) = PIPE_BUF \<and> read_pos p < PIPE_BUF \<and> p_count p \<le> PIPE_BUF
     \<and> write_pos p = (read_pos p + p_count p) mod PIPE_BUF"

definition pipe_live :: "pipe \<Rightarrow> u8 list" where
  "pipe_live p = map (\<lambda>k. p_buf p ! ((read_pos p + k) mod PIPE_BUF)) [0..<p_count p]"

lemma length_pipe_live [simp]: "length (pipe_live p) = p_count p"
  by (simp add: pipe_live_def)

lemma PIPE_BUF_pos [simp]: "0 < PIPE_BUF" "PIPE_BUF \<noteq> 0"
  by (simp_all add: PIPE_BUF_def)

text \<open>Below the capacity, offsets from one position address different cells.\<close>

lemma ring_neq:
  assumes "k < n" "n < (N :: nat)"
  shows "(r + k) mod N \<noteq> (r + n) mod N"
proof
  assume "(r + k) mod N = (r + n) mod N"
  then have "N dvd (r + n) - (r + k)" using assms by (metis mod_eq_dvd_iff_nat add_le_cancel_left less_imp_le)
  moreover have "(r + n) - (r + k) = n - k" by simp
  ultimately show False using assms nat_dvd_not_less [of "n - k" N] by simp
qed

lemma pipe_push_ok: "pipe_ok p \<Longrightarrow> p_count p < PIPE_BUF \<Longrightarrow> pipe_ok (pipe_push b p)"
  by (simp add: pipe_ok_def pipe_push_def mod_Suc_eq)

lemma pipe_push_live:
  assumes "pipe_ok p" "p_count p < PIPE_BUF"
  shows "pipe_live (pipe_push b p) = pipe_live p @ [b]"
proof (rule nth_equalityI)
  fix i assume "i < length (pipe_live (pipe_push b p))"
  then have "i < Suc (p_count p)" by (simp add: pipe_push_def)
  then consider "i < p_count p" | "i = p_count p" by linarith
  then show "pipe_live (pipe_push b p) ! i = (pipe_live p @ [b]) ! i"
  proof cases
    case 1
    with ring_neq [OF 1 assms(2), of "read_pos p"] assms show ?thesis
      by (simp add: pipe_live_def pipe_push_def pipe_ok_def nth_append)
  next
    case 2
    with assms show ?thesis by (simp add: pipe_live_def pipe_push_def pipe_ok_def nth_append)
  qed
qed (simp add: pipe_push_def)

lemma pipe_pop_ok:
  assumes "pipe_ok p" "pipe_live p \<noteq> []"
  shows "pipe_ok (fst (pipe_pop p))"
proof -
  obtain n where n: "p_count p = Suc n" using assms(2) by (metis length_pipe_live length_0_conv not0_implies_Suc)
  with assms(1) show ?thesis by (simp add: pipe_ok_def pipe_pop_def mod_simps)
qed

lemma pipe_pop_live:
  assumes "pipe_ok p" "pipe_live p \<noteq> []"
  shows "pipe_live p = snd (pipe_pop p) # pipe_live (fst (pipe_pop p))"
proof -
  obtain n where n: "p_count p = Suc n" using assms(2) by (metis length_pipe_live length_0_conv not0_implies_Suc)
  have "[0..<Suc n] = 0 # map Suc [0..<n]" by (simp add: upt_conv_Cons map_Suc_upt del: upt_Suc)
  with assms(1) show ?thesis by (simp add: pipe_live_def pipe_pop_def pipe_ok_def n mod_simps del: upt_Suc)
qed

interpretation pipe: bounded_queue pipe_ok pipe_live p_count PIPE_BUF pipe_push pipe_pop
proof unfold_locales
  show "pipe_ok p \<Longrightarrow> length (pipe_live p) \<le> PIPE_BUF" for p by (simp add: pipe_ok_def)
qed (use pipe_pop_ok pipe_pop_live in \<open>auto simp only: length_pipe_live pipe_push_ok pipe_push_live\<close>)

subsection \<open>Storing and taking\<close>

lemma pipe_reset_ok: "length (p_buf p) = PIPE_BUF \<Longrightarrow> pipe_ok (pipe_reset p) \<and> pipe_live (pipe_reset p) = []"
  by (simp add: pipe_ok_def pipe_reset_def pipe_live_def)

lemma pipe_store_frame:
  "p_used (fst (pipe_store xs p)) = p_used p \<and> write_closed (fst (pipe_store xs p)) = write_closed p"
proof (induction xs arbitrary: p)
  case (Cons x xs)
  from Cons.IH [of "pipe_push x p"] show ?case
    by (cases "pipe_store xs (pipe_push x p)") (simp add: pipe_store_def pipe_push_def)
qed (simp add: pipe_store_def)

lemma pipe_take_frame:
  "p_used (fst (pipe_take n p)) = p_used p \<and> write_closed (fst (pipe_take n p)) = write_closed p"
proof (induction n arbitrary: p)
  case (Suc n)
  from Suc.IH [of "fst (pipe_pop p)"] show ?case
    by (cases "pipe_take n (fst (pipe_pop p))") (simp add: pipe_take_def pipe_pop_def)
qed (simp add: pipe_take_def)

lemmas pipe_store_spec = pipe.fill_spec [folded pipe_store_def]
lemmas pipe_take_spec = pipe.drain_spec [folded pipe_take_def]

end
