(* ===== verification/Chars.thy ===== *)
theory Chars
  imports Prelude
begin

text \<open>
  Characters and strings: literals as bytes, a C string as the bytes before its NUL.
\<close>

text \<open>A character literal as the byte it compiles to.\<close>

definition ch :: "char \<Rightarrow> u8" where
  "ch c = of_char c"

definition bytes :: "string \<Rightarrow> u8 list" where
  "bytes s = map ch s"

text \<open>The C string at the start of a buffer.\<close>

definition cstr :: "u8 list \<Rightarrow> u8 list" where
  "cstr s = takeWhile (\<lambda>c. c \<noteq> 0) s"

text \<open>\<^verbatim>\<open>*s\<close> for a C string given by its bytes: 0 at its end.\<close>

definition chr0 :: "u8 list \<Rightarrow> u8" where
  "chr0 s = (case s of [] \<Rightarrow> 0 | c # _ \<Rightarrow> c)"

lemma chr0_simps [simp]: "chr0 [] = 0" "chr0 (c # s) = c"
  by (simp_all add: chr0_def)

lemma cstr_no_nul [simp]: "0 \<notin> set s \<Longrightarrow> cstr (s @ 0 # t) = s"
  by (induction s) (simp_all add: cstr_def)

text \<open>
  The copy loop of \<^verbatim>\<open>shmem.cpp\<close> and \<^verbatim>\<open>elf.cpp\<close>, of a C string into an array of \<open>cap\<close> bytes:
  \<^verbatim>\<open>while (src[i] && i < cap - 1) { dst[i] = src[i]; i++; } dst[i] = 0;\<close>.
\<close>

definition copy_cstr :: "u8 list \<Rightarrow> u8 list \<Rightarrow> nat \<Rightarrow> u8 list" where
  "copy_cstr dst src cap = (let i = min (length src) (cap - 1) in take i src @ 0 # drop (Suc i) dst)"

lemma cstr_copy_cstr: "0 \<notin> set src \<Longrightarrow> cstr (copy_cstr dst src cap) = take (cap - 1) src"
  by (auto simp: copy_cstr_def Let_def min_def dest: in_set_takeD intro: cstr_no_nul)

lemma length_copy_cstr: "length dst = cap \<Longrightarrow> 0 < cap \<Longrightarrow> length (copy_cstr dst src cap) = cap"
  by (auto simp: copy_cstr_def Let_def)

text \<open>Decimal digits and the value they denote, continuing from \<open>n\<close>.\<close>

definition is_digit :: "u8 \<Rightarrow> bool" where
  "is_digit c \<longleftrightarrow> 0x30 \<le> c \<and> c \<le> 0x39"

definition dec_val :: "int \<Rightarrow> u8 list \<Rightarrow> int" where
  "dec_val n ds = fold (\<lambda>c n. n * 10 + (uint c - 48)) ds n"

lemma dec_val_simps [simp]: "dec_val n [] = n" "dec_val n (c # ds) = dec_val (n * 10 + (uint c - 48)) ds"
  by (simp_all add: dec_val_def)

lemma dec_val_append: "dec_val n (as @ bs) = dec_val (dec_val n as) bs"
  by (simp add: dec_val_def)

lemma is_digit_uint: "is_digit c \<Longrightarrow> 48 \<le> uint c \<and> uint c \<le> 57"
  by (simp add: is_digit_def word_le_def)

lemma dec_val_ge:
  assumes "0 \<le> n" "list_all is_digit ds"
  shows "n \<le> dec_val n ds"
  using assms
proof (induction ds arbitrary: n)
  case (Cons c ds)
  have "48 \<le> uint c" using is_digit_uint [of c] Cons.prems(2) by simp
  then have "n \<le> n * 10 + (uint c - 48)" "0 \<le> n * 10 + (uint c - 48)" using Cons.prems(1) by simp_all
  with Cons.IH [of "n * 10 + (uint c - 48)"] Cons.prems(2) show ?case by simp
qed simp

end
