(* ===== verification/Keyboard.thy ===== *)
theory Keyboard
  imports Chars
begin

text \<open>
  \<^verbatim>\<open>kernel/io/keyboard.hpp\<close>: the scancode tables and \<^verbatim>\<open>read_key\<close>. The ring of scancodes
  that the interrupt handler fills is assembly code; a scancode (0 when the ring is empty) is an
  argument. The shift flag is state.
\<close>

definition sc_map :: "u8 list" where
  "sc_map = [0, 0] @ bytes ''1234567890-='' @ [0x08, 0] @ bytes ''qwertyuiop[]'' @ [0x0D, 0]
     @ bytes ''asdfghjkl;'' @ [0x27, 0x60, 0, 0x5C] @ bytes ''zxcvbnm,./'' @ [0, 0, 0, 0x20]"

definition sc_map_shift :: "u8 list" where
  "sc_map_shift = [0, 0] @ bytes ''!@#$%^&*()_+'' @ [0x08, 0] @ bytes ''QWERTYUIOP{}'' @ [0x0D, 0]
     @ bytes ''ASDFGHJKL:'' @ [0x22, 0x7E, 0, 0x7C] @ bytes ''ZXCVBNM<>?'' @ [0, 0, 0, 0x20]"

text \<open>The new shift flag and the key, 0 for none.\<close>

definition read_key :: "u8 \<Rightarrow> u8 \<Rightarrow> u8 \<times> u8" where
  "read_key sc shift =
     (if sc = 0 then (shift, 0)
      else if sc = 0x2A \<or> sc = 0x36 then (1, 0)
      else if sc = 0xAA \<or> sc = 0xB6 then (0, 0)
      else if sc AND 0x80 \<noteq> 0 then (shift, 0)
      else if 58 \<le> sc then (shift, 0)
      else (shift, if shift \<noteq> 0 then sc_map_shift ! unat sc else sc_map ! unat sc))"

lemma sc_maps_length: "length sc_map = 58" "length sc_map_shift = 58"
  by (simp_all add: sc_map_def sc_map_shift_def bytes_def)

text \<open>\<^verbatim>\<open>read_key\<close> never indexes past the 58 entries of its tables.\<close>

lemma read_key_bounds: "(58 :: u8) \<le> sc \<or> unat sc < length sc_map \<and> unat sc < length sc_map_shift"
  by (simp add: sc_maps_length word_le_nat_alt not_le [symmetric] disj_commute)

lemma read_key_shift: "fst (read_key sc shift) \<in> {0, 1, shift}"
  by (simp add: read_key_def)

end
