(* ===== verification/Serial.thy ===== *)
theory Serial
  imports Keyboard
begin

text \<open>
  \<^verbatim>\<open>kernel/io/serial/serial.cpp\<close>: the serial port as the list of bytes sent to it. The
  status polling loops wait for the device; they are the device's to end and have no other effect.
\<close>

definition serial_init :: "(u16 \<times> u8) list" where
  "serial_init = [(0x3F9, 0x00), (0x3FB, 0x80), (0x3F8, 0x03), (0x3F9, 0x00), (0x3FB, 0x03), (0x3FA, 0xC7), (0x3FC, 0x0B)]"

definition serial_putc :: "u8 \<Rightarrow> u8 list \<Rightarrow> u8 list" where
  "serial_putc c sent = (if c = 10 then sent @ [13, c] else sent @ [c])"

definition serial_puts :: "u8 list \<Rightarrow> u8 list \<Rightarrow> u8 list" where
  "serial_puts s sent = serial_putc 10 (fold serial_putc (cstr s) sent)"

definition hex_digits :: "u8 list" where
  "hex_digits = bytes ''0123456789ABCDEF''"

definition serial_puthex :: "u32 \<Rightarrow> u8 list \<Rightarrow> u8 list" where
  "serial_puthex n sent =
     fold (\<lambda>i. serial_putc (hex_digits ! unat (drop_bit i n AND 0xF))) [28, 24, 20, 16, 12, 8, 4, 0]
       (serial_puts (bytes ''0x'') sent)"

lemma serial_putc_prefix: "\<exists>t. serial_putc c sent = sent @ t \<and> t \<noteq> []"
  by (simp add: serial_putc_def)

lemma serial_fold_prefix: "\<exists>t. fold serial_putc s sent = sent @ t"
proof (induction s arbitrary: sent)
  case (Cons c s)
  then obtain t where "fold serial_putc s (serial_putc c sent) = serial_putc c sent @ t" by blast
  with serial_putc_prefix [of c sent] show ?case by auto
qed simp

text \<open>A line of printable text reaches the wire as it is, followed by carriage return and line feed.\<close>

lemma serial_puts_line:
  assumes "0 \<notin> set s" "10 \<notin> set s"
  shows "serial_puts s sent = sent @ s @ [13, 10]"
proof -
  have "fold serial_putc s sent = sent @ s" using assms(2)
    by (induction s arbitrary: sent) (auto simp: serial_putc_def)
  moreover have "cstr s = s" using assms(1) by (auto simp: cstr_def takeWhile_eq_all_conv)
  ultimately show ?thesis by (simp add: serial_puts_def serial_putc_def)
qed

text \<open>\<^verbatim>\<open>serial_puthex\<close> breaks the line after \<^verbatim>\<open>0x\<close>, because \<^verbatim>\<open>serial_puts\<close> ends its line.\<close>

lemma serial_puthex_splits:
  "serial_puthex 0x12AB [] = bytes ''0x'' @ [13, 10] @ bytes ''000012AB''"
  by (simp add: serial_puthex_def serial_puts_def serial_putc_def cstr_def hex_digits_def bytes_def ch_def)

end
