(* ===== verification/Fd.thy ===== *)
theory Fd
  imports Pipe Serial Fat12
begin

text \<open>
  \<^verbatim>\<open>kernel/system/ipc/fd.cpp\<close>: the kernel's descriptor table over the console, the pipes and
  the FAT12 file system. The console is the list of \<^verbatim>\<open>print\<close> calls and the bytes sent to the
  serial port; standard input is the sequence of polls, one per turn of the waiting loop.
\<close>

definition FD_MAX :: nat where "FD_MAX = 32"
definition PIPE_MAX :: nat where "PIPE_MAX = 8"
definition COL_ERR :: u32 where "COL_ERR = 0xFF4444"
definition COL_FG :: u32 where "COL_FG = 0xFFFFFF"

datatype fd_type = FD_NONE | FD_STDIN | FD_STDOUT | FD_STDERR | FD_FILE | FD_PIPE_READ | FD_PIPE_WRITE

record file_desc =
  d_used :: bool
  d_type :: fd_type
  fat_fd :: int
  pipe_id :: int

text \<open>A poll finds a byte on the serial port or takes a scancode from the keyboard.\<close>

datatype poll = Serial_Byte u8 | Scancode u8

record io =
  fds :: "file_desc list"
  pipes :: "pipe list"
  vol :: fatfs
  kbd_shift_down :: u8
  polls :: "poll list"
  printed :: "(u8 list \<times> u32) list"
  com1 :: "u8 list"

definition fd_none :: file_desc where
  "fd_none = \<lparr>d_used = False, d_type = FD_NONE, fat_fd = -1, pipe_id = -1\<rparr>"

definition fd_init :: "io \<Rightarrow> io" where
  "fd_init s =
     s\<lparr>fds := (replicate FD_MAX fd_none)
         [0 := fd_none\<lparr>d_used := True, d_type := FD_STDIN\<rparr>,
          1 := fd_none\<lparr>d_used := True, d_type := FD_STDOUT\<rparr>,
          2 := fd_none\<lparr>d_used := True, d_type := FD_STDERR\<rparr>],
       pipes := map (\<lambda>p. p\<lparr>p_used := False, read_pos := 0, write_pos := 0, p_count := 0, write_closed := False\<rparr>) (pipes s)\<rparr>"

definition alloc_fd :: "io \<Rightarrow> nat option" where
  "alloc_fd s = List.find (\<lambda>i. \<not> d_used (fds s ! i)) [3..<FD_MAX]"

definition alloc_pipe :: "io \<Rightarrow> nat option" where
  "alloc_pipe s = List.find (\<lambda>i. \<not> p_used (pipes s ! i)) [0..<PIPE_MAX]"

definition set_fd :: "nat \<Rightarrow> file_desc \<Rightarrow> io \<Rightarrow> io" where
  "set_fd i d s = s\<lparr>fds := (fds s)[i := d]\<rparr>"

definition upd_pipe :: "nat \<Rightarrow> (pipe \<Rightarrow> pipe) \<Rightarrow> io \<Rightarrow> io" where
  "upd_pipe i f s = s\<lparr>pipes := (pipes s)[i := f (pipes s ! i)]\<rparr>"

definition fd_pipe :: "io \<Rightarrow> io \<times> (nat \<times> nat) option" where
  "fd_pipe s =
     (case alloc_pipe s of
        None \<Rightarrow> (s, None)
      | Some pid \<Rightarrow>
          case alloc_fd s of
            None \<Rightarrow> (s, None)
          | Some rfd \<Rightarrow>
              let s1 = set_fd rfd ((fds s ! rfd)\<lparr>d_used := True\<rparr>) s in
              case alloc_fd s1 of
                None \<Rightarrow> (set_fd rfd ((fds s1 ! rfd)\<lparr>d_used := False\<rparr>) s1, None)
              | Some wfd \<Rightarrow>
                  let s2 = upd_pipe pid pipe_reset s1;
                      s3 = set_fd rfd \<lparr>d_used = True, d_type = FD_PIPE_READ, fat_fd = -1, pipe_id = int pid\<rparr> s2;
                      s4 = set_fd wfd \<lparr>d_used = True, d_type = FD_PIPE_WRITE, fat_fd = -1, pipe_id = int pid\<rparr> s3
                  in (s4, Some (rfd, wfd)))"

text \<open>The common tail of \<^verbatim>\<open>fd_open\<close> and \<^verbatim>\<open>fd_create\<close>: a descriptor for an open file.\<close>

definition fd_bind :: "int \<Rightarrow> io \<Rightarrow> io \<times> int" where
  "fd_bind fat s =
     (if fat < 0 then (s, -1)
      else case alloc_fd s of
             None \<Rightarrow> (s\<lparr>vol := fat12_close fat (vol s)\<rparr>, -1)
           | Some fd \<Rightarrow> (set_fd fd \<lparr>d_used = True, d_type = FD_FILE, fat_fd = fat, pipe_id = -1\<rparr> s, int fd))"

definition fd_open :: "u8 list \<Rightarrow> io \<Rightarrow> io \<times> int" where
  "fd_open path s = (let (v, fat) = fat12_open path (vol s) in fd_bind fat (s\<lparr>vol := v\<rparr>))"

definition fd_create :: "u8 list \<Rightarrow> io \<Rightarrow> (io \<times> int) option" where
  "fd_create path s = map_option (\<lambda>(v, fat). fd_bind fat (s\<lparr>vol := v\<rparr>)) (fat12_create path (vol s))"

definition is_lower :: "u8 \<Rightarrow> bool" where
  "is_lower c \<longleftrightarrow> 0x61 \<le> c \<and> c \<le> 0x7A"

definition fd_create_case :: "u8 list \<Rightarrow> io \<Rightarrow> (io \<times> int) option" where
  "fd_create_case path s =
     Option.bind (fd_create path s) (\<lambda>(s1, fd).
       if 0 \<le> fd then Some (s1, fd)
       else if \<not> list_ex is_lower path then Some (s1, -1)
       else fd_create (map (\<lambda>c. if is_lower c then c - 32 else c) (take 255 path)) s1)"

text \<open>A bad descriptor: the guard at the head of every operation.\<close>

definition fd_bad :: "int \<Rightarrow> io \<Rightarrow> bool" where
  "fd_bad fd s \<longleftrightarrow> fd < 0 \<or> int FD_MAX \<le> fd \<or> \<not> d_used (fds s ! nat fd)"

text \<open>
  The loop of standard input, up to \<open>n\<close> more bytes; \<open>None\<close> when the polls run out and the
  loop still waits.
\<close>

fun stdin_loop :: "nat \<Rightarrow> poll list \<Rightarrow> u8 \<Rightarrow> u8 list \<Rightarrow> (poll list \<times> u8 \<times> u8 list) option" where
  "stdin_loop 0 ps shift out = Some (ps, shift, out)"
| "stdin_loop (Suc n) [] shift out = None"
| "stdin_loop (Suc n) (p # ps) shift out =
     (let (shift', k) = (case p of Serial_Byte b \<Rightarrow> (shift, b) | Scancode sc \<Rightarrow> read_key sc shift) in
      if k = 0 then stdin_loop (Suc n) ps shift' out
      else if k = 0x0D \<or> k = 0x0A then Some (ps, shift', out @ [k])
      else stdin_loop n ps shift' (out @ [k]))"

definition fd_read :: "int \<Rightarrow> u32 \<Rightarrow> io \<Rightarrow> (io \<times> int \<times> u8 list) option" where
  "fd_read fd sz s =
     (if fd_bad fd s then Some (s, -1, [])
      else
        let d = fds s ! nat fd in
        case d_type d of
          FD_STDIN \<Rightarrow>
            map_option (\<lambda>(ps, shift, out). (s\<lparr>polls := ps, kbd_shift_down := shift\<rparr>, to_int (length out), out))
              (stdin_loop (unat sz) (polls s) (kbd_shift_down s) [])
        | FD_PIPE_READ \<Rightarrow>
            let p = pipes s ! nat (pipe_id d) in
            if p_count p = 0 \<and> write_closed p then Some (s, 0, [])
            else let (p', out) = pipe_take (unat sz) p
                 in Some (upd_pipe (nat (pipe_id d)) (\<lambda>_. p') s, to_int (length out), out)
        | FD_FILE \<Rightarrow>
            map_option (\<lambda>(v, r, out). (s\<lparr>vol := v\<rparr>, r, out)) (fat12_read (fat_fd d) sz (vol s))
        | _ \<Rightarrow> Some (s, -1, []))"

definition fd_write :: "int \<Rightarrow> u8 list \<Rightarrow> io \<Rightarrow> (io \<times> int) option" where
  "fd_write fd src s =
     (if fd_bad fd s then Some (s, -1)
      else
        let d = fds s ! nat fd; console = (\<lambda>col.
              let kbuf = take 256 src @ [0]
              in Some (s\<lparr>printed := printed s @ [(cstr kbuf, col)], com1 := serial_puts kbuf (com1 s)\<rparr>, to_int (length src)))
        in
        case d_type d of
          FD_STDOUT \<Rightarrow> console COL_FG
        | FD_STDERR \<Rightarrow> console COL_ERR
        | FD_PIPE_WRITE \<Rightarrow>
            let p = pipes s ! nat (pipe_id d) in
            if write_closed p then Some (s, -1)
            else let (p', n) = pipe_store src p in Some (upd_pipe (nat (pipe_id d)) (\<lambda>_. p') s, int n)
        | FD_FILE \<Rightarrow> map_option (\<lambda>(v, r). (s\<lparr>vol := v\<rparr>, r)) (fat12_write (fat_fd d) src (vol s))
        | _ \<Rightarrow> Some (s, -1))"

definition fd_flush :: "int \<Rightarrow> io \<Rightarrow> io" where
  "fd_flush fd s =
     (if fd_bad fd s then s
      else if d_type (fds s ! nat fd) = FD_FILE then s\<lparr>vol := fat12_flush (fat_fd (fds s ! nat fd)) (vol s)\<rparr>
      else s)"

text \<open>Is some descriptor of type \<open>t\<close> an end of pipe \<open>pid\<close>?\<close>

definition any_end :: "fd_type \<Rightarrow> int \<Rightarrow> io \<Rightarrow> bool" where
  "any_end t pid s \<longleftrightarrow> list_ex (\<lambda>d. d_used d \<and> d_type d = t \<and> pipe_id d = pid) (fds s)"

definition fd_close :: "int \<Rightarrow> io \<Rightarrow> io" where
  "fd_close fd s =
     (if fd_bad fd s then s
      else
        let d = fds s ! nat fd;
            s1 = (if d_type d = FD_FILE then s\<lparr>vol := fat12_close (fat_fd d) (vol s)\<rparr> else s);
            s2 = (if d_type d = FD_PIPE_WRITE \<and> 0 \<le> pipe_id d
                  then let t = upd_pipe (nat (pipe_id d)) (\<lambda>p. p\<lparr>write_closed := True\<rparr>) s1
                       in if \<not> any_end FD_PIPE_READ (pipe_id d) t
                          then upd_pipe (nat (pipe_id d)) (\<lambda>p. p\<lparr>p_used := False\<rparr>) t else t
                  else s1);
            s3 = (if d_type d = FD_PIPE_READ \<and> 0 \<le> pipe_id d \<and> \<not> any_end FD_PIPE_WRITE (pipe_id d) s2
                  then upd_pipe (nat (pipe_id d)) (\<lambda>p. p\<lparr>p_used := False\<rparr>) s2 else s2)
        in set_fd (nat fd) fd_none s3)"

definition fd_size :: "int \<Rightarrow> io \<Rightarrow> int" where
  "fd_size fd s =
     (if fd_bad fd s then -1
      else if d_type (fds s ! nat fd) = FD_FILE then fat12_size (fat_fd (fds s ! nat fd)) (vol s) else -1)"

end
