(* ===== verification/Fd_Spec.thy ===== *)
theory Fd_Spec
  imports Fd Fat_Frame
begin

text \<open>
  The descriptor table of \<^verbatim>\<open>fd.cpp\<close>: its invariant, kept by every operation, and the pipe as
  a queue of bytes. \<open>holder s t p i\<close> says that descriptor \<open>i\<close> is the end of type \<open>t\<close> of pipe \<open>p\<close>,
  \<open>file_at s f i\<close> that it stands for the open FAT file \<open>f\<close>.
\<close>

definition holder :: "io \<Rightarrow> fd_type \<Rightarrow> int \<Rightarrow> nat \<Rightarrow> bool" where
  "holder s t p i \<longleftrightarrow> i < FD_MAX \<and> d_used (fds s ! i) \<and> d_type (fds s ! i) = t \<and> pipe_id (fds s ! i) = p"

definition file_at :: "io \<Rightarrow> int \<Rightarrow> nat \<Rightarrow> bool" where
  "file_at s f i \<longleftrightarrow> i < FD_MAX \<and> d_used (fds s ! i) \<and> d_type (fds s ! i) = FD_FILE \<and> fat_fd (fds s ! i) = f"

text \<open>
  Every end belongs to a pipe in use, a pipe has at most one end of each type, a pipe in use has an
  end, and it is closed for writing exactly when its write end is gone.
\<close>

definition ends_ok :: "io \<Rightarrow> bool" where
  "ends_ok s \<longleftrightarrow>
     (\<forall>t p i. t \<in> {FD_PIPE_READ, FD_PIPE_WRITE} \<longrightarrow> holder s t p i \<longrightarrow>
        0 \<le> p \<and> p < int PIPE_MAX \<and> p_used (pipes s ! nat p))
   \<and> (\<forall>t p i j. t \<in> {FD_PIPE_READ, FD_PIPE_WRITE} \<longrightarrow> holder s t p i \<longrightarrow> holder s t p j \<longrightarrow> i = j)
   \<and> (\<forall>p < PIPE_MAX. p_used (pipes s ! p) \<longrightarrow> (\<exists>i. holder s FD_PIPE_READ (int p) i \<or> holder s FD_PIPE_WRITE (int p) i))
   \<and> (\<forall>p < PIPE_MAX. p_used (pipes s ! p) \<longrightarrow> (write_closed (pipes s ! p) \<longleftrightarrow> \<not> (\<exists>i. holder s FD_PIPE_WRITE (int p) i)))"

text \<open>Every open FAT file belongs to exactly one descriptor.\<close>

definition files_ok :: "io \<Rightarrow> bool" where
  "files_ok s \<longleftrightarrow>
     (\<forall>f i. file_at s f i \<longrightarrow> 0 \<le> f \<and> f < int FAT12_MAX_FDS \<and> used_fds (vol s) ! nat f)
   \<and> (\<forall>f i j. file_at s f i \<longrightarrow> file_at s f j \<longrightarrow> i = j)
   \<and> (\<forall>f < FAT12_MAX_FDS. used_fds (vol s) ! f \<longrightarrow> (\<exists>i. file_at s (int f) i))"

definition sizes_ok :: "io \<Rightarrow> bool" where
  "sizes_ok s \<longleftrightarrow> length (fds s) = FD_MAX \<and> length (pipes s) = PIPE_MAX \<and> length (used_fds (vol s)) = FAT12_MAX_FDS
     \<and> list_all pipe_ok (pipes s)"

definition fd_ok :: "io \<Rightarrow> bool" where
  "fd_ok s \<longleftrightarrow> sizes_ok s \<and> ends_ok s \<and> files_ok s"

lemma fd_okD: "fd_ok s \<Longrightarrow> sizes_ok s" "fd_ok s \<Longrightarrow> ends_ok s" "fd_ok s \<Longrightarrow> files_ok s"
  by (simp_all add: fd_ok_def)

lemma ends_okD:
  assumes "ends_ok s"
  shows "t \<in> {FD_PIPE_READ, FD_PIPE_WRITE} \<Longrightarrow> holder s t q i \<Longrightarrow> 0 \<le> q \<and> q < int PIPE_MAX \<and> p_used (pipes s ! nat q)"
    and "t \<in> {FD_PIPE_READ, FD_PIPE_WRITE} \<Longrightarrow> holder s t q i \<Longrightarrow> holder s t q j \<Longrightarrow> i = j"
    and "p < PIPE_MAX \<Longrightarrow> p_used (pipes s ! p) \<Longrightarrow> \<exists>i. holder s FD_PIPE_READ (int p) i \<or> holder s FD_PIPE_WRITE (int p) i"
    and "p < PIPE_MAX \<Longrightarrow> p_used (pipes s ! p) \<Longrightarrow> write_closed (pipes s ! p) \<longleftrightarrow> \<not> (\<exists>i. holder s FD_PIPE_WRITE (int p) i)"
proof -
  note a = assms [unfolded ends_ok_def]
  show "t \<in> {FD_PIPE_READ, FD_PIPE_WRITE} \<Longrightarrow> holder s t q i \<Longrightarrow> 0 \<le> q \<and> q < int PIPE_MAX \<and> p_used (pipes s ! nat q)"
    by (rule a [THEN conjunct1, rule_format])
  show "t \<in> {FD_PIPE_READ, FD_PIPE_WRITE} \<Longrightarrow> holder s t q i \<Longrightarrow> holder s t q j \<Longrightarrow> i = j"
    by (rule a [THEN conjunct2, THEN conjunct1, rule_format])
  show "p < PIPE_MAX \<Longrightarrow> p_used (pipes s ! p) \<Longrightarrow> \<exists>i. holder s FD_PIPE_READ (int p) i \<or> holder s FD_PIPE_WRITE (int p) i"
    by (rule a [THEN conjunct2, THEN conjunct2, THEN conjunct1, rule_format])
  show "p < PIPE_MAX \<Longrightarrow> p_used (pipes s ! p) \<Longrightarrow> write_closed (pipes s ! p) \<longleftrightarrow> \<not> (\<exists>i. holder s FD_PIPE_WRITE (int p) i)"
    by (rule a [THEN conjunct2, THEN conjunct2, THEN conjunct2, rule_format])
qed

lemma files_okD:
  assumes "files_ok s"
  shows "file_at s f i \<Longrightarrow> 0 \<le> f \<and> f < int FAT12_MAX_FDS \<and> used_fds (vol s) ! nat f"
    and "file_at s f i \<Longrightarrow> file_at s f j \<Longrightarrow> i = j"
    and "k < FAT12_MAX_FDS \<Longrightarrow> used_fds (vol s) ! k \<Longrightarrow> \<exists>i. file_at s (int k) i"
proof -
  note a = assms [unfolded files_ok_def]
  show "file_at s f i \<Longrightarrow> 0 \<le> f \<and> f < int FAT12_MAX_FDS \<and> used_fds (vol s) ! nat f"
    by (rule a [THEN conjunct1, rule_format])
  show "file_at s f i \<Longrightarrow> file_at s f j \<Longrightarrow> i = j"
    by (rule a [THEN conjunct2, THEN conjunct1, rule_format])
  show "k < FAT12_MAX_FDS \<Longrightarrow> used_fds (vol s) ! k \<Longrightarrow> \<exists>i. file_at s (int k) i"
    by (rule a [THEN conjunct2, THEN conjunct2, rule_format])
qed

subsection \<open>Views of an updated table\<close>

lemma io_fields [simp]:
  "fds (set_fd i d s) = (fds s)[i := d]" "pipes (set_fd i d s) = pipes s" "vol (set_fd i d s) = vol s"
  "fds (upd_pipe p f s) = fds s" "vol (upd_pipe p f s) = vol s"
  "pipes (upd_pipe p f s) = (pipes s)[p := f (pipes s ! p)]"
  by (simp_all add: set_fd_def upd_pipe_def)

lemma holder_set_fd:
  "length (fds s) = FD_MAX \<Longrightarrow> holder (set_fd k d s) t p i \<longleftrightarrow>
     (if i = k then k < FD_MAX \<and> d_used d \<and> d_type d = t \<and> pipe_id d = p else holder s t p i)"
  by (auto simp: holder_def)

lemma file_at_set_fd:
  "length (fds s) = FD_MAX \<Longrightarrow> file_at (set_fd k d s) f i \<longleftrightarrow>
     (if i = k then k < FD_MAX \<and> d_used d \<and> d_type d = FD_FILE \<and> fat_fd d = f else file_at s f i)"
  by (auto simp: file_at_def)

lemma holder_cong: "fds s' = fds s \<Longrightarrow> holder s' = holder s"
  by (simp add: holder_def fun_eq_iff)

lemma file_at_cong: "fds s' = fds s \<Longrightarrow> file_at s' = file_at s"
  by (simp add: file_at_def fun_eq_iff)

lemma any_end_iff: "length (fds s) = FD_MAX \<Longrightarrow> any_end t p s \<longleftrightarrow> (\<exists>i. holder s t p i)"
  by (auto simp: any_end_def holder_def list_ex_length)

text \<open>Only the flags of a pipe matter to \<open>ends_ok\<close>.\<close>

lemma ends_ok_cong:
  assumes "fds s' = fds s" "\<And>p. p < PIPE_MAX \<Longrightarrow> p_used (pipes s' ! p) = p_used (pipes s ! p)"
    "\<And>p. p < PIPE_MAX \<Longrightarrow> write_closed (pipes s' ! p) = write_closed (pipes s ! p)"
  shows "ends_ok s' \<longleftrightarrow> ends_ok s"
proof -
  have "p < int PIPE_MAX \<and> 0 \<le> p \<Longrightarrow> p_used (pipes s' ! nat p) = p_used (pipes s ! nat p)" for p
    by (rule assms(2)) linarith
  then show ?thesis unfolding ends_ok_def holder_cong [OF assms(1)] using assms(2,3) by (simp cong: conj_cong)
qed

lemma files_ok_cong: "fds s' = fds s \<Longrightarrow> used_fds (vol s') = used_fds (vol s) \<Longrightarrow> files_ok s' \<longleftrightarrow> files_ok s"
  by (simp add: files_ok_def file_at_cong [of s' s])

lemma sizes_ok_upd_pipe:
  assumes "sizes_ok s" "p < PIPE_MAX \<Longrightarrow> pipe_ok (f (pipes s ! p))"
  shows "sizes_ok (upd_pipe p f s)"
proof -
  have "pipe_ok (((pipes s)[p := f (pipes s ! p)]) ! n)" if "n < PIPE_MAX" for n
    using assms that by (cases "n = p") (auto simp: sizes_ok_def list_all_length)
  with assms(1) show ?thesis by (simp add: sizes_ok_def list_all_length)
qed

lemma alloc_fdD:
  assumes "alloc_fd s = Some i"
  shows "3 \<le> i" "i < FD_MAX" "\<not> d_used (fds s ! i)" "\<not> holder s t p i" "\<not> file_at s f i"
  using assms by (auto simp: alloc_fd_def find_upt_Some_iff holder_def file_at_def)

lemma alloc_pipeD: "alloc_pipe s = Some p \<Longrightarrow> p < PIPE_MAX \<and> \<not> p_used (pipes s ! p)"
  by (auto simp: alloc_pipe_def find_upt_Some_iff)

subsection \<open>Opening a pipe\<close>

text \<open>
  \<^verbatim>\<open>fd_pipe\<close> fails without a trace, or takes a free pipe and two free descriptors.
\<close>

lemma fd_pipe_cases:
  assumes "fd_pipe s = (s', r)" "length (fds s) = FD_MAX"
  obtains (none) "r = None" "s' = s"
  | (pair) rfd wfd pid where "r = Some (rfd, wfd)" "alloc_pipe s = Some pid" "alloc_fd s = Some rfd"
      "rfd < wfd" "wfd < FD_MAX" "\<not> d_used (fds s ! wfd)"
      "s' = set_fd wfd \<lparr>d_used = True, d_type = FD_PIPE_WRITE, fat_fd = -1, pipe_id = int pid\<rparr>
             (set_fd rfd \<lparr>d_used = True, d_type = FD_PIPE_READ, fat_fd = -1, pipe_id = int pid\<rparr>
               (upd_pipe pid pipe_reset s))"
proof (cases "alloc_pipe s = None \<or> alloc_fd s = None")
  case True
  with assms(1) none show ?thesis by (auto simp: fd_pipe_def split: option.splits)
next
  case False
  then obtain pid rfd where p: "alloc_pipe s = Some pid" and a: "alloc_fd s = Some rfd" by auto
  let ?t = "set_fd rfd ((fds s ! rfd)\<lparr>d_used := True\<rparr>) s"
  have rfd: "rfd < length (fds s)" using alloc_fdD(2) [OF a] assms(2) by simp
  have undo: "(fds s ! rfd)\<lparr>d_used := False\<rparr> = fds s ! rfd" using alloc_fdD(3) [OF a] by (cases "fds s ! rfd") simp
  show ?thesis
  proof (cases "alloc_fd ?t")
    case None
    with assms(1) p a rfd undo show ?thesis by (intro none) (auto simp: fd_pipe_def Let_def set_fd_def)
  next
    case (Some wfd)
    from alloc_fdD(1-3) [OF Some] rfd have w: "wfd < FD_MAX" "wfd \<noteq> rfd" "\<not> d_used (fds s ! wfd)" "3 \<le> wfd"
      by (auto simp: nth_list_update split: if_splits)
    have "\<not> wfd < rfd" using a w by (auto simp: alloc_fd_def find_upt_Some_iff)
    with w have "rfd < wfd" by simp
    from pair [OF _ p a this w(1,3)] assms(1) p a Some show ?thesis
      by (simp add: fd_pipe_def Let_def set_fd_def upd_pipe_def)
  qed
qed

lemma holder_pair:
  assumes "length (fds s) = FD_MAX" "rfd < wfd" "wfd < FD_MAX" "\<not> d_used (fds s ! rfd)" "\<not> d_used (fds s ! wfd)"
    "s' = set_fd wfd \<lparr>d_used = True, d_type = FD_PIPE_WRITE, fat_fd = -1, pipe_id = int pid\<rparr>
             (set_fd rfd \<lparr>d_used = True, d_type = FD_PIPE_READ, fat_fd = -1, pipe_id = int pid\<rparr>
               (upd_pipe pid h s))"
  shows "holder s' t p i \<longleftrightarrow> holder s t p i \<or> t = FD_PIPE_READ \<and> p = int pid \<and> i = rfd
           \<or> t = FD_PIPE_WRITE \<and> p = int pid \<and> i = wfd"
    and "file_at s' f i \<longleftrightarrow> file_at s f i"
    and "length (fds s') = FD_MAX" "pipes s' = (pipes s)[pid := h (pipes s ! pid)]" "vol s' = vol s"
proof -
  have F: "fds s' = (fds s)[rfd := \<lparr>d_used = True, d_type = FD_PIPE_READ, fat_fd = -1, pipe_id = int pid\<rparr>,
      wfd := \<lparr>d_used = True, d_type = FD_PIPE_WRITE, fat_fd = -1, pipe_id = int pid\<rparr>]"
    by (simp add: assms(6))
  have bounds: "rfd < length (fds s)" "wfd < length (fds s)" "rfd \<noteq> wfd" using assms(1-3) by simp_all
  consider "i = wfd" | "i = rfd" | "i \<noteq> rfd" "i \<noteq> wfd" by blast
  note C = this
  show "holder s' t p i \<longleftrightarrow> holder s t p i \<or> t = FD_PIPE_READ \<and> p = int pid \<and> i = rfd
           \<or> t = FD_PIPE_WRITE \<and> p = int pid \<and> i = wfd"
    using C by cases (use assms(1,4,5) bounds in \<open>auto simp: holder_def F\<close>)
  show "file_at s' f i \<longleftrightarrow> file_at s f i"
    using C by cases (use assms(1,4,5) bounds in \<open>auto simp: file_at_def F\<close>)
qed (simp_all add: assms)

lemma ends_ok_pair:
  assumes "ends_ok s" "length (pipes s) = PIPE_MAX" "pid < PIPE_MAX" "\<not> p_used (pipes s ! pid)"
    and h: "\<And>t p i. holder s' t p i \<longleftrightarrow> holder s t p i \<or> t = FD_PIPE_READ \<and> p = int pid \<and> i = rfd
           \<or> t = FD_PIPE_WRITE \<and> p = int pid \<and> i = wfd"
    and p: "pipes s' = (pipes s)[pid := pipe_reset (pipes s ! pid)]"
  shows "ends_ok s'"
proof -
  have none: "\<not> holder s t (int pid) i" if "t \<in> {FD_PIPE_READ, FD_PIPE_WRITE}" for t i
    using ends_okD(1) [OF assms(1) that, of "int pid" i] assms(4) by auto
  have P: "p_used (pipes s' ! q) \<longleftrightarrow> q = pid \<or> p_used (pipes s ! q)"
      "write_closed (pipes s' ! q) \<longleftrightarrow> q \<noteq> pid \<and> write_closed (pipes s ! q)" if "q < PIPE_MAX" for q
    using that assms(2,3) by (auto simp: p nth_list_update pipe_reset_def)
  show ?thesis
    unfolding ends_ok_def
  proof (intro conjI allI impI)
    fix t q i assume t: "t \<in> {FD_PIPE_READ, FD_PIPE_WRITE}" and "holder s' t q i"
    then have "q = int pid \<or> holder s t q i" by (auto simp: h)
    then show "0 \<le> q" "q < int PIPE_MAX" "p_used (pipes s' ! nat q)"
      using ends_okD(1) [OF assms(1) t, of q i] assms(3) P(1) [of "nat q"] by auto
  next
    fix t q i j assume t: "t \<in> {FD_PIPE_READ, FD_PIPE_WRITE}" and "holder s' t q i" "holder s' t q j"
    then show "i = j" using none [OF t] ends_okD(2) [OF assms(1) t, of q i j] by (auto simp: h)
  next
    fix q assume q: "q < PIPE_MAX" "p_used (pipes s' ! q)"
    show "\<exists>i. holder s' FD_PIPE_READ (int q) i \<or> holder s' FD_PIPE_WRITE (int q) i"
      using ends_okD(3) [OF assms(1) q(1)] q P(1) [OF q(1)] by (auto simp: h)
    show "write_closed (pipes s' ! q) \<longleftrightarrow> \<not> (\<exists>i. holder s' FD_PIPE_WRITE (int q) i)"
      using ends_okD(4) [OF assms(1) q(1)] q P [OF q(1)] none by (auto simp: h)
  qed
qed

lemma fd_pipe_ok [kinv]:
  assumes "fd_ok s" "fd_pipe s = (s', r)"
  shows "fd_ok s'"
proof -
  have L: "length (fds s) = FD_MAX" "length (pipes s) = PIPE_MAX" using assms(1) by (simp_all add: fd_ok_def sizes_ok_def)
  from assms(2) L(1) show ?thesis
  proof (cases rule: fd_pipe_cases)
    case (pair rfd wfd pid)
    note H = holder_pair [OF L(1) pair(4,5) alloc_fdD(3) [OF pair(3)] pair(6,7)]
    have pid: "pid < PIPE_MAX" "\<not> p_used (pipes s ! pid)" using alloc_pipeD [OF pair(2)] by simp_all
    have "pipe_ok (pipe_reset (pipes s ! pid))" using assms(1) pid(1)
      by (intro pipe_reset_ok [THEN conjunct1]) (auto simp: fd_ok_def sizes_ok_def list_all_length pipe_ok_def)
    then have "sizes_ok (upd_pipe pid pipe_reset s)" using assms(1) by (intro sizes_ok_upd_pipe) (auto simp: fd_ok_def)
    then have "sizes_ok s'" unfolding pair(7) by (simp add: sizes_ok_def)
    moreover have "ends_ok s'"
      by (rule ends_ok_pair [OF fd_okD(2) [OF assms(1)] L(2) pid H(1) H(4)])
    moreover have "files_ok s'"
      using fd_okD(3) [OF assms(1)] by (simp add: files_ok_def H(2,5))
    ultimately show ?thesis by (simp add: fd_ok_def)
  qed (use assms(1) in simp)
qed

subsection \<open>Files\<close>

text \<open>A change of the volume that keeps the open files, and of pipe contents, keeps the invariant.\<close>

lemma fd_ok_vol:
  assumes "fd_ok s" "used_fds v = used_fds (vol s)"
  shows "fd_ok (s\<lparr>vol := v\<rparr>)"
  using assms by (simp add: fd_ok_def sizes_ok_def ends_ok_cong [of "s\<lparr>vol := v\<rparr>" s] files_ok_cong [of "s\<lparr>vol := v\<rparr>" s])

lemma fd_ok_pipe:
  assumes "fd_ok s" "p < PIPE_MAX" "pipe_ok q" "p_used q = p_used (pipes s ! p)" "write_closed q = write_closed (pipes s ! p)"
  shows "fd_ok (upd_pipe p (\<lambda>_. q) s)"
proof -
  have L: "length (pipes s) = PIPE_MAX" using assms(1) by (simp add: fd_ok_def sizes_ok_def)
  have "ends_ok (upd_pipe p (\<lambda>_. q) s) \<longleftrightarrow> ends_ok s"
    by (rule ends_ok_cong) (use assms L in \<open>auto simp: nth_list_update\<close>)
  moreover have "files_ok (upd_pipe p (\<lambda>_. q) s) \<longleftrightarrow> files_ok s" by (rule files_ok_cong) simp_all
  ultimately show ?thesis using assms by (simp add: fd_ok_def sizes_ok_upd_pipe)
qed

text \<open>Descriptor \<open>i\<close>, which is not the end of a pipe, is set to one that is not either.\<close>

lemma ends_ok_set_fd:
  assumes "length (fds s) = FD_MAX" "ends_ok s" "\<And>t p. t \<in> {FD_PIPE_READ, FD_PIPE_WRITE} \<Longrightarrow> \<not> holder s t p i"
    "d_type d \<notin> {FD_PIPE_READ, FD_PIPE_WRITE}"
  shows "ends_ok (set_fd i d s)"
proof -
  have "holder (set_fd i d s) t p j \<longleftrightarrow> holder s t p j" if "t \<in> {FD_PIPE_READ, FD_PIPE_WRITE}" for t p j
    using assms(3) [OF that, of p] assms(4) that by (auto simp: holder_set_fd [OF assms(1)])
  then show ?thesis using assms(2) by (simp add: ends_ok_def)
qed

lemma alloc_fd_not_end: "alloc_fd s = Some i \<Longrightarrow> \<not> holder s t p i"
  by (rule alloc_fdD(4))

text \<open>The tail of \<^verbatim>\<open>fd_open\<close> and \<^verbatim>\<open>fd_create\<close>, after the file system opened \<open>fat\<close>.\<close>

lemma fd_bind_ok:
  assumes "fd_ok s" "fat_opened (vol s) v fat" "fd_bind fat (s\<lparr>vol := v\<rparr>) = (s', r)"
  shows "fd_ok s'"
proof -
  have L: "length (fds s) = FD_MAX" "length (g_fds (vol s)) = FAT12_MAX_FDS"
    using assms(1) by (simp_all add: fd_ok_def sizes_ok_def used_fds_def)
  from assms(2) consider (fail) "fat = -1" "g_fds v = g_fds (vol s)"
    | (opened) f where "0 \<le> fat" "fat < int FAT12_MAX_FDS" "\<not> ff_used (g_fds (vol s) ! nat fat)" "ff_used f"
        "g_fds v = (g_fds (vol s))[nat fat := f]" by (auto simp: fat_opened_def)
  then show ?thesis
  proof cases
    case fail
    with assms(3) fd_ok_vol [OF assms(1) used_fds_cong [OF fail(2)]] show ?thesis by (simp add: fd_bind_def)
  next
    case opened
    then have nf: "nat fat < length (g_fds (vol s))" using L(2) by simp
    have u: "used_fds v = (used_fds (vol s))[nat fat := True]" using opened by (simp add: used_fds_def map_update)
    have nu: "nat fat < length (used_fds (vol s))" using nf by (simp add: used_fds_def)
    have was: "\<not> used_fds (vol s) ! nat fat" using opened(3) nf by (simp add: used_fds_def)
    have a: "alloc_fd (s\<lparr>vol := v\<rparr>) = alloc_fd s" by (simp add: alloc_fd_def)
    show ?thesis
    proof (cases "alloc_fd s")
      case None
      have "used_fds (fat12_close fat v) = (used_fds v)[nat fat := False]"
        using opened(1,2) nf by (simp add: used_fds_def g_fds_fat12_close map_update opened(5))
      also have "\<dots> = used_fds (vol s)" using was by (metis u list_update_overwrite list_update_id)
      finally show ?thesis using assms(3) opened(1) None a fd_ok_vol [OF assms(1)] by (auto simp: fd_bind_def)
    next
      case (Some i)
      let ?d = "\<lparr>d_used = True, d_type = FD_FILE, fat_fd = fat, pipe_id = -1\<rparr>" and ?t = "s\<lparr>vol := v\<rparr>"
      have s': "s' = set_fd i ?d ?t" using assms(3) opened(1) Some a by (simp add: fd_bind_def)
      have h: "holder ?t = holder s" "file_at ?t = file_at s" by (rule holder_cong, simp) (rule file_at_cong, simp)
      have F: "file_at s' f j \<longleftrightarrow> (if j = i then f = fat else file_at s f j)" for f j
        unfolding s' using L(1) alloc_fdD(2) [OF Some] by (auto simp: file_at_set_fd h)
      have fnew: "\<not> file_at s fat j" for j
        using files_okD(1) [OF fd_okD(3) [OF assms(1)], of fat j] was by blast
      have "sizes_ok s'" using fd_okD(1) [OF assms(1)] by (simp add: s' sizes_ok_def u)
      moreover have "ends_ok ?t" using fd_okD(2) [OF assms(1)] by (simp add: ends_ok_cong [of ?t s])
      then have "ends_ok s'" unfolding s'
        by (rule ends_ok_set_fd [rotated]) (use L(1) alloc_fdD(4) [OF Some] in \<open>simp_all add: h\<close>)
      moreover have "files_ok s'"
        unfolding files_ok_def
      proof (intro conjI allI impI)
        fix f j assume fj: "file_at s' f j"
        then have "f = fat \<or> 0 \<le> f \<and> f < int FAT12_MAX_FDS \<and> used_fds (vol s) ! nat f"
          using files_okD(1) [OF fd_okD(3) [OF assms(1)], of f j] by (auto simp: F split: if_splits)
        then show "0 \<le> f" "f < int FAT12_MAX_FDS" "used_fds (vol s') ! nat f"
          using opened(1,2) nu by (auto simp: s' u nth_list_update)
        fix k assume fk: "file_at s' f k"
        show "j = k" using files_okD(2) [OF fd_okD(3) [OF assms(1)], of f j k] fj fk fnew by (auto simp: F split: if_splits)
      next
        fix f assume f: "f < FAT12_MAX_FDS" "used_fds (vol s') ! f"
        show "\<exists>j. file_at s' (int f) j"
        proof (cases "f = nat fat")
          case True
          then show ?thesis using opened(1) by (intro exI [of _ i]) (simp add: F)
        next
          case False
          then have "used_fds (vol s) ! f" using f(2) by (simp add: s' u)
          from files_okD(3) [OF fd_okD(3) [OF assms(1)] f(1) this] obtain j where j: "file_at s (int f) j" ..
          with alloc_fdD(5) [OF Some] have "j \<noteq> i" by blast
          with j show ?thesis by (auto simp: F)
        qed
      qed
      ultimately show ?thesis by (simp add: fd_ok_def)
    qed
  qed
qed

lemma fd_open_ok [kinv]: "fd_ok s \<Longrightarrow> fd_open path s = (s', r) \<Longrightarrow> fd_ok s'"
  by (auto simp: fd_open_def split: prod.splits intro: fd_bind_ok fat12_open_opened)

lemma fd_create_ok [kinv]: "fd_ok s \<Longrightarrow> fd_create path s = Some (s', r) \<Longrightarrow> fd_ok s'"
  by (auto simp: fd_create_def intro: fd_bind_ok fat12_create_opened)

lemma fd_create_case_ok [kinv]: "fd_ok s \<Longrightarrow> fd_create_case path s = Some (s', r) \<Longrightarrow> fd_ok s'"
  by (auto simp: fd_create_case_def bind_eq_Some_conv split: if_splits intro: fd_create_ok)

subsection \<open>Reading, writing, flushing\<close>

text \<open>The pipe behind an end is in range and well formed.\<close>

lemma holder_pipe:
  assumes "fd_ok s" "\<not> fd_bad fd s" "d_type (fds s ! nat fd) \<in> {FD_PIPE_READ, FD_PIPE_WRITE}"
  shows "holder s (d_type (fds s ! nat fd)) (pipe_id (fds s ! nat fd)) (nat fd)"
    and "0 \<le> pipe_id (fds s ! nat fd)" "nat (pipe_id (fds s ! nat fd)) < PIPE_MAX"
    and "pipe_ok (pipes s ! nat (pipe_id (fds s ! nat fd)))" "p_used (pipes s ! nat (pipe_id (fds s ! nat fd)))"
proof -
  show h: "holder s (d_type (fds s ! nat fd)) (pipe_id (fds s ! nat fd)) (nat fd)"
    using assms(2) by (auto simp: holder_def fd_bad_def)
  from ends_okD(1) [OF fd_okD(2) [OF assms(1)] assms(3) h]
  show "0 \<le> pipe_id (fds s ! nat fd)" "nat (pipe_id (fds s ! nat fd)) < PIPE_MAX"
    "p_used (pipes s ! nat (pipe_id (fds s ! nat fd)))" by linarith+
  then show "pipe_ok (pipes s ! nat (pipe_id (fds s ! nat fd)))"
    using fd_okD(1) [OF assms(1)] by (simp add: sizes_ok_def list_all_length)
qed

lemma fd_ok_console: "fd_ok (s\<lparr>printed := a, com1 := b\<rparr>) = fd_ok s" "fd_ok (s\<lparr>polls := ps, kbd_shift_down := k\<rparr>) = fd_ok s"
proof -
  have "ends_ok (s\<lparr>printed := a, com1 := b\<rparr>) = ends_ok s" "ends_ok (s\<lparr>polls := ps, kbd_shift_down := k\<rparr>) = ends_ok s"
    by (rule ends_ok_cong; simp)+
  moreover have "files_ok (s\<lparr>printed := a, com1 := b\<rparr>) = files_ok s" "files_ok (s\<lparr>polls := ps, kbd_shift_down := k\<rparr>) = files_ok s"
    by (rule files_ok_cong; simp)+
  ultimately show "fd_ok (s\<lparr>printed := a, com1 := b\<rparr>) = fd_ok s"
    "fd_ok (s\<lparr>polls := ps, kbd_shift_down := k\<rparr>) = fd_ok s" by (simp_all add: fd_ok_def sizes_ok_def)
qed

lemma fd_read_ok [kinv]:
  assumes "fd_ok s" "fd_read fd sz s = Some (s', r, out)"
  shows "fd_ok s'"
proof (cases "fd_bad fd s")
  case False
  let ?d = "fds s ! nat fd"
  show ?thesis
  proof (cases "d_type ?d")
    case FD_PIPE_READ
    let ?p = "pipes s ! nat (pipe_id ?d)"
    have hp: "nat (pipe_id ?d) < PIPE_MAX" "pipe_ok ?p"
      using holder_pipe [OF assms(1) False] FD_PIPE_READ by simp_all
    obtain p' o' where t: "pipe_take (unat sz) ?p = (p', o')" by fastforce
    with pipe_take_frame [of "unat sz" ?p] pipe_take_spec [OF hp(2), of "unat sz"]
    have "pipe_ok p'" "p_used p' = p_used ?p" "write_closed p' = write_closed ?p" by auto
    from fd_ok_pipe [OF assms(1) hp(1) this] assms FD_PIPE_READ False t show ?thesis
      by (auto simp: fd_read_def Let_def split: if_splits)
  qed (use assms False fat12_read_used in \<open>auto simp: fd_read_def Let_def fd_ok_console intro: fd_ok_vol\<close>)
qed (use assms in \<open>simp add: fd_read_def\<close>)

lemma fd_write_ok [kinv]:
  assumes "fd_ok s" "fd_write fd src s = Some (s', r)"
  shows "fd_ok s'"
proof (cases "fd_bad fd s")
  case False
  let ?d = "fds s ! nat fd"
  show ?thesis
  proof (cases "d_type ?d")
    case FD_PIPE_WRITE
    let ?p = "pipes s ! nat (pipe_id ?d)"
    have hp: "nat (pipe_id ?d) < PIPE_MAX" "pipe_ok ?p"
      using holder_pipe [OF assms(1) False] FD_PIPE_WRITE by simp_all
    obtain p' n where t: "pipe_store src ?p = (p', n)" by fastforce
    with pipe_store_frame [of src ?p] pipe_store_spec [OF hp(2), of src]
    have "pipe_ok p'" "p_used p' = p_used ?p" "write_closed p' = write_closed ?p" by auto
    from fd_ok_pipe [OF assms(1) hp(1) this] assms FD_PIPE_WRITE False t show ?thesis
      by (auto simp: fd_write_def Let_def split: if_splits)
  qed (use assms False fat12_write_used in \<open>auto simp: fd_write_def Let_def fd_ok_console intro: fd_ok_vol\<close>)
qed (use assms in \<open>simp add: fd_write_def\<close>)

lemma fd_flush_ok [kinv]: "fd_ok s \<Longrightarrow> fd_ok (fd_flush fd s)"
  by (simp add: fd_flush_def fd_ok_vol used_fds_def g_fds_fat12_flush)

subsection \<open>Closing\<close>

text \<open>
  The three cases of \<^verbatim>\<open>fd_close\<close>: a file is closed in the file system; the last end of a pipe
  releases it; a write end that goes first marks the pipe closed for writing.
\<close>

definition other_end :: "fd_type \<Rightarrow> fd_type" where
  "other_end t = (if t = FD_PIPE_WRITE then FD_PIPE_READ else FD_PIPE_WRITE)"

lemma any_end_upd_pipe: "length (fds s) = FD_MAX \<Longrightarrow> any_end t q (upd_pipe p f s) \<longleftrightarrow> (\<exists>i. holder s t q i)"
  by (simp add: any_end_def holder_def list_ex_length)

lemma fd_close_end:
  assumes "fd_ok s" "\<not> fd_bad fd s" "d_type (fds s ! nat fd) \<in> {FD_PIPE_READ, FD_PIPE_WRITE}"
    and p: "p = nat (pipe_id (fds s ! nat fd))"
  shows "fds (fd_close fd s) = (fds s)[nat fd := fd_none]" "vol (fd_close fd s) = vol s"
    "\<exists>q. pipes (fd_close fd s) = (pipes s)[p := q] \<and> pipe_ok q
       \<and> (p_used q \<longleftrightarrow> (\<exists>i. holder s (other_end (d_type (fds s ! nat fd))) (int p) i))
       \<and> (write_closed q \<longleftrightarrow> write_closed (pipes s ! p) \<or> d_type (fds s ! nat fd) = FD_PIPE_WRITE)"
proof -
  let ?d = "fds s ! nat fd"
  have L: "length (fds s) = FD_MAX" "length (pipes s) = PIPE_MAX" using assms(1) by (simp_all add: fd_ok_def sizes_ok_def)
  note hp = holder_pipe(2-) [OF assms(1-3), folded p]
  have ip: "int p = pipe_id ?d" using hp(1) p by simp
  have PL: "p < length (pipes s)" using hp(2) L by simp
  note ok = hp(3) [unfolded pipe_ok_def]
  have nf: "\<not> d_type ?d = FD_FILE" using assms(3) by auto
  consider (w) "d_type ?d = FD_PIPE_WRITE" | (r) "d_type ?d = FD_PIPE_READ" using assms(3) by auto
  note C = this
  show "fds (fd_close fd s) = (fds s)[nat fd := fd_none]" "vol (fd_close fd s) = vol s"
    using C assms(2) by (cases; simp add: fd_close_def Let_def)+
  show "\<exists>q. pipes (fd_close fd s) = (pipes s)[p := q] \<and> pipe_ok q
       \<and> (p_used q \<longleftrightarrow> (\<exists>i. holder s (other_end (d_type ?d)) (int p) i))
       \<and> (write_closed q \<longleftrightarrow> write_closed (pipes s ! p) \<or> d_type ?d = FD_PIPE_WRITE)"
    using C
  proof cases
    case w
    let ?q = "(pipes s ! p)\<lparr>write_closed := True, p_used := \<exists>i. holder s FD_PIPE_READ (int p) i\<rparr>"
    have "pipes (fd_close fd s) = (pipes s)[p := ?q]"
    proof (cases "\<exists>i. holder s FD_PIPE_READ (int p) i")
      case True
      with hp(4) have "?q = (pipes s ! p)\<lparr>write_closed := True\<rparr>" by (cases "pipes s ! p") simp
      with True show ?thesis using w assms(2) ip PL L(1) hp(1)
        by (simp add: fd_close_def Let_def any_end_upd_pipe p [symmetric])
    next
      case False
      then show ?thesis using w assms(2) ip PL L(1) hp(1)
        by (simp add: fd_close_def Let_def any_end_upd_pipe p [symmetric])
    qed
    moreover have "pipe_ok ?q" using ok by (simp add: pipe_ok_def)
    ultimately show ?thesis using w by (intro exI [of _ ?q]) (simp add: other_end_def)
  next
    case r
    let ?q = "(pipes s ! p)\<lparr>p_used := \<exists>i. holder s FD_PIPE_WRITE (int p) i\<rparr>"
    have "pipes (fd_close fd s) = (pipes s)[p := ?q]"
    proof (cases "\<exists>i. holder s FD_PIPE_WRITE (int p) i")
      case True
      have "?q = pipes s ! p" using True hp(4) by (cases "pipes s ! p") simp
      with True show ?thesis using r assms(2) ip L(1) hp(1)
        by (auto simp: fd_close_def Let_def any_end_iff p [symmetric])
    next
      case False
      then show ?thesis using r assms(2) ip L(1) hp(1)
        by (simp add: fd_close_def Let_def any_end_iff p [symmetric])
    qed
    moreover have "pipe_ok ?q" using ok by (simp add: pipe_ok_def)
    ultimately show ?thesis using r by (intro exI [of _ ?q]) (simp add: other_end_def)
  qed
qed

text \<open>What the table shows once descriptor \<open>k\<close> is gone.\<close>

lemma views_closed:
  assumes "fds s' = (fds s)[k := fd_none]" "length (fds s) = FD_MAX" "k < FD_MAX"
  shows "holder s' t q j \<longleftrightarrow> j \<noteq> k \<and> holder s t q j" "file_at s' f j \<longleftrightarrow> j \<noteq> k \<and> file_at s f j"
  using assms by (cases "j = k"; simp add: holder_def file_at_def fd_none_def)+

lemma ends_ok_closed:
  assumes "ends_ok s" "t \<in> {FD_PIPE_READ, FD_PIPE_WRITE}" "holder s t (int p) k" "p < PIPE_MAX"
    and H: "\<And>t r j. holder s' t r j \<longleftrightarrow> j \<noteq> k \<and> holder s t r j"
    and P: "\<And>j. j < PIPE_MAX \<Longrightarrow> pipes s' ! j = (if j = p then q else pipes s ! j)"
    and q: "p_used q \<longleftrightarrow> (\<exists>i. holder s (other_end t) (int p) i)" "write_closed q \<longleftrightarrow> write_closed (pipes s ! p) \<or> t = FD_PIPE_WRITE"
  shows "ends_ok s'"
proof -
  have self: "holder s t (int p) j \<longleftrightarrow> j = k" for j
    using ends_okD(2) [OF assms(1,2), of "int p"] assms(3) by auto
  have other: "holder s' (other_end t) (int p) j \<longleftrightarrow> holder s (other_end t) (int p) j" for j
    unfolding H using assms(2,3) by (auto simp: holder_def other_end_def)
  have ot: "other_end t \<in> {FD_PIPE_READ, FD_PIPE_WRITE}" by (simp add: other_end_def)
  have pu: "p_used (pipes s ! p)" using ends_okD(1) [OF assms(1,2,3)] by simp
  show ?thesis
    unfolding ends_ok_def
  proof (intro conjI allI impI)
    fix u r j assume u: "u \<in> {FD_PIPE_READ, FD_PIPE_WRITE}" and "holder s' u r j"
    then have hs: "holder s u r j" "j \<noteq> k" by (simp_all add: H)
    note e = ends_okD(1) [OF assms(1) u hs(1)]
    show "0 \<le> r" "r < int PIPE_MAX" using e by simp_all
    then have n: "nat r < PIPE_MAX" by linarith
    show "p_used (pipes s' ! nat r)"
    proof (cases "nat r = p")
      case True
      then have r: "r = int p" using e by auto
      with self hs have "u \<noteq> t" by auto
      with u assms(2) have "u = other_end t" by (auto simp: other_end_def)
      with hs(1) r True show ?thesis by (auto simp: P [OF assms(4)] q(1))
    qed (use e in \<open>simp add: P [OF n]\<close>)
    fix i assume "holder s' u r i"
    with hs(1) show "j = i" using ends_okD(2) [OF assms(1) u] by (simp add: H)
  next
    fix m assume m: "m < PIPE_MAX" "p_used (pipes s' ! m)"
    have U: "p_used (pipes s ! m)" using m(2) pu by (simp add: P [OF m(1)] split: if_splits)
    note e = ends_okD(3,4) [OF assms(1) m(1) U]
    have away: "holder s u (int m) k \<Longrightarrow> m = p" for u using assms(3) by (auto simp: holder_def)
    show "\<exists>j. holder s' FD_PIPE_READ (int m) j \<or> holder s' FD_PIPE_WRITE (int m) j"
    proof (cases "m = p")
      case True
      with m(2) q(1) obtain j where "holder s (other_end t) (int p) j" by (auto simp: P [OF m(1)] P [OF assms(4)])
      with other ot True show ?thesis by auto
    next
      case False
      with away have "\<not> holder s u (int m) k" for u by blast
      with e(1) show ?thesis unfolding H by metis
    qed
    show "write_closed (pipes s' ! m) \<longleftrightarrow> \<not> (\<exists>j. holder s' FD_PIPE_WRITE (int m) j)"
    proof (cases "m = p \<and> t = FD_PIPE_WRITE")
      case True
      then show ?thesis using self by (auto simp: P [OF m(1)] P [OF assms(4)] q(2) H)
    next
      case False
      have "holder s FD_PIPE_WRITE (int m) k \<Longrightarrow> m = p \<and> t = FD_PIPE_WRITE" using assms(3) by (auto simp: holder_def)
      with False have "holder s' FD_PIPE_WRITE (int m) j \<longleftrightarrow> holder s FD_PIPE_WRITE (int m) j" for j
        unfolding H by blast
      with e(2) False show ?thesis by (auto simp: P [OF m(1)] P [OF assms(4)] q(2))
    qed
  qed
qed

lemma fd_close_end_ok:
  assumes "fd_ok s" "\<not> fd_bad fd s" "d_type (fds s ! nat fd) \<in> {FD_PIPE_READ, FD_PIPE_WRITE}"
  shows "fd_ok (fd_close fd s)"
proof -
  let ?d = "fds s ! nat fd" and ?s' = "fd_close fd s"
  have L: "length (fds s) = FD_MAX" "length (pipes s) = PIPE_MAX" using assms(1) by (simp_all add: fd_ok_def sizes_ok_def)
  have i: "nat fd < FD_MAX" using assms(2) by (auto simp: fd_bad_def)
  obtain p where p: "p = nat (pipe_id ?d)" by blast
  note C = fd_close_end [OF assms p]
  note hp = holder_pipe [OF assms, folded p]
  have h: "holder s (d_type ?d) (int p) (nat fd)" using hp(1,2) p by simp
  from C(3) obtain q where q: "pipes ?s' = (pipes s)[p := q]" "pipe_ok q"
    "p_used q \<longleftrightarrow> (\<exists>i. holder s (other_end (d_type ?d)) (int p) i)"
    "write_closed q \<longleftrightarrow> write_closed (pipes s ! p) \<or> d_type ?d = FD_PIPE_WRITE" by blast
  note V = views_closed [OF C(1) L(1) i]
  have P: "pipes ?s' ! j = (if j = p then q else pipes s ! j)" if "j < PIPE_MAX" for j
    using that L(2) by (simp add: q(1))
  have "ends_ok ?s'"
    by (rule ends_ok_closed [OF fd_okD(2) [OF assms(1)] assms(3) h hp(3) V(1) P q(3,4)])
  moreover have "pipe_ok (pipes ?s' ! j)" if "j < PIPE_MAX" for j
    using that fd_okD(1) [OF assms(1)] q(2) by (simp add: P sizes_ok_def list_all_length)
  then have "sizes_ok ?s'" using fd_okD(1) [OF assms(1)] by (simp add: sizes_ok_def C list_all_length q(1))
  moreover have "\<not> file_at s f (nat fd)" for f using assms(3) by (auto simp: file_at_def)
  then have "file_at ?s' f j \<longleftrightarrow> file_at s f j" for f j by (auto simp: V)
  then have "files_ok ?s'" using fd_okD(3) [OF assms(1)] C(2) by (simp add: files_ok_def)
  ultimately show ?thesis by (simp add: fd_ok_def)
qed

lemma files_ok_closed:
  assumes "files_ok s" "length (used_fds (vol s)) = FAT12_MAX_FDS"
    and F: "\<And>f j. file_at s' f j \<longleftrightarrow> j \<noteq> k \<and> file_at s f j"
    and V: "used_fds (vol s') = (if file_at s g k then (used_fds (vol s))[nat g := False] else used_fds (vol s))"
    and g: "\<And>f. file_at s f k \<Longrightarrow> f = g"
  shows "files_ok s'"
  unfolding files_ok_def
proof (intro conjI allI impI)
  fix f j assume "file_at s' f j"
  then have fj: "file_at s f j" "j \<noteq> k" by (simp_all add: F)
  note e = files_okD(1) [OF assms(1) fj(1)]
  show "0 \<le> f" "f < int FAT12_MAX_FDS" using e by simp_all
  have "nat g \<noteq> nat f" if a: "file_at s g k"
  proof
    assume "nat g = nat f"
    with e files_okD(1) [OF assms(1) a] have "g = f" by linarith
    with files_okD(2) [OF assms(1) fj(1), of k] a fj(2) show False by simp
  qed
  with e show "used_fds (vol s') ! nat f" by (simp add: V)
  fix i assume "file_at s' f i"
  then show "j = i" using files_okD(2) [OF assms(1) fj(1)] by (simp add: F)
next
  fix f assume f: "f < FAT12_MAX_FDS" "used_fds (vol s') ! f"
  have u: "used_fds (vol s) ! f" "file_at s g k \<Longrightarrow> f \<noteq> nat g"
    using f assms(2) by (cases "f = nat g"; auto simp: V split: if_splits)+
  from files_okD(3) [OF assms(1) f(1) u(1)] obtain j where j: "file_at s (int f) j" ..
  have "j \<noteq> k" using u(2) g [of "int f"] j by auto
  with j show "\<exists>j. file_at s' (int f) j" by (auto simp: F)
qed

lemma fd_close_other_ok:
  assumes "fd_ok s" "\<not> fd_bad fd s" "d_type (fds s ! nat fd) \<notin> {FD_PIPE_READ, FD_PIPE_WRITE}"
  shows "fd_ok (fd_close fd s)"
proof -
  let ?d = "fds s ! nat fd" and ?s' = "fd_close fd s"
  have L: "length (fds s) = FD_MAX" "length (used_fds (vol s)) = FAT12_MAX_FDS"
    using assms(1) by (simp_all add: fd_ok_def sizes_ok_def)
  have i: "nat fd < FD_MAX" using assms(2) by (auto simp: fd_bad_def)
  let ?v = "if d_type ?d = FD_FILE then fat12_close (fat_fd ?d) (vol s) else vol s"
  have eq: "?s' = set_fd (nat fd) fd_none (s\<lparr>vol := ?v\<rparr>)"
    using assms(2,3) by (auto simp: fd_close_def Let_def)
  have C: "fds ?s' = (fds s)[nat fd := fd_none]" by (simp add: eq)
  note V = views_closed [OF C L(1) i]
  have "ends_ok (s\<lparr>vol := ?v\<rparr>) = ends_ok s" by (rule ends_ok_cong) simp_all
  then have "ends_ok ?s'" unfolding eq
    using fd_okD(2) [OF assms(1)] L(1) assms(3) by (intro ends_ok_set_fd) (auto simp: holder_def fd_none_def)
  moreover have fa: "file_at s f (nat fd) \<longleftrightarrow> d_type ?d = FD_FILE \<and> fat_fd ?d = f" for f
    using i assms(2) by (auto simp: file_at_def fd_bad_def)
  have U: "used_fds (vol ?s') = (if file_at s (fat_fd ?d) (nat fd) then (used_fds (vol s))[nat (fat_fd ?d) := False] else used_fds (vol s))"
  proof (cases "file_at s (fat_fd ?d) (nat fd)")
    case True
    with fa files_okD(1) [OF fd_okD(3) [OF assms(1)] True] show ?thesis
      by (simp add: eq used_fds_def g_fds_fat12_close map_update)
  qed (simp add: fa eq)
  then have "files_ok ?s'"
    by (rule files_ok_closed [OF fd_okD(3) [OF assms(1)] L(2) V(2)]) (simp_all add: fa)
  moreover have "sizes_ok ?s'" using fd_okD(1) [OF assms(1)] by (simp add: sizes_ok_def U) (simp add: eq)
  ultimately show ?thesis by (simp add: fd_ok_def)
qed

lemma fd_close_ok [kinv]: "fd_ok s \<Longrightarrow> fd_ok (fd_close fd s)"
proof (cases "fd_bad fd s")
  case True
  then show "fd_ok s \<Longrightarrow> fd_ok (fd_close fd s)" by (simp add: fd_close_def)
qed (use fd_close_end_ok fd_close_other_ok in blast)

subsection \<open>Every reachable table\<close>

text \<open>After \<^verbatim>\<open>fat12_init\<close> no file is open; \<^verbatim>\<open>fd_init\<close> then sets up the descriptors.\<close>

definition io_booted :: "io \<Rightarrow> bool" where
  "io_booted s \<longleftrightarrow> length (pipes s) = PIPE_MAX \<and> (\<forall>p \<in> set (pipes s). length (p_buf p) = PIPE_BUF)
     \<and> used_fds (vol s) = replicate FAT12_MAX_FDS False"

inductive fd_reach :: "io \<Rightarrow> bool" where
  boot: "io_booted s \<Longrightarrow> fd_reach (fd_init s)"
| do_pipe: "fd_reach s \<Longrightarrow> fd_pipe s = (s', r) \<Longrightarrow> fd_reach s'"
| do_open: "fd_reach s \<Longrightarrow> fd_open path s = (s', fd) \<Longrightarrow> fd_reach s'"
| do_create: "fd_reach s \<Longrightarrow> fd_create path s = Some (s', fd) \<Longrightarrow> fd_reach s'"
| do_create_case: "fd_reach s \<Longrightarrow> fd_create_case path s = Some (s', fd) \<Longrightarrow> fd_reach s'"
| do_read: "fd_reach s \<Longrightarrow> fd_read fd sz s = Some (s', n, out) \<Longrightarrow> fd_reach s'"
| do_write: "fd_reach s \<Longrightarrow> fd_write fd src s = Some (s', n) \<Longrightarrow> fd_reach s'"
| do_flush: "fd_reach s \<Longrightarrow> fd_reach (fd_flush fd s)"
| do_close: "fd_reach s \<Longrightarrow> fd_reach (fd_close fd s)"

lemma fd_init_nth:
  assumes "i < FD_MAX"
  shows "fds (fd_init s) ! i = fd_none\<lparr>d_used := i < 3,
    d_type := if i = 0 then FD_STDIN else if i = 1 then FD_STDOUT else if i = 2 then FD_STDERR else FD_NONE\<rparr>"
proof -
  have "(2::nat) < FD_MAX" by (simp add: FD_MAX_def)
  moreover consider "i = 0" | "i = 1" | "i = 2" | "3 \<le> i" by linarith
  ultimately show ?thesis using assms by cases (auto simp: fd_init_def fd_none_def nth_list_update)
qed

lemma fd_init_ok [kinv]:
  assumes "io_booted s"
  shows "fd_ok (fd_init s)"
proof -
  have L: "length (fds (fd_init s)) = FD_MAX" "length (pipes (fd_init s)) = PIPE_MAX" "vol (fd_init s) = vol s"
    using assms by (simp_all add: fd_init_def io_booted_def)
  have "\<not> holder (fd_init s) t p i" if "t \<in> {FD_PIPE_READ, FD_PIPE_WRITE}" for t p i
    using that by (auto simp: holder_def fd_init_nth fd_none_def split: if_splits)
  moreover have "\<not> p_used (pipes (fd_init s) ! p)" if "p < PIPE_MAX" for p
    using that L(2) by (simp add: fd_init_def)
  ultimately have "ends_ok (fd_init s)" by (simp add: ends_ok_def)
  moreover have "\<not> file_at (fd_init s) f i" for f i
    by (auto simp: file_at_def fd_init_nth fd_none_def split: if_splits)
  then have "files_ok (fd_init s)" using assms by (simp add: files_ok_def L(3) io_booted_def)
  moreover have "list_all pipe_ok (pipes (fd_init s))"
    using assms by (auto simp: fd_init_def io_booted_def list_all_iff pipe_ok_def)
  ultimately show ?thesis using assms L by (simp add: fd_ok_def sizes_ok_def io_booted_def)
qed

lemma fd_reach_ok:
  assumes "fd_reach s"
  shows "fd_ok s"
  using assms
proof induction
  case (boot s) then show ?case by (rule fd_init_ok)
next
  case (do_pipe s s' r)
  from fd_pipe_ok [OF this(3,2)] show ?case .
next
  case (do_open s path s' fd)
  from fd_open_ok [OF this(3,2)] show ?case .
next
  case (do_create s path s' fd)
  from fd_create_ok [OF this(3,2)] show ?case .
next
  case (do_create_case s path s' fd)
  from fd_create_case_ok [OF this(3,2)] show ?case .
next
  case (do_read s fd sz s' n out)
  from fd_read_ok [OF this(3,2)] show ?case .
next
  case (do_write s fd src s' n)
  from fd_write_ok [OF this(3,2)] show ?case .
qed (simp_all add: fd_flush_ok fd_close_ok)

text \<open>C26. The descriptor table never leaks and never dangles: in every state that \<^verbatim>\<open>fd_init\<close> and
  any sequence of \<^verbatim>\<open>fd_pipe\<close>, \<^verbatim>\<open>fd_open\<close>, \<^verbatim>\<open>fd_create\<close>, \<^verbatim>\<open>fd_create_case\<close>, \<^verbatim>\<open>fd_read\<close>,
  \<^verbatim>\<open>fd_write\<close>, \<^verbatim>\<open>fd_flush\<close> and \<^verbatim>\<open>fd_close\<close> reach, on a working device or not, each end of a pipe
  refers to a pipe in use, a pipe in use has an end left and at most one of each type, it is closed
  for writing exactly when its write end is gone, and the open files of the file system are exactly
  the files of the file descriptors, one each.\<close>
theorem fd_table_invariant:
  assumes "fd_reach s"
  shows "fd_ok s"
  by (rule fd_reach_ok [OF assms])

definition io0 :: io where
  "io0 = \<lparr>fds = [], pipes = replicate PIPE_MAX \<lparr>p_used = False, p_buf = replicate PIPE_BUF 0, read_pos = 0,
     write_pos = 0, p_count = 0, write_closed = False\<rparr>, vol = fat_blank, kbd_shift_down = 0, polls = [],
     printed = [], com1 = []\<rparr>"

lemma io0_booted: "io_booted io0"
  by (simp add: io_booted_def io0_def used_fds_def fat_blank_def FAT12_MAX_FDS_def)

lemma fd_table_invariant_witness: "fd_ok (fd_close 4 (fst (fd_pipe (fd_init io0))))"
proof (rule fd_table_invariant)
  have "fd_reach (fd_init io0)" by (rule fd_reach.boot [OF io0_booted])
  then have "fd_reach (fst (fd_pipe (fd_init io0)))" by (rule fd_reach.do_pipe [OF _ surjective_pairing])
  then show "fd_reach (fd_close 4 (fst (fd_pipe (fd_init io0))))" by (rule fd_reach.do_close)
qed

subsection \<open>A pipe is a queue of bytes\<close>

text \<open>The bytes waiting in pipe \<open>p\<close>.\<close>

definition waiting :: "io \<Rightarrow> int \<Rightarrow> u8 list" where
  "waiting s p = pipe_live (pipes s ! nat p)"

lemma holder_fd:
  assumes "holder s t p i"
  shows "\<not> fd_bad (int i) s" "d_type (fds s ! nat (int i)) = t" "pipe_id (fds s ! nat (int i)) = p"
  using assms by (simp_all add: holder_def fd_bad_def)

lemma pipe_write_spec:
  assumes "fd_ok s" "holder s FD_PIPE_WRITE p w"
  obtains s' where "fd_write (int w) src s = Some (s', int (min (length src) (PIPE_BUF - length (waiting s p))))"
    "fds s' = fds s" "vol s' = vol s" "waiting s' p = waiting s p @ take (PIPE_BUF - length (waiting s p)) src"
    "\<forall>q. q \<noteq> p \<longrightarrow> 0 \<le> q \<longrightarrow> waiting s' q = waiting s q" "fd_ok s'"
proof -
  note d = holder_fd [OF assms(2)]
  let ?q = "pipes s ! nat p"
  have hp: "0 \<le> p" "nat p < PIPE_MAX" "pipe_ok ?q" "p_used ?q"
    using holder_pipe(2-5) [OF assms(1) d(1)] d(2,3) by simp_all
  have open_w: "\<not> write_closed ?q"
    using ends_okD(4) [OF fd_okD(2) [OF assms(1)] hp(2,4)] assms(2) hp(1) by auto
  from pipe_store_spec [OF hp(3), of src] obtain q' n where st: "pipe_store src ?q = (q', n)" "pipe_ok q'"
    "n = min (length src) (PIPE_BUF - length (pipe_live ?q))" "pipe_live q' = pipe_live ?q @ take n src" by blast
  have W: "fd_write (int w) src s = Some (upd_pipe (nat p) (\<lambda>_. q') s, int n)"
    using d open_w st(1) by (simp add: fd_write_def Let_def)
  have L: "nat p < length (pipes s)" using hp(2) fd_okD(1) [OF assms(1)] by (simp add: sizes_ok_def)
  have "take n src = take (PIPE_BUF - length (pipe_live ?q)) src" by (simp add: st(3) min_def)
  with W st L hp(1) fd_write_ok [OF assms(1) W] show ?thesis
    by (intro that [of "upd_pipe (nat p) (\<lambda>_. q') s"]) (auto simp: waiting_def nth_list_update)
qed

lemma pipe_read_spec:
  assumes "fd_ok s" "holder s FD_PIPE_READ p r"
  obtains s' where "fd_read (int r) sz s = Some (s', int (min (unat sz) (length (waiting s p))), take (unat sz) (waiting s p))"
    "fds s' = fds s" "vol s' = vol s" "waiting s' p = drop (unat sz) (waiting s p)"
    "\<forall>q. q \<noteq> p \<longrightarrow> 0 \<le> q \<longrightarrow> waiting s' q = waiting s q" "fd_ok s'"
proof -
  note d = holder_fd [OF assms(2)]
  let ?q = "pipes s ! nat p"
  have hp: "0 \<le> p" "nat p < PIPE_MAX" "pipe_ok ?q"
    using holder_pipe(2-4) [OF assms(1) d(1)] d(2,3) by simp_all
  have small: "to_int (min k (length (waiting s p))) = int (min k (length (waiting s p)))" for k
  proof -
    have "length (waiting s p) \<le> 512" using hp(3) by (simp add: waiting_def pipe_ok_def PIPE_BUF_def)
    then show ?thesis by (intro to_int_small) linarith
  qed
  show ?thesis
  proof (cases "p_count ?q = 0 \<and> write_closed ?q")
    case True
    then have "waiting s p = []" by (simp add: waiting_def flip: length_0_conv)
    moreover have "fd_read (int r) sz s = Some (s, 0, [])" using d True by (simp add: fd_read_def Let_def)
    ultimately show ?thesis using assms(1) by (intro that [of s]) simp_all
  next
    case False
    from pipe_take_spec [OF hp(3), of "unat sz"] obtain q' where tk: "pipe_take (unat sz) ?q = (q', take (unat sz) (pipe_live ?q))"
      "pipe_ok q'" "pipe_live q' = drop (unat sz) (pipe_live ?q)" by blast
    have R: "fd_read (int r) sz s = Some (upd_pipe (nat p) (\<lambda>_. q') s, int (min (unat sz) (length (waiting s p))), take (unat sz) (waiting s p))"
      using d tk(1) small [of "unat sz"] by (simp add: fd_read_def Let_def waiting_def min.commute if_not_P [OF False])
    have L: "nat p < length (pipes s)" using hp(2) fd_okD(1) [OF assms(1)] by (simp add: sizes_ok_def)
    from R tk L hp(1) fd_read_ok [OF assms(1) R] show ?thesis
      by (intro that [of "upd_pipe (nat p) (\<lambda>_. q') s"]) (auto simp: waiting_def nth_list_update)
  qed
qed

text \<open>C27. A pipe refines a first-in first-out queue of at most 512 bytes: in every reachable state a write
  to the write end appends the longest prefix of the data that fits and returns its length, a read from the
  read end removes and returns the oldest bytes, as many as asked for and available (none at all, at once, when the
  pipe is empty, whether or not the writer is still there), and no other pipe, descriptor or file is touched.\<close>
theorem pipe_refines_queue:
  assumes "fd_reach s" "holder s FD_PIPE_WRITE p w" "holder s FD_PIPE_READ p r"
  shows "(\<exists>s1. fd_write (int w) src s = Some (s1, int (min (length src) (PIPE_BUF - length (waiting s p))))
      \<and> waiting s1 p = waiting s p @ take (PIPE_BUF - length (waiting s p)) src
      \<and> (\<forall>q. q \<noteq> p \<longrightarrow> 0 \<le> q \<longrightarrow> waiting s1 q = waiting s q) \<and> fds s1 = fds s \<and> vol s1 = vol s)
    \<and> (\<exists>s2. fd_read (int r) sz s = Some (s2, int (min (unat sz) (length (waiting s p))), take (unat sz) (waiting s p))
      \<and> waiting s2 p = drop (unat sz) (waiting s p)
      \<and> (\<forall>q. q \<noteq> p \<longrightarrow> 0 \<le> q \<longrightarrow> waiting s2 q = waiting s q) \<and> fds s2 = fds s \<and> vol s2 = vol s)"
  using pipe_write_spec [OF fd_reach_ok [OF assms(1)] assms(2), of src]
    pipe_read_spec [OF fd_reach_ok [OF assms(1)] assms(3), of sz] by metis+

text \<open>A pipe opened on a booted table.\<close>

definition io_piped :: io where
  "io_piped = fst (fd_pipe (fd_init io0))"

lemma fd_pipe_fresh:
  assumes "fd_ok s" "fd_pipe s = (s1, Some (r, w))"
  obtains p where "holder s1 FD_PIPE_READ p r" "holder s1 FD_PIPE_WRITE p w" "waiting s1 p = []" "fd_ok s1"
    "r < w" "\<not> d_used (fds s ! r)" "\<not> d_used (fds s ! w)" "0 \<le> p" "alloc_pipe s = Some (nat p)"
proof -
  have L: "length (fds s) = FD_MAX" "length (pipes s) = PIPE_MAX" using assms(1) by (simp_all add: fd_ok_def sizes_ok_def)
  from assms(2) L(1) show ?thesis
  proof (cases rule: fd_pipe_cases)
    case (pair rfd wfd pid)
    have rw: "rfd = r" "wfd = w" using pair(1) by simp_all
    note H = holder_pair [OF L(1) pair(4,5) alloc_fdD(3) [OF pair(3)] pair(6,7)]
    have pid: "pid < PIPE_MAX" using alloc_pipeD [OF pair(2)] by simp
    have "length (p_buf (pipes s ! pid)) = PIPE_BUF"
      using assms(1) pid by (auto simp: fd_ok_def sizes_ok_def list_all_length pipe_ok_def)
    then have "waiting s1 (int pid) = []"
      using pid L(2) pipe_reset_ok [of "pipes s ! pid"] by (simp add: waiting_def H(4))
    with H(1) fd_pipe_ok [OF assms] pair(2,4,6) alloc_fdD(3) [OF pair(3)] rw show ?thesis
      by (intro that [of "int pid"]) simp_all
  qed simp
qed

lemma io0_alloc_pipe: "alloc_pipe (fd_init io0) = Some 0"
  unfolding alloc_pipe_def find_upt_Some_iff by (simp add: fd_init_def io0_def PIPE_MAX_def)

lemma io_piped_pair: "fd_pipe (fd_init io0) = (io_piped, Some (3, 4))"
proof -
  have used: "d_used (fds (fd_init io0) ! i) \<longleftrightarrow> i < 3" if "i < FD_MAX" for i using fd_init_nth [OF that] by simp
  have af: "alloc_fd (fd_init io0) = Some 3"
    unfolding alloc_fd_def find_upt_Some_iff using used by (simp add: FD_MAX_def)
  have "alloc_fd (set_fd 3 d (fd_init io0)) = Some 4" if "d_used d" for d
  proof -
    have "d_used (fds (set_fd 3 d (fd_init io0)) ! i) \<longleftrightarrow> i < 4" if "i < FD_MAX" for i
      using used [OF that] \<open>d_used d\<close> that by (cases "i = 3") (auto simp: fd_init_def)
    from this [of 3] this [of 4] show ?thesis
      unfolding alloc_fd_def find_upt_Some_iff by (auto simp: FD_MAX_def numeral_eq_Suc le_Suc_eq less_Suc_eq)
  qed
  with io0_alloc_pipe af have "snd (fd_pipe (fd_init io0)) = Some (3, 4)" by (simp add: fd_pipe_def Let_def)
  then show ?thesis by (simp add: io_piped_def prod_eq_iff)
qed

lemma pipe_refines_queue_witness:
  "\<exists>s1. fd_write 4 (replicate 600 7) io_piped = Some (s1, 512) \<and> waiting s1 0 = replicate 512 7"
proof -
  have R: "fd_reach io_piped" by (rule fd_reach.do_pipe [OF fd_reach.boot [OF io0_booted] io_piped_pair])
  from fd_pipe_fresh [OF fd_init_ok [OF io0_booted] io_piped_pair]
  obtain p where p: "holder io_piped FD_PIPE_READ p 3" "holder io_piped FD_PIPE_WRITE p 4" "waiting io_piped p = []"
    "0 \<le> p" "alloc_pipe (fd_init io0) = Some (nat p)" .
  have p0: "p = 0" using p(4,5) io0_alloc_pipe by simp
  from pipe_refines_queue [OF R p(2,1), of "replicate 600 7" 0] p(3) show ?thesis
    by (auto simp: p0 PIPE_BUF_def)
qed

end
