(* ===== verification/Libgcc.thy ===== *)
theory Libgcc
  imports Prelude
begin

text \<open>
  \<^verbatim>\<open>kernel/system/libgcc_stubs.cpp\<close>: the 64-bit division that the compiler calls on a 32-bit
  target. The divisor is shifted left until its top bit is set, then the quotient is found bit by
  bit. The routine is shown equivalent to division and remainder of the numbers.
\<close>

text \<open>\<^verbatim>\<open>while ((int64_t)den >= 0)\<close>: both shift while the top bit of \<open>den\<close> is clear; on 0 it would not end.\<close>

partial_function (option) udiv_up :: "u64 \<Rightarrow> u64 \<Rightarrow> (u64 \<times> u64) option" where
  "udiv_up den qbit =
     (if 0 \<le> sint den then udiv_up (push_bit 1 den) (push_bit 1 qbit) else Some (den, qbit))"

text \<open>\<^verbatim>\<open>while (qbit > 0)\<close>; the result is the quotient and the remainder.\<close>

function udiv_down :: "u64 \<Rightarrow> u64 \<Rightarrow> u64 \<Rightarrow> u64 \<Rightarrow> u64 \<times> u64" where
  "udiv_down num den qbit quot =
     (if 0 < qbit
      then let (num', quot') = (if den \<le> num then (num - den, quot + qbit) else (num, quot))
           in udiv_down num' (drop_bit 1 den) (drop_bit 1 qbit) quot'
      else (quot, num))"
  by pat_completeness auto

lemma unat_u64_less: "unat (w :: u64) < 18446744073709551616"
  using unsigned_less [of w] by simp

lemma unat_push_1: "unat (w :: u64) < 9223372036854775808 \<Longrightarrow> unat (w * 2) = 2 * unat w"
  by (simp add: unat_word_ariths(2))

lemma unat_drop_1: "unat (drop_bit (Suc 0) (w :: u64)) = unat w div 2"
  unfolding unat_drop_bit_eq by (simp add: drop_bit_eq_div)

lemma sint_nonneg_iff: "0 \<le> sint (w :: u64) \<longleftrightarrow> unat w < 9223372036854775808"
proof -
  have "sint w < 0 \<longleftrightarrow> bit (unat w) 63" using bit_last_iff [of w] by (simp add: bit_unsigned_iff)
  also have "\<dots> \<longleftrightarrow> odd (unat w div 9223372036854775808)" by (simp add: bit_iff_odd)
  also have "\<dots> \<longleftrightarrow> 9223372036854775808 \<le> unat w"
  proof -
    have "unat w div 9223372036854775808 < 2" using unat_u64_less [of w] by (simp add: less_mult_imp_div_less)
    then have "unat w div 9223372036854775808 = 0 \<or> unat w div 9223372036854775808 = 1" by linarith
    then show ?thesis by (auto simp: div_eq_0_iff)
  qed
  finally show ?thesis by linarith
qed

termination udiv_down
proof (relation "measure (\<lambda>(num, den, qbit, quot). unat qbit)", goal_cases)
  case (2 num den qbit quot p num' quot')
  then have "0 < unat qbit" by (simp add: word_less_nat_alt)
  then show ?case by (simp add: unat_drop_1)
qed simp

declare udiv_down.simps [simp del]

lemma udiv_down_step:
  "0 < qbit \<Longrightarrow> udiv_down num den qbit quot =
     (if den \<le> num then udiv_down (num - den) (drop_bit (Suc 0) den) (drop_bit (Suc 0) qbit) (quot + qbit)
      else udiv_down num (drop_bit (Suc 0) den) (drop_bit (Suc 0) qbit) quot)"
  by (subst udiv_down.simps) simp

text \<open>The quotient and the value stored through \<^verbatim>\<open>rem_p\<close>.\<close>

definition udivmoddi4 :: "u64 \<Rightarrow> u64 \<Rightarrow> (u64 \<times> u64) option" where
  "udivmoddi4 num den =
     (if den = 0 then Some (0, 0)
      else map_option (\<lambda>(den', qbit). udiv_down num den' qbit 0) (udiv_up den 1))"

definition udivdi3 :: "u64 \<Rightarrow> u64 \<Rightarrow> u64 option" where
  "udivdi3 num den = map_option fst (udivmoddi4 num den)"

definition umoddi3 :: "u64 \<Rightarrow> u64 \<Rightarrow> u64 option" where
  "umoddi3 num den = map_option snd (udivmoddi4 num den)"

lemma udiv_up_spec:
  assumes "unat den = D * 2 ^ k" "unat qbit = 2 ^ k" "0 < D" "k < 64"
  shows "\<exists>j den' qbit'. udiv_up den qbit = Some (den', qbit') \<and> unat den' = D * 2 ^ j \<and> unat qbit' = 2 ^ j
     \<and> 9223372036854775808 \<le> unat den'"
  using assms
proof (induction "64 - k" arbitrary: den qbit k rule: less_induct)
  case less
  show ?case
  proof (cases "unat den < 9223372036854775808")
    case False
    with less.prems show ?thesis by (subst udiv_up.simps) (auto simp: sint_nonneg_iff)
  next
    case True
    have "2 ^ k \<le> D * 2 ^ k" using less.prems(3) by simp
    also have "\<dots> < 2 ^ 63" using True less.prems(1) by simp
    finally have k: "k < 63" using power_less_imp_less_exp [of "2::nat" k 63] by simp
    then have "(2::nat) ^ k < 2 ^ 63" by (rule power_strict_increasing) simp
    then have q: "unat qbit < 9223372036854775808" using less.prems(2) by simp
    have dec: "64 - Suc k < 64 - k" using k by linarith
    from less.hyps [OF dec, of "push_bit 1 den" "push_bit 1 qbit"] k less.prems True q
    obtain j den' qbit' where "udiv_up (push_bit 1 den) (push_bit 1 qbit) = Some (den', qbit')"
      "unat den' = D * 2 ^ j" "unat qbit' = 2 ^ j" "9223372036854775808 \<le> unat den'"
      by (auto simp: unat_push_1)
    with True show ?thesis by (subst udiv_up.simps) (auto simp: sint_nonneg_iff)
  qed
qed

lemma div_mod_step:
  assumes "0 < (D :: nat)" "E * D \<le> n"
  shows "n div D = E + (n - E * D) div D" "n mod D = (n - E * D) mod D"
proof -
  have "n = (n - E * D) + E * D" using assms(2) by simp
  then have "n div D = (n - E * D + E * D) div D" "n mod D = (n - E * D + E * D) mod D" by simp_all
  with assms(1) show "n div D = E + (n - E * D) div D" "n mod D = (n - E * D) mod D" by simp_all
qed

lemma udiv_down_spec:
  assumes "unat den = D * 2 ^ j" "unat qbit = 2 ^ j" "0 < D" "unat num < D * 2 ^ Suc j"
    "unat quot + unat num div D < 18446744073709551616"
  shows "unat (fst (udiv_down num den qbit quot)) = unat quot + unat num div D
     \<and> unat (snd (udiv_down num den qbit quot)) = unat num mod D"
  using assms
proof (induction j arbitrary: num den qbit quot)
  case 0
  have stop: "udiv_down n d (drop_bit (Suc 0) qbit) r = (r, n)" for n d r
  proof -
    have "drop_bit (Suc 0) qbit = 0" using 0(2) by (simp add: unat_drop_1 flip: unat_eq_0)
    then show ?thesis by (simp add: udiv_down.simps)
  qed
  have q: "0 < qbit" using 0(2) by (simp add: word_less_nat_alt)
  show ?case
  proof (cases "den \<le> num")
    case True
    then have le: "D \<le> unat num" using 0(1) by (simp add: word_le_nat_alt)
    then have dm: "unat num div D = 1" "unat num mod D = unat num - D"
      using 0(3,4) div_mod_step [of D 1 "unat num"] by (simp_all add: le_mod_geq)
    have "unat (quot + qbit) = unat quot + 1" using 0(2,5) dm by (simp add: unat_word_ariths(1))
    moreover have "unat (num - den) = unat num - D" using True 0(1) by (simp add: unat_sub word_le_nat_alt)
    ultimately show ?thesis using True q dm by (simp add: udiv_down_step stop)
  next
    case False
    then have "unat num < D" using 0(1) by (simp add: word_le_nat_alt)
    with False q show ?thesis by (simp add: udiv_down_step stop)
  qed
next
  case (Suc j)
  have h: "unat (drop_bit (Suc 0) den) = D * 2 ^ j" "unat (drop_bit (Suc 0) qbit) = 2 ^ j"
    using Suc.prems(1,2) by (simp_all add: unat_drop_1)
  have q: "0 < qbit" using Suc.prems(2) by (simp add: word_less_nat_alt)
  show ?case
  proof (cases "den \<le> num")
    case True
    then have le: "2 ^ Suc j * D \<le> unat num" using Suc.prems(1) by (simp add: word_le_nat_alt mult.commute)
    note dm = div_mod_step [OF Suc.prems(3) le]
    have n: "unat (num - den) = unat num - 2 ^ Suc j * D" using True Suc.prems(1)
      by (simp add: unat_sub word_le_nat_alt mult.commute)
    have r: "unat (quot + qbit) = unat quot + 2 ^ Suc j"
      using Suc.prems(2,5) dm(1) by (simp add: unat_word_ariths(1))
    have "unat (num - den) < D * 2 ^ Suc j" using Suc.prems(4) n by (simp add: mult.commute)
    moreover have "unat (quot + qbit) + unat (num - den) div D < 18446744073709551616"
      using Suc.prems(5) dm(1) n r by simp
    ultimately have "unat (fst (udiv_down (num - den) (drop_bit (Suc 0) den) (drop_bit (Suc 0) qbit) (quot + qbit))) = unat quot + unat num div D
      \<and> unat (snd (udiv_down (num - den) (drop_bit (Suc 0) den) (drop_bit (Suc 0) qbit) (quot + qbit))) = unat num mod D"
      using Suc.IH [OF h Suc.prems(3), of "num - den" "quot + qbit"] n r dm by simp
    with True q show ?thesis by (simp add: udiv_down_step)
  next
    case False
    then have "unat num < D * 2 ^ Suc j" using Suc.prems(1) by (simp add: word_le_nat_alt)
    from Suc.IH [OF h Suc.prems(3) this Suc.prems(5)] False q show ?thesis
      by (simp add: udiv_down_step)
  qed
qed

text \<open>C28. The 64-bit division stub is division: for every dividend and every non-zero divisor \<^verbatim>\<open>__udivmoddi4\<close>
  returns (its normalising loop ends), its result is the quotient and what it stores is the remainder, so
  \<^verbatim>\<open>__udivdi3\<close> and \<^verbatim>\<open>__umoddi3\<close> are \<open>div\<close> and \<open>mod\<close>; for divisor 0 all of them give 0.\<close>
theorem udivmoddi4_correct:
  "udivmoddi4 num den = Some (if den = 0 then (0, 0) else (num div den, num mod den))
   \<and> udivdi3 num den = Some (if den = 0 then 0 else num div den)
   \<and> umoddi3 num den = Some (if den = 0 then 0 else num mod den)"
proof -
  have "udivmoddi4 num den = Some (num div den, num mod den)" if "den \<noteq> 0"
  proof -
    have D: "0 < unat den" using that by (simp add: unat_gt_0)
    from udiv_up_spec [of den "unat den" 0 1] D obtain j den' qbit' where
      u: "udiv_up den 1 = Some (den', qbit')" "unat den' = unat den * 2 ^ j" "unat qbit' = 2 ^ j"
        "9223372036854775808 \<le> unat den'" by auto
    have "unat num < unat den * 2 ^ Suc j" using unat_u64_less [of num] u(2,4) by simp
    moreover have "unat num div unat den < 18446744073709551616"
      using div_le_dividend [of "unat num" "unat den"] unat_u64_less [of num] by linarith
    ultimately have d: "unat (fst (udiv_down num den' qbit' 0)) = unat num div unat den"
      "unat (snd (udiv_down num den' qbit' 0)) = unat num mod unat den"
      using udiv_down_spec [OF u(2,3) D, of num 0] by (simp_all)
    then have "udiv_down num den' qbit' 0 = (num div den, num mod den)"
      by (simp add: prod_eq_iff word_unat_eq_iff unat_div unat_mod)
    with that u(1) show ?thesis by (simp add: udivmoddi4_def)
  qed
  then show ?thesis by (simp add: udivdi3_def umoddi3_def) (simp add: udivmoddi4_def)
qed

end
