(* ===== verification/Klib_Str.thy ===== *)
theory Klib_Str
  imports Chars Bytes "HOL-Library.Sublist"
begin

text \<open>
  \<^verbatim>\<open>kernel/klib/str.h\<close>. A C string argument is the list of its bytes without the NUL; a
  destination buffer is the memory from the pointer on, with the NUL. A returned pointer into the
  string is an offset.
\<close>

definition I32_MAX :: int where "I32_MAX = 2147483647"
definition I32_MIN :: int where "I32_MIN = -2147483648"
definition U32_MAX :: u32 where "U32_MAX = 0xFFFFFFFF"

definition str_len :: "u8 list \<Rightarrow> nat" where
  "str_len s = length s"

text \<open>\<^verbatim>\<open>while (*a && *a == *b) { a++; b++; }\<close>, at most \<open>n\<close> times in the second form.\<close>

fun str_skip :: "u8 list \<Rightarrow> u8 list \<Rightarrow> u8 list \<times> u8 list" where
  "str_skip [] b = ([], b)"
| "str_skip (c # a) b = (if c = chr0 b then str_skip a (tl b) else (c # a, b))"

fun str_nskip :: "nat \<Rightarrow> u8 list \<Rightarrow> u8 list \<Rightarrow> nat \<times> u8 list \<times> u8 list" where
  "str_nskip 0 a b = (0, a, b)"
| "str_nskip (Suc n) [] b = (Suc n, [], b)"
| "str_nskip (Suc n) (c # a) b = (if c = chr0 b then str_nskip n a (tl b) else (Suc n, c # a, b))"

definition str_eq :: "u8 list \<Rightarrow> u8 list \<Rightarrow> bool" where
  "str_eq a b = (let (a', b') = str_skip a b in chr0 a' = chr0 b')"

definition str_cmp :: "u8 list \<Rightarrow> u8 list \<Rightarrow> int" where
  "str_cmp a b = (let (a', b') = str_skip a b in uint (chr0 a') - uint (chr0 b'))"

definition str_ncmp :: "u8 list \<Rightarrow> u8 list \<Rightarrow> u32 \<Rightarrow> int" where
  "str_ncmp a b n =
     (let (k, a', b') = str_nskip (unat n) a b in if k = 0 then 0 else uint (chr0 a') - uint (chr0 b'))"

definition str_copy :: "u8 list \<Rightarrow> u8 list \<Rightarrow> u32 \<Rightarrow> u8 list \<times> nat" where
  "str_copy dst src cap =
     (if cap = 0 then (dst, 0)
      else let i = min (unat (cap - 1)) (length src) in (splice 0 (take i src @ [0]) dst, i))"

definition str_cat :: "u8 list \<Rightarrow> u8 list \<Rightarrow> u32 \<Rightarrow> u8 list \<times> nat" where
  "str_cat dst src cap =
     (let i = length (cstr dst); n = min (unat (cap - 1) - i) (length src)
      in (splice i (take n src @ [0]) dst, i + n))"

fun str_starts :: "u8 list \<Rightarrow> u8 list \<Rightarrow> bool" where
  "str_starts s [] = True"
| "str_starts s (p # ps) = (if chr0 s \<noteq> p then False else str_starts (tl s) ps)"

definition str_ends :: "u8 list \<Rightarrow> u8 list \<Rightarrow> bool" where
  "str_ends s x =
     (let sl = str_len s; xl = str_len x in if sl < xl then False else str_eq (drop (sl - xl) s) x)"

fun str_find :: "u8 list \<Rightarrow> u8 \<Rightarrow> nat option" where
  "str_find [] c = None"
| "str_find (x # s) c = (if x = c then Some 0 else map_option Suc (str_find s c))"

fun rfind_loop :: "nat \<Rightarrow> nat option \<Rightarrow> u8 list \<Rightarrow> u8 \<Rightarrow> nat option" where
  "rfind_loop i r [] c = r"
| "rfind_loop i r (x # s) c = rfind_loop (i + 1) (if x = c then Some i else r) s c"

definition str_rfind :: "u8 list \<Rightarrow> u8 \<Rightarrow> nat option" where
  "str_rfind s c = rfind_loop 0 None s c"

definition str_empty :: "u8 list option \<Rightarrow> bool" where
  "str_empty s = (case s of None \<Rightarrow> True | Some t \<Rightarrow> chr0 t = 0)"

definition str_upper :: "u8 list \<Rightarrow> u8 list" where
  "str_upper s = map (\<lambda>c. if 0x61 \<le> c \<and> c \<le> 0x7A then c - 32 else c) s"

definition str_lower :: "u8 list \<Rightarrow> u8 list" where
  "str_lower s = map (\<lambda>c. if 0x41 \<le> c \<and> c \<le> 0x5A then c + 32 else c) s"

fun str_count :: "u8 list \<Rightarrow> u8 \<Rightarrow> nat" where
  "str_count [] c = 0"
| "str_count (x # s) c = (if x = c then 1 else 0) + str_count s c"

text \<open>
  The last multiplication by the sign wraps: it leaves the range of \<^verbatim>\<open>int\<close> when the loop saturates at
  \<^verbatim>\<open>I32_MIN\<close>, where C leaves the result open and the processor's product is modelled.
\<close>

fun to_int_loop :: "u8 list \<Rightarrow> int \<Rightarrow> int \<Rightarrow> int" where
  "to_int_loop [] n sign = n"
| "to_int_loop (c # s) n sign =
     (if is_digit c
      then let d = uint c - 48 in
           if (I32_MAX - d) div 10 < n then (if sign = 1 then I32_MAX else I32_MIN)
           else to_int_loop s (n * 10 + d) sign
      else n)"

definition str_to_int :: "u8 list \<Rightarrow> int" where
  "str_to_int s =
     (let (sign, t) = (if chr0 s = 0x2D then (-1, tl s) else (1, s))
      in sint (word_of_int (to_int_loop t 0 sign * sign) :: u32))"

definition hex_digit :: "u8 \<Rightarrow> u32 option" where
  "hex_digit c =
     (if 0x30 \<le> c \<and> c \<le> 0x39 then Some (ucast c - 0x30)
      else if 0x61 \<le> c \<and> c \<le> 0x66 then Some (ucast c - 0x61 + 10)
      else if 0x41 \<le> c \<and> c \<le> 0x46 then Some (ucast c - 0x41 + 10)
      else None)"

fun to_hex_loop :: "u8 list \<Rightarrow> u32 \<Rightarrow> u32" where
  "to_hex_loop [] n = n"
| "to_hex_loop (c # s) n =
     (case hex_digit c of
        None \<Rightarrow> n
      | Some d \<Rightarrow> if (U32_MAX - d) div 16 < n then U32_MAX else to_hex_loop s (n * 16 + d))"

definition str_to_hex :: "u8 list \<Rightarrow> u32" where
  "str_to_hex s =
     (let t = (if chr0 s = 0x30 \<and> (chr0 (tl s) = 0x78 \<or> chr0 (tl s) = 0x58) then drop 2 s else s)
      in to_hex_loop t 0)"

subsection \<open>Comparison\<close>

lemma str_skip_spec:
  "0 \<notin> set a \<Longrightarrow> 0 \<notin> set b \<Longrightarrow> str_skip a b = (a', b') \<Longrightarrow> a = b \<longleftrightarrow> chr0 a' = chr0 b'"
proof (induction a b rule: str_skip.induct)
  case (1 b)
  then show ?case by (cases b) auto
next
  case (2 c a b)
  then show ?case by (cases b) (auto split: if_splits)
qed

lemma str_eq_spec: "0 \<notin> set a \<Longrightarrow> 0 \<notin> set b \<Longrightarrow> str_eq a b \<longleftrightarrow> a = b"
  using str_skip_spec [of a b] by (cases "str_skip a b") (simp add: str_eq_def)

lemma str_cmp_zero: "0 \<notin> set a \<Longrightarrow> 0 \<notin> set b \<Longrightarrow> str_cmp a b = 0 \<longleftrightarrow> a = b"
  using str_skip_spec [of a b] by (cases "str_skip a b") (simp add: str_cmp_def word_uint_eq_iff)

lemma str_starts_spec: "0 \<notin> set p \<Longrightarrow> str_starts s p \<longleftrightarrow> prefix p s"
proof (induction s p rule: str_starts.induct)
  case (2 s c ps)
  then show ?case by (cases s) auto
qed simp

lemma str_ends_spec:
  assumes "0 \<notin> set s" "0 \<notin> set x"
  shows "str_ends s x \<longleftrightarrow> suffix x s"
proof -
  have "0 \<notin> set (drop n s)" for n using assms(1) by (meson in_set_dropD)
  then have "str_ends s x \<longleftrightarrow> length x \<le> length s \<and> drop (length s - length x) s = x"
    using assms(2) by (auto simp: str_ends_def str_len_def Let_def str_eq_spec)
  also have "\<dots> \<longleftrightarrow> suffix x s"
    unfolding suffix_def by (metis add_diff_cancel_right' append_eq_conv_conj append_take_drop_id le_add2 length_append)
  finally show ?thesis .
qed

subsection \<open>Bounded copies\<close>

text \<open>\<^verbatim>\<open>str_copy\<close> never writes at or past \<open>cap\<close> and terminates what it copies.\<close>

lemma str_copy_spec:
  assumes "0 < cap" "unat cap \<le> length dst" "0 \<notin> set src"
  shows "cstr (fst (str_copy dst src cap)) = take (unat cap - 1) src"
    "snd (str_copy dst src cap) = length (take (unat cap - 1) src)"
    "drop (unat cap) (fst (str_copy dst src cap)) = drop (unat cap) dst"
proof -
  let ?i = "min (unat (cap - 1)) (length src)"
  have cap: "unat (cap - 1) = unat cap - 1" "0 < unat cap" using assms(1) by (simp_all add: unat_sub_if' word_less_nat_alt)
  have r: "str_copy dst src cap = (take ?i src @ 0 # drop (?i + 1) dst, ?i)"
    using assms(1,2) cap by (auto simp: str_copy_def Let_def splice_def)
  have "0 \<notin> set (take ?i src)" using assms(3) by (meson in_set_takeD)
  then show "cstr (fst (str_copy dst src cap)) = take (unat cap - 1) src" by (simp add: r cap min_def)
  show "snd (str_copy dst src cap) = length (take (unat cap - 1) src)" by (simp add: r cap)
  show "drop (unat cap) (fst (str_copy dst src cap)) = drop (unat cap) dst"
    using cap assms(1,2) by (auto simp: str_copy_def Let_def intro!: drop_splice)
qed

text \<open>
  \<^verbatim>\<open>str_cat\<close> has no such guard: with \<open>cap = 0\<close> the bound \<open>cap - 1\<close> wraps around and the whole source is
  written.
\<close>

lemma str_cat_spec:
  assumes "length (cstr dst) < unat cap" "unat cap \<le> length dst" "0 \<notin> set src"
  shows "cstr (fst (str_cat dst src cap)) = take (unat cap - 1) (cstr dst @ src)"
    "drop (unat cap) (fst (str_cat dst src cap)) = drop (unat cap) dst"
proof -
  let ?l = "length (cstr dst)" and ?n = "min (unat (cap - 1) - length (cstr dst)) (length src)"
  have "cap \<noteq> 0" using assms(1) by auto
  then have cap: "unat (cap - 1) = unat cap - 1" "0 < unat cap"
    by (simp_all add: unat_sub_if' unat_gt_0 Suc_le_eq)
  have pre: "take ?l dst = cstr dst" by (metis cstr_def takeWhile_eq_take)
  have r: "fst (str_cat dst src cap) = (cstr dst @ take ?n src) @ 0 # drop (?l + ?n + 1) dst"
    by (simp add: str_cat_def Let_def splice_def pre)
  have "0 \<notin> set (cstr dst)" by (auto simp: cstr_def dest: set_takeWhileD)
  moreover have "0 \<notin> set (take ?n src)" using assms(3) by (meson in_set_takeD)
  ultimately have "cstr (fst (str_cat dst src cap)) = cstr dst @ take ?n src" unfolding r by (intro cstr_no_nul) simp
  then show "cstr (fst (str_cat dst src cap)) = take (unat cap - 1) (cstr dst @ src)" using assms(1) by (simp add: cap min_def)
  show "drop (unat cap) (fst (str_cat dst src cap)) = drop (unat cap) dst"
    using cap assms(1,2) by (auto simp: str_cat_def Let_def intro!: drop_splice)
qed

lemma str_cat_cap0: "cstr dst = [] \<Longrightarrow> length src < 4294967295 \<Longrightarrow> str_cat dst src 0 = (splice 0 (src @ [0]) dst, length src)"
proof -
  have "unat (-1 :: u32) = 4294967295" by (simp add: unsigned_minus_1_eq_mask mask_eq_exp_minus_1)
  then show "cstr dst = [] \<Longrightarrow> length src < 4294967295 \<Longrightarrow> str_cat dst src 0 = (splice 0 (src @ [0]) dst, length src)"
    by (simp add: str_cat_def Let_def)
qed

subsection \<open>Numbers\<close>

lemma to_int_loop_spec:
  assumes "0 \<le> n" "n \<le> I32_MAX"
  shows "to_int_loop s n sign =
     (let v = dec_val n (takeWhile is_digit s) in if v \<le> I32_MAX then v else if sign = 1 then I32_MAX else I32_MIN)"
  using assms
proof (induction s arbitrary: n)
  case (Cons c s)
  show ?case
  proof (cases "is_digit c")
    case True
    let ?d = "uint c - 48"
    have d: "0 \<le> ?d" "?d \<le> 9" using is_digit_uint [OF True] by simp_all
    have ov: "(I32_MAX - ?d) div 10 < n \<longleftrightarrow> I32_MAX < n * 10 + ?d" unfolding I32_MAX_def by presburger
    show ?thesis
    proof (cases "I32_MAX < n * 10 + ?d")
      case big: True
      have "n * 10 + ?d \<le> dec_val (n * 10 + ?d) (takeWhile is_digit s)"
        using Cons.prems d by (intro dec_val_ge) (auto simp: list_all_iff dest: set_takeWhileD)
      with big True ov show ?thesis by (simp add: Let_def)
    next
      case False
      with Cons.IH [of "n * 10 + ?d"] Cons.prems True ov d show ?thesis by (simp add: Let_def)
    qed
  qed (use Cons.prems in \<open>simp add: Let_def\<close>)
qed (simp add: Let_def)

lemma sint_of_int_32: "- 2147483648 \<le> x \<Longrightarrow> x < 2147483648 \<Longrightarrow> sint (word_of_int x :: u32) = x"
  by (simp add: sint_sbintrunc' signed_take_bit_int_eq_self)

lemma str_to_int_clamp:
  "str_to_int s =
     (let (sign, t) = (if chr0 s = 0x2D then (-1, tl s) else (1, s))
      in max I32_MIN (min I32_MAX (sign * dec_val 0 (takeWhile is_digit t))))"
proof -
  have v: "0 \<le> dec_val 0 (takeWhile is_digit t)" for t
    by (rule dec_val_ge) (auto simp: list_all_iff dest: set_takeWhileD)
  have m: "sint (word_of_int (I32_MIN * -1) :: u32) = I32_MIN" by (simp add: I32_MIN_def)
  have pos: "sint (word_of_int (to_int_loop t 0 1 * 1) :: u32) = max I32_MIN (min I32_MAX (dec_val 0 (takeWhile is_digit t)))" for t
    using v [of t] by (simp add: to_int_loop_spec I32_MAX_def I32_MIN_def Let_def sint_of_int_32)
  have neg: "sint (word_of_int (to_int_loop t 0 (-1) * -1) :: u32) = max I32_MIN (min I32_MAX (-1 * dec_val 0 (takeWhile is_digit t)))" for t
  proof (cases "dec_val 0 (takeWhile is_digit t) \<le> I32_MAX")
    case True
    then show ?thesis using v [of t] sint_of_int_32 [of "- dec_val 0 (takeWhile is_digit t)"]
      by (simp add: to_int_loop_spec I32_MAX_def I32_MIN_def Let_def)
  next
    case False
    then have "to_int_loop t 0 (-1) = I32_MIN" by (simp add: to_int_loop_spec Let_def I32_MAX_def)
    with False m show ?thesis by (simp add: I32_MAX_def I32_MIN_def)
  qed
  show ?thesis unfolding str_to_int_def Let_def using pos [of s] neg [of "tl s"] by simp
qed

text \<open>\<^verbatim>\<open>str_to_int\<close> returns the decimal number at the start of the string, clamped to the range of a 32-bit
  integer: an optional minus sign, then digits up to the first other character; no digits give 0. The
  saturation is right on both sides, \<^verbatim>\<open>-2147483648\<close> included.\<close>
theorem str_to_int_spec:
  "str_to_int s =
     (let (sign, t) = (if chr0 s = 0x2D then (-1, tl s) else (1, s))
      in max I32_MIN (min I32_MAX (sign * dec_val 0 (takeWhile is_digit t))))"
  by (rule str_to_int_clamp)

end
