(* ===== verification/Printf.thy ===== *)
theory Printf
  imports Klib_Str
begin

text \<open>
  \<^verbatim>\<open>kernel/klib/printf.hpp\<close>: \<^verbatim>\<open>kvsprintf\<close> with its digit conversion, padding and the bounded buffer.
  The variable arguments are a list of the values pushed; taking one of another kind than was passed is
  undefined in C and \<open>None\<close> here, as is reading past the end of the format.
\<close>

datatype karg = Arg32 u32 | Arg64 u64 | ArgStr "u8 list option"

subsection \<open>The output buffer\<close>

text \<open>
  \<^verbatim>\<open>_kputc\<close>: the position counts on when the buffer is full. It is an \<^verbatim>\<open>int\<close>, and counting it beyond the
  largest one is undefined in C, \<open>None\<close> here: on the machine it becomes negative, passes the test against
  the capacity again and the character is stored in front of the buffer.
\<close>

definition int_max :: nat where
  "int_max = 2147483647"

definition kputc :: "nat \<Rightarrow> u8 \<Rightarrow> u8 list \<times> nat \<Rightarrow> (u8 list \<times> nat) option" where
  "kputc cap c = (\<lambda>(buf, pos).
     if pos < int_max then Some (if pos < cap then buf[pos := c] else buf, pos + 1) else None)"

primrec kputc_all :: "nat \<Rightarrow> u8 list \<Rightarrow> u8 list \<times> nat \<Rightarrow> (u8 list \<times> nat) option" where
  "kputc_all cap [] st = Some st"
| "kputc_all cap (c # cs) st = Option.bind (kputc cap c st) (kputc_all cap cs)"

text \<open>The characters \<^verbatim>\<open>_kputs\<close> puts: the text, padded on one side to the width.\<close>

definition kfield :: "u8 list \<Rightarrow> nat \<Rightarrow> bool \<Rightarrow> u8 \<Rightarrow> u8 list" where
  "kfield s width left_align pad =
     (if \<not> left_align then replicate (width - length s) pad else []) @ s
     @ (if left_align then replicate (width - length s) 0x20 else [])"

definition kputs ::
  "nat \<Rightarrow> u8 list \<Rightarrow> nat \<Rightarrow> bool \<Rightarrow> u8 \<Rightarrow> u8 list \<times> nat \<Rightarrow> (u8 list \<times> nat) option" where
  "kputs cap s width left_align pad st = kputc_all cap (kfield s width left_align pad) st"

subsection \<open>Digits\<close>

definition digit_char :: "bool \<Rightarrow> nat \<Rightarrow> u8" where
  "digit_char upper d = (if d < 10 then 0x30 + word_of_nat d else (if upper then 0x41 else 0x61) + word_of_nat d - 10)"

text \<open>
  The loop of \<^verbatim>\<open>_kfmt_ull\<close>: the digits, lowest first. The base is 10 or 16 in every call; on base 1
  the loop of the code would not end.
\<close>

function kdigits :: "u64 \<Rightarrow> u64 \<Rightarrow> bool \<Rightarrow> u8 list" where
  "kdigits val base upper =
     (if val \<noteq> 0 \<and> 1 < base then digit_char upper (unat (val mod base)) # kdigits (val div base) base upper else [])"
  by pat_completeness auto
termination
proof (relation "measure (\<lambda>(val, base, upper). unat val)", goal_cases)
  case (2 val base upper)
  then have "0 < unat val" "1 < unat base" by (auto simp: unat_gt_0 word_less_nat_alt)
  then show ?case by (simp add: unat_div)
qed simp

definition kfmt_ull :: "u64 \<Rightarrow> u64 \<Rightarrow> bool \<Rightarrow> u8 list" where
  "kfmt_ull val base upper = (if val = 0 then [0x30] else rev (kdigits val base upper))"

definition kfmt_ll :: "u64 \<Rightarrow> u8 list" where
  "kfmt_ll val =
     (if val <s 0 then 0x2D # kfmt_ull (- (val + 1) + 1) 10 False else kfmt_ull val 10 False)"

subsection \<open>Directives\<close>

definition sext :: "u32 \<Rightarrow> u64" where
  "sext w = scast w"

text \<open>
  The conversion after flags, width and length have been read: the characters put and the arguments
  left. \<^verbatim>\<open>c = 0\<close> stands for the end of the format.
\<close>

definition kconv :: "u8 \<Rightarrow> bool \<Rightarrow> nat \<Rightarrow> bool \<Rightarrow> u8 \<Rightarrow> karg list \<Rightarrow> (u8 list \<times> karg list) option" where
  "kconv c ll width left_align pad args =
     (let field = (\<lambda>s. kfield s width left_align pad);
          num = (\<lambda>f32 f64. case args of
                    Arg32 v # r \<Rightarrow> if ll then None else Some (field (f32 v), r)
                  | Arg64 v # r \<Rightarrow> if ll then Some (field (f64 v), r) else None
                  | _ \<Rightarrow> None)
      in
      if c = ch CHR ''d'' \<or> c = ch CHR ''i'' then num (\<lambda>v. kfmt_ll (sext v)) kfmt_ll
      else if c = ch CHR ''u'' then num (\<lambda>v. kfmt_ull (ucast v) 10 False) (\<lambda>v. kfmt_ull v 10 False)
      else if c = ch CHR ''x'' then num (\<lambda>v. kfmt_ull (ucast v) 16 False) (\<lambda>v. kfmt_ull v 16 False)
      else if c = ch CHR ''X'' then num (\<lambda>v. kfmt_ull (ucast v) 16 True) (\<lambda>v. kfmt_ull v 16 True)
      else if c = ch CHR ''s'' then
        (case args of
           ArgStr p # r \<Rightarrow>
             Some (kfield (case p of None \<Rightarrow> bytes ''(null)'' | Some s \<Rightarrow> s) width left_align 0x20, r)
         | _ \<Rightarrow> None)
      else if c = ch CHR ''c'' then (case args of Arg32 v # r \<Rightarrow> Some ([ucast v], r) | _ \<Rightarrow> None)
      else if c = 0x25 then Some ([0x25], args)
      else Some ([0x25, c], args))"

text \<open>
  Flags, width and length modifier of a directive, and the format from the conversion on. The width is an
  \<^verbatim>\<open>int\<close> too: \<open>None\<close> when its digits take it beyond the largest one (the value only grows with every digit,
  so it is enough to look at the last).
\<close>

definition kparse :: "u8 list \<Rightarrow> (bool \<times> u8 \<times> nat \<times> bool \<times> u8 list) option" where
  "kparse fmt =
     (let (left_align, f1) = (if chr0 fmt = 0x2D then (True, tl fmt) else (False, fmt));
          (pad, f2) = (if chr0 f1 = 0x30 then (0x30, tl f1) else (0x20, f1));
          width = nat (dec_val 0 (takeWhile is_digit f2));
          f3 = dropWhile is_digit f2;
          (ll, f4) = (if chr0 f3 = ch CHR ''l''
                      then if chr0 (tl f3) = ch CHR ''l'' then (True, tl (tl f3)) else (False, tl f3)
                      else (False, f3))
      in if width \<le> int_max then Some (left_align, pad, width, ll, f4) else None)"

lemma length_kparse:
  assumes "kparse fmt = Some (a, b, c, d, f4)"
  shows "length f4 \<le> length fmt"
proof -
  have d: "length (dropWhile is_digit f) \<le> length f" for f by (rule length_dropWhile_le)
  from d [of fmt] d [of "tl fmt"] d [of "tl (tl fmt)"]
  have "length (dropWhile is_digit fmt) \<le> length fmt" "length (dropWhile is_digit (tl fmt)) \<le> length fmt"
    "length (dropWhile is_digit (tl (tl fmt))) \<le> length fmt" by simp_all
  with assms show ?thesis unfolding kparse_def Let_def by (auto split: if_splits)
qed

function kformat_loop :: "nat \<Rightarrow> u8 list \<Rightarrow> karg list \<Rightarrow> u8 list \<times> nat \<Rightarrow> (u8 list \<times> nat) option" where
  "kformat_loop cap fmt args st =
     (if fmt = [] \<or> \<not> snd st < cap - 1 then Some st
      else if hd fmt \<noteq> 0x25 then
        (case kputc cap (hd fmt) st of None \<Rightarrow> None | Some st' \<Rightarrow> kformat_loop cap (tl fmt) args st')
      else case kparse (tl fmt) of
             None \<Rightarrow> None
           | Some (left_align, pad, width, ll, f4) \<Rightarrow>
               (case kconv (chr0 f4) ll width left_align pad args of
                  None \<Rightarrow> None
                | Some (body, args') \<Rightarrow>
                    if f4 = [] then None
                    else case kputc_all cap body st of
                           None \<Rightarrow> None
                         | Some st' \<Rightarrow> kformat_loop cap (tl f4) args' st'))"
  by pat_completeness auto
termination
proof (relation "measure (\<lambda>(cap, fmt, args, st). length fmt)", goal_cases)
  case (3 cap fmt args st p left y pad z width v ll f4 q body args' st')
  then have "length f4 \<le> length (tl fmt)" using length_kparse [of "tl fmt"] by metis
  with 3 show ?case by (cases fmt) (auto simp: Suc_le_eq intro: le_less_trans [OF diff_le_self])
qed auto

definition kvsprintf :: "u8 list \<Rightarrow> int \<Rightarrow> u8 list \<Rightarrow> karg list \<Rightarrow> (u8 list \<times> nat) option" where
  "kvsprintf buf cap fmt args =
     (if cap \<le> 0 then Some (buf, 0)
      else map_option (\<lambda>(b, pos). (if pos < nat cap then b[pos := 0] else b[nat cap - 1 := 0], pos))
             (kformat_loop (nat cap) fmt args (buf, 0)))"

definition ksprintf :: "u8 list \<Rightarrow> u8 list \<Rightarrow> karg list \<Rightarrow> (u8 list \<times> nat) option" where
  "ksprintf buf fmt args = kvsprintf buf 0x7FFFFFFF fmt args"

definition ksnprintf :: "u8 list \<Rightarrow> int \<Rightarrow> u8 list \<Rightarrow> karg list \<Rightarrow> (u8 list \<times> nat) option" where
  "ksnprintf buf cap fmt args = kvsprintf buf cap fmt args"

subsection \<open>The buffer\<close>

text \<open>\<open>filled b0 cap out\<close>: the buffer \<open>b0\<close> of capacity \<open>cap\<close> after the characters \<open>out\<close> have been put.\<close>

definition filled :: "u8 list \<Rightarrow> nat \<Rightarrow> u8 list \<Rightarrow> u8 list \<times> nat" where
  "filled b0 cap out = (take cap out @ drop (min (length out) cap) b0, length out)"

lemma kputc_filled:
  assumes "cap \<le> length b0" "length out < int_max"
  shows "kputc cap c (filled b0 cap out) = Some (filled b0 cap (out @ [c]))"
proof (cases "length out < cap")
  case True
  then obtain x xs where "drop (length out) b0 = x # xs" using assms by (metis Cons_nth_drop_Suc order_less_le_trans)
  moreover from this have "drop (Suc (length out)) b0 = xs" by (metis drop_Suc list.sel(3) tl_drop)
  ultimately show ?thesis using True assms(2) by (simp add: kputc_def filled_def list_update_append)
next
  case False
  then show ?thesis using assms(2) by (simp add: kputc_def filled_def)
qed

lemma kputc_all_filled:
  "\<lbrakk>cap \<le> length b0; length out + length body \<le> int_max\<rbrakk>
   \<Longrightarrow> kputc_all cap body (filled b0 cap out) = Some (filled b0 cap (out @ body))"
  by (induction body arbitrary: out) (simp_all add: kputc_filled)

lemma kputc_all_overflow:
  "\<lbrakk>pos \<le> int_max; int_max < pos + length body\<rbrakk> \<Longrightarrow> kputc_all cap body (buf, pos) = None"
proof (induction body arbitrary: buf pos)
  case (Cons c body)
  then show ?case by (cases "pos < int_max") (auto simp: kputc_def)
qed simp

text \<open>The formatted text with no bound on the buffer.\<close>

function kformat :: "u8 list \<Rightarrow> karg list \<Rightarrow> u8 list option" where
  "kformat fmt args =
     (if fmt = [] then Some []
      else if hd fmt \<noteq> 0x25 then map_option (\<lambda>out. hd fmt # out) (kformat (tl fmt) args)
      else case kparse (tl fmt) of
             None \<Rightarrow> None
           | Some (left_align, pad, width, ll, f4) \<Rightarrow>
               (case kconv (chr0 f4) ll width left_align pad args of
                  None \<Rightarrow> None
                | Some (body, args') \<Rightarrow>
                    if f4 = [] then None else map_option (\<lambda>out. body @ out) (kformat (tl f4) args')))"
  by pat_completeness auto
termination
proof (relation "measure (\<lambda>(fmt, args). length fmt)", goal_cases)
  case (3 fmt args p left y pad z width v ll f4 q body args')
  then have "length f4 \<le> length (tl fmt)" using length_kparse [of "tl fmt"] by metis
  with 3 show ?case by (cases fmt) (auto simp: Suc_le_eq intro: le_less_trans [OF diff_le_self])
qed auto

declare kformat.simps [simp del] kformat_loop.simps [simp del]

text \<open>The loop puts a prefix of that text, all of it unless the buffer is full.\<close>

lemma kformat_loop_spec:
  assumes "cap \<le> length b0" "kformat fmt args = Some rest" "length out + length rest \<le> int_max"
  shows "\<exists>k. kformat_loop cap fmt args (filled b0 cap out) = Some (filled b0 cap (out @ take k rest))
     \<and> (length rest \<le> k \<or> cap - 1 \<le> length out + k \<and> k \<le> length rest)"
  using assms(2,3)
proof (induction fmt args arbitrary: out rest rule: kformat.induct)
  case (1 fmt args)
  show ?case
  proof (cases "fmt = [] \<or> \<not> length out < cap - 1")
    case True
    then have "kformat_loop cap fmt args (filled b0 cap out) = Some (filled b0 cap (out @ take 0 rest))"
      by (subst kformat_loop.simps) (simp add: filled_def)
    moreover have "fmt = [] \<Longrightarrow> rest = []" using 1(3) by (simp add: kformat.simps)
    ultimately show ?thesis using True by (intro exI [of _ 0]) auto
  next
    case go: False
    then have ne: "fmt \<noteq> []" and lt: "snd (filled b0 cap out) < cap - 1" by (simp_all add: filled_def)
    show ?thesis
    proof (cases "hd fmt = 0x25")
      case False
      with ne 1(3) obtain r where r: "kformat (tl fmt) args = Some r" "rest = hd fmt # r"
        by (subst (asm) kformat.simps) auto
      have room: "length (out @ [hd fmt]) + length r \<le> int_max" "length out < int_max" using 1(4) r(2) by auto
      from 1(1) [OF ne False r(1) room(1)] obtain k where
        k: "kformat_loop cap (tl fmt) args (filled b0 cap (out @ [hd fmt])) = Some (filled b0 cap ((out @ [hd fmt]) @ take k r))"
          "length r \<le> k \<or> cap - 1 \<le> length (out @ [hd fmt]) + k \<and> k \<le> length r" by blast
      have "kformat_loop cap fmt args (filled b0 cap out) = Some (filled b0 cap (out @ take (Suc k) rest))"
        using ne lt False k(1) by (subst kformat_loop.simps) (simp add: kputc_filled [OF assms(1) room(2)] r(2))
      with k(2) r(2) show ?thesis by (intro exI [of _ "Suc k"]) auto
    next
      case True
      from ne True 1(3) obtain la pad width ll f4 where p: "kparse (tl fmt) = Some (la, pad, width, ll, f4)"
        by (subst (asm) kformat.simps) (auto split: option.splits)
      from ne True p 1(3) obtain body args' r where c: "kconv (chr0 f4) ll width la pad args = Some (body, args')" "f4 \<noteq> []"
        and r: "kformat (tl f4) args' = Some r" "rest = body @ r"
        by (subst (asm) kformat.simps) (auto split: option.splits if_splits)
      have room: "length (out @ body) + length r \<le> int_max" "length out + length body \<le> int_max"
        using 1(4) r(2) by auto
      from 1(2) [OF ne _ p refl refl refl refl c(1) refl c(2) r(1) room(1)] True obtain k where
        k: "kformat_loop cap (tl f4) args' (filled b0 cap (out @ body)) = Some (filled b0 cap ((out @ body) @ take k r))"
          "length r \<le> k \<or> cap - 1 \<le> length (out @ body) + k \<and> k \<le> length r" by blast
      have "kformat_loop cap fmt args (filled b0 cap out) = Some (filled b0 cap (out @ take (length body + k) rest))"
        using ne lt True k(1) p c
        by (subst kformat_loop.simps) (simp add: kputc_all_filled [OF assms(1) room(2)] r(2))
      with k(2) r(2) show ?thesis by (intro exI [of _ "length body + k"]) auto
    qed
  qed
qed

text \<open>C29. \<^verbatim>\<open>ksnprintf\<close> never writes outside the \<open>cap\<close> bytes of its buffer and always terminates the string,
  as long as its two \<^verbatim>\<open>int\<close> counters hold the numbers they count: every width of the format is at most
  2147483647 (else \<open>kformat\<close> is \<open>None\<close>) and the whole text has at most 2147483647 characters, far more than
  the buffer holds. Then, whatever the format, its widths and the arguments (of the kinds it asks for), the
  buffer afterwards holds the formatted text cut to \<open>cap - 1\<close> characters and a NUL, and every byte from
  \<open>cap\<close> on is untouched; the result is the length of the text whenever it fits.\<close>
theorem ksnprintf_bounded:
  assumes "0 < cap" "nat cap \<le> length buf" "kformat fmt args = Some body" "length body \<le> 2147483647"
  shows "\<exists>buf' pos. ksnprintf buf cap fmt args = Some (buf', pos)
     \<and> take (min (length body) (nat cap - 1) + 1) buf' = take (nat cap - 1) body @ [0]
     \<and> drop (nat cap) buf' = drop (nat cap) buf \<and> length buf' = length buf
     \<and> (length body < nat cap \<longrightarrow> pos = length body)"
proof -
  let ?c = "nat cap"
  have c0: "0 < ?c" using assms(1) by simp
  have init: "filled buf ?c [] = (buf, 0)" by (simp add: filled_def)
  have "length ([] :: u8 list) + length body \<le> int_max" using assms(4) by (simp add: int_max_def)
  from kformat_loop_spec [OF assms(2,3) this] obtain k where
    k: "kformat_loop ?c fmt args (buf, 0) = Some (filled buf ?c (take k body))"
      "length body \<le> k \<or> ?c - 1 \<le> k \<and> k \<le> length body" by (auto simp: init)
  let ?out = "take k body"
  have pre: "take (?c - 1) ?out = take (?c - 1) body" using k(2) by (auto simp: min_def)
  have len: "length ?out < ?c \<longleftrightarrow> length body < ?c \<or> k < ?c" by (auto simp: min_def)
  let ?b = "fst (filled buf ?c ?out)"
  have lb: "length ?b = length buf" using assms(2) by (simp add: filled_def min_def)
  have db: "drop ?c ?b = drop ?c buf" using assms(2) by (simp add: filled_def min_def)
  let ?n = "if length ?out < ?c then length ?out else ?c - 1"
  have n: "?n < ?c" using c0 by auto
  have nm: "min (length body) (?c - 1) = ?n"
    using k(2) c0 by (auto simp: min_def)
  have "take ?n ?b = take (?c - 1) body"
  proof (cases "length body \<le> k")
    case False
    then consider "k = ?c - 1" | "?c \<le> k" using k(2) by linarith
    then show ?thesis using False c0 by cases (auto simp: filled_def min_def)
  qed (use c0 in \<open>auto simp: filled_def min_def\<close>)
  moreover have "?n < length ?b" using n lb assms(2) by simp
  ultimately have T: "take (?n + 1) (?b[?n := 0]) = take (?c - 1) body @ [0]"
    by (simp add: take_Suc_conv_app_nth)
  have "ksnprintf buf cap fmt args = Some (?b[?n := 0], length ?out)"
    using assms(1) k(1) by (simp add: ksnprintf_def kvsprintf_def filled_def)
  moreover have "drop ?c (?b[?n := 0]) = drop ?c buf" using n db by (simp add: drop_update_cancel)
  moreover have "length body < ?c \<longrightarrow> length ?out = length body" using k(2) by (auto simp: min_def)
  ultimately show ?thesis using T lb nm by (intro exI [of _ "?b[?n := 0]"] exI [of _ "length ?out"]) simp
qed

text \<open>Formatting \<^verbatim>\<open>a%sb\<close> into four bytes keeps three characters.\<close>

lemma ksnprintf_bounded_witness:
  "\<exists>buf' pos. ksnprintf (replicate 8 0xFF) 4 (bytes ''a%sb'') [ArgStr (Some (bytes ''xyz''))] = Some (buf', pos)
     \<and> take 4 buf' = bytes ''axy'' @ [0] \<and> drop 4 buf' = replicate 4 0xFF"
proof -
  have f: "kformat (bytes ''a%sb'') [ArgStr (Some (bytes ''xyz''))] = Some (bytes ''axyzb'')"
    by (simp add: kformat.simps kparse_def kconv_def kfield_def bytes_def ch_def is_digit_def int_max_def)
  have "length (bytes ''axyzb'') \<le> 2147483647" by (simp add: bytes_def)
  from ksnprintf_bounded [OF _ _ f this, of 4 "replicate 8 0xFF"] show ?thesis
    by (auto simp: bytes_def drop_replicate eval_nat_numeral)
qed

text \<open>
  Beyond those bounds the behaviour is undefined: the width 2147483647, which a format may ask for, after
  one character takes the position beyond the largest \<^verbatim>\<open>int\<close>, whatever number is printed.
\<close>

lemma ksnprintf_position_overflow:
  assumes "3 \<le> cap"
  shows "ksnprintf buf cap (bytes ''a%2147483647d'') [Arg32 v] = None"
proof -
  define body where "body = kfield (kfmt_ll (sext v)) 2147483647 False 0x20"
  have len: "int_max \<le> length body" unfolding body_def kfield_def int_max_def by simp
  have ov: "kputc_all (nat cap) body (b, Suc 0) = None" for b
    using len by (intro kputc_all_overflow) (auto simp: int_max_def)
  have d: "kparse (tl (bytes ''%2147483647d'')) = Some (False, 0x20, 2147483647, False, bytes ''d'')"
    by (simp add: kparse_def bytes_def ch_def is_digit_def int_max_def)
  have c: "kconv (chr0 (bytes ''d'')) False 2147483647 False 0x20 [Arg32 v] = Some (body, [])"
    by (simp add: kconv_def body_def bytes_def ch_def)
  have k: "kputc (nat cap) (hd (bytes ''a%2147483647d'')) (buf, 0) = Some (buf[0 := 0x61], 1)"
    using assms by (simp add: kputc_def bytes_def ch_def int_max_def)
  have "kformat_loop (nat cap) (bytes ''%2147483647d'') [Arg32 v] (buf[0 := 0x61], 1) = None"
    using assms d c ov by (subst kformat_loop.simps) (simp add: bytes_def ch_def)
  with k have "kformat_loop (nat cap) (bytes ''a%2147483647d'') [Arg32 v] (buf, 0) = None"
    using assms by (subst kformat_loop.simps) (simp add: bytes_def ch_def)
  with assms show ?thesis by (simp add: ksnprintf_def kvsprintf_def)
qed

subsection \<open>Printed numbers read back\<close>

lemma uint_digit_char: "d < 10 \<Longrightarrow> uint (digit_char u d) = 48 + int d"
proof -
  assume d: "d < 10"
  then have "uint (word_of_nat d :: u8) = int d" by (simp add: unsigned_of_nat take_bit_nat_eq_self)
  with d show ?thesis by (simp add: digit_char_def uint_word_ariths(1))
qed

lemma kdigits_ten:
  "dec_val 0 (rev (kdigits v 10 u)) = uint v \<and> list_all is_digit (kdigits v 10 u)"
proof (induction v "10 :: u64" u rule: kdigits.induct)
  case (1 v u)
  show ?case
  proof (cases "v = 0")
    case False
    have lt: "unat (v mod 10) < 10" by (simp add: unat_mod)
    note d = uint_digit_char [OF lt, of u]
    have "is_digit (digit_char u (unat (v mod 10)))" using d by (simp add: is_digit_def word_le_def uint_mod)
    moreover have "uint (v div 10) * 10 + int (unat (v mod 10)) = uint v"
      by (simp add: uint_div uint_mod)
    ultimately show ?thesis using 1 False d by (subst (1 2) kdigits.simps) (simp add: dec_val_append)
  qed simp
qed

lemma kfmt_ull_ten: "dec_val 0 (kfmt_ull v 10 u) = uint v" "list_all is_digit (kfmt_ull v 10 u)" "kfmt_ull v 10 u \<noteq> []"
proof -
  have "kdigits v 10 u \<noteq> []" if "v \<noteq> 0" using that by (subst kdigits.simps) simp
  then show "dec_val 0 (kfmt_ull v 10 u) = uint v" "list_all is_digit (kfmt_ull v 10 u)" "kfmt_ull v 10 u \<noteq> []"
    using kdigits_ten [of v u] by (auto simp: kfmt_ull_def is_digit_def list_all_iff simp del: kdigits.simps)
qed

lemma uint_sext:
  "sint (sext v) = sint v" "uint (sext v) = (if sint v < 0 then sint v + 18446744073709551616 else sint v)"
proof -
  have r: "- 2147483648 \<le> sint v" "sint v < 2147483648"
    using sint_ge [of v] sint_lt [of v] by simp_all
  show s: "sint (sext v) = sint v" by (simp add: sext_def sint_up_scast is_up)
  have "uint (sext v) = sint (sext v) mod 18446744073709551616" by (simp add: uint_sint take_bit_eq_mod)
  moreover have "sint v mod 18446744073709551616 = sint v + 18446744073709551616" if "sint v < 0"
  proof -
    have "sint v mod 18446744073709551616 = (sint v + 18446744073709551616) mod 18446744073709551616"
      by (rule mod_add_self2 [symmetric])
    also have "\<dots> = sint v + 18446744073709551616" using r that by (intro mod_pos_pos_trivial) linarith+
    finally show ?thesis .
  qed
  ultimately show "uint (sext v) = (if sint v < 0 then sint v + 18446744073709551616 else sint v)"
    using r s by (simp add: mod_pos_pos_trivial)
qed

text \<open>Integers survive printing and parsing: what \<^verbatim>\<open>%d\<close> prints for a 32-bit integer, \<^verbatim>\<open>str_to_int\<close> reads
  back as the same integer, the most negative one included.\<close>
theorem kfmt_str_to_int: "str_to_int (kfmt_ll (sext v)) = sint v"
proof -
  have r: "- 2147483648 \<le> sint v" "sint v < 2147483648"
    using sint_ge [of v] sint_lt [of v] by simp_all
  have tw: "takeWhile is_digit (kfmt_ull w 10 False) = kfmt_ull w 10 False" for w
    using kfmt_ull_ten(2) [of w False] by (simp add: takeWhile_eq_all_conv list_all_iff)
  show ?thesis
  proof (cases "sint v < 0")
    case True
    have "uint (- (sext v + 1) + 1) = uint (- sext v)" by simp
    also have "\<dots> = (- sint v - 18446744073709551616) mod 18446744073709551616"
      using True uint_sext(2) [of v] by (simp add: uint_word_ariths)
    also have "\<dots> = - sint v mod 18446744073709551616" by (rule minus_mod_self2)
    also have "\<dots> = - sint v" using True r by (intro mod_pos_pos_trivial) linarith+
    finally have "dec_val 0 (takeWhile is_digit (kfmt_ull (- (sext v + 1) + 1) 10 False)) = - sint v"
      by (simp only: tw kfmt_ull_ten(1))
    with True r show ?thesis
      by (simp add: str_to_int_clamp kfmt_ll_def word_sless_alt uint_sext(1) Let_def I32_MAX_def I32_MIN_def)
  next
    case False
    have "\<not> chr0 (kfmt_ull (sext v) 10 False) = 0x2D"
      using kfmt_ull_ten(2,3) [of "sext v" False] by (cases "kfmt_ull (sext v) 10 False") (auto simp: is_digit_def)
    moreover have "dec_val 0 (takeWhile is_digit (kfmt_ull (sext v) 10 False)) = sint v"
      using False uint_sext(2) [of v] by (simp only: tw kfmt_ull_ten(1) if_False)
    ultimately show ?thesis using False r
      by (simp add: str_to_int_clamp kfmt_ll_def word_sless_alt uint_sext(1) Let_def I32_MAX_def I32_MIN_def)
  qed
qed

end
