(* ===== verification/Klib_Mem.thy ===== *)
theory Klib_Mem
  imports Bytes
begin

text \<open>
  \<^verbatim>\<open>kernel/klib/men.h\<close> and the \<^verbatim>\<open>memcpy\<close> and \<^verbatim>\<open>memset\<close> of \<^verbatim>\<open>libgcc_stubs.cpp\<close>, on one
  memory, so that source and destination may overlap.
\<close>

type_synonym mem = "u32 \<Rightarrow> u8"

fun mem_set :: "u32 \<Rightarrow> u8 \<Rightarrow> nat \<Rightarrow> mem \<Rightarrow> mem" where
  "mem_set d val 0 m = m"
| "mem_set d val (Suc n) m = mem_set (d + 1) val n (m(d := val))"

fun mem_copy :: "u32 \<Rightarrow> u32 \<Rightarrow> nat \<Rightarrow> mem \<Rightarrow> mem" where
  "mem_copy d s 0 m = m"
| "mem_copy d s (Suc n) m = mem_copy (d + 1) (s + 1) n (m(d := m s))"

text \<open>\<^verbatim>\<open>d += n; s += n; while (n--) *--d = *--s;\<close>\<close>

fun mem_copy_down :: "u32 \<Rightarrow> u32 \<Rightarrow> nat \<Rightarrow> mem \<Rightarrow> mem" where
  "mem_copy_down d s 0 m = m"
| "mem_copy_down d s (Suc n) m = mem_copy_down d s n (m(d + word_of_nat n := m (s + word_of_nat n)))"

definition mem_move :: "u32 \<Rightarrow> u32 \<Rightarrow> nat \<Rightarrow> mem \<Rightarrow> mem" where
  "mem_move d s n m = (if d < s then mem_copy d s n m else mem_copy_down d s n m)"

fun mem_cmp :: "u32 \<Rightarrow> u32 \<Rightarrow> nat \<Rightarrow> mem \<Rightarrow> int" where
  "mem_cmp pa pb 0 m = 0"
| "mem_cmp pa pb (Suc n) m = (if m pa \<noteq> m pb then uint (m pa) - uint (m pb) else mem_cmp (pa + 1) (pb + 1) n m)"

definition mem_zero :: "u32 \<Rightarrow> nat \<Rightarrow> mem \<Rightarrow> mem" where
  "mem_zero d n m = mem_set d 0 n m"

definition mem_eq :: "u32 \<Rightarrow> u32 \<Rightarrow> nat \<Rightarrow> mem \<Rightarrow> bool" where
  "mem_eq a b n m \<longleftrightarrow> mem_cmp a b n m = 0"

fun mem_is_zero :: "u32 \<Rightarrow> nat \<Rightarrow> mem \<Rightarrow> bool" where
  "mem_is_zero p 0 m = True"
| "mem_is_zero p (Suc n) m = (if m p \<noteq> 0 then False else mem_is_zero (p + 1) n m)"

definition store32 :: "u32 \<Rightarrow> u32 \<Rightarrow> mem \<Rightarrow> mem" where
  "store32 p v m = (let b = bytes32 v in m(p := b ! 0, p + 1 := b ! 1, p + 2 := b ! 2, p + 3 := b ! 3))"

fun mem_set32 :: "u32 \<Rightarrow> u32 \<Rightarrow> nat \<Rightarrow> mem \<Rightarrow> mem" where
  "mem_set32 d val 0 m = m"
| "mem_set32 d val (Suc n) m = mem_set32 (d + 4) val n (store32 d val m)"

definition memcpy :: "u32 \<Rightarrow> u32 \<Rightarrow> nat \<Rightarrow> mem \<Rightarrow> mem" where
  "memcpy dst src n m = mem_copy dst src n m"

definition memset :: "u32 \<Rightarrow> int \<Rightarrow> nat \<Rightarrow> mem \<Rightarrow> mem" where
  "memset dst val n m = mem_set dst (word_of_int val) n m"

subsection \<open>Copying\<close>

text \<open>The intended result: the \<open>n\<close> bytes at \<open>s\<close>, as they were, at \<open>d\<close>.\<close>

definition moved :: "u32 \<Rightarrow> u32 \<Rightarrow> nat \<Rightarrow> mem \<Rightarrow> mem" where
  "moved d s n m = (\<lambda>a. if \<exists>k<n. a = d + word_of_nat k then m (s + (a - d)) else m a)"

text \<open>Upwards is right when no byte is overwritten before it is read.\<close>

lemma mem_copy_moved:
  "(\<And>j k. j < k \<Longrightarrow> k < n \<Longrightarrow> d + word_of_nat j \<noteq> s + word_of_nat k) \<Longrightarrow> mem_copy d s n m = moved d s n m"
proof (induction n arbitrary: d s m)
  case (Suc n)
  have IH: "mem_copy (d + 1) (s + 1) n (m(d := m s)) = moved (d + 1) (s + 1) n (m(d := m s))"
  proof (rule Suc.IH)
    fix j k assume "j < k" "k < n"
    with Suc.prems [of "Suc j" "Suc k"] show "d + 1 + word_of_nat j \<noteq> s + 1 + word_of_nat k" by (simp add: add.assoc)
  qed
  have "moved (d + 1) (s + 1) n (m(d := m s)) a = moved d s (Suc n) m a" for a
  proof (cases "\<exists>k<n. a = d + 1 + word_of_nat k")
    case True
    then obtain k where k: "k < n" "a = d + word_of_nat (Suc k)" by (auto simp: add.assoc)
    with Suc.prems [of 0 "Suc k"] have "s + (a - d) \<noteq> d" by simp
    moreover have "\<exists>k<Suc n. a = d + word_of_nat k" using k by blast
    moreover have "s + 1 + (a - (d + 1)) = s + (a - d)" by simp
    ultimately show ?thesis using True by (simp add: moved_def)
  next
    case False
    have "(\<exists>k<Suc n. a = d + word_of_nat k) \<longleftrightarrow> a = d"
    proof
      assume "\<exists>k<Suc n. a = d + word_of_nat k"
      then obtain k where k: "k < Suc n" "a = d + word_of_nat k" by blast
      with False show "a = d" by (cases k) (auto simp: add.assoc)
    qed (auto intro: exI [of _ 0])
    then show ?thesis unfolding moved_def if_not_P [OF False] by simp
  qed
  with IH show ?case by (simp add: fun_eq_iff)
qed (simp add: moved_def)

lemma mem_copy_down_moved:
  "(\<And>j k. k < j \<Longrightarrow> j < n \<Longrightarrow> d + word_of_nat j \<noteq> s + word_of_nat k) \<Longrightarrow> mem_copy_down d s n m = moved d s n m"
proof (induction n arbitrary: m)
  case (Suc n)
  let ?m = "m(d + word_of_nat n := m (s + word_of_nat n))"
  have IH: "mem_copy_down d s n ?m = moved d s n ?m" using Suc.prems by (intro Suc.IH) simp
  have "moved d s n ?m a = moved d s (Suc n) m a" for a
  proof (cases "\<exists>k<n. a = d + word_of_nat k")
    case True
    then obtain k where k: "k < n" "a = d + word_of_nat k" by blast
    with Suc.prems [of k n] have "s + (a - d) \<noteq> d + word_of_nat n" by auto
    moreover have "\<exists>k<Suc n. a = d + word_of_nat k" using k by (auto intro: less_SucI)
    ultimately show ?thesis using True by (simp add: moved_def)
  next
    case False
    have "(\<exists>k<Suc n. a = d + word_of_nat k) \<longleftrightarrow> a = d + word_of_nat n" using False by (auto simp: less_Suc_eq)
    then show ?thesis unfolding moved_def if_not_P [OF False] by simp
  qed
  with IH show ?case by (simp add: fun_eq_iff)
qed (simp add: moved_def)

lemma unat_offset: "unat (p :: u32) + n \<le> 4294967296 \<Longrightarrow> k < n \<Longrightarrow> unat (p + word_of_nat k) = unat p + k"
  by (subst unat_add_u32) (simp_all add: unat_of_nat_u32)

text \<open>C30. \<^verbatim>\<open>mem_move\<close> copies as if through a temporary buffer, for every overlap of source and destination
  that stays inside the address space; \<^verbatim>\<open>mem_copy\<close> and \<^verbatim>\<open>memcpy\<close> do so unless the destination starts
  inside the source.\<close>
theorem mem_move_correct:
  assumes "unat d + n \<le> 4294967296" "unat s + n \<le> 4294967296"
  shows "mem_move d s n m = moved d s n m
    \<and> (s < d \<and> unat d < unat s + n \<or> mem_copy d s n m = moved d s n m \<and> memcpy d s n m = moved d s n m)"
proof -
  have up: "mem_copy d s n m = moved d s n m" if "unat d \<le> unat s \<or> unat s + n \<le> unat d"
  proof (rule mem_copy_moved)
    fix j k assume "j < k" "k < n"
    then have "unat (d + word_of_nat j) \<noteq> unat (s + word_of_nat k)"
      using assms that by (simp add: unat_offset [of _ n]) linarith
    then show "d + word_of_nat j \<noteq> s + word_of_nat k" by metis
  qed
  have down: "mem_copy_down d s n m = moved d s n m" if "unat s \<le> unat d"
  proof (rule mem_copy_down_moved)
    fix j k assume "k < j" "j < n"
    then have "unat (d + word_of_nat j) \<noteq> unat (s + word_of_nat k)"
      using assms that by (simp add: unat_offset [of _ n])
    then show "d + word_of_nat j \<noteq> s + word_of_nat k" by metis
  qed
  have "mem_move d s n m = moved d s n m"
    using up down by (auto simp: mem_move_def word_less_nat_alt not_less)
  then show ?thesis using up by (auto simp: memcpy_def word_less_nat_alt)
qed

lemma mem_move_correct_witness: "mem_move 2 0 3 (\<lambda>a. ucast a) = moved 2 0 3 (\<lambda>a. ucast a)"
  using mem_move_correct [of 2 3 0 "\<lambda>a. ucast a"] by simp

lemma mem_set_spec: "mem_set d v n m = (\<lambda>a. if \<exists>k<n. a = d + word_of_nat k then v else m a)"
proof (induction n arbitrary: d m)
  case (Suc n)
  have "(\<exists>k<Suc n. a = d + word_of_nat k) \<longleftrightarrow> a = d \<or> (\<exists>k<n. a = d + 1 + word_of_nat k)" for a
    by (simp add: Ex_less_Suc2 ac_simps)
  with Suc show ?case by (auto simp: fun_eq_iff)
qed simp

lemma mem_cmp_zero: "mem_cmp a b n m = 0 \<longleftrightarrow> (\<forall>k<n. m (a + word_of_nat k) = m (b + word_of_nat k))"
proof (induction n arbitrary: a b)
  case (Suc n)
  then show ?case by (auto simp: All_less_Suc2 add.assoc word_uint_eq_iff)
qed simp

end
