(* ===== verification/Virt_Mem.thy ===== *)
theory Virt_Mem
  imports Vmm
begin

text \<open>
  Memory as the processor sees it once paging is on: a byte at a virtual address is the byte of
  physical memory that the page tables give, and a page that is not present faults (\<open>None\<close>). The
  kernel writes through this translation when it clears shared memory and loads programs. With it
  come the lemmas on runs of consecutive pages that both use.
\<close>

type_synonym phys_mem = "u32 \<Rightarrow> u8"

definition page_present :: "paging \<Rightarrow> u32 \<Rightarrow> bool" where
  "page_present pg v \<longleftrightarrow> page_directory pg (dir_idx v) AND PAGE_PRESENT \<noteq> 0
     \<and> page_tables pg (dir_idx v) (table_idx v) AND PAGE_PRESENT \<noteq> 0"

definition poke :: "paging \<Rightarrow> u32 \<Rightarrow> u8 \<Rightarrow> phys_mem \<Rightarrow> phys_mem option" where
  "poke pg a x m = (if page_present pg a then Some (m(paging_get_physical pg a := x)) else None)"

definition peek :: "paging \<Rightarrow> phys_mem \<Rightarrow> u32 \<Rightarrow> u8 option" where
  "peek pg m a = (if page_present pg a then Some (m (paging_get_physical pg a)) else None)"

fun poke_list :: "paging \<Rightarrow> u32 \<Rightarrow> u8 list \<Rightarrow> phys_mem \<Rightarrow> phys_mem option" where
  "poke_list pg a [] m = Some m"
| "poke_list pg a (x # xs) m = Option.bind (poke pg a x m) (poke_list pg (a + 1) xs)"

lemma page_present_translate: "paging_get_physical pg v \<noteq> 0 \<Longrightarrow> page_present pg v"
  by (auto simp: page_present_def paging_get_physical_def Let_def split: if_splits)

lemma translate_join: "page_present pg v \<Longrightarrow>
    paging_get_physical pg v = page_base (page_tables pg (dir_idx v) (table_idx v)) OR page_off v"
  by (simp add: page_present_def paging_get_physical_def Let_def page_base_def page_off_def)

lemma page_base_idx: "dir_idx (page_base v) = dir_idx v" "table_idx (page_base v) = table_idx v"
  using idx_eq_iff [of "page_base v" v] by simp_all

lemma page_present_base: "page_present pg (page_base v) = page_present pg v"
  by (simp add: page_present_def page_base_idx)

lemma page_base_translate: "page_base (paging_get_physical pg v) = paging_get_physical pg (page_base v)"
proof (cases "page_present pg v")
  case True
  then show ?thesis using translate_join [OF True] translate_join [of pg "page_base v"]
    by (simp add: page_present_base page_base_idx)
next
  case False
  then have "paging_get_physical pg v = 0" "paging_get_physical pg (page_base v) = 0"
    using page_present_translate [of pg v] page_present_translate [of pg "page_base v"] by (auto simp: page_present_base)
  then show ?thesis by (simp add: page_base_def)
qed

text \<open>Writing one value over a range that is mapped, in any way.\<close>

lemma poke_list_replicate:
  assumes "\<And>k. k < n \<Longrightarrow> page_present pg (a + word_of_nat k)"
  shows "poke_list pg a (replicate n x) m =
    Some (\<lambda>p. if \<exists>k<n. p = paging_get_physical pg (a + word_of_nat k) then x else m p)"
  using assms
proof (induction n arbitrary: a m)
  case (Suc n)
  have p: "page_present pg a" using Suc.prems [of 0] by simp
  have "page_present pg (a + 1 + word_of_nat k)" if "k < n" for k
    using Suc.prems [of "Suc k"] that by (simp add: ac_simps)
  from Suc.IH [OF this] p show ?case by (auto simp: poke_def fun_eq_iff Ex_less_Suc2 ac_simps)
qed simp

subsection \<open>Runs of pages\<close>

definition vpage :: "u32 \<Rightarrow> nat \<Rightarrow> u32" where
  "vpage v i = v + word_of_nat i * 0x1000"

lemma unat_vpage: "unat v + i * 4096 < 4294967296 \<Longrightarrow> unat (vpage v i) = unat v + i * 4096"
proof -
  assume b: "unat v + i * 4096 < 4294967296"
  then have "unat (word_of_nat i * 0x1000 :: u32) = i * 4096"
    by (subst unat_mult_u32) (simp_all add: unat_of_nat_u32)
  with b show ?thesis unfolding vpage_def by (subst unat_add_u32) simp_all
qed

lemma vpage_aligned:
  assumes "page_base v = v" "unat v + i * 4096 < 4294967296"
  shows "page_base (vpage v i) = vpage v i"
  using assms unat_vpage [OF assms(2)] by (simp add: aligned_iff mod_add_eq [symmetric])

lemma vpage_eq_iff:
  assumes "unat v + i * 4096 < 4294967296" "unat v + j * 4096 < 4294967296"
  shows "vpage v i = vpage v j \<longleftrightarrow> i = j"
  using assms by (simp add: word_unat_eq_iff unat_vpage)

text \<open>The page of an address inside a run.\<close>

lemma page_base_offset:
  assumes "page_base v = v" "unat v + n * 4096 \<le> 4294967296" "k < n * 4096"
  shows "page_base (v + word_of_nat k) = vpage v (k div 4096)" "k div 4096 < n"
proof -
  show n: "k div 4096 < n" using assms(3) by (simp add: div_less_iff_less_mult)
  have u: "unat (v + word_of_nat k) = unat v + k"
    using assms(2,3) by (subst unat_add_u32) (simp_all add: unat_of_nat_u32)
  obtain q where q: "unat v = 4096 * q" using assms(1) by (auto simp: aligned_iff)
  have "k div 4096 * 4096 \<le> k" by simp
  then have w: "unat (vpage v (k div 4096)) = unat v + k div 4096 * 4096"
    using assms(2,3) by (intro unat_vpage) linarith
  show "page_base (v + word_of_nat k) = vpage v (k div 4096)"
    unfolding word_unat_eq_iff unat_page_base u w q by simp
qed

subsection \<open>Releasing a run\<close>

text \<open>\<^verbatim>\<open>for (p = 0; p < n; p++) vmm_free(virt + p * 0x1000);\<close>\<close>

definition vmm_free_run :: "u32 \<Rightarrow> nat \<Rightarrow> vmm \<Rightarrow> vmm" where
  "vmm_free_run virt n s = fold (\<lambda>p. vmm_free (vpage virt p)) [0..<n] s"

lemma vmm_free_run_simps [simp]:
  "vmm_free_run v 0 s = s"
  "vmm_free_run v (Suc n) s = vmm_free (vpage v n) (vmm_free_run v n s)"
  by (simp_all add: vmm_free_run_def)

text \<open>\<open>vm_run s v n\<close>: the \<open>n\<close> pages from \<open>v\<close> on are pages of the region and mapped.\<close>

definition vm_run :: "vmm \<Rightarrow> u32 \<Rightarrow> nat \<Rightarrow> bool" where
  "vm_run s v n \<longleftrightarrow> page_base v = v \<and> 0xD0000000 \<le> v \<and> unat v + n * 4096 \<le> unat (next_virt s)
     \<and> (\<forall>i<n. paging_get_physical (vm_pg s) (vpage v i) \<noteq> 0)"

lemma vm_run_bound:
  assumes "vm_run s v n" "i < n"
  shows "unat v + i * 4096 < 4294967296"
proof -
  have "unat v + n * 4096 \<le> unat (next_virt s)" using assms(1) by (simp add: vm_run_def)
  then show ?thesis using assms(2) unat_u32_less [of "next_virt s"] by linarith
qed

lemma vm_run_region:
  assumes "vm_run s v n" "i < n"
  shows "vm_region s (vpage v i)"
proof -
  have "0xD0000000 \<le> v" "unat v + n * 4096 \<le> unat (next_virt s)" "page_base v = v"
    using assms(1) by (simp_all add: vm_run_def)
  moreover have "i * 4096 < n * 4096" using assms(2) by simp
  ultimately show ?thesis
    using vm_run_bound [OF assms] by (simp add: vm_region_def vpage_aligned word_le_nat_alt word_less_nat_alt unat_vpage)
qed

lemma vmm_free_pool: "vmm_inv s \<Longrightarrow> vm_region s v \<Longrightarrow> paging_get_physical (vm_pg s) v \<noteq> 0 \<Longrightarrow>
    pmm_pool (vm_pmm (vmm_free v s)) = pmm_pool (vm_pmm s)"
  using pmm.live_pool [of "vm_pmm s"] pmm.ffree_live [of "vm_pmm s"]
  by (auto simp: vmm_free_def Let_def vmm_inv_def vm_backed_def)

lemma vmm_free_run_spec:
  assumes "vmm_inv s" "vm_run s v n"
  shows "vmm_inv (vmm_free_run v n s) \<and> next_virt (vmm_free_run v n s) = next_virt s
    \<and> pmm_pool (vm_pmm (vmm_free_run v n s)) = pmm_pool (vm_pmm s)
    \<and> pmm_live (vm_pmm (vmm_free_run v n s))
        = pmm_live (vm_pmm s) - (\<lambda>i. paging_get_physical (vm_pg s) (vpage v i)) ` {..<n}
    \<and> (\<forall>x. (\<forall>i<n. page_base x \<noteq> vpage v i) \<longrightarrow>
           paging_get_physical (vm_pg (vmm_free_run v n s)) x = paging_get_physical (vm_pg s) x)
    \<and> (\<forall>i<n. paging_get_physical (vm_pg (vmm_free_run v n s)) (vpage v i) = 0)"
  using assms(2)
proof (induction n)
  case (Suc n)
  let ?t = "vmm_free_run v n s"
  have r: "vm_run s v n" using Suc.prems by (auto simp: vm_run_def)
  note IH = Suc.IH [OF r]
  have al: "page_base (vpage v i) = vpage v i" if "i < Suc n" for i
    using vm_run_region [OF Suc.prems that] by (simp add: vm_region_def)
  have ne: "vpage v i \<noteq> vpage v n" if "i < n" for i
    using vpage_eq_iff [of v i n] vm_run_bound [OF Suc.prems] that by simp
  have tr: "paging_get_physical (vm_pg ?t) (vpage v n) = paging_get_physical (vm_pg s) (vpage v n)"
  proof -
    have "\<forall>i<n. page_base (vpage v n) \<noteq> vpage v i" using al [of n] ne by (metis lessI)
    with IH show ?thesis by blast
  qed
  moreover have "paging_get_physical (vm_pg s) (vpage v n) \<noteq> 0" using Suc.prems by (simp add: vm_run_def)
  ultimately have m: "paging_get_physical (vm_pg ?t) (vpage v n) \<noteq> 0" by simp
  have reg: "vm_region ?t (vpage v n)"
    using vm_run_region [OF Suc.prems, of n] IH by (simp add: vm_region_def)
  have inv: "vmm_inv ?t" using IH by blast
  note F = vmm_free_spec [OF inv reg m] and P = vmm_free_pool [OF inv reg m]
  have "paging_get_physical (vm_pg (vmm_free (vpage v n) ?t)) (vpage v i) = 0" if "i < Suc n" for i
  proof (cases "i = n")
    case False
    then show ?thesis using that F(4) [of "vpage v i"] ne [of i] al [of i] IH by simp
  qed (use F(2) in simp)
  moreover have "paging_get_physical (vm_pg (vmm_free (vpage v n) ?t)) x = paging_get_physical (vm_pg s) x"
    if "\<forall>i<Suc n. page_base x \<noteq> vpage v i" for x
    using that F(4) [of x] IH by simp
  moreover have "pmm_live (vm_pmm (vmm_free (vpage v n) ?t))
      = pmm_live (vm_pmm s) - (\<lambda>i. paging_get_physical (vm_pg s) (vpage v i)) ` {..<Suc n}"
    using F(3) IH tr by (auto simp: lessThan_Suc)
  ultimately show ?case using F(1,5) P IH by simp
qed (use assms(1) in simp)

subsection \<open>Allocating a run\<close>

text \<open>
  \<open>vm_grown s0 n s\<close>: \<open>s\<close> is \<open>s0\<close> after \<open>n\<close> fresh pages have been allocated one after the other, with
  whatever else the state holds unchanged.
\<close>

definition vm_grown :: "vmm \<Rightarrow> nat \<Rightarrow> vmm \<Rightarrow> bool" where
  "vm_grown s0 n s \<longleftrightarrow> vmm_inv s \<and> unat (next_virt s) = unat (next_virt s0) + n * 4096
     \<and> pmm_pool (vm_pmm s) = pmm_pool (vm_pmm s0)
     \<and> vm_run s (next_virt s0) n
     \<and> pmm_live (vm_pmm s)
         = pmm_live (vm_pmm s0) \<union> (\<lambda>i. paging_get_physical (vm_pg s) (vpage (next_virt s0) i)) ` {..<n}
     \<and> (\<forall>i<n. paging_get_physical (vm_pg s) (vpage (next_virt s0) i) \<notin> pmm_live (vm_pmm s0))
     \<and> (\<forall>x. (\<forall>i<n. page_base x \<noteq> vpage (next_virt s0) i) \<longrightarrow>
            paging_get_physical (vm_pg s) x = paging_get_physical (vm_pg s0) x)"

lemma vm_grown_0: "vmm_inv s \<Longrightarrow> vm_grown s 0 s"
  by (simp add: vm_grown_def vm_run_def vmm_inv_def)

lemma vm_grown_Suc:
  assumes G: "vm_grown s0 n s" and al: "vmm_alloc 0 flags s = (s', v)" and nz: "v \<noteq> 0"
  shows "vm_grown s0 (Suc n) s' \<and> v = vpage (next_virt s0) n"
proof -
  let ?v0 = "next_virt s0"
  have I: "vmm_inv s" and nv: "unat (next_virt s) = unat ?v0 + n * 4096" and R: "vm_run s ?v0 n"
    using G by (simp_all add: vm_grown_def)
  obtain fr p where ok: "v = next_virt s" "unat (next_virt s + 4096) = unat (next_virt s) + 4096"
    using vmm_alloc_ok [OF I al nz] by metis
  note A = vmm_alloc_spec [OF I al nz]
  have b: "unat ?v0 + n * 4096 < 4294967296" using nv unat_u32_less [of "next_virt s"] by linarith
  have v: "v = vpage ?v0 n" using ok(1) nv unat_vpage [OF b] by (simp add: word_unat_eq_iff)
  have ne: "vpage ?v0 i \<noteq> v" if "i < n" for i
    using vpage_eq_iff [of ?v0 i n] b vm_run_bound [OF R that] that v by simp
  have alg: "page_base (vpage ?v0 i) = vpage ?v0 i" if "i < n" for i
    using vm_run_region [OF R that] by (simp add: vm_region_def)
  have tr: "paging_get_physical (vm_pg s') (vpage ?v0 i) = paging_get_physical (vm_pg s) (vpage ?v0 i)" if "i < n" for i
    using A(7) [of "vpage ?v0 i"] ne [OF that] alg [OF that] by simp
  have P': "pmm_inv (vm_pmm s')" using A(1) by (simp add: vmm_inv_def)
  have m: "paging_get_physical (vm_pg s') v \<noteq> 0"
    using A(5) pmm.live_pool [OF P'] pmm.pool_nonnull [OF P'] by auto
  have run: "vm_run s' ?v0 (Suc n)"
    using R nv A(3) ok(2) tr m v by (auto simp: vm_run_def less_Suc_eq)
  have im: "(\<lambda>i. paging_get_physical (vm_pg s') (vpage ?v0 i)) ` {..<n}
      = (\<lambda>i. paging_get_physical (vm_pg s) (vpage ?v0 i)) ` {..<n}" using tr by simp
  have live: "pmm_live (vm_pmm s') = pmm_live (vm_pmm s0)
      \<union> (\<lambda>i. paging_get_physical (vm_pg s') (vpage ?v0 i)) ` {..<Suc n}"
    using G A(6) v by (simp add: vm_grown_def lessThan_Suc im)
  have new: "paging_get_physical (vm_pg s') (vpage ?v0 i) \<notin> pmm_live (vm_pmm s0)" if "i < Suc n" for i
    using that G A(5) tr v by (cases "i = n") (auto simp: vm_grown_def)
  have old: "paging_get_physical (vm_pg s') x = paging_get_physical (vm_pg s0) x"
    if "\<forall>i<Suc n. page_base x \<noteq> vpage ?v0 i" for x
    using that G A(7) [of x] v by (simp add: vm_grown_def)
  show ?thesis
    using A(1,3,8) G nv ok(2) run live new old v by (simp add: vm_grown_def)
qed

text \<open>Undoing it gives back every frame and every translation but those of the run, which end unmapped.\<close>

lemma vm_grown_undo:
  assumes "vm_grown s0 n s"
  shows "vmm_inv (vmm_free_run (next_virt s0) n s)
    \<and> pmm_live (vm_pmm (vmm_free_run (next_virt s0) n s)) = pmm_live (vm_pmm s0)
    \<and> pmm_pool (vm_pmm (vmm_free_run (next_virt s0) n s)) = pmm_pool (vm_pmm s0)
    \<and> next_virt (vmm_free_run (next_virt s0) n s) = next_virt s
    \<and> (\<forall>x. (\<forall>i<n. page_base x \<noteq> vpage (next_virt s0) i) \<longrightarrow>
           paging_get_physical (vm_pg (vmm_free_run (next_virt s0) n s)) x = paging_get_physical (vm_pg s0) x)"
proof -
  have I: "vmm_inv s" "vm_run s (next_virt s0) n" using assms by (simp_all add: vm_grown_def)
  note F = vmm_free_run_spec [OF this]
  have "pmm_live (vm_pmm (vmm_free_run (next_virt s0) n s)) = pmm_live (vm_pmm s0)"
    using F assms by (auto simp: vm_grown_def)
  with F assms show ?thesis by (simp add: vm_grown_def)
qed

end
