(* ===== verification/Shmem.thy ===== *)
theory Shmem
  imports Virt_Mem Chars
begin

text \<open>
  \<^verbatim>\<open>kernel/memory/shmem/shmem.cpp\<close>: named shared memory over the virtual memory manager. A name argument
  is the list of its characters without the terminator, a stored name the 32-byte array.
\<close>

definition SHMEM_MAX :: nat where "SHMEM_MAX = 16"

record shmem_region =
  sh_name :: "u8 list"
  sh_used :: bool
  sh_virt :: u32
  sh_size :: u32

record shmem =
  sh_regions :: "shmem_region list"
  sh_vm :: vmm
  sh_mem :: phys_mem

definition shmem_init :: "shmem \<Rightarrow> shmem" where
  "shmem_init s = s\<lparr>sh_regions := map (\<lambda>r. r\<lparr>sh_used := False\<rparr>) (sh_regions s)\<rparr>"

fun name_eq :: "u8 list \<Rightarrow> u8 list \<Rightarrow> bool" where
  "name_eq (a # as) (b # bs) = (if a \<noteq> 0 \<and> b \<noteq> 0 \<and> a = b then name_eq as bs else a = 0 \<and> b = 0)"
| "name_eq as bs = (chr0 as = 0 \<and> chr0 bs = 0)"

definition name_copy :: "u8 list \<Rightarrow> u8 list \<Rightarrow> nat \<Rightarrow> u8 list" where
  "name_copy dst src cap = copy_cstr dst src cap"

text \<open>The loop that all three operations search with.\<close>

definition shmem_find :: "u8 list \<Rightarrow> shmem \<Rightarrow> nat option" where
  "shmem_find name s =
     List.find (\<lambda>i. sh_used (sh_regions s ! i) \<and> name_eq (sh_name (sh_regions s ! i)) name) [0..<SHMEM_MAX]"

definition shmem_free_slot :: "shmem \<Rightarrow> nat option" where
  "shmem_free_slot s = List.find (\<lambda>i. \<not> sh_used (sh_regions s ! i)) [0..<SHMEM_MAX]"

definition shmem_npages :: "u32 \<Rightarrow> u32" where
  "shmem_npages sz = (let pages = (sz + 0xFFF) div 0x1000 in if pages = 0 then 1 else pages)"

text \<open>The allocation loop from page \<open>p\<close> on, \<open>k\<close> pages to go; a failure releases what it got.\<close>

fun shmem_pages :: "nat \<Rightarrow> nat \<Rightarrow> u32 \<Rightarrow> vmm \<Rightarrow> vmm \<times> u32 option" where
  "shmem_pages p 0 virt vm = (vm, Some virt)"
| "shmem_pages p (Suc k) virt vm =
     (let (vm1, page) = vmm_alloc 0 (PAGE_PRESENT OR PAGE_WRITE OR PAGE_USER) vm in
      if page = 0 then (vmm_free_run virt p vm1, None)
      else shmem_pages (Suc p) k (if p = 0 then page else virt) vm1)"

text \<open>\<open>None\<close> is a page fault while the region is cleared.\<close>

definition shmem_create :: "u8 list \<Rightarrow> u32 \<Rightarrow> shmem \<Rightarrow> (shmem \<times> u32) option" where
  "shmem_create name sz s =
     (case shmem_find name s of
        Some i \<Rightarrow> Some (s, sh_virt (sh_regions s ! i))
      | None \<Rightarrow>
        (case shmem_free_slot s of
           None \<Rightarrow> Some (s, 0)
         | Some i \<Rightarrow>
           (let pages = shmem_npages sz;
                (vm, r) = shmem_pages 0 (unat pages) 0 (sh_vm s);
                s1 = s\<lparr>sh_vm := vm\<rparr>
            in case r of
                 None \<Rightarrow> Some (s1, 0)
               | Some virt \<Rightarrow>
                   let s2 = s1\<lparr>sh_regions := (sh_regions s1)
                              [i := \<lparr>sh_name = name_copy (sh_name (sh_regions s1 ! i)) name 32, sh_used = True,
                                     sh_virt = virt, sh_size = pages * 0x1000\<rparr>]\<rparr>
                   in map_option (\<lambda>m. (s2\<lparr>sh_mem := m\<rparr>, virt))
                        (poke_list (vm_pg vm) virt (replicate (unat (pages * 0x1000)) 0) (sh_mem s)))))"

definition shmem_open :: "u8 list \<Rightarrow> shmem \<Rightarrow> u32" where
  "shmem_open name s = (case shmem_find name s of Some i \<Rightarrow> sh_virt (sh_regions s ! i) | None \<Rightarrow> 0)"

definition shmem_close :: "u8 list \<Rightarrow> shmem \<Rightarrow> shmem" where
  "shmem_close name s =
     (case shmem_find name s of
        None \<Rightarrow> s
      | Some i \<Rightarrow>
          let r = sh_regions s ! i; pages = sh_size r div 0x1000
          in s\<lparr>sh_vm := vmm_free_run (sh_virt r) (unat pages) (sh_vm s),
               sh_regions := (sh_regions s)[i := r\<lparr>sh_used := False\<rparr>]\<rparr>)"

subsection \<open>Names\<close>

lemma cstr_simps [simp]: "cstr [] = []" "cstr (c # s) = (if c = 0 then [] else c # cstr s)"
  by (simp_all add: cstr_def)

lemma name_eq_cstr: "name_eq as bs \<longleftrightarrow> cstr as = cstr bs"
proof (induction as arbitrary: bs)
  case Nil
  then show ?case by (cases bs) auto
next
  case (Cons a as)
  then show ?case by (cases bs) auto
qed

lemma cstr_id: "0 \<notin> set s \<Longrightarrow> cstr s = s"
  by (induction s) auto

lemma name_copy_cstr: "0 \<notin> set src \<Longrightarrow> cstr (name_copy dst src cap) = take (cap - 1) src"
  by (simp add: name_copy_def cstr_copy_cstr)

lemma length_name_copy: "length dst = cap \<Longrightarrow> 0 < cap \<Longrightarrow> length (name_copy dst src cap) = cap"
  by (simp add: name_copy_def length_copy_cstr)

subsection \<open>The invariant\<close>

definition region_ok :: "vmm \<Rightarrow> shmem_region \<Rightarrow> bool" where
  "region_ok vm r \<longleftrightarrow> unat (sh_size r) mod 4096 = 0 \<and> 0 < sh_size r
     \<and> vm_run vm (sh_virt r) (unat (sh_size r) div 4096)"

definition regions_apart :: "shmem_region \<Rightarrow> shmem_region \<Rightarrow> bool" where
  "regions_apart r q \<longleftrightarrow> cstr (sh_name r) \<noteq> cstr (sh_name q)
     \<and> (unat (sh_virt r) + unat (sh_size r) \<le> unat (sh_virt q) \<or> unat (sh_virt q) + unat (sh_size q) \<le> unat (sh_virt r))"

definition shmem_inv :: "shmem \<Rightarrow> bool" where
  "shmem_inv s \<longleftrightarrow> vmm_inv (sh_vm s) \<and> length (sh_regions s) = SHMEM_MAX
     \<and> (\<forall>i<SHMEM_MAX. length (sh_name (sh_regions s ! i)) = 32)
     \<and> (\<forall>i<SHMEM_MAX. sh_used (sh_regions s ! i) \<longrightarrow> region_ok (sh_vm s) (sh_regions s ! i))
     \<and> (\<forall>i<SHMEM_MAX. \<forall>j<SHMEM_MAX. sh_used (sh_regions s ! i) \<longrightarrow> sh_used (sh_regions s ! j) \<longrightarrow> i \<noteq> j \<longrightarrow>
          regions_apart (sh_regions s ! i) (sh_regions s ! j))"

lemma shmem_invD:
  assumes "shmem_inv s"
  shows "vmm_inv (sh_vm s)" "length (sh_regions s) = SHMEM_MAX"
    "i < SHMEM_MAX \<Longrightarrow> length (sh_name (sh_regions s ! i)) = 32"
    "i < SHMEM_MAX \<Longrightarrow> sh_used (sh_regions s ! i) \<Longrightarrow> region_ok (sh_vm s) (sh_regions s ! i)"
    "i < SHMEM_MAX \<Longrightarrow> j < SHMEM_MAX \<Longrightarrow> sh_used (sh_regions s ! i) \<Longrightarrow> sh_used (sh_regions s ! j) \<Longrightarrow> i \<noteq> j \<Longrightarrow>
       regions_apart (sh_regions s ! i) (sh_regions s ! j)"
  using assms unfolding shmem_inv_def by blast+

text \<open>What a change of the virtual memory state has to keep for the regions to stay as they are.\<close>

definition vm_keeps :: "vmm \<Rightarrow> vmm \<Rightarrow> bool" where
  "vm_keeps s s' \<longleftrightarrow> next_virt s \<le> next_virt s'
     \<and> (\<forall>x. vm_region s (page_base x) \<longrightarrow> paging_get_physical (vm_pg s') x = paging_get_physical (vm_pg s) x)"

lemma vm_run_keeps:
  assumes "vm_run s v n" "vm_keeps s s'"
  shows "vm_run s' v n"
proof -
  have "paging_get_physical (vm_pg s') (vpage v i) = paging_get_physical (vm_pg s) (vpage v i)" if "i < n" for i
    using vm_run_region [OF assms(1) that] assms(2) by (auto simp: vm_keeps_def vm_region_def)
  with assms show ?thesis by (auto simp: vm_run_def vm_keeps_def word_le_nat_alt)
qed

lemma region_ok_keeps: "region_ok s r \<Longrightarrow> vm_keeps s s' \<Longrightarrow> region_ok s' r"
  by (auto simp: region_ok_def intro: vm_run_keeps)

lemma vm_grown_apart:
  assumes "vm_grown s0 n s" "vm_region s0 w" "i < n"
  shows "w \<noteq> vpage (next_virt s0) i"
proof -
  have "vm_run s (next_virt s0) n" using assms(1) by (simp add: vm_grown_def)
  from unat_vpage [OF vm_run_bound [OF this assms(3)]] assms(2) show ?thesis
    by (auto simp: vm_region_def word_less_nat_alt)
qed

lemma vm_grown_keeps: "vm_grown s0 n s \<Longrightarrow> vm_keeps s0 s"
  using vm_grown_apart [of s0 n s] by (auto simp: vm_grown_def vm_keeps_def word_le_nat_alt)

lemma vm_grown_undo_keeps: "vm_grown s0 n s \<Longrightarrow> vm_keeps s0 (vmm_free_run (next_virt s0) n s)"
  using vm_grown_undo [of s0 n s] vm_grown_apart [of s0 n s] vm_grown_keeps [of s0 n s] by (auto simp: vm_keeps_def)

subsection \<open>The allocation loop\<close>

text \<open>\<open>vm_room s n\<close>: there are \<open>n\<close> free frames, and \<open>n\<close> pages of addresses below the last page of the address space.\<close>

definition vm_room :: "vmm \<Rightarrow> nat \<Rightarrow> bool" where
  "vm_room s n \<longleftrightarrow> n \<le> card (pmm_pool (vm_pmm s) - pmm_live (vm_pmm s)) \<and> unat (next_virt s) + n * 4096 \<le> 0xFFFFF000"

lemma vm_grown_room:
  assumes G: "vm_grown s0 n s"
  shows "vm_room s0 n"
proof -
  let ?f = "\<lambda>i. paging_get_physical (vm_pg s) (vpage (next_virt s0) i)"
  have I: "vmm_inv s" and R: "vm_run s (next_virt s0) n" and nv: "unat (next_virt s) = unat (next_virt s0) + n * 4096"
    using G by (simp_all add: vm_grown_def)
  have "inj_on ?f {..<n}"
  proof (rule inj_onI)
    fix i j assume ij: "i \<in> {..<n}" "j \<in> {..<n}" and e: "?f i = ?f j"
    have "vm_region s (vpage (next_virt s0) i)" "vm_region s (vpage (next_virt s0) j)" "?f i \<noteq> 0"
      using vm_run_region [OF R] R ij by (auto simp: vm_run_def)
    with I e have v: "vpage (next_virt s0) i = vpage (next_virt s0) j" unfolding vmm_inv_def vm_backed_def by blast
    show "i = j"
    proof (rule ccontr)
      assume "i \<noteq> j"
      then consider "i < j" | "j < i" by linarith
      then show False
        using v vpage_eq_iff [of "next_virt s0" i j] vpage_eq_iff [of "next_virt s0" j i]
          vm_run_bound [OF R] ij by cases auto
    qed
  qed
  then have "n = card (?f ` {..<n})" by (simp add: card_image)
  moreover have "?f ` {..<n} \<subseteq> pmm_pool (vm_pmm s0) - pmm_live (vm_pmm s0)"
    using G pmm.live_pool [of "vm_pmm s"] I by (auto simp: vm_grown_def vmm_inv_def)
  ultimately have c: "n \<le> card (pmm_pool (vm_pmm s0) - pmm_live (vm_pmm s0))"
    using card_mono [of "pmm_pool (vm_pmm s0) - pmm_live (vm_pmm s0)"] by (metis finite_Diff pmm.pool_finite)
  have "unat (next_virt s) mod 4096 = 0" using I by (simp add: vmm_inv_def aligned_iff)
  then obtain q where "unat (next_virt s) = 4096 * q" by blast
  with unat_u32_less [of "next_virt s"] have "unat (next_virt s) \<le> 0xFFFFF000" by simp
  with c nv show ?thesis by (simp add: vm_room_def)
qed

lemma vm_grown_stuck:
  assumes G: "vm_grown s0 p s" and al: "vmm_alloc 0 flags s = (s', 0)" and "p < n"
  shows "\<not> vm_room s0 n"
proof -
  let ?f = "\<lambda>i. paging_get_physical (vm_pg s) (vpage (next_virt s0) i)"
  have I: "vmm_inv s" using G by (simp add: vm_grown_def)
  consider "pmm_live (vm_pmm s) = pmm_pool (vm_pmm s)" | "next_virt s = 0xFFFFF000" using vmm_alloc_fail [OF I al] by blast
  then show ?thesis
  proof cases
    case 1
    then have "pmm_pool (vm_pmm s0) - pmm_live (vm_pmm s0) \<subseteq> ?f ` {..<p}" using G by (auto simp: vm_grown_def)
    then have "card (pmm_pool (vm_pmm s0) - pmm_live (vm_pmm s0)) \<le> card (?f ` {..<p})" by (rule card_mono [rotated]) simp
    also have "\<dots> \<le> p" using card_image_le [of "{..<p}" ?f] by simp
    finally show ?thesis using assms(3) by (simp add: vm_room_def)
  next
    case 2
    then have "unat (next_virt s0) + p * 4096 = 0xFFFFF000" using G by (simp add: vm_grown_def)
    moreover have "p * 4096 + 4096 \<le> n * 4096" using assms(3) by simp
    ultimately have "\<not> unat (next_virt s0) + n * 4096 \<le> 0xFFFFF000" by linarith
    then show ?thesis by (simp add: vm_room_def)
  qed
qed

lemma shmem_pages_spec:
  assumes "vm_grown s0 p vm" "0 < p \<longrightarrow> virt = next_virt s0" "shmem_pages p k virt vm = (vm', r)"
  shows "(case r of
      Some v \<Rightarrow> vm_grown s0 (p + k) vm' \<and> (0 < p + k \<longrightarrow> v = next_virt s0)
    | None \<Rightarrow> vmm_inv vm' \<and> pmm_live (vm_pmm vm') = pmm_live (vm_pmm s0) \<and> pmm_pool (vm_pmm vm') = pmm_pool (vm_pmm s0)
        \<and> vm_keeps s0 vm' \<and> \<not> vm_room s0 (p + k))"
  using assms
proof (induction k arbitrary: p virt vm)
  case (Suc k)
  obtain vm1 page where al: "vmm_alloc 0 (PAGE_PRESENT OR PAGE_WRITE OR PAGE_USER) vm = (vm1, page)" by fastforce
  have I: "vmm_inv vm" using Suc.prems(1) by (simp add: vm_grown_def)
  show ?case
  proof (cases "page = 0")
    case True
    then have "vm1 = vm" using vmm_alloc_fail [OF I] al by blast
    moreover have "vmm_free_run virt p vm = vmm_free_run (next_virt s0) p vm" using Suc.prems(2) by (cases p) auto
    ultimately have "r = None" "vm' = vmm_free_run (next_virt s0) p vm" using Suc.prems(3) al True by auto
    with vm_grown_undo [OF Suc.prems(1)] vm_grown_undo_keeps [OF Suc.prems(1)]
      vm_grown_stuck [OF Suc.prems(1) al [unfolded True], of "p + Suc k"] show ?thesis by simp
  next
    case False
    note G = vm_grown_Suc [OF Suc.prems(1) al False]
    have e: "(if p = 0 then page else virt) = next_virt s0"
      using G Suc.prems(2) by (auto simp: vpage_def)
    have "shmem_pages (Suc p) k (if p = 0 then page else virt) vm1 = (vm', r)" using Suc.prems(3) al False by simp
    from Suc.IH [OF conjunct1 [OF G] _ this [unfolded e]] show ?thesis by (simp split: option.splits)
  qed
qed auto

lemma shmem_npages:
  "0 < unat (shmem_npages sz)" "unat (shmem_npages sz * 0x1000) = unat (shmem_npages sz) * 4096"
proof -
  have "unat (shmem_npages sz) < 1048576 \<and> 0 < unat (shmem_npages sz)"
  proof (cases "(sz + 0xFFF) div 0x1000 = 0")
    case False
    have "unat (sz + 0xFFF) < 1048576 * 4096" using unat_u32_less [of "sz + 0xFFF"] by simp
    then have "unat ((sz + 0xFFF) div 0x1000) < 1048576" by (simp add: unat_div less_mult_imp_div_less)
    moreover have "0 < unat ((sz + 0xFFF) div 0x1000)" using False by (simp add: unat_gt_0)
    ultimately show ?thesis using False by (simp add: shmem_npages_def)
  qed (simp add: shmem_npages_def)
  then show "0 < unat (shmem_npages sz)" "unat (shmem_npages sz * 0x1000) = unat (shmem_npages sz) * 4096"
    by (simp_all add: unat_mult_u32)
qed

subsection \<open>Creating and opening\<close>

lemma shmem_find_Some:
  "shmem_find name s = Some i \<longleftrightarrow> i < SHMEM_MAX \<and> sh_used (sh_regions s ! i)
     \<and> cstr (sh_name (sh_regions s ! i)) = cstr name
     \<and> (\<forall>j<i. sh_used (sh_regions s ! j) \<longrightarrow> cstr (sh_name (sh_regions s ! j)) \<noteq> cstr name)"
  unfolding shmem_find_def find_upt_Some_iff name_eq_cstr by blast

lemma shmem_find_None:
  "shmem_find name s = None \<longleftrightarrow>
     (\<forall>i<SHMEM_MAX. sh_used (sh_regions s ! i) \<longrightarrow> cstr (sh_name (sh_regions s ! i)) \<noteq> cstr name)"
  unfolding shmem_find_def find_upt_None_iff name_eq_cstr by blast

lemma shmem_free_slot_Some: "shmem_free_slot s = Some i \<Longrightarrow> i < SHMEM_MAX \<and> \<not> sh_used (sh_regions s ! i)"
  unfolding shmem_free_slot_def find_upt_Some_iff by blast

lemma shmem_free_slot_None: "shmem_free_slot s = None \<longleftrightarrow> (\<forall>i<SHMEM_MAX. sh_used (sh_regions s ! i))"
  unfolding shmem_free_slot_def find_upt_None_iff by blast

lemma shmem_open_zero: "shmem_inv s \<Longrightarrow> shmem_open name s = 0 \<longleftrightarrow> shmem_find name s = None"
proof -
  assume I: "shmem_inv s"
  have "sh_virt (sh_regions s ! i) \<noteq> 0" if "shmem_find name s = Some i" for i
    using that shmem_invD(4) [OF I, of i] by (auto simp: shmem_find_Some region_ok_def vm_run_def)
  then show ?thesis by (auto simp: shmem_open_def split: option.splits)
qed

text \<open>Memory of a fresh run, after it has been cleared.\<close>

lemma vm_grown_offset:
  assumes G: "vm_grown s0 n s" and k: "k < n * 4096"
  shows "page_base (next_virt s0 + word_of_nat k) = vpage (next_virt s0) (k div 4096)"
    "k div 4096 < n"
    "page_present (vm_pg s) (next_virt s0 + word_of_nat k)"
proof -
  have R: "vm_run s (next_virt s0) n" using G by (simp add: vm_grown_def)
  have b: "unat (next_virt s0) + n * 4096 \<le> 4294967296"
    using R unat_u32_less [of "next_virt s"] unfolding vm_run_def by linarith
  have al: "page_base (next_virt s0) = next_virt s0" using R by (simp add: vm_run_def)
  show o: "page_base (next_virt s0 + word_of_nat k) = vpage (next_virt s0) (k div 4096)" "k div 4096 < n"
    by (rule page_base_offset [OF al b k])+
  have "paging_get_physical (vm_pg s) (vpage (next_virt s0) (k div 4096)) \<noteq> 0" using R o(2) by (simp add: vm_run_def)
  from page_present_translate [OF this] show "page_present (vm_pg s) (next_virt s0 + word_of_nat k)"
    unfolding o(1) [symmetric] page_present_base .
qed

lemma vm_grown_clear:
  assumes G: "vm_grown s0 n s" and I: "vmm_inv s0" and n: "nb = n * 4096"
  obtains m' where "poke_list (vm_pg s) (next_virt s0) (replicate nb 0) m = Some m'"
    "\<And>k. k < nb \<Longrightarrow> peek (vm_pg s) m' (next_virt s0 + word_of_nat k) = Some 0"
    "\<And>x. vm_region s0 (page_base x) \<Longrightarrow> paging_get_physical (vm_pg s0) (page_base x) \<noteq> 0 \<Longrightarrow>
       peek (vm_pg s) m' x = peek (vm_pg s0) m x"
proof -
  let ?T = "paging_get_physical (vm_pg s)" and ?v = "next_virt s0"
  let ?m = "\<lambda>p. if \<exists>k<nb. p = ?T (?v + word_of_nat k) then 0 else m p"
  note off = vm_grown_offset [OF G, folded n]
  have 1: "poke_list (vm_pg s) ?v (replicate nb 0) m = Some ?m" by (rule poke_list_replicate) (rule off(3))
  have 2: "peek (vm_pg s) ?m (?v + word_of_nat k) = Some 0" if "k < nb" for k
    using off(3) [OF that] that by (auto simp: peek_def)
  have 3: "peek (vm_pg s) ?m x = peek (vm_pg s0) m x"
    if r: "vm_region s0 (page_base x)" and nz: "paging_get_physical (vm_pg s0) (page_base x) \<noteq> 0" for x
  proof -
    have K: "vm_keeps s0 s" by (rule vm_grown_keeps [OF G])
    have t: "?T x = paging_get_physical (vm_pg s0) x" "?T (page_base x) = paging_get_physical (vm_pg s0) (page_base x)"
      using K r by (simp_all add: vm_keeps_def)
    have "?T (page_base x) \<in> pmm_live (vm_pmm s0)" using I r nz by (simp add: t vmm_inv_def vm_backed_def)
    moreover have "?T (page_base (?v + word_of_nat k)) \<notin> pmm_live (vm_pmm s0)" if "k < nb" for k
      unfolding off(1) [OF that] using G off(2) [OF that] by (simp add: vm_grown_def)
    ultimately have "?T x \<noteq> ?T (?v + word_of_nat k)" if "k < nb" for k
      using that by (metis page_base_translate)
    moreover have "page_present (vm_pg s) x" "page_present (vm_pg s0) x"
      using page_present_translate [of _ "page_base x"] nz t(2) by (auto simp: page_present_base)
    ultimately show ?thesis by (auto simp: peek_def t(1))
  qed
  from that [OF 1 2 3] show thesis .
qed

lemma region_ok_below:
  assumes "region_ok vm r"
  shows "unat (sh_virt r) + unat (sh_size r) \<le> unat (next_virt vm)"
  using assms by (auto simp: region_ok_def vm_run_def)

text \<open>The new region beside the old ones.\<close>

lemma shmem_inv_add:
  assumes I: "shmem_inv s" and slot: "i < SHMEM_MAX" "\<not> sh_used (sh_regions s ! i)"
    and fresh: "shmem_find name s = None" and nm: "length name \<le> 31" "0 \<notin> set name"
    and G: "vm_grown (sh_vm s) (unat n) vm" and n: "0 < unat n" "unat (n * 0x1000) = unat n * 4096"
  defines "r \<equiv> \<lparr>sh_name = name_copy (sh_name (sh_regions s ! i)) name 32, sh_used = True,
                sh_virt = next_virt (sh_vm s), sh_size = n * 0x1000\<rparr>"
  shows "shmem_inv (s\<lparr>sh_vm := vm, sh_regions := (sh_regions s)[i := r], sh_mem := m\<rparr>)"
proof -
  note D = shmem_invD [OF I]
  have len: "length (sh_regions s) = SHMEM_MAX" by (rule D(2))
  have nr: "cstr (sh_name r) = name" using nm by (simp add: r_def name_copy_cstr)
  have fr: "cstr (sh_name (sh_regions s ! j)) \<noteq> name" if "j < SHMEM_MAX" "sh_used (sh_regions s ! j)" for j
    using fresh that by (simp add: shmem_find_None cstr_id [OF nm(2)])
  have R: "region_ok vm r"
    using G n by (simp add: region_ok_def r_def vm_grown_def word_less_nat_alt)
  have O: "region_ok vm (sh_regions s ! j)" if "j < SHMEM_MAX" "sh_used (sh_regions s ! j)" for j
    using region_ok_keeps [OF D(4) [OF that] vm_grown_keeps [OF G]] .
  have A: "regions_apart (sh_regions s ! j) r \<and> regions_apart r (sh_regions s ! j)"
    if "j < SHMEM_MAX" "sh_used (sh_regions s ! j)" for j
    using region_ok_below [OF D(4) [OF that]] fr [OF that] nr by (auto simp: regions_apart_def r_def)
  have L: "length (sh_name r) = 32" using D(3) [OF slot(1)] by (simp add: r_def length_name_copy)
  have V: "vmm_inv vm" using G by (simp add: vm_grown_def)
  show ?thesis
    unfolding shmem_inv_def
    using D(3) D(5) R O A L V len slot by (simp add: nth_list_update)
qed

lemma shmem_inv_vm:
  assumes I: "shmem_inv s" and "vmm_inv vm" "vm_keeps (sh_vm s) vm"
  shows "shmem_inv (s\<lparr>sh_vm := vm\<rparr>)"
  using I assms(2,3) region_ok_keeps by (auto simp: shmem_inv_def)

definition shmem_new :: "shmem \<Rightarrow> nat \<Rightarrow> u8 list \<Rightarrow> u32 \<Rightarrow> vmm \<Rightarrow> phys_mem \<Rightarrow> shmem" where
  "shmem_new s i name sz vm m = s\<lparr>sh_vm := vm,
     sh_regions := (sh_regions s)[i := \<lparr>sh_name = name_copy (sh_name (sh_regions s ! i)) name 32, sh_used = True,
                                     sh_virt = next_virt (sh_vm s), sh_size = shmem_npages sz * 0x1000\<rparr>],
     sh_mem := m\<rparr>"

lemma shmem_create_cases [consumes 2, case_names null new]:
  assumes I: "shmem_inv s" and fresh: "shmem_find name s = None"
  obtains
    (null) vm where "shmem_create name sz s = Some (s\<lparr>sh_vm := vm\<rparr>, 0)" "vmm_inv vm" "vm_keeps (sh_vm s) vm"
      "pmm_live (vm_pmm vm) = pmm_live (vm_pmm (sh_vm s))"
      "(\<forall>j<SHMEM_MAX. sh_used (sh_regions s ! j)) \<or> \<not> vm_room (sh_vm s) (unat (shmem_npages sz))"
  | (new) i vm m where "shmem_create name sz s = Some (shmem_new s i name sz vm m, next_virt (sh_vm s))"
      "i < SHMEM_MAX" "\<not> sh_used (sh_regions s ! i)" "vm_grown (sh_vm s) (unat (shmem_npages sz)) vm"
      "\<And>k. k < unat (shmem_npages sz) * 4096 \<Longrightarrow> peek (vm_pg vm) m (next_virt (sh_vm s) + word_of_nat k) = Some 0"
      "\<And>x. vm_region (sh_vm s) (page_base x) \<Longrightarrow> paging_get_physical (vm_pg (sh_vm s)) (page_base x) \<noteq> 0 \<Longrightarrow>
         peek (vm_pg vm) m x = peek (vm_pg (sh_vm s)) (sh_mem s) x"
      "vm_room (sh_vm s) (unat (shmem_npages sz))"
proof (cases "shmem_free_slot s")
  case None
  then have "shmem_create name sz s = Some (s\<lparr>sh_vm := sh_vm s\<rparr>, 0)" using fresh by (simp add: shmem_create_def)
  then show ?thesis using shmem_invD(1) [OF I] None [unfolded shmem_free_slot_None]
    by (intro null [of "sh_vm s"]) (auto simp: vm_keeps_def)
next
  case (Some i)
  let ?n = "shmem_npages sz"
  obtain vm r where al: "shmem_pages 0 (unat ?n) 0 (sh_vm s) = (vm, r)" by fastforce
  note V = shmem_invD(1) [OF I]
  note P = shmem_pages_spec [OF vm_grown_0 [OF V] _ al, simplified]
  show ?thesis
  proof (cases r)
    case None
    then have "shmem_create name sz s = Some (s\<lparr>sh_vm := vm\<rparr>, 0)" using fresh Some al by (simp add: shmem_create_def)
    with P None show ?thesis by (intro null [of vm]) auto
  next
    case (Some v)
    with P shmem_npages(1) [of sz] have G: "vm_grown (sh_vm s) (unat ?n) vm" and v: "v = next_virt (sh_vm s)" by auto
    obtain m where m: "poke_list (vm_pg vm) v (replicate (unat (?n * 0x1000)) 0) (sh_mem s) = Some m"
      and rest: "\<And>k. k < unat ?n * 4096 \<Longrightarrow> peek (vm_pg vm) m (v + word_of_nat k) = Some 0"
       "\<And>x. vm_region (sh_vm s) (page_base x) \<Longrightarrow> paging_get_physical (vm_pg (sh_vm s)) (page_base x) \<noteq> 0 \<Longrightarrow>
         peek (vm_pg vm) m x = peek (vm_pg (sh_vm s)) (sh_mem s) x"
      using vm_grown_clear [OF G V shmem_npages(2) [of sz], folded v] shmem_npages(2) [of sz] by metis
    have "shmem_create name sz s = Some (shmem_new s i name sz vm m, v)"
      using fresh \<open>shmem_free_slot s = Some i\<close> al Some m v by (simp add: shmem_create_def shmem_new_def Let_def)
    then show ?thesis using shmem_free_slot_Some [OF \<open>shmem_free_slot s = Some i\<close>] G rest vm_grown_room [OF G] unfolding v
      by (intro new [of i vm m]) auto
  qed
qed

lemma shmem_find_new:
  assumes "shmem_inv s" "shmem_find name s = None" "i < SHMEM_MAX" "length name \<le> 31" "0 \<notin> set name"
  shows "shmem_find name (shmem_new s i name sz vm m) = Some i"
  unfolding shmem_find_Some using assms shmem_invD(2) [OF assms(1)]
  by (auto simp: shmem_new_def shmem_find_None name_copy_cstr cstr_id nth_list_update)

lemma shmem_new_slot:
  assumes "shmem_inv s" "i < SHMEM_MAX" "\<not> sh_used (sh_regions s ! i)" "length name \<le> 31" "0 \<notin> set name"
    and s': "s' = shmem_new s i name sz vm m"
  shows "\<exists>i<SHMEM_MAX. \<not> sh_used (sh_regions s ! i)
    \<and> sh_used (sh_regions s' ! i) \<and> cstr (sh_name (sh_regions s' ! i)) = name
    \<and> sh_virt (sh_regions s' ! i) = next_virt (sh_vm s) \<and> unat (sh_size (sh_regions s' ! i)) = unat (shmem_npages sz) * 4096
    \<and> (\<forall>j<SHMEM_MAX. j \<noteq> i \<longrightarrow> sh_regions s' ! j = sh_regions s ! j)"
  using assms shmem_invD(2) [OF assms(1)] shmem_npages(2) [of sz]
  by (intro exI [of _ i]) (simp add: s' shmem_new_def name_copy_cstr)

lemma shmem_new_others:
  assumes "shmem_inv s" "i < SHMEM_MAX" "\<not> sh_used (sh_regions s ! i)" "length name \<le> 31" "0 \<notin> set name"
  shows "\<forall>other. cstr other \<noteq> name \<longrightarrow> shmem_open other (shmem_new s i name sz vm m) = shmem_open other s"
proof (intro allI impI)
  fix other assume ne: "cstr other \<noteq> name"
  let ?s = "shmem_new s i name sz vm m"
  note D = shmem_invD [OF assms(1)]
  have "shmem_find other ?s = shmem_find other s"
    unfolding shmem_find_def shmem_new_def
    by (rule find_cong) (use assms D(2) ne in \<open>auto simp: name_eq_cstr nth_list_update name_copy_cstr\<close>)
  moreover have "j \<noteq> i" if "shmem_find other s = Some j" for j using that assms(3) by (auto simp: shmem_find_Some)
  ultimately show "shmem_open other ?s = shmem_open other s"
    by (auto simp: shmem_open_def shmem_new_def split: option.splits)
qed

text \<open>C31. \<^verbatim>\<open>shmem_create\<close>, for names of up to 31 characters, never faults, keeps the invariant and does one of
  three things. A name that exists gives the address of its region and changes nothing. Otherwise the result is
  null exactly when all 16 slots are in use, or there are not enough free frames or addresses for the size rounded
  up to whole pages; then no region, frame or byte has changed, and no translation of a page handed out before
  (the next fresh address may have moved on). In every other case there is a new region of that size in a slot that
  was free, all other slots are untouched and all other names give the same address as before; the new region
  starts at the next fresh address, is mapped and zero throughout, \<^verbatim>\<open>shmem_open\<close> finds it from then on,
  and every byte of every page handed out before reads as before.\<close>
theorem shmem_create_spec:
  assumes I: "shmem_inv s" and nm: "length name \<le> 31" "0 \<notin> set name"
  shows "\<exists>s' v. shmem_create name sz s = Some (s', v) \<and> shmem_inv s' \<and>
    (if shmem_open name s \<noteq> 0 then s' = s \<and> v = shmem_open name s
     else if (\<forall>j<SHMEM_MAX. sh_used (sh_regions s ! j)) \<or> \<not> vm_room (sh_vm s) (unat (shmem_npages sz))
     then v = 0 \<and> sh_regions s' = sh_regions s \<and> sh_mem s' = sh_mem s
       \<and> pmm_live (vm_pmm (sh_vm s')) = pmm_live (vm_pmm (sh_vm s)) \<and> vm_keeps (sh_vm s) (sh_vm s')
     else v = next_virt (sh_vm s) \<and> v \<noteq> 0
       \<and> (\<exists>i<SHMEM_MAX. \<not> sh_used (sh_regions s ! i)
            \<and> sh_used (sh_regions s' ! i) \<and> cstr (sh_name (sh_regions s' ! i)) = name
            \<and> sh_virt (sh_regions s' ! i) = v \<and> unat (sh_size (sh_regions s' ! i)) = unat (shmem_npages sz) * 4096
            \<and> (\<forall>j<SHMEM_MAX. j \<noteq> i \<longrightarrow> sh_regions s' ! j = sh_regions s ! j))
       \<and> shmem_open name s' = v \<and> (\<forall>other. cstr other \<noteq> name \<longrightarrow> shmem_open other s' = shmem_open other s)
       \<and> (\<forall>k<unat (shmem_npages sz) * 4096. peek (vm_pg (sh_vm s')) (sh_mem s') (v + word_of_nat k) = Some 0)
       \<and> (\<forall>x. vm_region (sh_vm s) (page_base x) \<longrightarrow> paging_get_physical (vm_pg (sh_vm s)) (page_base x) \<noteq> 0 \<longrightarrow>
            peek (vm_pg (sh_vm s')) (sh_mem s') x = peek (vm_pg (sh_vm s)) (sh_mem s) x))"
proof (cases "shmem_find name s")
  case (Some i)
  then have "shmem_open name s \<noteq> 0" using shmem_open_zero [OF I] by simp
  with Some I show ?thesis by (simp add: shmem_create_def shmem_open_def)
next
  case None
  then have z: "shmem_open name s = 0" by (simp add: shmem_open_def)
  from I None show ?thesis
  proof (cases rule: shmem_create_cases [where sz = sz])
    case (null vm)
    with shmem_inv_vm [OF I null(2,3)] z show ?thesis by simp
  next
    case (new i vm m)
    let ?s = "shmem_new s i name sz vm m" and ?v = "next_virt (sh_vm s)"
    have I': "shmem_inv ?s"
      using shmem_inv_add [OF I new(2,3) None nm new(4) shmem_npages] by (simp add: shmem_new_def)
    have "shmem_open name ?s = ?v"
      using shmem_find_new [OF I None new(2) nm] new(2) shmem_invD(2) [OF I]
      by (simp add: shmem_open_def shmem_new_def)
    moreover have "?v \<noteq> 0" using shmem_invD(1) [OF I] by (auto simp: vmm_inv_def)
    moreover have "sh_vm ?s = vm" "sh_mem ?s = m" by (simp_all add: shmem_new_def)
    moreover note shmem_new_slot [OF I new(2,3) nm refl] shmem_new_others [OF I new(2,3) nm]
    ultimately show ?thesis using new(1,2,3,5,6,7) I' z by (intro exI [of _ ?s] exI [of _ ?v]) auto
  qed
qed

definition shmem0 :: shmem where
  "shmem0 = \<lparr>sh_regions = replicate SHMEM_MAX \<lparr>sh_name = replicate 32 0, sh_used = False, sh_virt = 0, sh_size = 0\<rparr>,
             sh_vm = vmm_16mb, sh_mem = (\<lambda>_. 0)\<rparr>"

lemma shmem0_inv: "shmem_inv shmem0"
  using vmm_16mb_inv by (simp add: shmem_inv_def shmem0_def)

lemma shmem0_open: "shmem_open name shmem0 = 0"
  unfolding shmem_open_zero [OF shmem0_inv] by (simp add: shmem_find_None shmem0_def)

lemma shmem0_room: "vm_room (sh_vm shmem0) 1"
proof -
  have nv: "next_virt vmm_16mb = 0xD0000000" by (simp add: vmm_16mb_def vmm_init_def)
  have "0x181000 \<in> pmm_pool (vm_pmm vmm_16mb) - pmm_live (vm_pmm vmm_16mb)"
    using pmm_16mb(2) pool_16mb by (simp add: vmm_16mb_def vmm_init_def)
  then have "0 < card (pmm_pool (vm_pmm vmm_16mb) - pmm_live (vm_pmm vmm_16mb))"
    by (metis card_gt_0_iff empty_iff finite_Diff pmm.pool_finite)
  with nv show ?thesis by (simp add: vm_room_def shmem0_def)
qed

lemma shmem_create_spec_witness:
  "\<exists>s' v. shmem_create (bytes ''screen'') 4000 shmem0 = Some (s', v) \<and> shmem_inv s'
     \<and> v = 0xD0000000 \<and> shmem_open (bytes ''screen'') s' = v \<and> shmem_open (bytes ''x'') s' = 0"
proof -
  have z: "shmem_open (bytes ''screen'') shmem0 = 0" "shmem_open (bytes ''x'') shmem0 = 0" by (rule shmem0_open)+
  have v: "next_virt (sh_vm shmem0) = 0xD0000000" by (simp add: shmem0_def vmm_16mb_def vmm_init_def)
  have nm: "length (bytes ''screen'') \<le> 31" "0 \<notin> set (bytes ''screen'')" "cstr (bytes ''x'') \<noteq> bytes ''screen''"
    by (simp_all add: bytes_def ch_def)
  have f: "\<not> (\<forall>j<SHMEM_MAX. sh_used (sh_regions shmem0 ! j))" "vm_room (sh_vm shmem0) (unat (shmem_npages 4000))"
    using shmem0_room by (auto simp: shmem0_def SHMEM_MAX_def shmem_npages_def intro: exI [of _ 0])
  show ?thesis using shmem_create_spec [OF shmem0_inv nm(1,2), of 4000] nm(3) z v f by auto
qed

subsection \<open>Closing\<close>

lemma shmem_close_Some:
  assumes I: "shmem_inv s" and f: "shmem_find name s = Some i"
  defines "r \<equiv> sh_regions s ! i"
  shows "shmem_close name s = s\<lparr>sh_vm := vmm_free_run (sh_virt r) (unat (sh_size r) div 4096) (sh_vm s),
           sh_regions := (sh_regions s)[i := r\<lparr>sh_used := False\<rparr>]\<rparr>"
    and "vm_run (sh_vm s) (sh_virt r) (unat (sh_size r) div 4096)"
proof -
  show "shmem_close name s = s\<lparr>sh_vm := vmm_free_run (sh_virt r) (unat (sh_size r) div 4096) (sh_vm s),
           sh_regions := (sh_regions s)[i := r\<lparr>sh_used := False\<rparr>]\<rparr>"
    using f by (simp add: shmem_close_def r_def Let_def unat_div)
  have "i < SHMEM_MAX" "sh_used r" using f by (simp_all add: shmem_find_Some r_def)
  then show "vm_run (sh_vm s) (sh_virt r) (unat (sh_size r) div 4096)"
    using shmem_invD(4) [OF I, of i] by (simp add: region_ok_def r_def)
qed

lemma vm_run_apart:
  assumes "vm_run s v n" "vm_run s w k" "unat v + n * 4096 \<le> unat w \<or> unat w + k * 4096 \<le> unat v" "i < n" "j < k"
  shows "vpage v i \<noteq> vpage w j"
proof
  assume "vpage v i = vpage w j"
  then have e: "unat v + i * 4096 = unat w + j * 4096"
    using unat_vpage [OF vm_run_bound [OF assms(1,4)]] unat_vpage [OF vm_run_bound [OF assms(2,5)]] by simp
  have "i * 4096 + 4096 \<le> n * 4096" "j * 4096 + 4096 \<le> k * 4096" using assms(4,5) by simp_all
  with e assms(3) show False by linarith
qed

lemma shmem_close_contract:
  assumes I: "shmem_inv s"
  shows "shmem_inv (shmem_close name s) \<and> shmem_open name (shmem_close name s) = 0
    \<and> (\<forall>other. cstr other \<noteq> cstr name \<longrightarrow> shmem_open other (shmem_close name s) = shmem_open other s)
    \<and> (case shmem_find name s of
         None \<Rightarrow> shmem_close name s = s
       | Some i \<Rightarrow> let r = sh_regions s ! i; pages = (\<lambda>k. vpage (sh_virt r) k) ` {..<unat (sh_size r) div 4096} in
           pmm_live (vm_pmm (sh_vm (shmem_close name s)))
             = pmm_live (vm_pmm (sh_vm s)) - paging_get_physical (vm_pg (sh_vm s)) ` pages
           \<and> (\<forall>x\<in>pages. paging_get_physical (vm_pg (sh_vm (shmem_close name s))) x = 0)
           \<and> (\<forall>x. page_base x \<notin> pages \<longrightarrow>
                paging_get_physical (vm_pg (sh_vm (shmem_close name s))) x = paging_get_physical (vm_pg (sh_vm s)) x))"
proof (cases "shmem_find name s")
  case None
  then have "shmem_close name s = s" by (simp add: shmem_close_def)
  with None I show ?thesis by (simp add: shmem_open_def)
next
  case (Some i)
  let ?r = "sh_regions s ! i" and ?s = "shmem_close name s"
  let ?n = "unat (sh_size ?r) div 4096"
  let ?vm = "vmm_free_run (sh_virt ?r) ?n (sh_vm s)"
  note D = shmem_invD [OF I] and C = shmem_close_Some [OF I Some]
  have F: "i < SHMEM_MAX" "sh_used ?r" "cstr (sh_name ?r) = cstr name" using Some by (simp_all add: shmem_find_Some)
  note R = vmm_free_run_spec [OF D(1) C(2)]
  have ok: "region_ok ?vm (sh_regions s ! j)" if "j < SHMEM_MAX" "sh_used (sh_regions s ! j)" "j \<noteq> i" for j
  proof -
    let ?q = "sh_regions s ! j"
    let ?k = "unat (sh_size ?q) div 4096"
    have q: "unat (sh_size ?q) mod 4096 = 0" "0 < sh_size ?q" "vm_run (sh_vm s) (sh_virt ?q) ?k"
      using D(4) [OF that(1,2)] by (simp_all add: region_ok_def)
    have r: "unat (sh_size ?r) mod 4096 = 0" using D(4) [OF F(1,2)] by (simp add: region_ok_def)
    have "unat (sh_size ?q) = ?k * 4096" "unat (sh_size ?r) = ?n * 4096" using q(1) r by (auto simp: mod_eq_0_iff_dvd)
    then have ap: "unat (sh_virt ?r) + ?n * 4096 \<le> unat (sh_virt ?q) \<or> unat (sh_virt ?q) + ?k * 4096 \<le> unat (sh_virt ?r)"
      using D(5) [OF F(1) that(1) F(2) that(2) that(3) [symmetric]] by (simp add: regions_apart_def)
    have "paging_get_physical (vm_pg ?vm) (vpage (sh_virt ?q) a) = paging_get_physical (vm_pg (sh_vm s)) (vpage (sh_virt ?q) a)"
      if "a < ?k" for a
    proof -
      have "page_base (vpage (sh_virt ?q) a) = vpage (sh_virt ?q) a"
        using vm_run_region [OF q(3) that] by (simp add: vm_region_def)
      then have "\<forall>b<?n. page_base (vpage (sh_virt ?q) a) \<noteq> vpage (sh_virt ?r) b"
        using vm_run_apart [OF C(2) q(3) ap _ that] by metis
      with R show ?thesis by blast
    qed
    with q R show ?thesis by (simp add: region_ok_def vm_run_def)
  qed
  have I': "shmem_inv ?s"
    unfolding C(1) shmem_inv_def using R D(2,3,5) ok F(1) by (simp add: nth_list_update)
  have uniq: "cstr (sh_name (sh_regions s ! j)) \<noteq> cstr name" if "j < SHMEM_MAX" "sh_used (sh_regions s ! j)" "j \<noteq> i" for j
    using D(5) [OF F(1) that(1) F(2) that(2) that(3) [symmetric]] F(3) by (auto simp: regions_apart_def)
  then have none: "shmem_find name ?s = None"
    using F(1) D(2) by (auto simp: C(1) shmem_find_None nth_list_update)
  have other: "shmem_open other ?s = shmem_open other s" if "cstr other \<noteq> cstr name" for other
  proof -
    have "shmem_find other ?s = shmem_find other s"
      unfolding shmem_find_def C(1)
      by (rule find_cong) (use F D(2) that in \<open>auto simp: name_eq_cstr nth_list_update\<close>)
    moreover have "j \<noteq> i" if "shmem_find other s = Some j" for j
      using that F(3) \<open>cstr other \<noteq> cstr name\<close> by (auto simp: shmem_find_Some)
    ultimately show ?thesis by (auto simp: shmem_open_def C(1) split: option.splits)
  qed
  have vm: "sh_vm ?s = ?vm" by (simp add: C(1))
  let ?pages = "(\<lambda>k. vpage (sh_virt ?r) k) ` {..<?n}"
  have "shmem_open name ?s = 0" using none by (simp add: shmem_open_def)
  moreover have "pmm_live (vm_pmm ?vm) = pmm_live (vm_pmm (sh_vm s)) - paging_get_physical (vm_pg (sh_vm s)) ` ?pages"
    using R by (simp add: image_image)
  moreover have "\<forall>x\<in>?pages. paging_get_physical (vm_pg ?vm) x = 0" using R by blast
  moreover have "\<forall>x. page_base x \<notin> ?pages \<longrightarrow> paging_get_physical (vm_pg ?vm) x = paging_get_physical (vm_pg (sh_vm s)) x"
    using R by blast
  ultimately show ?thesis using I' other unfolding Some option.case Let_def vm by blast
qed

text \<open>C32. \<^verbatim>\<open>shmem_close\<close> of a shared memory region unmaps all of its pages and gives exactly their frames back;
  afterwards no region has the name, the addresses of all other names are the same, no other translation changes, and
  the invariant is kept. A name that no region has changes nothing.\<close>
theorem shmem_close_spec:
  assumes I: "shmem_inv s"
  shows "shmem_inv (shmem_close name s) \<and> shmem_open name (shmem_close name s) = 0
    \<and> (\<forall>other. cstr other \<noteq> cstr name \<longrightarrow> shmem_open other (shmem_close name s) = shmem_open other s)
    \<and> (case shmem_find name s of
         None \<Rightarrow> shmem_close name s = s
       | Some i \<Rightarrow> let r = sh_regions s ! i; pages = (\<lambda>k. vpage (sh_virt r) k) ` {..<unat (sh_size r) div 4096} in
           pmm_live (vm_pmm (sh_vm (shmem_close name s)))
             = pmm_live (vm_pmm (sh_vm s)) - paging_get_physical (vm_pg (sh_vm s)) ` pages
           \<and> (\<forall>x\<in>pages. paging_get_physical (vm_pg (sh_vm (shmem_close name s))) x = 0)
           \<and> (\<forall>x. page_base x \<notin> pages \<longrightarrow>
                paging_get_physical (vm_pg (sh_vm (shmem_close name s))) x = paging_get_physical (vm_pg (sh_vm s)) x))"
  by (rule shmem_close_contract [OF I])

lemma shmem_close_spec_witness: "shmem_inv (shmem_close (bytes ''x'') shmem0) \<and> shmem_open (bytes ''x'') (shmem_close (bytes ''x'') shmem0) = 0"
  using shmem_close_spec [OF shmem0_inv] by blast

text \<open>Closing a region right after creating it under a new name gives back all the frames it took: the
  physical allocator has the same frames in use as before, the other names the same addresses.\<close>
theorem shmem_create_close:
  assumes I: "shmem_inv s" and nm: "length name \<le> 31" "0 \<notin> set name"
    and new: "shmem_open name s = 0" and cr: "shmem_create name sz s = Some (s', v)"
  shows "pmm_live (vm_pmm (sh_vm (shmem_close name s'))) = pmm_live (vm_pmm (sh_vm s))
    \<and> (\<forall>other. cstr other \<noteq> name \<longrightarrow> shmem_open other (shmem_close name s') = shmem_open other s)"
proof -
  have None: "shmem_find name s = None" using new shmem_open_zero [OF I] by simp
  note D = shmem_invD [OF I]
  from I None show ?thesis
  proof (cases rule: shmem_create_cases [where sz = sz])
    case (null vm)
    then have "s' = s\<lparr>sh_vm := vm\<rparr>" using cr by simp
    with null(4) None show ?thesis by (auto simp: shmem_close_def shmem_find_def shmem_open_def split: option.split)
  next
    case (new i vm m)
    then have s': "s' = shmem_new s i name sz vm m" using cr by simp
    have I': "shmem_inv s'"
      using shmem_inv_add [OF I new(2,3) None nm new(4) shmem_npages] by (simp add: s' shmem_new_def)
    note f = shmem_find_new [OF I None new(2) nm, of sz vm m, folded s']
    have "shmem_close name s' = s'\<lparr>sh_vm := vmm_free_run (next_virt (sh_vm s)) (unat (shmem_npages sz)) vm,
        sh_regions := (sh_regions s')[i := (sh_regions s' ! i)\<lparr>sh_used := False\<rparr>]\<rparr>"
      using shmem_close_Some(1) [OF I' f] new(2) D(2) shmem_npages(2) [of sz] by (simp add: s' shmem_new_def)
    then have live: "pmm_live (vm_pmm (sh_vm (shmem_close name s'))) = pmm_live (vm_pmm (sh_vm s))"
      using vm_grown_undo [OF new(4)] by simp
    have "shmem_open other (shmem_close name s') = shmem_open other s" if "cstr other \<noteq> name" for other
    proof -
      have "cstr other \<noteq> cstr name" using that by (simp add: cstr_id [OF nm(2)])
      then have "shmem_open other (shmem_close name s') = shmem_open other s'" using shmem_close_contract [OF I'] by blast
      with shmem_new_others [OF I new(2,3) nm] that show ?thesis by (simp add: s')
    qed
    with live show ?thesis by blast
  qed
qed

lemma shmem_create_close_witness:
  "\<exists>s' v. shmem_create (bytes ''buf'') 100 shmem0 = Some (s', v)
     \<and> pmm_live (vm_pmm (sh_vm (shmem_close (bytes ''buf'') s'))) = pmm_live (vm_pmm vmm_16mb)"
proof -
  have nm: "length (bytes ''buf'') \<le> 31" "0 \<notin> set (bytes ''buf'')" by (simp_all add: bytes_def ch_def)
  have z: "shmem_open (bytes ''buf'') shmem0 = 0" by (rule shmem0_open)
  have "\<exists>s' v. shmem_create (bytes ''buf'') 100 shmem0 = Some (s', v)"
    using shmem0_inv z unfolding shmem_open_zero [OF shmem0_inv]
    by (cases rule: shmem_create_cases [where sz = 100]) auto
  then obtain s' v where "shmem_create (bytes ''buf'') 100 shmem0 = Some (s', v)" by blast
  with shmem_create_close [OF shmem0_inv nm z this] show ?thesis by (auto simp: shmem0_def)
qed

subsection \<open>Long names\<close>

text \<open>
  A name of more than 31 characters is stored cut off and so never found again: the region exists, but can be
  neither opened nor closed, and creating it again makes another one.
\<close>

lemma shmem_long_name_lost:
  assumes "31 < length name" "0 \<notin> set name" "length (sh_regions s) = SHMEM_MAX"
    and short: "\<forall>i<SHMEM_MAX. length (cstr (sh_name (sh_regions s ! i))) \<le> 31"
    and cr: "shmem_create name sz s = Some (s', v)"
  shows "shmem_open name s' = 0 \<and> shmem_close name s' = s'"
proof -
  have n: "cstr name = name" using assms(2) by (rule cstr_id)
  have find: "shmem_find name t = None" if "\<forall>i<SHMEM_MAX. length (cstr (sh_name (sh_regions t ! i))) \<le> 31" for t
    unfolding shmem_find_None n using that assms(1) by fastforce
  have "\<forall>i<SHMEM_MAX. length (cstr (sh_name (sh_regions s' ! i))) \<le> 31"
    using cr short assms(1-3) find [OF short]
    by (auto simp: shmem_create_def Let_def nth_list_update name_copy_cstr dest: shmem_free_slot_Some split: option.splits prod.splits)
  from find [OF this] show ?thesis by (simp add: shmem_open_def shmem_close_def)
qed

end
