(* ===== verification/Kernel_State.thy ===== *)
theory Kernel_State
  imports Fd Kmalloc Shmem Sched
begin

text \<open>
  The kernel's state as the system call handler, the program loader and the shell see it: the static
  variables of all components side by side. \<open>k_shm\<close> holds the shared memory regions, the physical
  allocator, the page tables and the bytes of physical memory; \<open>exec_ctx_depth\<close> is the one variable of the
  loader, \<open>exec_kstack\<close> the address of its stacks.
\<close>

record kernel =
  k_io :: io
  k_heap :: kheap
  k_heap_base :: u64          \<comment> \<open>what \<^verbatim>\<open>get_heap_base\<close> returns\<close>
  k_shm :: shmem
  k_sched :: sched
  exec_ctx_depth :: nat
  exec_kstack :: u32

definition k_vm :: "'a kernel_scheme \<Rightarrow> vmm" where
  "k_vm s = sh_vm (k_shm s)"

definition k_mem :: "'a kernel_scheme \<Rightarrow> phys_mem" where
  "k_mem s = sh_mem (k_shm s)"

definition set_vm :: "vmm \<Rightarrow> 'a kernel_scheme \<Rightarrow> 'a kernel_scheme" where
  "set_vm vm s = s\<lparr>k_shm := (k_shm s)\<lparr>sh_vm := vm\<rparr>\<rparr>"

definition set_mem :: "phys_mem \<Rightarrow> 'a kernel_scheme \<Rightarrow> 'a kernel_scheme" where
  "set_mem m s = s\<lparr>k_shm := (k_shm s)\<lparr>sh_mem := m\<rparr>\<rparr>"

definition k_vol :: "'a kernel_scheme \<Rightarrow> fatfs" where
  "k_vol s = vol (k_io s)"

definition set_vol :: "fatfs \<Rightarrow> 'a kernel_scheme \<Rightarrow> 'a kernel_scheme" where
  "set_vol v s = s\<lparr>k_io := (k_io s)\<lparr>vol := v\<rparr>\<rparr>"

definition k_puts :: "string \<Rightarrow> 'a kernel_scheme \<Rightarrow> 'a kernel_scheme" where
  "k_puts str s = s\<lparr>k_io := (k_io s)\<lparr>com1 := serial_puts (bytes str) (com1 (k_io s))\<rparr>\<rparr>"

definition k_puts_bytes :: "u8 list \<Rightarrow> 'a kernel_scheme \<Rightarrow> 'a kernel_scheme" where
  "k_puts_bytes str s = s\<lparr>k_io := (k_io s)\<lparr>com1 := serial_puts str (com1 (k_io s))\<rparr>\<rparr>"

definition k_putc :: "u8 \<Rightarrow> 'a kernel_scheme \<Rightarrow> 'a kernel_scheme" where
  "k_putc c s = s\<lparr>k_io := (k_io s)\<lparr>com1 := serial_putc c (com1 (k_io s))\<rparr>\<rparr>"

definition k_set_esp0 :: "u32 \<Rightarrow> 'a kernel_scheme \<Rightarrow> 'a kernel_scheme" where
  "k_set_esp0 e s = s\<lparr>k_sched := (k_sched s)\<lparr>sched_tss := tss_set_esp0 e (sched_tss (k_sched s))\<rparr>\<rparr>"

lemmas kernel_defs = k_vm_def k_mem_def set_vm_def set_mem_def k_vol_def set_vol_def k_puts_def k_puts_bytes_def
  k_putc_def k_set_esp0_def

lemma kernel_frames [simp]:
  "k_vm (set_vm vm s) = vm" "k_vm (set_mem m s) = k_vm s" "k_vm (set_vol v s) = k_vm s"
  "k_vm (k_puts t s) = k_vm s" "k_vm (k_puts_bytes b s) = k_vm s" "k_vm (k_putc c s) = k_vm s" "k_vm (k_set_esp0 e s) = k_vm s"
  "k_vm (s\<lparr>k_heap := h\<rparr>) = k_vm s" "k_vm (s\<lparr>exec_ctx_depth := d\<rparr>) = k_vm s"
  "k_mem (set_vm vm s) = k_mem s" "k_mem (set_mem m s) = m" "k_mem (set_vol v s) = k_mem s"
  "k_mem (s\<lparr>k_heap := h\<rparr>) = k_mem s" "k_mem (k_puts t s) = k_mem s" "k_mem (k_set_esp0 e s) = k_mem s"
  "k_vol (set_vm vm s) = k_vol s" "k_vol (set_mem m s) = k_vol s" "k_vol (set_vol v s) = v"
  "k_vol (k_puts t s) = k_vol s" "k_vol (k_puts_bytes b s) = k_vol s" "k_vol (k_putc c s) = k_vol s" "k_vol (k_set_esp0 e s) = k_vol s"
  "k_vol (s\<lparr>k_heap := h\<rparr>) = k_vol s" "k_vol (s\<lparr>exec_ctx_depth := d\<rparr>) = k_vol s"
  "k_heap (set_vm vm s) = k_heap s" "k_heap (set_mem m s) = k_heap s" "k_heap (set_vol v s) = k_heap s"
  "k_heap (k_puts t s) = k_heap s" "k_heap (k_puts_bytes b s) = k_heap s" "k_heap (k_putc c s) = k_heap s"
  "k_heap (k_set_esp0 e s) = k_heap s"
  "k_heap_base (set_vm vm s) = k_heap_base s" "k_heap_base (set_vol v s) = k_heap_base s"
  "exec_ctx_depth (set_vm vm s) = exec_ctx_depth s" "exec_ctx_depth (set_mem m s) = exec_ctx_depth s"
  "exec_ctx_depth (set_vol v s) = exec_ctx_depth s" "exec_ctx_depth (k_puts t s) = exec_ctx_depth s"
  "exec_ctx_depth (k_puts_bytes b s) = exec_ctx_depth s" "exec_ctx_depth (k_putc c s) = exec_ctx_depth s"
  "exec_ctx_depth (k_set_esp0 e s) = exec_ctx_depth s"
  by (simp_all add: kernel_defs)

end
