(* ===== verification/Page_Run.thy ===== *)
theory Page_Run
  imports Virt_Mem
begin

text \<open>
  Frames mapped one after the other at consecutive pages, from any address on: the pattern of the
  program loader and of the user stacks. Shared lemmas: what such a run adds to the frames in use, and that
  both ways of undoing it (frames only, frames and mappings) give all of them back.
\<close>

definition vm_ok :: "vmm \<Rightarrow> bool" where
  "vm_ok vm \<longleftrightarrow> pmm_inv (vm_pmm vm) \<and> paging_inv (vm_pg vm)
     \<and> page_base (pm_bitmap (vm_pmm vm)) = pm_bitmap (vm_pmm vm)"

lemma vmm_inv_ok: "vmm_inv vm \<Longrightarrow> vm_ok vm"
  by (simp add: vmm_inv_def vm_ok_def)

lemma page_base_shift: "page_base v = push_bit 12 (drop_bit 12 v)"
  by (auto simp: page_base_def high_mask bit_simps intro!: bit_word_eqI)

lemma page_base_vpage: "page_base (vpage v i) = vpage (page_base v) i"
proof -
  have split: "v = page_base v + page_off v" for v
  proof -
    have "page_base v AND page_off v = 0"
      by (auto simp: page_base_def page_off_def high_mask low_mask bit_simps intro!: bit_word_eqI)
    then have "page_base v + page_off v = page_base v OR page_off v" by (rule disjunctive_add_eq_or)
    then show ?thesis by (simp add: page_base_off)
  qed
  let ?a = "push_bit 12 (drop_bit 12 v + word_of_nat i) :: u32"
  have a: "vpage (page_base v) i = ?a"
    by (simp add: vpage_def page_base_shift push_bit_eq_mult algebra_simps)
  have "vpage v i = vpage (page_base v) i + page_off v"
    using split [of v] by (simp add: vpage_def)
  also have "\<dots> = ?a OR page_off v"
    unfolding a by (rule disjunctive_add_eq_or) (auto simp: page_off_def low_mask bit_simps intro!: bit_word_eqI)
  finally have "page_base (vpage v i) = page_base (?a OR page_off v)" by simp
  also have "\<dots> = ?a"
    by (auto simp: page_base_def page_off_def high_mask low_mask bit_simps intro!: bit_word_eqI)
  finally show ?thesis unfolding a .
qed

lemma vpage_inj:
  assumes "vpage v i = vpage v j" "i < 1048576" "j < 1048576"
  shows "i = j"
proof -
  have u: "unat (word_of_nat k * 0x1000 :: u32) = k * 4096" if "k < 1048576" for k
    using that by (subst unat_mult_u32) (simp_all add: unat_of_nat_u32)
  have "word_of_nat i * 0x1000 = (word_of_nat j * 0x1000 :: u32)" using assms(1) by (simp add: vpage_def)
  then show ?thesis using u [OF assms(2)] u [OF assms(3)] by (metis mult_cancel2 zero_neq_numeral)
qed

definition frame_at :: "vmm \<Rightarrow> u32 \<Rightarrow> nat \<Rightarrow> u32" where
  "frame_at vm base i = page_base (paging_get_physical (vm_pg vm) (vpage base i))"

definition run_mapped :: "vmm \<Rightarrow> u32 \<Rightarrow> nat \<Rightarrow> vmm \<Rightarrow> bool" where
  "run_mapped vm0 base n vm \<longleftrightarrow> vm_ok vm \<and> pmm_pool (vm_pmm vm) = pmm_pool (vm_pmm vm0) \<and> next_virt vm = next_virt vm0
     \<and> pmm_live (vm_pmm vm) = pmm_live (vm_pmm vm0) \<union> frame_at vm base ` {..<n}
     \<and> (\<forall>i<n. frame_at vm base i \<in> pmm_pool (vm_pmm vm0) - pmm_live (vm_pmm vm0))
     \<and> inj_on (frame_at vm base) {..<n}
     \<and> (\<forall>x. (\<forall>i<n. page_base x \<noteq> vpage (page_base base) i) \<longrightarrow>
          paging_get_physical (vm_pg vm) x = paging_get_physical (vm_pg vm0) x)"

lemma run_mappedD:
  assumes "run_mapped vm0 base n vm"
  shows "vm_ok vm" "pmm_pool (vm_pmm vm) = pmm_pool (vm_pmm vm0)" "next_virt vm = next_virt vm0"
    "pmm_live (vm_pmm vm) = pmm_live (vm_pmm vm0) \<union> frame_at vm base ` {..<n}"
    "i < n \<Longrightarrow> frame_at vm base i \<in> pmm_pool (vm_pmm vm0) - pmm_live (vm_pmm vm0)"
    "inj_on (frame_at vm base) {..<n}"
    "(\<And>i. i < n \<Longrightarrow> page_base x \<noteq> vpage (page_base base) i) \<Longrightarrow>
       paging_get_physical (vm_pg vm) x = paging_get_physical (vm_pg vm0) x"
  using assms unfolding run_mapped_def by blast+

lemma run_mapped_0: "vm_ok vm \<Longrightarrow> run_mapped vm base 0 vm"
  by (simp add: run_mapped_def)

lemma run_mapped_Suc:
  assumes M: "run_mapped vm0 base n vm" and n: "n < 1048575"
    and al: "pmm_alloc (vm_pmm vm) = (p, f)" and nz: "f \<noteq> 0"
  shows "run_mapped vm0 base (Suc n) (vm\<lparr>vm_pmm := p, vm_pg := paging_map (vpage base n) f fl (vm_pg vm)\<rparr>)"
    (is "run_mapped vm0 base (Suc n) ?vm")
proof -
  note D = run_mappedD [OF M]
  have P: "pmm_inv (vm_pmm vm)" "paging_inv (vm_pg vm)" and A: "page_base (pm_bitmap (vm_pmm vm)) = pm_bitmap (vm_pmm vm)"
    using D(1) by (simp_all add: vm_ok_def)
  note F = pmm.falloc_fresh [OF P(1) al nz]
  have fa: "page_base f = f" using pool_aligned [OF P(1) A] F by blast
  have ne: "vpage (page_base base) i \<noteq> vpage (page_base base) n" if "i < n" for i
    using vpage_inj [of "page_base base" i n] that n by auto
  have tr: "paging_get_physical (vm_pg ?vm) x = paging_get_physical (vm_pg vm) x"
    if "page_base x \<noteq> vpage (page_base base) n" for x
    using that by (simp add: pg.translate_map_other [OF P(2)] page_base_vpage)
  have fr_old: "frame_at ?vm base i = frame_at vm base i" if "i < n" for i
    using tr [of "vpage base i"] ne [OF that] by (simp add: frame_at_def page_base_vpage)
  have fr_new: "frame_at ?vm base n = f"
    by (subst fa [symmetric]) (simp add: frame_at_def pg.translate_map_same [OF P(2)])
  have im: "frame_at ?vm base ` {..<n} = frame_at vm base ` {..<n}" using fr_old by simp
  have nf: "f \<notin> frame_at vm base ` {..<n}" "f \<in> pmm_pool (vm_pmm vm0) - pmm_live (vm_pmm vm0)"
    using F D(2,4) by auto
  have "inj_on (frame_at ?vm base) {..<n}" using D(6) fr_old by (simp add: inj_on_def)
  then have inj: "inj_on (frame_at ?vm base) {..<Suc n}"
    using nf(1) unfolding lessThan_Suc by (simp add: fr_new im image_iff fr_old)
  have live: "pmm_live p = pmm_live (vm_pmm vm0) \<union> frame_at ?vm base ` {..<Suc n}"
    using F D(4) by (simp add: lessThan_Suc im fr_new)
  have mem: "frame_at ?vm base i \<in> pmm_pool (vm_pmm vm0) - pmm_live (vm_pmm vm0)" if "i < Suc n" for i
    using that D(5) [of i] nf(2) by (cases "i = n") (auto simp: fr_new fr_old)
  have old: "paging_get_physical (vm_pg ?vm) x = paging_get_physical (vm_pg vm0) x"
    if "\<forall>i<Suc n. page_base x \<noteq> vpage (page_base base) i" for x
    using that tr [of x] D(7) [of x] by simp
  have "vm_ok ?vm" using F A pm_bitmap_alloc [OF al] paging_inv_map [OF P(2)] by (simp add: vm_ok_def)
  then show ?thesis unfolding run_mapped_def using D(2,3) F live mem inj old by simp
qed

text \<open>Giving back the frames only, page by page.\<close>

definition release_frame :: "u32 \<Rightarrow> vmm \<Rightarrow> vmm" where
  "release_frame virt vm = vm\<lparr>vm_pmm := pmm_free (paging_get_physical (vm_pg vm) virt AND 0xFFFFF000) (vm_pmm vm)\<rparr>"

text \<open>Giving back frame and mapping of a page, if it is mapped.\<close>

definition release_page :: "u32 \<Rightarrow> vmm \<Rightarrow> vmm" where
  "release_page virt vm =
     (let phys = paging_get_physical (vm_pg vm) virt in
      if phys \<noteq> 0
      then vm\<lparr>vm_pg := paging_unmap virt (vm_pg vm), vm_pmm := pmm_free (phys AND 0xFFFFF000) (vm_pmm vm)\<rparr>
      else vm)"

definition release_run :: "(u32 \<Rightarrow> vmm \<Rightarrow> vmm) \<Rightarrow> u32 \<Rightarrow> nat \<Rightarrow> vmm \<Rightarrow> vmm" where
  "release_run release base n vm = fold (\<lambda>j. release (vpage base j)) [0..<n] vm"

lemma release_run_simps [simp]:
  "release_run r base 0 vm = vm"
  "release_run r base (Suc n) vm = r (vpage base n) (release_run r base n vm)"
  by (simp_all add: release_run_def)

lemma release_frame_run:
  assumes "vm_ok vm" "\<forall>i<n. frame_at vm base i \<in> pmm_pool (vm_pmm vm)"
  shows "vm_ok (release_run release_frame base n vm)
    \<and> vm_pg (release_run release_frame base n vm) = vm_pg vm
    \<and> next_virt (release_run release_frame base n vm) = next_virt vm
    \<and> pmm_pool (vm_pmm (release_run release_frame base n vm)) = pmm_pool (vm_pmm vm)
    \<and> pmm_live (vm_pmm (release_run release_frame base n vm)) = pmm_live (vm_pmm vm) - frame_at vm base ` {..<n}"
  using assms(2)
proof (induction n)
  case (Suc n)
  let ?t = "release_run release_frame base n vm"
  have IH: "vm_ok ?t" "vm_pg ?t = vm_pg vm" "next_virt ?t = next_virt vm" "pmm_pool (vm_pmm ?t) = pmm_pool (vm_pmm vm)"
    "pmm_live (vm_pmm ?t) = pmm_live (vm_pmm vm) - frame_at vm base ` {..<n}"
    using Suc by simp_all
  have f: "paging_get_physical (vm_pg vm) (vpage base n) AND 0xFFFFF000 = frame_at vm base n"
    by (simp add: frame_at_def page_base_def)
  have "pmm_inv (vm_pmm ?t)" "frame_at vm base n \<in> pmm_pool (vm_pmm ?t)"
    using IH Suc.prems by (simp_all add: vm_ok_def)
  note F = pmm.ffree_live [OF this]
  have r: "release_frame (vpage base n) ?t = ?t\<lparr>vm_pmm := pmm_free (frame_at vm base n) (vm_pmm ?t)\<rparr>"
    by (simp add: release_frame_def IH(2) f)
  have d: "pmm_live (vm_pmm vm) - frame_at vm base ` {..<Suc n}
      = pmm_live (vm_pmm vm) - frame_at vm base ` {..<n} - {frame_at vm base n}"
    by (auto simp: lessThan_Suc)
  have "vm_ok (?t\<lparr>vm_pmm := pmm_free (frame_at vm base n) (vm_pmm ?t)\<rparr>)" using F IH(1) by (simp add: vm_ok_def)
  then show ?case unfolding release_run_simps r d using IH(2-5) F by simp
qed (use assms(1) in simp)

lemma release_page_run:
  assumes "vm_ok vm" "\<forall>i<n. frame_at vm base i \<in> pmm_pool (vm_pmm vm)" "n \<le> 1048575"
  shows "vm_ok (release_run release_page base n vm)
    \<and> next_virt (release_run release_page base n vm) = next_virt vm
    \<and> pmm_pool (vm_pmm (release_run release_page base n vm)) = pmm_pool (vm_pmm vm)
    \<and> pmm_live (vm_pmm (release_run release_page base n vm)) = pmm_live (vm_pmm vm) - frame_at vm base ` {..<n}
    \<and> (\<forall>x. paging_get_physical (vm_pg (release_run release_page base n vm)) x =
         (if \<exists>i<n. page_base x = vpage (page_base base) i then 0 else paging_get_physical (vm_pg vm) x))"
  using assms(2,3)
proof (induction n)
  case (Suc n)
  let ?t = "release_run release_page base n vm" and ?v = "vpage base n"
  have IH: "vm_ok ?t" "next_virt ?t = next_virt vm" "pmm_pool (vm_pmm ?t) = pmm_pool (vm_pmm vm)"
    "pmm_live (vm_pmm ?t) = pmm_live (vm_pmm vm) - frame_at vm base ` {..<n}"
    "\<And>x. paging_get_physical (vm_pg ?t) x =
       (if \<exists>i<n. page_base x = vpage (page_base base) i then 0 else paging_get_physical (vm_pg vm) x)"
    using Suc by simp_all
  have ne: "vpage (page_base base) n \<noteq> vpage (page_base base) i" if "i < n" for i
    using vpage_inj [of "page_base base" i n] that Suc.prems(2) by auto
  have t: "paging_get_physical (vm_pg ?t) ?v = paging_get_physical (vm_pg vm) ?v"
    using ne by (auto simp: IH(5) page_base_vpage)
  have f: "paging_get_physical (vm_pg vm) ?v AND 0xFFFFF000 = frame_at vm base n"
    by (simp add: frame_at_def page_base_def)
  have P: "pmm_inv (vm_pmm ?t)" "paging_inv (vm_pg ?t)" and m: "frame_at vm base n \<in> pmm_pool (vm_pmm ?t)"
    using IH Suc.prems by (simp_all add: vm_ok_def)
  note F = pmm.ffree_live [OF P(1) m]
  have "frame_at vm base n \<noteq> 0" using m pmm.pool_nonnull [OF P(1)] by metis
  then have nz: "paging_get_physical (vm_pg vm) ?v \<noteq> 0" by (auto simp: frame_at_def page_base_def)
  have s: "release_page ?v ?t = ?t\<lparr>vm_pg := paging_unmap ?v (vm_pg ?t), vm_pmm := pmm_free (frame_at vm base n) (vm_pmm ?t)\<rparr>"
    using nz by (simp add: release_page_def t f)
  have tr: "paging_get_physical (paging_unmap ?v (vm_pg ?t)) x =
      (if \<exists>i<Suc n. page_base x = vpage (page_base base) i then 0 else paging_get_physical (vm_pg vm) x)" for x
  proof (cases "page_base x = page_base ?v")
    case True
    then show ?thesis using pg.translate_unmap_same [OF P(2) True] by (auto simp: page_base_vpage)
  next
    case False
    then show ?thesis
      by (auto simp: pg.translate_unmap_other [OF P(2) False] IH(5) less_Suc_eq page_base_vpage)
  qed
  have d: "pmm_live (vm_pmm vm) - frame_at vm base ` {..<Suc n}
      = pmm_live (vm_pmm vm) - frame_at vm base ` {..<n} - {frame_at vm base n}"
    by (auto simp: lessThan_Suc)
  have "vm_ok (release_page ?v ?t)" using F IH(1) paging_inv_unmap [OF P(2)] by (simp add: s vm_ok_def)
  moreover have "\<forall>x. paging_get_physical (vm_pg (release_page ?v ?t)) x =
      (if \<exists>i<Suc n. page_base x = vpage (page_base base) i then 0 else paging_get_physical (vm_pg vm) x)"
    using tr by (simp add: s)
  moreover have "next_virt (release_page ?v ?t) = next_virt vm"
    "pmm_pool (vm_pmm (release_page ?v ?t)) = pmm_pool (vm_pmm vm)"
    "pmm_live (vm_pmm (release_page ?v ?t)) = pmm_live (vm_pmm vm) - frame_at vm base ` {..<Suc n}"
    unfolding d using IH(2-4) F by (simp_all add: s)
  ultimately show ?case unfolding release_run_simps by blast
qed (use assms(1) in simp)

lemma run_mapped_release:
  assumes M: "run_mapped vm0 base n vm"
  shows "vm_ok (release_run release_frame base n vm)"
    "pmm_live (vm_pmm (release_run release_frame base n vm)) = pmm_live (vm_pmm vm0)"
    "pmm_pool (vm_pmm (release_run release_frame base n vm)) = pmm_pool (vm_pmm vm0)"
  using release_frame_run [of vm n base] run_mappedD [OF M] by auto

lemma run_mapped_release_page:
  assumes M: "run_mapped vm0 base n vm" and n: "n \<le> 1048575"
  shows "vm_ok (release_run release_page base n vm)"
    "pmm_live (vm_pmm (release_run release_page base n vm)) = pmm_live (vm_pmm vm0)"
    "pmm_pool (vm_pmm (release_run release_page base n vm)) = pmm_pool (vm_pmm vm0)"
    "(\<exists>i<n. page_base x = vpage (page_base base) i) \<Longrightarrow>
       paging_get_physical (vm_pg (release_run release_page base n vm)) x = 0"
    "\<not> (\<exists>i<n. page_base x = vpage (page_base base) i) \<Longrightarrow>
       paging_get_physical (vm_pg (release_run release_page base n vm)) x = paging_get_physical (vm_pg vm0) x"
  using release_page_run [of vm n base] run_mappedD [OF M] n by auto

subsection \<open>The mapping loop\<close>

text \<open>
  From page \<open>p\<close> on, \<open>k\<close> pages to go: take a frame, map it; when none is left undo what was done in the
  caller's way and report failure.
\<close>

fun map_run :: "(u32 \<Rightarrow> vmm \<Rightarrow> vmm) \<Rightarrow> nat \<Rightarrow> nat \<Rightarrow> u32 \<Rightarrow> vmm \<Rightarrow> vmm \<times> bool" where
  "map_run undo p 0 base vm = (vm, True)"
| "map_run undo p (Suc k) base vm =
     (let (pm, frame) = pmm_alloc (vm_pmm vm); vm1 = vm\<lparr>vm_pmm := pm\<rparr> in
      if frame = 0 then (release_run undo base p vm1, False)
      else map_run undo (Suc p) k base
             (vm1\<lparr>vm_pg := paging_map (vpage base p) frame (PAGE_PRESENT OR PAGE_WRITE OR PAGE_USER) (vm_pg vm1)\<rparr>))"

lemma map_run_spec:
  assumes "run_mapped vm0 base p vm" "p + k \<le> 1048575" "map_run undo p k base vm = (vm', ok)"
  shows "if ok then run_mapped vm0 base (p + k) vm'
    else \<exists>n vm1. n < p + k \<and> run_mapped vm0 base n vm1 \<and> vm' = release_run undo base n vm1"
  using assms
proof (induction k arbitrary: p vm)
  case (Suc k)
  obtain pm f where al: "pmm_alloc (vm_pmm vm) = (pm, f)" by fastforce
  have P: "pmm_inv (vm_pmm vm)" using run_mappedD(1) [OF Suc.prems(1)] by (simp add: vm_ok_def)
  show ?case
  proof (cases "f = 0")
    case True
    then have "pm = vm_pmm vm" using pmm.falloc_null [OF P] al by blast
    then have "vm' = release_run undo base p vm" "\<not> ok" using Suc.prems(3) al True by auto
    with Suc.prems(1) show ?thesis by (auto intro!: exI [of _ p] exI [of _ vm])
  next
    case False
    have "p < 1048575" using Suc.prems(2) by simp
    note M = run_mapped_Suc [OF Suc.prems(1) this al False, of "PAGE_PRESENT OR PAGE_WRITE OR PAGE_USER"]
    have "Suc p + k \<le> 1048575" using Suc.prems(2) by simp
    from Suc.IH [OF M this] Suc.prems(3) al False show ?thesis by (simp split: if_splits)
  qed
qed simp

end
