(* ===== verification/Elf.thy ===== *)
theory Elf
  imports Kernel_State Page_Run Kmalloc_Contract Fat_Frame
begin

text \<open>
  \<^verbatim>\<open>kernel/fs/elf/elf.cpp\<close> and \<^verbatim>\<open>elf.hpp\<close>: loading a program from the file system into fresh pages, running
  it in ring 3 on a stack of its own, and taking it down again. The program file is read back from the heap
  block the loader puts it in; the user program is a parameter, the effect of ring 3 on the kernel's state until
  \<^verbatim>\<open>elf_exit\<close>. The kernel's own static data are not subject to the mappings a program asks for.
\<close>

definition ELF_CLASS32 :: u8 where "ELF_CLASS32 = 1"
definition ELF_X86 :: u16 where "ELF_X86 = 3"
definition ELF_EXEC :: u16 where "ELF_EXEC = 2"
definition PT_LOAD :: u32 where "PT_LOAD = 1"

lemmas elf_consts = ELF_CLASS32_def ELF_X86_def ELF_EXEC_def PT_LOAD_def

record elf_header =
  eh_magic :: "u8 list"
  eh_bits :: u8
  eh_endian :: u8
  eh_version :: u8
  eh_abi :: u8
  eh_type :: u16
  eh_machine :: u16
  eh_version2 :: u32
  eh_entry :: u32
  eh_phoff :: u32
  eh_shoff :: u32
  eh_flags :: u32
  eh_ehsize :: u16
  eh_phentsize :: u16
  eh_phnum :: u16
  eh_shentsize :: u16
  eh_shnum :: u16
  eh_shstrndx :: u16

record elf_phdr =
  ph_type :: u32
  ph_offset :: u32
  ph_vaddr :: u32
  ph_paddr :: u32
  ph_filesz :: u32
  ph_memsz :: u32
  ph_flags :: u32
  ph_align :: u32

record elf_result =
  er_ok :: bool
  er_entry :: u32
  er_base :: u32
  er_size :: u32
  er_error :: "u8 list"

text \<open>The packed structures at an address.\<close>

definition elf_header_at :: "(u32 \<Rightarrow> u8) \<Rightarrow> u32 \<Rightarrow> elf_header" where
  "elf_header_at m a =
     \<lparr>eh_magic = map (\<lambda>i. m (a + word_of_nat i)) [0..<4], eh_bits = m (a + 4), eh_endian = m (a + 5), eh_version = m (a + 6),
      eh_abi = m (a + 7), eh_type = get16 m (a + 16), eh_machine = get16 m (a + 18), eh_version2 = get32 m (a + 20),
      eh_entry = get32 m (a + 24), eh_phoff = get32 m (a + 28), eh_shoff = get32 m (a + 32), eh_flags = get32 m (a + 36),
      eh_ehsize = get16 m (a + 40), eh_phentsize = get16 m (a + 42), eh_phnum = get16 m (a + 44),
      eh_shentsize = get16 m (a + 46), eh_shnum = get16 m (a + 48), eh_shstrndx = get16 m (a + 50)\<rparr>"

definition elf_phdr_at :: "(u32 \<Rightarrow> u8) \<Rightarrow> u32 \<Rightarrow> elf_phdr" where
  "elf_phdr_at m a =
     \<lparr>ph_type = get32 m a, ph_offset = get32 m (a + 4), ph_vaddr = get32 m (a + 8), ph_paddr = get32 m (a + 12),
      ph_filesz = get32 m (a + 16), ph_memsz = get32 m (a + 20), ph_flags = get32 m (a + 24), ph_align = get32 m (a + 28)\<rparr>"

subsection \<open>Loading\<close>

definition copy_str :: "u8 list \<Rightarrow> u8 list \<Rightarrow> nat \<Rightarrow> u8 list" where
  "copy_str dst src cap = copy_cstr dst src cap"

definition path_to_upper :: "u8 list \<Rightarrow> u8 list" where
  "path_to_upper src = map (\<lambda>c. if 0x61 \<le> c \<and> c \<le> 0x7A then c - 32 else c) (take 255 src)"

definition elf_valid :: "(u32 \<Rightarrow> u8) \<Rightarrow> u32 \<Rightarrow> bool" where
  "elf_valid m data \<longleftrightarrow> m data = 0x7F \<and> m (data + 1) = 0x45 \<and> m (data + 2) = 0x4C \<and> m (data + 3) = 0x46"

definition elf_error :: "string \<Rightarrow> elf_result" where
  "elf_error msg = \<lparr>er_ok = False, er_entry = 0, er_base = 0, er_size = 0,
                    er_error = copy_str (replicate 64 0) (bytes msg) 64\<rparr>"

text \<open>An error after the file buffer has been allocated: free it, then report.\<close>

definition elf_drop :: "u32 \<Rightarrow> string \<Rightarrow> 'a kernel_scheme \<Rightarrow> ('a kernel_scheme \<times> elf_result) option" where
  "elf_drop buf msg s = map_option (\<lambda>h. (s\<lparr>k_heap := h\<rparr>, elf_error msg)) (kfree buf (k_heap s))"

text \<open>The first pass over the program headers: lowest and highest address of the loadable segments.\<close>

definition elf_extent :: "elf_phdr \<Rightarrow> u32 \<times> u32 \<Rightarrow> u32 \<times> u32" where
  "elf_extent ph = (\<lambda>(load_base, load_end).
     if ph_type ph \<noteq> PT_LOAD then (load_base, load_end)
     else (if ph_vaddr ph < load_base then ph_vaddr ph else load_base,
           if load_end < ph_vaddr ph + ph_memsz ph then ph_vaddr ph + ph_memsz ph else load_end))"

definition npages :: "u32 \<Rightarrow> u32" where
  "npages tot = (tot + 0xFFF) div 0x1000"

text \<open>The bytes a segment puts at its address: the file's, then zeros up to \<^verbatim>\<open>memsz\<close>.\<close>

definition segment_bytes :: "(u32 \<Rightarrow> u8) \<Rightarrow> u32 \<Rightarrow> elf_phdr \<Rightarrow> u8 list" where
  "segment_bytes m buf ph =
     map (\<lambda>b. m (buf + ph_offset ph + word_of_nat b)) [0..<unat (ph_filesz ph)]
     @ replicate (unat (ph_memsz ph) - unat (ph_filesz ph)) 0"

text \<open>The second pass. \<open>Some (mem, None)\<close> is success, \<open>None\<close> a page fault.\<close>

fun elf_segments :: "(u32 \<Rightarrow> u8) \<Rightarrow> u32 \<Rightarrow> u32 \<Rightarrow> elf_phdr list \<Rightarrow> paging \<Rightarrow> phys_mem \<Rightarrow> (phys_mem \<times> string option) option" where
  "elf_segments m buf sz [] pg mem = Some (mem, None)"
| "elf_segments m buf sz (ph # phs) pg mem =
     (if ph_type ph \<noteq> PT_LOAD then elf_segments m buf sz phs pg mem
      else if sz < ph_offset ph + ph_filesz ph then Some (mem, Some ''segment exceeds file size'')
      else if 0xFFFFFFFF - ph_vaddr ph < ph_memsz ph then Some (mem, Some ''segment vaddr overflow'')
      else Option.bind (poke_list pg (ph_vaddr ph) (segment_bytes m buf ph) mem) (elf_segments m buf sz phs pg))"

text \<open>\<^verbatim>\<open>elf_load\<close> from the magic number on, the file in the heap block \<open>buf\<close>.\<close>

definition elf_phdrs :: "(u32 \<Rightarrow> u8) \<Rightarrow> u32 \<Rightarrow> elf_phdr list" where
  "elf_phdrs m buf =
     (let hdr = elf_header_at m buf
      in map (\<lambda>i. elf_phdr_at m (buf + eh_phoff hdr + word_of_nat i * 32)) [0..<unat (eh_phnum hdr)])"

definition elf_image :: "u32 \<Rightarrow> u32 \<Rightarrow> 'a kernel_scheme \<Rightarrow> ('a kernel_scheme \<times> elf_result) option" where
  "elf_image buf sz s =
     (let m = kh_bytes (k_heap s); hdr = elf_header_at m buf in
      if \<not> elf_valid m buf then elf_drop buf ''not an ELF file'' s
      else if eh_bits hdr \<noteq> ELF_CLASS32 then elf_drop buf ''not 32-bit ELF'' s
      else if eh_machine hdr \<noteq> ELF_X86 then elf_drop buf ''not x86 ELF'' s
      else if eh_type hdr \<noteq> ELF_EXEC then elf_drop buf ''not executable ELF'' s
      else if sz < eh_phoff hdr + ucast (eh_phnum hdr) * 32 then elf_drop buf ''program headers out of bounds'' s
      else
        let (load_base, load_end) = fold elf_extent (elf_phdrs m buf) (0xFFFFFFFF, 0) in
        if load_base = 0xFFFFFFFF then elf_drop buf ''no loadable segments'' s
        else
          let tot = load_end - load_base; pages = unat (npages tot);
              (vm, ok) = map_run release_frame 0 pages load_base (k_vm s); s1 = set_vm vm s in
          if \<not> ok then elf_drop buf ''pmm out of frames'' s1
          else Option.bind (elf_segments m buf sz (elf_phdrs m buf) (vm_pg vm) (k_mem s)) (\<lambda>(mem, err).
            let s2 = set_mem mem s1 in
            case err of
              Some msg \<Rightarrow> elf_drop buf msg (set_vm (release_run release_frame load_base pages vm) s2)
            | None \<Rightarrow> map_option (\<lambda>h. (s2\<lparr>k_heap := h\<rparr>,
                  \<lparr>er_ok = True, er_entry = eh_entry hdr, er_base = load_base, er_size = tot, er_error = replicate 64 0\<rparr>))
                (kfree buf (k_heap s2))))"

definition elf_open :: "u8 list \<Rightarrow> fatfs \<Rightarrow> fatfs \<times> int" where
  "elf_open path v = (let (v1, fd) = fat12_open (path_to_upper path) v in if fd < 0 then fat12_open path v1 else (v1, fd))"

text \<open>The bytes \<^verbatim>\<open>fat12_read\<close> stores through its buffer argument.\<close>

definition store_bytes :: "u32 \<Rightarrow> u8 list \<Rightarrow> (u32 \<Rightarrow> u8) \<Rightarrow> (u32 \<Rightarrow> u8)" where
  "store_bytes a bs m = fold (\<lambda>i m. m(a + word_of_nat i := bs ! i)) [0..<length bs] m"

definition elf_load :: "u8 list \<Rightarrow> 'a kernel_scheme \<Rightarrow> ('a kernel_scheme \<times> elf_result) option" where
  "elf_load path s =
     (let (v, fd) = elf_open path (k_vol s); s1 = set_vol v s in
      if fd < 0 then Some (s1, elf_error ''file not found'')
      else
        let sz = fat12_size fd v in
        if sz \<le> 0 then Some (set_vol (fat12_close fd v) s1, elf_error ''empty file'')
        else Option.bind (kmalloc (k_heap_base s1) (word_of_int sz) (k_heap s1)) (\<lambda>(h, buf).
          let s2 = s1\<lparr>k_heap := h\<rparr> in
          if buf = 0 then Some (set_vol (fat12_close fd v) s2, elf_error ''out of memory'')
          else Option.bind (fat12_read fd (word_of_int sz) v) (\<lambda>(v2, n, out).
            elf_image buf (word_of_int sz)
              (set_vol (fat12_close fd v2) (s2\<lparr>k_heap := h\<lparr>kh_bytes := store_bytes buf out (kh_bytes h)\<rparr>\<rparr>)))))"

definition elf_unload :: "u32 \<Rightarrow> u32 \<Rightarrow> 'a kernel_scheme \<Rightarrow> 'a kernel_scheme" where
  "elf_unload base sz s = set_vm (release_run release_page base (unat (npages sz)) (k_vm s)) s"

subsection \<open>Running\<close>

definition USER_STACK_BASE :: u32 where "USER_STACK_BASE = 0x800000"
definition USER_STACK_PAGES :: nat where "USER_STACK_PAGES = 4"
definition USER_STACK_STEP :: u32 where "USER_STACK_STEP = 0x10000"
definition MAX_EXEC_DEPTH :: nat where "MAX_EXEC_DEPTH = 4"
definition EXEC_KSTACK_SIZE :: u32 where "EXEC_KSTACK_SIZE = 0x4000"

lemmas exec_consts = USER_STACK_BASE_def USER_STACK_PAGES_def USER_STACK_STEP_def MAX_EXEC_DEPTH_def EXEC_KSTACK_SIZE_def

definition copy_err :: "u8 list \<Rightarrow> u8 list \<Rightarrow> nat \<Rightarrow> u8 list" where
  "copy_err dst src cap = copy_cstr dst src cap"

definition kstack_top :: "int \<Rightarrow> 'a kernel_scheme \<Rightarrow> u32" where
  "kstack_top depth s =
     (if depth < 0 \<or> int MAX_EXEC_DEPTH \<le> depth then 0x9FFFC
      else exec_kstack s + word_of_int depth * EXEC_KSTACK_SIZE + EXEC_KSTACK_SIZE)"

text \<open>The context \<^verbatim>\<open>elf_exit\<close> jumps back to; \<open>None\<close> halts the machine.\<close>

definition elf_exit :: "'a kernel_scheme \<Rightarrow> nat option" where
  "elf_exit s = (if 0 < exec_ctx_depth s then Some (exec_ctx_depth s - 1) else None)"

text \<open>\<^verbatim>\<open>if (err_out) copy_err(err_out, msg, err_sz);\<close>\<close>

definition exec_err :: "u8 list option \<Rightarrow> u8 list \<Rightarrow> nat \<Rightarrow> u8 list option" where
  "exec_err err_out msg err_sz = map_option (\<lambda>dst. copy_err dst msg err_sz) err_out"

text \<open>
  \<open>ring3 entry esp\<close> is the program from its entry point to \<^verbatim>\<open>elf_exit\<close>, which returns to the
  \<^verbatim>\<open>ksetjmp\<close> here; \<open>None\<close> when it never gets there.
\<close>

definition elf_exec :: "(u32 \<Rightarrow> u32 \<Rightarrow> 'a kernel_scheme \<Rightarrow> 'a kernel_scheme option) \<Rightarrow> u8 list \<Rightarrow> u8 list option \<Rightarrow> nat \<Rightarrow> 'a kernel_scheme
    \<Rightarrow> ('a kernel_scheme \<times> u8 list option) option" where
  "elf_exec ring3 path err_out err_sz s =
     Option.bind (elf_load path (k_putc 10 (k_puts_bytes path (k_puts ''[elf_exec] loading: '' s)))) (\<lambda>(s1, r).
       if \<not> er_ok r
       then Some (k_putc 10 (k_puts_bytes (er_error r) (k_puts ''[elf_exec] load failed: '' s1)),
                  exec_err err_out (cstr (er_error r)) err_sz)
       else
         let s2 = k_puts (''[elf_exec] loaded ok'' @ [CHR 0x0A]) s1; depth = exec_ctx_depth s2 in
         if MAX_EXEC_DEPTH \<le> depth then Some (s2, exec_err err_out (bytes ''exec: too deep'') err_sz)
         else
           let stack_base = USER_STACK_BASE + word_of_nat depth * USER_STACK_STEP;
               (vm, ok) = map_run release_page 0 USER_STACK_PAGES stack_base (k_vm s2); s3 = set_vm vm s2 in
           if \<not> ok then Some (elf_unload (er_base r) (er_size r) s3, exec_err err_out (bytes ''pmm: no stack frame'') err_sz)
           else
             let user_esp = vpage stack_base USER_STACK_PAGES;
                 s4 = k_puts (''[elf_exec] jumping to ring3'' @ [CHR 0x0A]) (k_set_esp0 (kstack_top (int depth) s3) s3)
             in map_option (\<lambda>s5.
                  let s6 = k_puts (''[elf_exec] returned from ring3'' @ [CHR 0x0A]) (s5\<lparr>exec_ctx_depth := depth\<rparr>);
                      s7 = k_set_esp0 (if 0 < depth then kstack_top (int depth - 1) s6 else 0x9FFFC) s6;
                      s8 = set_vm (release_run release_page stack_base USER_STACK_PAGES (k_vm s7)) s7
                  in (elf_unload (er_base r) (er_size r) s8, err_out))
                (ring3 (er_entry r) user_esp (s4\<lparr>exec_ctx_depth := depth + 1\<rparr>)))"

end
