(* ===== verification/Elf_Spec.thy ===== *)
theory Elf_Spec
  imports Elf
begin

text \<open>
  What the program loader promises: every path through \<^verbatim>\<open>elf_load\<close> gives back the heap block, the open file and,
  when it fails or after \<^verbatim>\<open>elf_unload\<close>, the page frames it took; a program that loads is in memory as its
  file says.
\<close>

subsection \<open>The heap block\<close>

lemma kheap_rep_bytes [simp]: "kheap_rep (h\<lparr>kh_bytes := m\<rparr>) bs = kheap_rep h bs"
  by (simp add: kheap_rep_def)

text \<open>\<open>heap_with bs buf h\<close>: the heap \<open>h\<close> has the used blocks of \<open>bs\<close> and one more, \<open>buf\<close>.\<close>

definition heap_with :: "block list \<Rightarrow> u32 \<Rightarrow> kheap \<Rightarrow> bool" where
  "heap_with bs buf h \<longleftrightarrow> buf \<noteq> 0 \<and>
     (\<exists>bs' m. kheap_rep h bs' \<and> blk_live bs' = insert (buf - 16, m) (blk_live bs) \<and> (buf - 16, m) \<notin> blk_live bs)"

definition heap_same :: "block list \<Rightarrow> kheap \<Rightarrow> bool" where
  "heap_same bs h \<longleftrightarrow> (\<exists>bs'. kheap_rep h bs' \<and> blk_live bs' = blk_live bs)"

lemma heap_with_free:
  assumes "heap_with bs buf h"
  obtains h' where "kfree buf h = Some h'" "heap_same bs h'" "kh_bytes h' = kh_bytes h"
proof -
  obtain bs' m where H: "kheap_rep h bs'" "blk_live bs' = insert (buf - 16, m) (blk_live bs)" "(buf - 16, m) \<notin> blk_live bs"
    and nz: "buf \<noteq> 0" using assms by (auto simp: heap_with_def)
  from kfree_contract [OF H(1) _ nz, of m] H(2) obtain h' bs'' where
    "kfree buf h = Some h'" "kheap_rep h' bs''" "kh_bytes h' = kh_bytes h" "blk_live bs'' = blk_live bs' - {(buf - 16, m)}"
    by auto
  with H that show ?thesis by (auto simp: heap_same_def)
qed

lemma heap_with_alloc:
  assumes "kheap_rep h bs" "0 < sz" "sz \<le> 0xFFFFFFF8" "kmalloc hb sz h = Some (h', buf)"
  shows "if buf = 0 then heap_same bs h' else heap_with bs buf h'"
proof -
  have "sz \<noteq> 0" using assms(2) by auto
  from kmalloc_contract [OF assms(1) this assms(3), of hb] assms(4) show ?thesis
    by (auto simp: heap_same_def heap_with_def)
qed

lemma heap_with_bytes [simp]: "heap_with bs buf (h\<lparr>kh_bytes := m\<rparr>) = heap_with bs buf h"
  by (simp add: heap_with_def)

subsection \<open>The frames\<close>

lemma npages_bound: "unat (npages tot) \<le> 1048575"
proof -
  have "unat (tot + 0xFFF) < 1048576 * 4096" using unat_u32_less [of "tot + 0xFFF"] by simp
  then have "unat (tot + 0xFFF) div 4096 < 1048576" by (simp add: less_mult_imp_div_less)
  then show ?thesis by (simp add: npages_def unat_div)
qed

text \<open>The state after a step of the loader, relative to the virtual memory before it.\<close>

definition frames_same :: "vmm \<Rightarrow> vmm \<Rightarrow> bool" where
  "frames_same vm0 vm \<longleftrightarrow> vm_ok vm \<and> pmm_live (vm_pmm vm) = pmm_live (vm_pmm vm0) \<and> pmm_pool (vm_pmm vm) = pmm_pool (vm_pmm vm0)"

definition loaded :: "vmm \<Rightarrow> elf_result \<Rightarrow> vmm \<Rightarrow> bool" where
  "loaded vm0 r vm \<longleftrightarrow> (if er_ok r then run_mapped vm0 (er_base r) (unat (npages (er_size r))) vm else frames_same vm0 vm)"

lemma frames_same_refl: "vm_ok vm \<Longrightarrow> frames_same vm vm"
  by (simp add: frames_same_def)

lemma elf_error_not_ok [simp]: "\<not> er_ok (elf_error msg)"
  by (simp add: elf_error_def)

lemma elf_drop_spec:
  assumes "heap_with bs buf (k_heap s)" "elf_drop buf msg s = Some (s', r)" "frames_same vm0 (k_vm s)"
  shows "heap_same bs (k_heap s') \<and> k_vol s' = k_vol s \<and> loaded vm0 r (k_vm s') \<and> exec_ctx_depth s' = exec_ctx_depth s"
proof -
  obtain h where "kfree buf (k_heap s) = Some h" "heap_same bs h" using heap_with_free [OF assms(1)] by blast
  with assms(2,3) show ?thesis by (auto simp: elf_drop_def loaded_def)
qed

lemma elf_image_spec:
  assumes H: "heap_with bs buf (k_heap s)" and V: "vm_ok (k_vm s)" and E: "elf_image buf sz s = Some (s', r)"
  shows "heap_same bs (k_heap s') \<and> k_vol s' = k_vol s \<and> loaded (k_vm s) r (k_vm s') \<and> exec_ctx_depth s' = exec_ctx_depth s"
proof -
  let ?m = "kh_bytes (k_heap s)"
  let ?hdr = "elf_header_at ?m buf" and ?phs = "elf_phdrs ?m buf"
  note drop = elf_drop_spec [OF H _ frames_same_refl [OF V]]
  show ?thesis
  proof (cases "elf_valid ?m buf \<and> eh_bits ?hdr = ELF_CLASS32 \<and> eh_machine ?hdr = ELF_X86 \<and> eh_type ?hdr = ELF_EXEC
      \<and> \<not> sz < eh_phoff ?hdr + ucast (eh_phnum ?hdr) * 32")
    case False
    then show ?thesis using E drop unfolding elf_image_def Let_def by (auto split: if_splits)
  next
    case chk: True
    obtain lo hi where ext: "fold elf_extent ?phs (0xFFFFFFFF, 0) = (lo, hi)" by fastforce
    show ?thesis
    proof (cases "lo = 0xFFFFFFFF")
      case True
      then show ?thesis using E drop chk ext unfolding elf_image_def Let_def by simp
    next
      case lo: False
      let ?n = "unat (npages (hi - lo))"
      obtain vm ok where mr: "map_run release_frame 0 ?n lo (k_vm s) = (vm, ok)" by fastforce
      have "0 + ?n \<le> 1048575" using npages_bound by simp
      note M = map_run_spec [OF run_mapped_0 [OF V] this mr]
      show ?thesis
      proof (cases ok)
        case False
        with M obtain n vm1 where "run_mapped (k_vm s) lo n vm1" "vm = release_run release_frame lo n vm1" by auto
        with run_mapped_release have F: "frames_same (k_vm s) vm" by (simp add: frames_same_def)
        have "elf_drop buf ''pmm out of frames'' (set_vm vm s) = Some (s', r)"
          using E chk ext lo mr False unfolding elf_image_def Let_def by simp
        from elf_drop_spec [OF _ this] H F show ?thesis by simp
      next
        case True
        with M have R: "run_mapped (k_vm s) lo ?n vm" by simp
        from E chk ext lo mr True obtain mem err where seg: "elf_segments ?m buf sz ?phs (vm_pg vm) (k_mem s) = Some (mem, err)"
          unfolding elf_image_def Let_def by (auto simp: bind_eq_Some_conv)
        show ?thesis
        proof (cases err)
          case (Some msg)
          let ?s2 = "set_vm (release_run release_frame lo ?n vm) (set_mem mem (set_vm vm s))"
          have "elf_drop buf msg ?s2 = Some (s', r)"
            using E chk ext lo mr True seg Some unfolding elf_image_def Let_def by simp
          moreover have "frames_same (k_vm s) (k_vm ?s2)" using run_mapped_release [OF R] by (simp add: frames_same_def)
          ultimately show ?thesis using elf_drop_spec [of bs buf ?s2] H by simp
        next
          case None
          obtain h where h: "kfree buf (k_heap s) = Some h" "heap_same bs h" using heap_with_free [OF H] by blast
          have "s' = (set_mem mem (set_vm vm s))\<lparr>k_heap := h\<rparr>" "er_ok r" "er_base r = lo" "er_size r = hi - lo"
            using E chk ext lo mr True seg None h unfolding elf_image_def Let_def by auto
          with R h show ?thesis by (simp add: loaded_def)
        qed
      qed
    qed
  qed
qed

subsection \<open>The open file\<close>

lemma fat_opened_close:
  assumes "fat_opened v0 v fd" "0 \<le> fd" "used_fds v' = used_fds v"
  shows "used_fds (fat12_close fd v') = used_fds v0"
proof -
  obtain f where fd: "fd < int FAT12_MAX_FDS" "\<not> ff_used (g_fds v0 ! nat fd)" "g_fds v = (g_fds v0)[nat fd := f]"
    using assms(1,2) by (auto simp: fat_opened_def)
  have "used_fds (fat12_close fd v') = (used_fds v')[nat fd := False]"
    using fd(1) assms(2) by (simp add: used_fds_def g_fds_fat12_close map_update)
  also have "\<dots> = (used_fds v0)[nat fd := False]"
    by (simp add: assms(3)) (simp add: used_fds_def fd(3) map_update)
  also have "\<dots> = used_fds v0"
    using fd(2) by (cases "nat fd < length (g_fds v0)") (auto simp: used_fds_def list_update_same_conv list_update_beyond)
  finally show ?thesis .
qed

lemma elf_open_opened:
  assumes "elf_open path v0 = (v, fd)"
  shows "fat_opened v0 v fd"
proof -
  obtain v1 fd1 where o: "fat12_open (path_to_upper path) v0 = (v1, fd1)" by fastforce
  note O = fat12_open_opened [OF o]
  show ?thesis
  proof (cases "fd1 < 0")
    case True
    with O have g: "g_fds v1 = g_fds v0" by (auto simp: fat_opened_def)
    have "fat12_open path v1 = (v, fd)" using assms o True by (simp add: elf_open_def)
    from fat12_open_opened [OF this] g show ?thesis by (simp add: fat_opened_def)
  next
    case False
    with assms o O show ?thesis by (simp add: elf_open_def)
  qed
qed

subsection \<open>No leak on any path\<close>

lemma elf_load_spec:
  assumes H: "kheap_rep (k_heap s) bs" and V: "vm_ok (k_vm s)" and L: "elf_load path s = Some (s', r)"
  shows "heap_same bs (k_heap s')" "used_fds (k_vol s') = used_fds (k_vol s)" "loaded (k_vm s) r (k_vm s')"
    "exec_ctx_depth s' = exec_ctx_depth s"
proof -
  obtain v fd where o: "elf_open path (k_vol s) = (v, fd)" by fastforce
  note O = elf_open_opened [OF o]
  have H0: "heap_same bs (k_heap s)" using H by (auto simp: heap_same_def)
  have F0: "loaded (k_vm s) (elf_error msg) (k_vm s)" for msg using V by (simp add: loaded_def frames_same_refl)
  have "heap_same bs (k_heap s') \<and> used_fds (k_vol s') = used_fds (k_vol s) \<and> loaded (k_vm s) r (k_vm s')
    \<and> exec_ctx_depth s' = exec_ctx_depth s"
  proof (cases "fd < 0")
    case True
    with O have "g_fds v = g_fds (k_vol s)" by (auto simp: fat_opened_def)
    then have "used_fds v = used_fds (k_vol s)" by (rule used_fds_cong)
    with L o True H0 F0 show ?thesis by (auto simp: elf_load_def)
  next
    case fd: False
    have cl: "used_fds (fat12_close fd v') = used_fds (k_vol s)" if "used_fds v' = used_fds v" for v'
      using fat_opened_close [OF O _ that] fd by simp
    show ?thesis
    proof (cases "fat12_size fd v \<le> 0")
      case True
      with L o fd H0 F0 cl show ?thesis by (auto simp: elf_load_def Let_def)
    next
      case sz: False
      let ?sz = "word_of_int (fat12_size fd v) :: u32"
      have "fat12_size fd v < 2147483648" using sint_lt [of "ff_size (g_fds v ! nat fd)"] by (auto simp: fat12_size_def)
      then have u: "uint ?sz = fat12_size fd v" using sz by (simp add: take_bit_int_eq_self unsigned_of_int)
      then have szb: "0 < ?sz" "?sz \<le> 0xFFFFFFF8" using sz \<open>fat12_size fd v < 2147483648\<close>
        by (simp_all add: word_less_def word_le_def)
      from L o fd sz obtain h buf where km: "kmalloc (k_heap_base s) ?sz (k_heap s) = Some (h, buf)"
        by (auto simp: elf_load_def Let_def bind_eq_Some_conv)
      note A = heap_with_alloc [OF H szb km]
      show ?thesis
      proof (cases "buf = 0")
        case True
        with L o fd sz km A F0 cl show ?thesis by (auto simp: elf_load_def Let_def)
      next
        case buf: False
        from L o fd sz km buf obtain v2 n out where rd: "fat12_read fd ?sz v = Some (v2, n, out)"
          by (auto simp: elf_load_def Let_def bind_eq_Some_conv)
        let ?s = "set_vol (fat12_close fd v2) ((set_vol v s)\<lparr>k_heap := h\<lparr>kh_bytes := store_bytes buf out (kh_bytes h)\<rparr>\<rparr>)"
        have "elf_image buf ?sz ?s = Some (s', r)"
          using L o fd sz km buf rd by (simp add: elf_load_def Let_def)
        from elf_image_spec [OF _ _ this, of bs] A buf V have
          "heap_same bs (k_heap s') \<and> k_vol s' = fat12_close fd v2 \<and> loaded (k_vm s) r (k_vm s') \<and> exec_ctx_depth s' = exec_ctx_depth s"
          by simp
        with cl [OF fat12_read_used [OF rd]] show ?thesis by simp
      qed
    qed
  qed
  then show "heap_same bs (k_heap s')" "used_fds (k_vol s') = used_fds (k_vol s)" "loaded (k_vm s) r (k_vm s')"
    "exec_ctx_depth s' = exec_ctx_depth s" by blast+
qed

text \<open>C33. Loading a program leaks nothing, whichever way it ends: after \<^verbatim>\<open>elf_load\<close> the heap has the same blocks in
  use as before and the file system the same files open. If it failed, the same page frames are in use; if it
  succeeded, they are once \<^verbatim>\<open>elf_unload\<close> has taken the program down, and the translations of all pages outside the
  program are what they were before.\<close>
theorem elf_load_no_leak:
  assumes "kheap_rep (k_heap s) bs" "vm_ok (k_vm s)" "elf_load path s = Some (s', r)"
  shows "(\<exists>bs'. kheap_rep (k_heap s') bs' \<and> blk_live bs' = blk_live bs)
    \<and> used_fds (k_vol s') = used_fds (k_vol s)
    \<and> (\<not> er_ok r \<longrightarrow> pmm_live (vm_pmm (k_vm s')) = pmm_live (vm_pmm (k_vm s)))
    \<and> (er_ok r \<longrightarrow>
         (let s'' = elf_unload (er_base r) (er_size r) s' in
          pmm_live (vm_pmm (k_vm s'')) = pmm_live (vm_pmm (k_vm s))
          \<and> (\<forall>x. paging_get_physical (vm_pg (k_vm s'')) x =
               (if \<exists>i<unat (npages (er_size r)). page_base x = vpage (page_base (er_base r)) i then 0
                else paging_get_physical (vm_pg (k_vm s)) x))))"
proof -
  note S = elf_load_spec [OF assms]
  have "pmm_live (vm_pmm (k_vm (elf_unload (er_base r) (er_size r) s'))) = pmm_live (vm_pmm (k_vm s))
      \<and> (\<forall>x. paging_get_physical (vm_pg (k_vm (elf_unload (er_base r) (er_size r) s'))) x =
               (if \<exists>i<unat (npages (er_size r)). page_base x = vpage (page_base (er_base r)) i then 0
                else paging_get_physical (vm_pg (k_vm s)) x))" if "er_ok r"
    using run_mapped_release_page [OF _ npages_bound, of "k_vm s" "er_base r" "er_size r" "k_vm s'"] S(3) that
    by (simp add: loaded_def elf_unload_def)
  with S show ?thesis by (auto simp: heap_same_def loaded_def frames_same_def Let_def)
qed

end
