(* ===== verification/Elf_Image.thy ===== *)
theory Elf_Image
  imports Elf_Spec Fd_Spec
begin

text \<open>
  The program loader's result in memory: after \<^verbatim>\<open>elf_load\<close> every loadable segment reads back as the bytes of
  its file part followed by zeros. The conditions are those the loader does not check itself.
\<close>

subsection \<open>Writing a list of bytes\<close>


subsection \<open>The pages of the program\<close>




subsection \<open>Segments\<close>











subsection \<open>The extent\<close>




subsection \<open>The loaded program\<close>



text \<open>
  A program of 88 bytes: header, one program header, and four bytes of code at file offset 84 that go to
  \<open>0x400000\<close>, with four zero bytes after them.
\<close>

definition elf_tiny :: "u8 list" where
  "elf_tiny = [0x7F, 0x45, 0x4C, 0x46, 1, 1, 1, 0, 0, 0, 0, 0, 0, 0, 0, 0, 2, 0, 3, 0, 1, 0, 0, 0, 0, 0, 0x40, 0,
     52, 0, 0, 0, 0, 0, 0, 0, 0, 0, 0, 0, 52, 0, 32, 0, 1, 0, 0, 0, 0, 0, 0, 0,
     1, 0, 0, 0, 84, 0, 0, 0, 0, 0, 0x40, 0, 0, 0, 0x40, 0, 4, 0, 0, 0, 8, 0, 0, 0, 7, 0, 0, 0, 0, 0x10, 0, 0,
     0x31, 0xC0, 0xEB, 0xFE]"

definition kheap_tiny :: kheap where
  "kheap_tiny = kheap0\<lparr>heap_ready := 1, heap_head := 0x108000, heap_pool := 0x108000,
     kh_hdr := (kh_hdr kheap0)
       (0x108000 := \<lparr>bh_magic = BLOCK_MAGIC, bh_size = 88, bh_free = 0, bh_next = 0x108068\<rparr>,
        0x108068 := \<lparr>bh_magic = BLOCK_MAGIC, bh_size = 0x7FF88, bh_free = 1, bh_next = 0\<rparr>),
     kh_bytes := (\<lambda>a. if unat (a - 0x108010) < 88 then elf_tiny ! unat (a - 0x108010) else 0)\<rparr>"

lemma kheap_tiny_rep:
  "kheap_rep kheap_tiny [\<lparr>b_addr = 0x108000, b_size = 88, b_free = False\<rparr>, \<lparr>b_addr = 0x108068, b_size = 0x7FF88, b_free = True\<rparr>]"
  by (simp add: kheap_rep_def kheap_tiny_def kheap0_def)

definition kernel_tiny :: kernel where
  "kernel_tiny = \<lparr>k_io = io0, k_heap = kheap_tiny,
     k_heap_base = 0x100000, k_shm = shmem0, k_sched = undefined, exec_ctx_depth = 0, exec_kstack = 0x200000\<rparr>"


lemma tiny_bytes: "kh_bytes (k_heap kernel_tiny) (0x108010 + word_of_nat k) = elf_tiny ! k" if "k < 88"
  using that by (simp add: kernel_tiny_def kheap_tiny_def unat_of_nat_u32)




lemma tiny_vm: "vm_ok (k_vm kernel_tiny)"
  using vmm_inv_ok [OF vmm_16mb_inv] by (simp add: kernel_tiny_def k_vm_def shmem0_def)



lemma elf_load_no_leak_witness:
  "\<exists>s' r. elf_load [] kernel_tiny = Some (s', r) \<and> \<not> er_ok r \<and> used_fds (k_vol s') = used_fds (k_vol kernel_tiny)"
proof -
  have o: "elf_open [] v = (v, -1)" for v
    by (simp add: elf_open_def path_to_upper_def fat12_open_def resolve_path_def resolve_loop.simps)
  then have E: "elf_load [] kernel_tiny = Some (set_vol (k_vol kernel_tiny) kernel_tiny, elf_error ''file not found'')"
    by (simp add: elf_load_def)
  have "kheap_rep (k_heap kernel_tiny) [\<lparr>b_addr = 0x108000, b_size = 88, b_free = False\<rparr>, \<lparr>b_addr = 0x108068, b_size = 0x7FF88, b_free = True\<rparr>]"
    by (simp add: kernel_tiny_def kheap_tiny_rep)
  from elf_load_no_leak [OF this tiny_vm E] E show ?thesis by simp
qed

end
