(* ===== verification/Ports.thy ===== *)
theory Ports
  imports Prelude
begin

text \<open>
  \<^verbatim>\<open>kernel/io/io.hpp\<close>: the port instructions. The hardware is a function \<open>dev\<close> that gives what a
  read of a port returns after a history of accesses; an access appends to the history. So a driver is a
  function on histories, and what it sends to a device can be read off the end result.
  \<open>poll_port n stop dev p\<close> is the idiom of the drivers' waiting loops: read port \<open>p\<close> until the value satisfies
  \<open>stop\<close>, at most \<open>n\<close> times.
\<close>

datatype pio = Out8 u16 u8 | Out16 u16 u16 | Out32 u16 u32 | In8 u16 u8 | In16 u16 u16 | In32 u16 u32

type_synonym device = "pio list \<Rightarrow> u16 \<Rightarrow> u32"

definition outb :: "u16 \<Rightarrow> u8 \<Rightarrow> pio list \<Rightarrow> pio list" where
  "outb port x h = h @ [Out8 port x]"

definition inb :: "device \<Rightarrow> u16 \<Rightarrow> pio list \<Rightarrow> u8 \<times> pio list" where
  "inb dev port h = (let x = ucast (dev h port) in (x, h @ [In8 port x]))"

definition outw :: "u16 \<Rightarrow> u16 \<Rightarrow> pio list \<Rightarrow> pio list" where
  "outw port x h = h @ [Out16 port x]"

definition inw :: "device \<Rightarrow> u16 \<Rightarrow> pio list \<Rightarrow> u16 \<times> pio list" where
  "inw dev port h = (let x = ucast (dev h port) in (x, h @ [In16 port x]))"

definition outl :: "u16 \<Rightarrow> u32 \<Rightarrow> pio list \<Rightarrow> pio list" where
  "outl port x h = h @ [Out32 port x]"

definition inl :: "device \<Rightarrow> u16 \<Rightarrow> pio list \<Rightarrow> u32 \<times> pio list" where
  "inl dev port h = (let x = dev h port in (x, h @ [In32 port x]))"

definition io_wait :: "pio list \<Rightarrow> pio list" where
  "io_wait h = outb 0x80 0 h"

fun poll_port :: "nat \<Rightarrow> (u8 \<Rightarrow> bool) \<Rightarrow> device \<Rightarrow> u16 \<Rightarrow> pio list \<Rightarrow> pio list" where
  "poll_port 0 stop dev port h = h"
| "poll_port (Suc n) stop dev port h =
     (case inb dev port h of (x, h1) \<Rightarrow> if stop x then h1 else poll_port n stop dev port h1)"

subsection \<open>What was sent\<close>

fun pio_outs :: "pio list \<Rightarrow> (u16 \<times> u32) list" where
  "pio_outs [] = []"
| "pio_outs (Out8 p x # h) = (p, ucast x) # pio_outs h"
| "pio_outs (Out16 p x # h) = (p, ucast x) # pio_outs h"
| "pio_outs (Out32 p x # h) = (p, x) # pio_outs h"
| "pio_outs (_ # h) = pio_outs h"

lemma pio_outs_append [simp]: "pio_outs (h @ g) = pio_outs h @ pio_outs g"
  by (induction h rule: pio_outs.induct) simp_all

lemma pio_outs_access [simp]:
  "pio_outs (outb p x h) = pio_outs h @ [(p, ucast x)]"
  "pio_outs (outw p y h) = pio_outs h @ [(p, ucast y)]"
  "inb dev p h = (a, h') \<Longrightarrow> pio_outs h' = pio_outs h"
  "inw dev p h = (b, h') \<Longrightarrow> pio_outs h' = pio_outs h"
  by (auto simp: outb_def outw_def inb_def inw_def Let_def)

lemma pio_outs_snd [simp]:
  "pio_outs (snd (inb dev p h)) = pio_outs h"
  "pio_outs (snd (inw dev p h)) = pio_outs h"
  by (simp_all add: inb_def inw_def Let_def)

lemma pio_outs_poll [simp]: "pio_outs (poll_port n stop dev p h) = pio_outs h"
  by (induction n stop dev p h rule: poll_port.induct) (simp_all split: prod.splits)

text \<open>A waiting loop reads at most as often as its counter says, whatever the device answers.\<close>

lemma poll_port_length: "length (poll_port n stop dev p h) \<le> length h + n"
proof (induction n stop dev p h rule: poll_port.induct)
  case (2 n stop dev p h)
  have "length (poll_port n stop dev p h1) \<le> Suc (length h) + n" if "inb dev p h = (x, h1)" "\<not> stop x" for x h1
    using "2.IH" [OF that(1) [symmetric] that(2)] that(1) by (auto simp: inb_def Let_def)
  then show ?case by (auto split: prod.splits) (auto simp: inb_def Let_def)
qed simp

end
