(* ===== verification/Ata.thy ===== *)
theory Ata
  imports Ports Fat_Disk
begin

text \<open>
  \<^verbatim>\<open>kernel/io/ata.cpp\<close>: reading and writing sectors through the ports of an IDE drive, and what a drive that
  follows the ATA protocol makes of it. A transfer buffer is the list of its 16-bit words; a read that fails has
  filled the words it returns and left the rest of the buffer alone.
\<close>

fun ata_poll :: "nat \<Rightarrow> device \<Rightarrow> pio list \<Rightarrow> bool \<times> pio list" where
  "ata_poll 0 dev h = (False, h)"
| "ata_poll (Suc n) dev h =
     (case inb dev 0x1F7 h of (s, h1) \<Rightarrow>
        if s AND 0x01 \<noteq> 0 then (False, h1)
        else if s AND 0x80 = 0 \<and> s AND 0x08 \<noteq> 0 then (True, h1)
        else ata_poll n dev h1)"

definition ata_wait :: "device \<Rightarrow> pio list \<Rightarrow> bool \<times> pio list" where
  "ata_wait dev h = ata_poll 100000 dev h"

definition ata_init :: "device \<Rightarrow> pio list \<Rightarrow> bool \<times> pio list" where
  "ata_init dev h =
     (let h = fold (\<lambda>_ h. snd (inb dev 0x1F7 h)) [0..<4] (outb 0x1F6 0xA0 h);
          (s, h) = inb dev 0x1F7 h
      in (s \<noteq> 0xFF, h))"

definition ata_command :: "u32 \<Rightarrow> u8 \<Rightarrow> u8 \<Rightarrow> pio list \<Rightarrow> pio list" where
  "ata_command lba cnt cmd h =
     outb 0x1F7 cmd (outb 0x1F5 (ucast (drop_bit 16 lba)) (outb 0x1F4 (ucast (drop_bit 8 lba)) (outb 0x1F3 (ucast lba)
       (outb 0x1F2 cnt (outb 0x1F6 (ucast (0xE0 OR (drop_bit 24 lba AND 0x0F))) h)))))"


definition ata_out :: "u16 list \<Rightarrow> pio list \<Rightarrow> pio list" where
  "ata_out ws h = fold (outw 0x1F0) ws h"



fun ata_write_sectors :: "nat \<Rightarrow> device \<Rightarrow> u16 list \<Rightarrow> pio list \<Rightarrow> bool \<times> pio list" where
  "ata_write_sectors 0 dev buf h = (True, h)"
| "ata_write_sectors (Suc n) dev buf h =
     (case ata_wait dev h of (ok, h1) \<Rightarrow>
        if \<not> ok then (False, h1)
        else ata_write_sectors n dev (drop 256 buf) (ata_out (take 256 buf) h1))"

definition ata_write :: "device \<Rightarrow> u32 \<Rightarrow> u8 \<Rightarrow> u16 list \<Rightarrow> pio list \<Rightarrow> bool \<times> pio list" where
  "ata_write dev lba cnt buf h =
     (case ata_write_sectors (unat cnt) dev buf (ata_command lba cnt 0x30 h) of (ok, h) \<Rightarrow>
        if \<not> ok then (False, h)
        else case ata_wait dev h of (ok, h) \<Rightarrow>
          if \<not> ok then (False, h)
          else ata_wait dev (outb 0x1F7 0xE7 h))"

subsection \<open>The drive\<close>

text \<open>
  What a drive knows of the accesses: the value last written to a register, and the number of words
  transferred since the last command.
\<close>

fun reg_out :: "u16 \<Rightarrow> pio list \<Rightarrow> u8" where
  "reg_out p [] = 0"
| "reg_out p (Out8 q x # h) = (if p = q then x else reg_out p h)"
| "reg_out p (_ # h) = reg_out p h"

fun words_done :: "pio list \<Rightarrow> nat" where
  "words_done [] = 0"
| "words_done (Out8 q x # h) = (if q = 0x1F7 then 0 else words_done h)"
| "words_done (Out16 q x # h) = (if q = 0x1F0 then Suc (words_done h) else words_done h)"
| "words_done (In16 q x # h) = (if q = 0x1F0 then Suc (words_done h) else words_done h)"
| "words_done (_ # h) = words_done h"

definition drive_lba :: "pio list \<Rightarrow> u32" where
  "drive_lba h = le32 (reg_out 0x1F3 (rev h)) (reg_out 0x1F4 (rev h)) (reg_out 0x1F5 (rev h)) (reg_out 0x1F6 (rev h) AND 0x0F)"

text \<open>The sector count register: 0 asks for 256 sectors.\<close>

definition drive_sectors :: "u8 \<Rightarrow> nat" where
  "drive_sectors c = (if c = 0 then 256 else unat c)"

definition drive_todo :: "pio list \<Rightarrow> nat" where
  "drive_todo h = drive_sectors (reg_out 0x1F2 (rev h)) * 256 - words_done (rev h)"

text \<open>
  \<open>transferring h\<close>: the last command was a read or a write, and no register has been written since (the argument of
  \<open>since_command\<close> is the history with the latest access first).
\<close>

fun since_command :: "pio list \<Rightarrow> bool" where
  "since_command [] = False"
| "since_command (Out8 q x # h) = (q = 0x1F7)"
| "since_command (_ # h) = since_command h"

definition transferring :: "pio list \<Rightarrow> bool" where
  "transferring h \<longleftrightarrow> since_command (rev h) \<and> reg_out 0x1F7 (rev h) \<in> {0x20, 0x30}"

text \<open>
  \<open>ata_drive dev words\<close>: what the driver relies on of a drive during a read or write command. While words of the
  transfer are outstanding the drive comes to request data within the time that \<^verbatim>\<open>ata_wait\<close> waits, with no error
  shown until then, and the data register gives the words of the sectors in order. When all are through it may
  be busy for any time and may report an error, but it never shows data request with busy clear: there is no data to
  transfer. \<open>words lba k\<close> is word \<open>k\<close> of the sectors from \<open>lba\<close> on.
\<close>

definition ata_drive :: "device \<Rightarrow> (u32 \<Rightarrow> nat \<Rightarrow> u16) \<Rightarrow> bool" where
  "ata_drive dev words \<longleftrightarrow>
     (\<forall>h. transferring h \<longrightarrow>
        (0 < drive_todo h \<longrightarrow> (\<exists>n<100000. \<exists>h1. ata_poll (Suc n) dev h = (True, h1)))
        \<and> (drive_todo h = 0 \<longrightarrow> \<not> (dev h 0x1F7 AND 0x80 = 0 \<and> dev h 0x1F7 AND 0x08 \<noteq> 0))
        \<and> (0 < drive_todo h \<longrightarrow> reg_out 0x1F7 (rev h) = 0x20 \<longrightarrow>
             dev h 0x1F0 = ucast (words (drive_lba h) (words_done (rev h)))))"

text \<open>Accesses that the registers do not see: reading the status.\<close>

lemma ata_poll_mono: "ata_poll n dev h = (True, h1) \<Longrightarrow> n \<le> m \<Longrightarrow> ata_poll m dev h = (True, h1)"
proof (induction n dev h arbitrary: m h1 rule: ata_poll.induct)
  case (2 n dev h)
  from "2.prems"(2) obtain m' where m: "m = Suc m'" "n \<le> m'" by (cases m) auto
  show ?case using "2.prems"(1) "2.IH" [of "fst (inb dev 0x1F7 h)" "snd (inb dev 0x1F7 h)"] m
    by (auto split: if_splits prod.splits)
qed simp

lemma status_reads: "ata_poll n dev h = (b, h1) \<Longrightarrow> \<exists>xs. h1 = h @ map (In8 0x1F7) xs"
proof (induction n dev h arbitrary: b h1 rule: ata_poll.induct)
  case (2 n dev h)
  obtain s where s: "inb dev 0x1F7 h = (s, h @ [In8 0x1F7 s])" by (auto simp: inb_def Let_def)
  show ?case
  proof (cases "s AND 0x01 \<noteq> 0 \<or> s AND 0x80 = 0 \<and> s AND 0x08 \<noteq> 0")
    case True
    with "2.prems" s have "h1 = h @ [In8 0x1F7 s]" by (auto split: if_splits)
    then show ?thesis by (intro exI [of _ "[s]"]) simp
  next
    case False
    then have "ata_poll n dev (h @ [In8 0x1F7 s]) = (b, h1)" using "2.prems" s by auto
    with "2.IH" s False obtain xs where "h1 = (h @ [In8 0x1F7 s]) @ map (In8 0x1F7) xs" by fastforce
    then show ?thesis by (intro exI [of _ "s # xs"]) simp
  qed
qed simp

lemma status_reads_invisible [simp]:
  "reg_out p (rev (map (In8 q) xs) @ h) = reg_out p h"
  "words_done (rev (map (In8 q) xs) @ h) = words_done h"
  "since_command (rev (map (In8 q) xs) @ h) = since_command h"
  by (induction xs arbitrary: h) simp_all

subsection \<open>A transfer\<close>

text \<open>\<open>xfer lba n cmd k h\<close>: after \<open>h\<close> the drive has command \<open>cmd\<close> for \<open>n\<close> sectors from \<open>lba\<close> on, and \<open>k\<close> words are through.\<close>

definition xfer :: "u32 \<Rightarrow> nat \<Rightarrow> u8 \<Rightarrow> nat \<Rightarrow> pio list \<Rightarrow> bool" where
  "xfer lba n cmd k h \<longleftrightarrow> since_command (rev h) \<and> reg_out 0x1F7 (rev h) = cmd
     \<and> drive_sectors (reg_out 0x1F2 (rev h)) = n \<and> drive_lba h = lba \<and> words_done (rev h) = k"

lemma xfer_todo:
  "xfer lba n cmd k h \<Longrightarrow> drive_todo h = n * 256 - k"
  "xfer lba n cmd k h \<Longrightarrow> cmd \<in> {0x20, 0x30} \<Longrightarrow> transferring h"
  by (auto simp: xfer_def drive_todo_def transferring_def)

lemma xfer_status: "xfer lba n cmd k h \<Longrightarrow> xfer lba n cmd k (h @ map (In8 q) xs)"
  by (simp add: xfer_def drive_lba_def)

lemma xfer_word:
  "xfer lba n cmd k h \<Longrightarrow> xfer lba n cmd (Suc k) (h @ [In16 0x1F0 x])"
  "xfer lba n cmd k h \<Longrightarrow> xfer lba n cmd (Suc k) (h @ [Out16 0x1F0 x])"
  by (simp_all add: xfer_def drive_lba_def)

lemma lba_bytes:
  assumes "lba < 0x10000000"
  shows "le32 (ucast lba) (ucast (drop_bit 8 lba)) (ucast (drop_bit 16 lba))
    (ucast (0xE0 OR (drop_bit 24 lba AND 0x0F)) AND 0x0F) = lba"
proof -
  have "lba = take_bit 28 lba"
    using assms by (simp add: word_unat_eq_iff unsigned_take_bit_eq take_bit_nat_eq_self word_less_nat_alt)
  then have hi: "\<not> bit lba n" if "28 \<le> n" for n using that by (metis bit_take_bit_iff not_less)
  have "ucast (0xE0 OR (drop_bit 24 lba AND 0x0F)) AND 0x0F = (ucast (drop_bit 24 lba) :: u8)"
  proof (rule bit_word_eqI)
    fix n assume "n < LENGTH(8)"
    then have "n \<in> {0, 1, 2, 3, 4, 5, 6, 7}" by auto
    then show "bit (ucast (0xE0 OR (drop_bit 24 lba AND 0x0F)) AND 0x0F :: u8) n = bit (ucast (drop_bit 24 lba) :: u8) n"
      using hi by (elim insertE) (simp_all add: bit_simps)
  qed
  then show ?thesis by simp
qed

lemma xfer_command:
  assumes "lba < 0x10000000"
  shows "xfer lba (drive_sectors cnt) cmd 0 (ata_command lba cnt cmd h)"
  using lba_bytes [OF assms] by (simp add: xfer_def ata_command_def outb_def drive_lba_def)

lemma ata_wait_drq:
  assumes "ata_drive dev words" "xfer lba n cmd k h" "cmd \<in> {0x20, 0x30}" "k < n * 256"
  shows "\<exists>h1. ata_wait dev h = (True, h1) \<and> xfer lba n cmd k h1 \<and> pio_outs h1 = pio_outs h"
proof -
  have "0 < drive_todo h" "transferring h" using xfer_todo [OF assms(2)] assms(3,4) by simp_all
  then obtain m h1 where m: "m < 100000" "ata_poll (Suc m) dev h = (True, h1)"
    using assms(1) unfolding ata_drive_def by blast
  then have "ata_poll 100000 dev h = (True, h1)" by (intro ata_poll_mono [OF m(2)]) simp
  moreover obtain xs where xs: "h1 = h @ map (In8 0x1F7) xs" using status_reads [OF m(2)] by blast
  moreover have "pio_outs (map (In8 0x1F7) xs) = []" by (induction xs) simp_all
  ultimately show ?thesis using xfer_status [OF assms(2)] by (simp add: ata_wait_def)
qed

lemma s_masks: "(ucast x :: u8) AND 0x80 = 0 \<longleftrightarrow> (x :: u32) AND 0x80 = 0" "(ucast x :: u8) AND 0x08 = 0 \<longleftrightarrow> (x :: u32) AND 0x08 = 0"
proof -
  have m: "(w :: 'a :: len word) AND 0x80 = 0 \<longleftrightarrow> \<not> bit w 7" "w AND 0x08 = 0 \<longleftrightarrow> \<not> bit w 3" for w
    using bit_iff_and_push_bit_not_eq_0 [of w 7] bit_iff_and_push_bit_not_eq_0 [of w 3]
    by (simp_all add: push_bit_eq_mult)
  show "(ucast x :: u8) AND 0x80 = 0 \<longleftrightarrow> x AND 0x80 = 0" "(ucast x :: u8) AND 0x08 = 0 \<longleftrightarrow> x AND 0x08 = 0"
    by (simp_all only: m) (simp_all add: bit_simps)
qed

lemma ata_wait_idle:
  assumes "ata_drive dev words" "xfer lba n cmd k h" "cmd \<in> {0x20, 0x30}" "n * 256 \<le> k"
  shows "fst (ata_poll m dev h) = False \<and> pio_outs (snd (ata_poll m dev h)) = pio_outs h"
  using assms(2)
proof (induction m arbitrary: h)
  case (Suc m)
  have "drive_todo h = 0" "transferring h" using xfer_todo [OF Suc.prems] assms(3,4) by simp_all
  then have b: "\<not> (dev h 0x1F7 AND 0x80 = 0 \<and> dev h 0x1F7 AND 0x08 \<noteq> 0)" using assms(1) unfolding ata_drive_def by blast
  define s where "s = (ucast (dev h 0x1F7) :: u8)"
  have i: "inb dev 0x1F7 h = (s, h @ [In8 0x1F7 s])" by (simp add: inb_def Let_def s_def)
  have "\<not> (s AND 0x80 = 0 \<and> s AND 0x08 \<noteq> 0)" using b by (simp add: s_def s_masks)
  moreover have "xfer lba n cmd k (h @ [In8 0x1F7 s])" using xfer_status [OF Suc.prems, of _ "[s]"] by simp
  ultimately show ?case using Suc.IH i by (auto simp del: bit_and_iff)
qed simp


lemma ata_out_words:
  "xfer lba n cmd k h \<Longrightarrow> xfer lba n cmd (k + length ws) (ata_out ws h)"
  "pio_outs (ata_out ws h) = pio_outs h @ map (\<lambda>w. (0x1F0, ucast w)) ws"
proof (induction ws arbitrary: k h)
  case (Cons w ws)
  { case 1
    then show ?case using Cons.IH(1) [OF xfer_word(2) [OF 1]] by (simp add: ata_out_def outw_def)
  next
    case 2
    then show ?case using Cons.IH(2) [of "outw 0x1F0 w h"] by (simp add: ata_out_def)
  }
qed (simp_all add: ata_out_def)



lemma ata_write_sectors_ok:
  assumes "ata_drive dev words" "xfer lba n 0x30 (i * 256) h" "i + m \<le> n" "length buf = m * 256"
  shows "\<exists>h'. ata_write_sectors m dev buf h = (True, h') \<and> xfer lba n 0x30 ((i + m) * 256) h'
    \<and> pio_outs h' = pio_outs h @ map (\<lambda>w. (0x1F0, ucast w)) buf"
  using assms(2-)
proof (induction m arbitrary: i h buf)
  case (Suc m)
  have lt: "i * 256 < n * 256" using Suc.prems(2) by auto
  obtain h1 where h1: "ata_wait dev h = (True, h1)" "xfer lba n 0x30 (i * 256) h1" "pio_outs h1 = pio_outs h"
    using ata_wait_drq [OF assms(1) Suc.prems(1) _ lt] by auto
  let ?h2 = "ata_out (take 256 buf) h1"
  have x: "xfer lba n 0x30 (Suc i * 256) ?h2" "Suc i + m \<le> n" "length (drop 256 buf) = m * 256"
    using ata_out_words(1) [OF h1(2), of "take 256 buf"] Suc.prems(2,3) by (simp_all add: add.commute)
  obtain h' where h': "ata_write_sectors m dev (drop 256 buf) ?h2 = (True, h')" "xfer lba n 0x30 ((Suc i + m) * 256) h'"
    "pio_outs h' = pio_outs ?h2 @ map (\<lambda>w. (0x1F0, ucast w)) (drop 256 buf)"
    using Suc.IH [OF x] by blast
  then show ?case
    by (auto simp: h1 ata_out_words(2) map_append [symmetric] simp del: map_append)
qed simp

text \<open>C39. To a drive that follows the protocol, however long it stays busy after the last word, \<^verbatim>\<open>ata_write\<close> of one
  sector or more sends the command and exactly the words of the buffer, in order, and nothing else: after the last
  word it waits for a data request that cannot come, gives up without the cache flush and reports failure
  although every word was transferred.\<close>

theorem ata_write_unflushed:
  assumes "ata_drive dev words" "lba < 0x10000000" "0 < cnt" "length buf = unat cnt * 256"
  shows "fst (ata_write dev lba cnt buf h) = False
    \<and> pio_outs (snd (ata_write dev lba cnt buf h)) = pio_outs (ata_command lba cnt 0x30 h) @ map (\<lambda>w. (0x1F0, ucast w)) buf"
proof -
  have n: "drive_sectors cnt = unat cnt" using assms(3) by (auto simp: drive_sectors_def)
  obtain h' where h': "ata_write_sectors (unat cnt) dev buf (ata_command lba cnt 0x30 h) = (True, h')"
    "xfer lba (unat cnt) 0x30 (unat cnt * 256) h'"
    "pio_outs h' = pio_outs (ata_command lba cnt 0x30 h) @ map (\<lambda>w. (0x1F0, ucast w)) buf"
    using ata_write_sectors_ok [OF assms(1), where lba = lba and n = "unat cnt" and i = 0 and m = "unat cnt" and buf = buf]
      xfer_command [OF assms(2), where cnt = cnt and cmd = "0x30" and h = h]
      assms(4) n by auto
  then have "fst (ata_wait dev h') = False" "pio_outs (snd (ata_wait dev h')) = pio_outs h'"
    using ata_wait_idle [OF assms(1) h'(2)] by (auto simp: ata_wait_def)
  then show ?thesis using h' by (auto simp: ata_write_def split: prod.splits)
qed

text \<open>
  A count of 0, which no caller passes, asks the drive for 256 sectors, but the loop runs over none: no word is
  sent, the flush command goes out while the drive is waiting for data.
\<close>

lemma ata_write_count_zero:
  assumes "ata_drive dev words" "lba < 0x10000000"
  shows "pio_outs (snd (ata_write dev lba 0 buf h)) = pio_outs (ata_command lba 0 0x30 h) @ [(0x1F7, 0xE7)]"
proof -
  have x: "xfer lba 256 0x30 0 (ata_command lba 0 0x30 h)"
    using xfer_command [OF assms(2), where cnt = 0] by (simp add: drive_sectors_def)
  obtain h1 where h1: "ata_wait dev (ata_command lba 0 0x30 h) = (True, h1)"
    "pio_outs h1 = pio_outs (ata_command lba 0 0x30 h)"
    using ata_wait_drq [OF assms(1) x] by auto
  obtain b h2 where h2: "ata_wait dev (outb 0x1F7 0xE7 h1) = (b, h2)" by (cases "ata_wait dev (outb 0x1F7 0xE7 h1)")
  then obtain xs where "h2 = outb 0x1F7 0xE7 h1 @ map (In8 0x1F7) xs" unfolding ata_wait_def using status_reads by blast
  moreover have "pio_outs (map (In8 0x1F7) xs) = []" by (induction xs) simp_all
  ultimately show ?thesis using h1 h2 by (simp add: ata_write_def outb_def)
qed

subsection \<open>A drive\<close>

text \<open>
  A drive that is ready at once: it shows data request while words are outstanding, gives the words of its sectors,
  and is busy when all are through.
\<close>

definition quick_drive :: "(u32 \<Rightarrow> nat \<Rightarrow> u16) \<Rightarrow> device" where
  "quick_drive words h p =
     (if p = 0x1F7 then if 0 < drive_todo h then 0x58 else 0xD0
      else if p = 0x1F0 then ucast (words (drive_lba h) (words_done (rev h))) else 0)"

lemma quick_drive_conforms: "ata_drive (quick_drive words) words"
proof -
  have "ata_poll (Suc 0) (quick_drive words) h = (True, h @ [In8 0x1F7 0x58])" if "0 < drive_todo h" for h
    using that by (simp add: inb_def quick_drive_def)
  then have "\<exists>n<100000. \<exists>h1. ata_poll (Suc n) (quick_drive words) h = (True, h1)" if "0 < drive_todo h" for h
    using that by (intro exI [of _ 0]) auto
  then show ?thesis by (auto simp: ata_drive_def quick_drive_def)
qed


lemma ata_write_unflushed_witness:
  "fst (ata_write (quick_drive (\<lambda>_ _. 0)) 7 1 (replicate 256 0xABCD) []) = False"
  using ata_write_unflushed [OF quick_drive_conforms, of 7 1 "replicate 256 0xABCD" "\<lambda>_ _. 0" "[]"] by simp

end
