(* ===== verification/Shell_Path.thy ===== *)
theory Shell_Path
  imports Klib_Str Fat12 Fd
begin

text \<open>
  \<^verbatim>\<open>kernel/shell/shell.cpp\<close>, the parts that work on strings: paths, the working directory, the operators of
  a command line, and the file system calls that are tried again in upper case. A C string is the list of its
  bytes; all local buffers have 256 bytes and the inputs are shorter than 128.
\<close>

definition SLASH :: u8 where "SLASH = 0x2F"

definition build_path :: "u8 list \<Rightarrow> u8 list option \<Rightarrow> u8 list" where
  "build_path cur rel =
     (case rel of
        None \<Rightarrow> take 254 cur
      | Some r \<Rightarrow>
          if r = [] then take 254 cur
          else if hd r = SLASH then take 254 r
          else let out = take 254 cur;
                   out = (if out \<noteq> [] \<and> List.last out \<noteq> SLASH then out @ [SLASH] else out)
               in out @ take (254 - length out) r)"

text \<open>\<^verbatim>\<open>cd ..\<close>: \<open>None\<close> when the working directory stays as it is and nothing is printed.\<close>

definition scan_slash :: "u8 list \<Rightarrow> nat \<Rightarrow> nat" where
  "scan_slash cur j = (case List.find (\<lambda>k. k = 0 \<or> cur ! k = SLASH) (rev [0..<Suc j]) of Some k \<Rightarrow> k | None \<Rightarrow> 0)"

definition parent_dir :: "u8 list \<Rightarrow> u8 list option" where
  "parent_dir cur =
     (if length cur \<le> 1 then None
      else let j = length cur - 1;
               j = (if cur ! j = SLASH then j - 1 else j);
               j = scan_slash cur j
           in Some (if j = 0 then [SLASH] else take j cur))"

definition to_upper_str :: "u8 list \<Rightarrow> u8 list" where
  "to_upper_str src = map (\<lambda>c. if is_lower c then c - 32 else c) src"

definition has_lower_alpha :: "u8 list \<Rightarrow> bool" where
  "has_lower_alpha s = list_ex is_lower s"

subsection \<open>Trying the name in upper case\<close>

definition fat12_open_case :: "u8 list \<Rightarrow> fatfs \<Rightarrow> fatfs \<times> int" where
  "fat12_open_case path v =
     (case fat12_open path v of (v1, fd) \<Rightarrow>
        if 0 \<le> fd then (v1, fd)
        else if \<not> has_lower_alpha path then (v1, -1)
        else fat12_open (to_upper_str path) v1)"

definition retry_case ::
  "(u8 list \<Rightarrow> fatfs \<Rightarrow> (fatfs \<times> bool) option) \<Rightarrow> u8 list \<Rightarrow> fatfs \<Rightarrow> (fatfs \<times> bool) option" where
  "retry_case f path v =
     Option.bind (f path v) (\<lambda>(v1, ok).
       if ok then Some (v1, True)
       else if \<not> has_lower_alpha path then Some (v1, False)
       else f (to_upper_str path) v1)"

definition fat12_delete_case :: "u8 list \<Rightarrow> fatfs \<Rightarrow> (fatfs \<times> bool) option" where
  "fat12_delete_case = retry_case fat12_delete"

definition fat12_rmdir_case :: "u8 list \<Rightarrow> fatfs \<Rightarrow> (fatfs \<times> bool) option" where
  "fat12_rmdir_case = retry_case fat12_rmdir"

definition fat12_mkdir_case :: "u8 list \<Rightarrow> fatfs \<Rightarrow> (fatfs \<times> bool) option" where
  "fat12_mkdir_case = retry_case fat12_mkdir"

definition fat12_create_case :: "u8 list \<Rightarrow> fatfs \<Rightarrow> (fatfs \<times> int) option" where
  "fat12_create_case path v =
     Option.bind (fat12_create path v) (\<lambda>(v1, fd).
       if 0 \<le> fd then Some (v1, fd)
       else if \<not> has_lower_alpha path then Some (v1, -1)
       else fat12_create (to_upper_str path) v1)"

subsection \<open>Operators\<close>

definition find_op :: "u8 list \<Rightarrow> u8 \<Rightarrow> int" where
  "find_op s c = (case List.find (\<lambda>i. s ! i = c) [0..<length s] of Some i \<Rightarrow> int i | None \<Rightarrow> -1)"

text \<open>\<^verbatim>\<open>while (i < pos && i < 255) left[i] = input[i]\<close>, the trimming of trailing blanks, and the part after the
  operator without leading blanks.\<close>

definition trim_right :: "u8 list \<Rightarrow> u8 list" where
  "trim_right s = rev (dropWhile (\<lambda>c. c = 0x20) (rev s))"

definition left_part :: "u8 list \<Rightarrow> int \<Rightarrow> u8 list" where
  "left_part s pos = trim_right (take (min (nat pos) 255) s)"

definition right_part :: "u8 list \<Rightarrow> int \<Rightarrow> u8 list" where
  "right_part s pos = take 255 (dropWhile (\<lambda>c. c = 0x20) (drop (nat (pos + 1)) s))"

text \<open>The command word, at most 31 bytes, and what follows the blank after it.\<close>

definition split_cmd :: "u8 list \<Rightarrow> u8 list \<times> u8 list option" where
  "split_cmd s =
     (let cmd = take 31 (takeWhile (\<lambda>c. c \<noteq> 0x20) s); i = length cmd
      in (cmd, if i < length s \<and> s ! i = 0x20 then Some (drop (i + 1) s) else None))"

subsection \<open>Bounds and the working directory\<close>

lemma build_path_length: "length (build_path cur rel) \<le> 255"
  by (auto simp: build_path_def Let_def split: option.splits)

lemma find_op_spec:
  "find_op s c = -1 \<and> c \<notin> set s \<or> (\<exists>i<length s. find_op s c = int i \<and> s ! i = c \<and> c \<notin> set (take i s))"
proof (cases "List.find (\<lambda>i. s ! i = c) [0..<length s]")
  case None
  then have "\<forall>i<length s. s ! i \<noteq> c" unfolding find_upt_None_iff by simp
  then show ?thesis using None by (auto simp: find_op_def in_set_conv_nth)
next
  case (Some i)
  then have "i < length s" "s ! i = c" "\<forall>j<i. s ! j \<noteq> c" unfolding find_upt_Some_iff by simp_all
  then have "c \<notin> set (take i s)" by (auto simp: in_set_conv_nth)
  with Some \<open>i < length s\<close> \<open>s ! i = c\<close> show ?thesis by (auto simp: find_op_def)
qed

lemma scan_slash_last:
  assumes "j < length cur" "\<forall>k. i < k \<and> k \<le> j \<longrightarrow> cur ! k \<noteq> SLASH" "cur ! i = SLASH" "i \<le> j"
  shows "scan_slash cur j = i"
proof -
  have "List.find (\<lambda>k. k = 0 \<or> cur ! k = SLASH) (rev [0..<Suc j]) = Some i"
    using assms(2,4)
  proof (induction j)
    case 0
    then show ?case by simp
  next
    case (Suc j)
    show ?case
    proof (cases "i = Suc j")
      case True
      then show ?thesis using assms(3) by simp
    next
      case False
      then have "cur ! Suc j \<noteq> SLASH" using Suc.prems by simp
      moreover have "List.find (\<lambda>k. k = 0 \<or> cur ! k = SLASH) (rev [0..<Suc j]) = Some i"
        using Suc False by simp
      ultimately show ?thesis by simp
    qed
  qed
  then show ?thesis by (simp add: scan_slash_def)
qed

text \<open>An absolute directory as \<^verbatim>\<open>cwd\<close> holds it: it starts with a slash and, but for the root, does not end with one.\<close>

definition dir_path :: "u8 list \<Rightarrow> bool" where
  "dir_path d \<longleftrightarrow> d = [SLASH] \<or> (2 \<le> length d \<and> hd d = SLASH \<and> List.last d \<noteq> SLASH)"

text \<open>\<^verbatim>\<open>cd ..\<close> undoes \<^verbatim>\<open>cd name\<close>: from every directory \<^verbatim>\<open>cwd\<close> can hold, the root included, the parent of the
  directory that \<^verbatim>\<open>build_path\<close> makes of a name is the directory one started from, up to the length the buffers hold.\<close>

theorem cd_into_parent:
  assumes d: "dir_path d" and n: "name \<noteq> []" "SLASH \<notin> set name" and len: "length d + length name \<le> 253"
  shows "parent_dir (build_path d (Some name)) = Some d"
proof -
  have hd: "hd name \<noteq> SLASH" using n by (cases name) auto
  have nth: "name ! k \<noteq> SLASH" if "k < length name" for k using that n(2) nth_mem by fastforce
  show ?thesis
  proof (cases "d = [SLASH]")
    case True
    then have b: "build_path d (Some name) = SLASH # name" using n(1) hd len by (simp add: build_path_def Let_def)
    have "(SLASH # name) ! length name \<noteq> SLASH" using n(1) nth [of "length name - 1"] by (cases name) auto
    moreover have "scan_slash (SLASH # name) (length name) = 0"
      by (rule scan_slash_last) (auto simp: nth_Cons' nth)
    ultimately show ?thesis unfolding b parent_dir_def Let_def using True n(1) by simp
  next
    case False
    then have d2: "2 \<le> length d" "List.last d \<noteq> SLASH" "d \<noteq> []" using d by (auto simp: dir_path_def)
    let ?b = "d @ SLASH # name"
    have b: "build_path d (Some name) = ?b" using n(1) hd len d2 by (simp add: build_path_def Let_def)
    have "?b ! (length d + length name) = name ! (length name - 1)"
      using n(1) by (cases name) (simp_all add: nth_append)
    then have ne: "?b ! (length d + length name) \<noteq> SLASH" using n(1) nth [of "length name - 1"] by simp
    have "scan_slash ?b (length d + length name) = length d"
    proof (rule scan_slash_last)
      show "\<forall>k. length d < k \<and> k \<le> length d + length name \<longrightarrow> ?b ! k \<noteq> SLASH"
        using nth by (auto simp: nth_append nth_Cons')
    qed simp_all
    then show ?thesis unfolding b parent_dir_def Let_def using d2 ne n(1) by simp
  qed
qed

lemma cd_into_parent_witness:
  "parent_dir (build_path [SLASH, 0x75, 0x73, 0x72] (Some [0x62, 0x69, 0x6E])) = Some [SLASH, 0x75, 0x73, 0x72]"
  by (rule cd_into_parent) (simp_all add: dir_path_def SLASH_def)

end
