(* ===== verification/Screen.thy ===== *)
theory Screen
  imports Bytes Chars
begin

text \<open>
  \<^verbatim>\<open>kernel/Graphics/text.cpp\<close> and \<^verbatim>\<open>text.hpp\<close>: drawing into the back buffer of 800 by 600 pixels, text from the
  8 by 8 font, and presenting the buffer on the display. Coordinates are C integers, wrapped to
  32 bits where a pixel is addressed; the font is an argument, a function from the index in its table. The
  back buffer is memory addressed by pixel index, so that a write outside its 480000 pixels would show; the display
  is memory addressed by byte.
\<close>

record screen =
  scr_y :: int
  g_backbuf :: "nat \<Rightarrow> u32"
  vbe_framebuffer :: u32
  vbe_pitch :: u32
  vbe_width :: u32
  vbe_height :: u32
  vbe_bpp :: u32
  vram :: "u32 \<Rightarrow> u8"

definition COL_BG :: u32 where "COL_BG = 0x1C1C1C"

definition set_y :: "int \<Rightarrow> screen \<Rightarrow> screen" where
  "set_y y s = s\<lparr>scr_y := y\<rparr>"

definition get_y :: "screen \<Rightarrow> int" where
  "get_y s = scr_y s"

definition fb_ready :: "screen \<Rightarrow> bool" where
  "fb_ready s \<longleftrightarrow> vbe_framebuffer s \<noteq> 0 \<and> vbe_pitch s \<noteq> 0 \<and> vbe_width s \<noteq> 0 \<and> vbe_height s \<noteq> 0 \<and> vbe_bpp s \<noteq> 0"

subsection \<open>Drawing\<close>

definition pixel_index :: "int \<Rightarrow> int \<Rightarrow> nat" where
  "pixel_index x y = unat (word_of_int y * 800 + word_of_int x :: u32)"

definition on_screen :: "int \<Rightarrow> int \<Rightarrow> bool" where
  "on_screen x y \<longleftrightarrow> (word_of_int x :: u32) < 800 \<and> (word_of_int y :: u32) < 600"

definition put_pixel :: "int \<Rightarrow> int \<Rightarrow> u32 \<Rightarrow> screen \<Rightarrow> screen" where
  "put_pixel x y color s =
     (if on_screen x y then s\<lparr>g_backbuf := (g_backbuf s)(pixel_index x y := color)\<rparr> else s)"

definition fill_screen :: "u32 \<Rightarrow> screen \<Rightarrow> screen" where
  "fill_screen color s =
     (if \<not> fb_ready s then s else s\<lparr>g_backbuf := (\<lambda>i. if i < 800 * 600 then color else g_backbuf s i)\<rparr>)"

definition draw_rect :: "int \<Rightarrow> int \<Rightarrow> int \<Rightarrow> int \<Rightarrow> u32 \<Rightarrow> screen \<Rightarrow> screen" where
  "draw_rect x y w h color s =
     fold (\<lambda>j. fold (\<lambda>i. put_pixel (x + int i) (y + int j) color) [0..<nat w]) [0..<nat h] s"

definition draw_glyph :: "(nat \<Rightarrow> u8) \<Rightarrow> u8 \<Rightarrow> int \<Rightarrow> int \<Rightarrow> u32 \<Rightarrow> screen \<Rightarrow> screen" where
  "draw_glyph font c x y color s =
     fold (\<lambda>row. fold (\<lambda>col.
         if font (unat (c - 0x20) * 8 + row) AND drop_bit col 0x80 \<noteq> 0
         then put_pixel (x + int col) (y + int row) color else id) [0..<8]) [0..<8] s"

fun printxy :: "(nat \<Rightarrow> u8) \<Rightarrow> u8 list \<Rightarrow> int \<Rightarrow> int \<Rightarrow> u32 \<Rightarrow> screen \<Rightarrow> screen" where
  "printxy font [] x y color s = s"
| "printxy font (c # str) x y color s =
     (if c < 0x20 \<or> 0x7E < c then printxy font str (x + 8) y color s
      else printxy font str (x + 8) y color (draw_glyph font c x y color s))"

definition printx :: "(nat \<Rightarrow> u8) \<Rightarrow> u8 list \<Rightarrow> int \<Rightarrow> u32 \<Rightarrow> screen \<Rightarrow> screen" where
  "printx font str x color s = (let s1 = printxy font str x (scr_y s) color s in s1\<lparr>scr_y := scr_y s1 + 10\<rparr>)"

definition print :: "(nat \<Rightarrow> u8) \<Rightarrow> u8 list \<Rightarrow> u32 \<Rightarrow> screen \<Rightarrow> screen" where
  "print font str color s = (let s1 = printxy font str 0 (scr_y s) color s in s1\<lparr>scr_y := scr_y s1 + 10\<rparr>)"

subsection \<open>Presenting\<close>

definition rgb565 :: "u32 \<Rightarrow> u16" where
  "rgb565 color = ucast (push_bit 11 (drop_bit 19 color AND 0x1F)) OR ucast (push_bit 5 (drop_bit 10 color AND 0x3F))
     OR ucast (drop_bit 3 color AND 0x1F)"

definition grey8 :: "u32 \<Rightarrow> u8" where
  "grey8 color =
     ucast ((ucast (ucast (drop_bit 16 color) :: u8) + ucast (ucast (drop_bit 8 color) :: u8) + ucast (ucast color :: u8) :: u32) div 48)"

definition pixel_bytes :: "u32 \<Rightarrow> u32 \<Rightarrow> u8 list" where
  "pixel_bytes bpp color =
     (if bpp = 32 then bytes32 color
      else if bpp = 24 then [ucast color, ucast (drop_bit 8 color), ucast (drop_bit 16 color)]
      else if bpp = 16 then bytes16 (rgb565 color)
      else if bpp = 8 then [grey8 color]
      else [])"

definition poke_bytes :: "u32 \<Rightarrow> u8 list \<Rightarrow> (u32 \<Rightarrow> u8) \<Rightarrow> (u32 \<Rightarrow> u8)" where
  "poke_bytes a bs m = fold (\<lambda>(k, b) m. m(a + word_of_nat k := b)) (enumerate 0 bs) m"

definition fb_addr :: "screen \<Rightarrow> nat \<Rightarrow> nat \<Rightarrow> u32" where
  "fb_addr s x y = vbe_framebuffer s + word_of_nat y * vbe_pitch s + word_of_nat x * drop_bit 3 (vbe_bpp s)"

definition fb_w :: "screen \<Rightarrow> nat" where
  "fb_w s = unat (if vbe_width s < 800 then vbe_width s else 800)"

definition fb_h :: "screen \<Rightarrow> nat" where
  "fb_h s = unat (if vbe_height s < 600 then vbe_height s else 600)"

definition fb_present :: "screen \<Rightarrow> screen" where
  "fb_present s =
     (if \<not> fb_ready s then s
      else s\<lparr>vram := fold (\<lambda>y. fold (\<lambda>x. poke_bytes (fb_addr s x y) (pixel_bytes (vbe_bpp s) (g_backbuf s (y * 800 + x))))
               [0..<fb_w s]) [0..<fb_h s] (vram s)\<rparr>)"

subsection \<open>Drawing stays in the back buffer\<close>

text \<open>\<open>drawn s t\<close>: \<open>t\<close> is \<open>s\<close> but for pixels of the back buffer.\<close>

definition drawn :: "screen \<Rightarrow> screen \<Rightarrow> bool" where
  "drawn s t \<longleftrightarrow> (\<exists>b. t = s\<lparr>g_backbuf := b\<rparr> \<and> (\<forall>i\<ge>480000. b i = g_backbuf s i))"

lemma drawn_refl [simp]: "drawn s s"
  unfolding drawn_def by (intro exI [of _ "g_backbuf s"]) simp

lemma drawn_trans: "drawn s t \<Longrightarrow> drawn t u \<Longrightarrow> drawn s u"
  by (auto simp: drawn_def)

lemma drawn_fold: "(\<And>x t. x \<in> set xs \<Longrightarrow> drawn t (f x t)) \<Longrightarrow> drawn s (fold f xs s)"
proof (induction xs arbitrary: s)
  case (Cons x xs)
  then have "drawn s (f x s)" "drawn (f x s) (fold f xs (f x s))" by simp_all
  then show ?case by (auto intro: drawn_trans)
qed simp

lemma drawn_fields:
  assumes "drawn s t"
  shows "scr_y t = scr_y s" "vbe_framebuffer t = vbe_framebuffer s" "vbe_pitch t = vbe_pitch s" "vbe_width t = vbe_width s"
    "vbe_height t = vbe_height s" "vbe_bpp t = vbe_bpp s" "vram t = vram s" "480000 \<le> i \<Longrightarrow> g_backbuf t i = g_backbuf s i"
  using assms by (auto simp: drawn_def)

lemma pixel_index_on_screen:
  assumes "on_screen x y"
  shows "pixel_index x y = nat (y mod 4294967296) * 800 + nat (x mod 4294967296)" "pixel_index x y < 480000"
proof -
  define u where "u = (word_of_int x :: u32)"
  define v where "v = (word_of_int y :: u32)"
  have b: "unat u < 800" "unat v < 600" using assms by (simp_all add: on_screen_def u_def v_def word_less_nat_alt)
  then have "unat (v * 800 + u) = unat v * 800 + unat u" by (subst unat_add_u32) (simp_all add: unat_mult_u32)
  moreover have "unat u = nat (x mod 4294967296)" "unat v = nat (y mod 4294967296)"
    by (simp_all add: u_def v_def unsigned_of_int take_bit_eq_mod)
  ultimately show "pixel_index x y = nat (y mod 4294967296) * 800 + nat (x mod 4294967296)" "pixel_index x y < 480000"
    using b by (simp_all add: pixel_index_def u_def v_def)
qed

lemma drawn_put_pixel: "drawn s (put_pixel x y c s)"
proof (cases "on_screen x y")
  case True
  with pixel_index_on_screen(2) [OF True] show ?thesis
    by (auto simp: put_pixel_def drawn_def intro!: exI [of _ "(g_backbuf s)(pixel_index x y := c)"])
qed (simp add: put_pixel_def)

lemma drawn_draw_rect: "drawn s (draw_rect x y w h c s)"
  unfolding draw_rect_def by (intro drawn_fold drawn_put_pixel)

lemma drawn_draw_glyph: "drawn s (draw_glyph font d x y c s)"
  unfolding draw_glyph_def by (intro drawn_fold) (simp add: drawn_put_pixel)

lemma drawn_printxy: "drawn s (printxy font str x y c s)"
  by (induction font str x y c s rule: printxy.induct) (auto intro: drawn_trans drawn_draw_glyph)

lemma drawn_fill_screen: "drawn s (fill_screen c s)"
  by (cases "fb_ready s") (auto simp: fill_screen_def drawn_def intro: drawn_refl [unfolded drawn_def])

lemma drawn_print: "\<exists>t. drawn s t \<and> print font str c s = t\<lparr>scr_y := scr_y s + 10\<rparr>"
  using drawn_printxy [of s font str 0 "scr_y s" c] drawn_fields(1) [OF drawn_printxy [of s font str 0 "scr_y s" c]]
  by (auto simp: print_def Let_def)

subsection \<open>Presenting shows the back buffer\<close>

text \<open>A sequence of byte writes, and the value that a byte has after it.\<close>

definition fb_writes :: "screen \<Rightarrow> (u32 \<times> u8) list" where
  "fb_writes s = concat (map (\<lambda>y. concat (map (\<lambda>x.
     map (\<lambda>(k, b). (fb_addr s x y + word_of_nat k, b)) (enumerate 0 (pixel_bytes (vbe_bpp s) (g_backbuf s (y * 800 + x)))))
     [0..<fb_w s])) [0..<fb_h s])"

lemma fold_concat_map: "fold f (concat (map g xs)) = fold (\<lambda>x. fold f (g x)) xs"
  by (induction xs) (simp_all add: fun_eq_iff)

lemma poke_bytes_fold: "poke_bytes a bs = fold (\<lambda>(k, b) m. m(a + word_of_nat k := b)) (enumerate 0 bs)"
  by (simp add: fun_eq_iff poke_bytes_def)

lemma fb_present_writes: "fb_ready s \<Longrightarrow> vram (fb_present s) = fold (\<lambda>(a, b) m. m(a := b)) (fb_writes s) (vram s)"
  by (simp add: fb_present_def fb_writes_def fold_concat_map fold_map comp_def poke_bytes_fold split_def)

lemma fold_writes_other: "\<forall>b. (a, b) \<notin> set ws \<Longrightarrow> fold (\<lambda>(a, b) m. m(a := b)) ws m a = m a"
  by (induction ws arbitrary: m) (auto split: prod.splits)

lemma fold_writes:
  assumes "(a, b) \<in> set ws" "\<And>b'. (a, b') \<in> set ws \<Longrightarrow> b' = b"
  shows "fold (\<lambda>(a, b) m. m(a := b)) ws m a = b"
  using assms
proof (induction ws arbitrary: m)
  case (Cons w ws)
  show ?case
  proof (cases "\<forall>b'. (a, b') \<notin> set ws")
    case False
    then obtain b' where "(a, b') \<in> set ws" by blast
    with Cons.prems(2) [of b'] have "(a, b) \<in> set ws" by simp
    from Cons.IH [OF this] Cons.prems(2) have "fold (\<lambda>(a, b) m. m(a := b)) ws m' a = b" for m'
      by (metis list.set_intros(2))
    then show ?thesis by (simp only: fold_simps)
  next
    case True
    then have "w = (a, b)" using Cons.prems(1) by auto
    then show ?thesis by (simp only: fold_simps prod.case fold_writes_other [OF True] fun_upd_same)
  qed
qed simp

text \<open>\<open>fb_mode s\<close>: a mode with whole bytes per pixel whose rows do not overlap and whose memory does not wrap.\<close>

definition fb_mode :: "screen \<Rightarrow> bool" where
  "fb_mode s \<longleftrightarrow> fb_ready s \<and> vbe_bpp s \<in> {8, 16, 24, 32}
     \<and> min 800 (unat (vbe_width s)) * (unat (vbe_bpp s) div 8) \<le> unat (vbe_pitch s)
     \<and> min 600 (unat (vbe_height s)) * unat (vbe_pitch s) < 4294967296"

lemma fb_size: "fb_w s = min 800 (unat (vbe_width s))" "fb_h s = min 600 (unat (vbe_height s))"
  by (auto simp: fb_w_def fb_h_def word_less_nat_alt min_def)

lemma unat_pixel_size: "unat (drop_bit 3 (w :: u32)) = unat w div 8"
  by (simp add: unat_drop_bit_eq drop_bit_eq_div unat_div)

lemma fb_modeD:
  assumes "fb_mode s"
  shows "fb_ready s" "vbe_bpp s \<in> {8, 16, 24, 32}"
    "fb_w s * unat (drop_bit 3 (vbe_bpp s)) \<le> unat (vbe_pitch s)" "fb_h s * unat (vbe_pitch s) < 4294967296"
  using assms by (simp_all add: fb_mode_def fb_size unat_pixel_size)

lemma length_pixel_bytes: "bpp \<in> {8, 16, 24, 32} \<Longrightarrow> length (pixel_bytes bpp c) = unat (drop_bit 3 bpp)"
  by (auto simp: pixel_bytes_def)

lemma fb_offset:
  assumes "fb_mode s" "x < fb_w s" "y < fb_h s" "k < unat (drop_bit 3 (vbe_bpp s))"
  shows "unat (fb_addr s x y + word_of_nat k - vbe_framebuffer s) = y * unat (vbe_pitch s) + (x * unat (drop_bit 3 (vbe_bpp s)) + k)"
    "x * unat (drop_bit 3 (vbe_bpp s)) + k < unat (vbe_pitch s)"
proof -
  let ?p = "unat (vbe_pitch s)" and ?b = "unat (drop_bit 3 (vbe_bpp s))"
  have "(x + 1) * ?b \<le> fb_w s * ?b" using assms(2) by (intro mult_right_mono) simp_all
  then show lt: "x * ?b + k < ?p" using fb_modeD(3) [OF assms(1)] assms(4) by simp
  have "(y + 1) * ?p \<le> fb_h s * ?p" using assms(3) by (intro mult_right_mono) simp_all
  then have "y * ?p + (x * ?b + k) < 4294967296" using lt fb_modeD(4) [OF assms(1)] by simp
  moreover have "fb_addr s x y + word_of_nat k - vbe_framebuffer s = word_of_nat (y * ?p + (x * ?b + k))"
    by (simp add: fb_addr_def)
  ultimately show "unat (fb_addr s x y + word_of_nat k - vbe_framebuffer s) = y * ?p + (x * ?b + k)"
    by (simp only: unat_of_nat_u32)
qed

lemma fb_addr_inj:
  assumes "fb_mode s" "x < fb_w s" "y < fb_h s" "k < unat (drop_bit 3 (vbe_bpp s))"
    and "x' < fb_w s" "y' < fb_h s" "k' < unat (drop_bit 3 (vbe_bpp s))"
    and "fb_addr s x y + word_of_nat k = fb_addr s x' y' + word_of_nat k'"
  shows "x = x' \<and> y = y' \<and> k = k'"
proof -
  let ?p = "unat (vbe_pitch s)" and ?b = "unat (drop_bit 3 (vbe_bpp s))"
  note o1 = fb_offset [OF assms(1-4)] and o2 = fb_offset [OF assms(1,5-7)]
  have "y * ?p + (x * ?b + k) = y' * ?p + (x' * ?b + k')" using o1(1) o2(1) assms(8) by simp
  then have "(y * ?p + (x * ?b + k)) div ?p = (y' * ?p + (x' * ?b + k')) div ?p"
    "(y * ?p + (x * ?b + k)) mod ?p = (y' * ?p + (x' * ?b + k')) mod ?p" by simp_all
  then have y: "y = y'" and r: "x * ?b + k = x' * ?b + k'" using o1(2) o2(2) by simp_all
  from r have "(x * ?b + k) div ?b = (x' * ?b + k') div ?b" "(x * ?b + k) mod ?b = (x' * ?b + k') mod ?b" by simp_all
  with y assms(4,7) show ?thesis by simp
qed

lemma fb_writes_iff:
  "(a, b) \<in> set (fb_writes s) \<longleftrightarrow> (\<exists>y<fb_h s. \<exists>x<fb_w s. \<exists>k<length (pixel_bytes (vbe_bpp s) (g_backbuf s (y * 800 + x))).
     a = fb_addr s x y + word_of_nat k \<and> b = pixel_bytes (vbe_bpp s) (g_backbuf s (y * 800 + x)) ! k)"
  by (force simp: fb_writes_def in_set_enumerate_eq)

lemma fb_present_byte:
  assumes "fb_mode s" "x < fb_w s" "y < fb_h s" "k < unat (drop_bit 3 (vbe_bpp s))"
  shows "vram (fb_present s) (fb_addr s x y + word_of_nat k) = pixel_bytes (vbe_bpp s) (g_backbuf s (y * 800 + x)) ! k"
proof -
  note len = length_pixel_bytes [OF fb_modeD(2) [OF assms(1)]]
  have "(fb_addr s x y + word_of_nat k, pixel_bytes (vbe_bpp s) (g_backbuf s (y * 800 + x)) ! k) \<in> set (fb_writes s)"
    using assms(2-4) unfolding fb_writes_iff len by blast
  moreover have "b = pixel_bytes (vbe_bpp s) (g_backbuf s (y * 800 + x)) ! k"
    if "(fb_addr s x y + word_of_nat k, b) \<in> set (fb_writes s)" for b
    using that fb_addr_inj [OF assms] unfolding fb_writes_iff len by blast
  ultimately show ?thesis unfolding fb_present_writes [OF fb_modeD(1) [OF assms(1)]] by (rule fold_writes)
qed

text \<open>The encodings as numbers.\<close>

lemma unat_drop: "unat (drop_bit n (c :: u32)) = unat c div 2 ^ n"
  unfolding unat_drop_bit_eq by (rule drop_bit_eq_div)

lemma unat_byte:
  fixes c :: u32
  shows "unat (ucast (drop_bit n c) :: u8) = unat c div 2 ^ n mod 256"
proof -
  have "unat (ucast w :: u8) = unat w mod 256" for w :: u32 by (simp add: unsigned_ucast_eq take_bit_eq_mod)
  then show ?thesis by (simp add: unat_drop)
qed

lemmas unat_bytes = unat_byte [of 0, simplified] unat_byte [of 8, simplified] unat_byte [of 16, simplified] unat_byte [of 24, simplified]

lemma unat_field:
  fixes c :: u32
  assumes "n + m \<le> 16"
  shows "unat (ucast (push_bit m (take_bit n (drop_bit k c))) :: u16) = unat c div 2 ^ k mod 2 ^ n * 2 ^ m"
proof -
  have "unat c div 2 ^ k mod 2 ^ n * 2 ^ m < 2 ^ n * 2 ^ m" by simp
  also have "\<dots> \<le> 2 ^ 16" using assms power_increasing [of "n + m" 16 "2 :: nat"] by (simp add: power_add)
  finally have lt: "unat c div 2 ^ k mod 2 ^ n * 2 ^ m < 65536" by simp
  have "unat (push_bit m (take_bit n (drop_bit k c))) = unat c div 2 ^ k mod 2 ^ n * 2 ^ m"
  proof -
    have e: "unat (take_bit n (drop_bit k c)) = unat c div 2 ^ k mod 2 ^ n"
      unfolding unsigned_take_bit_eq unat_drop_bit_eq by (simp only: take_bit_eq_mod drop_bit_eq_div)
    show ?thesis unfolding unsigned_push_bit_eq e using lt by (simp add: push_bit_eq_mult take_bit_nat_eq_self)
  qed
  with lt show ?thesis by (simp add: unsigned_ucast_eq take_bit_eq_mod)
qed

lemma unat_rgb565:
  "unat (rgb565 c) = unat c div 65536 mod 256 div 8 * 2048 + unat c div 256 mod 256 div 4 * 32 + unat c mod 256 div 8"
proof -
  define r g b :: u16 where "r = ucast (push_bit 11 (take_bit 5 (drop_bit 19 c)))"
    and "g = ucast (push_bit 5 (take_bit 6 (drop_bit 10 c)))" and "b = ucast (push_bit 0 (take_bit 5 (drop_bit 3 c)))"
  note rgb = r_def g_def b_def
  have "rgb565 c = (r OR g) OR b"
    using take_bit_eq_mask [of 5 "drop_bit 19 c"] take_bit_eq_mask [of 6 "drop_bit 10 c"] take_bit_eq_mask [of 5 "drop_bit 3 c"]
    by (simp add: rgb565_def rgb mask_eq_exp_minus_1 or.assoc)
  also have "\<dots> = (r OR g) + b" by (rule disjunctive_add [symmetric]) (auto simp: rgb bit_simps)
  also have "r OR g = r + g" by (rule disjunctive_add [symmetric]) (auto simp: rgb bit_simps)
  finally have e: "rgb565 c = r + g + b" .
  have u: "unat r = unat c div 524288 mod 32 * 2048" "unat g = unat c div 1024 mod 64 * 32" "unat b = unat c div 8 mod 32"
    using unat_field [of 5 11 19 c] unat_field [of 6 5 10 c] unat_field [of 5 0 3 c] by (simp_all add: rgb)
  have f: "unat c div 65536 mod 256 div 8 = unat c div 524288 mod 32" "unat c div 256 mod 256 div 4 = unat c div 1024 mod 64"
    "unat c mod 256 div 8 = unat c div 8 mod 32"
    using mod_mult2_eq [of "unat c div 65536" 8 32] mod_mult2_eq [of "unat c div 256" 4 64] mod_mult2_eq [of "unat c" 8 32]
    by (simp_all add: div_mult2_eq [symmetric])
  have "unat r + unat g + unat b < 65536"
    using mod_less_divisor [of 32 "unat c div 524288"] mod_less_divisor [of 64 "unat c div 1024"] mod_less_divisor [of 32 "unat c div 8"]
    unfolding u by linarith
  then have "unat (r + g + b) = unat r + unat g + unat b" by (simp add: unat_word_ariths)
  then show ?thesis by (simp add: e u f)
qed

lemma unat_grey8: "unat (grey8 c) = (unat c div 65536 mod 256 + unat c div 256 mod 256 + unat c mod 256) div 48"
proof -
  define r g b where "r = unat c div 65536 mod 256" and "g = unat c div 256 mod 256" and "b = unat c mod 256"
  have lt: "r < 256" "g < 256" "b < 256" by (simp_all add: r_def g_def b_def)
  have wide: "unat (ucast w :: u32) = unat w" for w :: u8
  proof -
    have "unat w < 256" by (rule unat_u8_less)
    then have "unat w < 2 ^ 32" by (rule less_trans) simp
    then have "take_bit 32 (unat w) = unat w" by (rule take_bit_nat_eq_self)
    then show ?thesis by (simp add: unsigned_ucast_eq)
  qed
  define R G B :: u32 where "R = ucast (ucast (drop_bit 16 c) :: u8)" and "G = ucast (ucast (drop_bit 8 c) :: u8)"
    and "B = ucast (ucast c :: u8)"
  have u: "unat R = r" "unat G = g" "unat B = b"
    using unat_bytes [of c] by (simp_all only: R_def G_def B_def r_def g_def b_def wide)
  have "(r + g + b) mod 4294967296 = r + g + b" using lt by (intro mod_less) linarith
  then have "unat (R + G + B) = r + g + b" by (simp add: unat_word_ariths u mod_add_left_eq)
  moreover have "(r + g + b) div 48 < 256" using lt by linarith
  ultimately show ?thesis unfolding grey8_def R_def [symmetric] G_def [symmetric] B_def [symmetric]
    by (simp add: unsigned_ucast_eq unat_div take_bit_nat_eq_self r_def g_def b_def)
qed

lemma unat_bytes16: "unat (bytes16 w ! 0) = unat w mod 256" "unat (bytes16 w ! 1) = unat w div 256"
proof -
  have "unat w < 65536" using unsigned_less [where ?'a = nat, of w] by simp
  then have "unat w div 256 < 256" by linarith
  then show "unat (bytes16 w ! 0) = unat w mod 256" "unat (bytes16 w ! 1) = unat w div 256"
    by (simp_all add: bytes16_def unsigned_ucast_eq unat_drop_bit_eq take_bit_eq_mod) (simp add: drop_bit_eq_div)?
qed

text \<open>C37. In every mode of 8, 16, 24 or 32 bits per pixel that the boot loader can have set, \<^verbatim>\<open>fb_present\<close> shows each
  pixel of the back buffer that lies on the display, the last row and column included, at its place: the bytes from
  \<^verbatim>\<open>framebuffer + y * pitch + x * (bpp / 8)\<close> on are the pixel's blue, green and red components (and its top byte
  with 32 bits per pixel), the 5, 6 and 5 highest bits of red, green and blue as a little-endian number with 16
  bits, or the sum of the components divided by 48 with 8 bits per pixel.\<close>

theorem fb_present_shows:
  assumes "fb_mode s" "x < unat (vbe_width s)" "x < 800" "y < unat (vbe_height s)" "y < 600"
  shows "let c = unat (g_backbuf s (y * 800 + x));
             red = c div 65536 mod 256; green = c div 256 mod 256; blue = c mod 256;
             at = (\<lambda>k. unat (vram (fb_present s)
                     (vbe_framebuffer s + word_of_nat (y * unat (vbe_pitch s) + x * (unat (vbe_bpp s) div 8) + k))))
         in vbe_bpp s = 32 \<and> at 0 = blue \<and> at 1 = green \<and> at 2 = red \<and> at 3 = c div 16777216
          \<or> vbe_bpp s = 24 \<and> at 0 = blue \<and> at 1 = green \<and> at 2 = red
          \<or> vbe_bpp s = 16 \<and> at 0 + 256 * at 1 = red div 8 * 2048 + green div 4 * 32 + blue div 8
          \<or> vbe_bpp s = 8 \<and> at 0 = (red + green + blue) div 48"
proof -
  define c where "c = g_backbuf s (y * 800 + x)"
  have xy: "x < fb_w s" "y < fb_h s" using assms(2-5) by (simp_all add: fb_size)
  have ad: "fb_addr s x y + word_of_nat k
      = vbe_framebuffer s + word_of_nat (y * unat (vbe_pitch s) + x * (unat (vbe_bpp s) div 8) + k)" for k
    by (simp add: fb_addr_def unat_pixel_size [symmetric])
  define at where "at = (\<lambda>k. unat (vram (fb_present s)
    (vbe_framebuffer s + word_of_nat (y * unat (vbe_pitch s) + x * (unat (vbe_bpp s) div 8) + k))))"
  have B: "at k = unat (pixel_bytes (vbe_bpp s) c ! k)" if "k < unat (vbe_bpp s) div 8" for k
    using fb_present_byte [OF assms(1) xy, of k] that unfolding ad unat_pixel_size at_def c_def by simp
  have top: "unat c div 16777216 mod 256 = unat c div 16777216"
    using unat_u32_less [of c] by (intro mod_less) linarith
  have "vbe_bpp s = 32 \<and> at 0 = unat c mod 256 \<and> at 1 = unat c div 256 mod 256 \<and> at 2 = unat c div 65536 mod 256
      \<and> at 3 = unat c div 16777216
    \<or> vbe_bpp s = 24 \<and> at 0 = unat c mod 256 \<and> at 1 = unat c div 256 mod 256 \<and> at 2 = unat c div 65536 mod 256
    \<or> vbe_bpp s = 16 \<and> at 0 + 256 * at 1 =
        unat c div 65536 mod 256 div 8 * 2048 + unat c div 256 mod 256 div 4 * 32 + unat c mod 256 div 8
    \<or> vbe_bpp s = 8 \<and> at 0 = (unat c div 65536 mod 256 + unat c div 256 mod 256 + unat c mod 256) div 48"
    (is "?P32 \<or> ?P24 \<or> ?P16 \<or> ?P8")
  proof -
    from fb_modeD(2) [OF assms(1)] consider "vbe_bpp s = 8" | "vbe_bpp s = 16" | "vbe_bpp s = 24" | "vbe_bpp s = 32" by auto
    then show ?thesis
    proof cases
      case 1
      with B [of 0] have ?P8 by (simp add: pixel_bytes_def unat_grey8)
      then show ?thesis by blast
    next
      case 2
      with B [of 0] B [of 1] have ?P16
        by (simp add: pixel_bytes_def unat_bytes16 [unfolded One_nat_def] unat_rgb565 [symmetric])
      then show ?thesis by blast
    next
      case 3
      with B [of 0] B [of 1] B [of 2] have ?P24 by (simp add: pixel_bytes_def unat_bytes unat_drop)
      then show ?thesis by blast
    next
      case 4
      with B [of 0] B [of 1] B [of 2] B [of 3] have ?P32 by (simp add: pixel_bytes_def bytes32_def unat_bytes unat_drop top)
      then show ?thesis by blast
    qed
  qed
  then show ?thesis by (simp only: Let_def at_def c_def)
qed

definition screen_tiny :: screen where
  "screen_tiny = \<lparr>scr_y = 0, g_backbuf = (\<lambda>i. word_of_nat i), vbe_framebuffer = 0xE0000000, vbe_pitch = 16,
     vbe_width = 4, vbe_height = 2, vbe_bpp = 32, vram = (\<lambda>_. 0)\<rparr>"

lemma fb_present_shows_witness:
  "unat (vram (fb_present screen_tiny) 0xE000001C) = 35 \<and> unat (vram (fb_present screen_tiny) 0xE000001D) = 3"
proof -
  have "fb_mode screen_tiny" by (simp add: fb_mode_def fb_ready_def screen_tiny_def)
  from fb_present_shows [OF this, of 3 1]
  show "unat (vram (fb_present screen_tiny) 0xE000001C) = 35 \<and> unat (vram (fb_present screen_tiny) 0xE000001D) = 3"
    by (simp add: screen_tiny_def)
qed

end
