(* ===== verification/Mouse.thy ===== *)
theory Mouse
  imports Ports
begin

text \<open>
  \<^verbatim>\<open>kernel/io/mouse/mouse.cpp\<close>: the PS/2 mouse. \<open>mouse_irq_handler\<close> collects the bytes of a packet one
  interrupt at a time and, with the third, moves the pointer and keeps it on the screen;
  \<open>mouse_init\<close> programs the controller. The coordinates are 32-bit signed, read with \<open>sint\<close>.
\<close>

record mouse =
  mouse_x :: u32
  mouse_y :: u32
  mouse_left :: bool
  mouse_right :: bool
  mouse_middle :: bool
  mouse_dx :: u32
  mouse_dy :: u32
  bound_w :: u32
  bound_h :: u32
  mouse_cycle :: u8
  mouse_packet :: "u8 list"

definition mouse_boot :: mouse where
  "mouse_boot = \<lparr>mouse_x = 400, mouse_y = 300, mouse_left = False, mouse_right = False, mouse_middle = False,
     mouse_dx = 0, mouse_dy = 0, bound_w = 800, bound_h = 600, mouse_cycle = 0, mouse_packet = [0, 0, 0]\<rparr>"

record mouse_state =
  ms_x :: u32
  ms_y :: u32
  ms_left :: bool
  ms_right :: bool
  ms_middle :: bool
  ms_dx :: u32
  ms_dy :: u32

subsection \<open>The controller\<close>

definition mouse_wait_write :: "device \<Rightarrow> pio list \<Rightarrow> pio list" where
  "mouse_wait_write dev h = poll_port 100000 (\<lambda>x. x AND 0x02 = 0) dev 0x64 h"

definition mouse_wait_read :: "device \<Rightarrow> pio list \<Rightarrow> pio list" where
  "mouse_wait_read dev h = poll_port 100000 (\<lambda>x. x AND 0x01 \<noteq> 0) dev 0x64 h"

definition mouse_write :: "device \<Rightarrow> u8 \<Rightarrow> pio list \<Rightarrow> pio list" where
  "mouse_write dev x h = outb 0x60 x (mouse_wait_write dev (outb 0x64 0xD4 (mouse_wait_write dev h)))"

definition mouse_read :: "device \<Rightarrow> pio list \<Rightarrow> u8 \<times> pio list" where
  "mouse_read dev h = inb dev 0x60 (mouse_wait_read dev h)"

text \<open>\<^verbatim>\<open>while (inb(0x64) & 1) inb(0x60);\<close> has no bound: it ends when the device says so.\<close>

partial_function (option) mouse_drain :: "device \<Rightarrow> pio list \<Rightarrow> pio list option" where
  "mouse_drain dev h =
     (case inb dev 0x64 h of (x, h1) \<Rightarrow>
        if x AND 1 \<noteq> 0 then mouse_drain dev (snd (inb dev 0x60 h1)) else Some h1)"

lemma mouse_drain_outs: "mouse_drain dev h = Some h' \<Longrightarrow> pio_outs h' = pio_outs h"
proof (induction rule: mouse_drain.raw_induct [rotated, consumes 1, case_names step])
  case (step f dev h h')
  then show ?case by (auto split: prod.splits if_splits)
qed

definition mouse_init :: "device \<Rightarrow> pio list \<Rightarrow> pio list option" where
  "mouse_init dev h =
     Option.bind (mouse_drain dev (outb 0x64 0xA7 (outb 0x64 0xAD h))) (\<lambda>h.
       let h = mouse_wait_read dev (outb 0x64 0x20 h);
           (status, h) = inb dev 0x60 h;
           status = status OR 0x03 OR 0x20;
           h = outb 0x60 status (mouse_wait_write dev (outb 0x64 0x60 h));
           h = outb 0x64 0xA8 (outb 0x64 0xAE h);
           (_, h) = mouse_read dev (mouse_write dev 0xF6 h);
           (_, h) = mouse_read dev (mouse_write dev 0xF4 h)
       in Some h)"

subsection \<open>Packets\<close>

text \<open>\<^verbatim>\<open>if (x < 0) x = 0; ... if (x >= bound) x = bound - 1;\<close> on signed numbers.\<close>

definition mouse_clamp :: "u32 \<Rightarrow> u32 \<Rightarrow> u32" where
  "mouse_clamp bound x =
     (let x = (if sint x < 0 then 0 else x) in if sint bound \<le> sint x then bound - 1 else x)"

definition mouse_packet_done :: "mouse \<Rightarrow> mouse" where
  "mouse_packet_done s =
     (let b0 = mouse_packet s ! 0;
          dx = scast (mouse_packet s ! 1) :: u32;
          dy = scast (mouse_packet s ! 2) :: u32
      in s\<lparr>mouse_left := b0 AND 0x01 \<noteq> 0, mouse_right := b0 AND 0x02 \<noteq> 0, mouse_middle := b0 AND 0x04 \<noteq> 0,
           mouse_dx := dx, mouse_dy := - dy,
           mouse_x := mouse_clamp (bound_w s) (mouse_x s + dx),
           mouse_y := mouse_clamp (bound_h s) (mouse_y s - dy)\<rparr>)"

definition mouse_byte :: "u8 \<Rightarrow> mouse \<Rightarrow> mouse" where
  "mouse_byte x s =
     (if mouse_cycle s = 0 then
        (let s1 = s\<lparr>mouse_packet := (mouse_packet s)[0 := x]\<rparr>
         in if x AND 0x08 \<noteq> 0 then s1\<lparr>mouse_cycle := mouse_cycle s + 1\<rparr> else s1)
      else if mouse_cycle s = 1 then
        s\<lparr>mouse_packet := (mouse_packet s)[1 := x], mouse_cycle := mouse_cycle s + 1\<rparr>
      else if mouse_cycle s = 2 then
        mouse_packet_done (s\<lparr>mouse_packet := (mouse_packet s)[2 := x], mouse_cycle := 0\<rparr>)
      else s)"

definition mouse_irq_handler :: "device \<Rightarrow> mouse \<times> pio list \<Rightarrow> mouse \<times> pio list" where
  "mouse_irq_handler dev = (\<lambda>(s, h).
     case inb dev 0x60 h of (x, h1) \<Rightarrow> (mouse_byte x s, outb 0xA0 0x20 (outb 0x20 0x20 h1)))"

definition mouse_set_bounds :: "u32 \<Rightarrow> u32 \<Rightarrow> mouse \<Rightarrow> mouse" where
  "mouse_set_bounds w h s = s\<lparr>bound_w := w, bound_h := h\<rparr>"

definition mouse_get :: "mouse \<Rightarrow> mouse_state" where
  "mouse_get s = \<lparr>ms_x = mouse_x s, ms_y = mouse_y s, ms_left = mouse_left s, ms_right = mouse_right s,
     ms_middle = mouse_middle s, ms_dx = mouse_dx s, ms_dy = mouse_dy s\<rparr>"

subsection \<open>The pointer stays on the screen\<close>

text \<open>\<open>mouse_ok\<close>: the state machine is between two bytes of a packet and the pointer is inside the bounds.\<close>

definition mouse_ok :: "mouse \<Rightarrow> bool" where
  "mouse_ok s \<longleftrightarrow> mouse_cycle s \<in> {0, 1, 2} \<and> length (mouse_packet s) = 3
     \<and> 0 \<le> sint (mouse_x s) \<and> sint (mouse_x s) < sint (bound_w s) \<and> sint (bound_w s) \<le> 0x7FFFFF00
     \<and> 0 \<le> sint (mouse_y s) \<and> sint (mouse_y s) < sint (bound_h s) \<and> sint (bound_h s) \<le> 0x7FFFFF00"

inductive mouse_step :: "mouse \<Rightarrow> mouse \<Rightarrow> bool" where
  irq: "mouse_step s (mouse_byte x s)"
| bounds: "sint (mouse_x s) < sint w \<Longrightarrow> sint w \<le> 0x7FFFFF00 \<Longrightarrow>
    sint (mouse_y s) < sint h \<Longrightarrow> sint h \<le> 0x7FFFFF00 \<Longrightarrow> mouse_step s (mouse_set_bounds w h s)"

lemma sint_range32: "- 2147483648 \<le> sint (w :: u32)" "sint (w :: u32) < 2147483648"
  using sint_greater_eq [of w] sint_less [of w] by simp_all

lemma sint_range8: "- 128 \<le> sint (b :: u8)" "sint (b :: u8) < 128"
  using sint_greater_eq [of b] sint_less [of b] by simp_all

lemma sint_u32_id: "- 2147483648 \<le> (i :: int) \<Longrightarrow> i < 2147483648 \<Longrightarrow> signed_take_bit 31 i = i"
  by (rule signed_take_bit_int_eq_self) simp_all

lemma sint_scast8: "sint (scast (b :: u8) :: u32) = sint b"
  using sint_range8 [of b] sint_u32_id [of "sint b"] by (simp add: signed_scast_eq)

lemma sint_plus32: "- 2147483648 \<le> sint (a :: u32) + sint b \<Longrightarrow> sint a + sint b < 2147483648 \<Longrightarrow> sint (a + b) = sint a + sint b"
  by (simp add: sint_word_ariths sint_u32_id)

lemma sint_minus32: "- 2147483648 \<le> sint (a :: u32) - sint b \<Longrightarrow> sint a - sint b < 2147483648 \<Longrightarrow> sint (a - b) = sint a - sint b"
  by (simp add: sint_word_ariths sint_u32_id)

lemma sint_clamp: "0 < sint bound \<Longrightarrow> sint (mouse_clamp bound x) = min (sint bound - 1) (Orderings.max 0 (sint x))"
  using sint_minus32 [of bound 1] sint_range32 [of bound] by (simp add: mouse_clamp_def Let_def)

text \<open>The whole packet, as the device sends it: the pointer moves by the signed deltas, y upwards, and is clamped.\<close>

lemma mouse_packet_spec:
  assumes ok: "mouse_ok s" and c: "mouse_cycle s = 0" and sync: "b0 AND 0x08 \<noteq> 0"
    and t: "t = mouse_byte b2 (mouse_byte b1 (mouse_byte b0 s))"
  shows "sint (mouse_x t) = min (sint (bound_w s) - 1) (Orderings.max 0 (sint (mouse_x s) + sint b1))"
    "sint (mouse_y t) = min (sint (bound_h s) - 1) (Orderings.max 0 (sint (mouse_y s) - sint b2))"
    "mouse_left t \<longleftrightarrow> bit b0 0" "mouse_right t \<longleftrightarrow> bit b0 1" "mouse_middle t \<longleftrightarrow> bit b0 2"
    "mouse_cycle t = 0"
proof -
  have len: "length (mouse_packet s) = 3" and w: "0 < sint (bound_w s)" "0 < sint (bound_h s)"
    using ok by (simp_all add: mouse_ok_def)
  have x: "sint (mouse_x s + scast b1) = sint (mouse_x s) + sint b1"
    using sint_plus32 [of "mouse_x s" "scast b1"] sint_range8 [of b1] ok unfolding mouse_ok_def by (simp add: sint_scast8)
  have y: "sint (mouse_y s - scast b2) = sint (mouse_y s) - sint b2"
    using sint_minus32 [of "mouse_y s" "scast b2"] sint_range8 [of b2] ok unfolding mouse_ok_def by (simp add: sint_scast8)
  have T: "t = mouse_packet_done (s\<lparr>mouse_packet := [b0, b1, b2], mouse_cycle := 0\<rparr>)"
  proof -
    obtain p q r where "mouse_packet s = [p, q, r]" using len by (auto simp: length_Suc_conv numeral_3_eq_3)
    then show ?thesis using c sync by (simp add: t mouse_byte_def Let_def)
  qed
  show "sint (mouse_x t) = min (sint (bound_w s) - 1) (Orderings.max 0 (sint (mouse_x s) + sint b1))"
    "sint (mouse_y t) = min (sint (bound_h s) - 1) (Orderings.max 0 (sint (mouse_y s) - sint b2))"
    "mouse_cycle t = 0"
    by (simp_all add: T mouse_packet_done_def Let_def sint_clamp w x y)
  show "mouse_left t \<longleftrightarrow> bit b0 0" "mouse_right t \<longleftrightarrow> bit b0 1" "mouse_middle t \<longleftrightarrow> bit b0 2"
    by (simp_all add: T mouse_packet_done_def Let_def bit_iff_and_push_bit_not_eq_0 push_bit_eq_mult)
qed

lemma mouse_byte_ok: "mouse_ok s \<Longrightarrow> mouse_ok (mouse_byte x s)"
proof -
  assume ok: "mouse_ok s"
  then have w: "0 < sint (bound_w s)" "0 < sint (bound_h s)" by (simp_all add: mouse_ok_def)
  show ?thesis using ok
    by (auto simp: mouse_byte_def mouse_packet_done_def mouse_ok_def Let_def sint_clamp w)
qed

lemma mouse_step_ok: "mouse_step s t \<Longrightarrow> mouse_ok s \<Longrightarrow> mouse_ok t"
  by (erule mouse_step.cases) (simp_all add: mouse_byte_ok, simp add: mouse_set_bounds_def mouse_ok_def)

lemma mouse_reachable_ok: "mouse_step\<^sup>*\<^sup>* s t \<Longrightarrow> mouse_ok s \<Longrightarrow> mouse_ok t"
  by (induction rule: rtranclp_induct) (auto intro: mouse_step_ok)

lemma mouse_boot_ok: "mouse_ok mouse_boot"
  by (simp add: mouse_ok_def mouse_boot_def)

text \<open>C35. Whatever bytes the mouse sends, in whatever number and with the screen bounds changed in between to
  bounds that contain the pointer, the coordinates that \<^verbatim>\<open>mouse_get\<close> hands to user programs address a point of
  the screen, and the packet automaton is in one of its three states, with its three-byte buffer.\<close>

theorem mouse_on_screen:
  assumes "mouse_step\<^sup>*\<^sup>* mouse_boot s"
  shows "0 \<le> sint (ms_x (mouse_get s)) \<and> sint (ms_x (mouse_get s)) < sint (bound_w s)
    \<and> 0 \<le> sint (ms_y (mouse_get s)) \<and> sint (ms_y (mouse_get s)) < sint (bound_h s)
    \<and> mouse_cycle s \<in> {0, 1, 2} \<and> length (mouse_packet s) = 3"
  using mouse_reachable_ok [OF assms mouse_boot_ok] by (simp add: mouse_ok_def mouse_get_def)

lemma mouse_on_screen_witness:
  "0 \<le> sint (ms_x (mouse_get (mouse_byte 0x80 (mouse_byte 0xFF (mouse_byte 0x29 (mouse_byte 0x13 mouse_boot))))))"
proof -
  have "mouse_step\<^sup>*\<^sup>* mouse_boot (mouse_byte 0x80 (mouse_byte 0xFF (mouse_byte 0x29 (mouse_byte 0x13 mouse_boot))))"
    by (meson irq rtranclp.rtrancl_into_rtrancl rtranclp.rtrancl_refl)
  from mouse_on_screen [OF this] show ?thesis by blast
qed

subsection \<open>Staying in step with the device\<close>

text \<open>
  The first byte of a packet has bit 3 set; bytes without it are skipped in state 0, so the handler falls into
  step with the device at the first such byte.
\<close>

lemma mouse_skip:
  assumes "mouse_cycle s = 0" "\<forall>x \<in> set xs. x AND 0x08 = 0"
  shows "mouse_cycle (fold mouse_byte xs s) = 0 \<and> mouse_x (fold mouse_byte xs s) = mouse_x s
    \<and> mouse_y (fold mouse_byte xs s) = mouse_y s"
  using assms by (induction xs arbitrary: s) (simp_all add: mouse_byte_def Let_def)

text \<open>
  The command sequence of \<^verbatim>\<open>mouse_init\<close>, if the controller's output buffer ever drains: keyboard and mouse
  off, configuration byte rewritten with both interrupts enabled and the rest of it kept, both on again, then
  defaults and data reporting for the mouse.
\<close>

lemma mouse_init_commands:
  assumes "mouse_init dev h = Some h'"
  shows "\<exists>status. pio_outs h' = pio_outs h @
    [(0x64, 0xAD), (0x64, 0xA7), (0x64, 0x20), (0x64, 0x60), (0x60, ucast (status OR 0x23 :: u8)), (0x64, 0xAE),
     (0x64, 0xA8), (0x64, 0xD4), (0x60, 0xF6), (0x64, 0xD4), (0x60, 0xF4)]"
proof -
  obtain h1 where h1: "mouse_drain dev (outb 0x64 0xA7 (outb 0x64 0xAD h)) = Some h1"
    using assms by (auto simp: mouse_init_def Option.bind_eq_Some_conv)
  from mouse_drain_outs [OF this] have o1: "pio_outs h1 = pio_outs h @ [(0x64, 0xAD), (0x64, 0xA7)]" by simp
  show ?thesis using assms unfolding mouse_init_def h1
    by (auto simp: Let_def o1 mouse_read_def mouse_write_def mouse_wait_read_def mouse_wait_write_def or.assoc
        simp flip: o1 split: prod.splits)
qed

end
