(* ===== verification/Cursor.thy ===== *)
theory Cursor
  imports Screen Mouse
begin

text \<open>
  The mouse cursor of \<^verbatim>\<open>kernel/shell/shell.cpp\<close>: a sprite of 8 by 12 pixels drawn into the back buffer, with
  the pixels under it saved so that moving it does not damage the picture.
\<close>

record cursor =
  cursor_save :: "u32 list"
  cursor_saved :: bool
  last_cx :: int
  last_cy :: int

definition cursor_boot :: cursor where
  "cursor_boot = \<lparr>cursor_save = replicate 96 0, cursor_saved = False, last_cx = -1, last_cy = -1\<rparr>"

definition CURS_W :: nat where "CURS_W = 8"
definition CURS_H :: nat where "CURS_H = 12"

text \<open>Pixel \<open>i\<close> of the footprint, row by row as the loops go.\<close>

definition curs_x :: "int \<Rightarrow> nat \<Rightarrow> int" where
  "curs_x x i = x + int (i mod CURS_W)"

definition curs_y :: "int \<Rightarrow> nat \<Rightarrow> int" where
  "curs_y y i = y + int (i div CURS_W)"

definition cursor_save_bg :: "int \<Rightarrow> int \<Rightarrow> screen \<Rightarrow> cursor \<Rightarrow> cursor" where
  "cursor_save_bg x y s c =
     c\<lparr>cursor_save := map (\<lambda>i. if on_screen (curs_x x i) (curs_y y i)
                               then g_backbuf s (pixel_index (curs_x x i) (curs_y y i)) else COL_BG) [0..<CURS_H * CURS_W],
       cursor_saved := True\<rparr>"

definition cursor_restore_bg :: "int \<Rightarrow> int \<Rightarrow> cursor \<Rightarrow> screen \<Rightarrow> screen" where
  "cursor_restore_bg x y c s =
     (if \<not> cursor_saved c then s
      else fold (\<lambda>i. put_pixel (curs_x x i) (curs_y y i) (cursor_save c ! i)) [0..<CURS_H * CURS_W] s)"

definition draw_cursor_sprite :: "int \<Rightarrow> int \<Rightarrow> screen \<Rightarrow> screen" where
  "draw_cursor_sprite x y s =
     draw_rect x y (int CURS_W) 2 0xFFFFFF (draw_rect x y 2 (int CURS_H) 0xFFFFFF s)"

definition update_cursor :: "mouse_state \<Rightarrow> cursor \<times> screen \<Rightarrow> cursor \<times> screen" where
  "update_cursor m = (\<lambda>(c, s).
     let s = (if 0 \<le> last_cx c \<and> 0 \<le> last_cy c then cursor_restore_bg (last_cx c) (last_cy c) c s else s);
         x = sint (ms_x m); y = sint (ms_y m);
         c = cursor_save_bg x y s c;
         s = draw_cursor_sprite x y s
     in (c\<lparr>last_cx := x, last_cy := y\<rparr>, fb_present s))"

subsection \<open>Which pixels an operation changes\<close>

lemma backbuf_put_pixel:
  "g_backbuf (put_pixel x y col s) p = (if on_screen x y \<and> pixel_index x y = p then col else g_backbuf s p)"
  by (simp add: put_pixel_def)

lemma draw_rect_frame:
  assumes "\<And>i j. i < nat w \<Longrightarrow> j < nat h \<Longrightarrow> \<not> (on_screen (x + int i) (y + int j) \<and> pixel_index (x + int i) (y + int j) = p)"
  shows "g_backbuf (draw_rect x y w h col s) p = g_backbuf s p"
proof -
  have row: "g_backbuf (fold (\<lambda>i. put_pixel (x + int i) (y + int j) col) ks s) p = g_backbuf s p"
    if "\<forall>i \<in> set ks. i < nat w" "j < nat h" for ks j and s :: screen
    using that by (induction ks arbitrary: s) (use assms in \<open>auto simp: backbuf_put_pixel\<close>)
  have "g_backbuf (fold (\<lambda>j. fold (\<lambda>i. put_pixel (x + int i) (y + int j) col) [0..<nat w]) js s) p = g_backbuf s p"
    if "\<forall>j \<in> set js. j < nat h" for js and s :: screen
    using that by (induction js arbitrary: s) (auto simp: row)
  then show ?thesis by (simp add: draw_rect_def)
qed

lemma restore_pixels:
  assumes "\<And>i. i \<in> set ks \<Longrightarrow> on_screen (xf i) (yf i) \<Longrightarrow> val i = orig (pixel_index (xf i) (yf i))"
  shows "g_backbuf (fold (\<lambda>i. put_pixel (xf i) (yf i) (val i)) ks s) p
    = (if \<exists>i \<in> set ks. on_screen (xf i) (yf i) \<and> pixel_index (xf i) (yf i) = p then orig p else g_backbuf s p)"
  using assms by (induction ks arbitrary: s) (auto simp: backbuf_put_pixel)

text \<open>A rectangle inside the footprint changes only pixels of the footprint.\<close>

lemma footprint_rect:
  assumes "nat w \<le> CURS_W" "nat h \<le> CURS_H"
    and "\<not> (\<exists>i<CURS_H * CURS_W. on_screen (curs_x x i) (curs_y y i) \<and> pixel_index (curs_x x i) (curs_y y i) = p)"
  shows "g_backbuf (draw_rect x y w h col s) p = g_backbuf s p"
proof (rule draw_rect_frame)
  fix i j assume a: "i < nat w" "j < nat h"
  then have i: "i < CURS_W" and j: "j < CURS_H" using assms(1,2) by simp_all
  let ?k = "j * CURS_W + i"
  have "(j + 1) * CURS_W \<le> CURS_H * CURS_W" using j by (intro mult_right_mono) simp_all
  then have "?k < CURS_H * CURS_W" using i by (simp add: CURS_W_def)
  moreover have "curs_x x ?k = x + int i" "curs_y y ?k = y + int j" using i by (simp_all add: curs_x_def curs_y_def)
  ultimately show "\<not> (on_screen (x + int i) (y + int j) \<and> pixel_index (x + int i) (y + int j) = p)"
    using assms(3) by metis
qed

text \<open>Saving, drawing and restoring leaves every pixel as it was, wherever the cursor is, half off the screen included.\<close>

lemma cursor_roundtrip:
  "g_backbuf (cursor_restore_bg x y (cursor_save_bg x y s c) (draw_cursor_sprite x y s)) p = g_backbuf s p"
proof -
  let ?n = "CURS_H * CURS_W"
  let ?c = "cursor_save_bg x y s c"
  have val: "cursor_save ?c ! i = g_backbuf s (pixel_index (curs_x x i) (curs_y y i))"
    if "i \<in> set [0..<?n]" "on_screen (curs_x x i) (curs_y y i)" for i
    using that by (simp add: cursor_save_bg_def)
  have "g_backbuf (draw_cursor_sprite x y s) p = g_backbuf s p"
    if "\<not> (\<exists>i<?n. on_screen (curs_x x i) (curs_y y i) \<and> pixel_index (curs_x x i) (curs_y y i) = p)"
    unfolding draw_cursor_sprite_def using that by (subst footprint_rect; simp add: CURS_W_def CURS_H_def)+
  moreover have "cursor_saved ?c" by (simp add: cursor_save_bg_def)
  ultimately show ?thesis
    using restore_pixels [where orig = "g_backbuf s" and ks = "[0..<?n]" and xf = "curs_x x" and yf = "curs_y y"
        and val = "(!) (cursor_save ?c)" and s = "draw_cursor_sprite x y s" and p = p, OF val]
    by (auto simp: cursor_restore_bg_def)
qed

subsection \<open>The picture under the cursor\<close>

text \<open>The back buffer without the cursor.\<close>

definition picture :: "cursor \<times> screen \<Rightarrow> nat \<Rightarrow> u32" where
  "picture = (\<lambda>(c, s). g_backbuf (if 0 \<le> last_cx c \<and> 0 \<le> last_cy c then cursor_restore_bg (last_cx c) (last_cy c) c s else s))"

lemma restore_cong: "g_backbuf s = g_backbuf t \<Longrightarrow> cursor_saved c = cursor_saved d \<Longrightarrow> cursor_save c = cursor_save d \<Longrightarrow>
    g_backbuf (cursor_restore_bg x y c s) = g_backbuf (cursor_restore_bg x y d t)"
proof -
  assume a: "g_backbuf s = g_backbuf t" "cursor_saved c = cursor_saved d" "cursor_save c = cursor_save d"
  have "g_backbuf (fold (\<lambda>i. put_pixel (curs_x x i) (curs_y y i) (cursor_save d ! i)) ks s)
      = g_backbuf (fold (\<lambda>i. put_pixel (curs_x x i) (curs_y y i) (cursor_save d ! i)) ks t)" for ks
    using a(1)
  proof (induction ks arbitrary: s t)
    case (Cons i ks)
    then have "g_backbuf (put_pixel (curs_x x i) (curs_y y i) (cursor_save d ! i) s)
        = g_backbuf (put_pixel (curs_x x i) (curs_y y i) (cursor_save d ! i) t)"
      by (simp add: fun_eq_iff backbuf_put_pixel)
    from Cons.IH [OF this] show ?case by simp
  qed simp
  then show ?thesis using a by (simp add: cursor_restore_bg_def)
qed

lemma fb_present_backbuf [simp]: "g_backbuf (fb_present s) = g_backbuf s"
  by (simp add: fb_present_def)

lemma update_cursor_picture:
  assumes "0 \<le> sint (ms_x m)" "0 \<le> sint (ms_y m)"
  shows "picture (update_cursor m (c, s)) = picture (c, s)"
proof
  fix p
  let ?s = "if 0 \<le> last_cx c \<and> 0 \<le> last_cy c then cursor_restore_bg (last_cx c) (last_cy c) c s else s"
  let ?x = "sint (ms_x m)" and ?y = "sint (ms_y m)"
  let ?c = "cursor_save_bg ?x ?y ?s c"
  have "picture (update_cursor m (c, s)) p
      = g_backbuf (cursor_restore_bg ?x ?y (?c\<lparr>last_cx := ?x, last_cy := ?y\<rparr>) (fb_present (draw_cursor_sprite ?x ?y ?s))) p"
    using assms by (simp add: picture_def update_cursor_def Let_def)
  also have "\<dots> = g_backbuf (cursor_restore_bg ?x ?y ?c (draw_cursor_sprite ?x ?y ?s)) p"
    by (rule fun_cong [where x = p], rule restore_cong) simp_all
  also have "\<dots> = g_backbuf ?s p" by (rule cursor_roundtrip)
  finally show "picture (update_cursor m (c, s)) p = picture (c, s) p" by (simp add: picture_def)
qed

text \<open>C36. Moving the mouse cursor never changes the picture under it: after any series of \<^verbatim>\<open>update_cursor\<close> with any
  mouse positions that the driver reports, restoring the saved pixels gives the screen as it was before the
  cursor appeared, corners and edges included.\<close>

theorem cursor_moves_cleanly:
  assumes "\<forall>m \<in> set ms. 0 \<le> sint (ms_x m) \<and> 0 \<le> sint (ms_y m)"
  shows "picture (fold update_cursor ms (cursor_boot, s)) = g_backbuf s"
proof -
  have "picture (fold update_cursor ms cs) = picture cs" if "\<forall>m \<in> set ms. 0 \<le> sint (ms_x m) \<and> 0 \<le> sint (ms_y m)" for ms cs
    using that
  proof (induction ms arbitrary: cs)
    case (Cons m ms)
    then show ?case using update_cursor_picture [of m "fst cs" "snd cs"] by simp
  qed simp
  from this [OF assms] show ?thesis by (simp add: picture_def cursor_boot_def)
qed

lemma cursor_moves_cleanly_witness:
  "picture (fold update_cursor [mouse_get mouse_boot, mouse_get (mouse_boot\<lparr>mouse_x := 799\<rparr>)] (cursor_boot, screen_tiny)) 7 = 7"
  using cursor_moves_cleanly [of "[mouse_get mouse_boot, mouse_get (mouse_boot\<lparr>mouse_x := 799\<rparr>)]" screen_tiny]
  by (simp add: mouse_get_def mouse_boot_def screen_tiny_def)

end
