(* ===== verification/Clock.thy ===== *)
theory Clock
  imports Ports Chars
begin

text \<open>
  \<^verbatim>\<open>kernel/system/pit/pit.cpp\<close>, \<^verbatim>\<open>kernel/system/rtc.hpp\<close>, \<^verbatim>\<open>kernel/io/pcspk/pcspk.cpp\<close> and the formatter
  \<^verbatim>\<open>rtc_format\<close> of \<^verbatim>\<open>kernel/system/syscall/syscall.cpp\<close>: the timer that counts ticks, sleeping, the
  real-time clock and the speaker. A sleeping processor is woken by interrupts; which interrupts come is
  the list \<open>wakes\<close>, \<open>True\<close> for the timer's. A sleep that outlasts the list is \<open>None\<close>, and so is a division
  by zero.
\<close>

subsection \<open>The interval timer\<close>

record timer =
  ticks :: u64
  pit_hz :: u32

definition timer_boot :: timer where
  "timer_boot = \<lparr>ticks = 0, pit_hz = 1000\<rparr>"

definition PIT_BASE_HZ :: u32 where "PIT_BASE_HZ = 1193182"

definition pit_tick :: "timer \<Rightarrow> timer" where
  "pit_tick t = t\<lparr>ticks := ticks t + 1\<rparr>"

definition pit_init :: "u32 \<Rightarrow> timer \<times> pio list \<Rightarrow> (timer \<times> pio list) option" where
  "pit_init freq = (\<lambda>(t, h).
     if freq = 0 then None
     else let divisor = PIT_BASE_HZ div freq
          in Some (t\<lparr>pit_hz := freq\<rparr>,
               outb 0x40 (ucast (drop_bit 8 divisor)) (outb 0x40 (ucast (divisor AND 0xFF)) (outb 0x43 0x36 h))))"

fun sleep_until :: "u64 \<Rightarrow> bool list \<Rightarrow> timer \<Rightarrow> (timer \<times> bool list) option" where
  "sleep_until target [] t = (if ticks t < target then None else Some (t, []))"
| "sleep_until target (w # ws) t =
     (if ticks t < target then sleep_until target ws (if w then pit_tick t else t) else Some (t, w # ws))"

definition pit_sleep :: "u32 \<Rightarrow> bool list \<Rightarrow> timer \<Rightarrow> (timer \<times> bool list) option" where
  "pit_sleep ms wakes t = sleep_until (ticks t + ucast ms * ucast (pit_hz t) div 1000) wakes t"

definition pit_ticks :: "timer \<Rightarrow> u64" where
  "pit_ticks t = ticks t"

definition pit_uptime_ms :: "timer \<Rightarrow> u64" where
  "pit_uptime_ms t = ticks t * 1000 div ucast (pit_hz t)"

subsection \<open>The speaker\<close>

definition pcspk_beep ::
  "device \<Rightarrow> u32 \<Rightarrow> u32 \<Rightarrow> bool list \<Rightarrow> timer \<times> pio list \<Rightarrow> ((timer \<times> pio list) \<times> bool list) option" where
  "pcspk_beep dev freq duration_ms wakes = (\<lambda>(t, h).
     if freq = 0 then None
     else let divisor = 1193182 div freq;
              h = outb 0x42 (ucast (drop_bit 8 divisor AND 0xFF)) (outb 0x42 (ucast (divisor AND 0xFF)) (outb 0x43 0xB6 h));
              (tmp, h) = inb dev 0x61 h;
              h = outb 0x61 (tmp OR 0x03) h
          in map_option (\<lambda>(t, ws). ((t, outb 0x61 tmp h), ws)) (pit_sleep duration_ms wakes t))"

definition pcspk_stop :: "device \<Rightarrow> pio list \<Rightarrow> pio list" where
  "pcspk_stop dev h = (case inb dev 0x61 h of (tmp, h) \<Rightarrow> outb 0x61 (tmp AND 0xFC) h)"

definition play_note ::
  "device \<Rightarrow> u32 \<Rightarrow> u32 \<Rightarrow> bool list \<Rightarrow> timer \<times> pio list \<Rightarrow> ((timer \<times> pio list) \<times> bool list) option" where
  "play_note dev freq duration wakes = (\<lambda>(t, h).
     if 0 < freq then pcspk_beep dev freq duration wakes (t, h)
     else map_option (\<lambda>(t, ws). ((t, h), ws)) (pit_sleep duration wakes t))"

subsection \<open>The real-time clock\<close>

record rtc_time =
  rtc_sec :: u8
  rtc_min :: u8
  rtc_hour :: u8
  rtc_day :: u8
  rtc_month :: u8
  rtc_year :: u8

definition rtc_read :: "device \<Rightarrow> u8 \<Rightarrow> pio list \<Rightarrow> u8 \<times> pio list" where
  "rtc_read dev reg h = inb dev 0x71 (outb 0x70 reg h)"

definition bcd_to_bin :: "u8 \<Rightarrow> u8" where
  "bcd_to_bin bcd = (bcd AND 0x0F) + drop_bit 4 bcd * 10"

definition rtc_get :: "device \<Rightarrow> pio list \<Rightarrow> rtc_time \<times> pio list" where
  "rtc_get dev h =
     (let (s, h) = rtc_read dev 0x00 h;
          (m, h) = rtc_read dev 0x02 h;
          (hr, h) = rtc_read dev 0x04 h;
          (d, h) = rtc_read dev 0x07 h;
          (mo, h) = rtc_read dev 0x08 h;
          (y, h) = rtc_read dev 0x09 h
      in (\<lparr>rtc_sec = bcd_to_bin s, rtc_min = bcd_to_bin m, rtc_hour = bcd_to_bin hr,
           rtc_day = bcd_to_bin d, rtc_month = bcd_to_bin mo, rtc_year = bcd_to_bin y\<rparr>, h))"

text \<open>The two digits of a number below 100, and the whole line. A buffer of fewer than 20 bytes is left alone.\<close>

definition two_digits :: "u8 \<Rightarrow> u8 list" where
  "two_digits x = [0x30 + x div 10, 0x30 + x mod 10]"

definition rtc_text :: "rtc_time \<Rightarrow> u8 list" where
  "rtc_text t = two_digits (rtc_day t) @ bytes ''/'' @ two_digits (rtc_month t) @ bytes ''/20'' @ two_digits (rtc_year t)
     @ bytes '' '' @ two_digits (rtc_hour t) @ bytes '':'' @ two_digits (rtc_min t) @ bytes '':'' @ two_digits (rtc_sec t) @ [0]"

definition rtc_format :: "device \<Rightarrow> int \<Rightarrow> pio list \<Rightarrow> u8 list \<times> pio list" where
  "rtc_format dev cap h =
     (if cap < 20 then ([], h) else case rtc_get dev h of (t, h) \<Rightarrow> (rtc_text t, h))"

subsection \<open>Sleeping\<close>

text \<open>A sleep ends with the tick that completes it: no earlier, and with no more wakes than needed.\<close>

lemma sleep_until_spec:
  assumes "unat target - unat (ticks t) \<le> count_list ws True" "unat (ticks t) \<le> unat target"
  shows "\<exists>us vs. ws = us @ vs \<and> sleep_until target ws t = Some (t\<lparr>ticks := target\<rparr>, vs)
    \<and> count_list us True = unat target - unat (ticks t)"
  using assms
proof (induction target ws t rule: sleep_until.induct)
  case (1 target t)
  then have "ticks t = target" by (simp add: word_unat_eq_iff)
  then show ?case by auto
next
  case (2 target w ws t)
  show ?case
  proof (cases "ticks t < target")
    case False
    with "2.prems"(2) have "ticks t = target" by (simp add: word_less_nat_alt word_unat_eq_iff)
    then show ?thesis by (intro exI [of _ "[]"] exI [of _ "w # ws"]) simp
  next
    case True
    then have l: "unat (ticks t) < unat target" by (simp add: word_less_nat_alt)
    moreover have "unat target < 2 ^ 64" using unsigned_less [of target] by simp
    ultimately have "unat (ticks t) + 1 < 2 ^ 64" by linarith
    then have u: "unat (ticks t + 1) = unat (ticks t) + 1" using unat_add_lem [of "ticks t" 1] by simp
    have "unat target - unat (ticks (if w then pit_tick t else t)) \<le> count_list ws True"
      "unat (ticks (if w then pit_tick t else t)) \<le> unat target"
      using "2.prems" l u by (auto simp: pit_tick_def)
    from "2.IH" [OF True this] obtain us vs where
      "ws = us @ vs" "sleep_until target ws (if w then pit_tick t else t) = Some ((if w then pit_tick t else t)\<lparr>ticks := target\<rparr>, vs)"
      "count_list us True = unat target - unat (ticks (if w then pit_tick t else t))" by blast
    with True l u show ?thesis
      by (intro exI [of _ "w # us"] exI [of _ vs]) (auto simp: pit_tick_def)
  qed
qed

lemma unat_ucast_u64: "unat (ucast (x :: u32) :: u64) = unat x"
  using unat_u32_less [of x] by (simp add: unsigned_ucast_eq take_bit_nat_eq_self del: unat_u32_less)

lemma sleep_target:
  assumes "pit_hz t = 1000" "unat (ticks t) + unat (ms :: u32) < 2 ^ 64"
  shows "unat (ticks t + ucast ms * ucast (pit_hz t) div 1000) = unat (ticks t) + unat ms"
proof -
  have "unat ms * 1000 < 18446744073709551616" using unat_u32_less [of ms] by linarith
  then have "unat (ucast ms * 1000 :: u64) = unat ms * 1000"
    using unat_mult_lem [of "ucast ms :: u64" 1000] by (simp add: unat_ucast_u64)
  then have q: "unat (ucast ms * ucast (pit_hz t) div 1000 :: u64) = unat ms"
    using assms(1) by (simp add: unat_div)
  then show ?thesis using assms(2) unat_add_lem [of "ticks t" "ucast ms * ucast (pit_hz t) div 1000"] by simp
qed

text \<open>With the timer at 1000 Hz, as the kernel sets it, \<^verbatim>\<open>pit_sleep(ms)\<close> returns, as soon as interrupts keep
  coming: it consumes wake-ups until exactly \<open>ms\<close> of them were the timer's, and then the tick counter has
  advanced by exactly \<open>ms\<close>.\<close>

theorem pit_sleep_returns:
  assumes "pit_hz t = 1000" "unat (ticks t) + unat ms < 2 ^ 64" "unat ms \<le> count_list wakes True"
  shows "\<exists>us vs. wakes = us @ vs \<and> count_list us True = unat ms
    \<and> pit_sleep ms wakes t = Some (t\<lparr>ticks := ticks t + ucast ms\<rparr>, vs)"
proof -
  have "ticks t + ucast ms * ucast (pit_hz t) div 1000 = ticks t + (ucast ms :: u64)"
    using sleep_target [OF assms(1,2)] assms(2) unat_add_lem [of "ticks t" "ucast ms"]
    by (simp add: word_unat_eq_iff unat_ucast_u64)
  moreover from this sleep_target [OF assms(1,2)] have "unat (ticks t + (ucast ms :: u64)) = unat (ticks t) + unat ms" by simp
  ultimately show ?thesis
    using sleep_until_spec [of "ticks t + ucast ms" t wakes] assms(3) by (auto simp: pit_sleep_def)
qed

lemma pit_sleep_returns_witness:
  "\<exists>us vs. [True, False, True, True] = us @ vs \<and> count_list us True = 2
    \<and> pit_sleep 2 [True, False, True, True] timer_boot = Some (timer_boot\<lparr>ticks := 2\<rparr>, vs)"
  using pit_sleep_returns [of timer_boot 2 "[True, False, True, True]"] by (simp add: timer_boot_def)

text \<open>At 1000 Hz the uptime in milliseconds is the tick count, for 584 million years.\<close>

lemma pit_uptime: "pit_hz t = 1000 \<Longrightarrow> unat (ticks t) * 1000 < 2 ^ 64 \<Longrightarrow> pit_uptime_ms t = ticks t"
proof -
  assume a: "pit_hz t = 1000" "unat (ticks t) * 1000 < 2 ^ 64"
  then have "unat (ticks t * 1000) = unat (ticks t) * 1000" using unat_mult_lem [of "ticks t" 1000] by simp
  with a(1) show ?thesis by (simp add: pit_uptime_ms_def word_unat_eq_iff unat_div unat_ucast_u64)
qed

text \<open>The two bytes of the divisor that \<^verbatim>\<open>pit_init\<close> sends, for the frequencies that the 16-bit counter can divide to.\<close>

lemma pit_init_divisor:
  assumes "19 \<le> freq"
  shows "\<exists>lo hi. pit_init freq (t, h) = Some (t\<lparr>pit_hz := freq\<rparr>, h @ [Out8 0x43 0x36, Out8 0x40 lo, Out8 0x40 hi])
    \<and> unat hi * 256 + unat lo = 1193182 div unat freq"
proof -
  let ?d = "PIT_BASE_HZ div freq"
  have f: "19 \<le> unat freq" "freq \<noteq> 0" using assms by (auto simp: word_le_nat_alt)
  have d: "unat ?d = 1193182 div unat freq" by (simp add: unat_div PIT_BASE_HZ_def)
  have "1193182 div unat freq \<le> 1193182 div 19" using f(1) by (intro div_le_mono2) simp_all
  then have b: "1193182 div unat freq < 65536" by simp
  have "(0xFF :: u32) = mask 8" by (simp add: mask_eq_exp_minus_1)
  then have lo: "unat (ucast (?d AND 0xFF) :: u8) = unat ?d mod 256"
    by (simp only: take_bit_eq_mask [symmetric]) (simp add: unsigned_ucast_eq unsigned_take_bit_eq take_bit_eq_mod unat_mod)
  have hi: "unat (ucast (drop_bit 8 ?d) :: u8) = unat ?d div 256"
    using d less_mult_imp_div_less [of "1193182 div unat freq" 256 256] b
    by (simp add: unsigned_ucast_eq drop_bit_eq_div take_bit_eq_mod unat_div [of _ "256 :: u32"])
  show ?thesis using f(2) d lo hi by (simp add: pit_init_def Let_def outb_def)
qed

subsection \<open>The date line\<close>

text \<open>A register in binary-coded decimal: two decimal digits.\<close>

definition bcd :: "nat \<Rightarrow> u8" where
  "bcd n = word_of_nat (n div 10 * 16 + n mod 10)"

lemma bcd_to_bin_bcd: "n < 100 \<Longrightarrow> bcd_to_bin (bcd n) = word_of_nat n"
proof -
  assume "n < 100"
  then have "n \<in> set [0..<100]" by simp
  moreover have "\<forall>n \<in> set [0..<100]. bcd_to_bin (bcd n) = word_of_nat n" by code_simp
  ultimately show ?thesis by blast
qed

lemma two_digits_nat: "n < 100 \<Longrightarrow> two_digits (word_of_nat n) = [0x30 + word_of_nat (n div 10), 0x30 + word_of_nat (n mod 10)]"
proof -
  assume "n < 100"
  then have "n \<in> set [0..<100]" by simp
  moreover have "\<forall>n \<in> set [0..<100]. two_digits (word_of_nat n) = [0x30 + word_of_nat (n div 10), 0x30 + word_of_nat (n mod 10)]"
    by code_simp
  ultimately show ?thesis by blast
qed

text \<open>
  \<open>cmos dev regs\<close>: the clock chip as documented: the data port gives the register selected last. Read while no
  second passes.
\<close>

definition cmos :: "device \<Rightarrow> (u8 \<Rightarrow> u8) \<Rightarrow> bool" where
  "cmos dev regs \<longleftrightarrow> (\<forall>h r. dev (h @ [Out8 0x70 r]) 0x71 = ucast (regs r))"

lemma rtc_read_cmos: "cmos dev regs \<Longrightarrow> rtc_read dev r h = (regs r, h @ [Out8 0x70 r, In8 0x71 (regs r)])"
  by (simp add: rtc_read_def inb_def outb_def cmos_def Let_def unsigned_ucast_eq take_bit_word_eq_self)

text \<open>On a clock chip in the usual binary-coded-decimal mode \<^verbatim>\<open>rtc_format\<close> writes day, month, year, hour,
  minute and second as two decimal digits each, in the form \<^verbatim>\<open>DD/MM/20YY HH:MM:SS\<close> and with the terminator in
  the twentieth byte.\<close>

theorem rtc_format_digits:
  assumes "cmos dev regs" "20 \<le> cap"
    and "regs 0 = bcd s" "regs 2 = bcd m" "regs 4 = bcd hr" "regs 7 = bcd d" "regs 8 = bcd mo" "regs 9 = bcd y"
    and "s < 60" "m < 60" "hr < 24" "d < 32" "mo < 13" "y < 100"
  shows "fst (rtc_format dev cap h) =
    map (\<lambda>n. 0x30 + word_of_nat n) [d div 10, d mod 10] @ bytes ''/'' @
    map (\<lambda>n. 0x30 + word_of_nat n) [mo div 10, mo mod 10] @ bytes ''/20'' @
    map (\<lambda>n. 0x30 + word_of_nat n) [y div 10, y mod 10] @ bytes '' '' @
    map (\<lambda>n. 0x30 + word_of_nat n) [hr div 10, hr mod 10] @ bytes '':'' @
    map (\<lambda>n. 0x30 + word_of_nat n) [m div 10, m mod 10] @ bytes '':'' @
    map (\<lambda>n. 0x30 + word_of_nat n) [s div 10, s mod 10] @ [0]"
  using assms(2-) by (simp add: rtc_format_def rtc_get_def Let_def rtc_read_cmos [OF assms(1)] rtc_text_def bcd_to_bin_bcd two_digits_nat)

definition cmos_chip :: "(u8 \<Rightarrow> u8) \<Rightarrow> device" where
  "cmos_chip regs h p = (case rev h of Out8 q r # _ \<Rightarrow> if p = 0x71 \<and> q = 0x70 then ucast (regs r) else 0 | _ \<Rightarrow> 0)"

lemma rtc_format_digits_witness:
  "fst (rtc_format (cmos_chip (\<lambda>r. if r = 8 then 0x12 else if r = 9 then 0x25 else if r = 4 then 0x23 else 0x07)) 32 [])
     = bytes ''07/12/2025 23:07:07'' @ [0]"
  using rtc_format_digits [of "cmos_chip (\<lambda>r. if r = 8 then 0x12 else if r = 9 then 0x25 else if r = 4 then 0x23 else 0x07)"
      "\<lambda>r. if r = 8 then 0x12 else if r = 9 then 0x25 else if r = 4 then 0x23 else 0x07" 32 7 7 23 7 12 25 "[]"]
  by (simp add: cmos_def cmos_chip_def bcd_def bytes_def ch_def)

end
