(* ===== verification/Acpi.thy ===== *)
theory Acpi
  imports Ports Serial Bytes
begin

text \<open>
  \<^verbatim>\<open>kernel/system/acpi/acpi.cpp\<close>: finding the ACPI tables and the values for soft-off in them. It runs before
  paging is on, so memory is a function from physical addresses to bytes; the tables are read at the
  offsets of the packed structures. A null pointer is 0.
\<close>

subsection \<open>Tables\<close>

text \<open>Field offsets: \<^verbatim>\<open>RSDP.rsdt_address\<close>, \<^verbatim>\<open>ACPISDTHeader.length\<close> and its size, and three of \<^verbatim>\<open>FADT\<close>.\<close>

definition rsdp_rsdt_address :: "(u32 \<Rightarrow> u8) \<Rightarrow> u32 \<Rightarrow> u32" where
  "rsdp_rsdt_address mem p = get32 mem (p + 16)"

definition sdt_length :: "(u32 \<Rightarrow> u8) \<Rightarrow> u32 \<Rightarrow> u32" where
  "sdt_length mem p = get32 mem (p + 4)"

definition SDT_HEADER :: u32 where "SDT_HEADER = 36"

definition fadt_dsdt :: "(u32 \<Rightarrow> u8) \<Rightarrow> u32 \<Rightarrow> u32" where
  "fadt_dsdt mem p = get32 mem (p + 40)"

definition fadt_pm1a_control :: "(u32 \<Rightarrow> u8) \<Rightarrow> u32 \<Rightarrow> u32" where
  "fadt_pm1a_control mem p = get32 mem (p + 64)"

definition fadt_pm1b_control :: "(u32 \<Rightarrow> u8) \<Rightarrow> u32 \<Rightarrow> u32" where
  "fadt_pm1b_control mem p = get32 mem (p + 68)"

definition mem_bytes :: "(u32 \<Rightarrow> u8) \<Rightarrow> u32 \<Rightarrow> nat \<Rightarrow> u8 list" where
  "mem_bytes mem p n = map (\<lambda>i. mem (p + word_of_nat i)) [0..<n]"

subsection \<open>Searching\<close>

definition checksum_valid :: "(u32 \<Rightarrow> u8) \<Rightarrow> u32 \<Rightarrow> u32 \<Rightarrow> bool" where
  "checksum_valid mem p len = (fold (\<lambda>i s. s + mem (p + word_of_nat i)) [0..<unat len] 0 = 0)"

definition rsdp_addr :: "nat \<Rightarrow> u32" where
  "rsdp_addr i = 0xE0000 + word_of_nat i * 16"

definition find_rsdp :: "(u32 \<Rightarrow> u8) \<Rightarrow> u32" where
  "find_rsdp mem =
     (case List.find (\<lambda>i. mem_bytes mem (rsdp_addr i) 8 = bytes ''RSD PTR '' \<and> checksum_valid mem (rsdp_addr i) 20) [0..<8192] of
        Some i \<Rightarrow> rsdp_addr i
      | None \<Rightarrow> 0)"

definition sdt_entry :: "(u32 \<Rightarrow> u8) \<Rightarrow> u32 \<Rightarrow> nat \<Rightarrow> u32" where
  "sdt_entry mem rsdt i = get32 mem (rsdt + SDT_HEADER + 4 * word_of_nat i)"

definition find_table :: "(u32 \<Rightarrow> u8) \<Rightarrow> u32 \<Rightarrow> u8 list \<Rightarrow> u32" where
  "find_table mem rsdt signature =
     (if sdt_length mem rsdt < SDT_HEADER + 4 then 0
      else case List.find (\<lambda>i. mem_bytes mem (sdt_entry mem rsdt i) 4 = take 4 signature)
             [0..<unat ((sdt_length mem rsdt - SDT_HEADER) div 4)] of
          Some i \<Rightarrow> sdt_entry mem rsdt i
        | None \<Rightarrow> 0)"

subsection \<open>The soft-off package\<close>

record acpi =
  acpi_found :: bool
  acpi_fadt :: u32
  pm1a_control_block :: u16
  pm1b_control_block :: u16
  slp_typa :: u16
  slp_typb :: u16

definition acpi_boot :: acpi where
  "acpi_boot = \<lparr>acpi_found = False, acpi_fadt = 0, pm1a_control_block = 0, pm1b_control_block = 0, slp_typa = 0, slp_typb = 0\<rparr>"

text \<open>
  The scan reads the table byte by byte through a reader that says \<open>None\<close> where reading is not allowed: on the
  machine every address can be read at this point, so \<^verbatim>\<open>acpi_init\<close> runs with a reader that always answers, and
  the theorem below with one that knows the bytes of the table only. The condition's \<^verbatim>\<open>&&\<close> stops at the
  first byte that differs.
\<close>

primrec s5_match :: "(nat \<Rightarrow> u8 option) \<Rightarrow> u8 list \<Rightarrow> nat \<Rightarrow> bool option" where
  "s5_match dsdt [] i = Some True"
| "s5_match dsdt (c # cs) i = Option.bind (dsdt i) (\<lambda>b. if b = c then s5_match dsdt cs (i + 1) else Some False)"

definition s5_here :: "(nat \<Rightarrow> u8 option) \<Rightarrow> nat \<Rightarrow> bool option" where
  "s5_here dsdt i = s5_match dsdt [0x5F, 0x53, 0x35, 0x5F, 0x12] i"

text \<open>
  One value: \<^verbatim>\<open>if (offset + 1 < dsdt_len && dsdt[offset] == 0x0A) ... = dsdt[offset + 1]\<close>, the old value otherwise.
\<close>

definition s5_value :: "(nat \<Rightarrow> u8 option) \<Rightarrow> nat \<Rightarrow> nat \<Rightarrow> u16 \<Rightarrow> u16 option" where
  "s5_value dsdt len off old =
     (if off + 1 < len then
        Option.bind (dsdt off) (\<lambda>b. if b = 0x0A then map_option ucast (dsdt (off + 1)) else Some old)
      else Some old)"

text \<open>The body of the loop at the first match; the offsets stay below \<open>2 ^ 20 + 40\<close>, so they do not wrap.\<close>

definition s5_parse :: "(nat \<Rightarrow> u8 option) \<Rightarrow> nat \<Rightarrow> nat \<Rightarrow> acpi \<Rightarrow> acpi option" where
  "s5_parse dsdt len i s =
     (if len \<le> i + 5 + 1 then Some s
      else Option.bind (dsdt (i + 5)) (\<lambda>n.
           let off = i + 5 + unat (n AND 0x0F) + 2 in
           Option.bind (s5_value dsdt len off (slp_typa s)) (\<lambda>a.
           map_option (\<lambda>b. s\<lparr>slp_typa := a, slp_typb := b\<rparr>) (s5_value dsdt len (off + 2) (slp_typb s)))))"

function s5_loop :: "(nat \<Rightarrow> u8 option) \<Rightarrow> nat \<Rightarrow> nat \<Rightarrow> acpi \<Rightarrow> acpi option" where
  "s5_loop dsdt len i s =
     (if i + 8 < len then
        Option.bind (s5_here dsdt i) (\<lambda>here. if here then s5_parse dsdt len i s else s5_loop dsdt len (i + 1) s)
      else Some s)"
  by pat_completeness auto
termination by (relation "measure (\<lambda>(dsdt, len, i, s). len - i)") auto

declare s5_loop.simps [simp del]

definition s5_scan :: "(nat \<Rightarrow> u8 option) \<Rightarrow> nat \<Rightarrow> acpi \<Rightarrow> acpi option" where
  "s5_scan dsdt len s = s5_loop dsdt len 0 s"

subsection \<open>Initialisation\<close>

text \<open>
  The serial port is threaded through; \<^verbatim>\<open>puts\<close> abbreviates sending a literal. The scan always answers here
  (\<open>s5_scan_inside\<close> below).
\<close>

definition acpi_puts :: "string \<Rightarrow> u8 list \<Rightarrow> u8 list" where
  "acpi_puts str com = serial_puts (bytes str) com"

definition acpi_init :: "(u32 \<Rightarrow> u8) \<Rightarrow> acpi \<times> u8 list \<Rightarrow> acpi \<times> u8 list" where
  "acpi_init mem = (\<lambda>(s, com).
     let com = acpi_puts (''acpi: searching for RSDP...'' @ [CHR 0x0A]) com;
         rsdp = find_rsdp mem
     in if rsdp = 0 then (s\<lparr>acpi_found := False\<rparr>, acpi_puts (''acpi: RSDP not found'' @ [CHR 0x0A]) com)
     else let com = serial_putc 10 (serial_puthex rsdp (acpi_puts ''acpi: RSDP found at 0x'' com));
              rsdt = rsdp_rsdt_address mem rsdp
     in if rsdt = 0 \<or> rsdt < 0x100000 then (s\<lparr>acpi_found := False\<rparr>, acpi_puts (''acpi: RSDT address invalid'' @ [CHR 0x0A]) com)
     else if \<not> checksum_valid mem rsdt (sdt_length mem rsdt)
       then (s\<lparr>acpi_found := False\<rparr>, acpi_puts (''acpi: RSDT checksum invalid'' @ [CHR 0x0A]) com)
     else let fadt = find_table mem rsdt (bytes ''FACP''); s = s\<lparr>acpi_fadt := fadt\<rparr>
     in if fadt = 0 then (s\<lparr>acpi_found := False\<rparr>, acpi_puts (''acpi: FADT not found'' @ [CHR 0x0A]) com)
     else let s = s\<lparr>pm1a_control_block := ucast (fadt_pm1a_control mem fadt),
                    pm1b_control_block := ucast (fadt_pm1b_control mem fadt)\<rparr>;
              com = serial_putc 10 (serial_puthex (ucast (pm1a_control_block s)) (acpi_puts ''acpi: PM1a control = 0x'' com));
              dsdt = fadt_dsdt mem fadt;
              dsdt_len = sdt_length mem dsdt
     in if dsdt_len < SDT_HEADER \<or> 1048576 < dsdt_len
       then (s\<lparr>acpi_found := True\<rparr>, acpi_puts (''acpi: DSDT invalid size'' @ [CHR 0x0A]) com)
     else let s = the (s5_scan (\<lambda>i. Some (mem (dsdt + word_of_nat i))) (unat dsdt_len) s);
              com = acpi_puts ''acpi: SLP_TYPa = 0x'' com;
              com = acpi_puts '' SLP_TYPb = 0x'' (serial_puthex (ucast (slp_typa s)) com);
              com = serial_putc 10 (serial_puthex (ucast (slp_typb s)) com)
     in (s\<lparr>acpi_found := True\<rparr>, acpi_puts (''acpi: initialized'' @ [CHR 0x0A]) com))"

definition acpi_available :: "acpi \<Rightarrow> bool" where
  "acpi_available s = acpi_found s"

subsection \<open>Power\<close>

text \<open>Both return whether the processor ends in the halting loop, the port history and what went to the serial port.\<close>

definition acpi_shutdown :: "acpi \<Rightarrow> pio list \<times> u8 list \<Rightarrow> bool \<times> pio list \<times> u8 list" where
  "acpi_shutdown s = (\<lambda>(h, com).
     if \<not> acpi_found s then (False, h, acpi_puts (''acpi: shutdown not available'' @ [CHR 0x0A]) com)
     else let com = acpi_puts (''acpi: shutting down...'' @ [CHR 0x0A]) com;
              h = (if pm1a_control_block s \<noteq> 0 then outw (pm1a_control_block s) (push_bit 10 (slp_typa s) OR 0x2000) h else h);
              h = (if pm1b_control_block s \<noteq> 0 then outw (pm1b_control_block s) (push_bit 10 (slp_typb s) OR 0x2000) h else h)
          in (True, h, com))"

definition acpi_reboot :: "device \<Rightarrow> pio list \<times> u8 list \<Rightarrow> bool \<times> pio list \<times> u8 list" where
  "acpi_reboot dev = (\<lambda>(h, com).
     let com = acpi_puts (''acpi: rebooting...'' @ [CHR 0x0A]) com;
         h = poll_port 100000 (\<lambda>good. good AND 0x02 = 0) dev 0x64 h
     in (True, outb 0x92 0x03 (outb 0x64 0xFE h), com))"

subsection \<open>What the search finds\<close>

lemma unat_rsdp_addr: "i < 8192 \<Longrightarrow> unat (rsdp_addr i) = 0xE0000 + i * 16"
  using unat_mult_u32 [of "word_of_nat i" 16] unat_add_u32 [of "0xE0000" "word_of_nat i * 16"]
  by (simp add: rsdp_addr_def unat_of_nat_u32)

lemma rsdp_addr_nonzero: "i < 8192 \<Longrightarrow> rsdp_addr i \<noteq> 0"
  using unat_rsdp_addr [of i] by auto

definition rsdp_at :: "(u32 \<Rightarrow> u8) \<Rightarrow> u32 \<Rightarrow> bool" where
  "rsdp_at mem p \<longleftrightarrow> mem_bytes mem p 8 = bytes ''RSD PTR '' \<and> sum_list (mem_bytes mem p 20) = 0"

lemma checksum_sum: "checksum_valid mem p len \<longleftrightarrow> sum_list (mem_bytes mem p (unat len)) = 0"
proof -
  have "fold (\<lambda>i s. s + mem (p + word_of_nat i)) xs a = a + sum_list (map (\<lambda>i. mem (p + word_of_nat i)) xs)" for xs a
    by (induction xs arbitrary: a) (simp_all add: add.assoc)
  then show ?thesis by (simp add: checksum_valid_def mem_bytes_def)
qed

text \<open>\<^verbatim>\<open>find_rsdp\<close> returns the lowest 16-byte aligned address of the BIOS area at which the signature stands and
  the 20 bytes of the structure add up to 0, and null exactly when there is none.\<close>

theorem find_rsdp_spec:
  "(\<exists>i<8192. rsdp_at mem (rsdp_addr i) \<and> find_rsdp mem = rsdp_addr i \<and> (\<forall>j<i. \<not> rsdp_at mem (rsdp_addr j)))
   \<or> find_rsdp mem = 0 \<and> (\<forall>i<8192. \<not> rsdp_at mem (rsdp_addr i))"
proof -
  have e: "mem_bytes mem (rsdp_addr i) 8 = bytes ''RSD PTR '' \<and> checksum_valid mem (rsdp_addr i) 20 \<longleftrightarrow> rsdp_at mem (rsdp_addr i)" for i
    by (simp add: rsdp_at_def checksum_sum)
  show ?thesis
  proof (cases "List.find (\<lambda>i. rsdp_at mem (rsdp_addr i)) [0..<8192]")
    case None
    then have "find_rsdp mem = 0" by (simp add: find_rsdp_def e)
    moreover have "\<forall>i<8192. \<not> rsdp_at mem (rsdp_addr i)" using None unfolding find_upt_None_iff by simp
    ultimately show ?thesis by blast
  next
    case (Some i)
    then have "find_rsdp mem = rsdp_addr i" by (simp add: find_rsdp_def e)
    moreover have "i < 8192" "rsdp_at mem (rsdp_addr i)" "\<forall>j<i. \<not> rsdp_at mem (rsdp_addr j)"
      using Some unfolding find_upt_Some_iff by simp_all
    ultimately show ?thesis by blast
  qed
qed

definition bios_area :: "u32 \<Rightarrow> u8" where
  "bios_area a = (if 0xE0010 \<le> a \<and> a < 0xE0024 then (bytes ''RSD PTR '' @ [0xD1] @ replicate 9 0 @ [0x10, 0]) ! unat (a - 0xE0010) else 0)"

lemma bios_area_rsdp: "rsdp_at bios_area (rsdp_addr 1)" "\<not> rsdp_at bios_area (rsdp_addr 0)"
  by code_simp+

lemma find_rsdp_spec_witness: "find_rsdp bios_area = 0xE0010"
proof -
  have "\<not> (\<forall>i<8192. \<not> rsdp_at bios_area (rsdp_addr i))" using bios_area_rsdp(1) by (auto intro!: exI [of _ 1])
  then obtain i where i: "i < 8192" "rsdp_at bios_area (rsdp_addr i)" "find_rsdp bios_area = rsdp_addr i"
    "\<forall>j<i. \<not> rsdp_at bios_area (rsdp_addr j)" using find_rsdp_spec [of bios_area] by blast
  then have "i = 1" using bios_area_rsdp by (metis less_one linorder_neqE_nat)
  with i(3) show ?thesis by (simp add: rsdp_addr_def)
qed

subsection \<open>The DSDT scan stays in the table\<close>

text \<open>\<open>inside len d\<close>: the reader of the first \<open>len\<close> bytes of \<open>d\<close>, which refuses every other.\<close>

definition inside :: "nat \<Rightarrow> (nat \<Rightarrow> u8) \<Rightarrow> nat \<Rightarrow> u8 option" where
  "inside len d k = (if k < len then Some (d k) else None)"

lemma s5_match_inside:
  "i + length cs \<le> len \<Longrightarrow> \<exists>r. s5_match (inside len d) cs i = Some r \<and> s5_match (\<lambda>k. Some (d k)) cs i = Some r"
  by (induction cs arbitrary: i) (auto simp: inside_def)

lemma s5_value_inside:
  "\<exists>r. s5_value (inside len d) len off v = Some r \<and> s5_value (\<lambda>k. Some (d k)) len off v = Some r"
  by (auto simp: s5_value_def inside_def)

lemma s5_parse_inside:
  "\<exists>r. s5_parse (inside len d) len i s = Some r \<and> s5_parse (\<lambda>k. Some (d k)) len i s = Some r"
proof (cases "len \<le> i + 5 + 1")
  case False
  define off where "off = i + 5 + unat (d (i + 5) AND 0x0F) + 2"
  have "inside len d (i + 5) = Some (d (i + 5))" using False by (simp add: inside_def)
  with s5_value_inside [of len d off "slp_typa s"] s5_value_inside [of len d "off + 2" "slp_typb s"] False
  show ?thesis unfolding s5_parse_def Let_def by (auto simp: off_def)
qed (simp add: s5_parse_def)

lemma s5_loop_inside:
  "\<exists>r. s5_loop (inside len d) len i s = Some r \<and> s5_loop (\<lambda>k. Some (d k)) len i s = Some r"
proof (induction "inside len d" len i s rule: s5_loop.induct)
  case (1 len i s)
  show ?case
  proof (cases "i + 8 < len")
    case True
    then obtain h where h: "s5_here (inside len d) i = Some h" "s5_here (\<lambda>k. Some (d k)) i = Some h"
      unfolding s5_here_def using s5_match_inside [of i "[0x5F, 0x53, 0x35, 0x5F, 0x12]" len d] by auto
    show ?thesis
    proof (cases h)
      case T: True
      from s5_parse_inside [of len d i s] show ?thesis using True h T by (subst (1 2) s5_loop.simps) simp
    next
      case False
      from 1 [OF True h(1) False] show ?thesis using True h False by (subst (1 2) s5_loop.simps) simp
    qed
  qed (simp add: s5_loop.simps)
qed

text \<open>C40. The scan of the DSDT for the soft-off package never reads a byte outside the table, whatever its
  contents and length: run with a reader that refuses every index from the table's length on it still answers,
  and the answer is the one \<^verbatim>\<open>acpi_init\<close> gets from memory.\<close>

theorem s5_scan_inside:
  "\<exists>s'. s5_scan (\<lambda>k. if k < len then Some (dsdt k) else None) len s = Some s' \<and> s5_scan (\<lambda>k. Some (dsdt k)) len s = Some s'"
  using s5_loop_inside [of len dsdt 0 s] by (simp add: s5_scan_def inside_def [abs_def])

definition s5_table :: "u8 list" where
  "s5_table = replicate 36 0 @ [0x08, 0x5F, 0x53, 0x35, 0x5F, 0x12, 0x08, 0x04, 0x0A, 0x05, 0x0A, 0x05, 0x0A, 0, 0x0A, 0] @ replicate 12 0"

text \<open>
  A package in the usual encoding, with soft-off type 5 in both registers: the length byte's low nibble is taken
  for the number of bytes to skip, so the values are looked for 8 bytes too far and stay 0. (The two top bits
  of that byte are what gives the length of the encoding.)
\<close>

lemma s5_usual_package_missed:
  "s5_here (\<lambda>k. Some (s5_table ! k)) 37 = Some True"
  "map_option slp_typa (s5_scan (\<lambda>k. Some (s5_table ! k)) 64 acpi_boot) = Some 0"
  "map_option slp_typb (s5_scan (\<lambda>k. Some (s5_table ! k)) 64 acpi_boot) = Some 0"
  by code_simp+

text \<open>A length byte with a low nibble of 0 is what the parser reads as intended.\<close>

lemma s5_parse_values:
  assumes "d (i + 5) AND 0x0F = 0" "d (i + 7) = 0x0A" "d (i + 9) = 0x0A" "i + 10 < len"
  shows "s5_parse (\<lambda>k. Some (d k)) len i s = Some (s\<lparr>slp_typa := ucast (d (i + 8)), slp_typb := ucast (d (i + 10))\<rparr>)"
  using assms by (simp add: s5_parse_def s5_value_def Let_def numeral_eq_Suc)

lemma acpi_shutdown_request:
  assumes "acpi_found s" "pm1a_control_block s \<noteq> 0" "pm1b_control_block s = 0"
  shows "fst (snd (acpi_shutdown s (h, com))) = h @ [Out16 (pm1a_control_block s) (push_bit 10 (slp_typa s) OR 0x2000)]"
  using assms by (simp add: acpi_shutdown_def Let_def outw_def)

end
