(* ===== verification/Machine.thy ===== *)
theory Machine
  imports Elf Cursor Clock Acpi
begin

text \<open>
  The whole machine: the kernel's state of \<open>Kernel_State\<close> extended by the devices, the screen and the
  variables of the shell. What comes from outside is in the state as a list that is consumed: the polls of
  keyboard and serial port and the interrupts that wake a halted processor. The port hardware, the font, the effect
  of a program in ring 3, what an uninitialised directory entry holds, the \<^verbatim>\<open>cpuid\<close> instruction, the addresses of
  string literals and the address of the buffer of \<^verbatim>\<open>cmd_syscall\<close> are parameters, in \<open>env\<close>.
\<close>

record machine = kernel +
  m_screen :: screen
  m_cursor :: cursor
  m_mouse :: mouse
  m_timer :: timer
  m_acpi :: acpi
  m_ports :: "pio list"
  m_wakes :: "bool list"
  cwd :: "u8 list"                \<comment> \<open>the C string in \<^verbatim>\<open>cwd\<close>\<close>
  g_serial_mode :: bool
  g_out_fd :: int
  g_in_fd :: int
  serial_line :: "u8 list"        \<comment> \<open>\<^verbatim>\<open>buf\<close> and \<^verbatim>\<open>len\<close> of \<^verbatim>\<open>serial_shell_poll\<close>\<close>

record env =
  e_dev :: device
  e_font :: "nat \<Rightarrow> u8"
  e_ring3 :: "u32 \<Rightarrow> u32 \<Rightarrow> machine \<Rightarrow> machine option"
  e_ent0 :: dir_entry
  e_cpuid :: "u32 \<Rightarrow> u32 \<times> u32 \<times> u32 \<times> u32"
  e_lit :: "string \<Rightarrow> u32"
  e_sysbuf :: u32

definition m_io :: "machine \<Rightarrow> io" where
  "m_io s = k_io s"

text \<open>
  The descriptor layer records its calls of \<^verbatim>\<open>print\<close>; they are drawn when its new state is stored.
\<close>

definition set_io :: "env \<Rightarrow> io \<Rightarrow> machine \<Rightarrow> machine" where
  "set_io E io s =
     s\<lparr>k_io := io,
       m_screen := fold (\<lambda>(str, color). print (e_font E) str color) (drop (length (printed (k_io s))) (printed io)) (m_screen s)\<rparr>"

definition m_draw :: "(screen \<Rightarrow> screen) \<Rightarrow> machine \<Rightarrow> machine" where
  "m_draw f s = s\<lparr>m_screen := f (m_screen s)\<rparr>"

definition m_update_cursor :: "machine \<Rightarrow> machine" where
  "m_update_cursor s =
     (case update_cursor (mouse_get (m_mouse s)) (m_cursor s, m_screen s) of
        (c, scr) \<Rightarrow> s\<lparr>m_cursor := c, m_screen := scr\<rparr>)"

definition m_vm :: "machine \<Rightarrow> paging" where
  "m_vm s = vm_pg (k_vm s)"

subsection \<open>User memory\<close>

text \<open>Reads and writes go through the page tables; \<open>None\<close> is a page fault, after which the kernel halts.\<close>

definition upoke :: "u32 \<Rightarrow> u8 list \<Rightarrow> machine \<Rightarrow> machine option" where
  "upoke a bs s = map_option (\<lambda>m. set_mem m s) (poke_list (m_vm s) a bs (k_mem s))"

fun user_str :: "nat \<Rightarrow> u32 \<Rightarrow> machine \<Rightarrow> u8 list option" where
  "user_str 0 a s = Some []"
| "user_str (Suc n) a s =
     Option.bind (peek (m_vm s) (k_mem s) a) (\<lambda>c.
       if c = 0 then Some [] else map_option (\<lambda>cs. c # cs) (user_str n (a + 1) s))"

text \<open>A string read to its end; \<open>None\<close> also when it has none.\<close>

partial_function (option) user_cstr :: "u32 \<Rightarrow> machine \<Rightarrow> u8 list option" where
  "user_cstr a s =
     Option.bind (peek (m_vm s) (k_mem s) a) (\<lambda>c.
       if c = 0 then Some [] else Option.bind (user_cstr (a + 1) s) (\<lambda>cs. Some (c # cs)))"

text \<open>
  The buffer of a write: its bytes where they can be read, 0 elsewhere. Whether the bytes that are used can be
  read is \<open>readable\<close>.
\<close>

definition user_bytes :: "u32 \<Rightarrow> nat \<Rightarrow> machine \<Rightarrow> u8 list" where
  "user_bytes a n s =
     map (\<lambda>k. case peek (m_vm s) (k_mem s) (a + word_of_nat k) of None \<Rightarrow> 0 | Some b \<Rightarrow> b) [0..<n]"

definition readable :: "u32 \<Rightarrow> nat \<Rightarrow> machine \<Rightarrow> bool" where
  "readable a n s \<longleftrightarrow> (\<forall>k<n. page_present (m_vm s) (a + word_of_nat k))"

subsection \<open>What a component leaves alone\<close>

lemma machine_mem_frames [simp]:
  "k_mem (set_io E io s) = k_mem s" "k_mem (m_draw f s) = k_mem s" "k_mem (m_update_cursor s) = k_mem s"
  "m_vm (set_io E io s) = m_vm s" "m_vm (m_draw f s) = m_vm s" "m_vm (m_update_cursor s) = m_vm s"
  "m_vm (set_mem m s) = m_vm s" "m_vm (set_vol v s) = m_vm s"
  "m_vm (k_puts t s) = m_vm s" "m_vm (k_puts_bytes bs s) = m_vm s" "m_vm (k_putc c s) = m_vm s"
  "k_mem (k_puts_bytes bs s) = k_mem s" "k_mem (k_putc c s) = k_mem s"
  "k_mem (s\<lparr>m_timer := tm\<rparr>) = k_mem s" "k_mem (s\<lparr>m_ports := p\<rparr>) = k_mem s" "k_mem (s\<lparr>m_wakes := w\<rparr>) = k_mem s"
  "k_mem (s\<lparr>k_sched := sc\<rparr>) = k_mem s" "k_mem (s\<lparr>k_io := i0\<rparr>) = k_mem s"
  "m_vm (s\<lparr>m_ports := p\<rparr>) = m_vm s" "m_vm (s\<lparr>k_heap := h\<rparr>) = m_vm s"
  by (simp_all add: m_vm_def set_io_def m_draw_def m_update_cursor_def kernel_defs split: prod.splits)

end
