(* ===== verification/Syscall.thy ===== *)
theory Syscall
  imports Machine
begin

text \<open>
  \<^verbatim>\<open>kernel/system/syscall/syscall.cpp\<close>: the system call handler, one definition per call and the dispatcher
  \<^verbatim>\<open>syscall_handler\<close>. A result of \<open>None\<close> is a page fault in the handler (which halts the kernel) or a wait that
  does not end.
\<close>

definition SCREEN_H :: int where "SCREEN_H = 600"
definition USER_SPACE_END :: u32 where "USER_SPACE_END = 0x80000000"

definition valid_user_ptr :: "u32 \<Rightarrow> u32 \<Rightarrow> bool" where
  "valid_user_ptr p len =
     (if USER_SPACE_END \<le> p \<or> p = 0 then False
      else if 0 < len \<and> USER_SPACE_END - p < len then False
      else True)"

text \<open>How a call ends: it returns a value, leaves through \<^verbatim>\<open>elf_exit\<close> to the context of that index, or halts.\<close>

datatype sys_end = Ret u32 | Exit nat | Halt

type_synonym sys_result = "(machine \<times> sys_end) option"

definition ret :: "u32 \<Rightarrow> machine \<Rightarrow> sys_result" where
  "ret r s = Some (s, Ret r)"

subsection \<open>Helpers\<close>

definition copy_kpath :: "u32 \<Rightarrow> machine \<Rightarrow> u8 list option" where
  "copy_kpath upath s = user_str 255 upath s"

text \<open>One call of the directory listing's callback: the text so far and the next entry.\<close>

definition ls_cb :: "int \<Rightarrow> u8 list \<times> u32 \<times> bool \<Rightarrow> u8 list \<Rightarrow> u8 list" where
  "ls_cb cap = (\<lambda>(name, size, is_dir) out.
     if cap - 2 \<le> int (length out) then out
     else let o1 = (if is_dir then out @ [0x2F] else out);
              o2 = o1 @ take (nat (cap - 2 - int (length o1))) name
          in if int (length o2) < cap - 2 then o2 @ [0x0A] else o2)"

fun serial_digits :: "nat \<Rightarrow> int \<Rightarrow> u8 list" where
  "serial_digits 0 n = []"
| "serial_digits (Suc k) n = (if n = 0 then [] else serial_digits k (n div 10) @ [0x30 + word_of_int (n mod 10)])"

text \<open>The text of a 32-bit signed number; ten digits are enough.\<close>

definition serial_int_text :: "int \<Rightarrow> u8 list" where
  "serial_int_text n =
     (if n = 0 then [0x30]
      else if n < 0 then 0x2D # serial_digits 10 (- n)
      else serial_digits 10 n)"

definition serial_int :: "int \<Rightarrow> machine \<Rightarrow> machine" where
  "serial_int n s =
     (if n = -2147483648 then k_puts ''2147483648'' (k_putc 0x2D s) else fold k_putc (serial_int_text n) s)"

text \<open>What the calls with a path print first.\<close>

definition fs_log :: "string \<Rightarrow> u8 list \<Rightarrow> machine \<Rightarrow> machine" where
  "fs_log tag kpath s = k_puts (CHR 0x27 # '' -> '') (k_puts_bytes kpath (k_puts (tag @ [CHR 0x27]) s))"

subsection \<open>Calls 0 to 9\<close>

definition sys_print :: "env \<Rightarrow> u32 \<Rightarrow> u32 \<Rightarrow> machine \<Rightarrow> sys_result" where
  "sys_print E a b s =
     (if \<not> valid_user_ptr a 0 then ret (- 1) s
      else let s1 = (if SCREEN_H < get_y (m_screen s) + 10
                     then m_draw (\<lambda>scr. set_y 0 (fill_screen COL_BG scr)) s else s)
           in Option.bind (user_cstr a s1) (\<lambda>str. ret 0 (m_draw (print (e_font E) str b) s1)))"

definition sys_exit :: "machine \<Rightarrow> sys_result" where
  "sys_exit s = (case elf_exit s of Some d \<Rightarrow> Some (s, Exit d) | None \<Rightarrow> Some (s, Halt))"

definition sys_read :: "env \<Rightarrow> u32 \<Rightarrow> u32 \<Rightarrow> u32 \<Rightarrow> machine \<Rightarrow> sys_result" where
  "sys_read E a b c s =
     (if \<not> valid_user_ptr b c then ret (- 1) s
      else Option.bind (fd_read (sint a) c (k_io s)) (\<lambda>(io, r, out).
             Option.bind (upoke b out (set_io E io s)) (ret (word_of_int r))))"

text \<open>How many bytes of its buffer a write looks at.\<close>

definition fd_consumed :: "int \<Rightarrow> nat \<Rightarrow> int \<Rightarrow> io \<Rightarrow> nat" where
  "fd_consumed fd n r io =
     (if fd_bad fd io then 0
      else if d_type (fds io ! nat fd) \<in> {FD_STDOUT, FD_STDERR} then min n 256 else nat r)"

definition sys_write :: "env \<Rightarrow> u32 \<Rightarrow> u32 \<Rightarrow> u32 \<Rightarrow> machine \<Rightarrow> sys_result" where
  "sys_write E a b c s =
     (if \<not> valid_user_ptr b c then ret (- 1) s
      else Option.bind (fd_write (sint a) (user_bytes b (unat c) s) (k_io s)) (\<lambda>(io, r).
             if readable b (fd_consumed (sint a) (unat c) r (k_io s)) s
             then ret (word_of_int r) (set_io E io s) else None))"

definition sys_open :: "env \<Rightarrow> u32 \<Rightarrow> machine \<Rightarrow> sys_result" where
  "sys_open E a s =
     (if \<not> valid_user_ptr a 0 then ret (- 1) s
      else Option.bind (copy_kpath a s) (\<lambda>kpath.
        let s1 = fs_log ''[open] '' kpath s
        in case fd_open kpath (k_io s1) of (io, r) \<Rightarrow>
             ret (word_of_int r) (k_putc 0x0A (serial_int r (set_io E io s1)))))"

definition sys_close :: "env \<Rightarrow> u32 \<Rightarrow> machine \<Rightarrow> sys_result" where
  "sys_close E a s = ret 0 (set_io E (fd_close (sint a) (k_io s)) s)"

text \<open>
  Waiting for a key, a poll per turn: a scancode, or a byte for the serial shell, which \<open>poll\<close> handles.
\<close>

partial_function (option) sys_read_key :: "(u8 \<Rightarrow> machine \<Rightarrow> machine option) \<Rightarrow> machine \<Rightarrow> sys_result" where
  "sys_read_key poll s =
     (case polls (k_io s) of
        [] \<Rightarrow> None
      | p # ps \<Rightarrow>
          let s1 = s\<lparr>k_io := (k_io s)\<lparr>polls := ps\<rparr>\<rparr> in
          case p of
            Scancode sc \<Rightarrow>
              (case read_key sc (kbd_shift_down (k_io s)) of (sh, k) \<Rightarrow>
                 let s2 = s1\<lparr>k_io := (k_io s1)\<lparr>kbd_shift_down := sh\<rparr>\<rparr>
                 in if k \<noteq> 0 then ret (ucast k) s2 else sys_read_key poll (m_update_cursor s2))
          | Serial_Byte b \<Rightarrow> Option.bind (poll b s1) (\<lambda>s2. sys_read_key poll (m_update_cursor s2)))"

definition sys_pipe :: "env \<Rightarrow> u32 \<Rightarrow> machine \<Rightarrow> sys_result" where
  "sys_pipe E a s =
     (if a = 0 \<or> \<not> valid_user_ptr a 8 then ret (- 1) s
      else case fd_pipe (k_io s) of
             (io, None) \<Rightarrow> ret (- 1) (set_io E io s)
           | (io, Some (rfd, wfd)) \<Rightarrow>
               Option.bind (upoke a (bytes32 (word_of_nat rfd) @ bytes32 (word_of_nat wfd)) (set_io E io s)) (ret 0))"

text \<open>The structure at \<^verbatim>\<open>*out\<close>: two coordinates, three flags, a byte of padding that is left alone, two deltas.\<close>

definition mouse_head :: "mouse_state \<Rightarrow> u8 list" where
  "mouse_head m = bytes32 (ms_x m) @ bytes32 (ms_y m) @ [of_bool (ms_left m), of_bool (ms_right m), of_bool (ms_middle m)]"

definition sys_mouse :: "u32 \<Rightarrow> machine \<Rightarrow> sys_result" where
  "sys_mouse a s =
     (if a = 0 \<or> \<not> valid_user_ptr a 20 then ret (- 1) s
      else let m = mouse_get (m_mouse s)
           in Option.bind (upoke a (mouse_head m) s) (\<lambda>s1.
                Option.bind (upoke (a + 12) (bytes32 (ms_dx m) @ bytes32 (ms_dy m)) s1) (ret 0)))"

text \<open>
  A name argument is read where it lies, and only as far as it takes to tell it from the names in the table
  (\<open>name_reads\<close>, at most 32 bytes each) and, for a new region, to copy it. \<open>user_name\<close> are its characters; bytes at
  pages that are not present count as 0 there, and \<open>readable\<close> says whether the bytes that are looked at can be read.
\<close>

definition user_name :: "u32 \<Rightarrow> machine \<Rightarrow> u8 list" where
  "user_name a s = takeWhile (\<lambda>c. c \<noteq> 0) (user_bytes a 32 s)"

fun name_reads :: "u8 list \<Rightarrow> u8 list \<Rightarrow> nat" where
  "name_reads (a # as) (b # bs) = (if a \<noteq> 0 \<and> b \<noteq> 0 \<and> a = b then Suc (name_reads as bs) else 1)"
| "name_reads as bs = 1"

text \<open>The search looks at the used regions in order, up to the one that has the name.\<close>

definition shmem_find_reads :: "u8 list \<Rightarrow> shmem \<Rightarrow> nat" where
  "shmem_find_reads name sh =
     (let n = (case shmem_find name sh of Some i \<Rightarrow> Suc i | None \<Rightarrow> SHMEM_MAX)
      in fold Orderings.max (map (\<lambda>i. if sh_used (sh_regions sh ! i) then name_reads (sh_name (sh_regions sh ! i)) name else 0) [0..<n]) 0)"

text \<open>\<^verbatim>\<open>name_copy(..., 32)\<close> looks at the terminator too, or at the 32nd byte.\<close>

definition shmem_create_reads :: "u8 list \<Rightarrow> u32 \<Rightarrow> shmem \<Rightarrow> nat" where
  "shmem_create_reads name p sh =
     (if shmem_find name sh = None \<and> p \<noteq> 0 then Orderings.max (shmem_find_reads name sh) (min (Suc (length name)) 32)
      else shmem_find_reads name sh)"

definition sys_shmem :: "u32 \<Rightarrow> u32 \<Rightarrow> u32 \<Rightarrow> machine \<Rightarrow> sys_result" where
  "sys_shmem a b c s =
     (if a = 0 \<or> \<not> valid_user_ptr a 0 then ret 0 s
      else let name = user_name a s; finds = readable a (shmem_find_reads name (k_shm s)) s
      in if c = 0 then Option.bind (shmem_create name b (k_shm s)) (\<lambda>(sh, p).
             if readable a (shmem_create_reads name p (k_shm s)) s then ret p (s\<lparr>k_shm := sh\<rparr>) else None)
      else if c = 1 then if finds then ret (shmem_open name (k_shm s)) s else None
      else if c = 2 then if finds then ret 0 (s\<lparr>k_shm := shmem_close name (k_shm s)\<rparr>) else None
      else ret 0 s)"

subsection \<open>Calls 10 to 13\<close>

text \<open>\<^verbatim>\<open>if (out) *out = w;\<close>\<close>

definition poke_opt :: "u32 \<Rightarrow> u32 \<Rightarrow> machine \<Rightarrow> machine option" where
  "poke_opt out w s = (if out \<noteq> 0 then upoke out (bytes32 w) s else Some s)"

text \<open>
  \<^verbatim>\<open>kfree\<close> of a program's pointer, which nothing validates. The words before it are the header: a header inside the
  heap pool is the one the heap has there; anywhere else it is ordinary memory, read and marked free through the
  page tables, and the merge that follows runs over the heap's own chain. (Within the pool the heap model has headers
  at block starts; a pointer that puts the header across an end of the pool counts as one outside.)
\<close>

definition in_heap_pool :: "kheap \<Rightarrow> u32 \<Rightarrow> bool" where
  "in_heap_pool h a \<longleftrightarrow> heap_ready h \<noteq> 0 \<and> unat (heap_pool h) \<le> unat a
     \<and> unat a + unat HDR \<le> unat (heap_pool h) + unat KMALLOC_HEAP_SIZE"

definition user_word :: "u32 \<Rightarrow> machine \<Rightarrow> u32 option" where
  "user_word a s =
     (if readable a 4 s then Some (get32 (\<lambda>x. k_mem s (paging_get_physical (m_vm s) x)) a) else None)"

definition sys_kfree :: "u32 \<Rightarrow> machine \<Rightarrow> machine option" where
  "sys_kfree p s =
     (if p = 0 \<or> in_heap_pool (k_heap s) (p - HDR)
      then map_option (\<lambda>h. s\<lparr>k_heap := h\<rparr>) (kfree p (k_heap s))
      else Option.bind (user_word (p - HDR) s) (\<lambda>magic.
        if magic \<noteq> BLOCK_MAGIC then Some (s\<lparr>k_heap := (k_heap s)\<lparr>kh_if := True\<rparr>\<rparr>)
        else Option.bind (upoke (p - 8) [1] s) (\<lambda>s1.
          map_option (\<lambda>h. s1\<lparr>k_heap := h\<lparr>kh_if := True\<rparr>\<rparr>)
            (merge_free_blocks (heap_head (k_heap s1)) ((k_heap s1)\<lparr>kh_if := False\<rparr>)))))"

definition sys_mem :: "u32 \<Rightarrow> u32 \<Rightarrow> u32 \<Rightarrow> machine \<Rightarrow> sys_result" where
  "sys_mem a b c s =
     (if a = 0 then Option.bind (kmalloc (k_heap_base s) b (k_heap s)) (\<lambda>(h, p). ret p (s\<lparr>k_heap := h\<rparr>))
      else if a = 1 then Option.bind (sys_kfree b s) (ret 0)
      else if a = 2 then
        if \<not> valid_user_ptr b 8 then ret (- 1) s
        else Option.bind (kmem_info (k_heap s)) (\<lambda>(used, free_bytes).
               Option.bind (poke_opt b used s) (\<lambda>s1.
                 Option.bind (poke_opt c free_bytes s1) (ret 0)))
      else if a = 3 then
        if b \<noteq> 0 \<and> \<not> valid_user_ptr b 4 then ret (- 1) s
        else if c \<noteq> 0 \<and> \<not> valid_user_ptr c 4 then ret (- 1) s
        else Option.bind (poke_opt b (pmm_used (vm_pmm (k_vm s)) * 4) s) (\<lambda>s1.
               Option.bind (poke_opt c (pmm_free_count (vm_pmm (k_vm s1)) * 4) s1) (ret 0))
      else ret (- 1) s)"

definition sys_proc :: "u32 \<Rightarrow> u32 \<Rightarrow> machine \<Rightarrow> sys_result" where
  "sys_proc a b s =
     (if a = 0 then ret (t_id (sched_current_task (k_sched s))) s
      else if a = 1 then ret (t_id (sched_current_task (k_sched s))) s
      else if a = 2 then ret 0 s
      else if a = 3 then ret 0 (s\<lparr>k_sched := sched_kill_task b (k_sched s)\<rparr>)
      else if a = 4 then ret 0 (s\<lparr>k_sched := sched_yield (k_sched s)\<rparr>)
      else ret (- 1) s)"

text \<open>Port accesses and serial output of the power functions.\<close>

definition set_power :: "pio list \<Rightarrow> u8 list \<Rightarrow> machine \<Rightarrow> machine" where
  "set_power h com s = s\<lparr>m_ports := h, k_io := (k_io s)\<lparr>com1 := com\<rparr>\<rparr>"

definition sys_power :: "env \<Rightarrow> u32 \<Rightarrow> machine \<Rightarrow> sys_result" where
  "sys_power E a s =
     (if a = 0 then
        case acpi_shutdown (m_acpi s) (m_ports s, com1 (k_io s)) of (off, h, com) \<Rightarrow>
          if off then Some (set_power h com s, Halt) else ret 0 (set_power h com s)
      else if a = 1 then
        case acpi_reboot (e_dev E) (m_ports s, com1 (k_io s)) of (off, h, com) \<Rightarrow>
          if off then Some (set_power h com s, Halt) else ret 0 (set_power h com s)
      else ret 0 s)"

definition sys_time :: "env \<Rightarrow> u32 \<Rightarrow> u32 \<Rightarrow> u32 \<Rightarrow> machine \<Rightarrow> sys_result" where
  "sys_time E a b c s =
     (if a = 0 then ret (ucast (pit_uptime_ms (m_timer s) div 1000)) s
      else if a = 1 then
        if \<not> valid_user_ptr b c then ret (- 1) s
        else case rtc_format (e_dev E) (sint c) (m_ports s) of (line, h) \<Rightarrow>
               Option.bind (upoke b line (s\<lparr>m_ports := h\<rparr>)) (ret 0)
      else if a = 2 then
        Option.bind (pit_sleep b (m_wakes s) (m_timer s)) (\<lambda>(tm, ws). ret 0 (s\<lparr>m_timer := tm, m_wakes := ws\<rparr>))
      else ret (- 1) s)"

subsection \<open>Calls 14 to 16\<close>

definition sys_ls :: "env \<Rightarrow> u32 \<Rightarrow> u32 \<Rightarrow> u32 \<Rightarrow> machine \<Rightarrow> sys_result" where
  "sys_ls E b c d s =
     (if \<not> valid_user_ptr b 0 \<or> \<not> valid_user_ptr c d then ret (- 1) s
      else Option.bind (copy_kpath b s) (\<lambda>kpath.
        case fat12_ls (e_ent0 E) (Some kpath) (k_vol s) of (v, ok, entries) \<Rightarrow>
          let out = fold (ls_cb (sint d)) entries []
          in Option.bind (upoke c (out @ (if int (length out) < sint d then [0] else [])) (set_vol v s))
               (ret (word_of_nat (length out)))))"

text \<open>The calls that take a path and report on the serial port.\<close>

definition sys_path :: "string \<Rightarrow> (u8 list \<Rightarrow> fatfs \<Rightarrow> (fatfs \<times> bool) option) \<Rightarrow> u32 \<Rightarrow> machine \<Rightarrow> sys_result" where
  "sys_path tag f b s =
     (if \<not> valid_user_ptr b 0 then ret (- 1) s
      else Option.bind (copy_kpath b s) (\<lambda>kpath.
        let s1 = fs_log tag kpath s
        in Option.bind (f kpath (k_vol s1)) (\<lambda>(v, ok).
             ret (if ok then 0 else - 1) (k_puts ((if ok then ''ok'' else ''fail'') @ [CHR 0x0A]) (set_vol v s1)))))"

definition sys_create :: "env \<Rightarrow> u32 \<Rightarrow> machine \<Rightarrow> sys_result" where
  "sys_create E b s =
     (if \<not> valid_user_ptr b 0 then ret (- 1) s
      else Option.bind (copy_kpath b s) (\<lambda>kpath.
        let s1 = fs_log ''[create] '' kpath s
        in Option.bind (fd_create kpath (k_io s1)) (\<lambda>(io, fd).
             let s2 = k_putc 0x0A (serial_int fd (set_io E io s1));
                 s3 = (if 0 \<le> fd then set_io E (fd_close fd (k_io s2)) s2 else s2)
             in ret (if 0 \<le> fd then 0 else - 1) s3)))"

definition sys_fs :: "env \<Rightarrow> u32 \<Rightarrow> u32 \<Rightarrow> u32 \<Rightarrow> u32 \<Rightarrow> machine \<Rightarrow> sys_result" where
  "sys_fs E a b c d s =
     (if a = 0 then sys_ls E b c d s
      else if a = 1 then sys_path ''[mkdir] '' fat12_mkdir b s
      else if a = 2 then sys_path ''[rm] '' fat12_delete b s
      else if a = 3 then sys_path ''[rmdir] '' fat12_rmdir b s
      else if a = 4 then sys_create E b s
      else ret (- 1) s)"

definition lo16 :: "u32 \<Rightarrow> int" where
  "lo16 w = uint (w AND 0xFFFF)"

definition hi16 :: "u32 \<Rightarrow> int" where
  "hi16 w = uint (drop_bit 16 w)"

definition sys_draw :: "env \<Rightarrow> u32 \<Rightarrow> u32 \<Rightarrow> u32 \<Rightarrow> u32 \<Rightarrow> machine \<Rightarrow> sys_result" where
  "sys_draw E a b c d s =
     (if a = 0 then ret 0 (m_draw (\<lambda>scr. set_y 0 (fill_screen COL_BG scr)) s)
      else if a = 1 then ret 0 (if vbe_bpp (m_screen s) \<noteq> 0 then m_draw fb_present s else s)
      else if a = 2 then ret 0 (m_draw (draw_rect (lo16 b) (hi16 b) (lo16 c) (hi16 c) d) s)
      else if a = 3 then ret 0 (m_draw (printxy (e_font E) (cstr [ucast b]) (lo16 c) (hi16 c) d) s)
      else if a = 4 then Option.bind (user_cstr b s) (\<lambda>str. ret 0 (m_draw (printxy (e_font E) str (lo16 c) (hi16 c) d) s))
      else if a = 5 then ret (word_of_int (get_y (m_screen s))) s
      else if a = 6 then ret 0 (m_draw (set_y (sint b)) s)
      else ret (- 1) s)"

definition sys_exec :: "env \<Rightarrow> u32 \<Rightarrow> machine \<Rightarrow> sys_result" where
  "sys_exec E b s =
     (if \<not> valid_user_ptr b 0 then ret (- 1) s
      else Option.bind (copy_kpath b s) (\<lambda>kpath.
        Option.bind (elf_exec (e_ring3 E) kpath (Some (replicate 64 0)) 64 s) (\<lambda>(s1, err).
          ret 0 (case err of Some e \<Rightarrow> if chr0 e \<noteq> 0 then k_puts_bytes e s1 else s1 | None \<Rightarrow> s1))))"

subsection \<open>The dispatcher\<close>

definition syscall_handler ::
  "env \<Rightarrow> (u8 \<Rightarrow> machine \<Rightarrow> machine option) \<Rightarrow> u32 \<Rightarrow> u32 \<Rightarrow> u32 \<Rightarrow> u32 \<Rightarrow> u32 \<Rightarrow> machine \<Rightarrow> sys_result" where
  "syscall_handler E poll num a b c d s =
     (if num = 0 then sys_print E a b s
      else if num = 1 then sys_exit s
      else if num = 2 then sys_read E a b c s
      else if num = 3 then sys_write E a b c s
      else if num = 4 then sys_open E a s
      else if num = 5 then sys_close E a s
      else if num = 6 then sys_read_key poll s
      else if num = 7 then sys_pipe E a s
      else if num = 8 then sys_mouse a s
      else if num = 9 then sys_shmem a b c s
      else if num = 10 then sys_mem a b c s
      else if num = 11 then sys_proc a b s
      else if num = 12 then sys_power E a s
      else if num = 13 then sys_time E a b c s
      else if num = 14 then sys_fs E a b c d s
      else if num = 15 then sys_draw E a b c d s
      else if num = 16 then sys_exec E b s
      else ret (- 1) s)"

text \<open>The gate that \<^verbatim>\<open>syscall_init\<close> installs: vector, selector and flags (ring 3, 32-bit interrupt gate).\<close>

definition syscall_gate :: "nat \<times> u16 \<times> u8" where
  "syscall_gate = (0x80, 0x08, 0xEE)"

end
