(* ===== verification/Shell_Io.thy ===== *)
theory Shell_Io
  imports Shell_Path Syscall Printf
begin

text \<open>
  \<^verbatim>\<open>kernel/shell/shell.cpp\<close>: output of the shell to the screen and the serial port, or to the descriptor of a pipe
  or a file; reading a command line; listing a directory with an action per entry. \<open>None\<close> is a wait that does
  not end or a failure of the file system to return.
\<close>

definition COL_PROMPT :: u32 where "COL_PROMPT = 0xFFCC00"
definition COL_INFO :: u32 where "COL_INFO = 0x00CCFF"
definition COL_OK :: u32 where "COL_OK = 0x00FF88"
definition CHAR_W :: int where "CHAR_W = 8"
definition CHAR_H :: int where "CHAR_H = 10"
definition CMD_BUF :: nat where "CMD_BUF = 128"
definition PROMPT :: "u8 list" where "PROMPT = bytes ''WarkRune> ''"
definition PROMPT_PX :: int where "PROMPT_PX = 10 * CHAR_W"

definition m_present :: "machine \<Rightarrow> machine" where
  "m_present s = m_draw fb_present s"

definition clear_if_full :: "screen \<Rightarrow> screen" where
  "clear_if_full scr = (if SCREEN_H < get_y scr + CHAR_H then set_y 0 (fill_screen COL_BG scr) else scr)"

definition shell_puts :: "env \<Rightarrow> u8 list \<Rightarrow> u32 \<Rightarrow> machine \<Rightarrow> machine option" where
  "shell_puts E str color s =
     (if 0 \<le> g_out_fd s then
        Option.bind (fd_write (g_out_fd s) str (k_io s)) (\<lambda>(io, _).
          map_option (\<lambda>(io, _). set_io E io s) (fd_write (g_out_fd s) [0x0A] io))
      else
        Some (k_puts_bytes str (if g_serial_mode s then s else m_draw (\<lambda>scr. print (e_font E) str color (clear_if_full scr)) s)))"

text \<open>A line from a format: \<^verbatim>\<open>char buf[cap]; ksnprintf(buf, sizeof(buf), ...); shell_puts(buf, color);\<close>\<close>

definition shell_printf :: "env \<Rightarrow> nat \<Rightarrow> string \<Rightarrow> karg list \<Rightarrow> u32 \<Rightarrow> machine \<Rightarrow> machine option" where
  "shell_printf E cap f args color s =
     Option.bind (ksnprintf (replicate cap 0) (int cap) (bytes f) args) (\<lambda>(buf, _). shell_puts E (cstr buf) color s)"

definition say :: "env \<Rightarrow> string \<Rightarrow> u32 \<Rightarrow> machine \<Rightarrow> machine option" where
  "say E str color s = shell_puts E (bytes str) color s"

subsection \<open>Reading a line\<close>

text \<open>
  \<open>pend\<close> are the bytes that arrive on the serial port meanwhile; they stay unread. The result is the line without
  its terminator and the machine with the polls that are left.
\<close>

fun readline_loop ::
  "env \<Rightarrow> nat \<Rightarrow> int \<Rightarrow> poll list \<Rightarrow> poll list \<Rightarrow> u8 list \<Rightarrow> int \<Rightarrow> machine \<Rightarrow> (machine \<times> u8 list) option" where
  "readline_loop E cap y [] pend buf x s = None"
| "readline_loop E cap y (Serial_Byte b # ps) pend buf x s =
     readline_loop E cap y ps (pend @ [Serial_Byte b]) buf x (m_update_cursor s)"
| "readline_loop E cap y (Scancode sc # ps) pend buf x s =
     (let (sh, c) = read_key sc (kbd_shift_down (k_io s));
          s1 = s\<lparr>k_io := (k_io s)\<lparr>kbd_shift_down := sh\<rparr>\<rparr>
      in if c = 0 then readline_loop E cap y ps pend buf x (m_update_cursor s1)
      else let s2 = k_putc c s1 in
        if c = 0x0D \<or> c = 0x0A then Some (s2\<lparr>k_io := (k_io s2)\<lparr>polls := pend @ ps\<rparr>\<rparr>, buf)
        else if c = 0x08 \<or> c = 0x7F then
          if buf \<noteq> [] then
            let buf1 = butlast buf; x1 = x - CHAR_W
            in readline_loop E cap y ps pend buf1 x1
                 (m_draw (\<lambda>scr. printxy (e_font E) buf1 PROMPT_PX y COL_FG (draw_rect x1 y CHAR_W 8 COL_BG scr)) s2)
          else readline_loop E cap y ps pend buf x s2
        else if length buf < cap - 1 then
          readline_loop E cap y ps pend (buf @ [c]) (x + CHAR_W) (m_draw (printxy (e_font E) [c] x y COL_FG) s2)
        else readline_loop E cap y ps pend buf x s2)"

definition drop_serial :: "poll list \<Rightarrow> poll list" where
  "drop_serial ps = dropWhile (\<lambda>p. case p of Serial_Byte _ \<Rightarrow> True | Scancode _ \<Rightarrow> False) ps"

definition shell_readline :: "env \<Rightarrow> nat \<Rightarrow> machine \<Rightarrow> (machine \<times> u8 list) option" where
  "shell_readline E cap s =
     (let s1 = m_draw clear_if_full s;
          y = get_y (m_screen s1);
          s2 = k_puts_bytes PROMPT (m_draw (printxy (e_font E) PROMPT 0 y COL_PROMPT) s1);
          s3 = m_draw (set_y (y + CHAR_H)) s2;
          ps = drop_serial (polls (k_io s3))
      in readline_loop E cap y ps [] [] PROMPT_PX s3)"

subsection \<open>Listing with an action per entry\<close>

text \<open>
  \<^verbatim>\<open>fat12_ls\<close> with a callback that works on the machine: the loop of \<open>dir_list\<close> with the callback run where the
  code runs it, between the reads of the directory.
\<close>

type_synonym ls_action = "u8 list \<times> u32 \<times> bool \<Rightarrow> machine \<Rightarrow> machine option"

fun dir_each :: "u16 \<Rightarrow> nat list \<Rightarrow> ls_action \<Rightarrow> machine \<Rightarrow> machine option" where
  "dir_each dc [] f s = Some s"
| "dir_each dc (i # is) f s =
     (case dir_read_entry (g_root_lba (k_vol s)) dc i (k_vol s) of
        (v, None) \<Rightarrow> Some (set_vol v s)
      | (v, Some e) \<Rightarrow>
          let s1 = set_vol v s in
          if name_first e = DIR_END then Some s1
          else if name_first e = DIR_FREE then dir_each dc is f s1
          else if de_attr e AND ATTR_LFN \<noteq> 0 then dir_each dc is f s1
          else if dot_entry e then dir_each dc is f s1
          else Option.bind (f (from_83 (de_name11 e), file_size e, de_attr e AND ATTR_DIR \<noteq> 0) s1) (dir_each dc is f))"

definition fat12_ls_each :: "dir_entry \<Rightarrow> u8 list \<Rightarrow> ls_action \<Rightarrow> machine \<Rightarrow> (machine \<times> bool) option" where
  "fat12_ls_each e0 p f s =
     (let finish = (\<lambda>dc s. map_option (\<lambda>s'. (s', True)) (dir_each dc [0..<max_ents (k_vol s) dc] f s)) in
      if p = [] \<or> p = [0x2F] then finish 0 s
      else case resolve_path p (k_vol s) of
             (v1, None) \<Rightarrow> Some (set_vol v1 s, False)
           | (v1, Some (dc, fn)) \<Rightarrow>
               if fn ! 0 = 0 then finish dc (set_vol v1 s)
               else case find_in_dir dc fn v1 of
                      (v2, r) \<Rightarrow>
                        let e = (case r of None \<Rightarrow> e0 | Some (i, e) \<Rightarrow> e); s2 = set_vol v2 s in
                        if (case r of None \<Rightarrow> False | Some (i, e) \<Rightarrow> i = 0) then Some (s2, False)
                        else if de_attr e AND ATTR_DIR = 0 then Some (s2, False)
                        else finish (first_cluster e) s2)"

definition fat12_ls_case :: "dir_entry \<Rightarrow> u8 list \<Rightarrow> ls_action \<Rightarrow> machine \<Rightarrow> (machine \<times> bool) option" where
  "fat12_ls_case e0 path f s =
     Option.bind (fat12_ls_each e0 path f s) (\<lambda>(s1, ok).
       if ok then Some (s1, True)
       else if \<not> has_lower_alpha path then Some (s1, False)
       else fat12_ls_each e0 (to_upper_str path) f s1)"

end
