(* ===== verification/Cpuid.thy ===== *)
theory Cpuid
  imports Bytes Chars
begin

text \<open>
  \<^verbatim>\<open>kernel/system/cpuid/cpuid.cpp\<close>: the processor's description, from the instruction \<^verbatim>\<open>cpuid\<close>, which is a
  parameter from leaves to the registers \<^verbatim>\<open>eax\<close>, \<^verbatim>\<open>ebx\<close>, \<^verbatim>\<open>ecx\<close> and \<^verbatim>\<open>edx\<close>.
\<close>

type_synonym cpuid_insn = "u32 \<Rightarrow> u32 \<times> u32 \<times> u32 \<times> u32"

record cpu_info =
  c_vendor :: "u8 list"       \<comment> \<open>13 bytes, the last one 0\<close>
  c_brand :: "u8 list"        \<comment> \<open>49 bytes\<close>
  c_family :: u32
  c_model :: u32
  c_stepping :: u32
  has_fpu :: bool
  has_sse :: bool
  has_sse2 :: bool
  has_sse3 :: bool
  has_avx :: bool
  has_apic :: bool
  has_msr :: bool
  has_pae :: bool

definition cpu_bit :: "u32 \<Rightarrow> nat \<Rightarrow> bool" where
  "cpu_bit w n \<longleftrightarrow> w AND push_bit n 1 \<noteq> 0"

text \<open>The three leaves of the brand string, 16 bytes each.\<close>

definition leaf_bytes :: "u32 \<times> u32 \<times> u32 \<times> u32 \<Rightarrow> u8 list" where
  "leaf_bytes = (\<lambda>(eax, ebx, ecx, edx). bytes32 eax @ bytes32 ebx @ bytes32 ecx @ bytes32 edx)"

definition cpuid_get :: "cpuid_insn \<Rightarrow> cpu_info" where
  "cpuid_get insn =
     (let (_, b0, c0, d0) = insn 0;
          (a1, _, c1, d1) = insn 1;
          (a8, _, _, _) = insn 0x80000000
      in \<lparr>c_vendor = bytes32 b0 @ bytes32 d0 @ bytes32 c0 @ [0],
          c_brand = (if 0x80000004 \<le> a8
                     then leaf_bytes (insn 0x80000002) @ leaf_bytes (insn 0x80000003) @ leaf_bytes (insn 0x80000004) @ [0]
                     else replicate 49 0),
          c_family = drop_bit 8 a1 AND 0xF, c_model = drop_bit 4 a1 AND 0xF, c_stepping = a1 AND 0xF,
          has_fpu = cpu_bit d1 0, has_sse = cpu_bit d1 25, has_sse2 = cpu_bit d1 26, has_sse3 = cpu_bit c1 0,
          has_avx = cpu_bit c1 28, has_apic = cpu_bit d1 9, has_msr = cpu_bit d1 5, has_pae = cpu_bit d1 6\<rparr>)"

lemma length_leaf_bytes [simp]: "length (leaf_bytes r) = 16"
  by (simp add: leaf_bytes_def bytes32_def split: prod.splits)

text \<open>Both strings fill their arrays and end inside them.\<close>

lemma cpuid_get_strings:
  "length (c_vendor (cpuid_get insn)) = 13 \<and> List.last (c_vendor (cpuid_get insn)) = 0
   \<and> length (c_brand (cpuid_get insn)) = 49 \<and> List.last (c_brand (cpuid_get insn)) = 0"
  by (simp add: cpuid_get_def Let_def bytes32_def numeral_eq_Suc split: prod.splits)

end
