(* ===== verification/Panic.thy ===== *)
theory Panic
  imports Screen Chars
begin

text \<open>
  \<^verbatim>\<open>kernel/system/panic.hpp\<close> and \<^verbatim>\<open>kernel/system/idt/exceptions.cpp\<close>: what the kernel shows before it halts
  for good. The formatters give the C string they store, without its terminator.
\<close>

definition nibble :: "u32 \<Rightarrow> nat \<Rightarrow> nat" where
  "nibble val i = unat (drop_bit (i * 4) val AND 0xF)"

definition hex_char :: "nat \<Rightarrow> u8" where
  "hex_char n = (if n < 10 then 0x30 + word_of_nat n else 0x61 + word_of_nat n - 10)"

text \<open>\<^verbatim>\<open>for (int i = 7; i >= 0; i--)\<close>\<close>

definition panic_print_hex :: "u32 \<Rightarrow> u8 list" where
  "panic_print_hex val = bytes ''0x'' @ map (\<lambda>i. hex_char (nibble val i)) (rev [0..<8])"

fun panic_digits :: "nat \<Rightarrow> int \<Rightarrow> u8 list" where
  "panic_digits 0 val = []"
| "panic_digits (Suc k) val = (if 0 < val then (0x30 + word_of_int (val mod 10)) # panic_digits k (val div 10) else [])"

text \<open>The digits of a 32-bit number, the lowest first, as \<^verbatim>\<open>tmp\<close> holds them and as they are copied.\<close>

definition panic_print_int :: "int \<Rightarrow> u8 list" where
  "panic_print_int val =
     (if val = 0 then [0x30]
      else if val < 0 then 0x2D # panic_digits 10 (if val = -2147483648 then 2147483647 else - val)
      else panic_digits 10 val)"

text \<open>The lines of the macro \<^verbatim>\<open>PANIC\<close> with their colours, after the screen has been filled.\<close>

definition panic_reg :: "string \<Rightarrow> u32 \<Rightarrow> u8 list \<times> u32" where
  "panic_reg nm val = (bytes nm @ bytes ''='' @ panic_print_hex val, 0x888899)"

definition panic_rule :: "u8 list \<times> u32" where
  "panic_rule = (bytes ''--------------------'', 0x333350)"

definition panic_lines :: "u8 list \<Rightarrow> u8 list \<Rightarrow> u8 list \<Rightarrow> int \<Rightarrow> u64 \<Rightarrow> u64 \<Rightarrow> u32 list \<Rightarrow> (u8 list \<times> u32) list" where
  "panic_lines msg file func line heap_base heap_size regs =
     [(bytes ''kernel panic'', 0xFF5555), panic_rule,
      (bytes ''reason:'', 0xFFCC00), (msg, 0xFFFFFF), panic_rule,
      (bytes ''file:'', 0xFFCC00), (file, 0xFFFFFF),
      (bytes ''function:'', 0xFFCC00), (func, 0xFFFFFF),
      (bytes ''line:'', 0xFFCC00), (panic_print_int line, 0xFFFFFF), panic_rule,
      (bytes ''-- memory --'', 0xFFCC00),
      (bytes ''heap base: '' @ panic_print_hex (ucast heap_base), 0x888899),
      (bytes ''heap size: '' @ panic_print_hex (ucast heap_size), 0x888899), panic_rule,
      (bytes ''-- registers --'', 0xFFCC00)]
     @ map2 panic_reg [''eax'', ''ebx'', ''ecx'', ''edx'', ''esp'', ''ebp'', ''esi'', ''edi'', ''eflags''] regs
     @ [panic_rule, (bytes ''-- system --'', 0xFFCC00),
        (bytes ''os:   warkrune'', 0x666680), (bytes ''arch: x86 32bit'', 0x666680), (bytes ''system halted'', 0xFF5555)]"

definition panic_screen ::
  "(nat \<Rightarrow> u8) \<Rightarrow> u8 list \<Rightarrow> u8 list \<Rightarrow> u8 list \<Rightarrow> int \<Rightarrow> u64 \<Rightarrow> u64 \<Rightarrow> u32 list \<Rightarrow> screen \<Rightarrow> screen" where
  "panic_screen font msg file func line heap_base heap_size regs scr =
     fold (\<lambda>(str, color). print font str color) (panic_lines msg file func line heap_base heap_size regs)
       (set_y 0 (fill_screen 0x1A0000 scr))"

subsection \<open>The page fault\<close>

definition serial_hex32 :: "u32 \<Rightarrow> u8 list" where
  "serial_hex32 v = bytes ''0x'' @ map (\<lambda>i. hex_char (nibble v i)) (rev [0..<8])"

text \<open>What \<^verbatim>\<open>_page_fault_handler\<close> sends on the serial port before it halts.\<close>

definition page_fault_report :: "u32 \<Rightarrow> u32 \<Rightarrow> u8 list" where
  "page_fault_report cr2 fb =
     bytes (CHR 0x0A # ''[KERNEL PANIC] page fault CR2='') @ serial_hex32 cr2 @ bytes '' FB='' @ serial_hex32 fb
     @ bytes (CHR 0x0A # ''[kernel halted]'' @ [CHR 0x0A])"

subsection \<open>The formatters\<close>

text \<open>The hexadecimal form is read back: the number is the value of its eight digits.\<close>

definition hex_val :: "u8 \<Rightarrow> nat" where
  "hex_val c = (if c < 0x3A then unat (c - 0x30) else unat (c - 0x57))"

lemma nibble_eq: "nibble val i = unat val div 16 ^ i mod 16"
proof -
  have "w AND 0xF = take_bit 4 w" for w :: u32 by (simp add: take_bit_eq_mask mask_eq_exp_minus_1)
  then have "unat (w AND 0xF) = unat w mod 16" for w :: u32 by (simp add: unat_mod take_bit_eq_mod)
  moreover have "(2::nat) ^ (i * 4) = 16 ^ i" by (simp add: power_mult mult.commute [of i])
  moreover have "unat (drop_bit k val) = unat val div 2 ^ k" for k
    using unsigned_less [where ?'a = nat, of val] by (simp add: unsigned_drop_bit_eq take_bit_nat_eq_self) (simp add: drop_bit_eq_div)
  ultimately show ?thesis by (simp add: nibble_def)
qed

lemma hex_val_char: "n < 16 \<Longrightarrow> hex_val (hex_char n) = n"
proof -
  assume "n < 16"
  moreover have "list_all (\<lambda>n. hex_val (hex_char n) = n) [0..<16]"
    by code_simp
  ultimately show ?thesis by (simp add: list_all_iff)
qed

definition hex_num :: "u8 list \<Rightarrow> nat" where
  "hex_num cs = foldl (\<lambda>a c. 16 * a + hex_val c) 0 cs"

lemma hex_num_Cons: "hex_num (c # cs) = hex_val c * 16 ^ length cs + hex_num cs"
proof -
  have "foldl (\<lambda>a c. 16 * a + hex_val c) x cs = x * 16 ^ length cs + hex_num cs" for x
  proof (induction cs arbitrary: x)
    case (Cons d cs)
    show ?case using Cons [of "16 * x + hex_val d"] Cons [of "hex_val d"] by (simp add: hex_num_def algebra_simps)
  qed (simp add: hex_num_def)
  from this [of "hex_val c"] show ?thesis by (simp add: hex_num_def)
qed

lemma hex_digits_value: "hex_num (map (\<lambda>i. hex_char (nibble v i)) (rev [0..<n])) = unat v mod 16 ^ n"
proof (induction n)
  case (Suc n)
  have "unat v mod 16 ^ Suc n = unat v div 16 ^ n mod 16 * 16 ^ n + unat v mod 16 ^ n"
    using mod_mult2_eq [of "unat v" "16 ^ n" 16] by (simp add: mult.commute)
  moreover have "hex_val (hex_char (nibble v n)) = unat v div 16 ^ n mod 16" by (simp add: hex_val_char nibble_eq)
  ultimately show ?case using Suc by (simp add: hex_num_Cons)
qed (simp add: hex_num_def)

lemma panic_hex_value: "hex_num (drop 2 (panic_print_hex v)) = unat v"
proof -
  have "drop 2 (panic_print_hex v) = map (\<lambda>i. hex_char (nibble v i)) (rev [0..<8])"
    by (simp add: panic_print_hex_def bytes_def)
  then show ?thesis using hex_digits_value [of v 8] unsigned_less [where ?'a = nat, of v] by simp
qed

text \<open>The decimal form is the wrong way round.\<close>

lemma panic_digits_value: "0 \<le> v \<Longrightarrow> v < 10 ^ k \<Longrightarrow> dec_val 0 (rev (panic_digits k v)) = v"
proof (induction k arbitrary: v)
  case (Suc k)
  have "uint (word_of_int (v mod 10) :: u8) = v mod 10" by (simp add: unsigned_of_int take_bit_int_eq_self)
  then have "uint (0x30 + word_of_int (v mod 10) :: u8) = 48 + v mod 10" by (simp add: uint_word_ariths(1))
  with Suc show ?case by (simp add: dec_val_append)
qed simp

lemma panic_int_reversed: "0 < v \<Longrightarrow> v < 2 ^ 31 \<Longrightarrow> dec_val 0 (rev (panic_print_int v)) = v"
  using panic_digits_value [of v 10] by (simp add: panic_print_int_def)

lemma panic_int_12: "panic_print_int 12 = bytes ''21''"
  by code_simp

end
