(* ===== verification/Shell_Cmd.thy ===== *)
theory Shell_Cmd
  imports Shell_Io Cpuid Panic "HOL-Library.Monad_Syntax"
begin

text \<open>
  \<^verbatim>\<open>kernel/shell/shell.cpp\<close>: the built-in commands of the table \<^verbatim>\<open>cmds\<close> and \<^verbatim>\<open>exec\<close>. A command is a function
  from machines to machines; \<open>None\<close> is a halt (\<^verbatim>\<open>panic\<close>, a page fault) or a wait that does not end.
\<close>

subsection \<open>Operations of the components on the machine\<close>

definition vol_do :: "(fatfs \<Rightarrow> fatfs \<times> 'a) \<Rightarrow> machine \<Rightarrow> machine \<times> 'a" where
  "vol_do f s = (case f (k_vol s) of (v, r) \<Rightarrow> (set_vol v s, r))"

definition vol_try :: "(fatfs \<Rightarrow> (fatfs \<times> 'a) option) \<Rightarrow> machine \<Rightarrow> (machine \<times> 'a) option" where
  "vol_try f s = map_option (\<lambda>(v, r). (set_vol v s, r)) (f (k_vol s))"

definition m_close :: "int \<Rightarrow> machine \<Rightarrow> machine" where
  "m_close fd s = set_vol (fat12_close fd (k_vol s)) s"

definition m_pmm :: "(pmm \<Rightarrow> pmm) \<Rightarrow> machine \<Rightarrow> machine" where
  "m_pmm f s = set_vm ((k_vm s)\<lparr>vm_pmm := f (vm_pmm (k_vm s))\<rparr>) s"

definition m_pmm_alloc :: "machine \<Rightarrow> machine \<times> u32" where
  "m_pmm_alloc s = (case pmm_alloc (vm_pmm (k_vm s)) of (p, a) \<Rightarrow> (m_pmm (\<lambda>_. p) s, a))"

definition m_paging :: "(paging \<Rightarrow> paging) \<Rightarrow> machine \<Rightarrow> machine" where
  "m_paging f s = set_vm ((k_vm s)\<lparr>vm_pg := f (vm_pg (k_vm s))\<rparr>) s"

definition m_vmm_alloc :: "u32 \<Rightarrow> u32 \<Rightarrow> machine \<Rightarrow> machine \<times> u32" where
  "m_vmm_alloc virt flags s = (case vmm_alloc virt flags (k_vm s) of (vm, a) \<Rightarrow> (set_vm vm s, a))"

definition m_vmm_free :: "u32 \<Rightarrow> machine \<Rightarrow> machine" where
  "m_vmm_free virt s = set_vm (vmm_free virt (k_vm s)) s"

definition m_kmalloc :: "u32 \<Rightarrow> machine \<Rightarrow> (machine \<times> u32) option" where
  "m_kmalloc sz s = map_option (\<lambda>(h, p). (s\<lparr>k_heap := h\<rparr>, p)) (kmalloc (k_heap_base s) sz (k_heap s))"

definition m_kfree :: "u32 \<Rightarrow> machine \<Rightarrow> machine option" where
  "m_kfree p s = map_option (\<lambda>h. s\<lparr>k_heap := h\<rparr>) (kfree p (k_heap s))"

text \<open>A 32-bit word at a virtual address.\<close>

definition m_read32 :: "u32 \<Rightarrow> machine \<Rightarrow> u32 option" where
  "m_read32 a s =
     (if readable a 4 s then Some (get32 (\<lambda>v. k_mem s (paging_get_physical (m_vm s) v)) a) else None)"

definition m_write32 :: "u32 \<Rightarrow> u32 \<Rightarrow> machine \<Rightarrow> machine option" where
  "m_write32 a w s = upoke a (bytes32 w) s"

definition verdict :: "env \<Rightarrow> bool \<Rightarrow> string \<Rightarrow> string \<Rightarrow> machine \<Rightarrow> machine option" where
  "verdict E good yes no s = say E (if good then yes else no) (if good then COL_OK else COL_ERR) s"

subsection \<open>The table\<close>

definition cmds :: "(string \<times> string) list" where
  "cmds =
     [(''help'', ''show this list''), (''clear'', ''clear screen''), (''panic'', ''trigger kernel panic''),
      (''time'', ''show time''), (''uptime'', ''show uptime''), (''paging'', ''test paging''),
      (''free'', ''show memory usage''), (''fat12'', ''test FAT12 filesystem''), (''freedom'', ''play a tune''),
      (''cpuid'', ''print cpuid info''), (''syscall'', ''test syscall''), (''memtesting'', ''test all memory'')]"

definition help_line :: "env \<Rightarrow> string \<times> string \<Rightarrow> machine \<Rightarrow> machine option" where
  "help_line E c = shell_printf E 80 ''  %-12s %s'' [ArgStr (Some (bytes (fst c))), ArgStr (Some (bytes (snd c)))] COL_FG"

fun help_lines :: "env \<Rightarrow> (string \<times> string) list \<Rightarrow> machine \<Rightarrow> machine option" where
  "help_lines E [] s = Some s"
| "help_lines E (c # cs) s = do { s \<leftarrow> help_line E c s; help_lines E cs s }"

definition cmd_help :: "env \<Rightarrow> machine \<Rightarrow> machine option" where
  "cmd_help E s = do {
     s \<leftarrow> say E ''commands:'' COL_INFO s;
     s \<leftarrow> help_lines E cmds s;
     s \<leftarrow> say E ''  ls [path]    cat <file>   cd <path>   echo <text>'' COL_FG s;
     s \<leftarrow> say E ''  pwd          mkdir        touch   rm   rmdir'' COL_FG s;
     say E ''  pipes (|) and redirects (>) are supported'' COL_INFO s }"

definition cmd_clear :: "machine \<Rightarrow> machine option" where
  "cmd_clear s = Some (if g_serial_mode s then s else m_draw (\<lambda>scr. set_y 0 (fill_screen COL_BG scr)) s)"

text \<open>\<^verbatim>\<open>PANIC("idk ask shell.cpp")\<close> draws \<open>panic_screen\<close> and halts.\<close>

definition cmd_panic :: "machine \<Rightarrow> machine option" where
  "cmd_panic s = None"

subsection \<open>Clock and speaker\<close>

definition cmd_time :: "env \<Rightarrow> machine \<Rightarrow> machine option" where
  "cmd_time E s =
     (case rtc_get (e_dev E) (m_ports s) of (t, h) \<Rightarrow>
        shell_printf E 64 ''%02d/%02d/20%02d  %02d:%02d:%02d''
          (map (\<lambda>x. Arg32 (ucast x)) [rtc_day t, rtc_month t, rtc_year t, rtc_hour t, rtc_min t, rtc_sec t])
          COL_INFO (s\<lparr>m_ports := h\<rparr>))"

definition cmd_uptime :: "env \<Rightarrow> machine \<Rightarrow> machine option" where
  "cmd_uptime E s =
     (let ms = pit_uptime_ms (m_timer s); sec = ms div 1000; mn = sec div 60
      in shell_printf E 64 ''uptime: %llum %llus %llums'' [Arg64 mn, Arg64 (sec mod 60), Arg64 (ms mod 1000)] COL_INFO s)"

definition m_note :: "env \<Rightarrow> u32 \<Rightarrow> machine \<Rightarrow> machine option" where
  "m_note E freq s =
     map_option (\<lambda>((t, h), ws). s\<lparr>m_timer := t, m_ports := h, m_wakes := ws\<rparr>)
       (play_note (e_dev E) freq 200 (m_wakes s) (m_timer s, m_ports s))"

definition m_sleep :: "u32 \<Rightarrow> machine \<Rightarrow> machine option" where
  "m_sleep ms s = map_option (\<lambda>(t, ws). s\<lparr>m_timer := t, m_wakes := ws\<rparr>) (pit_sleep ms (m_wakes s) (m_timer s))"

text \<open>The notes of the tune, each with the rest after it.\<close>

definition tune :: "(u32 \<times> u32) list" where
  "tune = [(262, 80), (294, 80), (330, 80), (262, 80), (392, 80), (440, 80), (392, 80), (330, 400),
           (262, 80), (294, 80), (330, 80), (262, 80), (349, 80), (392, 80), (349, 80), (294, 400),
           (392, 80), (440, 80), (392, 80), (330, 80), (262, 80), (294, 80), (262, 600)]"

fun play_tune :: "env \<Rightarrow> (u32 \<times> u32) list \<Rightarrow> machine \<Rightarrow> machine option" where
  "play_tune E [] s = Some s"
| "play_tune E ((freq, rest) # ns) s = do { s \<leftarrow> m_note E freq s; s \<leftarrow> m_sleep rest s; play_tune E ns s }"

definition cmd_freedom :: "env \<Rightarrow> machine \<Rightarrow> machine option" where
  "cmd_freedom E s = play_tune E tune s"

subsection \<open>Memory\<close>

definition free_line :: "env \<Rightarrow> string \<Rightarrow> u32 \<Rightarrow> u32 \<Rightarrow> u32 \<Rightarrow> machine \<Rightarrow> machine option" where
  "free_line E f pages unit color = shell_printf E 128 f [Arg32 pages, Arg32 (pages * 4096 div unit)] color"

definition cmd_free :: "env \<Rightarrow> machine \<Rightarrow> machine option" where
  "cmd_free E s =
     (let p = vm_pmm (k_vm s) in do {
        s \<leftarrow> free_line E ''total: %u pages (%u MB)'' (pmm_total p) 0x100000 COL_INFO s;
        s \<leftarrow> free_line E ''used:  %u pages (%u KB)'' (pmm_used p) 0x400 COL_ERR s;
        free_line E ''free:  %u pages (%u MB)'' (pmm_free_count p) 0x100000 COL_OK s })"

definition cmd_paging :: "env \<Rightarrow> machine \<Rightarrow> machine option" where
  "cmd_paging E s = do {
     s \<leftarrow> m_write32 0x600000 0xDEADBEEF (m_paging (paging_map 0x600000 0x400000 (PAGE_PRESENT OR PAGE_WRITE)) s);
     x \<leftarrow> m_read32 0x600000 s;
     s \<leftarrow> verdict E (x = 0xDEADBEEF) ''paging: ok'' ''paging: FAIL'' s;
     let s = m_paging (paging_unmap 0x600000) s in
     verdict E (paging_get_physical (m_vm s) 0x600000 = 0) ''paging unmap: ok'' ''paging unmap: FAIL'' s }"

text \<open>The three parts of \<^verbatim>\<open>cmd_memtesting\<close>; the second component tells whether to go on.\<close>

definition kfree_opt :: "u32 \<Rightarrow> machine \<Rightarrow> machine option" where
  "kfree_opt p s = (if p \<noteq> 0 then m_kfree p s else Some s)"

definition memtest_heap :: "env \<Rightarrow> machine \<Rightarrow> (machine \<times> bool) option" where
  "memtest_heap E s = do {
     (s, a) \<leftarrow> m_kmalloc 64 s;
     (s, b) \<leftarrow> m_kmalloc 128 s;
     if a = 0 \<or> b = 0
     then do { s \<leftarrow> say E ''kmalloc: FAIL'' COL_ERR s; s \<leftarrow> kfree_opt a s; s \<leftarrow> kfree_opt b s; Some (s, False) }
     else do {
       s \<leftarrow> m_kfree a s;
       (s, cc) \<leftarrow> m_kmalloc 64 s;
       s \<leftarrow> verdict E (cc \<noteq> 0) ''kmalloc: ok'' ''kmalloc: FAIL'' s;
       s \<leftarrow> m_kfree b s;
       s \<leftarrow> m_kfree cc s;
       Some (s, True) } }"

definition memtest_pmm :: "env \<Rightarrow> machine \<Rightarrow> machine option" where
  "memtest_pmm E s =
     (let (s, delta) = m_pmm_alloc s;
          (s, rune) = m_pmm_alloc s;
          s = m_pmm (pmm_free delta) s;
          (s, undertale) = m_pmm_alloc s
      in do {
        s \<leftarrow> verdict E (undertale = delta) ''pmm: ok'' ''pmm: reuse FAIL'' s;
        Some (m_pmm (pmm_free undertale) (m_pmm (pmm_free rune) s)) })"

definition memtest_vmm :: "env \<Rightarrow> machine \<Rightarrow> machine option" where
  "memtest_vmm E s =
     (let (s, kris) = m_vmm_alloc 0 (PAGE_PRESENT OR PAGE_WRITE) s;
          (s, ralsei) = m_vmm_alloc 0 (PAGE_PRESENT OR PAGE_WRITE) s
      in if kris = 0 \<or> ralsei = 0 \<or> kris = ralsei
      then do {
        s \<leftarrow> say E ''vmm: FAIL'' COL_ERR s;
        let s = (if kris \<noteq> 0 then m_vmm_free kris s else s) in
        Some (if ralsei \<noteq> 0 then m_vmm_free ralsei s else s) }
      else do {
        s \<leftarrow> m_write32 kris 0xAAAAAAAA s;
        s \<leftarrow> m_write32 ralsei 0xBBBBBBBB s;
        x \<leftarrow> m_read32 kris s;
        y \<leftarrow> m_read32 ralsei s;
        s \<leftarrow> verdict E (x = 0xAAAAAAAA \<and> y = 0xBBBBBBBB) ''vmm: ok'' ''vmm: FAIL'' s;
        Some (m_vmm_free ralsei (m_vmm_free kris s)) })"

definition cmd_memtesting :: "env \<Rightarrow> machine \<Rightarrow> machine option" where
  "cmd_memtesting E s = do {
     (s, go_on) \<leftarrow> memtest_heap E s;
     if \<not> go_on then Some s else do { s \<leftarrow> memtest_pmm E s; memtest_vmm E s } }"

subsection \<open>The file system\<close>

definition fat_entry :: "env \<Rightarrow> string \<Rightarrow> string \<Rightarrow> u32 \<Rightarrow> ls_action" where
  "fat_entry E dir_fmt file_fmt dir_color = (\<lambda>(name, sz, is_dir) s.
     if is_dir then shell_printf E 64 dir_fmt [ArgStr (Some name)] dir_color s
     else shell_printf E 64 file_fmt [ArgStr (Some name), Arg32 sz] COL_FG s)"

definition fat_test_ls :: "env \<Rightarrow> machine \<Rightarrow> machine option" where
  "fat_test_ls E s = do {
     (s, ok) \<leftarrow> fat12_ls_each (e_ent0 E) [SLASH] (fat_entry E ''  [DIR]  %s'' ''  [FILE] %s (%u bytes)'' COL_FG) s;
     Some (m_present s) }"

text \<open>Read at most 127 bytes, show them and close; \<open>none\<close> is said when there are none.\<close>

definition fat_test_show :: "env \<Rightarrow> int \<Rightarrow> string \<Rightarrow> machine \<Rightarrow> machine option" where
  "fat_test_show E fd none s = do {
     (s, n, out) \<leftarrow> vol_try (fat12_read fd 127) s;
     s \<leftarrow> (if 0 < n then shell_puts E (cstr out) COL_FG s else say E none COL_ERR s);
     Some (m_close fd s) }"

definition fat_test_hello :: "env \<Rightarrow> machine \<Rightarrow> machine option" where
  "fat_test_hello E s =
     (case vol_do (fat12_open (bytes ''HELLO.TXT'')) s of (s, fd) \<Rightarrow>
        if fd < 0 then say E ''  open: FAIL'' COL_ERR s
        else do { s \<leftarrow> say E ''  open: ok'' COL_OK s; fat_test_show E fd ''  read: empty or FAIL'' s })"

definition fat_test_write :: "env \<Rightarrow> machine \<Rightarrow> machine option" where
  "fat_test_write E s = do {
     (s, fd) \<leftarrow> vol_try (fat12_create (bytes ''TEST.TXT'')) s;
     if fd < 0 then say E ''  create: FAIL'' COL_ERR s
     else do {
       s \<leftarrow> say E ''  create: ok'' COL_OK s;
       (s, written) \<leftarrow> vol_try (fat12_write fd (bytes ''FAT12 write works!'')) s;
       verdict E (written = 18) ''  write: ok'' ''  write: FAIL'' (m_close fd s) } }"

definition fat_test_reread :: "env \<Rightarrow> machine \<Rightarrow> machine option" where
  "fat_test_reread E s =
     (case vol_do (fat12_open (bytes ''TEST.TXT'')) s of (s, fd) \<Rightarrow>
        if 0 \<le> fd then fat_test_show E fd ''  read: empty'' s else say E ''  open: FAIL'' COL_ERR s)"

definition fat_test_dir :: "env \<Rightarrow> machine \<Rightarrow> machine option" where
  "fat_test_dir E s = do {
     (s, ok) \<leftarrow> vol_try (fat12_mkdir (bytes ''TESTDIR'')) s;
     s \<leftarrow> verdict E ok ''  mkdir: ok'' ''  mkdir: FAIL'' s;
     if ok then do {
       (s, ok2) \<leftarrow> vol_try (fat12_rmdir (bytes ''TESTDIR'')) s;
       verdict E ok2 ''  rmdir: ok'' ''  rmdir: FAIL'' s }
     else Some s }"

definition cmd_fat12_test :: "env \<Rightarrow> machine \<Rightarrow> machine option" where
  "cmd_fat12_test E s = do {
     s \<leftarrow> say E ''--- FAT12 test ---'' COL_INFO s;
     s \<leftarrow> say E ''[1] ls /'' COL_PROMPT s;
     s \<leftarrow> fat_test_ls E s;
     s \<leftarrow> say E ''[2] cat HELLO.TXT'' COL_PROMPT s;
     s \<leftarrow> fat_test_hello E s;
     s \<leftarrow> say E ''[3] touch + write TEST.TXT'' COL_PROMPT (m_present s);
     s \<leftarrow> fat_test_write E s;
     s \<leftarrow> say E ''[4] cat TEST.TXT'' COL_PROMPT (m_present s);
     s \<leftarrow> fat_test_reread E s;
     s \<leftarrow> say E ''[5] mkdir + rmdir TESTDIR'' COL_PROMPT (m_present s);
     s \<leftarrow> fat_test_dir E s;
     s \<leftarrow> say E ''[6] ls / (final)'' COL_PROMPT (m_present s);
     fat_test_ls E s }"

subsection \<open>Processor, system calls, programs\<close>

definition flag32 :: "bool \<Rightarrow> karg" where
  "flag32 b = Arg32 (of_bool b)"

definition cmd_cpuid :: "env \<Rightarrow> machine \<Rightarrow> machine option" where
  "cmd_cpuid E s =
     (let cpu = cpuid_get (e_cpuid E) in do {
        s \<leftarrow> shell_printf E 128 ''vendor:  %s'' [ArgStr (Some (cstr (c_vendor cpu)))] COL_INFO s;
        s \<leftarrow> (if chr0 (c_brand cpu) \<noteq> 0
              then shell_printf E 128 ''brand:   %s'' [ArgStr (Some (cstr (c_brand cpu)))] COL_INFO s else Some s);
        s \<leftarrow> shell_printf E 128 ''family:%u  model:%u  stepping:%u''
               [Arg32 (c_family cpu), Arg32 (c_model cpu), Arg32 (c_stepping cpu)] COL_INFO s;
        shell_printf E 128 ''fpu:%d apic:%d msr:%d pae:%d''
          (map flag32 [has_fpu cpu, has_apic cpu, has_msr cpu, has_pae cpu]) COL_INFO s })"

text \<open>
  \<^verbatim>\<open>syscall\<close>, the \<^verbatim>\<open>int 0x80\<close> of the kernel itself. None of the calls used here polls the keyboard, so the
  handler's serial shell is left out; \<open>None\<close> when the call does not come back.
\<close>

definition int80 :: "env \<Rightarrow> u32 \<Rightarrow> u32 \<Rightarrow> u32 \<Rightarrow> u32 \<Rightarrow> u32 \<Rightarrow> machine \<Rightarrow> (machine \<times> u32) option" where
  "int80 E num a b c d s = do {
     (s, e) \<leftarrow> syscall_handler E (\<lambda>_ _. None) num a b c d s;
     case e of Ret r \<Rightarrow> Some (s, r) | _ \<Rightarrow> None }"

definition sysc_mem :: "env \<Rightarrow> machine \<Rightarrow> machine option" where
  "sysc_mem E s = do {
     (s, ptr) \<leftarrow> int80 E 10 0 64 0 0 s;
     if ptr \<noteq> 0 then do {
       s \<leftarrow> say E ''SYS_MEM malloc: ok'' COL_OK s;
       (s, r) \<leftarrow> int80 E 10 1 ptr 0 0 s;
       say E ''SYS_MEM free: ok'' COL_OK s }
     else say E ''SYS_MEM malloc: FAIL'' COL_ERR s }"

text \<open>Open the file, read it into the buffer on the kernel's stack, show the buffer, close.\<close>

definition sysc_read :: "env \<Rightarrow> u32 \<Rightarrow> machine \<Rightarrow> machine option" where
  "sysc_read E fd s =
     (let buf = e_sysbuf E in do {
        s \<leftarrow> upoke buf (replicate 64 0) s;
        (s, n) \<leftarrow> int80 E 2 fd buf 63 0 s;
        s \<leftarrow> (if 0 < sint n then do {
                s \<leftarrow> upoke (buf + n) [0] s;
                s \<leftarrow> say E ''SYS_READ: ok'' COL_OK s;
                str \<leftarrow> user_cstr buf s;
                shell_puts E str COL_FG s }
              else say E ''SYS_READ: FAIL'' COL_ERR s);
        (s, r) \<leftarrow> int80 E 5 fd 0 0 0 s;
        say E ''SYS_CLOSE: ok'' COL_OK s })"

definition sysc_file :: "env \<Rightarrow> machine \<Rightarrow> machine option" where
  "sysc_file E s = do {
     (s, fd) \<leftarrow> int80 E 4 (e_lit E ''TEST.TXT'') 0 0 0 s;
     if 0 \<le> sint fd then do { s \<leftarrow> say E ''SYS_OPEN: ok'' COL_OK s; sysc_read E fd s }
     else say E ''SYS_OPEN: FAIL'' COL_ERR s }"

definition cmd_syscall :: "env \<Rightarrow> machine \<Rightarrow> machine option" where
  "cmd_syscall E s = do {
     (s, r) \<leftarrow> int80 E 0 (e_lit E ''SYS_PRINT: ok'') 0x00FF00 0 0 s;
     s \<leftarrow> say E [] COL_FG (m_present s);
     s \<leftarrow> sysc_mem E s;
     s \<leftarrow> sysc_file E s;
     (s, pid) \<leftarrow> int80 E 11 0 0 0 0 s;
     shell_printf E 32 ''SYS_PROC getpid: %u'' [Arg32 pid] COL_OK s }"

definition cmd_exec :: "env \<Rightarrow> u8 list option \<Rightarrow> machine \<Rightarrow> machine option" where
  "cmd_exec E args s =
     (let path = (case args of Some a \<Rightarrow> if a \<noteq> [] then a else bytes ''test.elf'' | None \<Rightarrow> bytes ''test.elf'');
          full = build_path (cwd s) (Some path)
      in do {
        s \<leftarrow> say E ''loading...'' COL_INFO s;
        (s, err) \<leftarrow> elf_exec (e_ring3 E) full (Some (replicate 64 0)) 64 s;
        case err of
          Some e \<Rightarrow> if chr0 e \<noteq> 0 then shell_puts E (cstr e) COL_ERR s else Some s
        | None \<Rightarrow> Some s })"

text \<open>The functions of \<open>cmds\<close>, in the order of the table.\<close>

definition cmd_fns :: "env \<Rightarrow> (machine \<Rightarrow> machine option) list" where
  "cmd_fns E =
     [cmd_help E, cmd_clear, cmd_panic, cmd_time E, cmd_uptime E, cmd_paging E,
      cmd_free E, cmd_fat12_test E, cmd_freedom E, cmd_cpuid E, cmd_syscall E, cmd_memtesting E]"

end
