(* ===== verification/Shell.thy ===== *)
theory Shell
  imports Shell_Cmd
begin

text \<open>
  \<^verbatim>\<open>kernel/shell/shell.cpp\<close>: the command dispatcher, pipelines and redirection, the loop of the shell on the
  screen and the shell on the serial port.
\<close>

subsection \<open>Loops of \<^verbatim>\<open>cat\<close>\<close>

text \<open>512-byte buffers, read until nothing comes. \<open>None\<close> also when this never happens.\<close>

partial_function (option) cat_in :: "env \<Rightarrow> machine \<Rightarrow> machine option" where
  "cat_in E s =
     Option.bind (fd_read (g_in_fd s) 511 (k_io s)) (\<lambda>r.
       if 0 < fst (snd r)
       then Option.bind (shell_puts E (cstr (snd (snd r))) COL_FG (set_io E (fst r) s)) (cat_in E)
       else Some (set_io E (fst r) s))"

partial_function (option) cat_file :: "env \<Rightarrow> int \<Rightarrow> machine \<Rightarrow> machine option" where
  "cat_file E fd s =
     Option.bind (vol_try (fat12_read fd 511) s) (\<lambda>r.
       if 0 < fst (snd r)
       then Option.bind (shell_puts E (cstr (snd (snd r))) COL_FG (fst r)) (cat_file E fd)
       else Some (fst r))"

subsection \<open>Commands with arguments\<close>

definition no_args :: "u8 list option \<Rightarrow> bool" where
  "no_args args \<longleftrightarrow> args = None \<or> args = Some []"

definition drop_last_slash :: "u8 list \<Rightarrow> u8 list" where
  "drop_last_slash path = (if 1 < length path \<and> List.last path = SLASH then butlast path else path)"

definition sh_ls :: "env \<Rightarrow> u8 list option \<Rightarrow> machine \<Rightarrow> machine option" where
  "sh_ls E args s = do {
     (s, ok) \<leftarrow> fat12_ls_case (e_ent0 E) (drop_last_slash (build_path (cwd s) args))
       (fat_entry E ''[DIR] %s'' ''      %s  (%u bytes)'' COL_INFO) s;
     Some (m_present s) }"

definition sh_cd :: "env \<Rightarrow> u8 list option \<Rightarrow> machine \<Rightarrow> machine option" where
  "sh_cd E args s =
     (if no_args args then Some (s\<lparr>cwd := [SLASH]\<rparr>)
      else if args = Some (bytes ''..'') then
        (case parent_dir (cwd s) of
           None \<Rightarrow> Some s
         | Some d \<Rightarrow> map_option m_present (shell_puts E d COL_INFO (s\<lparr>cwd := d\<rparr>)))
      else let d = build_path (cwd s) args in map_option m_present (shell_puts E d COL_INFO (s\<lparr>cwd := d\<rparr>)))"

text \<open>\<^verbatim>\<open>mkdir\<close>, \<^verbatim>\<open>rm\<close> and \<^verbatim>\<open>rmdir\<close>: a path, an operation on the volume, a verdict.\<close>

definition sh_path ::
  "env \<Rightarrow> string \<Rightarrow> string \<Rightarrow> (u8 list \<Rightarrow> fatfs \<Rightarrow> (fatfs \<times> bool) option) \<Rightarrow> u8 list option \<Rightarrow> machine \<Rightarrow> machine option" where
  "sh_path E usage bad f args s =
     (if no_args args then map_option m_present (say E usage COL_ERR s)
      else do {
        (s, ok) \<leftarrow> vol_try (f (build_path (cwd s) args)) s;
        map_option m_present (verdict E ok ''ok'' bad s) })"

definition sh_touch :: "env \<Rightarrow> u8 list option \<Rightarrow> machine \<Rightarrow> machine option" where
  "sh_touch E args s =
     (if no_args args then map_option m_present (say E ''usage: touch <name>'' COL_ERR s)
      else do {
        (s, fd) \<leftarrow> vol_try (fat12_create_case (build_path (cwd s) args)) s;
        map_option m_present
          (if 0 \<le> fd then say E ''ok'' COL_OK (m_close fd s) else say E ''touch: failed'' COL_ERR s) })"

definition sh_cat :: "env \<Rightarrow> u8 list option \<Rightarrow> machine \<Rightarrow> machine option" where
  "sh_cat E args s =
     map_option m_present
       (if no_args args then if 0 \<le> g_in_fd s then cat_in E s else say E ''usage: cat <file>'' COL_ERR s
        else case vol_do (fat12_open_case (build_path (cwd s) args)) s of (s, fd) \<Rightarrow>
          if fd < 0 then say E ''cat: not found'' COL_ERR s
          else do { s \<leftarrow> cat_file E fd s; Some (m_close fd s) })"

definition sh_echo :: "env \<Rightarrow> u8 list option \<Rightarrow> machine \<Rightarrow> machine option" where
  "sh_echo E args s =
     map_option m_present (shell_puts E (case args of Some a \<Rightarrow> a | None \<Rightarrow> []) COL_FG s)"

subsection \<open>The dispatcher\<close>

definition find_cmd :: "u8 list \<Rightarrow> nat option" where
  "find_cmd cmd = List.find (\<lambda>j. str_eq (bytes (fst (cmds ! j))) cmd) [0..<length cmds]"

definition screen_only :: "u8 list \<Rightarrow> bool" where
  "screen_only cmd \<longleftrightarrow> list_ex (\<lambda>n. str_eq cmd (bytes n)) [''fire'', ''freedom'', ''exec'', ''clear'']"

definition dispatch :: "env \<Rightarrow> u8 list \<Rightarrow> machine \<Rightarrow> machine option" where
  "dispatch E input s =
     (if input = [] then Some s
      else let (cmd, args) = split_cmd input; is_cmd = (\<lambda>n. str_eq cmd (bytes n)) in
      if g_serial_mode s \<and> screen_only cmd
      then Some (k_puts (''(screen command not available on serial)'' @ [CHR 0x0A]) s)
      else if is_cmd ''ls'' then sh_ls E args s
      else if is_cmd ''cd'' then sh_cd E args s
      else if is_cmd ''pwd'' then map_option m_present (shell_puts E (cwd s) COL_INFO s)
      else if is_cmd ''mkdir'' then sh_path E ''usage: mkdir <name>'' ''mkdir: failed'' fat12_mkdir_case args s
      else if is_cmd ''touch'' then sh_touch E args s
      else if is_cmd ''rm'' then sh_path E ''usage: rm <file>'' ''rm: failed'' fat12_delete_case args s
      else if is_cmd ''rmdir'' then sh_path E ''usage: rmdir <dir>'' ''rmdir: not empty'' fat12_rmdir_case args s
      else if is_cmd ''cat'' then sh_cat E args s
      else if is_cmd ''echo'' then sh_echo E args s
      else if is_cmd ''exec'' then map_option m_present (cmd_exec E args s)
      else case find_cmd cmd of
             Some j \<Rightarrow> map_option m_present ((cmd_fns E ! j) s)
           | None \<Rightarrow> map_option m_present (shell_printf E 80 ''unknown: %s (type help)'' [ArgStr (Some cmd)] COL_ERR s))"

subsection \<open>Pipelines\<close>

text \<open>What the shell says when it gives up.\<close>

definition complain :: "env \<Rightarrow> string \<Rightarrow> machine \<Rightarrow> machine option" where
  "complain E str s = map_option m_present (say E str COL_ERR s)"

definition m_fd_close :: "env \<Rightarrow> int \<Rightarrow> machine \<Rightarrow> machine" where
  "m_fd_close E fd s = set_io E (fd_close fd (k_io s)) s"

definition m_create :: "env \<Rightarrow> u8 list \<Rightarrow> machine \<Rightarrow> (machine \<times> int) option" where
  "m_create E path s = map_option (\<lambda>(io, fd). (set_io E io s, fd)) (fd_create_case path (k_io s))"

definition m_pipe :: "env \<Rightarrow> machine \<Rightarrow> machine \<times> (nat \<times> nat) option" where
  "m_pipe E s = (case fd_pipe (k_io s) of (io, r) \<Rightarrow> (set_io E io s, r))"

text \<open>Run a command with its output to \<open>fd\<close>, or with its input from \<open>i\<close> and its output to \<open>out\<close>.\<close>

definition run_to :: "env \<Rightarrow> int \<Rightarrow> u8 list \<Rightarrow> machine \<Rightarrow> machine option" where
  "run_to E fd cmd s = do { s \<leftarrow> dispatch E cmd (s\<lparr>g_out_fd := fd\<rparr>); Some (s\<lparr>g_out_fd := -1\<rparr>) }"

definition run_from :: "env \<Rightarrow> int \<Rightarrow> u8 list \<Rightarrow> machine \<Rightarrow> machine option" where
  "run_from E i cmd s = do { s \<leftarrow> dispatch E cmd (s\<lparr>g_in_fd := i\<rparr>); Some (s\<lparr>g_in_fd := -1\<rparr>) }"

definition run_redirect :: "env \<Rightarrow> u8 list \<Rightarrow> int \<Rightarrow> machine \<Rightarrow> machine option" where
  "run_redirect E input redir_pos s =
     (let left = left_part input redir_pos; right = right_part input redir_pos in
      if left = [] then complain E ''syntax: missing command before >'' s
      else if right = [] then complain E ''syntax: missing filename after >'' s
      else do {
        (s, file_fd) \<leftarrow> m_create E right s;
        if file_fd < 0 then complain E ''redirect: cannot create file'' s
        else do {
          s \<leftarrow> run_to E file_fd left s;
          Some (m_present (m_fd_close E file_fd s)) } })"

definition run_pipe :: "env \<Rightarrow> u8 list \<Rightarrow> int \<Rightarrow> machine \<Rightarrow> machine option" where
  "run_pipe E input pipe_pos s =
     (let left = left_part input pipe_pos; right = right_part input pipe_pos in
      if left = [] then complain E ''syntax: missing command before |'' s
      else if right = [] then complain E ''syntax: missing command after |'' s
      else case m_pipe E s of
             (s, None) \<Rightarrow> complain E ''pipe: failed'' s
           | (s, Some (rfd, wfd)) \<Rightarrow> do {
               s \<leftarrow> run_to E (int wfd) left s;
               let s = m_fd_close E (int wfd) s in do {
               s \<leftarrow> run_from E (int rfd) right s;
               Some (m_present (m_fd_close E (int rfd) s)) } })"

text \<open>
  \<^verbatim>\<open>cmd1 | cmd2 > file\<close>, the operators looked for in that order: with the redirection first, \<open>rp\<close> is \<open>-1\<close>, the
  second command is empty and the rest of the line the name of the file.
\<close>

definition run_both :: "env \<Rightarrow> u8 list \<Rightarrow> int \<Rightarrow> machine \<Rightarrow> machine option" where
  "run_both E input pipe_pos s =
     (let left = left_part input pipe_pos; rest = right_part input pipe_pos; rp = find_op rest 0x3E;
          cmd2 = left_part rest rp; fname = right_part rest rp
      in do {
        (s, file_fd) \<leftarrow> m_create E fname s;
        if file_fd < 0 then complain E ''redirect: cannot create file'' s
        else case m_pipe E s of
               (s, None) \<Rightarrow> do {
                 s \<leftarrow> say E ''pipe: failed'' COL_ERR s;
                 Some (m_present (m_fd_close E file_fd s)) }
             | (s, Some (rfd, wfd)) \<Rightarrow> do {
                 s \<leftarrow> run_to E (int wfd) left s;
                 let s = m_fd_close E (int wfd) s in do {
                 s \<leftarrow> dispatch E cmd2 (s\<lparr>g_in_fd := int rfd, g_out_fd := file_fd\<rparr>);
                 let s = m_fd_close E (int rfd) (s\<lparr>g_in_fd := -1, g_out_fd := -1\<rparr>) in
                 Some (m_present (m_fd_close E file_fd s)) } } })"

definition run_pipeline :: "env \<Rightarrow> u8 list \<Rightarrow> machine \<Rightarrow> machine option" where
  "run_pipeline E input s =
     (let pipe_pos = find_op input 0x7C; redir_pos = find_op input 0x3E in
      if pipe_pos < 0 \<and> redir_pos < 0 then dispatch E input s
      else if pipe_pos < 0 then run_redirect E input redir_pos s
      else if redir_pos < 0 then run_pipe E input pipe_pos s
      else run_both E input pipe_pos s)"

subsection \<open>The two shells\<close>

definition shell_start :: "env \<Rightarrow> int \<Rightarrow> machine \<Rightarrow> machine" where
  "shell_start E start_y s = fst (vol_do (fat12_init 256) (m_draw (set_y start_y) s))"

definition shell_turn :: "env \<Rightarrow> machine \<Rightarrow> machine option" where
  "shell_turn E s = do {
     (s, line) \<leftarrow> shell_readline E CMD_BUF s;
     s \<leftarrow> run_pipeline E line s;
     Some (m_present s) }"

text \<open>The endless loop of \<^verbatim>\<open>shell_run\<close>, stopped before the turn after the \<open>n\<close>th.\<close>

fun shell_turns :: "nat \<Rightarrow> env \<Rightarrow> machine \<Rightarrow> machine option" where
  "shell_turns 0 E s = Some s"
| "shell_turns (Suc n) E s = do { s \<leftarrow> shell_turn E s; shell_turns n E s }"

definition shell_run :: "nat \<Rightarrow> env \<Rightarrow> int \<Rightarrow> machine \<Rightarrow> machine option" where
  "shell_run n E start_y s = shell_turns n E (shell_start E start_y s)"

definition serial_prompt :: string where "serial_prompt = ''[ring0]> ''"

definition serial_shell_init :: "machine \<Rightarrow> machine" where
  "serial_shell_init s =
     k_puts ([CHR 0x0D, CHR 0x0A] @ ''[WarkRune ring0 serial shell]'' @ [CHR 0x0D, CHR 0x0A] @ serial_prompt) s"

definition serial_shell_poll :: "env \<Rightarrow> u8 \<Rightarrow> machine \<Rightarrow> machine option" where
  "serial_shell_poll E c s =
     (let s = k_putc c s; buf = serial_line s in
      if c = 0x0D \<or> c = 0x0A then do {
        let s = k_putc 0x0A s in do {
        s \<leftarrow> (if buf \<noteq> [] then map_option (\<lambda>s. s\<lparr>g_serial_mode := False\<rparr>) (run_pipeline E buf (s\<lparr>g_serial_mode := True\<rparr>))
              else Some s);
        Some (k_puts serial_prompt (s\<lparr>serial_line := []\<rparr>)) } }
      else if (c = 0x08 \<or> c = 0x7F) \<and> buf \<noteq> [] then
        Some (k_puts [CHR 0x08, CHR '' '', CHR 0x08] (s\<lparr>serial_line := butlast buf\<rparr>))
      else if length buf < 127 \<and> 0x20 \<le>s c then Some (s\<lparr>serial_line := buf @ [c]\<rparr>)
      else Some s)"

text \<open>The system call handler of the machine as it runs: bytes on the serial port go to the serial shell.\<close>

definition kernel_syscall :: "env \<Rightarrow> u32 \<Rightarrow> u32 \<Rightarrow> u32 \<Rightarrow> u32 \<Rightarrow> u32 \<Rightarrow> machine \<Rightarrow> sys_result" where
  "kernel_syscall E = syscall_handler E (serial_shell_poll E)"

end
