(* ===== verification/Fd_Calm.thy ===== *)
theory Fd_Calm
  imports Fd_Spec Elf_Spec
begin

text \<open>
  What the rest of the system can see of the descriptor layer, apart from the contents of files and pipes: the
  descriptors in use, the pipes in use and whether they are closed for writing, and which FAT files are open.
  \<open>fd_calm\<close> says that none of this has changed. It is a congruence for closing, so an operation that opens,
  does calm things and closes again is calm itself.
\<close>

definition fd_view :: "io \<Rightarrow> file_desc option list" where
  "fd_view s = map (\<lambda>d. if d_used d then Some d else None) (fds s)"

definition pipe_flag :: "pipe \<Rightarrow> bool option" where
  "pipe_flag p = (if p_used p then Some (write_closed p) else None)"

definition pipe_view :: "io \<Rightarrow> bool option list" where
  "pipe_view s = map pipe_flag (pipes s)"

definition fd_calm :: "io \<Rightarrow> io \<Rightarrow> bool" where
  "fd_calm s s' \<longleftrightarrow> fd_view s' = fd_view s \<and> pipe_view s' = pipe_view s \<and> used_fds (vol s') = used_fds (vol s)
     \<and> (list_all pipe_ok (pipes s) \<longrightarrow> list_all pipe_ok (pipes s'))"

lemma fd_calm_refl [simp]: "fd_calm s s"
  by (simp add: fd_calm_def)

lemma fd_calm_trans [trans]: "fd_calm a b \<Longrightarrow> fd_calm b c \<Longrightarrow> fd_calm a c"
  by (simp add: fd_calm_def)

lemma fd_calm_fields:
  "fds s' = fds s \<Longrightarrow> pipes s' = pipes s \<Longrightarrow> used_fds (vol s') = used_fds (vol s) \<Longrightarrow> fd_calm s s'"
  by (simp add: fd_calm_def fd_view_def pipe_view_def)

lemma fd_calm_vol: "used_fds v = used_fds (vol s) \<Longrightarrow> fd_calm s (s\<lparr>vol := v\<rparr>)"
  by (rule fd_calm_fields) simp_all

subsection \<open>The views determine the invariant\<close>

lemma view_nth:
  assumes "fd_view s' = fd_view s" "i < length (fds s)"
  shows "d_used (fds s' ! i) = d_used (fds s ! i)" "d_used (fds s ! i) \<Longrightarrow> fds s' ! i = fds s ! i"
proof -
  have l: "length (fds s') = length (fds s)" using map_eq_imp_length_eq [OF assms(1) [unfolded fd_view_def]] .
  have "fd_view s' ! i = fd_view s ! i" using assms(1) by simp
  then show "d_used (fds s' ! i) = d_used (fds s ! i)" "d_used (fds s ! i) \<Longrightarrow> fds s' ! i = fds s ! i"
    using assms(2) l by (auto simp: fd_view_def split: if_splits)
qed

lemma view_length: "fd_calm s s' \<Longrightarrow> length (fds s') = length (fds s) \<and> length (pipes s') = length (pipes s)"
  by (metis fd_calm_def fd_view_def pipe_view_def length_map)

lemma fd_calm_sizes: "fd_calm s s' \<Longrightarrow> sizes_ok s \<Longrightarrow> sizes_ok s'"
  using view_length [of s s'] by (simp add: fd_calm_def sizes_ok_def)

lemma calm_holder:
  assumes "fd_calm s s'" "length (fds s) = FD_MAX"
  shows "holder s' = holder s" "file_at s' = file_at s"
  using view_nth [of s' s] assms by (auto simp: holder_def file_at_def fd_calm_def fun_eq_iff)

lemma calm_pipe:
  assumes "fd_calm s s'" "p < length (pipes s)"
  shows "p_used (pipes s' ! p) = p_used (pipes s ! p)" "p_used (pipes s ! p) \<Longrightarrow> write_closed (pipes s' ! p) = write_closed (pipes s ! p)"
proof -
  have "pipe_view s' ! p = pipe_view s ! p" using assms(1) by (simp add: fd_calm_def)
  then show "p_used (pipes s' ! p) = p_used (pipes s ! p)" "p_used (pipes s ! p) \<Longrightarrow> write_closed (pipes s' ! p) = write_closed (pipes s ! p)"
    using assms view_length [OF assms(1)] by (auto simp: pipe_view_def pipe_flag_def split: if_splits)
qed

lemma fd_calm_ok:
  assumes "fd_calm s s'" "fd_ok s"
  shows "fd_ok s'"
proof -
  have L: "length (fds s) = FD_MAX" "length (pipes s) = PIPE_MAX" using assms(2) by (simp_all add: fd_ok_def sizes_ok_def)
  note H = calm_holder [OF assms(1) L(1)] and P = calm_pipe [OF assms(1)]
  have "files_ok s'" using fd_okD(3) [OF assms(2)] assms(1) by (simp add: files_ok_def H fd_calm_def)
  moreover have "ends_ok s'"
    unfolding ends_ok_def H
  proof (intro conjI allI impI)
    fix t p i assume t: "t \<in> {FD_PIPE_READ, FD_PIPE_WRITE}" and h: "holder s t p i"
    from ends_okD(1) [OF fd_okD(2) [OF assms(2)] t h] P(1) [of "nat p"] L(2)
    show "0 \<le> p" "p < int PIPE_MAX" "p_used (pipes s' ! nat p)" by auto
    fix j assume "holder s t p j"
    with h show "i = j" by (rule ends_okD(2) [OF fd_okD(2) [OF assms(2)] t])
  next
    fix p assume p: "p < PIPE_MAX" "p_used (pipes s' ! p)"
    then have u: "p_used (pipes s ! p)" using P(1) [of p] L(2) by simp
    show "\<exists>i. holder s FD_PIPE_READ (int p) i \<or> holder s FD_PIPE_WRITE (int p) i"
      by (rule ends_okD(3) [OF fd_okD(2) [OF assms(2)] p(1) u])
    show "write_closed (pipes s' ! p) \<longleftrightarrow> \<not> (\<exists>i. holder s FD_PIPE_WRITE (int p) i)"
      using ends_okD(4) [OF fd_okD(2) [OF assms(2)] p(1) u] P(2) [of p] u p(1) L(2) by simp
  qed
  ultimately show ?thesis using fd_calm_sizes [OF assms(1) fd_okD(1) [OF assms(2)]] by (simp add: fd_ok_def)
qed

subsection \<open>Reading and writing are calm\<close>

lemma fd_calm_upd_pipe:
  assumes "p_used (f (pipes s ! p)) = p_used (pipes s ! p)" "write_closed (f (pipes s ! p)) = write_closed (pipes s ! p)"
    "pipe_ok (pipes s ! p) \<Longrightarrow> pipe_ok (f (pipes s ! p))"
  shows "fd_calm s (upd_pipe p f s)"
proof (cases "p < length (pipes s)")
  case True
  have "map pipe_flag ((pipes s)[p := f (pipes s ! p)]) = (map pipe_flag (pipes s))[p := pipe_flag (pipes s ! p)]"
    using assms(1,2) by (simp add: map_update pipe_flag_def)
  also have "\<dots> = map pipe_flag (pipes s)" using True by (simp add: list_update_same_conv)
  finally have "pipe_view (upd_pipe p f s) = pipe_view s" by (simp add: pipe_view_def upd_pipe_def)
  moreover have "list_all pipe_ok (pipes (upd_pipe p f s))" if "list_all pipe_ok (pipes s)"
    using that assms(3) True by (auto simp: upd_pipe_def list_all_length nth_list_update)
  ultimately show ?thesis by (simp add: fd_calm_def fd_view_def upd_pipe_def)
next
  case False
  then have "upd_pipe p f s = s" by (simp add: upd_pipe_def list_update_beyond)
  then show ?thesis by simp
qed

lemma fd_read_calm: "fd_read fd sz s = Some (s', r, out) \<Longrightarrow> fd_calm s s'"
proof -
  assume a: "fd_read fd sz s = Some (s', r, out)"
  let ?p = "nat (pipe_id (fds s ! nat fd))"
  have "fd_calm s (upd_pipe ?p (\<lambda>_. fst (pipe_take (unat sz) (pipes s ! ?p))) s)"
    using pipe_take_frame [of "unat sz" "pipes s ! ?p"] pipe_take_spec [of "pipes s ! ?p" "unat sz"]
    by (intro fd_calm_upd_pipe) (auto simp: prod_eq_iff)
  with a show ?thesis
    by (auto simp: fd_read_def Let_def case_prod_unfold intro: fd_calm_fields fd_calm_vol dest: fat12_read_used
        split: if_splits fd_type.splits)
qed

lemma fd_write_calm: "fd_write fd src s = Some (s', r) \<Longrightarrow> fd_calm s s'"
proof -
  assume a: "fd_write fd src s = Some (s', r)"
  let ?p = "nat (pipe_id (fds s ! nat fd))"
  have "fd_calm s (upd_pipe ?p (\<lambda>_. fst (pipe_store src (pipes s ! ?p))) s)"
    using pipe_store_frame [of src "pipes s ! ?p"] pipe_store_spec [of "pipes s ! ?p" src]
    by (intro fd_calm_upd_pipe) (auto simp: prod_eq_iff)
  with a show ?thesis
    by (auto simp: fd_write_def Let_def case_prod_unfold intro: fd_calm_fields fd_calm_vol dest: fat12_write_used
        split: if_splits fd_type.splits)
qed

subsection \<open>Closing respects the views\<close>

lemma calm_any_end: "fd_view s' = fd_view s \<Longrightarrow> any_end t p s' = any_end t p s"
proof -
  assume v: "fd_view s' = fd_view s"
  have "any_end t p u \<longleftrightarrow> list_ex (\<lambda>x. \<exists>d. x = Some d \<and> d_type d = t \<and> pipe_id d = p) (fd_view u)" for u
    by (auto simp: any_end_def fd_view_def list_ex_iff)
  then show ?thesis by (simp only: v)
qed

lemma calm_set_pipe:
  assumes "fd_calm s s'" and f: "\<And>p q. pipe_flag p = pipe_flag q \<Longrightarrow> pipe_flag (f p) = pipe_flag (f q)"
    "\<And>p. pipe_ok (f p) = pipe_ok p"
  shows "fd_calm (upd_pipe k f s) (upd_pipe k f s')"
proof (cases "k < length (pipes s)")
  case True
  then have k: "k < length (pipes s')" using view_length [OF assms(1)] by simp
  have "pipe_view s' ! k = pipe_view s ! k" using assms(1) by (simp add: fd_calm_def)
  then have "pipe_flag (f (pipes s' ! k)) = pipe_flag (f (pipes s ! k))" using True k by (intro f(1)) (simp add: pipe_view_def)
  moreover have "map pipe_flag (pipes s') = map pipe_flag (pipes s)" using assms(1) by (simp add: fd_calm_def pipe_view_def)
  ultimately have "pipe_view (upd_pipe k f s') = pipe_view (upd_pipe k f s)" by (simp add: pipe_view_def upd_pipe_def map_update)
  moreover have "list_all pipe_ok (pipes (upd_pipe k f u)) = list_all pipe_ok (pipes u)" for u
  proof -
    have "map pipe_ok ((pipes u)[k := f (pipes u ! k)]) = map pipe_ok (pipes u)"
      by (cases "k < length (pipes u)") (simp_all add: map_update f(2) list_update_same_conv list_update_beyond)
    then have "list_all (\<lambda>x. x) (map pipe_ok ((pipes u)[k := f (pipes u ! k)])) = list_all (\<lambda>x. x) (map pipe_ok (pipes u))"
      by (simp only:)
    then show ?thesis by (simp add: list.pred_map comp_def upd_pipe_def)
  qed
  ultimately show ?thesis using assms(1) by (simp add: fd_calm_def fd_view_def upd_pipe_def)
next
  case False
  then have "upd_pipe k f s = s" "upd_pipe k f s' = s'"
    using view_length [OF assms(1)] by (simp_all add: upd_pipe_def list_update_beyond)
  then show ?thesis using assms(1) by simp
qed

lemma calm_set_fd: "fd_calm s s' \<Longrightarrow> fd_calm (set_fd i d s) (set_fd i d s')"
  by (simp add: fd_calm_def fd_view_def pipe_view_def set_fd_def map_update)

lemma calm_close_file:
  assumes "fd_calm s s'"
  shows "fd_calm (s\<lparr>vol := fat12_close f (vol s)\<rparr>) (s'\<lparr>vol := fat12_close f (vol s')\<rparr>)"
proof -
  have "used_fds (fat12_close f v) =
      (if 0 \<le> f \<and> f < int FAT12_MAX_FDS then (used_fds v)[nat f := False] else used_fds v)" for v
    by (simp add: used_fds_def g_fds_fat12_close map_update)
  with assms show ?thesis by (simp add: fd_calm_def fd_view_def pipe_view_def)
qed

lemma calm_if: "(b \<longleftrightarrow> c) \<Longrightarrow> fd_calm x x' \<Longrightarrow> fd_calm y y' \<Longrightarrow> fd_calm (if b then x else y) (if c then x' else y')"
  by simp

lemma fd_close_calm:
  assumes c: "fd_calm s s'" and L: "length (fds s) = FD_MAX"
  shows "fd_calm (fd_close fd s) (fd_close fd s')"
proof (cases "0 \<le> fd \<and> fd < int FD_MAX")
  case False
  then show ?thesis using c by (auto simp: fd_close_def fd_bad_def)
next
  case True
  then have n: "nat fd < length (fds s)" using L by linarith
  note V = view_nth [OF c [unfolded fd_calm_def, THEN conjunct1] n]
  show ?thesis
  proof (cases "d_used (fds s ! nat fd)")
    case False
    then show ?thesis using c V(1) by (simp add: fd_close_def fd_bad_def)
  next
    case used: True
    define d where "d = fds s ! nat fd"
    have d: "fds s' ! nat fd = d" "\<not> fd_bad fd s" "\<not> fd_bad fd s'" using used V True by (simp_all add: fd_bad_def d_def)
    define off where "off = upd_pipe (nat (pipe_id d)) (\<lambda>p. p\<lparr>p_used := False\<rparr>)"
    define s1 where "s1 u = (if d_type d = FD_FILE then u\<lparr>vol := fat12_close (fat_fd d) (vol u)\<rparr> else u)" for u :: io
    define t where "t u = upd_pipe (nat (pipe_id d)) (\<lambda>p. p\<lparr>write_closed := True\<rparr>) (s1 u)" for u
    define s2 where "s2 u = (if d_type d = FD_PIPE_WRITE \<and> 0 \<le> pipe_id d
      then if \<not> any_end FD_PIPE_READ (pipe_id d) (t u) then off (t u) else t u else s1 u)" for u
    define s3 where "s3 u = (if d_type d = FD_PIPE_READ \<and> 0 \<le> pipe_id d \<and> \<not> any_end FD_PIPE_WRITE (pipe_id d) (s2 u)
      then off (s2 u) else s2 u)" for u
    have close: "fd_close fd u = set_fd (nat fd) fd_none (s3 u)" if "\<not> fd_bad fd u" "fds u ! nat fd = d" for u
      using that by (simp add: fd_close_def Let_def s3_def s2_def t_def s1_def off_def cong: if_cong)
    have a: "any_end x q u' = any_end x q u" if "fd_calm u u'" for u u' x q
      using that by (intro calm_any_end) (simp add: fd_calm_def)
    have off: "fd_calm (off u) (off u')" if "fd_calm u u'" for u u'
      unfolding off_def using that by (rule calm_set_pipe) (auto simp: pipe_flag_def pipe_ok_def)
    have 1: "fd_calm (s1 s) (s1 s')" unfolding s1_def by (rule calm_if [OF refl calm_close_file [OF c] c])
    have t: "fd_calm (t s) (t s')" unfolding t_def
      using 1 by (rule calm_set_pipe) (auto simp: pipe_flag_def pipe_ok_def split: if_splits)
    have 2: "fd_calm (s2 s) (s2 s')" unfolding s2_def a [OF t] by (rule calm_if [OF refl calm_if [OF refl off [OF t] t] 1])
    have 3: "fd_calm (s3 s) (s3 s')" unfolding s3_def a [OF 2] by (rule calm_if [OF refl off [OF 2] 2])
    from calm_set_fd [OF 3, of "nat fd" fd_none] show ?thesis unfolding close [OF d(2) d_def [symmetric]] close [OF d(3,1)] .
  qed
qed

subsection \<open>Open, work, close\<close>

text \<open>A failure changes nothing; a success is undone by closing the descriptor.\<close>

definition fd_opened :: "io \<Rightarrow> io \<Rightarrow> int \<Rightarrow> bool" where
  "fd_opened s s' fd \<longleftrightarrow> (if fd < 0 then fd_calm s s' else fd_calm s (fd_close fd s'))"

lemma fd_bind_opened:
  assumes "length (fds s) = FD_MAX" "fat_opened (vol s) v fat" "fd_bind fat (s\<lparr>vol := v\<rparr>) = (s', fd)"
  shows "fd_opened s s' fd"
proof (cases "fat < 0")
  case True
  with assms(2) have "used_fds v = used_fds (vol s)" by (auto simp: fat_opened_def intro: used_fds_cong)
  from fd_calm_vol [OF this] True assms(3) show ?thesis by (simp add: fd_bind_def fd_opened_def)
next
  case False
  then have f: "0 \<le> fat" by simp
  have cl: "used_fds (fat12_close fat v) = used_fds (vol s)" by (rule fat_opened_close [OF assms(2) f refl])
  show ?thesis
  proof (cases "alloc_fd (s\<lparr>vol := v\<rparr>)")
    case None
    with False assms(3) cl show ?thesis by (auto simp: fd_bind_def fd_opened_def intro: fd_calm_fields)
  next
    case (Some i)
    then have a: "alloc_fd s = Some i" by (simp add: alloc_fd_def)
    let ?d = "\<lparr>d_used = True, d_type = FD_FILE, fat_fd = fat, pipe_id = -1\<rparr>"
    have s': "s' = set_fd i ?d (s\<lparr>vol := v\<rparr>)" "fd = int i" using False assms(3) Some by (simp_all add: fd_bind_def)
    have i: "i < FD_MAX" "i < length (fds s)" "\<not> d_used (fds s ! i)" using alloc_fdD [OF a] assms(1) by simp_all
    have "fd_close fd s' = set_fd i fd_none (s\<lparr>vol := fat12_close fat v\<rparr>)"
      using i by (simp add: s' fd_close_def fd_bad_def Let_def set_fd_def)
    moreover have "fd_view (set_fd i fd_none (s\<lparr>vol := fat12_close fat v\<rparr>)) = fd_view s"
      using i by (simp add: fd_view_def map_update fd_none_def list_update_same_conv)
    ultimately show ?thesis using cl by (simp add: fd_opened_def s'(2) fd_calm_def pipe_view_def set_fd_def)
  qed
qed

lemma fd_open_opened: "length (fds s) = FD_MAX \<Longrightarrow> fd_open path s = (s', fd) \<Longrightarrow> fd_opened s s' fd"
  by (auto simp: fd_open_def split: prod.splits intro: fd_bind_opened fat12_open_opened)

lemma fd_create_opened: "length (fds s) = FD_MAX \<Longrightarrow> fd_create path s = Some (s', fd) \<Longrightarrow> fd_opened s s' fd"
  by (auto simp: fd_create_def intro: fd_bind_opened fat12_create_opened)

lemma fd_create_case_opened:
  assumes "length (fds s) = FD_MAX" "fd_create_case path s = Some (s', fd)"
  shows "fd_opened s s' fd"
proof -
  obtain s1 fd1 where c: "fd_create path s = Some (s1, fd1)" using assms(2) by (auto simp: fd_create_case_def bind_eq_Some_conv)
  note o1 = fd_create_opened [OF assms(1) c]
  show ?thesis
  proof (cases "0 \<le> fd1 \<or> \<not> list_ex is_lower path")
    case True
    then show ?thesis using assms(2) c o1 by (auto simp: fd_create_case_def fd_opened_def split: if_splits)
  next
    case False
    then have calm: "fd_calm s s1" using o1 by (simp add: fd_opened_def)
    have "length (fds s1) = FD_MAX" using view_length [OF calm] assms(1) by simp
    from fd_create_opened [OF this, of _ s' fd] assms(2) c False have "fd_opened s1 s' fd" by (auto simp: fd_create_case_def)
    then show ?thesis using fd_calm_trans [OF calm] by (auto simp: fd_opened_def split: if_splits)
  qed
qed

lemma fd_opened_work:
  assumes "fd_opened s t fd" "0 \<le> fd" "fd_calm t u" "length (fds t) = FD_MAX"
  shows "fd_calm s (fd_close fd u)"
  using fd_calm_trans [OF _ fd_close_calm [OF assms(3,4)]] assms(1,2) by (simp add: fd_opened_def)

text \<open>A pipe is undone by closing its write end and then its read end.\<close>

lemma fd_pipe_calm:
  assumes ok: "fd_ok s" and p: "fd_pipe s = (s', Some (rfd, wfd))"
  shows "fd_calm s (fd_close (int rfd) (fd_close (int wfd) s'))"
proof -
  have L: "length (fds s) = FD_MAX" "length (pipes s) = PIPE_MAX" using ok by (simp_all add: fd_ok_def sizes_ok_def)
  from p L(1) show ?thesis
  proof (cases rule: fd_pipe_cases)
    case (pair r w pid)
    then have rw: "r = rfd" "w = wfd" by simp_all
    note pair = pair [unfolded rw]
    have pid: "pid < length (pipes s)" "\<not> p_used (pipes s ! pid)" using alloc_pipeD [OF pair(2)] L by simp_all
    have r: "rfd < FD_MAX" "\<not> d_used (fds s ! rfd)" using alloc_fdD [OF pair(3)] by simp_all
    note H = holder_pair [OF L(1) pair(4,5) r(2) pair(6,7)]
    have F: "fds s' = (fds s)[rfd := \<lparr>d_used = True, d_type = FD_PIPE_READ, fat_fd = -1, pipe_id = int pid\<rparr>,
        wfd := \<lparr>d_used = True, d_type = FD_PIPE_WRITE, fat_fd = -1, pipe_id = int pid\<rparr>]"
      by (simp add: pair(7) set_fd_def upd_pipe_def)
    have ok1: "fd_ok s'" by (rule fd_pipe_ok [OF ok p])
    define s2 where "s2 = fd_close (int wfd) s'"
    have w: "\<not> fd_bad (int wfd) s'" "fds s' ! nat (int wfd) = \<lparr>d_used = True, d_type = FD_PIPE_WRITE, fat_fd = -1, pipe_id = int pid\<rparr>"
      using pair(4,5) L(1) by (simp_all add: fd_bad_def F)
    from fd_close_end [OF ok1 w(1) _ refl] w(2)
    obtain q where c1: "fds s2 = (fds s')[wfd := fd_none]" "vol s2 = vol s'" "pipes s2 = (pipes s')[pid := q]"
      by (auto simp: s2_def)
    have ok2: "fd_ok s2" unfolding s2_def by (rule fd_close_ok [OF ok1])
    have rd: "\<not> fd_bad (int rfd) s2" "fds s2 ! nat (int rfd) = \<lparr>d_used = True, d_type = FD_PIPE_READ, fat_fd = -1, pipe_id = int pid\<rparr>"
      using pair(4,5) r L(1) by (simp_all add: fd_bad_def c1 F)
    from fd_close_end [OF ok2 rd(1) _ refl] rd(2)
    obtain q2 where c2: "fds (fd_close (int rfd) s2) = (fds s2)[rfd := fd_none]" "vol (fd_close (int rfd) s2) = vol s2"
        "pipes (fd_close (int rfd) s2) = (pipes s2)[pid := q2]" "p_used q2 \<longleftrightarrow> (\<exists>i. holder s2 FD_PIPE_WRITE (int pid) i)"
      by (auto simp: other_end_def)
    have "\<not> holder s2 FD_PIPE_WRITE (int pid) i" for i
    proof
      assume h: "holder s2 FD_PIPE_WRITE (int pid) i"
      then have "i \<noteq> wfd" using pair(5) L(1) by (auto simp: holder_def c1(1) F fd_none_def)
      then have "holder s' FD_PIPE_WRITE (int pid) i" using h by (simp add: holder_def c1(1))
      then have "holder s FD_PIPE_WRITE (int pid) i" using \<open>i \<noteq> wfd\<close> by (simp add: H(1))
      then show False using ends_okD(1) [OF fd_okD(2) [OF ok], of FD_PIPE_WRITE "int pid" i] pid(2) by auto
    qed
    with c2(4) have "\<not> p_used q2" by simp
    then have "pipe_view (fd_close (int rfd) s2) = pipe_view s"
      using pid by (simp add: pipe_view_def c2(3) c1(3) H(4) map_update pipe_flag_def list_update_same_conv)
    moreover have "(fd_view s)[k := None] = fd_view s" if "k < FD_MAX" "\<not> d_used (fds s ! k)" for k
      using that L(1) by (simp add: fd_view_def list_update_same_conv)
    then have "fd_view (fd_close (int rfd) s2) = fd_view s"
      using pair(4-6) r
      by (simp add: fd_view_def c2(1) c1(1) F map_update fd_none_def list_update_swap [of wfd rfd])
    moreover have "list_all pipe_ok (pipes (fd_close (int rfd) s2))"
      using fd_okD(1) [OF fd_close_ok [OF ok2]] by (simp add: sizes_ok_def)
    ultimately show ?thesis by (simp add: fd_calm_def c2(2) c1(2) H(5) flip: s2_def)
  qed (use p in simp)
qed

end
