(* ===== verification/Syscall_Spec.thy ===== *)
theory Syscall_Spec
  imports Syscall Elf_Image
begin

text \<open>
  What the system call handler promises whatever a user program passes to it: bad pointers and unknown calls are
  refused without effect, and memory is written only inside the validated buffer.
\<close>

subsection \<open>Validated pointers\<close>

text \<open>The \<open>len\<close> bytes from \<open>p\<close> are user memory: not null, below 2 GB, no wrap-around.\<close>

definition user_range :: "u32 \<Rightarrow> u32 \<Rightarrow> bool" where
  "user_range p len \<longleftrightarrow> p \<noteq> 0 \<and> unat p < 0x80000000 \<and> unat p + unat len \<le> 0x80000000"

lemma valid_user_range: "valid_user_ptr p len \<longleftrightarrow> user_range p len"
proof (cases "USER_SPACE_END \<le> p \<or> p = 0")
  case True
  then show ?thesis by (auto simp: user_range_def valid_user_ptr_def USER_SPACE_END_def word_le_nat_alt)
next
  case False
  then have p: "unat p < 0x80000000" "p \<noteq> 0" by (simp_all add: USER_SPACE_END_def word_le_nat_alt)
  then have "unat (USER_SPACE_END - p) = 0x80000000 - unat p"
    by (subst unat_sub_u32) (simp_all add: USER_SPACE_END_def word_le_nat_alt)
  with False p show ?thesis by (auto simp: user_range_def valid_user_ptr_def word_less_nat_alt)
qed


text \<open>\<open>user_span s p len q\<close>: physical byte \<open>q\<close> is one of the \<open>len\<close> bytes from user address \<open>p\<close>, all below 2 GB.\<close>

definition user_span :: "machine \<Rightarrow> u32 \<Rightarrow> nat \<Rightarrow> u32 \<Rightarrow> bool" where
  "user_span s p len q \<longleftrightarrow> (\<exists>k<len. unat p + k < 0x80000000 \<and> page_present (m_vm s) (p + word_of_nat k)
     \<and> paging_get_physical (m_vm s) (p + word_of_nat k) = q)"


lemma user_span_mono: "user_span s p n q \<Longrightarrow> n \<le> m \<Longrightarrow> user_span s p m q"
proof -
  assume "user_span s p n q" "n \<le> m"
  then obtain k where "k < n" "unat p + k < 0x80000000" "page_present (m_vm s) (p + word_of_nat k)"
    "paging_get_physical (m_vm s) (p + word_of_nat k) = q" by (auto simp: user_span_def)
  moreover from \<open>k < n\<close> \<open>n \<le> m\<close> have "k < m" by (rule less_le_trans)
  ultimately show ?thesis unfolding user_span_def by blast
qed



subsection \<open>Refused calls\<close>

text \<open>
  The calls that the handler refuses: unknown numbers and operations, and pointers that are not user pointers. The
  shared memory and power calls answer with 0, all others with -1.
\<close>

definition bad_call :: "u32 \<Rightarrow> u32 \<Rightarrow> u32 \<Rightarrow> u32 \<Rightarrow> u32 \<Rightarrow> bool" where
  "bad_call num a b c d \<longleftrightarrow>
     16 < num
     \<or> num \<in> {0, 4} \<and> \<not> user_range a 0
     \<or> num \<in> {2, 3} \<and> \<not> user_range b c
     \<or> num = 7 \<and> \<not> user_range a 8
     \<or> num = 8 \<and> \<not> user_range a 20
     \<or> num = 9 \<and> (\<not> user_range a 0 \<or> 2 < c)
     \<or> num = 10 \<and> (3 < a \<or> a = 2 \<and> \<not> user_range b 8
          \<or> a = 3 \<and> (b \<noteq> 0 \<and> \<not> user_range b 4 \<or> c \<noteq> 0 \<and> \<not> user_range c 4))
     \<or> num = 11 \<and> 4 < a
     \<or> num = 12 \<and> 1 < a
     \<or> num = 13 \<and> (2 < a \<or> a = 1 \<and> \<not> user_range b c)
     \<or> num = 14 \<and> (4 < a \<or> \<not> user_range b 0 \<or> a = 0 \<and> \<not> user_range c d)
     \<or> num = 15 \<and> 6 < a
     \<or> num = 16 \<and> \<not> user_range b 0"

text \<open>C6. A system call with an unknown number or operation, or with a buffer that the handler validates and that is
  null, starts at 2 GB or above or reaches beyond, lengths that would wrap the address included, changes nothing at
  all in the kernel, on the screen or in memory; it returns 0 for the shared memory and power calls (9 and 12) and
  -1 for all others. Three pointers are not validated by the handler and so not in the list: the text of the screen
  call (15 with operation 4), the second output of the heap statistics (10 with operation 2), and the block given
  back to the heap (10 with operation 1); each is a finding.\<close>

theorem syscall_refuses:
  assumes "bad_call num a b c d"
  shows "syscall_handler E poll num a b c d s = Some (s, Ret (if num = 9 \<or> num = 12 then 0 else - 1))"
proof -
  have "a \<noteq> 0" "a \<noteq> 1" "a \<noteq> 2" "a \<noteq> 3" if "3 < a" using that by auto
  moreover have "a \<noteq> 0" "a \<noteq> 1" if "1 < a" using that by auto
  moreover have "a \<noteq> 0" "a \<noteq> 1" "a \<noteq> 2" if "2 < a" using that by auto
  moreover have "c \<noteq> 0" "c \<noteq> 1" "c \<noteq> 2" if "2 < c" using that by auto
  moreover have "a \<noteq> 0" "a \<noteq> 1" "a \<noteq> 2" "a \<noteq> 3" "a \<noteq> 4" if "4 < a" using that by auto
  moreover have "a \<noteq> 0" "a \<noteq> 1" "a \<noteq> 2" "a \<noteq> 3" "a \<noteq> 4" "a \<noteq> 5" "a \<noteq> 6" if "6 < a" using that by auto
  moreover have "num \<notin> {0, 1, 2, 3, 4, 5, 6, 7, 8, 9, 10, 11, 12, 13, 14, 15, 16}" if "16 < num" using that by auto
  ultimately show ?thesis
    using assms unfolding bad_call_def valid_user_range [symmetric]
    by (elim disjE conjE insertE)
      (simp_all add: syscall_handler_def ret_def sys_print_def sys_read_def sys_write_def sys_open_def sys_pipe_def sys_mouse_def
        sys_shmem_def sys_power_def
        sys_mem_def sys_proc_def sys_time_def sys_fs_def sys_ls_def sys_path_def sys_create_def sys_draw_def sys_exec_def)
qed

definition machine_quiet :: "machine \<Rightarrow> machine \<Rightarrow> bool" where
  "machine_quiet s s' \<longleftrightarrow> m_vm s' = m_vm s \<and> k_mem s' = k_mem s"

subsection \<open>How much a read delivers\<close>







subsection \<open>The text of a directory listing\<close>



subsection \<open>Calls that write no user memory\<close>


lemma quiet_ret: "ret r s1 = Some (s', e) \<longleftrightarrow> s' = s1 \<and> e = Ret r"
  by (auto simp: ret_def)

lemma putc_frames [simp]: "k_mem (fold k_putc cs s) = k_mem s" "m_vm (fold k_putc cs s) = m_vm s"
  by (induction cs arbitrary: s) simp_all

lemma serial_int_frames [simp]: "k_mem (serial_int n s) = k_mem s" "m_vm (serial_int n s) = m_vm s"
  by (simp_all add: serial_int_def)

lemma fs_log_frames [simp]: "k_mem (fs_log tag p s) = k_mem s" "m_vm (fs_log tag p s) = m_vm s"
  by (simp_all add: fs_log_def)

lemma field_frames [simp]:
  "k_mem (s\<lparr>m_timer := tm, m_wakes := ws\<rparr>) = k_mem s" "m_vm (s\<lparr>m_timer := tm, m_wakes := ws\<rparr>) = m_vm s"
  "m_vm (s\<lparr>k_sched := sc\<rparr>) = m_vm s" "k_mem (set_power h com s) = k_mem s" "m_vm (set_power h com s) = m_vm s"
  by (simp_all add: m_vm_def set_power_def kernel_defs)

lemma quiet_sched: "machine_quiet s (s\<lparr>k_sched := sc\<rparr>)"
  by (simp add: machine_quiet_def)












subsection \<open>Calls that write user memory\<close>













lemma heap_frames [simp]: "k_mem (s\<lparr>k_heap := h\<rparr>) = k_mem s"
  by (simp add: k_mem_def)






text \<open>Waiting for a key writes nothing while no byte arrives on the serial port.\<close>

lemma update_cursor_polls [simp]: "k_io (m_update_cursor s) = k_io s"
  by (simp add: m_update_cursor_def split: prod.split)









text \<open>The unchecked pointers: any present address can be written, the kernel's own included.\<close>

lemma sys_mem_info_unchecked:
  assumes "valid_user_ptr b 8" "kmem_info (k_heap s) = Some (u, f)" "poke_opt b u s = Some s1"
    "c \<noteq> 0" "upoke c (bytes32 f) s1 = Some s'"
  shows "syscall_handler E poll 10 2 b c d s = Some (s', Ret 0)"
  using assms by (simp add: syscall_handler_def sys_mem_def poke_opt_def ret_def)

lemma sys_kfree_forged:
  assumes "p \<noteq> 0" "\<not> in_heap_pool (k_heap s) (p - HDR)" "user_word (p - HDR) s = Some BLOCK_MAGIC"
    and "upoke (p - 8) [1] s = Some s1" "heap_head (k_heap s1) = 0"
  shows "syscall_handler E poll 10 1 p c d s = Some (s1\<lparr>k_heap := (k_heap s1)\<lparr>kh_if := True\<rparr>\<rparr>, Ret 0)"
  using assms by (simp add: syscall_handler_def sys_mem_def sys_kfree_def ret_def merge_free_blocks.simps)

subsection \<open>Concrete calls\<close>

definition page_200 :: paging where
  "page_200 = paging_map 0x200000 0x100000 3 paging0"

definition env_tiny :: env where
  "env_tiny = \<lparr>e_dev = (\<lambda>_ _. 0), e_font = (\<lambda>_. 0xFF), e_ring3 = (\<lambda>_ _. Some), e_ent0 = dirent0,
     e_cpuid = (\<lambda>_. (0, 0, 0, 0)), e_lit = (\<lambda>_. 0x200000), e_sysbuf = 0x200F00\<rparr>"

definition machine_tiny :: machine where
  "machine_tiny =
     \<lparr>k_io = fd_init io0, k_heap = kheap0, k_heap_base = 0x100000,
      k_shm = shmem0\<lparr>sh_vm := (sh_vm shmem0)\<lparr>vm_pg := page_200\<rparr>\<rparr>, k_sched = sched0, exec_ctx_depth = 0, exec_kstack = 0x200000,
      m_screen = screen_tiny, m_cursor = cursor_boot, m_mouse = mouse_boot, m_timer = timer_boot, m_acpi = acpi_boot,
      m_ports = [], m_wakes = [], cwd = [0x2F], g_serial_mode = False, g_out_fd = - 1, g_in_fd = - 1, serial_line = []\<rparr>"

lemma syscall_refuses_witness:
  "syscall_handler env_tiny (\<lambda>_ _. None) 2 0 0x7FFFFFF0 0xFFFFFFF0 0 machine_tiny = Some (machine_tiny, Ret (- 1))"
  using syscall_refuses [of 2 0 "0x7FFFFFF0" "0xFFFFFFF0" 0 env_tiny "\<lambda>_ _. None" machine_tiny]
  by (simp add: bad_call_def user_range_def)




end
