(* ===== verification/Syscall_Fd.thy ===== *)
theory Syscall_Fd
  imports Syscall_Spec
begin

text \<open>
  The descriptor table under all system calls: the invariant of \<open>Fd_Spec\<close> holds after every call, those that
  work on the volume directly and those that load programs included.
\<close>

subsection \<open>The open files are not touched by the path operations\<close>

lemma g_fds_free_entry_chain: "free_entry_chain e s = Some s' \<Longrightarrow> g_fds s' = g_fds s"
  by (auto simp: free_entry_chain_def g_fds_fat_free_chain split: if_splits)

lemma g_fds_resolve: "resolve_path p s = (s1, r) \<Longrightarrow> g_fds s1 = g_fds s"
  using g_fds_resolve_path [of p s] by simp

lemma g_fds_find: "find_in_dir dc t s = (s1, r) \<Longrightarrow> g_fds s1 = g_fds s"
  using g_fds_find_in_dir [of dc t s] by simp

lemma g_fds_put: "dir_write_entry lba dc i e s = (s1, r) \<Longrightarrow> g_fds s1 = g_fds s"
  using g_fds_dir_write_entry [of lba dc i e s] by simp

lemma g_fds_fat12_delete: "fat12_delete p s = Some (s', ok) \<Longrightarrow> g_fds s' = g_fds s"
  by (auto simp: fat12_delete_def g_fds_dir_write_entry dest!: g_fds_resolve g_fds_find g_fds_free_entry_chain
      split: prod.splits option.splits if_splits)

lemma g_fds_dir_is_empty: "g_fds (fst (dir_is_empty dc ks s)) = g_fds s"
proof (induction dc ks s rule: dir_is_empty.induct)
  case (2 dc i ks s)
  have "g_fds (fst (dir_read_entry (g_root_lba s) dc i s)) = g_fds s" by (rule g_fds_dir_read_entry)
  with 2 show ?case by (auto split: prod.splits option.splits)
qed simp

lemma g_fds_fat12_rmdir: "fat12_rmdir p s = Some (s', ok) \<Longrightarrow> g_fds s' = g_fds s"
proof -
  have e: "g_fds s3 = g_fds s2" if "dir_is_empty dc ks s2 = (s3, b)" for dc ks s2 s3 b
    using g_fds_dir_is_empty [of dc ks s2] that by simp
  assume "fat12_rmdir p s = Some (s', ok)"
  then show ?thesis
    by (auto simp: fat12_rmdir_def Let_def dest!: g_fds_resolve g_fds_find g_fds_free_entry_chain g_fds_put e
        split: prod.splits option.splits if_splits)
qed

lemma g_fds_fat12_mkdir: "fat12_mkdir p s = Some (s', ok) \<Longrightarrow> g_fds s' = g_fds s"
proof -
  have a: "g_fds s3 = g_fds s2" if "fat_alloc s2 = (s3, c)" for s2 s3 c using g_fds_fat_alloc [of s2] that by simp
  have z: "g_fds s4 = g_fds s3" if "alloc_dir_entry dc (zero_cluster c s3) = Some (s4, r)" for dc c s3 s4 r
    using g_fds_alloc_dir_entry [OF that] by (simp add: g_fds_zero_cluster)
  assume "fat12_mkdir p s = Some (s', ok)"
  then show ?thesis
    by (auto simp: fat12_mkdir_def Let_def g_fds_fat_set dest!: g_fds_resolve g_fds_find a z g_fds_put
        split: prod.splits option.splits if_splits)
qed

lemma g_fds_dir_list: "g_fds (fst (dir_list dc ks s)) = g_fds s"
proof (induction dc ks s rule: dir_list.induct)
  case (2 dc i ks s)
  have "g_fds (fst (dir_read_entry (g_root_lba s) dc i s)) = g_fds s" by (rule g_fds_dir_read_entry)
  with 2 show ?case by (auto split: prod.splits option.splits)
qed simp

lemma g_fds_fat12_ls: "fat12_ls e0 p s = (s', r) \<Longrightarrow> g_fds s' = g_fds s"
proof -
  have l: "g_fds s1 = g_fds s0" if "dir_list dc ks s0 = (s1, es)" for dc ks s0 s1 es
    using g_fds_dir_list [of dc ks s0] that by simp
  assume "fat12_ls e0 p s = (s', r)"
  then show ?thesis
    by (auto simp: fat12_ls_def Let_def dest!: g_fds_resolve g_fds_find l split: prod.splits option.splits if_splits)
qed

subsection \<open>What the other calls do to the descriptor layer\<close>

definition fd_same :: "io \<Rightarrow> io \<Rightarrow> bool" where
  "fd_same io io' \<longleftrightarrow> fds io' = fds io \<and> pipes io' = pipes io \<and> used_fds (vol io') = used_fds (vol io)"

lemma fd_same_refl [simp]: "fd_same io io"
  by (simp add: fd_same_def)

lemma fd_same_trans: "fd_same a b \<Longrightarrow> fd_same b c \<Longrightarrow> fd_same a c"
  by (simp add: fd_same_def)

lemma fd_same_ok: "fd_same io io' \<Longrightarrow> fd_ok io \<Longrightarrow> fd_ok io'"
  using ends_ok_cong [of io' io] files_ok_cong [of io' io] by (simp add: fd_same_def fd_ok_def sizes_ok_def)

lemma fd_same_fields [simp]:
  "k_io (set_vm vm s) = k_io s" "k_io (set_mem m s) = k_io s" "k_io (k_set_esp0 x s) = k_io s"
  "k_io (m_draw g s2) = k_io s2" "k_io (m_update_cursor s2) = k_io s2" "k_io (set_io E io s2) = io"
  by (simp_all add: kernel_defs m_draw_def m_update_cursor_def set_io_def split: prod.splits)

lemma fd_same_log [simp]:
  "fd_same (k_io s) (k_io (k_puts t s))" "fd_same (k_io s) (k_io (k_puts_bytes bs s))" "fd_same (k_io s) (k_io (k_putc c s))"
  by (simp_all add: fd_same_def kernel_defs)

lemma fd_same_putcs: "fd_same (k_io s) (k_io (fold k_putc cs s))"
proof (induction cs arbitrary: s)
  case (Cons c cs)
  from fd_same_trans [OF fd_same_log(3) Cons.IH] show ?case by simp
qed simp

lemma fd_same_serial_int: "fd_same (k_io s) (k_io (serial_int n s))"
proof (cases "n = -2147483648")
  case True
  then show ?thesis using fd_same_trans [OF fd_same_log(3) [of s "0x2D"] fd_same_log(1)] by (simp add: serial_int_def)
next
  case False
  then show ?thesis using fd_same_putcs by (simp add: serial_int_def)
qed

lemma fd_same_fs_log: "fd_same (k_io s) (k_io (fs_log tag p s))"
  unfolding fs_log_def by (rule fd_same_trans [OF fd_same_log(1) fd_same_trans [OF fd_same_log(2) fd_same_log(1)]])

lemma upoke_io: "upoke a bs s = Some s' \<Longrightarrow> k_io s' = k_io s"
  by (auto simp: upoke_def)

lemma poke_opt_io: "poke_opt a w s = Some s' \<Longrightarrow> k_io s' = k_io s"
  by (auto simp: poke_opt_def upoke_io split: if_splits)

text \<open>Loading a program opens and closes a file.\<close>

lemma elf_drop_io: "elf_drop buf msg s = Some (s', r) \<Longrightarrow> k_io s' = k_io s"
  by (auto simp: elf_drop_def)

lemma elf_image_io:
  assumes "elf_image buf sz s = Some (s', r)"
  shows "k_io s' = k_io s"
proof -
  have d: "k_io s1 = k_io s" if "elf_drop buf msg t = Some (s1, q)" "k_io t = k_io s" for msg t s1 q
    using elf_drop_io [OF that(1)] that(2) by simp
  show ?thesis using assms
    by (auto simp: elf_image_def Let_def Option.bind_eq_Some_conv elim!: d split: if_splits prod.splits option.splits)
qed

lemma k_io_set_vol: "k_io (set_vol w s) = (k_io s)\<lparr>vol := w\<rparr>"
  by (simp add: set_vol_def)

lemma elf_load_io:
  assumes "elf_load path s = Some (s', r)"
  shows "fd_same (k_io s) (k_io s')"
proof -
  obtain v fd where o: "elf_open path (k_vol s) = (v, fd)" by fastforce
  note O = elf_open_opened [OF o]
  have same: "fd_same (k_io s) ((k_io s)\<lparr>vol := w\<rparr>)" if "used_fds w = used_fds (k_vol s)" for w
    using that by (simp add: fd_same_def k_vol_def)
  show ?thesis
  proof (cases "fd < 0")
    case True
    with O have "g_fds v = g_fds (k_vol s)" by (auto simp: fat_opened_def)
    then have "used_fds v = used_fds (k_vol s)" by (rule used_fds_cong)
    with assms o True same [of v] show ?thesis by (auto simp: elf_load_def k_io_set_vol)
  next
    case fd: False
    have cl: "used_fds (fat12_close fd v') = used_fds (k_vol s)" if "used_fds v' = used_fds v" for v'
      using fat_opened_close [OF O _ that] fd by simp
    show ?thesis
    proof (cases "fat12_size fd v \<le> 0")
      case True
      with assms o fd same [OF cl] show ?thesis by (auto simp: elf_load_def Let_def k_io_set_vol)
    next
      case sz: False
      let ?sz = "word_of_int (fat12_size fd v) :: u32"
      from assms o fd sz obtain h buf where km: "kmalloc (k_heap_base s) ?sz (k_heap s) = Some (h, buf)"
        by (auto simp: elf_load_def Let_def bind_eq_Some_conv)
      show ?thesis
      proof (cases "buf = 0")
        case True
        with assms o fd sz km same [OF cl] show ?thesis by (auto simp: elf_load_def Let_def k_io_set_vol)
      next
        case buf: False
        from assms o fd sz km buf obtain v2 n out where rd: "fat12_read fd ?sz v = Some (v2, n, out)"
          by (auto simp: elf_load_def Let_def bind_eq_Some_conv)
        let ?s = "set_vol (fat12_close fd v2) ((set_vol v s)\<lparr>k_heap := h\<lparr>kh_bytes := store_bytes buf out (kh_bytes h)\<rparr>\<rparr>)"
        have "elf_image buf ?sz ?s = Some (s', r)"
          using assms o fd sz km buf rd by (simp add: elf_load_def Let_def)
        from elf_image_io [OF this] same [OF cl [OF fat12_read_used [OF rd]]] show ?thesis by (simp add: k_io_set_vol)
      qed
    qed
  qed
qed

subsection \<open>The invariant\<close>

definition keeps_fd_ok :: "(machine \<Rightarrow> machine option) \<Rightarrow> bool" where
  "keeps_fd_ok f \<longleftrightarrow> (\<forall>s s'. fd_ok (k_io s) \<longrightarrow> f s = Some s' \<longrightarrow> fd_ok (k_io s'))"

lemmas fd_ok_steps = fd_open_ok fd_create_ok fd_read_ok fd_write_ok fd_close_ok fd_pipe_ok

lemma elf_unload_io [simp]: "k_io (elf_unload base sz s) = k_io s"
  by (simp add: elf_unload_def)

lemma elf_exec_fd_ok:
  assumes R: "\<And>entry esp. keeps_fd_ok (ring3 entry esp)" and ok: "fd_ok (k_io s)"
    and E: "elf_exec ring3 path err n s = Some (s', e)"
  shows "fd_ok (k_io (s' :: machine))"
proof -
  have log: "fd_ok (k_io (k_puts t s))" "fd_ok (k_io (k_puts_bytes bs s))" "fd_ok (k_io (k_putc c s))"
    if "fd_ok (k_io s)" for t bs c and s :: machine
    using that fd_same_log by (blast intro: fd_same_ok)+
  obtain s1 r where l: "elf_load path (k_putc 10 (k_puts_bytes path (k_puts ''[elf_exec] loading: '' s))) = Some (s1, r)"
    using E by (auto simp: elf_exec_def Option.bind_eq_Some_conv)
  have ok1: "fd_ok (k_io s1)" by (rule fd_same_ok [OF elf_load_io [OF l]]) (intro log ok)
  have ring: "fd_ok (k_io t)" if "ring3 entry esp (u\<lparr>exec_ctx_depth := d\<rparr>) = Some t" "fd_ok (k_io u)" for entry esp u d t
  proof -
    have "fd_ok (k_io (u\<lparr>exec_ctx_depth := d\<rparr>))" using that(2) by simp
    with R [of entry esp] that(1) show ?thesis unfolding keeps_fd_ok_def by blast
  qed
  show ?thesis
  proof (cases "er_ok r")
    case False
    with E l ok1 show ?thesis by (auto simp: elf_exec_def intro!: log)
  next
    case True
    with E l show ?thesis
      by (auto simp: elf_exec_def Let_def split: if_splits prod.splits intro!: log ok1 dest!: ring)
  qed
qed

lemma fd_ok_log:
  assumes "fd_ok (k_io s)"
  shows "fd_ok (k_io (k_puts t s))" "fd_ok (k_io (k_puts_bytes bs s))" "fd_ok (k_io (k_putc c s))"
    "fd_ok (k_io (serial_int n s))" "fd_ok (k_io (fs_log tag p s))"
  using assms fd_same_log fd_same_serial_int fd_same_fs_log by (blast intro: fd_same_ok)+

lemma fd_ok_set_vol: "fd_ok (k_io s) \<Longrightarrow> g_fds v = g_fds (k_vol s) \<Longrightarrow> fd_ok (k_io (set_vol v s))"
  by (auto simp: k_io_set_vol k_vol_def intro!: fd_ok_vol used_fds_cong)

lemma fs_log_vol [simp]: "k_vol (fs_log tag p s) = k_vol s"
  by (simp add: fs_log_def)

lemma fd_ok_polls: "fd_ok io \<Longrightarrow> fd_ok (io\<lparr>polls := ps\<rparr>)" "fd_ok io \<Longrightarrow> fd_ok (io\<lparr>polls := ps, kbd_shift_down := k\<rparr>)"
  using fd_ok_console(2) [where s = io and ps = ps and k = "kbd_shift_down io"] fd_ok_console(2) [where s = io and ps = ps and k = k]
  by simp_all

lemma sys_read_key_fd_ok:
  "sys_read_key poll s = Some r \<Longrightarrow> (\<forall>b. keeps_fd_ok (poll b)) \<longrightarrow> fd_ok (k_io s) \<longrightarrow> fd_ok (k_io (fst r))"
proof (induction rule: sys_read_key.raw_induct [rotated, consumes 1, case_names step])
  case (step f poll s r)
  show ?case
  proof (intro impI)
    assume P: "\<forall>b. keeps_fd_ok (poll b)" and ok: "fd_ok (k_io s)"
    have go: "fd_ok (k_io (fst r))" if "f poll (m_update_cursor t) = Some r" "fd_ok (k_io t)" for t
      using step.IH [OF that(1)] P that(2) by simp
    obtain q qs where ps: "polls (k_io s) = q # qs" using step.hyps by (auto split: list.splits)
    let ?s = "s\<lparr>k_io := (k_io s)\<lparr>polls := qs\<rparr>\<rparr>"
    have ok1: "fd_ok (k_io ?s)" using fd_ok_polls(1) [OF ok] by simp
    show "fd_ok (k_io (fst r))"
    proof (cases q)
      case (Serial_Byte b)
      then obtain t where "poll b ?s = Some t" "f poll (m_update_cursor t) = Some r"
        using step.hyps ps by (auto simp: Let_def Option.bind_eq_Some_conv)
      then show ?thesis using go P ok1 unfolding keeps_fd_ok_def by blast
    next
      case (Scancode sc)
      obtain sh k where k: "read_key sc (kbd_shift_down (k_io s)) = (sh, k)" by fastforce
      let ?t = "?s\<lparr>k_io := (k_io ?s)\<lparr>kbd_shift_down := sh\<rparr>\<rparr>"
      have okt: "fd_ok (k_io ?t)" using fd_ok_polls(2) [OF ok] by simp
      show ?thesis
      proof (cases "k = 0")
        case True
        then have "f poll (m_update_cursor ?t) = Some r" using step.hyps ps Scancode k by (simp add: Let_def)
        then show ?thesis using go okt by blast
      next
        case False
        then have "r = (?t, Ret (ucast k))" using step.hyps ps Scancode k by (simp add: Let_def ret_def)
        then show ?thesis using okt by simp
      qed
    qed
  qed
qed

lemma sys_path_fd_ok:
  assumes "sys_path tag f b s = Some (s', e)" "fd_ok (k_io s)" "\<And>p v v' ok. f p v = Some (v', ok) \<Longrightarrow> g_fds v' = g_fds v"
  shows "fd_ok (k_io s')"
proof (cases "valid_user_ptr b 0")
  case True
  then show ?thesis using assms
    by (auto simp: sys_path_def ret_def Let_def Option.bind_eq_Some_conv split: if_splits intro!: fd_ok_log fd_ok_set_vol)
qed (use assms in \<open>simp add: sys_path_def ret_def\<close>)

lemma sys_create_fd_ok: "sys_create E b s = Some (s', e) \<Longrightarrow> fd_ok (k_io s) \<Longrightarrow> fd_ok (k_io s')"
proof -
  assume r: "sys_create E b s = Some (s', e)" "fd_ok (k_io s)"
  have c: "fd_ok io" if "fd_create p (k_io (fs_log tag p s)) = Some (io, fd)" for p tag io fd
    using fd_create_ok [OF _ that] fd_ok_log(5) [OF r(2)] by blast
  have k: "fd_ok (k_io (k_putc 10 (serial_int fd (set_io E io (fs_log tag p s)))))" if "fd_ok io" for fd io tag p
    using that by (intro fd_ok_log) simp
  show ?thesis
  proof (cases "valid_user_ptr b 0")
    case True
    then show ?thesis using r(1)
      by (auto simp: sys_create_def ret_def Let_def Option.bind_eq_Some_conv split: if_splits dest!: c intro!: k fd_close_ok)
  qed (use r in \<open>simp add: sys_create_def ret_def\<close>)
qed

lemma sys_ls_fd_ok: "sys_ls E b c d s = Some (s', e) \<Longrightarrow> fd_ok (k_io s) \<Longrightarrow> fd_ok (k_io s')"
proof -
  assume r: "sys_ls E b c d s = Some (s', e)" "fd_ok (k_io s)"
  show ?thesis
  proof (cases "valid_user_ptr b 0 \<and> valid_user_ptr c d")
    case True
    then obtain kpath v ok es out where o: "fat12_ls (e_ent0 E) (Some kpath) (k_vol s) = (v, ok, es)" "upoke c out (set_vol v s) = Some s'"
      using r(1) by (auto simp: sys_ls_def ret_def Let_def Option.bind_eq_Some_conv case_prod_unfold) (metis prod.collapse)
    then show ?thesis using fd_ok_set_vol [OF r(2) g_fds_fat12_ls [OF o(1)]] upoke_io [OF o(2)] by simp
  qed (use r in \<open>auto simp: sys_ls_def ret_def\<close>)
qed

lemma sys_exec_fd_ok:
  assumes "\<And>entry esp. keeps_fd_ok (e_ring3 E entry esp)" "sys_exec E b s = Some (s', e)" "fd_ok (k_io s)"
  shows "fd_ok (k_io s')"
proof (cases "valid_user_ptr b 0")
  case True
  then obtain kpath s1 err where o: "elf_exec (e_ring3 E) kpath (Some (replicate 64 0)) 64 s = Some (s1, err)"
    "s' = (case err of Some e \<Rightarrow> if chr0 e \<noteq> 0 then k_puts_bytes e s1 else s1 | None \<Rightarrow> s1)"
    using assms(2) by (auto simp: sys_exec_def ret_def Option.bind_eq_Some_conv)
  have "fd_ok (k_io s1)" by (rule elf_exec_fd_ok [OF assms(1,3) o(1)])
  then show ?thesis using o(2) by (auto intro: fd_ok_log split: option.splits)
qed (use assms in \<open>simp add: sys_exec_def ret_def\<close>)

text \<open>The calls whose effect on the descriptor layer is one operation of it, or none.\<close>

lemma fd_ok_com1: "fd_ok io \<Longrightarrow> fd_ok (io\<lparr>com1 := c\<rparr>)"
  using fd_ok_console(1) [where s = io and a = "printed io" and b = c] by simp

lemmas sys_fd_simps = ret_def Option.bind_eq_Some_conv case_prod_unfold upoke_io poke_opt_io

lemma sys_read_fd_ok: "sys_read E a b c s = Some (s', e) \<Longrightarrow> fd_ok (k_io s) \<Longrightarrow> fd_ok (k_io s')"
  by (cases "valid_user_ptr b c") (auto simp: sys_read_def ret_def Option.bind_eq_Some_conv dest!: upoke_io dest: fd_read_ok)

lemma sys_write_fd_ok: "sys_write E a b c s = Some (s', e) \<Longrightarrow> fd_ok (k_io s) \<Longrightarrow> fd_ok (k_io s')"
  by (cases "valid_user_ptr b c") (auto simp: sys_write_def ret_def Option.bind_eq_Some_conv dest: fd_write_ok split: if_splits)

lemma sys_open_fd_ok: "sys_open E a s = Some (s', e) \<Longrightarrow> fd_ok (k_io s) \<Longrightarrow> fd_ok (k_io s')"
proof -
  assume r: "sys_open E a s = Some (s', e)" "fd_ok (k_io s)"
  show ?thesis
  proof (cases "valid_user_ptr a 0")
    case True
    then obtain kpath where p: "Option.bind (Some kpath) (\<lambda>kpath. let s1 = fs_log ''[open] '' kpath s
        in case fd_open kpath (k_io s1) of (io, r) \<Rightarrow> ret (word_of_int r) (k_putc 0x0A (serial_int r (set_io E io s1)))) = Some (s', e)"
      using r(1) by (auto simp: sys_open_def Option.bind_eq_Some_conv)
    obtain io fd where o: "fd_open kpath (k_io (fs_log ''[open] '' kpath s)) = (io, fd)" by fastforce
    have "fd_ok io" by (rule fd_open_ok [OF fd_ok_log(5) [OF r(2)] o])
    then have "fd_ok (k_io (k_putc 0x0A (serial_int fd (set_io E io (fs_log ''[open] '' kpath s)))))"
      by (intro fd_ok_log) simp
    with p o show ?thesis by (simp add: Let_def ret_def)
  qed (use r in \<open>simp add: sys_open_def ret_def\<close>)
qed

lemma sys_close_fd_ok: "sys_close E a s = Some (s', e) \<Longrightarrow> fd_ok (k_io s) \<Longrightarrow> fd_ok (k_io s')"
  by (auto simp: sys_close_def ret_def intro: fd_close_ok)

lemma sys_pipe_fd_ok: "sys_pipe E a s = Some (s', e) \<Longrightarrow> fd_ok (k_io s) \<Longrightarrow> fd_ok (k_io s')"
proof -
  assume r: "sys_pipe E a s = Some (s', e)" "fd_ok (k_io s)"
  obtain io q where o: "fd_pipe (k_io s) = (io, q)" by fastforce
  have "fd_ok io" by (rule fd_pipe_ok [OF r(2) o])
  then show ?thesis using r o
    by (cases "a = 0 \<or> \<not> valid_user_ptr a 8") (auto simp: sys_pipe_def ret_def Option.bind_eq_Some_conv split: option.splits dest!: upoke_io)
qed

lemma sys_kfree_io: "sys_kfree p s = Some s' \<Longrightarrow> k_io s' = k_io s"
  by (auto simp: sys_kfree_def Option.bind_eq_Some_conv upoke_io split: if_splits)

lemma sys_misc_fd_ok:
  assumes "fd_ok (k_io s)"
  shows "sys_print E a b s = Some (s', e) \<Longrightarrow> fd_ok (k_io s')" "sys_exit s = Some (s', e) \<Longrightarrow> fd_ok (k_io s')"
    "sys_mouse a s = Some (s', e) \<Longrightarrow> fd_ok (k_io s')" "sys_shmem a b c s = Some (s', e) \<Longrightarrow> fd_ok (k_io s')"
    "sys_mem a b c s = Some (s', e) \<Longrightarrow> fd_ok (k_io s')" "sys_proc a b s = Some (s', e) \<Longrightarrow> fd_ok (k_io s')"
    "sys_power E a s = Some (s', e) \<Longrightarrow> fd_ok (k_io s')" "sys_time E a b c s = Some (s', e) \<Longrightarrow> fd_ok (k_io s')"
    "sys_draw E a b c d s = Some (s', e) \<Longrightarrow> fd_ok (k_io s')"
proof -
  have m: "k_io s' = k_io s" if "poke_opt b w s = Some s1" "poke_opt c v s1 = Some s'" for w v s1
    using poke_opt_io [OF that(1)] poke_opt_io [OF that(2)] by simp
  show "sys_print E a b s = Some (s', e) \<Longrightarrow> fd_ok (k_io s')"
    using assms by (auto simp: sys_print_def ret_def Let_def Option.bind_eq_Some_conv split: if_splits)
  show "sys_exit s = Some (s', e) \<Longrightarrow> fd_ok (k_io s')"
    using assms by (auto simp: sys_exit_def split: option.splits)
  show "sys_mouse a s = Some (s', e) \<Longrightarrow> fd_ok (k_io s')"
    using assms by (auto simp: sys_mouse_def ret_def Let_def Option.bind_eq_Some_conv split: if_splits dest!: upoke_io)
  show "sys_shmem a b c s = Some (s', e) \<Longrightarrow> fd_ok (k_io s')"
    using assms by (auto simp: sys_shmem_def ret_def Let_def Option.bind_eq_Some_conv split: if_splits)
  show "sys_mem a b c s = Some (s', e) \<Longrightarrow> fd_ok (k_io s')"
    using assms m by (auto simp: sys_mem_def ret_def Option.bind_eq_Some_conv sys_kfree_io split: if_splits)
  show "sys_proc a b s = Some (s', e) \<Longrightarrow> fd_ok (k_io s')"
    using assms by (auto simp: sys_proc_def ret_def split: if_splits)
  show "sys_power E a s = Some (s', e) \<Longrightarrow> fd_ok (k_io s')"
    using assms by (auto simp: sys_power_def ret_def set_power_def case_prod_unfold fd_ok_com1 split: if_splits)
  show "sys_time E a b c s = Some (s', e) \<Longrightarrow> fd_ok (k_io s')"
    using assms by (auto simp: sys_time_def ret_def case_prod_unfold Option.bind_eq_Some_conv split: if_splits dest!: upoke_io)
  show "sys_draw E a b c d s = Some (s', e) \<Longrightarrow> fd_ok (k_io s')"
    using assms by (auto simp: sys_draw_def ret_def Option.bind_eq_Some_conv split: if_splits)
qed

lemma sys_fs_fd_ok: "sys_fs E a b c d s = Some (s', e) \<Longrightarrow> fd_ok (k_io s) \<Longrightarrow> fd_ok (k_io s')"
  by (auto simp: sys_fs_def ret_def split: if_splits
      intro: sys_ls_fd_ok sys_create_fd_ok sys_path_fd_ok g_fds_fat12_mkdir g_fds_fat12_delete g_fds_fat12_rmdir)

lemma syscall_keeps_fd_ok:
  assumes ok: "fd_ok (k_io s)" and r: "syscall_handler E poll num a b c d s = Some (s', e)"
    and R: "\<And>entry esp. keeps_fd_ok (e_ring3 E entry esp)" and P: "\<And>b. keeps_fd_ok (poll b)"
  shows "fd_ok (k_io s')"
proof -
  note ok6 = sys_read_key_fd_ok [of poll s "(s', e)"]
  show ?thesis
    using r ok P ok6 sys_misc_fd_ok [OF ok] sys_exec_fd_ok [OF R _ ok]
    by (auto simp: syscall_handler_def ret_def split: if_splits
        intro: sys_read_fd_ok sys_write_fd_ok sys_open_fd_ok sys_close_fd_ok sys_pipe_fd_ok sys_fs_fd_ok)
qed

end
