(* ===== verification/Shell_Spec.thy ===== *)
theory Shell_Spec
  imports Shell Fd_Calm Syscall_Fd
begin

text \<open>
  The shell leaves no descriptor, pipe or file open: every command is \<open>quiet\<close>, it leaves the view of the
  descriptor layer of \<open>Fd_Calm\<close> and the shell's own redirections as they were, and a pipeline undoes what it
  opens. \<open>yields s p x\<close> says that the machine in the result of the computation \<open>x\<close>, if there is one, is quiet
  since \<open>s\<close>; its rules follow the structure of the commands.
\<close>

definition quiet :: "machine \<Rightarrow> machine \<Rightarrow> bool" where
  "quiet s s' \<longleftrightarrow> fd_calm (k_io s) (k_io s') \<and> g_out_fd s' = g_out_fd s \<and> g_in_fd s' = g_in_fd s"

definition yields :: "machine \<Rightarrow> ('a \<Rightarrow> machine) \<Rightarrow> 'a option \<Rightarrow> bool" where
  "yields s p x \<longleftrightarrow> length (fds (k_io s)) = FD_MAX \<longrightarrow> (\<forall>r. x = Some r \<longrightarrow> quiet s (p r))"

text \<open>
  What a program leaves open when it exits nothing closes (\<^verbatim>\<open>elf_exit\<close> and \<^verbatim>\<open>elf_exec\<close> do not look at the
  descriptors), so what is said of command lines is said of those that start no program: \<open>no_programs E\<close> says that
  nothing ever comes back from ring 3. Such a line has no result then; loading a program, and failing to, is covered.
\<close>

definition no_programs :: "env \<Rightarrow> bool" where
  "no_programs E \<longleftrightarrow> (\<forall>entry esp s. e_ring3 E entry esp s = None)"

named_theorems yields and quiets

subsection \<open>Rules\<close>

lemma quiet_self [simp, quiets]: "quiet s s"
  by (simp add: quiet_def)

lemma quiet_trans [trans]: "quiet a b \<Longrightarrow> quiet b c \<Longrightarrow> quiet a c"
  by (auto simp: quiet_def intro: fd_calm_trans)

lemma yields_None [yields]: "yields s p None"
  by (simp add: yields_def)

lemma yields_Some [yields]: "quiet s (p r) \<Longrightarrow> yields s p (Some r)"
  by (simp add: yields_def)

lemma yields_bind [yields]:
  "yields s (\<lambda>t. t) x \<Longrightarrow> (\<And>t. quiet s t \<Longrightarrow> yields s p (g t)) \<Longrightarrow> yields s p (Option.bind x g)"
  by (auto simp: yields_def Option.bind_eq_Some_conv)

lemma yields_bind_pair [yields]:
  "yields s fst x \<Longrightarrow> (\<And>t a. quiet s t \<Longrightarrow> yields s p (g t a)) \<Longrightarrow> yields s p (Option.bind x (\<lambda>(t, a). g t a))"
  by (auto simp: yields_def Option.bind_eq_Some_conv)

lemma yields_if: "yields s p x \<Longrightarrow> yields s p y \<Longrightarrow> yields s p (if b then x else y)"
  by simp

lemma yields_bind_any: "(\<And>v. x = Some v \<Longrightarrow> yields s p (g v)) \<Longrightarrow> yields s p (Option.bind x g)"
  by (auto simp: yields_def Option.bind_eq_Some_conv)

text \<open>Computations that only look.\<close>

lemma yields_look [yields]:
  "(\<And>x. yields s p (g x)) \<Longrightarrow> yields s p (Option.bind (m_read32 a u) g)"
  "(\<And>str. yields s p (h str)) \<Longrightarrow> yields s p (Option.bind (user_cstr a u) h)"
  by (auto intro: yields_bind_any)

lemma yields_map: "yields s (\<lambda>r. p (f r)) x \<Longrightarrow> yields s p (map_option f x)"
  by (auto simp: yields_def)

lemma yields_trans: "quiet s t \<Longrightarrow> yields t p x \<Longrightarrow> yields s p x"
  using quiet_trans [of s t] view_length [of "k_io s" "k_io t"] by (auto simp: yields_def quiet_def)

lemma yields_step: "quiet s t \<Longrightarrow> (\<And>r. x = Some r \<Longrightarrow> quiet t (p r)) \<Longrightarrow> yields s p x"
  by (rule yields_trans) (auto simp: yields_def)

subsection \<open>Steps of the machine\<close>

lemma shell_vars [simp]:
  "g_out_fd (set_io E io s) = g_out_fd s" "g_in_fd (set_io E io s) = g_in_fd s"
  "g_out_fd (m_draw f s) = g_out_fd s" "g_in_fd (m_draw f s) = g_in_fd s"
  "g_out_fd (m_update_cursor s) = g_out_fd s" "g_in_fd (m_update_cursor s) = g_in_fd s"
  "g_out_fd (set_vol v s) = g_out_fd s" "g_in_fd (set_vol v s) = g_in_fd s"
  "g_out_fd (set_vm vm s) = g_out_fd s" "g_in_fd (set_vm vm s) = g_in_fd s"
  "g_out_fd (set_mem m s) = g_out_fd s" "g_in_fd (set_mem m s) = g_in_fd s"
  "g_out_fd (k_puts t s) = g_out_fd s" "g_in_fd (k_puts t s) = g_in_fd s"
  "g_out_fd (k_puts_bytes b s) = g_out_fd s" "g_in_fd (k_puts_bytes b s) = g_in_fd s"
  "g_out_fd (k_putc c s) = g_out_fd s" "g_in_fd (k_putc c s) = g_in_fd s"
  "g_out_fd (k_set_esp0 x s) = g_out_fd s" "g_in_fd (k_set_esp0 x s) = g_in_fd s"
  by (simp_all add: set_io_def m_draw_def m_update_cursor_def kernel_defs split: prod.splits)

lemma quiet_io: "fd_calm (k_io s) io \<Longrightarrow> quiet s (set_io E io s)"
  by (simp add: quiet_def)

lemma quiet_vol: "used_fds v = used_fds (k_vol s) \<Longrightarrow> quiet s (set_vol v s)"
  by (simp add: quiet_def k_io_set_vol k_vol_def fd_calm_vol)

lemma quiet_same: "k_io s' = k_io s \<Longrightarrow> g_out_fd s' = g_out_fd s \<Longrightarrow> g_in_fd s' = g_in_fd s \<Longrightarrow> quiet t s \<Longrightarrow> quiet t s'"
  by (simp add: quiet_def)

lemma quiet_steps [quiets]:
  assumes "quiet t s"
  shows "quiet t (m_draw f s)" "quiet t (m_present s)" "quiet t (m_update_cursor s)" "quiet t (set_vm vm s)" "quiet t (set_mem m s)"
    "quiet t (k_set_esp0 x s)" "quiet t (s\<lparr>k_heap := h\<rparr>)" "quiet t (s\<lparr>m_ports := p\<rparr>)"
    "quiet t (s\<lparr>exec_ctx_depth := d\<rparr>)" "quiet t (s\<lparr>m_timer := tm, m_ports := p, m_wakes := w\<rparr>)"
    "quiet t (s\<lparr>m_timer := tm, m_wakes := w\<rparr>)" "quiet t (s\<lparr>cwd := c\<rparr>)" "quiet t (s\<lparr>g_serial_mode := b\<rparr>)"
    "quiet t (s\<lparr>k_heap := h, k_shm := sh\<rparr>)"
  by (rule quiet_same [OF _ _ _ assms]; simp add: m_present_def)+

lemma quiet_console [quiets]:
  assumes "quiet t s"
  shows "quiet t (k_puts str s)" "quiet t (k_puts_bytes bs s)" "quiet t (k_putc c s)"
proof -
  have "fd_calm (k_io s) ((k_io s)\<lparr>com1 := x\<rparr>)" for x by (rule fd_calm_fields) simp_all
  then have "quiet s (k_puts str s)" "quiet s (k_puts_bytes bs s)" "quiet s (k_putc c s)"
    by (simp_all add: quiet_def kernel_defs)
  then show "quiet t (k_puts str s)" "quiet t (k_puts_bytes bs s)" "quiet t (k_putc c s)"
    using quiet_trans [OF assms] by blast+
qed

subsection \<open>Output\<close>

lemma shell_puts_quiet [yields]:
  assumes "quiet t s"
  shows "yields t (\<lambda>t. t) (shell_puts E str color s)"
proof (rule yields_step [OF assms])
  fix u assume u: "shell_puts E str color s = Some u"
  show "quiet s u"
  proof (cases "0 \<le> g_out_fd s")
    case True
    then obtain io r io' r' where "fd_write (g_out_fd s) str (k_io s) = Some (io, r)"
      "fd_write (g_out_fd s) [0x0A] io = Some (io', r')" "u = set_io E io' s"
      using u by (auto simp: shell_puts_def Option.bind_eq_Some_conv)
    then show ?thesis using fd_calm_trans [OF fd_write_calm fd_write_calm] by (auto intro: quiet_io)
  next
    case False
    then show ?thesis using u by (auto simp: shell_puts_def intro!: quiets)
  qed
qed

lemma say_quiet [yields]: "quiet t s \<Longrightarrow> yields t (\<lambda>t. t) (say E str color s)"
  unfolding say_def by (rule yields)

lemma verdict_quiet [yields]: "quiet t s \<Longrightarrow> yields t (\<lambda>t. t) (verdict E b yes no s)"
  unfolding verdict_def by (rule yields)

lemma shell_printf_quiet [yields]: "quiet t s \<Longrightarrow> yields t (\<lambda>t. t) (shell_printf E cap f args color s)"
  unfolding shell_printf_def by (rule yields_bind_any) (auto intro: yields)

lemma present_quiet [yields]: "yields t (\<lambda>t. t) x \<Longrightarrow> yields t (\<lambda>t. t) (map_option m_present x)"
  by (rule yields_map) (auto simp: yields_def intro: quiets)

subsection \<open>The volume\<close>

lemma vol_try_quiet:
  assumes "\<And>v v' r. f v = Some (v', r) \<Longrightarrow> used_fds v' = used_fds v" "quiet t s"
  shows "yields t fst (vol_try f s)"
  by (rule yields_step [OF assms(2)]) (auto simp: vol_try_def intro!: quiet_vol elim: assms(1))

lemma retry_case_used:
  assumes "\<And>p v v' ok. f p v = Some (v', ok) \<Longrightarrow> used_fds v' = used_fds v" "retry_case f path v = Some (v', ok)"
  shows "used_fds v' = used_fds v"
  using assms(2) by (auto simp: retry_case_def Option.bind_eq_Some_conv dest!: assms(1) split: if_splits)

lemma path_op_used:
  "fat12_mkdir p v = Some (v', ok) \<Longrightarrow> used_fds v' = used_fds v"
  "fat12_rmdir p v = Some (v', ok) \<Longrightarrow> used_fds v' = used_fds v"
  "fat12_delete p v = Some (v', ok) \<Longrightarrow> used_fds v' = used_fds v"
  by (auto intro: used_fds_cong dest: g_fds_fat12_mkdir g_fds_fat12_rmdir g_fds_fat12_delete)

lemma case_op_used:
  "fat12_mkdir_case p v = Some (v', ok) \<Longrightarrow> used_fds v' = used_fds v"
  "fat12_rmdir_case p v = Some (v', ok) \<Longrightarrow> used_fds v' = used_fds v"
  "fat12_delete_case p v = Some (v', ok) \<Longrightarrow> used_fds v' = used_fds v"
  unfolding fat12_mkdir_case_def fat12_rmdir_case_def fat12_delete_case_def
  by (erule retry_case_used [rotated], erule path_op_used)+

lemma fat_rw_quiet [yields]:
  assumes "quiet t s"
  shows "yields t fst (vol_try (fat12_read fd n) s)" "yields t fst (vol_try (fat12_write fd src) s)"
    "yields t fst (vol_try (fat12_mkdir p) s)" "yields t fst (vol_try (fat12_rmdir p) s)"
    "yields t fst (vol_try (fat12_mkdir_case p) s)" "yields t fst (vol_try (fat12_rmdir_case p) s)"
    "yields t fst (vol_try (fat12_delete_case p) s)"
proof -
  have "used_fds v' = used_fds v" if "fat12_read fd n v = Some (v', r)" for v v' r
    using that by (cases r) (auto dest: fat12_read_used)
  then show "yields t fst (vol_try (fat12_read fd n) s)" by (rule vol_try_quiet [OF _ assms])
qed (rule vol_try_quiet [OF _ assms], erule fat12_write_used path_op_used case_op_used)+

text \<open>A file that is opened and closed again.\<close>

definition file_opened :: "machine \<Rightarrow> machine \<Rightarrow> int \<Rightarrow> bool" where
  "file_opened s s' fd \<longleftrightarrow> (if fd < 0 then quiet s s' else quiet s (m_close fd s'))"

lemma m_close_quiet: "quiet s s' \<Longrightarrow> quiet (m_close fd s) (m_close fd s')"
  using calm_close_file [of "k_io s" "k_io s'" fd] by (simp add: quiet_def m_close_def k_io_set_vol k_vol_def)

lemma file_opened_intro:
  assumes "fat_opened (k_vol s) v fd"
  shows "file_opened s (set_vol v s) fd"
proof (cases "fd < 0")
  case True
  with assms have "g_fds v = g_fds (k_vol s)" by (auto simp: fat_opened_def)
  then have "quiet s (set_vol v s)" by (intro quiet_vol used_fds_cong)
  then show ?thesis using True by (simp add: file_opened_def)
next
  case False
  then have u: "used_fds (fat12_close fd v) = used_fds (k_vol s)" by (intro fat_opened_close [OF assms]) simp_all
  have "m_close fd (set_vol v s) = set_vol (fat12_close fd v) s" by (simp add: m_close_def kernel_defs)
  with False quiet_vol [OF u] show ?thesis by (simp add: file_opened_def)
qed

lemma file_opened_trans: "quiet s t \<Longrightarrow> file_opened t u fd \<Longrightarrow> file_opened s u fd"
  by (auto simp: file_opened_def intro: quiet_trans)

lemma open_opened: "vol_do (fat12_open p) s = (s', fd) \<Longrightarrow> file_opened s s' fd"
  by (cases "fat12_open p (k_vol s)") (auto simp: vol_do_def dest: file_opened_intro [OF fat12_open_opened])

lemma create_opened: "vol_try (fat12_create p) s = Some (s', fd) \<Longrightarrow> file_opened s s' fd"
  unfolding vol_try_def by (cases "fat12_create p (k_vol s)") (auto dest: file_opened_intro [OF fat12_create_opened])

lemma fat_opened_again:
  assumes "fat_opened v v1 fd1" "fd1 < 0" "fat_opened v1 v2 fd"
  shows "fat_opened v v2 fd"
proof -
  have "g_fds v1 = g_fds v" using assms(1,2) by (auto simp: fat_opened_def)
  with assms(3) show ?thesis by (simp add: fat_opened_def)
qed

lemma open_case_opened: "vol_do (fat12_open_case p) s = (s', fd) \<Longrightarrow> file_opened s s' fd"
proof -
  assume a: "vol_do (fat12_open_case p) s = (s', fd)"
  obtain v1 fd1 where o: "fat12_open p (k_vol s) = (v1, fd1)" by fastforce
  note O = fat12_open_opened [OF o]
  have "fat_opened (k_vol s) v fd" if "fat12_open_case p (k_vol s) = (v, fd)" for v fd
  proof (cases "0 \<le> fd1 \<or> \<not> has_lower_alpha p")
    case True
    then show ?thesis using that o O by (auto simp: fat12_open_case_def fat_opened_def)
  next
    case False
    then have "fat12_open (to_upper_str p) v1 = (v, fd)" using that o by (simp add: fat12_open_case_def)
    from fat_opened_again [OF O _ fat12_open_opened [OF this]] False show ?thesis by simp
  qed
  then show ?thesis using a by (cases "fat12_open_case p (k_vol s)") (auto simp: vol_do_def intro: file_opened_intro)
qed

lemma create_case_opened: "vol_try (fat12_create_case p) s = Some (s', fd) \<Longrightarrow> file_opened s s' fd"
proof -
  assume a: "vol_try (fat12_create_case p) s = Some (s', fd)"
  have "fat_opened (k_vol s) v fd" if c: "fat12_create_case p (k_vol s) = Some (v, fd)" for v fd
  proof -
    obtain v1 fd1 where o: "fat12_create p (k_vol s) = Some (v1, fd1)"
      using c by (auto simp: fat12_create_case_def Option.bind_eq_Some_conv)
    note O = fat12_create_opened [OF o]
    show ?thesis
    proof (cases "0 \<le> fd1 \<or> \<not> has_lower_alpha p")
      case True
      then show ?thesis using c o O by (auto simp: fat12_create_case_def fat_opened_def)
    next
      case False
      then have "fat12_create (to_upper_str p) v1 = Some (v, fd)" using c o by (simp add: fat12_create_case_def)
      from fat_opened_again [OF O _ fat12_create_opened [OF this]] False show ?thesis by simp
    qed
  qed
  then show ?thesis using a by (auto simp: vol_try_def intro: file_opened_intro)
qed

text \<open>While a file is \<open>held\<close> open, every step is quiet but for the file, and closing it makes up for it.\<close>

definition held :: "int \<Rightarrow> machine \<Rightarrow> machine \<Rightarrow> bool" where
  "held fd s u \<longleftrightarrow> quiet s (m_close fd u)"

lemma held_opened: "file_opened s u fd \<Longrightarrow> 0 \<le> fd \<Longrightarrow> held fd s u"
  by (simp add: file_opened_def held_def)

lemma held_yields:
  assumes "held fd s u" "yields u p x"
  shows "yields s (\<lambda>r. m_close fd (p r)) x"
proof -
  have "length (fds (k_io (m_close fd u))) = length (fds (k_io u))" by (simp add: m_close_def k_io_set_vol)
  then have "length (fds (k_io u)) = length (fds (k_io s))"
    using assms(1) view_length [of "k_io s" "k_io (m_close fd u)"] by (simp add: held_def quiet_def)
  then show ?thesis using assms(2) quiet_trans [OF assms(1) [unfolded held_def] m_close_quiet] by (auto simp: yields_def)
qed

lemma held_bind:
  "held fd s u \<Longrightarrow> yields u (\<lambda>t. t) x \<Longrightarrow> (\<And>t. held fd s t \<Longrightarrow> yields s p (g t)) \<Longrightarrow> yields s p (Option.bind x g)"
  by (drule (1) held_yields) (auto simp: yields_def held_def Option.bind_eq_Some_conv)

lemma held_bind_pair:
  "held fd s u \<Longrightarrow> yields u fst x \<Longrightarrow> (\<And>t a. held fd s t \<Longrightarrow> yields s p (g t a)) \<Longrightarrow> yields s p (Option.bind x (\<lambda>(t, a). g t a))"
  by (drule (1) held_yields) (auto simp: yields_def held_def Option.bind_eq_Some_conv)

lemma held_close: "held fd s u \<Longrightarrow> quiet s (m_close fd u)"
  by (simp add: held_def)

lemma opened_cases:
  assumes "file_opened s u fd" "fd < 0 \<Longrightarrow> quiet s u \<Longrightarrow> yields s p x" "0 \<le> fd \<Longrightarrow> held fd s u \<Longrightarrow> yields s p x"
  shows "yields s p x"
  using assms by (cases "fd < 0") (auto simp: file_opened_def held_def)

lemma create_bind:
  assumes c: "\<And>u fd. f s = Some (u, fd) \<Longrightarrow> file_opened s u fd" and q: "quiet t s"
    and g: "\<And>u fd. fd < 0 \<Longrightarrow> quiet t u \<Longrightarrow> yields t p (g u fd)" "\<And>u fd. 0 \<le> fd \<Longrightarrow> held fd t u \<Longrightarrow> yields t p (g u fd)"
  shows "yields t p (Option.bind (f s) (\<lambda>(u, fd). g u fd))"
  by (rule yields_bind_any) (auto dest!: c file_opened_trans [OF q] intro!: opened_cases [OF _ g])

lemma open_case:
  assumes c: "\<And>u fd. f s = (u, fd) \<Longrightarrow> file_opened s u fd" and q: "quiet t s"
    and g: "\<And>u fd. fd < 0 \<Longrightarrow> quiet t u \<Longrightarrow> yields t p (g u fd)" "\<And>u fd. 0 \<le> fd \<Longrightarrow> held fd t u \<Longrightarrow> yields t p (g u fd)"
  shows "yields t p (case f s of (u, fd) \<Rightarrow> g u fd)"
  by (cases "f s") (auto dest!: c file_opened_trans [OF q] intro!: opened_cases [OF _ g])

subsection \<open>The commands of the table\<close>

lemma help_lines_quiet [yields]: "quiet t s \<Longrightarrow> yields t (\<lambda>t. t) (help_lines E cs s)"
  by (induction cs arbitrary: s) (auto simp: help_line_def intro!: yields)

lemma m_heap_quiet [yields]:
  "quiet t s \<Longrightarrow> yields t fst (m_kmalloc n s)" "quiet t s \<Longrightarrow> yields t (\<lambda>t. t) (m_kfree p s)"
  "quiet t s \<Longrightarrow> yields t (\<lambda>t. t) (kfree_opt p s)"
  by (auto simp: m_kmalloc_def m_kfree_def kfree_opt_def yields_def intro: quiets)

lemma m_memory_quiet [quiets]:
  "quiet t s \<Longrightarrow> quiet t (m_pmm f s)" "quiet t s \<Longrightarrow> quiet t (m_paging g s)" "quiet t s \<Longrightarrow> quiet t (m_vmm_free v s)"
  "quiet t s \<Longrightarrow> quiet t (fst (m_pmm_alloc s))" "quiet t s \<Longrightarrow> quiet t (fst (m_vmm_alloc v flags s))"
  by (auto simp: m_pmm_def m_paging_def m_vmm_free_def m_pmm_alloc_def m_vmm_alloc_def intro: quiets split: prod.splits)

lemma upoke_quiet [yields]:
  "quiet t s \<Longrightarrow> yields t (\<lambda>t. t) (upoke a bs s)" "quiet t s \<Longrightarrow> yields t (\<lambda>t. t) (m_write32 a w s)"
  by (auto simp: upoke_def m_write32_def yields_def intro: quiets)

lemma tune_quiet [yields]:
  "quiet t s \<Longrightarrow> yields t (\<lambda>t. t) (m_note E freq s)" "quiet t s \<Longrightarrow> yields t (\<lambda>t. t) (m_sleep n s)"
  by (auto simp: m_note_def m_sleep_def yields_def intro: quiets)

lemma play_tune_quiet [yields]: "quiet t s \<Longrightarrow> yields t (\<lambda>t. t) (play_tune E ns s)"
proof (induction ns arbitrary: s)
  case (Cons n ns)
  then show ?case by (cases n) (auto intro!: yields)
qed (auto intro!: yields)

lemma simple_commands_quiet:
  "quiet t s \<Longrightarrow> yields t (\<lambda>t. t) (cmd_help E s)" "quiet t s \<Longrightarrow> yields t (\<lambda>t. t) (cmd_clear s)"
  "quiet t s \<Longrightarrow> yields t (\<lambda>t. t) (cmd_panic s)" "quiet t s \<Longrightarrow> yields t (\<lambda>t. t) (cmd_time E s)"
  "quiet t s \<Longrightarrow> yields t (\<lambda>t. t) (cmd_uptime E s)" "quiet t s \<Longrightarrow> yields t (\<lambda>t. t) (cmd_freedom E s)"
  "quiet t s \<Longrightarrow> yields t (\<lambda>t. t) (cmd_free E s)" "quiet t s \<Longrightarrow> yields t (\<lambda>t. t) (cmd_cpuid E s)"
  by (auto simp: cmd_help_def cmd_clear_def cmd_panic_def cmd_time_def cmd_uptime_def cmd_freedom_def cmd_free_def free_line_def
      cmd_cpuid_def Let_def intro!: yields quiets split: prod.split)

lemma cmd_paging_quiet: "quiet t s \<Longrightarrow> yields t (\<lambda>t. t) (cmd_paging E s)"
  unfolding cmd_paging_def Let_def
  by (auto intro!: yields quiets)

lemma memtest_heap_quiet [yields]: "quiet t s \<Longrightarrow> yields t fst (memtest_heap E s)"
  unfolding memtest_heap_def by (auto intro!: yields)

lemma memtest_pmm_quiet [yields]: "quiet t s \<Longrightarrow> yields t (\<lambda>t. t) (memtest_pmm E s)"
  unfolding memtest_pmm_def Let_def case_prod_unfold by (auto intro!: yields quiets)

lemma memtest_vmm_quiet [yields]: "quiet t s \<Longrightarrow> yields t (\<lambda>t. t) (memtest_vmm E s)"
  unfolding memtest_vmm_def Let_def case_prod_unfold by (auto intro!: yields quiets)

lemma cmd_memtesting_quiet: "quiet t s \<Longrightarrow> yields t (\<lambda>t. t) (cmd_memtesting E s)"
  unfolding cmd_memtesting_def by (auto intro!: yields)

subsection \<open>Listing and showing files\<close>

definition quiet_action :: "ls_action \<Rightarrow> bool" where
  "quiet_action f \<longleftrightarrow> (\<forall>x t s. quiet t s \<longrightarrow> yields t (\<lambda>t. t) (f x s))"

lemma quiet_actionD: "quiet_action f \<Longrightarrow> quiet t s \<Longrightarrow> yields t (\<lambda>t. t) (f x s)"
  unfolding quiet_action_def by blast

lemma fat_entry_quiet: "quiet_action (fat_entry E dir_fmt file_fmt c)"
  by (auto simp: quiet_action_def fat_entry_def intro: yields)

lemma quiet_read_entry: "quiet t s \<Longrightarrow> dir_read_entry lba dc i (k_vol s) = (v, r) \<Longrightarrow> quiet t (set_vol v s)"
  using quiet_trans quiet_vol used_fds_cong g_fds_dir_read_entry [of lba dc i "k_vol s"] by (metis fst_conv)

lemma dir_each_quiet:
  assumes f: "quiet_action f"
  shows "quiet t s \<Longrightarrow> yields t (\<lambda>t. t) (dir_each dc ks f s)"
proof (induction ks arbitrary: s)
  case (Cons i ks)
  obtain v r where e: "dir_read_entry (g_root_lba (k_vol s)) dc i (k_vol s) = (v, r)" by fastforce
  have q: "quiet t (set_vol v s)" by (rule quiet_read_entry [OF Cons.prems e])
  show ?case
    by (cases r) (auto simp: e q Let_def intro!: yields quiet_actionD [OF f] Cons.IH)
qed (auto intro: yields)

lemma ls_each_quiet:
  assumes f: "quiet_action f" and q: "quiet t s"
  shows "yields t fst (fat12_ls_each e0 p f s)"
proof -
  note D = dir_each_quiet [OF f]
  have fin: "yields t fst (map_option (\<lambda>s'. (s', b)) (dir_each dc ks f u))" if "quiet t u" for b dc ks u
    using D [OF that] by (auto intro: yields_map)
  obtain v1 r where r: "resolve_path p (k_vol s) = (v1, r)" by fastforce
  have q1: "quiet t (set_vol v1 s)" using quiet_trans [OF q quiet_vol [OF used_fds_cong [OF g_fds_resolve [OF r]]]] .
  have q2: "quiet t (set_vol v2 s)" if "find_in_dir dc fn v1 = (v2, x)" for dc fn v2 x
    using quiet_trans [OF q quiet_vol [OF used_fds_cong]] g_fds_resolve [OF r] g_fds_find [OF that] by simp
  show ?thesis unfolding fat12_ls_each_def Let_def r
    by (auto intro!: fin yields_Some q q1 split: option.split prod.split dest: q2)
qed

lemma ls_case_quiet:
  assumes "quiet_action f" "quiet t s"
  shows "yields t fst (fat12_ls_case e0 p f s)"
  unfolding fat12_ls_case_def by (auto intro!: yields ls_each_quiet assms)

text \<open>The turns of \<^verbatim>\<open>cat\<close>, by fixed-point induction: a read, a line of output, the rest of the file.\<close>

lemma yieldsD: "yields s p x \<Longrightarrow> x = Some r \<Longrightarrow> length (fds (k_io s)) = FD_MAX \<Longrightarrow> quiet s (p r)"
  by (simp add: yields_def)

lemma cat_file_quiet: "yields s (\<lambda>t. t) (cat_file E fd s)"
proof -
  have "length (fds (k_io s)) = FD_MAX \<longrightarrow> quiet s r" if "cat_file E fd s = Some r" for s r
    using that
  proof (induction rule: cat_file.raw_induct [rotated, consumes 1, case_names step])
    case (step f E fd s r)
    have IH: "yields u (\<lambda>t. t) (f E fd u)" for u using step(1) by (auto simp: yields_def)
    obtain u n out where v: "vol_try (fat12_read fd 511) s = Some (u, n, out)"
      using step(2) by (auto simp: Option.bind_eq_Some_conv)
    show ?case
    proof
      assume l: "length (fds (k_io s)) = FD_MAX"
      have q: "quiet s u" using yieldsD [OF fat_rw_quiet(1) [OF quiet_self] v l] by simp
      have "yields s (\<lambda>t. t) (Option.bind (shell_puts E (cstr out) COL_FG u) (f E fd))"
        by (rule yields_bind [OF shell_puts_quiet [OF q]]) (rule yields_trans [OF _ IH])
      then show "quiet s r" using step(2) v q l by (auto split: if_splits dest: yieldsD)
    qed
  qed
  then show ?thesis by (simp add: yields_def)
qed

lemma cat_in_quiet: "yields s (\<lambda>t. t) (cat_in E s)"
proof -
  have "length (fds (k_io s)) = FD_MAX \<longrightarrow> quiet s r" if "cat_in E s = Some r" for s r
    using that
  proof (induction rule: cat_in.raw_induct [rotated, consumes 1, case_names step])
    case (step f E s r)
    have IH: "yields u (\<lambda>t. t) (f E u)" for u using step(1) by (auto simp: yields_def)
    obtain io n out where v: "fd_read (g_in_fd s) 511 (k_io s) = Some (io, n, out)"
      using step(2) by (auto simp: Option.bind_eq_Some_conv)
    have q: "quiet s (set_io E io s)" by (rule quiet_io [OF fd_read_calm [OF v]])
    have "yields s (\<lambda>t. t) (Option.bind (shell_puts E (cstr out) COL_FG (set_io E io s)) (f E))"
      by (rule yields_bind [OF shell_puts_quiet [OF q]]) (rule yields_trans [OF _ IH])
    then show ?case using step(2) v q by (auto split: if_splits dest: yieldsD)
  qed
  then show ?thesis by (simp add: yields_def)
qed

subsection \<open>The test of the file system\<close>

lemma fat_test_show_quiet: "held fd s u \<Longrightarrow> yields s (\<lambda>t. t) (fat_test_show E fd none u)"
  unfolding fat_test_show_def
proof (erule held_bind_pair [OF _ fat_rw_quiet(1) [OF quiet_self]], clarify)
  fix t n out assume h: "held fd s t"
  show "yields s (\<lambda>t. t) (do {
      s \<leftarrow> (if 0 < n then shell_puts E (cstr out) COL_FG t else say E none COL_ERR t); Some (m_close fd s) })"
    by (rule held_bind [OF h]) (auto intro!: yields held_close)
qed

lemma fat_test_quiet [yields]:
  assumes q: "quiet t s"
  shows "yields t (\<lambda>t. t) (fat_test_ls E s)" "yields t (\<lambda>t. t) (fat_test_hello E s)" "yields t (\<lambda>t. t) (fat_test_write E s)"
    "yields t (\<lambda>t. t) (fat_test_reread E s)" "yields t (\<lambda>t. t) (fat_test_dir E s)"
proof -
  show "yields t (\<lambda>t. t) (fat_test_ls E s)"
    unfolding fat_test_ls_def by (auto intro!: yields quiets ls_each_quiet [OF fat_entry_quiet] q)
  show "yields t (\<lambda>t. t) (fat_test_hello E s)"
    unfolding fat_test_hello_def
  proof (rule open_case [OF open_opened q], assumption)
    show "yields t (\<lambda>t. t) (if fd < 0 then say E ''  open: FAIL'' COL_ERR u
        else do { s \<leftarrow> say E ''  open: ok'' COL_OK u; fat_test_show E fd ''  read: empty or FAIL'' s })"
      if "0 \<le> fd" "held fd t u" for u fd
      using that by (simp add: held_bind [OF that(2) say_quiet [OF quiet_self] fat_test_show_quiet])
  qed (auto intro!: yields)
  show "yields t (\<lambda>t. t) (fat_test_reread E s)"
    unfolding fat_test_reread_def
    by (rule open_case [OF open_opened q], assumption) (auto intro!: yields fat_test_show_quiet)
  show "yields t (\<lambda>t. t) (fat_test_write E s)"
    unfolding fat_test_write_def
  proof (rule create_bind [OF create_opened q], assumption)
    show "yields t (\<lambda>t. t) (if fd < 0 then say E ''  create: FAIL'' COL_ERR u
        else do { s \<leftarrow> say E ''  create: ok'' COL_OK u;
                  (s, written) \<leftarrow> vol_try (fat12_write fd (bytes ''FAT12 write works!'')) s;
                  verdict E (written = 18) ''  write: ok'' ''  write: FAIL'' (m_close fd s) })"
      if "0 \<le> fd" "held fd t u" for u fd
      using that(1) by (simp add: held_bind [OF that(2) say_quiet [OF quiet_self]] held_bind_pair [OF _ fat_rw_quiet(2) [OF quiet_self]]
          verdict_quiet held_close)
  qed (auto intro!: yields)
  show "yields t (\<lambda>t. t) (fat_test_dir E s)" unfolding fat_test_dir_def using q by (auto intro!: yields)
qed

lemma cmd_fat12_quiet: "quiet t s \<Longrightarrow> yields t (\<lambda>t. t) (cmd_fat12_test E s)"
  unfolding cmd_fat12_test_def by (auto intro!: yields quiets)

subsection \<open>Loading and running a program\<close>

text \<open>The loader works on the kernel's part of the state.\<close>

lemma kernel_more [simp]:
  "kernel.more (set_vm vm s) = kernel.more s" "kernel.more (set_mem m s) = kernel.more s"
  "kernel.more (set_vol v s) = kernel.more s" "kernel.more (k_puts t s) = kernel.more s"
  "kernel.more (k_puts_bytes bs s) = kernel.more s" "kernel.more (k_putc c s) = kernel.more s"
  "kernel.more (k_set_esp0 x s) = kernel.more s" "kernel.more (elf_unload a n s) = kernel.more s"
  by (simp_all add: kernel_defs elf_unload_def)

lemma shell_vars_more: "kernel.more s' = kernel.more s \<Longrightarrow> g_out_fd s' = g_out_fd s \<and> g_in_fd s' = g_in_fd s"
  by (cases s; cases s') simp

lemma elf_drop_more: "elf_drop buf msg s = Some (s', r) \<Longrightarrow> kernel.more s' = kernel.more s"
  by (auto simp: elf_drop_def)

lemma elf_image_more: "elf_image buf sz s = Some (s', r) \<Longrightarrow> kernel.more s' = kernel.more s"
proof -
  assume a: "elf_image buf sz s = Some (s', r)"
  have d: "kernel.more s1 = kernel.more s" if "elf_drop buf msg t = Some (s1, q)" "kernel.more t = kernel.more s" for msg t s1 q
    using elf_drop_more [OF that(1)] that(2) by simp
  show ?thesis using a
    by (auto simp: elf_image_def Let_def Option.bind_eq_Some_conv elim!: d split: if_splits prod.splits option.splits)
qed

lemma elf_load_more: "elf_load path s = Some (s', r) \<Longrightarrow> kernel.more s' = kernel.more s"
  by (auto simp: elf_load_def Let_def Option.bind_eq_Some_conv case_prod_unfold dest!: elf_image_more split: if_splits)

lemma elf_load_quiet: "quiet t s \<Longrightarrow> elf_load path s = Some (s', r) \<Longrightarrow> quiet t s'"
proof -
  assume q: "quiet t s" and l: "elf_load path s = Some (s', r)"
  have "fd_calm (k_io s) (k_io s')" using elf_load_io [OF l] by (intro fd_calm_fields) (simp_all add: fd_same_def)
  then have "quiet s s'" using shell_vars_more [OF elf_load_more [OF l]] by (simp add: quiet_def)
  with q show ?thesis by (rule quiet_trans)
qed

lemma elf_exec_quiet [yields]:
  assumes R: "no_programs E" and q: "quiet t s"
  shows "yields t fst (elf_exec (e_ring3 E) path err n s)"
proof -
  let ?s = "k_putc 10 (k_puts_bytes path (k_puts ''[elf_exec] loading: '' s))"
  have q0: "quiet t ?s" by (intro quiets q)
  have ring: "quiet t w" if "e_ring3 E entry esp (u\<lparr>exec_ctx_depth := d\<rparr>) = Some w" "quiet t u" for entry esp u w d
  proof -
    have "quiet t (u\<lparr>exec_ctx_depth := d\<rparr>)" by (intro quiets that)
    also have "quiet (u\<lparr>exec_ctx_depth := d\<rparr>) w" using R that(1) by (auto simp: no_programs_def)
    finally show ?thesis .
  qed
  have "quiet t u" if E: "elf_exec (e_ring3 E) path err n s = Some (u, e)" for u e
  proof -
    obtain s1 r where l: "elf_load path ?s = Some (s1, r)" using E by (auto simp: elf_exec_def Option.bind_eq_Some_conv)
    have q1: "quiet t s1" by (rule elf_load_quiet [OF q0 l])
    show ?thesis
    proof (cases "er_ok r")
      case False
      with E l q1 show ?thesis by (auto simp: elf_exec_def intro!: quiets)
    next
      case True
      with E l show ?thesis
        by (auto simp: elf_exec_def elf_unload_def Let_def split: if_splits prod.splits intro!: quiets q1 dest!: ring)
    qed
  qed
  then show ?thesis by (auto simp: yields_def)
qed

lemma cmd_exec_quiet: "no_programs E \<Longrightarrow> quiet t s \<Longrightarrow> yields t (\<lambda>t. t) (cmd_exec E args s)"
  unfolding cmd_exec_def Let_def by (auto intro!: yields split: option.split)

subsection \<open>System calls of the kernel\<close>

lemma int80_Some: "int80 E num a b c d s = Some (u, r) \<longleftrightarrow> syscall_handler E (\<lambda>_ _. None) num a b c d s = Some (u, Ret r)"
proof (cases "syscall_handler E (\<lambda>_ _. None) num a b c d s")
  case (Some q)
  then show ?thesis by (cases q; cases "snd q") (auto simp: int80_def)
qed (simp add: int80_def)

lemma putcs_quiet: "quiet t s \<Longrightarrow> quiet t (fold k_putc cs s)"
  by (induction cs arbitrary: s) (auto intro: quiets)

lemma log_quiet [quiets]: "quiet t s \<Longrightarrow> quiet t (serial_int n s)" "quiet t s \<Longrightarrow> quiet t (fs_log tag p s)"
  by (auto simp: serial_int_def fs_log_def intro!: quiets putcs_quiet)

lemma sys_read_quiet: "sys_read E a b c s = Some (u, e) \<Longrightarrow> quiet s u"
proof -
  assume r: "sys_read E a b c s = Some (u, e)"
  show ?thesis
  proof (cases "valid_user_ptr b c")
    case True
    then obtain io n out where o: "fd_read (sint a) c (k_io s) = Some (io, n, out)" "upoke b out (set_io E io s) = Some u"
      using r by (auto simp: sys_read_def ret_def Option.bind_eq_Some_conv)
    have "quiet s (set_io E io s)" by (rule quiet_io [OF fd_read_calm [OF o(1)]])
    with o(2) show ?thesis by (auto simp: upoke_def intro: quiets)
  qed (use r in \<open>simp add: sys_read_def ret_def\<close>)
qed

lemma sys_print_calm: "sys_print E a b s = Some (u, e) \<Longrightarrow> quiet s u"
proof -
  assume r: "sys_print E a b s = Some (u, e)"
  show ?thesis
  proof (cases "valid_user_ptr a 0")
    case True
    then show ?thesis using r by (auto simp: sys_print_def ret_def Let_def Option.bind_eq_Some_conv intro!: quiets)
  qed (use r in \<open>simp add: sys_print_def ret_def\<close>)
qed

lemma sys_kfree_quiet: "sys_kfree p s = Some u \<Longrightarrow> quiet s u"
  by (auto simp: sys_kfree_def Option.bind_eq_Some_conv upoke_def split: if_splits intro!: quiets)

lemma int80_quiet [yields]:
  assumes q: "quiet t s"
  shows "yields t fst (int80 E 0 a b 0 0 s)" "yields t fst (int80 E 2 fd buf 63 0 s)" "yields t fst (int80 E 10 0 64 0 0 s)"
    "yields t fst (int80 E 10 1 p 0 0 s)" "yields t fst (int80 E 11 0 0 0 0 s)"
proof -
  have step: "yields t fst (int80 E num a b c d s)"
    if "\<And>u r. syscall_handler E (\<lambda>_ _. None) num a b c d s = Some (u, Ret r) \<Longrightarrow> quiet s u" for num a b c d
    by (rule yields_step [OF q]) (auto simp: int80_Some intro: that)
  show "yields t fst (int80 E 0 a b 0 0 s)" "yields t fst (int80 E 2 fd buf 63 0 s)" "yields t fst (int80 E 10 0 64 0 0 s)"
    "yields t fst (int80 E 10 1 p 0 0 s)" "yields t fst (int80 E 11 0 0 0 0 s)"
    by (rule step; auto simp: syscall_handler_def sys_mem_def sys_proc_def ret_def Option.bind_eq_Some_conv
        intro: sys_print_calm sys_read_quiet sys_kfree_quiet quiets)+
qed

text \<open>A descriptor that is held open, as a file above.\<close>

definition fd_held :: "env \<Rightarrow> int \<Rightarrow> machine \<Rightarrow> machine \<Rightarrow> bool" where
  "fd_held E fd s u \<longleftrightarrow> length (fds (k_io u)) = FD_MAX \<and> quiet s (m_fd_close E fd u)"

lemma m_fd_close_quiet:
  "quiet s s' \<Longrightarrow> length (fds (k_io s)) = FD_MAX \<Longrightarrow> quiet (m_fd_close E fd s) (m_fd_close E fd s')"
  by (simp add: quiet_def m_fd_close_def fd_close_calm)

lemma fd_held_quiet: "fd_held E fd s u \<Longrightarrow> quiet u w \<Longrightarrow> fd_held E fd s w"
  using view_length [of "k_io u" "k_io w"] quiet_trans m_fd_close_quiet by (simp add: fd_held_def) (meson quiet_def)

lemma fd_held_bind:
  assumes "fd_held E fd s u" "yields u (\<lambda>t. t) x" "\<And>t. fd_held E fd s t \<Longrightarrow> yields s p (g t)"
  shows "yields s p (Option.bind x g)"
proof (rule yields_bind_any)
  fix v assume "x = Some v"
  with assms(1,2) have "quiet u v" by (auto simp: yields_def fd_held_def)
  with assms(1) have "fd_held E fd s v" by (rule fd_held_quiet)
  then show "yields s p (g v)" by (rule assms(3))
qed

lemma fd_held_bind_pair:
  assumes "fd_held E fd s u" "yields u fst x" "\<And>t a. fd_held E fd s t \<Longrightarrow> yields s p (g t a)"
  shows "yields s p (Option.bind x (\<lambda>(t, a). g t a))"
proof (rule yields_bind_any, clarify)
  fix v a assume "x = Some (v, a)"
  with assms(1,2) have "quiet u v" by (auto simp: yields_def fd_held_def)
  with assms(1) have "fd_held E fd s v" by (rule fd_held_quiet)
  then show "yields s p (g v a)" by (rule assms(3))
qed

lemma fd_held_close: "fd_held E fd s u \<Longrightarrow> quiet s (m_fd_close E fd u)"
  by (simp add: fd_held_def)

lemma fd_open_range: "fd_open path s = (s', fd) \<Longrightarrow> fd = -1 \<or> 0 \<le> fd \<and> fd < 32"
  by (auto simp: fd_open_def fd_bind_def FD_MAX_def split: prod.splits if_splits option.splits dest!: alloc_fdD(2))

lemma fd_opened_held:
  assumes o: "fd_opened (k_io s) io fd" and q: "0 \<le> fd" "quiet t s" and L: "length (fds io) = FD_MAX"
  shows "fd_held E fd t (set_io E io s)"
proof -
  have "quiet s (m_fd_close E fd (set_io E io s))"
    using o q(1) by (simp add: quiet_def m_fd_close_def fd_opened_def)
  from quiet_trans [OF q(2) this] L show ?thesis by (simp add: fd_held_def)
qed

lemma fd_length [simp]:
  "length (fds (fd_close fd s)) = length (fds s)" "length (fds (fst (fd_bind fat s))) = length (fds s)"
  by (auto simp: fd_close_def fd_bind_def Let_def split: option.split)

lemma fd_open_length: "fd_open path s = (s', fd) \<Longrightarrow> length (fds s') = length (fds s)"
proof -
  assume a: "fd_open path s = (s', fd)"
  obtain v fat where "fat12_open path (vol s) = (v, fat)" by fastforce
  with a have "s' = fst (fd_bind fat (s\<lparr>vol := v\<rparr>))" by (simp add: fd_open_def)
  then show ?thesis by simp
qed

lemma int80_open:
  assumes r: "int80 E 4 a 0 0 0 s = Some (u, r)" and q: "quiet t s" and L: "length (fds (k_io s)) = FD_MAX"
  shows "if 0 \<le> sint r then fd_held E (sint r) t u else quiet t u"
proof (cases "valid_user_ptr a 0")
  case False
  then have "u = s" "r = -1" using r by (auto simp: int80_Some syscall_handler_def sys_open_def ret_def)
  then show ?thesis using q by simp
next
  case True
  then obtain kpath where p: "Option.bind (Some kpath) (\<lambda>kpath. let s1 = fs_log ''[open] '' kpath s
      in case fd_open kpath (k_io s1) of (io, r) \<Rightarrow> ret (word_of_int r) (k_putc 0x0A (serial_int r (set_io E io s1)))) = Some (u, Ret r)"
    using r by (auto simp: int80_Some syscall_handler_def sys_open_def Option.bind_eq_Some_conv)
  let ?s = "fs_log ''[open] '' kpath s"
  obtain io fd where o: "fd_open kpath (k_io ?s) = (io, fd)" by fastforce
  have u: "u = k_putc 0x0A (serial_int fd (set_io E io ?s))" "r = word_of_int fd" using p o by (auto simp: Let_def ret_def)
  have sr: "sint r = fd" using fd_open_range [OF o] sint_of_int_32 [of fd] unfolding u(2) by auto
  have q1: "quiet t ?s" by (intro quiets q)
  have L1: "length (fds (k_io ?s)) = FD_MAX"
    using view_length [of "k_io s" "k_io ?s"] log_quiet(2) [OF quiet_self, of s] L by (simp add: quiet_def)
  note O = fd_open_opened [OF L1 o]
  show ?thesis
  proof (cases "0 \<le> fd")
    case True
    have "fd_held E fd t (set_io E io ?s)"
      using fd_opened_held [OF O True q1] fd_open_length [OF o] L1 by simp
    then have "fd_held E fd t u" unfolding u(1) by (rule fd_held_quiet) (intro quiets quiet_self)
    then show ?thesis using True sr by simp
  next
    case False
    then have "quiet ?s (set_io E io ?s)" using O by (simp add: fd_opened_def quiet_io)
    then have "quiet t u" unfolding u(1) by (intro quiets quiet_trans [OF q1])
    then show ?thesis using False sr by simp
  qed
qed

lemma int80_close: "fd_held E (sint fd) t s \<Longrightarrow> yields t fst (int80 E 5 fd 0 0 0 s)"
  by (auto simp: yields_def int80_Some syscall_handler_def sys_close_def ret_def fd_held_def m_fd_close_def)

lemma sysc_mem_quiet [yields]: "quiet t s \<Longrightarrow> yields t (\<lambda>t. t) (sysc_mem E s)"
  unfolding sysc_mem_def by (auto intro!: yields)

lemma sysc_read_quiet:
  assumes h: "fd_held E (sint fd) t s"
  shows "yields t (\<lambda>t. t) (sysc_read E fd s)"
  unfolding sysc_read_def Let_def
proof (rule fd_held_bind [OF h upoke_quiet(1) [OF quiet_self]], erule fd_held_bind_pair [OF _ int80_quiet(2) [OF quiet_self]])
  fix u n assume h: "fd_held E (sint fd) t u"
  let ?show = "if 0 < sint n then do { s \<leftarrow> upoke (e_sysbuf E + n) [0] u; s \<leftarrow> say E ''SYS_READ: ok'' COL_OK s;
      str \<leftarrow> user_cstr (e_sysbuf E) s; shell_puts E str COL_FG s } else say E ''SYS_READ: FAIL'' COL_ERR u"
  have y: "yields u (\<lambda>t. t) ?show" by (auto intro!: yields)
  show "yields t (\<lambda>t. t) (do { s \<leftarrow> ?show; (s, r) \<leftarrow> int80 E 5 fd 0 0 0 s; say E ''SYS_CLOSE: ok'' COL_OK s })"
    by (rule fd_held_bind [OF h y], rule yields_bind_pair [OF int80_close], assumption, rule say_quiet)
qed

lemma sysc_file_quiet [yields]:
  assumes q: "quiet t s"
  shows "yields t (\<lambda>t. t) (sysc_file E s)"
proof (cases "length (fds (k_io t)) = FD_MAX")
  case True
  then have L: "length (fds (k_io s)) = FD_MAX" using view_length [of "k_io t" "k_io s"] q by (simp add: quiet_def)
  show ?thesis unfolding sysc_file_def
  proof (rule yields_bind_any, clarify)
    fix u r assume "int80 E 4 (e_lit E ''TEST.TXT'') 0 0 0 s = Some (u, r)"
    note o = int80_open [OF this q L]
    show "yields t (\<lambda>t. t) (if 0 \<le> sint r then do { s \<leftarrow> say E ''SYS_OPEN: ok'' COL_OK u; sysc_read E r s }
        else say E ''SYS_OPEN: FAIL'' COL_ERR u)"
      using o by (cases "0 \<le> sint r") (simp_all add: say_quiet fd_held_bind [OF _ say_quiet [OF quiet_self] sysc_read_quiet])
  qed
qed (simp add: yields_def)

lemma cmd_syscall_quiet: "quiet t s \<Longrightarrow> yields t (\<lambda>t. t) (cmd_syscall E s)"
  unfolding cmd_syscall_def by (auto intro!: yields quiets)

subsection \<open>The dispatcher\<close>

lemma table_quiet:
  assumes "quiet t s" "j < length cmds"
  shows "yields t (\<lambda>t. t) ((cmd_fns E ! j) s)"
proof -
  have "list_all (\<lambda>f. yields t (\<lambda>t. t) (f s)) (cmd_fns E)"
    using simple_commands_quiet [OF assms(1)] cmd_paging_quiet [OF assms(1)] cmd_fat12_quiet [OF assms(1)]
      cmd_syscall_quiet [OF assms(1)] cmd_memtesting_quiet [OF assms(1)] by (simp add: cmd_fns_def)
  moreover have "length (cmd_fns E) = length cmds" by (simp add: cmd_fns_def cmds_def)
  ultimately show ?thesis using assms(2) by (simp add: list_all_length)
qed

lemma sh_path_quiet:
  assumes "\<And>p. yields t fst (vol_try (f p) s)" "quiet t s"
  shows "yields t (\<lambda>t. t) (sh_path E usage bad f args s)"
  unfolding sh_path_def using assms by (auto intro!: yields)

lemma sh_commands_quiet [yields]:
  assumes q: "quiet t s"
  shows "yields t (\<lambda>t. t) (sh_ls E args s)" "yields t (\<lambda>t. t) (sh_cd E args s)" "yields t (\<lambda>t. t) (sh_echo E args s)"
    "yields t (\<lambda>t. t) (sh_path E usage bad fat12_mkdir_case args s)"
    "yields t (\<lambda>t. t) (sh_path E usage bad fat12_rmdir_case args s)"
    "yields t (\<lambda>t. t) (sh_path E usage bad fat12_delete_case args s)"
    "yields t (\<lambda>t. t) (sh_touch E args s)" "yields t (\<lambda>t. t) (sh_cat E args s)"
proof -
  show "yields t (\<lambda>t. t) (sh_ls E args s)"
    unfolding sh_ls_def by (auto intro!: yields quiets ls_case_quiet [OF fat_entry_quiet] q)
  show "yields t (\<lambda>t. t) (sh_cd E args s)" "yields t (\<lambda>t. t) (sh_echo E args s)"
    unfolding sh_cd_def sh_echo_def Let_def using q by (auto intro!: yields quiets split: option.split)
  show "yields t (\<lambda>t. t) (sh_path E usage bad fat12_mkdir_case args s)"
    "yields t (\<lambda>t. t) (sh_path E usage bad fat12_rmdir_case args s)"
    "yields t (\<lambda>t. t) (sh_path E usage bad fat12_delete_case args s)"
    by (rule sh_path_quiet [OF _ q], intro fat_rw_quiet q)+
  have touch: "yields t (\<lambda>t. t) (map_option m_present
      (if 0 \<le> fd then say E ''ok'' COL_OK (m_close fd u) else say E ''touch: failed'' COL_ERR u))"
    if "fd < 0 \<Longrightarrow> quiet t u" "0 \<le> fd \<Longrightarrow> held fd t u" for fd u
    using that by (auto intro!: yields held_close)
  have "yields t (\<lambda>t. t) (Option.bind (vol_try (fat12_create_case (build_path (cwd s) args)) s)
      (\<lambda>(s, fd). map_option m_present (if 0 \<le> fd then say E ''ok'' COL_OK (m_close fd s) else say E ''touch: failed'' COL_ERR s)))"
    by (rule create_bind [OF create_case_opened q], assumption) (rule touch; simp)+
  then show "yields t (\<lambda>t. t) (sh_touch E args s)" using q by (auto simp: sh_touch_def intro!: yields)
  have cat: "yields t (\<lambda>t. t) (if fd < 0 then say E ''cat: not found'' COL_ERR u
      else do { s \<leftarrow> cat_file E fd u; Some (m_close fd s) })"
    if "fd < 0 \<Longrightarrow> quiet t u" "0 \<le> fd \<Longrightarrow> held fd t u" for fd u
    using that by (cases "fd < 0") (auto intro!: yields held_close held_bind [OF _ cat_file_quiet])
  have "yields t (\<lambda>t. t) (case vol_do (fat12_open_case (build_path (cwd s) args)) s of (s, fd) \<Rightarrow>
      if fd < 0 then say E ''cat: not found'' COL_ERR s else do { s \<leftarrow> cat_file E fd s; Some (m_close fd s) })"
    by (rule open_case [OF open_case_opened q], assumption) (rule cat; simp)+
  then show "yields t (\<lambda>t. t) (sh_cat E args s)"
    using q yields_trans [OF q cat_in_quiet] by (auto simp: sh_cat_def intro!: yields)
qed

lemma dispatch_quiet:
  assumes R: "no_programs E" and q: "quiet t s"
  shows "yields t (\<lambda>t. t) (dispatch E input s)"
proof -
  have f: "j < length cmds" if "find_cmd cmd = Some j" for cmd j using that by (auto simp: find_cmd_def find_upt_Some_iff)
  note y = sh_commands_quiet [OF q] shell_puts_quiet [OF q] shell_printf_quiet [OF q] cmd_exec_quiet [OF R q]
  have tab: "yields t (\<lambda>t. t) (case find_cmd cmd of Some j \<Rightarrow> map_option m_present ((cmd_fns E ! j) s)
      | None \<Rightarrow> map_option m_present (shell_printf E n fmt args col s))" for cmd n fmt args col
    by (cases "find_cmd cmd") (auto intro!: y present_quiet table_quiet [OF q f])
  show ?thesis
    unfolding dispatch_def Let_def case_prod_unfold
    by (intro yields_if y tab present_quiet yields_Some quiets q)
qed

subsection \<open>Pipelines\<close>


text \<open>A command run with a redirection that is taken back.\<close>

lemma run_to_quiet:
  assumes R: "no_programs E" and g: "g_out_fd s = -1"
  shows "yields s (\<lambda>t. t) (run_to E fd cmd s)"
proof -
  have "quiet s (u\<lparr>g_out_fd := -1\<rparr>)" if "dispatch E cmd (s\<lparr>g_out_fd := fd\<rparr>) = Some u" "length (fds (k_io s)) = FD_MAX" for u
    using yieldsD [OF dispatch_quiet [OF R quiet_self] that(1)] that(2) g by (simp add: quiet_def)
  then show ?thesis by (auto simp: run_to_def yields_def Option.bind_eq_Some_conv)
qed

lemma run_from_quiet:
  assumes R: "no_programs E" and g: "g_in_fd s = -1"
  shows "yields s (\<lambda>t. t) (run_from E i cmd s)"
proof -
  have "quiet s (u\<lparr>g_in_fd := -1\<rparr>)" if "dispatch E cmd (s\<lparr>g_in_fd := i\<rparr>) = Some u" "length (fds (k_io s)) = FD_MAX" for u
    using yieldsD [OF dispatch_quiet [OF R quiet_self] that(1)] that(2) g by (simp add: quiet_def)
  then show ?thesis by (auto simp: run_from_def yields_def Option.bind_eq_Some_conv)
qed

lemma fd_held_vars: "fd_held E fd s u \<Longrightarrow> g_out_fd u = g_out_fd s \<and> g_in_fd u = g_in_fd s"
  by (simp add: fd_held_def quiet_def m_fd_close_def)

lemma fd_create_case_length: "fd_create_case path s = Some (s', fd) \<Longrightarrow> length (fds s') = length (fds s)"
proof -
  have c: "length (fds s') = length (fds s)" if "fd_create p s = Some (s', fd)" for p s s' fd
  proof (cases "fat12_create p (vol s)")
    case (Some q)
    then show ?thesis using that fd_length(2) [of "snd q" "s\<lparr>vol := fst q\<rparr>"] by (simp add: fd_create_def case_prod_unfold)
  qed (use that in \<open>simp add: fd_create_def\<close>)
  assume "fd_create_case path s = Some (s', fd)"
  then show ?thesis by (auto simp: fd_create_case_def Option.bind_eq_Some_conv dest!: c split: if_splits)
qed

lemma m_create_held:
  assumes "m_create E path s = Some (u, fd)" "length (fds (k_io s)) = FD_MAX"
  shows "if fd < 0 then quiet s u else fd_held E fd s u"
proof -
  obtain io where io: "fd_create_case path (k_io s) = Some (io, fd)" "u = set_io E io s"
    using assms(1) by (auto simp: m_create_def)
  note o = fd_create_case_opened [OF assms(2) io(1)]
  show ?thesis
    using o fd_opened_held [OF o _ quiet_self] fd_create_case_length [OF io(1)] assms(2)
    by (auto simp: io(2) fd_opened_def quiet_io)
qed

lemma complain_quiet [yields]: "quiet t s \<Longrightarrow> yields t (\<lambda>t. t) (complain E str s)"
  unfolding complain_def by (intro yields)

lemma m_pipe_none: "m_pipe E s = (u, None) \<Longrightarrow> length (fds (k_io s)) = FD_MAX \<Longrightarrow> quiet s u"
proof -
  assume a: "m_pipe E s = (u, None)" and L: "length (fds (k_io s)) = FD_MAX"
  obtain io where io: "fd_pipe (k_io s) = (io, None)" "u = set_io E io s" using a by (auto simp: m_pipe_def split: prod.splits)
  from io(1) L show ?thesis by (cases rule: fd_pipe_cases) (simp_all add: io(2) quiet_io)
qed

lemma pipe_work:
  assumes ok: "fd_ok (k_io s)" and p: "m_pipe E s = (u, Some (rfd, wfd))"
    and q: "quiet u u1" "quiet (m_fd_close E (int wfd) u1) u2"
  shows "quiet s (m_fd_close E (int rfd) u2)"
proof -
  obtain io where io: "fd_pipe (k_io s) = (io, Some (rfd, wfd))" "u = set_io E io s"
    using p by (auto simp: m_pipe_def split: prod.splits)
  have L: "length (fds (k_io u)) = FD_MAX"
    using fd_pipe_ok [OF ok io(1)] by (simp add: io(2) fd_ok_def sizes_ok_def)
  have "quiet s (m_fd_close E (int rfd) (m_fd_close E (int wfd) u))"
    using fd_pipe_calm [OF ok io(1)] by (simp add: quiet_def m_fd_close_def io(2))
  also have "quiet (m_fd_close E (int rfd) (m_fd_close E (int wfd) u)) (m_fd_close E (int rfd) u2)"
  proof (rule m_fd_close_quiet)
    show "quiet (m_fd_close E (int wfd) u) u2" by (rule quiet_trans [OF m_fd_close_quiet [OF q(1) L] q(2)])
    show "length (fds (k_io (m_fd_close E (int wfd) u))) = FD_MAX" using L by (simp add: m_fd_close_def)
  qed
  finally show ?thesis .
qed

lemma m_pipe_vars: "m_pipe E s = (u, r) \<Longrightarrow> g_out_fd u = g_out_fd s \<and> g_in_fd u = g_in_fd s"
  by (auto simp: m_pipe_def split: prod.splits)

lemma m_fd_close_vars [simp]: "g_out_fd (m_fd_close E fd s) = g_out_fd s" "g_in_fd (m_fd_close E fd s) = g_in_fd s"
  by (simp_all add: m_fd_close_def)

lemma quiet_vars: "quiet s s' \<Longrightarrow> g_out_fd s' = g_out_fd s" "quiet s s' \<Longrightarrow> g_in_fd s' = g_in_fd s"
  by (simp_all add: quiet_def)

lemma quiet_length: "quiet s s' \<Longrightarrow> length (fds (k_io s')) = length (fds (k_io s))"
  using view_length [of "k_io s" "k_io s'"] by (simp add: quiet_def)

lemma run_redirect_quiet:
  assumes R: "no_programs E" and g: "g_out_fd s = -1"
  shows "yields s (\<lambda>t. t) (run_redirect E input pos s)"
proof (cases "length (fds (k_io s)) = FD_MAX")
  case L: True
  have work: "yields s (\<lambda>t. t) (do { (s, fd) \<leftarrow> m_create E right s;
      if fd < 0 then complain E str s else do { s \<leftarrow> run_to E fd left s; Some (m_present (m_fd_close E fd s)) } })" for left right str
  proof (rule yields_bind_any, clarify)
    fix u fd assume c: "m_create E right s = Some (u, fd)"
    show "yields s (\<lambda>t. t) (if fd < 0 then complain E str u else do { s \<leftarrow> run_to E fd left u; Some (m_present (m_fd_close E fd s)) })"
    proof (cases "fd < 0")
      case True
      then show ?thesis using m_create_held [OF c L] by (simp add: complain_quiet)
    next
      case False
      then have h: "fd_held E fd s u" using m_create_held [OF c L] by simp
      then have gu: "g_out_fd u = -1" using fd_held_vars g by simp
      have "yields s (\<lambda>t. t) (do { s \<leftarrow> run_to E fd left u; Some (m_present (m_fd_close E fd s)) })"
        by (rule fd_held_bind [OF h run_to_quiet [OF R gu]], rule yields_Some, rule quiet_steps,
            rule fd_held_close)
      with False show ?thesis by simp
    qed
  qed
  show ?thesis unfolding run_redirect_def Let_def by (intro yields_if complain_quiet quiet_self work)
qed (simp add: yields_def)

lemma run_pipe_quiet:
  assumes R: "no_programs E" and g: "g_out_fd s = -1" "g_in_fd s = -1" and ok: "fd_ok (k_io s)"
  shows "yields s (\<lambda>t. t) (run_pipe E input pos s)"
proof -
  have L: "length (fds (k_io s)) = FD_MAX" using ok by (simp add: fd_ok_def sizes_ok_def)
  have work: "yields s (\<lambda>t. t) (do { u \<leftarrow> run_to E (int w) left u; let u = m_fd_close E (int w) u in do {
      u \<leftarrow> run_from E (int r) right u; Some (m_present (m_fd_close E (int r) u)) } })"
    if p: "m_pipe E s = (u, Some (r, w))" for u r w left right
  proof (rule yields_bind_any, unfold Let_def, rule yields_bind_any, rule yields_Some, rule quiets)
    fix u1 u2 assume d: "run_to E (int w) left u = Some u1" "run_from E (int r) right (m_fd_close E (int w) u1) = Some u2"
    have Lu: "length (fds (k_io u)) = FD_MAX"
      using p fd_pipe_ok [OF ok] by (auto simp: m_pipe_def fd_ok_def sizes_ok_def split: prod.splits)
    have "g_out_fd u = -1" using m_pipe_vars [OF p] g by simp
    from yieldsD [OF run_to_quiet [OF R this] d(1) Lu] have q1: "quiet u u1" .
    then have "g_in_fd (m_fd_close E (int w) u1) = -1" using m_pipe_vars [OF p] g by (simp add: quiet_vars)
    from yieldsD [OF run_from_quiet [OF R this] d(2)] have q2: "quiet (m_fd_close E (int w) u1) u2"
      using quiet_length [OF q1] Lu by (simp add: m_fd_close_def)
    show "quiet s (m_fd_close E (int r) u2)" by (rule pipe_work [OF ok p q1 q2])
  qed
  have "yields s (\<lambda>t. t) (case m_pipe E s of (s, None) \<Rightarrow> complain E str s
      | (s, Some (rfd, wfd)) \<Rightarrow> do { s \<leftarrow> run_to E (int wfd) left s; let s = m_fd_close E (int wfd) s in do {
          s \<leftarrow> run_from E (int rfd) right s; Some (m_present (m_fd_close E (int rfd) s)) } })" for str left right
    using work m_pipe_none [OF _ L] by (auto split: prod.split option.split intro: complain_quiet)
  then show ?thesis unfolding run_pipe_def Let_def by (intro yields_if complain_quiet quiet_self)
qed

lemma m_create_ok: "m_create E path s = Some (u, fd) \<Longrightarrow> fd_ok (k_io s) \<Longrightarrow> fd_ok (k_io u)"
  by (auto simp: m_create_def dest: fd_create_case_ok)

lemma run_both_quiet:
  assumes R: "no_programs E" and g: "g_out_fd s = -1" "g_in_fd s = -1" and ok: "fd_ok (k_io s)"
  shows "yields s (\<lambda>t. t) (run_both E input pos s)"
proof -
  have L: "length (fds (k_io s)) = FD_MAX" using ok by (simp add: fd_ok_def sizes_ok_def)
  have work: "quiet u (m_fd_close E (int r) (v\<lparr>g_in_fd := -1, g_out_fd := -1\<rparr>))"
    if p: "m_pipe E u = (w, Some (r, wr))" and d: "run_to E (int wr) left w = Some u1"
      "dispatch E cmd2 ((m_fd_close E (int wr) u1)\<lparr>g_in_fd := int r, g_out_fd := f\<rparr>) = Some v"
      and u: "fd_ok (k_io u)" "g_out_fd u = -1" "g_in_fd u = -1" for u w r wr left u1 cmd2 f v
  proof -
    have Lw: "length (fds (k_io w)) = FD_MAX"
      using p fd_pipe_ok [OF u(1)] by (auto simp: m_pipe_def fd_ok_def sizes_ok_def split: prod.splits)
    have "g_out_fd w = -1" using m_pipe_vars [OF p] u by simp
    from yieldsD [OF run_to_quiet [OF R this] d(1) Lw] have q1: "quiet w u1" .
    let ?m = "m_fd_close E (int wr) u1"
    have "quiet (?m\<lparr>g_in_fd := int r, g_out_fd := f\<rparr>) v"
      using yieldsD [OF dispatch_quiet [OF R quiet_self] d(2)] quiet_length [OF q1] Lw by (simp add: m_fd_close_def)
    moreover have "g_out_fd ?m = -1" "g_in_fd ?m = -1" using q1 m_pipe_vars [OF p] u by (simp_all add: quiet_def)
    ultimately have "quiet ?m (v\<lparr>g_in_fd := -1, g_out_fd := -1\<rparr>)" by (simp add: quiet_def)
    then show ?thesis by (rule pipe_work [OF u(1) p q1])
  qed
  have create: "yields s (\<lambda>t. t) (if fd < 0 then complain E str u
      else case m_pipe E u of
        (s, None) \<Rightarrow> do { s \<leftarrow> say E str2 COL_ERR s; Some (m_present (m_fd_close E fd s)) }
      | (s, Some (rfd, wfd)) \<Rightarrow> do { s \<leftarrow> run_to E (int wfd) left s; let s = m_fd_close E (int wfd) s in do {
          s \<leftarrow> dispatch E cmd2 (s\<lparr>g_in_fd := int rfd, g_out_fd := fd\<rparr>);
          let s = m_fd_close E (int rfd) (s\<lparr>g_in_fd := -1, g_out_fd := -1\<rparr>) in
          Some (m_present (m_fd_close E fd s)) } })"
    if c: "m_create E fname s = Some (u, fd)" for u fd str str2 left cmd2 fname
  proof (cases "fd < 0")
    case True
    then show ?thesis using m_create_held [OF c L] by (simp add: complain_quiet)
  next
    case False
    then have h: "fd_held E fd s u" using m_create_held [OF c L] by simp
    have u: "fd_ok (k_io u)" "g_out_fd u = -1" "g_in_fd u = -1"
      using m_create_ok [OF c ok] fd_held_vars [OF h] g by simp_all
    have Lu: "length (fds (k_io u)) = FD_MAX" using h by (simp add: fd_held_def)
    have fin: "quiet s (m_present (m_fd_close E fd v))" if "quiet u v" for v
      by (intro quiets fd_held_close [OF fd_held_quiet [OF h that]])
    obtain w x where p: "m_pipe E u = (w, x)" by fastforce
    show ?thesis
    proof (cases x)
      case None
      have "yields s (\<lambda>t. t) (do { s \<leftarrow> say E str2 COL_ERR w; Some (m_present (m_fd_close E fd s)) })"
        by (rule yields_bind_any, rule yields_Some, rule fin)
          (erule yieldsD [OF say_quiet [OF m_pipe_none [OF p [unfolded None] Lu]] _ Lu])
      with False p None show ?thesis by simp
    next
      case (Some rw)
      obtain r wr where rw: "rw = (r, wr)" by fastforce
      have "quiet s (m_present (m_fd_close E fd (m_fd_close E (int r) (v\<lparr>g_in_fd := -1, g_out_fd := -1\<rparr>))))"
        if "run_to E (int wr) left w = Some u1" "dispatch E cmd2 ((m_fd_close E (int wr) u1)\<lparr>g_in_fd := int r, g_out_fd := fd\<rparr>) = Some v" for u1 v
        by (rule fin [OF work [OF p [unfolded Some rw] that u]])
      with False p Some rw show ?thesis by (auto simp: yields_def Option.bind_eq_Some_conv Let_def)
    qed
  qed
  show ?thesis unfolding run_both_def Let_def
    by (rule yields_bind_any, clarify) (rule create [unfolded Let_def], assumption)
qed

lemma run_pipeline_quiet:
  assumes R: "no_programs E" and g: "g_out_fd s = -1" "g_in_fd s = -1" and ok: "fd_ok (k_io s)"
  shows "yields s (\<lambda>t. t) (run_pipeline E input s)"
  unfolding run_pipeline_def Let_def
  by (intro yields_if dispatch_quiet run_redirect_quiet run_pipe_quiet run_both_quiet assms quiet_self)

subsection \<open>The shells\<close>

lemma quiet_polls [quiets]:
  assumes "quiet t s"
  shows "quiet t (s\<lparr>k_io := (k_io s)\<lparr>polls := ps\<rparr>\<rparr>)" "quiet t (s\<lparr>k_io := (k_io s)\<lparr>kbd_shift_down := k\<rparr>\<rparr>)"
    "quiet t (s\<lparr>k_io := (k_io s)\<lparr>polls := ps, kbd_shift_down := k\<rparr>\<rparr>)" "quiet t (s\<lparr>serial_line := l\<rparr>)"
proof -
  have "fd_calm (k_io s) ((k_io s)\<lparr>polls := ps\<rparr>)" "fd_calm (k_io s) ((k_io s)\<lparr>kbd_shift_down := k\<rparr>)"
    "fd_calm (k_io s) ((k_io s)\<lparr>polls := ps, kbd_shift_down := k\<rparr>)" by (rule fd_calm_fields; simp)+
  then have "quiet s (s\<lparr>k_io := (k_io s)\<lparr>polls := ps\<rparr>\<rparr>)" "quiet s (s\<lparr>k_io := (k_io s)\<lparr>kbd_shift_down := k\<rparr>\<rparr>)"
    "quiet s (s\<lparr>k_io := (k_io s)\<lparr>polls := ps, kbd_shift_down := k\<rparr>\<rparr>)" by (simp_all add: quiet_def)
  then show "quiet t (s\<lparr>k_io := (k_io s)\<lparr>polls := ps\<rparr>\<rparr>)" "quiet t (s\<lparr>k_io := (k_io s)\<lparr>kbd_shift_down := k\<rparr>\<rparr>)"
    "quiet t (s\<lparr>k_io := (k_io s)\<lparr>polls := ps, kbd_shift_down := k\<rparr>\<rparr>)" using quiet_trans [OF assms] by blast+
  show "quiet t (s\<lparr>serial_line := l\<rparr>)" by (rule quiet_same [OF _ _ _ assms]) simp_all
qed

lemma readline_loop_quiet: "quiet t s \<Longrightarrow> yields t fst (readline_loop E cap y ps pend buf x s)"
proof (induction ps arbitrary: pend buf x s)
  case (Cons p ps)
  show ?case
  proof (cases p)
    case (Serial_Byte b)
    then show ?thesis using Cons.prems by (auto intro!: Cons.IH quiets)
  next
    case (Scancode sc)
    obtain sh c where k: "read_key sc (kbd_shift_down (k_io s)) = (sh, c)" by fastforce
    have "quiet t (s\<lparr>k_io := (k_io s)\<lparr>kbd_shift_down := sh\<rparr>\<rparr>)" by (intro quiets Cons.prems)
    then show ?thesis using k Scancode by (auto simp: Let_def intro!: Cons.IH yields_Some quiets)
  qed
qed (simp add: yields_None)

lemma shell_readline_quiet [yields]: "quiet t s \<Longrightarrow> yields t fst (shell_readline E cap s)"
  unfolding shell_readline_def Let_def by (auto intro!: readline_loop_quiet quiets)

text \<open>Between two commands: the table is sound and nothing is redirected.\<close>

definition shell_idle :: "machine \<Rightarrow> bool" where
  "shell_idle s \<longleftrightarrow> fd_ok (k_io s) \<and> g_out_fd s = -1 \<and> g_in_fd s = -1"

lemma quiet_idle: "quiet s s' \<Longrightarrow> shell_idle s \<Longrightarrow> shell_idle s'"
  using fd_calm_ok [of "k_io s" "k_io s'"] by (simp add: quiet_def shell_idle_def)

lemma run_pipeline_idle: "no_programs E \<Longrightarrow> shell_idle s \<Longrightarrow> quiet t s \<Longrightarrow> yields t (\<lambda>t. t) (run_pipeline E input s)"
  unfolding shell_idle_def by (elim conjE) (rule yields_trans, assumption, rule run_pipeline_quiet)

lemma shell_turn_quiet:
  assumes "no_programs E" "shell_idle s"
  shows "yields s (\<lambda>t. t) (shell_turn E s)"
  unfolding shell_turn_def
  by (rule yields_bind_pair [OF shell_readline_quiet [OF quiet_self]], rule yields_bind,
      rule run_pipeline_idle [OF assms(1) quiet_idle [OF _ assms(2)]]) (auto intro: yields_Some quiets)

lemma shell_turns_quiet: "no_programs E \<Longrightarrow> shell_idle s \<Longrightarrow> yields s (\<lambda>t. t) (shell_turns n E s)"
proof (induction n arbitrary: s)
  case (Suc n)
  have "yields s (\<lambda>t. t) (shell_turns n E u)" if "quiet s u" for u
    by (rule yields_trans [OF that Suc.IH [OF Suc.prems(1) quiet_idle [OF that Suc.prems(2)]]])
  with shell_turn_quiet [OF Suc.prems] show ?case by (auto intro: yields_bind)
qed (auto intro: yields_Some)

lemma serial_shell_poll_quiet:
  assumes R: "no_programs E" and s: "shell_idle s"
  shows "yields s (\<lambda>t. t) (serial_shell_poll E c s)"
proof -
  have run: "yields s (\<lambda>t. t) (run_pipeline E buf (u\<lparr>g_serial_mode := True\<rparr>))" if "quiet s u" for buf u
  proof -
    have "quiet s (u\<lparr>g_serial_mode := True\<rparr>)" by (intro quiets that)
    from run_pipeline_idle [OF R quiet_idle [OF this s] this] show ?thesis .
  qed
  have after: "yields s (\<lambda>r. r\<lparr>g_serial_mode := b\<rparr>) x" if "yields s (\<lambda>t. t) x" for x :: "machine option" and b
    using that by (auto simp: yields_def intro: quiets)
  show ?thesis unfolding serial_shell_poll_def Let_def
    by (intro yields_if yields_bind yields_Some yields_map after run quiets quiet_self; assumption)
qed

end
