(* ===== verification/Shell_Pipe.thy ===== *)
theory Shell_Pipe
  imports Shell_Spec
begin

text \<open>
  Pipelines from end to end: nothing stays open after one, and \<^verbatim>\<open>echo text | cat\<close> prints the text, through the
  splitting of the line, the dispatcher, the pipe between the two commands and the descriptor table.
\<close>

subsection \<open>Taking a line apart\<close>

lemma find_op_at: "c \<notin> set a \<Longrightarrow> find_op (a @ c # b) c = int (length a)"
proof -
  assume "c \<notin> set a"
  then have "a ! i \<noteq> c" if "i < length a" for i using that nth_mem by blast
  then have "List.find (\<lambda>i. (a @ c # b) ! i = c) [0..<length (a @ c # b)] = Some (length a)"
    unfolding find_upt_Some_iff by (auto simp: nth_append)
  then show ?thesis by (simp add: find_op_def)
qed

lemma find_op_none: "c \<notin> set s \<Longrightarrow> find_op s c = -1"
  using find_op_spec [of s c] by auto

lemma trim_right_blank: "s \<noteq> [] \<Longrightarrow> List.last s \<noteq> 0x20 \<Longrightarrow> trim_right (s @ [0x20]) = s"
  by (cases s rule: rev_cases) (simp_all add: trim_right_def)

lemma bytes_echo: "bytes ''echo '' = [0x65, 0x63, 0x68, 0x6F, 0x20]" "bytes ''echo'' = [0x65, 0x63, 0x68, 0x6F]"
  "bytes '' | cat'' = [0x20, 0x7C, 0x20, 0x63, 0x61, 0x74]" "bytes ''cat'' = [0x63, 0x61, 0x74]"
  by code_simp+

lemma echo_names:
  "\<not> screen_only (bytes ''echo'')" "\<not> str_eq (bytes ''echo'') (bytes ''ls'')" "\<not> str_eq (bytes ''echo'') (bytes ''cd'')"
  "\<not> str_eq (bytes ''echo'') (bytes ''pwd'')" "\<not> str_eq (bytes ''echo'') (bytes ''mkdir'')"
  "\<not> str_eq (bytes ''echo'') (bytes ''touch'')" "\<not> str_eq (bytes ''echo'') (bytes ''rm'')"
  "\<not> str_eq (bytes ''echo'') (bytes ''rmdir'')" "\<not> str_eq (bytes ''echo'') (bytes ''cat'')"
  "str_eq (bytes ''echo'') (bytes ''echo'')"
  by code_simp+

lemma cat_names:
  "\<not> screen_only (bytes ''cat'')" "\<not> str_eq (bytes ''cat'') (bytes ''ls'')" "\<not> str_eq (bytes ''cat'') (bytes ''cd'')"
  "\<not> str_eq (bytes ''cat'') (bytes ''pwd'')" "\<not> str_eq (bytes ''cat'') (bytes ''mkdir'')"
  "\<not> str_eq (bytes ''cat'') (bytes ''touch'')" "\<not> str_eq (bytes ''cat'') (bytes ''rm'')"
  "\<not> str_eq (bytes ''cat'') (bytes ''rmdir'')" "str_eq (bytes ''cat'') (bytes ''cat'')"
  by code_simp+

lemma dispatch_echo: "dispatch E (bytes ''echo '' @ x) s = sh_echo E (Some x) s"
proof -
  have "split_cmd (bytes ''echo '' @ x) = (bytes ''echo'', Some x)"
    by (simp add: split_cmd_def bytes_echo Let_def)
  then show ?thesis by (simp add: dispatch_def echo_names) (simp add: bytes_echo)
qed

lemma dispatch_cat: "dispatch E (bytes ''cat'') s = sh_cat E None s"
proof -
  have "split_cmd (bytes ''cat'') = (bytes ''cat'', None)" by (simp add: split_cmd_def bytes_echo Let_def)
  then show ?thesis by (simp add: dispatch_def cat_names) (simp add: bytes_echo)
qed

lemma echo_cat_line:
  assumes "x \<noteq> []" "List.last x \<noteq> 0x20" "length x \<le> 100" "0x7C \<notin> set x" "0x3E \<notin> set x"
  shows "run_pipeline E (bytes ''echo '' @ x @ bytes '' | cat'') s =
    (case m_pipe E s of
       (s, None) \<Rightarrow> complain E ''pipe: failed'' s
     | (s, Some (rfd, wfd)) \<Rightarrow> do {
         s \<leftarrow> run_to E (int wfd) (bytes ''echo '' @ x) s;
         let s = m_fd_close E (int wfd) s in do {
         s \<leftarrow> run_from E (int rfd) (bytes ''cat'') s;
         Some (m_present (m_fd_close E (int rfd) s)) } })"
proof -
  let ?l = "bytes ''echo '' @ x @ bytes '' | cat''"
  let ?a = "bytes ''echo '' @ x @ [0x20]"
  have l: "?l = ?a @ 0x7C # [0x20, 0x63, 0x61, 0x74]" by (simp add: bytes_echo)
  have p: "find_op ?l 0x7C = int (length ?a)" unfolding l by (rule find_op_at) (use assms in \<open>auto simp: bytes_echo\<close>)
  have r: "find_op ?l 0x3E = -1" by (rule find_op_none) (use assms in \<open>auto simp: bytes_echo\<close>)
  have left: "left_part ?l (int (length ?a)) = bytes ''echo '' @ x"
  proof -
    have len: "length ?a \<le> 255" using assms(3) by (simp add: bytes_echo)
    have "take (min (nat (int (length ?a))) 255) ?l = ?a"
      unfolding l nat_int min_absorb1 [OF len] by (simp del: append_assoc add: take_append [of _ ?a])
    then show ?thesis using trim_right_blank [of "bytes ''echo '' @ x"] assms(1,2) by (simp add: left_part_def)
  qed
  have right: "right_part ?l (int (length ?a)) = bytes ''cat''"
  proof -
    have "drop (nat (int (length ?a) + 1)) ?l = [0x20, 0x63, 0x61, 0x74]"
      unfolding l using drop_append [of "length ?a + 1" ?a] by (simp add: nat_add_distrib del: append_assoc)
    then show ?thesis by (simp add: right_part_def bytes_echo)
  qed
  have "bytes ''echo '' \<noteq> []" "bytes ''cat'' \<noteq> []" by (simp_all add: bytes_echo)
  then show ?thesis unfolding run_pipeline_def Let_def p r run_pipe_def left right by simp
qed

subsection \<open>The pipe between two commands\<close>

lemma com1_frame [simp]: "com1 (set_fd i d s) = com1 s" "com1 (upd_pipe k h s) = com1 s"
  by (simp_all add: set_fd_def upd_pipe_def)

lemma fd_close_frame [simp]: "com1 (fd_close fd s) = com1 s" "waiting (fd_close fd s) p = waiting s p"
proof -
  have w: "waiting (upd_pipe k f s) p = waiting s p" if "\<And>q. pipe_live (f q) = pipe_live q" for k f s
    using that by (cases "k < length (pipes s)") (auto simp: waiting_def upd_pipe_def nth_list_update list_update_beyond)
  have l: "pipe_live (q\<lparr>write_closed := b\<rparr>) = pipe_live q" "pipe_live (q\<lparr>p_used := c\<rparr>) = pipe_live q" for q b c
    by (simp_all add: pipe_live_def)
  have f: "waiting (set_fd i d s) p = waiting s p" "waiting (s\<lparr>vol := v\<rparr>) p = waiting s p" for i d s v
    by (simp_all add: waiting_def set_fd_def)
  show "com1 (fd_close fd s) = com1 s" by (simp add: fd_close_def Let_def)
  show "waiting (fd_close fd s) p = waiting s p" by (simp add: fd_close_def Let_def w l f)
qed

lemma fd_close_fds: "fds (fd_close fd s) = (if fd_bad fd s then fds s else (fds s)[nat fd := fd_none])"
  by (simp add: fd_close_def Let_def set_fd_def)

lemma pipe_write_com1: "holder s FD_PIPE_WRITE p w \<Longrightarrow> fd_write (int w) src s = Some (s', n) \<Longrightarrow> com1 s' = com1 s"
  using holder_fd [of s FD_PIPE_WRITE p w] by (auto simp: fd_write_def Let_def case_prod_unfold split: if_splits)

lemma pipe_read_com1: "holder s FD_PIPE_READ p r \<Longrightarrow> fd_read (int r) sz s = Some (s', n, out) \<Longrightarrow> com1 s' = com1 s"
  using holder_fd [of s FD_PIPE_READ p r] by (auto simp: fd_read_def Let_def case_prod_unfold split: if_splits)

text \<open>Two writes fill the pipe with a line.\<close>

lemma puts_to_pipe:
  assumes ok: "fd_ok (k_io s)" and h: "holder (k_io s) FD_PIPE_WRITE p w" and e: "waiting (k_io s) p = []" "length x \<le> 100"
    and g: "g_out_fd s = int w"
  obtains io where "shell_puts E x color s = Some (set_io E io s)" "fd_ok io" "fds io = fds (k_io s)" "com1 io = com1 (k_io s)"
    "waiting io p = x @ [0x0A]"
proof -
  obtain io1 where io1: "fd_write (int w) x (k_io s) = Some (io1, int (min (length x) (PIPE_BUF - length (waiting (k_io s) p))))"
    "fds io1 = fds (k_io s)" "waiting io1 p = waiting (k_io s) p @ take (PIPE_BUF - length (waiting (k_io s) p)) x" "fd_ok io1"
    by (rule pipe_write_spec [OF ok h, of x])
  have 1: "fd_write (int w) x (k_io s) = Some (io1, int (length x))" "fds io1 = fds (k_io s)" "waiting io1 p = x" "fd_ok io1"
    using io1 e by (simp_all add: PIPE_BUF_def)
  have h1: "holder io1 FD_PIPE_WRITE p w" using h holder_cong [OF 1(2)] by simp
  obtain io2 where io2: "fd_write (int w) [0x0A] io1 = Some (io2, int (min (length [0x0A :: u8]) (PIPE_BUF - length (waiting io1 p))))"
    "fds io2 = fds io1" "waiting io2 p = waiting io1 p @ take (PIPE_BUF - length (waiting io1 p)) [0x0A]" "fd_ok io2"
    by (rule pipe_write_spec [OF 1(4) h1, of "[0x0A]"])
  have 2: "fd_write (int w) [0x0A] io1 = Some (io2, 1)" "fds io2 = fds io1" "waiting io2 p = x @ [0x0A]" "fd_ok io2"
    using io2 1(3) e(2) by (simp_all add: PIPE_BUF_def take_Cons')
  show ?thesis
  proof
    show "shell_puts E x color s = Some (set_io E io2 s)" using g 1(1) 2(1) by (simp add: shell_puts_def)
    show "com1 io2 = com1 (k_io s)" using pipe_write_com1 [OF h 1(1)] pipe_write_com1 [OF h1 2(1)] by simp
  qed (use 1 2 in simp_all)
qed

text \<open>\<^verbatim>\<open>cat\<close> takes one line out of the pipe, shows it and finds the pipe empty.\<close>

lemma cat_from_pipe:
  assumes ok: "fd_ok (k_io s)" and h: "holder (k_io s) FD_PIPE_READ p r" and e: "waiting (k_io s) p = str" "str \<noteq> []" "length str \<le> 511"
    "0 \<notin> set str" and g: "g_in_fd s = int r" "g_out_fd s = -1"
  obtains s' where "cat_in E s = Some s'" "com1 (k_io s') = serial_puts str (com1 (k_io s))" "fds (k_io s') = fds (k_io s)"
    "g_in_fd s' = g_in_fd s" "g_out_fd s' = -1"
proof -
  obtain io1 where io1: "fd_read (int r) 511 (k_io s) = Some (io1, int (min (unat (511 :: u32)) (length (waiting (k_io s) p))), take (unat (511 :: u32)) (waiting (k_io s) p))"
    "fds io1 = fds (k_io s)" "waiting io1 p = drop (unat (511 :: u32)) (waiting (k_io s) p)" "fd_ok io1"
    by (rule pipe_read_spec [OF ok h, of 511])
  have 1: "fd_read (int r) 511 (k_io s) = Some (io1, int (length str), str)" "fds io1 = fds (k_io s)" "waiting io1 p = []" "fd_ok io1"
    using io1 e by simp_all
  let ?s1 = "set_io E io1 s"
  let ?s2 = "k_puts_bytes str (if g_serial_mode s then ?s1 else m_draw (\<lambda>scr. print (e_font E) str COL_FG (clear_if_full scr)) ?s1)"
  have c: "cstr str = str" using e(4) by (auto simp: cstr_def takeWhile_eq_all_conv)
  have p2: "shell_puts E str COL_FG ?s1 = Some ?s2" using g(2) by (simp add: shell_puts_def set_io_def)
  have io2: "k_io ?s2 = io1\<lparr>com1 := serial_puts str (com1 io1)\<rparr>" by (simp add: k_puts_bytes_def)
  have h2: "holder (k_io ?s2) FD_PIPE_READ p r" using h by (simp add: io2 holder_def 1(2))
  have "waiting (k_io ?s2) p = []" "fd_ok (k_io ?s2)" using 1(3,4) fd_ok_com1 by (simp_all add: io2 waiting_def)
  then obtain io3 where 3: "fd_read (int r) 511 (k_io ?s2) = Some (io3, 0, [])" "fds io3 = fds (k_io ?s2)"
    by (elim pipe_read_spec [OF _ h2, of 511]) simp
  show ?thesis
  proof
    have "0 < int (length str)" using e(2) by simp
    moreover have "g_in_fd ?s2 = int r" using g(1) by simp
    moreover have "cat_in E ?s2 = Some (set_io E io3 ?s2)"
      using 3(1) \<open>g_in_fd ?s2 = int r\<close> by (subst cat_in.simps) simp
    ultimately show "cat_in E s = Some (set_io E io3 ?s2)"
      using 1(1) p2 g(1) by (subst cat_in.simps) (simp add: c)
    show "com1 (k_io (set_io E io3 ?s2)) = serial_puts str (com1 (k_io s))"
      using pipe_read_com1 [OF h2 3(1)] pipe_read_com1 [OF h 1(1)] by (simp add: io2)
    show "fds (k_io (set_io E io3 ?s2)) = fds (k_io s)" using 3(2) 1(2) by (simp add: io2)
  qed (use g in simp_all)
qed

text \<open>The whole line.\<close>

lemma echo_cat_contract:
  assumes s: "shell_idle s" and room: "fd_pipe (k_io s) = (io, Some (r, w))"
    and x: "x \<noteq> []" "List.last x \<noteq> 0x20" "length x \<le> 100" "0 \<notin> set x" "0x7C \<notin> set x" "0x3E \<notin> set x"
  shows "\<exists>s'. run_pipeline E (bytes ''echo '' @ x @ bytes '' | cat'') s = Some s'
    \<and> com1 (k_io s') = serial_puts (x @ [0x0A]) (com1 (k_io s))"
proof -
  have ok: "fd_ok (k_io s)" and g: "g_out_fd s = -1" "g_in_fd s = -1" using s by (simp_all add: shell_idle_def)
  from fd_pipe_fresh [OF ok room] obtain p where p: "holder io FD_PIPE_READ p r" "holder io FD_PIPE_WRITE p w"
    "waiting io p = []" "fd_ok io" "r < w" .
  have com: "com1 io = com1 (k_io s)" using room by (auto simp: fd_pipe_def Let_def split: option.splits)
  have L: "length (fds io) = FD_MAX" using p(4) by (simp add: fd_ok_def sizes_ok_def)
  let ?u = "(set_io E io s)\<lparr>g_out_fd := int w\<rparr>"
  have iu: "k_io ?u = io" by simp
  obtain io1 where 1: "shell_puts E x COL_FG ?u = Some (set_io E io1 ?u)" "fd_ok io1" "fds io1 = fds (k_io ?u)" "com1 io1 = com1 (k_io ?u)"
    "waiting io1 p = x @ [0x0A]"
    by (rule puts_to_pipe [of ?u p w x E COL_FG]) (use p x in \<open>simp_all add: iu\<close>)
  define u1 where "u1 = m_fd_close E (int w) ((m_present (set_io E io1 ?u))\<lparr>g_out_fd := -1\<rparr>)"
  have echo: "run_to E (int w) (bytes ''echo '' @ x) (set_io E io s) = Some ((m_present (set_io E io1 ?u))\<lparr>g_out_fd := -1\<rparr>)"
    using 1(1) by (simp add: run_to_def dispatch_echo sh_echo_def)
  have u1: "k_io u1 = fd_close (int w) io1" "g_out_fd u1 = -1" "g_in_fd u1 = -1"
    using g by (simp_all add: u1_def m_fd_close_def m_present_def)
  have "\<not> fd_bad (int w) io1" using holder_fd [OF p(2)] 1(3) by (simp add: fd_bad_def)
  then have f1: "fds (k_io u1) = (fds io)[w := fd_none]" using 1(3) by (simp add: u1(1) fd_close_fds)
  let ?v = "u1\<lparr>g_in_fd := int r\<rparr>"
  have hr: "holder (k_io ?v) FD_PIPE_READ p r" using p(1,5) by (simp add: holder_def f1)
  have wv: "waiting (k_io ?v) p = x @ [0x0A]" using 1(5) by (simp add: u1(1))
  have okv: "fd_ok (k_io ?v)" using fd_close_ok [OF 1(2)] by (simp add: u1(1))
  obtain v where v: "cat_in E ?v = Some v" "com1 (k_io v) = serial_puts (x @ [0x0A]) (com1 (k_io ?v))"
    by (rule cat_from_pipe [OF okv hr wv, of E]) (use x u1 in simp_all)
  have cat: "run_from E (int r) (bytes ''cat'') u1 = Some ((m_present v)\<lparr>g_in_fd := -1\<rparr>)"
    using v(1) by (simp add: run_from_def dispatch_cat sh_cat_def no_args_def)
  have "m_pipe E s = (set_io E io s, Some (r, w))" by (simp add: m_pipe_def room)
  then have "run_pipeline E (bytes ''echo '' @ x @ bytes '' | cat'') s
      = Some (m_present (m_fd_close E (int r) ((m_present v)\<lparr>g_in_fd := -1\<rparr>)))"
    unfolding echo_cat_line [OF x(1,2,3,5,6)] by (simp add: echo cat u1_def [symmetric])
  moreover have "com1 (k_io (m_present (m_fd_close E (int r) ((m_present v)\<lparr>g_in_fd := -1\<rparr>)))) = serial_puts (x @ [0x0A]) (com1 (k_io s))"
    using v(2) 1(4) com by (simp add: m_present_def m_fd_close_def u1(1))
  ultimately show ?thesis by blast
qed

subsection \<open>The theorems\<close>

lemma tiny_idle: "shell_idle machine_tiny"
  using fd_init_ok [OF io0_booted] by (simp add: shell_idle_def machine_tiny_def)

lemma tiny_room: "fd_pipe (k_io machine_tiny) = (io_piped, Some (3, 4))"
  using io_piped_pair by (simp add: machine_tiny_def)

definition env_idle :: env where
  "env_idle = env_tiny\<lparr>e_ring3 := (\<lambda>_ _ _. None)\<rparr>"

lemma idle_programs: "no_programs env_idle"
  by (simp add: no_programs_def env_idle_def)

text \<open>C2. No command line that starts no program leaks anything: when the shell, with nothing redirected and a sound
  descriptor table, has run such a line, be it a command, a redirection into a file, a pipe or both, whether it
  succeeds or gives up half way, loading a program that fails to load included, on a working disk or not, the same
  descriptors are in use for the same things as before, the same pipes are in use, the same files are open, nothing
  is redirected any more, and the table is still sound. Lines that do start a program are left out (\<open>no_programs\<close>:
  none comes back), because the kernel does not close what a program leaves open.\<close>

theorem pipeline_leaks_nothing:
  assumes "no_programs E" and "shell_idle s" and "run_pipeline E input s = Some s'"
  shows "shell_idle s' \<and> fd_view (k_io s') = fd_view (k_io s) \<and> pipe_view (k_io s') = pipe_view (k_io s)
    \<and> used_fds (k_vol s') = used_fds (k_vol s)"
proof -
  have "length (fds (k_io s)) = FD_MAX" using assms(2) by (simp add: shell_idle_def fd_ok_def sizes_ok_def)
  from yieldsD [OF run_pipeline_idle [OF assms(1,2) quiet_self] assms(3) this] have q: "quiet s s'" .
  then show ?thesis using quiet_idle [OF q assms(2)] by (simp add: quiet_def fd_calm_def k_vol_def)
qed

lemma pipeline_leaks_nothing_witness:
  "\<exists>s'. run_pipeline env_idle (bytes ''echo '' @ [0x78] @ bytes '' | cat'') machine_tiny = Some s'
    \<and> fd_view (k_io s') = fd_view (k_io machine_tiny) \<and> pipe_view (k_io s') = pipe_view (k_io machine_tiny)"
proof -
  from echo_cat_contract [OF tiny_idle tiny_room, of "[0x78]" env_idle]
  obtain s' where "run_pipeline env_idle (bytes ''echo '' @ [0x78] @ bytes '' | cat'') machine_tiny = Some s'" by auto
  with pipeline_leaks_nothing [OF idle_programs tiny_idle this] show ?thesis by blast
qed

text \<open>What the serial port gets for a text: a carriage return before each line feed.\<close>

definition crlf :: "u8 list \<Rightarrow> u8 list" where
  "crlf str = concat (map (\<lambda>c. if c = 0x0A then [0x0D, 0x0A] else [c]) str)"

lemma serial_puts_crlf: "0 \<notin> set str \<Longrightarrow> serial_puts str sent = sent @ crlf str @ [0x0D, 0x0A]"
proof -
  assume z: "0 \<notin> set str"
  have "fold serial_putc str sent = sent @ crlf str"
    by (induction str arbitrary: sent) (simp_all add: serial_putc_def crlf_def)
  moreover have "cstr str = str" using z by (auto simp: cstr_def takeWhile_eq_all_conv)
  ultimately show ?thesis by (simp add: serial_puts_def serial_putc_def)
qed

text \<open>C8. \<^verbatim>\<open>echo text | cat\<close> sends exactly the text and two line ends to the serial port, for every text of at most 100
  bytes without a bar or an angle bracket that does not end in a blank, as long as a pipe and two descriptors
  are free: the line is taken apart at the bar, each command finds its redirection, and what goes into the pipe comes
  out of it, once and in order. (The first line end is the one \<^verbatim>\<open>echo\<close> puts after its text, the second the one
  that \<^verbatim>\<open>serial_puts\<close> adds to whatever it prints; every line feed, those in the text included, goes out with a
  carriage return before it.)\<close>

theorem echo_pipe_cat:
  assumes "shell_idle s" and "fd_pipe (k_io s) = (io, Some (r, w))"
    and "x \<noteq> []" and "List.last x \<noteq> 0x20" and "length x \<le> 100" and "set x \<inter> {0, 0x7C, 0x3E} = {}"
  shows "\<exists>s'. run_pipeline E (bytes ''echo '' @ x @ bytes '' | cat'') s = Some s'
    \<and> com1 (k_io s') = com1 (k_io s) @ concat (map (\<lambda>c. if c = 0x0A then [0x0D, 0x0A] else [c]) x) @ [0x0D, 0x0A, 0x0D, 0x0A]"
proof -
  have x: "0 \<notin> set x" "0x7C \<notin> set x" "0x3E \<notin> set x" using assms(6) by auto
  then have "serial_puts (x @ [0x0A]) sent = sent @ crlf x @ [0x0D, 0x0A, 0x0D, 0x0A]" for sent
    using serial_puts_crlf [of "x @ [0x0A]" sent] by (simp add: crlf_def)
  with echo_cat_contract [OF assms(1-5) x, of E] show ?thesis by (simp add: crlf_def)
qed

lemma echo_pipe_cat_witness:
  "\<exists>s'. run_pipeline env_tiny (bytes ''echo '' @ [0x68, 0x69] @ bytes '' | cat'') machine_tiny = Some s'
    \<and> com1 (k_io s') = com1 (k_io machine_tiny) @ [0x68, 0x69, 0x0D, 0x0A, 0x0D, 0x0A]"
  using echo_pipe_cat [OF tiny_idle tiny_room, of "[0x68, 0x69]" env_tiny] by simp

text \<open>With both operators, the bar is looked for first: a redirection of the first command takes the second command
  for the name of its file.\<close>

lemma redirect_before_pipe:
  "right_part (bytes ''a > f | cat'') (find_op (bytes ''a > f | cat'') 0x7C) = bytes ''cat''
   \<and> find_op (bytes ''cat'') 0x3E = -1 \<and> right_part (bytes ''cat'') (-1) = bytes ''cat'' \<and> left_part (bytes ''cat'') (-1) = []"
  by code_simp

end
