(* ===== verification/Kernel_Calls.thy ===== *)
theory Kernel_Calls
  imports Shell_Pipe
begin

text \<open>
  System calls of the kernel as it runs, with the serial shell behind the call that waits for a key: the descriptor
  table stays sound whatever is typed there meanwhile, also when the program's own output is redirected.
\<close>

subsection \<open>Command lines keep the descriptor table\<close>

lemma m_present_io [simp]: "k_io (m_present s) = k_io s"
  by (simp add: m_present_def)

lemma m_fd_close_ok: "fd_ok (k_io s) \<Longrightarrow> fd_ok (k_io (m_fd_close E fd s))"
  by (simp add: m_fd_close_def fd_close_ok)

lemma m_pipe_ok: "m_pipe E s = (s', r) \<Longrightarrow> fd_ok (k_io s) \<Longrightarrow> fd_ok (k_io s')"
  by (auto simp: m_pipe_def split: prod.splits dest: fd_pipe_ok)

lemma yields_ok:
  assumes "yields s (\<lambda>t. t) x" "x = Some s'" "fd_ok (k_io s)"
  shows "fd_ok (k_io s')"
proof -
  have "length (fds (k_io s)) = FD_MAX" using assms(3) by (simp add: fd_ok_def sizes_ok_def)
  from yieldsD [OF assms(1,2) this] fd_calm_ok [of "k_io s" "k_io s'"] assms(3) show ?thesis by (simp add: quiet_def)
qed

lemma dispatch_ok: "no_programs E \<Longrightarrow> dispatch E cmd s = Some s' \<Longrightarrow> fd_ok (k_io s) \<Longrightarrow> fd_ok (k_io s')"
  by (rule yields_ok [OF dispatch_quiet [OF _ quiet_self]])

lemma complain_ok: "complain E str s = Some s' \<Longrightarrow> fd_ok (k_io s) \<Longrightarrow> fd_ok (k_io s')"
  by (rule yields_ok [OF complain_quiet [OF quiet_self]])

lemma say_ok: "say E str col s = Some s' \<Longrightarrow> fd_ok (k_io s) \<Longrightarrow> fd_ok (k_io s')"
  by (rule yields_ok [OF say_quiet [OF quiet_self]])

lemma run_to_ok: "no_programs E \<Longrightarrow> run_to E fd cmd s = Some s' \<Longrightarrow> fd_ok (k_io s) \<Longrightarrow> fd_ok (k_io s')"
  by (auto simp: run_to_def Option.bind_eq_Some_conv dest: dispatch_ok)

lemma run_from_ok: "no_programs E \<Longrightarrow> run_from E fd cmd s = Some s' \<Longrightarrow> fd_ok (k_io s) \<Longrightarrow> fd_ok (k_io s')"
  by (auto simp: run_from_def Option.bind_eq_Some_conv dest: dispatch_ok)

lemma run_redirect_ok:
  assumes "no_programs E" "run_redirect E input pos s = Some s'" "fd_ok (k_io s)"
  shows "fd_ok (k_io s')"
  using assms(2,3) unfolding run_redirect_def Let_def
  by (auto simp: Option.bind_eq_Some_conv split: if_splits prod.splits intro!: m_fd_close_ok
      dest: complain_ok run_to_ok [OF assms(1)] m_create_ok)

lemma run_pipe_ok:
  assumes "no_programs E" "run_pipe E input pos s = Some s'" "fd_ok (k_io s)"
  shows "fd_ok (k_io s')"
  using assms(2,3) unfolding run_pipe_def Let_def
  by (auto simp: Option.bind_eq_Some_conv split: if_splits prod.splits option.splits intro!: m_fd_close_ok
      dest!: complain_ok run_to_ok [OF assms(1)] run_from_ok [OF assms(1)] dest: m_pipe_ok intro: m_fd_close_ok)

lemma run_both_ok:
  assumes P: "no_programs E" and r: "run_both E input pos s = Some s'" and ok: "fd_ok (k_io s)"
  shows "fd_ok (k_io s')"
proof -
  obtain u fd where c: "m_create E (right_part (right_part input pos) (find_op (right_part input pos) 0x3E)) s = Some (u, fd)"
    using r by (auto simp: run_both_def Let_def Option.bind_eq_Some_conv)
  have u: "fd_ok (k_io u)" by (rule m_create_ok [OF c ok])
  obtain w x where p: "m_pipe E u = (w, x)" by fastforce
  have w: "fd_ok (k_io w)" by (rule m_pipe_ok [OF p u])
  have last: "fd_ok (k_io v)" if "dispatch E cmd ((m_fd_close E i u1)\<lparr>g_in_fd := a, g_out_fd := b\<rparr>) = Some v" "fd_ok (k_io u1)" for cmd i u1 a b v
    using dispatch_ok [OF P that(1)] m_fd_close_ok [OF that(2)] by simp
  show ?thesis
  proof (cases "fd < 0")
    case True
    then show ?thesis using r c u by (auto simp: run_both_def Let_def dest: complain_ok)
  next
    case False
    then show ?thesis
    proof (cases x)
      case None
      with False r c p w show ?thesis
        by (auto simp: run_both_def Let_def Option.bind_eq_Some_conv intro!: m_fd_close_ok dest: say_ok)
    next
      case (Some q)
      obtain i j where q: "q = (i, j)" by fastforce
      from False r c p Some q obtain u1 v cmd where
        d: "run_to E (int j) (left_part input pos) w = Some u1"
          "dispatch E cmd ((m_fd_close E (int j) u1)\<lparr>g_in_fd := int i, g_out_fd := fd\<rparr>) = Some v"
          "s' = m_present (m_fd_close E fd (m_fd_close E (int i) (v\<lparr>g_in_fd := -1, g_out_fd := -1\<rparr>)))"
        by (auto simp: run_both_def Let_def Option.bind_eq_Some_conv)
      have "fd_ok (k_io v)" by (rule last [OF d(2) run_to_ok [OF P d(1) w]])
      then show ?thesis by (simp add: d(3) m_fd_close_ok)
    qed
  qed
qed

lemma run_pipeline_ok:
  assumes "no_programs E" "run_pipeline E input s = Some s'" "fd_ok (k_io s)"
  shows "fd_ok (k_io s')"
  using assms by (auto simp: run_pipeline_def Let_def split: if_splits
      intro: dispatch_ok run_redirect_ok run_pipe_ok run_both_ok)

lemma serial_shell_poll_ok:
  assumes P: "no_programs E"
  shows "keeps_fd_ok (serial_shell_poll E c)"
  unfolding keeps_fd_ok_def
proof (intro allI impI)
  fix s s' assume ok: "fd_ok (k_io s)" and r: "serial_shell_poll E c s = Some s'"
  have line: "fd_ok (k_io t)" if "run_pipeline E buf (u\<lparr>g_serial_mode := True\<rparr>) = Some t" "fd_ok (k_io u)" for buf u t
    using run_pipeline_ok [OF P that(1)] that(2) by simp
  show "fd_ok (k_io s')"
    using r ok by (auto simp: serial_shell_poll_def Let_def Option.bind_eq_Some_conv split: if_splits
        intro!: fd_ok_log elim!: line)
qed

subsection \<open>The theorem\<close>

text \<open>C7. No system call breaks the descriptor table of the running kernel: if every open pipe end and every open file
  belongs to exactly one descriptor before the call, this holds after it, whatever the arguments, on a working disk
  or not, for the calls that list, make and remove directories, delete files and load a program included, and for the call
  that waits for a key with whatever command lines the serial shell runs meanwhile, redirections and pipes among them,
  also inside a redirection. What is left out is a program that a call or such a line starts: it makes system calls of
  its own, and \<open>no_programs\<close> says that it does not come back.\<close>

theorem syscall_fd_invariant:
  assumes "no_programs E" and "fd_ok (k_io s)" and "kernel_syscall E num a b c d s = Some (s', e)"
  shows "fd_ok (k_io s')"
proof -
  have "keeps_fd_ok (e_ring3 E entry esp)" for entry esp using assms(1) by (simp add: keeps_fd_ok_def no_programs_def)
  from syscall_keeps_fd_ok [OF assms(2) assms(3) [unfolded kernel_syscall_def] this serial_shell_poll_ok [OF assms(1)]]
  show ?thesis .
qed

text \<open>Waiting for a key while a byte arrives for the serial shell.\<close>

definition machine_typed :: machine where
  "machine_typed = machine_tiny\<lparr>k_io := (k_io machine_tiny)\<lparr>polls := [Serial_Byte 0x61, Scancode 0x1E]\<rparr>\<rparr>"

lemma read_key_turn:
  "polls (k_io s) = Serial_Byte b # ps \<Longrightarrow> poll b (s\<lparr>k_io := (k_io s)\<lparr>polls := ps\<rparr>\<rparr>) = Some t \<Longrightarrow>
     sys_read_key poll s = sys_read_key poll (m_update_cursor t)"
  "polls (k_io s) = Scancode sc # ps \<Longrightarrow> read_key sc (kbd_shift_down (k_io s)) = (sh, k) \<Longrightarrow> k \<noteq> 0 \<Longrightarrow>
     sys_read_key poll s = Some (s\<lparr>k_io := (k_io s)\<lparr>polls := ps, kbd_shift_down := sh\<rparr>\<rparr>, Ret (ucast k))"
  by (subst sys_read_key.simps, simp add: Let_def ret_def)+

lemma serial_line_frames [simp]: "serial_line (m_update_cursor s) = serial_line s" "serial_line (k_putc c s) = serial_line s"
  by (simp_all add: m_update_cursor_def k_putc_def split: prod.split)

lemma syscall_fd_invariant_witness:
  "\<exists>s'. kernel_syscall env_idle 6 0 0 0 0 machine_typed = Some (s', Ret 0x61) \<and> serial_line s' = [0x61] \<and> fd_ok (k_io s')"
proof -
  have key: "read_key 0x1E 0 = (0, 0x61)" by code_simp
  let ?s = "machine_typed\<lparr>k_io := (k_io machine_typed)\<lparr>polls := [Scancode 0x1E]\<rparr>\<rparr>"
  define t where "t = m_update_cursor ((k_putc 0x61 ?s)\<lparr>serial_line := [0x61]\<rparr>)"
  have "serial_shell_poll env_idle 0x61 ?s = Some ((k_putc 0x61 ?s)\<lparr>serial_line := [0x61]\<rparr>)"
    by (simp add: serial_shell_poll_def Let_def machine_typed_def machine_tiny_def)
  then have 1: "sys_read_key (serial_shell_poll env_idle) machine_typed = sys_read_key (serial_shell_poll env_idle) t"
    unfolding t_def by (intro read_key_turn(1)) (simp_all add: machine_typed_def)
  have io: "polls (k_io t) = [Scancode 0x1E]" "kbd_shift_down (k_io t) = 0" "serial_line t = [0x61]"
    by (simp_all add: t_def machine_typed_def machine_tiny_def k_putc_def fd_init_def io0_def)
  have "sys_read_key (serial_shell_poll env_idle) t = Some (t\<lparr>k_io := (k_io t)\<lparr>polls := [], kbd_shift_down := 0\<rparr>\<rparr>, Ret (ucast (0x61 :: u8)))"
    using read_key_turn(2) [where s = t and sc = "0x1E" and ps = "[]" and sh = 0 and k = "0x61"] key by (simp only: io) simp
  with 1 io(3) obtain s' where r: "kernel_syscall env_idle 6 0 0 0 0 machine_typed = Some (s', Ret 0x61)" "serial_line s' = [0x61]"
    by (auto simp: kernel_syscall_def syscall_handler_def)
  have "fd_ok (k_io machine_typed)"
    using fd_ok_polls(1) fd_init_ok [OF io0_booted] by (simp add: machine_typed_def machine_tiny_def)
  from syscall_fd_invariant [OF idle_programs this r(1)] r show ?thesis by blast
qed

end
