(* ===== verification/Boot.thy ===== *)
theory Boot
  imports Shell_Spec Memory_Layout Ata
begin

text \<open>
  \<^verbatim>\<open>kernel/kernel.cpp\<close>, \<^verbatim>\<open>kernel/system/stack.hpp\<close>, \<^verbatim>\<open>kernel/system/idt/idt.hpp\<close> and \<^verbatim>\<open>syscall_init\<close> of
  \<^verbatim>\<open>kernel/system/syscall/syscall.cpp\<close>: the kernel's way from the boot loader to the shell. The initialisation of
  every component runs in the order of \<^verbatim>\<open>kernel_main\<close> on one machine, self tests included. What the boot loader
  leaves is an argument: the memory map and the address of the framebuffer; so is what the static variables hold. The
  descriptor tables that only assembly code writes are the list of the calls of \<^verbatim>\<open>idt_set_gate\<close>. \<open>None\<close> is a halt or a
  wait for the mouse that does not end.
\<close>

subsection \<open>Interrupt gates\<close>

record idt_gate =
  gate_num :: nat
  gate_handler :: string
  gate_selector :: u16
  gate_flags :: u8

definition idt_set_gate :: "nat \<Rightarrow> string \<Rightarrow> u16 \<Rightarrow> u8 \<Rightarrow> idt_gate list \<Rightarrow> idt_gate list" where
  "idt_set_gate num handler selector flags gs =
     gs @ [\<lparr>gate_num = num, gate_handler = handler, gate_selector = selector, gate_flags = flags\<rparr>]"

definition idt_init :: "idt_gate list \<Rightarrow> idt_gate list" where
  "idt_init gs =
     fold (\<lambda>(num, handler). idt_set_gate num handler 0x08 0x8E)
       [(0, ''exception_divide_zero''), (4, ''exception_overflow''), (6, ''exception_invalid_op''),
        (7, ''exception_no_fpu''), (8, ''exception_double_fault''), (12, ''exception_stack_fault''),
        (13, ''exception_gpf''), (14, ''exception_page_fault''), (0x20, ''timer_handler''),
        (0x21, ''kbd_handler''), (0x2C, ''mouse_irq'')] gs"

definition syscall_init :: "idt_gate list \<Rightarrow> idt_gate list" where
  "syscall_init gs = idt_set_gate 0x80 ''syscall_stub'' 0x08 0xEE gs"

subsection \<open>The guard below the stack\<close>

definition STACK_BOTTOM :: u32 where "STACK_BOTTOM = 0x80000"
definition STACK_MAGIC_1 :: u32 where "STACK_MAGIC_1 = 0x44656C74"
definition STACK_MAGIC_2 :: u32 where "STACK_MAGIC_2 = 0x6172756E"
definition STACK_MAGIC_3 :: u32 where "STACK_MAGIC_3 = 0x5448524E"

lemmas stack_consts = STACK_BOTTOM_def STACK_MAGIC_1_def STACK_MAGIC_2_def STACK_MAGIC_3_def

text \<open>Written before paging is on, read through the page tables.\<close>

definition stack_guard_init :: "phys_mem \<Rightarrow> phys_mem" where
  "stack_guard_init m =
     poke_bytes (STACK_BOTTOM + 8) (bytes32 STACK_MAGIC_3)
       (poke_bytes (STACK_BOTTOM + 4) (bytes32 STACK_MAGIC_2) (poke_bytes STACK_BOTTOM (bytes32 STACK_MAGIC_1) m))"

definition stack_guard_check :: "machine \<Rightarrow> machine option" where
  "stack_guard_check s = do {
     a \<leftarrow> m_read32 STACK_BOTTOM s;
     if a \<noteq> STACK_MAGIC_1 then None else do {
     b \<leftarrow> m_read32 (STACK_BOTTOM + 4) s;
     if b \<noteq> STACK_MAGIC_2 then None else do {
     c \<leftarrow> m_read32 (STACK_BOTTOM + 8) s;
     if c \<noteq> STACK_MAGIC_3 then None else Some s } } }"

subsection \<open>Operations of the components on the machine\<close>

record boot =
  b_gates :: "idt_gate list"
  framebuffer :: u32
  fb_pitch :: u32

definition COL_MAGENTA :: u32 where "COL_MAGENTA = 0xFF00FF"

definition m_print :: "env \<Rightarrow> string \<Rightarrow> u32 \<Rightarrow> machine \<Rightarrow> machine" where
  "m_print E str color s = m_draw (print (e_font E) (bytes str) color) s"

definition m_sched_test :: "machine \<Rightarrow> machine" where
  "m_sched_test s =
     (case sched_test (k_sched s) of (sc, rs) \<Rightarrow>
        k_puts (if list_all (\<lambda>r. r) rs then ''PASS'' @ [CHR 0x0A] else ''FAIL'' @ [CHR 0x0A])
          (k_puts ''[sched_test] '' (s\<lparr>k_sched := sc\<rparr>)))"

definition m_acpi_init :: "machine \<Rightarrow> machine" where
  "m_acpi_init s =
     (case acpi_init (k_mem s) (m_acpi s, com1 (k_io s)) of (a, com) \<Rightarrow>
        s\<lparr>m_acpi := a, k_io := (k_io s)\<lparr>com1 := com\<rparr>\<rparr>)"

definition m_serial_init :: "machine \<Rightarrow> machine" where
  "m_serial_init s = s\<lparr>m_ports := fold (\<lambda>(p, x). outb p x) serial_init (m_ports s)\<rparr>"

definition m_tss_init :: "machine \<Rightarrow> machine" where
  "m_tss_init s = s\<lparr>k_sched := (k_sched s)\<lparr>sched_tss := tss_init (sched_tss (k_sched s))\<rparr>\<rparr>"

text \<open>
  A store to physical address \<open>a\<close> changes the frame bitmap when the bitmap begins there.
\<close>

definition bitmap_store :: "u32 \<Rightarrow> u32 \<Rightarrow> pmm \<Rightarrow> pmm" where
  "bitmap_store a w p = (if pm_bitmap p = a then p\<lparr>pm_words := (pm_words p)(0 := w)\<rparr> else p)"

text \<open>
  The store of one byte at a physical address, as far as it concerns the frame bitmap; \<^verbatim>\<open>kmalloc_init\<close> writes
  its first block header with the bitmap already in place, and where the bitmap has more than 8 pages the header
  lies in it.
\<close>

definition bitmap_poke :: "u32 \<Rightarrow> u8 \<Rightarrow> pmm \<Rightarrow> pmm" where
  "bitmap_poke a x p =
     (let o1 = unat a - unat (pm_bitmap p); i = word_of_nat (o1 div 4) :: u32; k = 8 * (o1 mod 4) in
      if unat (pm_bitmap p) \<le> unat a \<and> o1 < 4 * unat ((pm_total p + 31) div 32)
      then p\<lparr>pm_words := (pm_words p)(i := (pm_words p i AND NOT (push_bit k 0xFF)) OR push_bit k (ucast x))\<rparr>
      else p)"

definition heap_header_store :: "u32 \<Rightarrow> pmm \<Rightarrow> pmm" where
  "heap_header_store pool p =
     fold (\<lambda>(k, x). bitmap_poke (pool + word_of_nat k) x)
       (enumerate 0 (bytes32 BLOCK_MAGIC @ bytes32 (KMALLOC_HEAP_SIZE - HDR) @ [1]) @ enumerate 12 (bytes32 0)) p"

text \<open>\<^verbatim>\<open>while (read_scancode() != 0);\<close> takes the scancodes that wait; bytes on the serial port stay.\<close>

fun drop_scancodes :: "poll list \<Rightarrow> poll list" where
  "drop_scancodes [] = []"
| "drop_scancodes (Serial_Byte b # ps) = Serial_Byte b # drop_scancodes ps"
| "drop_scancodes (Scancode sc # ps) = (if sc \<noteq> 0 then drop_scancodes ps else ps)"

text \<open>The verdict of a self test: on the screen, then on the serial port.\<close>

definition report :: "env \<Rightarrow> bool \<Rightarrow> string \<Rightarrow> machine \<Rightarrow> machine" where
  "report E good nm s =
     (let str = nm @ (if good then '': works'' else '': FAIL'')
      in k_puts str (m_print E str (if good then COL_INFO else COL_ERR) s))"

subsection \<open>The self tests\<close>

definition test_paging :: "env \<Rightarrow> machine \<Rightarrow> machine option" where
  "test_paging E s = do {
     let s = m_paging (paging_map 0x200000 0x100000 (PAGE_PRESENT OR PAGE_WRITE)) s in do {
     s \<leftarrow> m_write32 0x200000 0xDEADBEEF s;
     let s = m_pmm (bitmap_store 0x100000 0xDEADBEEF) s in do {
     w \<leftarrow> m_read32 0x200000 s;
     let s = report E (w = 0xDEADBEEF) ''paging'' s;
         s = m_paging (paging_unmap 0x200000) s in
     Some (m_paging (paging_map 0x200000 0x200000 (PAGE_PRESENT OR PAGE_WRITE)) s) } } }"

definition test_pmm :: "env \<Rightarrow> machine \<Rightarrow> machine" where
  "test_pmm E s =
     (let (s, pa) = m_pmm_alloc s; (s, pb) = m_pmm_alloc s;
          s = report E (pa \<noteq> 0 \<and> pb \<noteq> 0 \<and> pa \<noteq> pb) ''pmm'' s
      in m_pmm (pmm_free pb) (m_pmm (pmm_free pa) s))"

definition test_vmm :: "env \<Rightarrow> machine \<Rightarrow> machine" where
  "test_vmm E s =
     (let (s, va) = m_vmm_alloc 0 (PAGE_PRESENT OR PAGE_WRITE) s;
          (s, vb) = m_vmm_alloc 0 (PAGE_PRESENT OR PAGE_WRITE) s;
          s = report E (va \<noteq> 0 \<and> vb \<noteq> 0 \<and> va \<noteq> vb) ''vmm'' s
      in m_vmm_free vb (m_vmm_free va s))"

definition test_printf :: "env \<Rightarrow> machine \<Rightarrow> machine option" where
  "test_printf E s = do {
     (buf, _) \<leftarrow> ksprintf (replicate 64 0) (bytes ''printf: works'') [];
     let s = k_puts_bytes (cstr buf) s in
     Some (m_draw (print (e_font E) (cstr buf) COL_INFO) s) }"

subsection \<open>\<^verbatim>\<open>kernel_main\<close>\<close>

text \<open>From interrupts and the scheduler to shared memory.\<close>

definition boot_core :: "env \<Rightarrow> e820_entry list \<Rightarrow> u32 \<Rightarrow> machine \<times> boot \<Rightarrow> (machine \<times> boot) option" where
  "boot_core E es fb = (\<lambda>(s, b). do {
     let s = m_print E ''bootloader: works'' COL_MAGENTA s;
         b = b\<lparr>b_gates := idt_init (b_gates b)\<rparr> in do {
     (t, h) \<leftarrow> pit_init 1000 (m_timer s, m_ports s);
     let s = s\<lparr>m_timer := t, m_ports := h\<rparr>;
         s = m_sched_test (s\<lparr>k_sched := sched_init (k_sched s)\<rparr>);
         s = set_mem (stack_guard_init (k_mem s)) s;
         s = s\<lparr>k_heap_base := get_heap_base (memory_init es memory_state0)\<rparr>;
         s = m_acpi_init s;
         s = m_paging (paging_init fb) s;
         s = m_pmm (pmm_init es) s;
         s = s\<lparr>k_heap := kmalloc_init (k_heap_base s) (k_heap s)\<rparr>;
         s = m_pmm (heap_header_store (heap_pool (k_heap s))) s;
         s = set_vm (vmm_init (k_vm s)) s;
         s = s\<lparr>k_shm := shmem_init (k_shm s)\<rparr> in
     Some (s, b) } })"

text \<open>From the serial port to the mouse.\<close>

definition boot_devices :: "env \<Rightarrow> machine \<times> boot \<Rightarrow> (machine \<times> boot) option" where
  "boot_devices E = (\<lambda>(s, b). do {
     let b = b\<lparr>framebuffer := BACKBUF_PHYS_ADDR, fb_pitch := 800 * 4\<rparr>;
         s = m_tss_init (m_serial_init s);
         b = b\<lparr>b_gates := syscall_init (b_gates b)\<rparr>;
         s = s\<lparr>m_ports := snd (ata_init (e_dev E) (m_ports s))\<rparr>;
         (s, ok) = vol_do (fat12_init 256) s;
         s = (if \<not> ok then m_print E ''fat12: FAIL'' COL_ERR (k_puts ''fat12: FAIL'' s)
              else m_print E ''fat12: works'' COL_INFO (k_puts ''fat12: works'' s));
         s = set_io E (fd_init (k_io s)) s in do {
     h \<leftarrow> mouse_init (e_dev E) (m_ports s);
     let s = s\<lparr>m_ports := h, m_mouse := mouse_set_bounds 800 600 (m_mouse s)\<rparr> in
     Some (s, b) } })"

text \<open>From the empty screen to the banner of the serial shell.\<close>

definition boot_tests :: "env \<Rightarrow> machine \<Rightarrow> machine option" where
  "boot_tests E s = do {
     let s = m_draw (fill_screen COL_BG) s;
         s = k_puts ''stack guard: works'' (k_puts ''idt: works'' (k_puts ''bootloader: works'' s));
         s = m_print E ''stack guard: works'' COL_INFO (m_print E ''idt: works'' COL_INFO s) in do {
     s \<leftarrow> test_paging E s;
     s \<leftarrow> stack_guard_check (test_vmm E (test_pmm E s));
     s \<leftarrow> test_printf E s;
     let s = s\<lparr>k_io := (k_io s)\<lparr>polls := drop_scancodes (polls (k_io s))\<rparr>\<rparr> in
     Some (serial_shell_init s) } }"

definition kernel_boot :: "env \<Rightarrow> e820_entry list \<Rightarrow> u32 \<Rightarrow> machine \<times> boot \<Rightarrow> (machine \<times> boot) option" where
  "kernel_boot E es fb sb = do {
     (s, b) \<leftarrow> boot_core E es fb sb;
     (s, b) \<leftarrow> boot_devices E (s, b);
     s \<leftarrow> boot_tests E s;
     Some (s, b) }"

text \<open>The kernel after \<open>n\<close> turns of its shell.\<close>

definition kernel_main :: "nat \<Rightarrow> env \<Rightarrow> e820_entry list \<Rightarrow> u32 \<Rightarrow> machine \<times> boot \<Rightarrow> machine option" where
  "kernel_main n E es fb sb = do {
     (s, b) \<leftarrow> kernel_boot E es fb sb;
     shell_run n E (get_y (m_screen s)) s }"

end
