(* ===== verification/Boot_Vm.thy ===== *)
theory Boot_Vm
  imports Boot
begin

text \<open>
  What the self tests of \<^verbatim>\<open>kernel_main\<close> do to frames and pages: they find what they expect and leave no frame in
  use, no page of the region mapped, and the identity map of the first 64 MB as \<^verbatim>\<open>paging_init\<close> built it.
\<close>

definition vm_ready :: "u32 \<Rightarrow> vmm \<Rightarrow> bool" where
  "vm_ready n vm \<longleftrightarrow> vmm_inv vm \<and> next_virt vm = n \<and> pmm_live (vm_pmm vm) = {} \<and> 2 \<le> card (pmm_pool (vm_pmm vm))
     \<and> (\<forall>w<0x4000000. paging_get_physical (vm_pg vm) w = w)"

lemma vmm_inv_pmm:
  assumes "vmm_inv vm" "pmm_inv p" "pmm_live p = pmm_live (vm_pmm vm)" "pm_bitmap p = pm_bitmap (vm_pmm vm)"
  shows "vmm_inv (vm\<lparr>vm_pmm := p\<rparr>)"
  using assms by (simp add: vmm_inv_def vm_backed_def vm_region_def)

text \<open>Pages below the region may be mapped at will.\<close>

lemma vmm_inv_paging:
  assumes "vmm_inv vm" "paging_inv pg" "\<And>w. 0xD0000000 \<le> w \<Longrightarrow> paging_get_physical pg w = paging_get_physical (vm_pg vm) w"
  shows "vmm_inv (vm\<lparr>vm_pg := pg\<rparr>)"
  using assms by (auto simp: vmm_inv_def vm_backed_def vm_region_def)

subsection \<open>After initialisation\<close>

lemma card_pool: "pmm_inv p \<Longrightarrow> card (pmm_pool p) = unat (pm_total p) - unat (pm_skip p)"
proof -
  assume "pmm_inv p"
  then have "card (pmm_pool p) = card {i. pmm_in_range p i}"
    by (simp add: pmm_pool_def card_image frame_addr_inj)
  also have "{i. pmm_in_range p i} = {unat (pm_skip p)..<unat (pm_total p)}"
    by (auto simp: pmm_in_range_def)
  finally show ?thesis by simp
qed

lemma vm_ready_init:
  assumes R: "pmm_region es b t" and "page_base b = b" "pmm_bmap_pages t + 130 \<le> t"
  shows "vm_ready 0xD0000000 (vmm_init (vm\<lparr>vm_pg := paging_init fb pg, vm_pmm := pmm_init es p\<rparr>))"
proof -
  note f = pmm_init_fields [OF R, where p = p]
  note I = pmm_init_ready [OF R, where p = p]
  have "unat (pmm_bmap_pages t + 130) = unat (pmm_bmap_pages t + 128) + 2"
  proof -
    have "pmm_bmap_pages t + 128 \<le> t" using R by (simp add: pmm_region_def Let_def)
    have b: "unat (pmm_bmap_pages t) < 4294967166"
    proof -
      have "unat (pmm_bmap_pages t) = unat (((t + 31) div 32) * 4 + 4096 - 1) div 4096"
        by (simp add: pmm_bmap_pages_def unat_div)
      with unat_u32_less [of "((t + 31) div 32) * 4 + 4096 - 1"] show ?thesis by linarith
    qed
    then have "unat (pmm_bmap_pages t + 130) = unat (pmm_bmap_pages t) + 130"
      by (subst unat_add_u32) simp_all
    then show ?thesis by (simp add: unat_pmm_skip)
  qed
  then have "2 \<le> card (pmm_pool (pmm_init es p))"
    using assms(3) by (simp add: card_pool [OF I(1)] f word_le_nat_alt)
  moreover have "paging_inv (paging_init fb pg)"
  proof -
    have cr: "paging_inv (s\<lparr>cr3 := x, cr0 := y\<rparr>) = paging_inv s" for s x y by (simp add: paging_inv_def)
    show ?thesis unfolding paging_init_def Let_def cr
      by (simp add: paging_inv_identity paging_inv_clear)
  qed
  then have "vmm_inv (vmm_init (vm\<lparr>vm_pg := paging_init fb pg, vm_pmm := pmm_init es p\<rparr>))"
    using I(1) assms(2) by (simp add: vmm_inv_def vmm_init_def vm_backed_def vm_region_empty f page_base_def)
  ultimately show ?thesis
    using I by (simp add: vm_ready_def paging_init_translate vmm_init_def)
qed

subsection \<open>The test of paging\<close>

lemma bitmap_store_tst:
  assumes "32 \<le> i" "i < 4294967296"
  shows "pmm_tst (bitmap_store a w p) (word_of_nat i) = pmm_tst p (word_of_nat i)"
proof -
  have "unat (word_of_nat i div 32 :: u32) = i div 32" using assms(2) by (simp add: unat_div unat_of_nat_u32)
  moreover have "i div 32 \<noteq> 0" using assms(1) by (simp add: div_eq_0_iff)
  ultimately have "(word_of_nat i div 32 :: u32) \<noteq> 0" by (metis unat_0)
  then show ?thesis by (simp add: pmm_tst_def bitmap_store_def)
qed

lemma bitmap_store_fields [simp]:
  "pm_bitmap (bitmap_store a w p) = pm_bitmap p" "pm_total (bitmap_store a w p) = pm_total p"
  "pm_skip (bitmap_store a w p) = pm_skip p" "pm_used (bitmap_store a w p) = pm_used p"
  by (simp_all add: bitmap_store_def)

text \<open>The first word of the bitmap stands for reserved frames: overwriting it changes no frame of the pool.\<close>

lemma bitmap_store_harmless:
  assumes "32 \<le> pm_skip p"
  shows "pmm_inv (bitmap_store a w p) = pmm_inv p" "pmm_live (bitmap_store a w p) = pmm_live p"
    "pmm_pool (bitmap_store a w p) = pmm_pool p"
proof -
  have r: "pmm_in_range (bitmap_store a w p) = pmm_in_range p"
    by (simp add: fun_eq_iff pmm_in_range_def)
  have f: "frame_addr (bitmap_store a w p) = frame_addr p" by (simp add: fun_eq_iff frame_addr_def)
  have "pmm_tst (bitmap_store a w p) (word_of_nat i) = pmm_tst p (word_of_nat i)" if "pmm_in_range p i" for i
  proof (rule bitmap_store_tst)
    have "i < unat (pm_total p)" "32 \<le> unat (pm_skip p)" "unat (pm_skip p) \<le> i"
      using that assms by (simp_all add: pmm_in_range_def word_le_nat_alt)
    moreover have "unat (pm_total p) < 4294967296" by (rule unat_u32_less)
    ultimately show "32 \<le> i" "i < 4294967296" by linarith+
  qed
  then have l: "pmm_live_set (bitmap_store a w p) = pmm_live_set p"
    by (auto simp: pmm_live_set_def r)
  show "pmm_inv (bitmap_store a w p) = pmm_inv p" by (simp add: pmm_inv_def l)
  show "pmm_live (bitmap_store a w p) = pmm_live p" by (simp add: pmm_live_def l f)
  show "pmm_pool (bitmap_store a w p) = pmm_pool p" by (simp add: pmm_pool_def r f)
qed

definition pg_alias :: "paging \<Rightarrow> paging" where
  "pg_alias pg = paging_map 0x200000 0x100000 (PAGE_PRESENT OR PAGE_WRITE) pg"

definition pg_back :: "paging \<Rightarrow> paging" where
  "pg_back pg = paging_map 0x200000 0x200000 (PAGE_PRESENT OR PAGE_WRITE) (paging_unmap 0x200000 (pg_alias pg))"

lemma pg_alias_at:
  assumes "paging_inv pg" "k < 4"
  shows "paging_get_physical (pg_alias pg) (0x200000 + k) = 0x100000 + k"
proof -
  have b: "page_base (0x200000 + k) = page_base 0x200000 \<and> page_off (0x200000 + k) = k" if "k \<in> {0, 1, 2, 3}"
    using that by (auto simp: page_base_def page_off_def)
  have k: "k \<in> {0, 1, 2, 3}"
  proof -
    have "unat k < 4" using assms(2) by (simp add: word_less_nat_alt)
    then have "unat k = 0 \<or> unat k = 1 \<or> unat k = 2 \<or> unat k = 3" by linarith
    then show ?thesis by (auto simp: word_unat_eq_iff)
  qed
  from b [OF k] have "paging_get_physical (pg_alias pg) (0x200000 + k) = page_base 0x100000 OR k"
    unfolding pg_alias_def by (subst pg.translate_map_same [OF assms(1)]) simp_all
  with k show ?thesis by (auto simp: page_base_def)
qed

lemma pg_back_translate:
  assumes "paging_inv pg"
  shows "paging_inv (pg_back pg)"
    "paging_get_physical (pg_back pg) w = (if page_base w = 0x200000 then w else paging_get_physical pg w)"
proof -
  have b: "page_base 0x200000 = 0x200000" by (simp add: page_base_def)
  have i: "paging_inv (pg_alias pg)" "paging_inv (paging_unmap 0x200000 (pg_alias pg))"
    by (simp_all add: pg_alias_def paging_inv_map paging_inv_unmap assms)
  then show "paging_inv (pg_back pg)" by (simp add: pg_back_def paging_inv_map)
  show "paging_get_physical (pg_back pg) w = (if page_base w = 0x200000 then w else paging_get_physical pg w)"
  proof (cases "page_base w = 0x200000")
    case True
    then show ?thesis
      using pg.translate_map_same [OF i(2), of w "0x200000" "0x200000" "PAGE_PRESENT OR PAGE_WRITE"] page_base_off [of w]
      by (simp add: pg_back_def b)
  next
    case False
    then show ?thesis
      using assms i by (simp add: pg_back_def pg_alias_def pg.translate_map_other pg.translate_unmap_other b)
  qed
qed

lemma vm_ready_paging:
  assumes "vm_ready n vm" "32 \<le> pm_skip (vm_pmm vm)"
  shows "vm_ready n (vm\<lparr>vm_pg := pg_back (vm_pg vm), vm_pmm := bitmap_store a w (vm_pmm vm)\<rparr>)"
proof -
  note R = assms(1) [unfolded vm_ready_def]
  have P: "paging_inv (vm_pg vm)" using R by (simp add: vmm_inv_def)
  note pb = pg_back_translate [OF P]
  have "vmm_inv (vm\<lparr>vm_pg := pg_back (vm_pg vm)\<rparr>)"
  proof (rule vmm_inv_paging)
    fix x :: u32 assume "0xD0000000 \<le> x"
    then have "page_base x \<noteq> 0x200000" by (auto simp: word_unat_eq_iff unat_page_base word_le_nat_alt)
    then show "paging_get_physical (pg_back (vm_pg vm)) x = paging_get_physical (vm_pg vm) x" by (simp add: pb)
  qed (use R pb in simp_all)
  from vmm_inv_pmm [OF this, of "bitmap_store a w (vm_pmm vm)"] R bitmap_store_harmless [OF assms(2), of a w]
  show ?thesis by (simp add: vm_ready_def pb vmm_inv_def)
qed

subsection \<open>The test of the frame allocator\<close>

lemma two_frames:
  assumes I: "pmm_inv p" "pmm_live p = {}" "2 \<le> card (pmm_pool p)"
    and a: "pmm_alloc p = (p1, a)" and b: "pmm_alloc p1 = (p2, b)"
  shows "a \<noteq> 0" "b \<noteq> 0" "a \<noteq> b"
    "pmm_inv (pmm_free b (pmm_free a p2))" "pmm_live (pmm_free b (pmm_free a p2)) = {}"
    "pmm_pool (pmm_free b (pmm_free a p2)) = pmm_pool p" "pm_bitmap (pmm_free b (pmm_free a p2)) = pm_bitmap p"
proof -
  show a0: "a \<noteq> 0" using pmm.falloc_null_iff [OF I(1) a] I(2,3) by auto
  note A = pmm.falloc_fresh [OF I(1) a a0]
  then have J: "pmm_inv p1" by simp
  have "card (pmm_live p1) \<noteq> card (pmm_pool p1)" using A I(2,3) by simp
  then have "pmm_live p1 \<noteq> pmm_pool p1" by metis
  then show b0: "b \<noteq> 0" using pmm.falloc_null_iff [OF J b] by simp
  note B = pmm.falloc_fresh [OF J b b0]
  show "a \<noteq> b" using A B by auto
  have "pmm_inv p2" "a \<in> pmm_pool p2" using A B by auto
  note C = pmm.ffree_live [OF this]
  have "pmm_inv (pmm_free a p2)" "b \<in> pmm_pool (pmm_free a p2)" using A B C by auto
  note D = pmm.ffree_live [OF this]
  show "pmm_inv (pmm_free b (pmm_free a p2))" "pmm_live (pmm_free b (pmm_free a p2)) = {}"
    "pmm_pool (pmm_free b (pmm_free a p2)) = pmm_pool p" using A B C D I(2) by auto
  show "pm_bitmap (pmm_free b (pmm_free a p2)) = pm_bitmap p"
    using pm_bitmap_alloc [OF a] pm_bitmap_alloc [OF b] by simp
qed

lemma vm_ready_frames:
  assumes "vm_ready n vm" "pmm_alloc (vm_pmm vm) = (p1, a)" "pmm_alloc p1 = (p2, b)"
  shows "a \<noteq> 0" "b \<noteq> 0" "a \<noteq> b" "vm_ready n (vm\<lparr>vm_pmm := pmm_free b (pmm_free a p2)\<rparr>)"
proof -
  note R = assms(1) [unfolded vm_ready_def]
  have I: "pmm_inv (vm_pmm vm)" "pmm_live (vm_pmm vm) = {}" "2 \<le> card (pmm_pool (vm_pmm vm))"
    using R by (simp_all add: vmm_inv_def)
  note T = two_frames [OF I assms(2,3)]
  show "a \<noteq> 0" "b \<noteq> 0" "a \<noteq> b" by (rule T)+
  show "vm_ready n (vm\<lparr>vm_pmm := pmm_free b (pmm_free a p2)\<rparr>)"
    using R T vmm_inv_pmm [of vm "pmm_free b (pmm_free a p2)"] by (simp add: vm_ready_def)
qed

subsection \<open>The test of virtual memory\<close>

lemma vm_ready_pages:
  assumes R: "vm_ready 0xD0000000 vm" and a: "vmm_alloc 0 fl vm = (v1, a)" and b: "vmm_alloc 0 fl v1 = (v2, b)"
  shows "a = 0xD0000000" "b = 0xD0001000" "vm_ready 0xD0002000 (vmm_free b (vmm_free a v2))"
proof -
  note r = R [unfolded vm_ready_def]
  have I: "vmm_inv vm" using r by simp
  have P: "pmm_inv (vm_pmm vm)" using I by (simp add: vmm_inv_def)
  have a0: "a \<noteq> 0"
    using vmm_alloc_fail [OF I, of fl v1] a r by auto
  note A = vmm_alloc_spec [OF I a a0]
  show ea: "a = 0xD0000000" using A(2) r by simp
  have "card (pmm_live (vm_pmm v1)) \<noteq> card (pmm_pool (vm_pmm v1))" using A(6,8) r by simp
  then have "pmm_live (vm_pmm v1) \<noteq> pmm_pool (vm_pmm v1)" by metis
  then have b0: "b \<noteq> 0" using vmm_alloc_fail [OF A(1), of fl v2] b A(3) r by auto
  note B = vmm_alloc_spec [OF A(1) b b0]
  show eb: "b = 0xD0001000" using B(2) A(3) r by simp
  let ?f = "paging_get_physical (vm_pg v2) a" and ?g = "paging_get_physical (vm_pg v2) b"
  have pa: "page_base a = a" "page_base b = b" by (simp_all add: ea eb page_base_def)
  have f: "?f = paging_get_physical (vm_pg v1) a" using B(7) [of a] pa ea eb by simp
  have nz: "?f \<noteq> 0" "?g \<noteq> 0"
  proof -
    have "pmm_inv (vm_pmm v2)" using B(1) by (simp add: vmm_inv_def)
    then have "0 \<notin> pmm_live (vm_pmm v2)" using pmm.live_pool pmm.pool_nonnull by blast
    moreover have "?f \<in> pmm_live (vm_pmm v2)" "?g \<in> pmm_live (vm_pmm v2)"
      using A(5) B(5,6) f by auto
    ultimately show "?f \<noteq> 0" "?g \<noteq> 0" by metis+
  qed
  have ra: "vm_region v2 a" "vm_region v2 b" using A(4) B(4) by blast+
  note C = vmm_free_spec [OF B(1) ra(1) nz(1)]
  have g: "paging_get_physical (vm_pg (vmm_free a v2)) b = ?g" using C(4) [of b] pa ea eb by simp
  have rb: "vm_region (vmm_free a v2) b" using ra(2) C(5) by (simp add: vm_region_def)
  note D = vmm_free_spec [OF C(1) rb]
  have D': "vmm_inv (vmm_free b (vmm_free a v2))" "next_virt (vmm_free b (vmm_free a v2)) = 0xD0002000"
    using D g nz C(5) B(3) A(3) r by auto
  have L: "pmm_live (vm_pmm (vmm_free b (vmm_free a v2))) = {}"
    using D(3) C(3) g nz B(6) A(6) f r by auto
  have T: "paging_get_physical (vm_pg (vmm_free b (vmm_free a v2))) w = w" if "w < 0x4000000" for w
  proof -
    have "page_base w \<noteq> a" "page_base w \<noteq> b"
      using page_base_le [of w] that by (auto simp: ea eb word_le_nat_alt word_less_nat_alt)
    with A(7) B(7) C(4) D(4) g nz r that show ?thesis by simp
  qed
  have pool: "pmm_pool (vm_pmm (vmm_free v s)) = pmm_pool (vm_pmm s)" for v s
    by (simp add: vmm_free_def Let_def pmm_free_def pmm_pool_alloc)
  show "vm_ready 0xD0002000 (vmm_free b (vmm_free a v2))"
    using D' L T A(8) B(8) r by (simp add: vm_ready_def pool)
qed

end
