(* ===== verification/Boot_Tests.thy ===== *)
theory Boot_Tests
  imports Boot_Vm
begin

text \<open>
  The self tests of \<^verbatim>\<open>kernel_main\<close> on the whole machine: each of them returns, says on the serial port that its part
  works, and leaves everything but frames and pages as it was.
\<close>

lemmas boot_ops = kernel_defs m_pmm_def m_paging_def m_draw_def m_print_def

subsection \<open>What the tests say and what they leave alone\<close>

definition booting :: "machine \<Rightarrow> u8 list \<Rightarrow> machine \<Rightarrow> bool" where
  "booting s out s' \<longleftrightarrow> k_io s' = (k_io s)\<lparr>com1 := com1 (k_io s) @ out\<rparr> \<and> k_sched s' = k_sched s
     \<and> k_heap s' = k_heap s \<and> m_mouse s' = m_mouse s \<and> g_out_fd s' = g_out_fd s \<and> g_in_fd s' = g_in_fd s
     \<and> sh_regions (k_shm s') = sh_regions (k_shm s) \<and> (\<forall>a<0x100000. k_mem s' a = k_mem s a)"

lemma booting_trans: "booting s a t \<Longrightarrow> booting t b u \<Longrightarrow> booting s (a @ b) u"
  by (simp add: booting_def)

definition boot_line :: "string \<Rightarrow> u8 list" where
  "boot_line str = bytes str @ [13, 10]"

lemma booting_puts:
  assumes "0 \<notin> set (bytes str)" "10 \<notin> set (bytes str)"
  shows "booting s (boot_line str) (k_puts str s)" "k_vm (k_puts str s) = k_vm s"
  using serial_puts_line [OF assms] by (simp_all add: booting_def boot_line_def kernel_defs)

lemma booting_print: "booting s [] (m_print E str c s)" "k_vm (m_print E str c s) = k_vm s"
  by (simp_all add: booting_def m_print_def m_draw_def kernel_defs)

lemma booting_pmm: "booting s [] (m_pmm f s)" "k_vm (m_pmm f s) = (k_vm s)\<lparr>vm_pmm := f (vm_pmm (k_vm s))\<rparr>"
  by (simp_all add: booting_def m_pmm_def kernel_defs)

lemma booting_paging: "booting s [] (m_paging f s)" "k_vm (m_paging f s) = (k_vm s)\<lparr>vm_pg := f (vm_pg (k_vm s))\<rparr>"
  by (simp_all add: booting_def m_paging_def kernel_defs)

lemma booting_report:
  assumes "0 \<notin> set (bytes (nm @ '': works''))" "10 \<notin> set (bytes (nm @ '': works''))"
  shows "booting s (boot_line (nm @ '': works'')) (report E True nm s)" "k_vm (report E True nm s) = k_vm s"
proof -
  have "booting s ([] @ boot_line (nm @ '': works'')) (report E True nm s)"
    unfolding report_def Let_def if_True by (rule booting_trans [OF booting_print(1) booting_puts(1) [OF assms]])
  then show "booting s (boot_line (nm @ '': works'')) (report E True nm s)" by simp
  show "k_vm (report E True nm s) = k_vm s"
    unfolding report_def Let_def if_True by (simp only: booting_puts(2) [OF assms] booting_print(2))
qed

lemmas boot_chars = bytes_def ch_def

subsection \<open>The tests\<close>

lemma test_paging_passes:
  assumes "paging_inv (vm_pg (k_vm s))"
  shows "\<exists>s'. test_paging E s = Some s' \<and> booting s (boot_line ''paging: works'') s'
    \<and> k_vm s' = (k_vm s)\<lparr>vm_pg := pg_back (vm_pg (k_vm s)), vm_pmm := bitmap_store 0x100000 0xDEADBEEF (vm_pmm (k_vm s))\<rparr>"
proof -
  let ?pg = "vm_pg (k_vm s)"
  have at: "paging_get_physical (pg_alias ?pg) 0x200000 = 0x100000" "paging_get_physical (pg_alias ?pg) 0x200001 = 0x100001"
    "paging_get_physical (pg_alias ?pg) 0x200002 = 0x100002" "paging_get_physical (pg_alias ?pg) 0x200003 = 0x100003"
    using pg_alias_at [OF assms, of 0] pg_alias_at [OF assms, of 1] pg_alias_at [OF assms, of 2]
      pg_alias_at [OF assms, of 3] by simp_all
  have pr: "page_present (pg_alias ?pg) 0x200000" "page_present (pg_alias ?pg) 0x200001"
    "page_present (pg_alias ?pg) 0x200002" "page_present (pg_alias ?pg) 0x200003"
    using at by (auto intro: page_present_translate)
  let ?s1 = "m_paging (paging_map 0x200000 0x100000 (PAGE_PRESENT OR PAGE_WRITE)) s"
  have v1: "m_vm ?s1 = pg_alias ?pg" "k_mem ?s1 = k_mem s"
    by (simp_all add: m_vm_def m_paging_def pg_alias_def kernel_defs)
  define m where "m = (k_mem s)(0x100000 := ucast (0xDEADBEEF :: u32), 0x100001 := ucast (drop_bit 8 (0xDEADBEEF :: u32)),
    0x100002 := ucast (drop_bit 16 (0xDEADBEEF :: u32)), 0x100003 := ucast (drop_bit 24 (0xDEADBEEF :: u32)))"
  have pk: "poke_list (pg_alias ?pg) 0x200000 (bytes32 0xDEADBEEF) (k_mem s) = Some m"
    by (simp add: bytes32_def poke_def at pr m_def)
  have m: "m 0x100000 = ucast (0xDEADBEEF :: u32)" "m 0x100001 = ucast (drop_bit 8 (0xDEADBEEF :: u32))"
    "m 0x100002 = ucast (drop_bit 16 (0xDEADBEEF :: u32))" "m 0x100003 = ucast (drop_bit 24 (0xDEADBEEF :: u32))"
    by (simp_all add: m_def)
  have low: "m a = k_mem s a" if "a < 0x100000" for a using that by (auto simp: m_def)
  have w: "m_write32 0x200000 0xDEADBEEF ?s1 = Some (set_mem m ?s1)"
    by (simp only: m_write32_def upoke_def v1 pk option.map)
  let ?s2 = "m_pmm (bitmap_store 0x100000 0xDEADBEEF) (set_mem m ?s1)"
  have v2: "m_vm ?s2 = pg_alias ?pg" "k_mem ?s2 = m"
    using v1(1) by (simp_all add: m_vm_def m_pmm_def kernel_defs)
  have "readable 0x200000 4 ?s2"
    using pr by (simp add: readable_def v2 All_less_Suc numeral_eq_Suc)
  then have r: "m_read32 0x200000 ?s2 = Some 0xDEADBEEF"
    using le32_bytes [of "0xDEADBEEF"] by (simp only: m_read32_def v2 get32_def if_True) (simp add: at m)
  have b1: "booting s [] ?s2"
    using low by (simp add: booting_def m_pmm_def m_paging_def kernel_defs)
  have ch: "0 \<notin> set (bytes (''paging'' @ '': works''))" "10 \<notin> set (bytes (''paging'' @ '': works''))"
    by (simp_all add: boot_chars)
  let ?s' = "m_paging (paging_map 0x200000 0x200000 (PAGE_PRESENT OR PAGE_WRITE))
    (m_paging (paging_unmap 0x200000) (report E True ''paging'' ?s2))"
  have "test_paging E s = Some ?s'" by (simp add: test_paging_def w r)
  moreover have "booting s ([] @ boot_line (''paging'' @ '': works'') @ [] @ []) ?s'"
    by (rule booting_trans [OF b1 booting_trans [OF booting_report(1) [OF ch]
          booting_trans [OF booting_paging(1) booting_paging(1)]]])
  moreover have "k_vm ?s2 = (k_vm s)\<lparr>vm_pg := pg_alias ?pg, vm_pmm := bitmap_store 0x100000 0xDEADBEEF (vm_pmm (k_vm s))\<rparr>"
    by (simp add: m_pmm_def m_paging_def pg_alias_def kernel_defs)
  then have "k_vm ?s' = (k_vm s)\<lparr>vm_pg := pg_back ?pg, vm_pmm := bitmap_store 0x100000 0xDEADBEEF (vm_pmm (k_vm s))\<rparr>"
    by (simp only: booting_paging(2) booting_report(2) [OF ch]) (simp add: pg_back_def)
  ultimately show ?thesis by (intro exI [of _ ?s']) simp
qed

lemma booting_vm: "booting s [] (set_vm vm s)" "k_vm (set_vm vm s) = vm"
  by (simp_all add: booting_def kernel_defs)

lemma test_pmm_passes:
  assumes "vm_ready n (k_vm s)"
  shows "booting s (boot_line ''pmm: works'') (test_pmm E s) \<and> vm_ready n (k_vm (test_pmm E s))"
proof -
  obtain p1 a where a: "pmm_alloc (vm_pmm (k_vm s)) = (p1, a)" by fastforce
  obtain p2 b where b: "pmm_alloc p1 = (p2, b)" by fastforce
  note V = vm_ready_frames [OF assms a b]
  let ?s2 = "m_pmm (\<lambda>_. p2) (m_pmm (\<lambda>_. p1) s)"
  have ch: "0 \<notin> set (bytes (''pmm'' @ '': works''))" "10 \<notin> set (bytes (''pmm'' @ '': works''))"
    by (simp_all add: boot_chars)
  let ?s' = "m_pmm (pmm_free b) (m_pmm (pmm_free a) (report E True ''pmm'' ?s2))"
  have "test_pmm E s = ?s'"
    using V(1-3) a b by (simp add: test_pmm_def m_pmm_alloc_def booting_pmm(2) Let_def)
  moreover have "booting s ([] @ [] @ boot_line (''pmm'' @ '': works'') @ [] @ []) ?s'"
    by (rule booting_trans [OF booting_pmm(1) booting_trans [OF booting_pmm(1) booting_trans [OF booting_report(1) [OF ch]
          booting_trans [OF booting_pmm(1) booting_pmm(1)]]]])
  moreover have "k_vm ?s' = (k_vm s)\<lparr>vm_pmm := pmm_free b (pmm_free a p2)\<rparr>"
    by (simp only: booting_pmm(2) booting_report(2) [OF ch]) simp
  ultimately show ?thesis using V(4) by simp
qed

lemma test_vmm_passes:
  assumes "vm_ready 0xD0000000 (k_vm s)"
  shows "booting s (boot_line ''vmm: works'') (test_vmm E s) \<and> vm_ready 0xD0002000 (k_vm (test_vmm E s))"
proof -
  let ?fl = "PAGE_PRESENT OR PAGE_WRITE"
  obtain v1 a where a: "vmm_alloc 0 ?fl (k_vm s) = (v1, a)" by fastforce
  obtain v2 b where b: "vmm_alloc 0 ?fl v1 = (v2, b)" by fastforce
  note V = vm_ready_pages [OF assms a b]
  let ?s2 = "set_vm v2 (set_vm v1 s)"
  have ch: "0 \<notin> set (bytes (''vmm'' @ '': works''))" "10 \<notin> set (bytes (''vmm'' @ '': works''))"
    by (simp_all add: boot_chars)
  let ?s' = "m_vmm_free b (m_vmm_free a (report E True ''vmm'' ?s2))"
  have "test_vmm E s = ?s'"
    using V(1,2) a b by (simp add: test_vmm_def m_vmm_alloc_def Let_def)
  moreover have "booting s ([] @ [] @ boot_line (''vmm'' @ '': works'') @ [] @ []) ?s'"
    unfolding m_vmm_free_def
    by (rule booting_trans [OF booting_vm(1) booting_trans [OF booting_vm(1) booting_trans [OF booting_report(1) [OF ch]
          booting_trans [OF booting_vm(1) booting_vm(1)]]]])
  moreover have "k_vm ?s' = vmm_free b (vmm_free a v2)"
    by (simp only: m_vmm_free_def booting_vm(2) booting_report(2) [OF ch])
  ultimately show ?thesis using V(3) by simp
qed

text \<open>Kernel memory is read where it is: the first 64 MB are mapped to themselves.\<close>

definition guarded :: "phys_mem \<Rightarrow> bool" where
  "guarded m \<longleftrightarrow> get32 m STACK_BOTTOM = STACK_MAGIC_1 \<and> get32 m (STACK_BOTTOM + 4) = STACK_MAGIC_2
     \<and> get32 m (STACK_BOTTOM + 8) = STACK_MAGIC_3"

lemma poke_word: "poke_bytes a (bytes32 w) m = m(a := ucast w, a + 1 := ucast (drop_bit 8 w),
    a + 2 := ucast (drop_bit 16 w), a + 3 := ucast (drop_bit 24 w))"
  by (simp add: poke_bytes_def bytes32_def)

lemma guarded_init: "guarded (stack_guard_init m)"
  unfolding guarded_def stack_guard_init_def poke_word get32_def
  by (simp add: stack_consts) (simp add: le32_def)

lemma guarded_keep: "guarded m \<Longrightarrow> (\<And>a. a < 0x100000 \<Longrightarrow> m' a = m a) \<Longrightarrow> guarded m'"
  by (simp add: guarded_def get32_def stack_consts)

lemma m_read32_identity:
  assumes "\<forall>k \<in> {0, 1, 2, 3}. a + k < 0x4000000 \<and> a + k \<noteq> 0"
    and "\<forall>w<0x4000000. paging_get_physical (vm_pg (k_vm s)) w = w"
  shows "m_read32 a s = Some (get32 (k_mem s) a)"
proof -
  have p: "paging_get_physical (m_vm s) (a + k) = a + k" if "k \<in> {0, 1, 2, 3}" for k
  proof -
    have "a + k < 0x4000000" using assms(1) that by blast
    then show ?thesis using assms(2) by (simp add: m_vm_def)
  qed
  have "page_present (m_vm s) (a + word_of_nat k)" if "k < 4" for k
  proof -
    have "k = 0 \<or> k = 1 \<or> k = 2 \<or> k = 3" using that by linarith
    then have "(word_of_nat k :: u32) \<in> {0, 1, 2, 3}" by auto
    with p [OF this] assms(1) show ?thesis by (auto intro!: page_present_translate)
  qed
  then have "readable a 4 s" by (simp add: readable_def)
  then show ?thesis using p [of 0] p [of 1] p [of 2] p [of 3] by (simp add: m_read32_def get32_def)
qed

lemma stack_guard_intact:
  assumes "vm_ready n (k_vm s)" "guarded (k_mem s)"
  shows "stack_guard_check s = Some s"
proof -
  have id: "\<forall>w<0x4000000. paging_get_physical (vm_pg (k_vm s)) w = w" using assms(1) by (simp add: vm_ready_def)
  have "m_read32 (STACK_BOTTOM + d) s = Some (get32 (k_mem s) (STACK_BOTTOM + d))" if "d \<in> {0, 4, 8}" for d
    using that by (intro m_read32_identity [OF _ id]) (auto simp: stack_consts)
  from this [of 0] this [of 4] this [of 8] assms(2) show ?thesis
    by (simp add: stack_guard_check_def guarded_def)
qed

lemma kformat_loop_plain:
  assumes "0x25 \<notin> set fmt" "length pre + length fmt < cap - 1" "cap \<le> int_max"
  shows "kformat_loop cap fmt [] (pre @ replicate (length fmt + n) 0, length pre)
    = Some (pre @ fmt @ replicate n 0, length pre + length fmt)"
  using assms
proof (induction fmt arbitrary: pre)
  case Nil
  then show ?case by (subst kformat_loop.simps) simp
next
  case (Cons c fmt)
  have "kputc cap c (pre @ replicate (length (c # fmt) + n) 0, length pre)
      = Some ((pre @ [c]) @ replicate (length fmt + n) 0, length (pre @ [c]))"
    using Cons.prems(2,3) by (auto simp: kputc_def)
  with Cons.IH [of "pre @ [c]"] Cons.prems show ?case by (subst kformat_loop.simps) simp
qed

lemma test_printf_passes:
  "\<exists>s'. test_printf E s = Some s' \<and> booting s (boot_line ''printf: works'') s' \<and> k_vm s' = k_vm s"
proof -
  let ?t = "bytes ''printf: works''"
  have l: "length ?t = 13" by (simp add: bytes_def)
  have "0x25 \<notin> set ?t" by (simp add: boot_chars)
  from kformat_loop_plain [OF this, of "[]" "nat 0x7FFFFFFF" 51]
  have "kformat_loop (nat 0x7FFFFFFF) ?t [] (replicate 64 0, 0) = Some (?t @ replicate 51 0, 13)" by (simp add: l int_max_def)
  then have "ksprintf (replicate 64 0) ?t [] = Some ((?t @ replicate 51 0)[13 := 0], 13)"
    by (simp add: ksprintf_def kvsprintf_def l)
  moreover have "cstr ((?t @ replicate 51 0)[13 := 0]) = ?t"
  proof -
    have "(?t @ replicate 51 0)[13 := 0] = ?t @ replicate 51 0"
      by (simp add: list_update_append l list_update_same_conv)
    moreover have "\<forall>c \<in> set ?t. c \<noteq> 0" by (simp add: boot_chars)
    ultimately show ?thesis by (simp add: cstr_def takeWhile_append)
  qed
  ultimately have "test_printf E s = Some (m_draw (print (e_font E) ?t COL_INFO) (k_puts_bytes ?t s))"
    by (simp add: test_printf_def)
  moreover have "k_puts_bytes ?t s = k_puts ''printf: works'' s" by (simp add: kernel_defs)
  ultimately have e: "test_printf E s = Some (m_print E ''printf: works'' COL_INFO (k_puts ''printf: works'' s))"
    by (simp add: m_print_def)
  have ch: "0 \<notin> set ?t" "10 \<notin> set ?t" by (simp_all add: boot_chars)
  have "booting s (boot_line ''printf: works'' @ []) (m_print E ''printf: works'' COL_INFO (k_puts ''printf: works'' s))"
    by (rule booting_trans [OF booting_puts(1) [OF ch] booting_print(1)])
  with e show ?thesis by (simp add: booting_print booting_puts(2) [OF ch])
qed

subsection \<open>All of them\<close>

definition boot_log :: "u8 list" where
  "boot_log = concat (map boot_line [''bootloader: works'', ''idt: works'', ''stack guard: works'', ''paging: works'',
     ''pmm: works'', ''vmm: works'', ''printf: works''])"

text \<open>The verdict of \<^verbatim>\<open>sched_test\<close>; its second string carries a newline of its own.\<close>

definition sched_log :: "u8 list" where
  "sched_log = boot_line ''[sched_test] '' @ boot_line ''PASS'' @ [13, 10]"

lemma serial_shell_io: "\<exists>c. k_io (serial_shell_init s) = (k_io s)\<lparr>com1 := com1 (k_io s) @ c\<rparr>"
proof -
  have "\<exists>c. serial_puts str sent = sent @ c" for str sent
    using serial_fold_prefix [of "cstr str" sent] serial_putc_prefix [of 10 "fold serial_putc (cstr str) sent"]
    by (auto simp: serial_puts_def)
  then obtain f where "serial_puts str sent = sent @ f str sent" for str sent by metis
  then show ?thesis by (simp add: serial_shell_init_def kernel_defs) blast
qed

lemma boot_tests_pass:
  assumes "vm_ready 0xD0000000 (k_vm s)" "32 \<le> pm_skip (vm_pmm (k_vm s))" "guarded (k_mem s)"
  shows "\<exists>t s'. boot_tests E s = Some s' \<and> booting s boot_log t \<and> vm_ready 0xD0002000 (k_vm t)
    \<and> s' = serial_shell_init (t\<lparr>k_io := (k_io t)\<lparr>polls := drop_scancodes (polls (k_io t))\<rparr>\<rparr>)"
proof -
  let ?s0 = "m_print E ''stack guard: works'' COL_INFO (m_print E ''idt: works'' COL_INFO
    (k_puts ''stack guard: works'' (k_puts ''idt: works'' (k_puts ''bootloader: works'' (m_draw (fill_screen COL_BG) s)))))"
  have d: "booting s [] (m_draw f s)" "k_vm (m_draw f s) = k_vm s" for f
    by (simp_all add: booting_def m_draw_def kernel_defs)
  have ch: "0 \<notin> set (bytes ''bootloader: works'')" "10 \<notin> set (bytes ''bootloader: works'')"
    "0 \<notin> set (bytes ''idt: works'')" "10 \<notin> set (bytes ''idt: works'')"
    "0 \<notin> set (bytes ''stack guard: works'')" "10 \<notin> set (bytes ''stack guard: works'')"
    by (simp_all add: boot_chars)
  have b0: "booting s ([] @ boot_line ''bootloader: works'' @ boot_line ''idt: works'' @ boot_line ''stack guard: works'' @ [] @ []) ?s0"
    by (rule booting_trans [OF d(1) booting_trans [OF booting_puts(1) [OF ch(1,2)] booting_trans [OF booting_puts(1) [OF ch(3,4)]
          booting_trans [OF booting_puts(1) [OF ch(5,6)] booting_trans [OF booting_print(1) booting_print(1)]]]]])
  have v0: "k_vm ?s0 = k_vm s"
    by (simp only: booting_print(2) booting_puts(2) [OF ch(1,2)] booting_puts(2) [OF ch(3,4)] booting_puts(2) [OF ch(5,6)] d(2))
  have "paging_inv (vm_pg (k_vm ?s0))" using assms(1) by (simp add: v0 vm_ready_def vmm_inv_def)
  from test_paging_passes [OF this, of E] obtain s1 where s1: "test_paging E ?s0 = Some s1" "booting ?s0 (boot_line ''paging: works'') s1"
    "k_vm s1 = (k_vm s)\<lparr>vm_pg := pg_back (vm_pg (k_vm s)), vm_pmm := bitmap_store 0x100000 0xDEADBEEF (vm_pmm (k_vm s))\<rparr>"
    unfolding v0 by blast
  have r1: "vm_ready 0xD0000000 (k_vm s1)" unfolding s1(3) by (rule vm_ready_paging [OF assms(1,2)])
  note t2 = test_pmm_passes [OF r1, of E]
  note t3 = test_vmm_passes [OF conjunct2 [OF t2], of E]
  let ?s3 = "test_vmm E (test_pmm E s1)"
  have b3: "booting s (([] @ boot_line ''bootloader: works'' @ boot_line ''idt: works'' @ boot_line ''stack guard: works'' @ [] @ [])
      @ boot_line ''paging: works'' @ boot_line ''pmm: works'' @ boot_line ''vmm: works'') ?s3"
    by (rule booting_trans [OF b0 booting_trans [OF s1(2) booting_trans [OF conjunct1 [OF t2] conjunct1 [OF t3]]]])
  have "guarded (k_mem ?s3)"
    using b3 by (intro guarded_keep [OF assms(3)]) (simp add: booting_def)
  note g = stack_guard_intact [OF conjunct2 [OF t3] this]
  obtain t where t: "test_printf E ?s3 = Some t" "booting ?s3 (boot_line ''printf: works'') t" "k_vm t = k_vm ?s3"
    using test_printf_passes by blast
  have "booting s boot_log t" using booting_trans [OF b3 t(2)] by (simp add: boot_log_def)
  with t s1(1) t3 g show ?thesis by (intro exI [of _ t] exI) (simp add: boot_tests_def Let_def)
qed

end
