(* ===== verification/Boot_Spec.thy ===== *)
theory Boot_Spec
  imports Boot_Tests Shell_Pipe
begin

text \<open>
  What \<^verbatim>\<open>kernel_main\<close> establishes: on a machine whose static variables are as the loader leaves them and whose
  memory map has room, every phase returns, the self tests pass and give back what they took, and the invariants
  of all components hold together when the shell starts.
\<close>

subsection \<open>The first phase\<close>

text \<open>What the static variables of the components hold before \<^verbatim>\<open>kernel_main\<close>.\<close>

definition cold :: "machine \<Rightarrow> bool" where
  "cold s \<longleftrightarrow> length (tasks (k_sched s)) = MAX_TASKS \<and> io_booted (k_io s)
     \<and> length (sh_regions (k_shm s)) = SHMEM_MAX \<and> (\<forall>r \<in> set (sh_regions (k_shm s)). length (sh_name r) = 32)
     \<and> m_mouse s = mouse_boot \<and> g_out_fd s = -1 \<and> g_in_fd s = -1"

text \<open>
  The usable region of the memory map, where the frame bitmap, the heap and the pool of frames go: page-aligned above
  1 MB, with two frames besides the reserved ones, of at most 1 GB (8 pages of bitmap, so that the bitmap ends where
  the heap begins), and with bitmap and heap below the page tables at 3 MB.
\<close>

definition boot_map :: "e820_entry list \<Rightarrow> u32 \<Rightarrow> u32 \<Rightarrow> bool" where
  "boot_map es b t \<longleftrightarrow> pmm_region es b t \<and> 0x100000 \<le> b \<and> page_base b = b
     \<and> unat (pmm_bmap_pages t) \<le> 8 \<and> unat b + 0x88000 \<le> fst pagetab_area \<and> pmm_bmap_pages t + 130 \<le> t"

lemma boot_map_parts:
  assumes "boot_map es b t"
  shows "pmm_region es b t" "0x100000 \<le> b" "page_base b = b" "unat (pmm_bmap_pages t) \<le> 8"
    "unat b + 0x88000 \<le> 4294967296" "pmm_bmap_pages t + 130 \<le> t"
  using assms by (simp_all add: boot_map_def pagetab_area_def)

definition core_shm :: "e820_entry list \<Rightarrow> u32 \<Rightarrow> machine \<Rightarrow> shmem" where
  "core_shm es fb s = shmem_init ((k_shm s)
     \<lparr>sh_mem := stack_guard_init (k_mem s),
      sh_vm := vmm_init ((k_vm s)\<lparr>vm_pg := paging_init fb (vm_pg (k_vm s)), vm_pmm := pmm_init es (vm_pmm (k_vm s))\<rparr>)\<rparr>)"

subsection \<open>The header of the heap and the bitmap\<close>

lemma bitmap_poke_clear:
  "unat (pm_bitmap p) + 4 * unat ((pm_total p + 31) div 32) \<le> unat a \<Longrightarrow> bitmap_poke a x p = p"
  by (auto simp: bitmap_poke_def Let_def)

lemma heap_header_clear:
  assumes "unat (pm_bitmap p) + 4 * unat ((pm_total p + 31) div 32) \<le> unat pool" "unat pool + 16 \<le> 4294967296"
  shows "heap_header_store pool p = p"
proof -
  have one: "bitmap_poke (pool + word_of_nat k) x p = p" if "k < 16" for k x
  proof -
    have "unat (pool + word_of_nat k) = unat pool + k"
      using that assms(2) by (subst unat_add_u32) (simp_all add: unat_of_nat_u32)
    with assms(1) show ?thesis by (intro bitmap_poke_clear) simp
  qed
  have noop: "fold (\<lambda>(k, x). bitmap_poke (pool + word_of_nat k) x) xs p = p" if "\<forall>k \<in> fst ` set xs. k < 16" for xs
    using that by (induction xs) (auto simp: one)
  show ?thesis unfolding heap_header_store_def by (rule noop) (simp add: bytes32_def)
qed

lemma bitmap_words:
  assumes "pmm_region es b t"
  shows "4 * unat ((t + 31) div 32) \<le> unat (pmm_bmap_pages t) * 4096"
proof -
  define n where "n = unat ((t + 31) div 32)"
  have "unat t * 4096 \<le> 4294967296" using assms by (simp add: pmm_region_def Let_def)
  then have "unat t \<le> 1048576" by linarith
  then have n: "n \<le> 32768" by (simp add: n_def unat_div unat_add_u32)
  have 1: "unat (((t + 31) div 32) * 4) = n * 4" using n by (subst unat_mult_u32) (simp_all add: n_def)
  have 2: "unat (((t + 31) div 32) * 4 + 4095) = n * 4 + 4095" using n 1 by (subst unat_add_u32) simp_all
  have e: "pmm_bmap_pages t = (((t + 31) div 32) * 4 + 4095) div 4096" by (simp add: pmm_bmap_pages_def add.commute)
  have "unat (4096 :: u32) = 4096" by simp
  then have "unat (pmm_bmap_pages t) = (n * 4 + 4095) div 4096" unfolding e unat_div 2 by (simp only:)
  then show ?thesis unfolding n_def [symmetric] by linarith
qed

lemma boot_header_clear:
  assumes "boot_map es b t"
  shows "heap_header_store (heap_pool (kmalloc_init (get_heap_base (memory_init es memory_state0)) h)) (pmm_init es p) = pmm_init es p"
proof (rule heap_header_clear)
  note M = boot_map_parts [OF assms]
  note f = pmm_init_fields [OF M(1), where p = p]
  let ?h = "kmalloc_init (get_heap_base (memory_init es memory_state0)) h"
  have "heap_pool ?h = heap_head ?h" by (simp add: kmalloc_init_def Let_def)
  with heap_head_of_init [OF M(1,2,5), of h] have u: "unat (heap_pool ?h) = unat b + 0x8000" by simp
  show "unat (heap_pool ?h) + 16 \<le> 4294967296" using u M(5) by linarith
  have "4 * unat ((t + 31) div 32) \<le> 0x8000" using bitmap_words [OF M(1)] M(4) by simp
  then show "unat (pm_bitmap (pmm_init es p)) + 4 * unat ((pm_total (pmm_init es p) + 31) div 32) \<le> unat (heap_pool ?h)"
    by (simp add: f u)
qed

subsection \<open>What the phases send\<close>

lemma prefix_serial_putc: "prefix a b \<Longrightarrow> prefix a (serial_putc c b)"
  using serial_putc_prefix [of c b] by (auto simp: prefix_def)

lemma prefix_fold_putc: "prefix a b \<Longrightarrow> prefix a (fold serial_putc xs b)"
  using serial_fold_prefix [of xs b] by (auto simp: prefix_def)

lemma prefix_serial_puts: "prefix a b \<Longrightarrow> prefix a (serial_puts str b)"
  by (simp add: serial_puts_def prefix_serial_putc prefix_fold_putc)

lemma prefix_serial_puthex: "prefix a b \<Longrightarrow> prefix a (serial_puthex n b)"
proof -
  have "fold (\<lambda>i. serial_putc (f i)) xs c = fold serial_putc (map f xs) c" for f :: "nat \<Rightarrow> u8" and xs c
    by (simp add: fold_map comp_def)
  then show "prefix a b \<Longrightarrow> prefix a (serial_puthex n b)"
    unfolding serial_puthex_def by (simp only: prefix_fold_putc prefix_serial_puts)
qed

lemmas prefix_serial = prefix_serial_putc prefix_serial_puts prefix_serial_puthex

lemma acpi_init_log: "prefix com (snd (acpi_init mem (a, com)))"
  by (simp add: acpi_init_def Let_def acpi_puts_def prefix_serial)

lemma sched_log_puts:
  "serial_puts (bytes (''PASS'' @ [CHR 0x0A])) (serial_puts (bytes ''[sched_test] '') com) = com @ sched_log"
  by (simp add: serial_puts_def serial_putc_def cstr_def sched_log_def boot_line_def boot_chars)

lemma m_sched_test_frame:
  "k_sched (m_sched_test s) = fst (sched_test (k_sched s))" "k_shm (m_sched_test s) = k_shm s"
  "k_heap (m_sched_test s) = k_heap s" "m_mouse (m_sched_test s) = m_mouse s"
  "g_out_fd (m_sched_test s) = g_out_fd s" "g_in_fd (m_sched_test s) = g_in_fd s"
  by (cases "sched_test (k_sched s)"; simp add: m_sched_test_def k_puts_def)+

lemma m_sched_test_io:
  assumes "length (tasks (k_sched s)) = MAX_TASKS"
  shows "k_io (m_sched_test s) = (k_io s)\<lparr>com1 := com1 (k_io s) @ sched_log\<rparr>"
proof -
  obtain sc rs where r: "sched_test (k_sched s) = (sc, rs)" by fastforce
  with sched_test_result(1) [OF assms] have "list_all (\<lambda>r. r) rs" by (simp add: list_all_iff)
  with r show ?thesis by (simp add: m_sched_test_def k_puts_def sched_log_puts [unfolded append.simps])
qed

lemma m_acpi_init_frame:
  "k_sched (m_acpi_init s) = k_sched s" "k_shm (m_acpi_init s) = k_shm s"
  "k_heap (m_acpi_init s) = k_heap s" "k_heap_base (m_acpi_init s) = k_heap_base s" "m_mouse (m_acpi_init s) = m_mouse s"
  "g_out_fd (m_acpi_init s) = g_out_fd s" "g_in_fd (m_acpi_init s) = g_in_fd s"
  "\<exists>c. k_io (m_acpi_init s) = (k_io s)\<lparr>com1 := com1 (k_io s) @ c\<rparr>"
  using acpi_init_log [of "com1 (k_io s)" "k_mem s" "m_acpi s"]
  by (cases "acpi_init (k_mem s) (m_acpi s, com1 (k_io s))"; auto simp: m_acpi_init_def prefix_def)+

lemma boot_core_returns:
  assumes M: "boot_map es b t" and L: "length (tasks (k_sched s)) = MAX_TASKS"
  shows "\<exists>s' k'. boot_core E es fb (s, k) = Some (s', k')
    \<and> k_sched s' = fst (sched_test (sched_init (k_sched s))) \<and> k_shm s' = core_shm es fb s
    \<and> k_heap s' = kmalloc_init (heap_base (memory_init es memory_state0)) (k_heap s)
    \<and> (\<exists>c. k_io s' = (k_io s)\<lparr>com1 := com1 (k_io s) @ sched_log @ c\<rparr>) \<and> m_mouse s' = m_mouse s
    \<and> g_out_fd s' = g_out_fd s \<and> g_in_fd s' = g_in_fd s"
proof -
  have L': "length (tasks (sched_init (k_sched s))) = MAX_TASKS" using sched_inv_init [OF L] by (simp add: sched_inv_def)
  obtain g where io: "k_io (m_acpi_init u) = (k_io u)\<lparr>com1 := com1 (k_io u) @ g u\<rparr>" for u
    using m_acpi_init_frame(8) by metis
  show ?thesis
    by (simp add: boot_core_def Let_def pit_init_def boot_ops m_sched_test_frame m_acpi_init_frame(1-7) io core_shm_def
        m_sched_test_io L' get_heap_base_def shmem_init_def boot_header_clear [OF M, unfolded get_heap_base_def])
      (rule exI, rule refl)
qed

subsection \<open>The devices\<close>

lemma fat12_init_used:
  assumes "used_fds v = replicate n False"
  shows "used_fds (fst (fat12_init lba v)) = replicate n False"
proof -
  have g: "map ff_used (g_fds v) = replicate n False" using assms by (simp add: used_fds_def)
  then have "map (\<lambda>f. ff_used (f\<lparr>ff_used := False\<rparr>)) (g_fds v) = replicate n False"
    by (simp add: map_replicate_const) (metis length_map length_replicate)
  with g show ?thesis
    using g_fds_read_sector [of lba "v\<lparr>g_part_lba := lba\<rparr>"]
    by (auto simp: fat12_init_def used_fds_def set_geometry_def Let_def comp_def split: prod.splits)
qed

lemma fd_init_printed: "printed (fd_init io) = printed io"
  by (simp add: fd_init_def)

lemma fd_init_outputs: "com1 (fd_init io) = com1 io" "polls (fd_init io) = polls io" "kbd_shift_down (fd_init io) = kbd_shift_down io"
  by (simp_all add: fd_init_def)

lemma boot_devices_returns:
  assumes "io_booted (k_io s)" and "\<And>h. mouse_init (e_dev E) h \<noteq> None"
  shows "\<exists>s' k'. boot_devices E (s, k) = Some (s', k')
    \<and> sched_inv (k_sched s) = sched_inv (k_sched s') \<and> k_shm s' = k_shm s \<and> k_heap s' = k_heap s
    \<and> (\<exists>io c. io_booted io \<and> k_io s' = fd_init io \<and> com1 io = com1 (k_io s) @ c \<and> polls io = polls (k_io s)
         \<and> kbd_shift_down io = kbd_shift_down (k_io s))
    \<and> m_mouse s' = mouse_set_bounds 800 600 (m_mouse s)
    \<and> g_out_fd s' = g_out_fd s \<and> g_in_fd s' = g_in_fd s"
proof -
  obtain v ok where v: "fat12_init 256 (vol (k_io s)) = (v, ok)" by fastforce
  have "used_fds v = replicate FAT12_MAX_FDS False"
    using fat12_init_used [of "vol (k_io s)" FAT12_MAX_FDS 256] assms(1) v by (simp add: io_booted_def)
  then have b: "io_booted ((k_io s)\<lparr>vol := v, com1 := c\<rparr>)" for c using assms(1) by (simp add: io_booted_def)
  have "\<exists>h'. mouse_init (e_dev E) h = Some h'" for h using assms(2) by (metis option.exhaust)
  then obtain mi where m: "mouse_init (e_dev E) h = Some (mi h)" for h by metis
  have "\<exists>c. serial_puts str com = com @ c" for str com
    using prefix_serial_puts [of com com str] by (auto simp: prefix_def)
  then obtain f where f: "serial_puts str com = com @ f str com" for str com by metis
  have io: "\<exists>io c'. io_booted io \<and> fd_init ((k_io s)\<lparr>vol := v, com1 := com1 (k_io s) @ c\<rparr>) = fd_init io
      \<and> com1 io = com1 (k_io s) @ c' \<and> polls io = polls (k_io s) \<and> kbd_shift_down io = kbd_shift_down (k_io s)" for c
    by (rule exI [of _ "(k_io s)\<lparr>vol := v, com1 := com1 (k_io s) @ c\<rparr>"]) (simp add: b)
  show ?thesis
    by (cases ok) (simp_all add: boot_devices_def Let_def vol_do_def v m boot_ops m_tss_init_def m_serial_init_def
        set_io_def fd_init_printed sched_inv_def f, (use io in blast)+)
qed

subsection \<open>The kernel when the shell starts\<close>

text \<open>Nothing is open but the three standard streams.\<close>

definition nothing_open :: "machine \<Rightarrow> bool" where
  "nothing_open s \<longleftrightarrow> (\<forall>i<FD_MAX. d_used (fds (k_io s) ! i) \<longleftrightarrow> i < 3) \<and> (\<forall>i<PIPE_MAX. \<not> p_used (pipes (k_io s) ! i))
     \<and> used_fds (k_vol s) = replicate FAT12_MAX_FDS False"

definition boot_ready :: "machine \<Rightarrow> bool" where
  "boot_ready s \<longleftrightarrow> sched_inv (k_sched s) \<and> shell_idle s \<and> nothing_open s \<and> shmem_inv (k_shm s) \<and> pmm_live (vm_pmm (k_vm s)) = {}
     \<and> (\<exists>a. kheap_rep (k_heap s) [\<lparr>b_addr = a, b_size = 0x7FFF0, b_free = True\<rparr>]) \<and> mouse_ok (m_mouse s)
     \<and> guarded (k_mem s) \<and> (\<forall>w<0x4000000. paging_get_physical (m_vm s) w = w)"

lemma sched_inv_booted: "length (tasks s) = MAX_TASKS \<Longrightarrow> sched_inv (fst (sched_test (sched_init s)))"
  using sched_inv_init [of s] sched_test_result [of "sched_init s"] by (simp add: sched_inv_def)

lemma mouse_ok_booted: "mouse_ok (mouse_set_bounds 800 600 mouse_boot)"
  by (simp add: mouse_ok_def mouse_set_bounds_def mouse_boot_def)

lemma heap_booted:
  assumes "boot_map es b t"
  shows "\<exists>a. kheap_rep (kmalloc_init (heap_base (memory_init es memory_state0)) h) [\<lparr>b_addr = a, b_size = 0x7FFF0, b_free = True\<rparr>]"
proof -
  note M = boot_map_parts [OF assms]
  have b: "heap_base (memory_init es memory_state0) = ucast b" using M(1) by (simp add: pmm_region_def Let_def)
  have "unat b mod 4096 = 0" using M(3) by (simp add: aligned_iff)
  then have "unat b mod 8 = 0" using mod_mod_cancel [of 8 4096 "unat b"] by simp
  with kmalloc_init_rep [of "ucast b" h] b M(5) show ?thesis by (auto simp: unat_ucast_u64)
qed

lemma fd_ok_outputs: "fd_ok (io\<lparr>polls := ps, com1 := c\<rparr>) = fd_ok io"
  by (simp add: fd_ok_def sizes_ok_def ends_ok_def holder_def files_ok_def file_at_def)

lemma nothing_open_init:
  assumes "io_booted io" "fds (k_io s) = fds (fd_init io)" "pipes (k_io s) = pipes (fd_init io)" "vol (k_io s) = vol io"
  shows "nothing_open s"
proof -
  have "d_used (fds (k_io s) ! i) \<longleftrightarrow> i < 3" if "i < FD_MAX" for i
    using fd_init_nth [OF that, of io] by (simp add: assms(2) fd_none_def)
  moreover have "\<not> p_used (pipes (k_io s) ! i)" if "i < PIPE_MAX" for i
    using that assms(1) by (simp add: assms(3) fd_init_def io_booted_def)
  ultimately show ?thesis using assms(1,4) by (simp add: nothing_open_def k_vol_def io_booted_def)
qed

lemma shmem_inv_free:
  assumes "vmm_inv (sh_vm s)" "length (sh_regions s) = SHMEM_MAX"
    and "\<forall>r \<in> set (sh_regions s). length (sh_name r) = 32 \<and> \<not> sh_used r"
  shows "shmem_inv s"
  using assms by (simp add: shmem_inv_def)

lemma kernel_boots_contract:
  assumes M: "boot_map es b t" and C: "cold s" and mouse: "\<And>h. mouse_init (e_dev E) h \<noteq> None"
  shows "\<exists>s' k' mid c. kernel_boot E es fb (s, k) = Some (s', k') \<and> boot_ready s'
    \<and> com1 (k_io s') = com1 (k_io s) @ sched_log @ mid @ boot_log @ c
    \<and> polls (k_io s') = drop_scancodes (polls (k_io s)) \<and> kbd_shift_down (k_io s') = kbd_shift_down (k_io s)"
proof -
  obtain s1 k1 mid1 where c1: "boot_core E es fb (s, k) = Some (s1, k1)" "k_sched s1 = fst (sched_test (sched_init (k_sched s)))"
    "k_shm s1 = core_shm es fb s" "k_heap s1 = kmalloc_init (heap_base (memory_init es memory_state0)) (k_heap s)"
    "k_io s1 = (k_io s)\<lparr>com1 := com1 (k_io s) @ sched_log @ mid1\<rparr>" "m_mouse s1 = m_mouse s" "g_out_fd s1 = g_out_fd s" "g_in_fd s1 = g_in_fd s"
    using boot_core_returns [OF M] C unfolding cold_def by blast
  have "io_booted (k_io s1)" using c1(5) C by (auto simp: cold_def io_booted_def)
  from boot_devices_returns [OF this mouse, of k1] obtain s2 k2 io mid2 where
    c2: "boot_devices E (s1, k1) = Some (s2, k2)" "sched_inv (k_sched s1) = sched_inv (k_sched s2)" "k_shm s2 = k_shm s1"
      "k_heap s2 = k_heap s1" "io_booted io" "k_io s2 = fd_init io"
      "com1 io = com1 (k_io s1) @ mid2" "polls io = polls (k_io s1)" "kbd_shift_down io = kbd_shift_down (k_io s1)" "m_mouse s2 = mouse_set_bounds 800 600 (m_mouse s1)"
      "g_out_fd s2 = g_out_fd s1" "g_in_fd s2 = g_in_fd s1" by blast
  have v: "k_vm s2 = sh_vm (core_shm es fb s)" "k_mem s2 = sh_mem (core_shm es fb s)"
    by (simp_all add: c2(3) c1(3) k_vm_def k_mem_def)
  have R: "pmm_region es b t" "page_base b = b" "pmm_bmap_pages t + 130 \<le> t" using boot_map_parts [OF M] by simp_all
  have r2: "vm_ready 0xD0000000 (k_vm s2)"
    using vm_ready_init [OF R] by (simp add: v core_shm_def shmem_init_def)
  have "32 \<le> pmm_bmap_pages t + 128" by (simp add: word_le_nat_alt unat_pmm_skip)
  then have k2: "32 \<le> pm_skip (vm_pmm (k_vm s2))"
    using pmm_init_fields(3) [OF R(1)] by (simp add: v core_shm_def shmem_init_def vmm_init_def)
  have g2: "guarded (k_mem s2)" by (simp add: v core_shm_def shmem_init_def guarded_init)
  obtain u s3 where c3: "boot_tests E s2 = Some s3" "booting s2 boot_log u" "vm_ready 0xD0002000 (k_vm u)"
    "s3 = serial_shell_init (u\<lparr>k_io := (k_io u)\<lparr>polls := drop_scancodes (polls (k_io u))\<rparr>\<rparr>)"
    using boot_tests_pass [OF r2 k2 g2] by blast
  note B = c3(2) [unfolded booting_def]
  obtain c where io3: "k_io s3 = (k_io u)\<lparr>polls := drop_scancodes (polls (k_io u)), com1 := com1 (k_io u) @ c\<rparr>"
    using serial_shell_io [of "u\<lparr>k_io := (k_io u)\<lparr>polls := drop_scancodes (polls (k_io u))\<rparr>\<rparr>"] by (auto simp: c3(4))
  have rest: "k_sched s3 = k_sched u" "k_shm s3 = k_shm u" "k_heap s3 = k_heap u" "m_mouse s3 = m_mouse u"
    "g_out_fd s3 = g_out_fd u" "g_in_fd s3 = g_in_fd u"
    by (simp_all add: c3(4) serial_shell_init_def kernel_defs)
  have "fd_ok (k_io s3)"
    using fd_init_ok [OF c2(5)] fd_ok_outputs [where io = "k_io s2"] B by (simp add: io3 c2(6))
  then have "shell_idle s3" using B rest c2(11,12) c1(7,8) C by (simp add: shell_idle_def cold_def)
  moreover have "nothing_open s3"
    using B by (intro nothing_open_init [OF c2(5)]) (simp_all add: io3 c2(6), simp add: fd_init_def)
  moreover have "sched_inv (k_sched s3)" using B rest c2(2) c1(2) C sched_inv_booted by (simp add: cold_def)
  moreover have "shmem_inv (k_shm s3)"
    using c3(3) B rest(2) C
    by (intro shmem_inv_free) (auto simp: vm_ready_def k_vm_def c2(3) c1(3) core_shm_def shmem_init_def cold_def)
  moreover have "\<exists>a. kheap_rep (k_heap s3) [\<lparr>b_addr = a, b_size = 0x7FFF0, b_free = True\<rparr>]"
    using heap_booted [OF M] B rest(3) c2(4) c1(4) by simp
  moreover have "mouse_ok (m_mouse s3)" using B rest(4) c2(10) c1(6) C mouse_ok_booted by (simp add: cold_def)
  moreover have "guarded (k_mem s3)" using B rest(2) by (intro guarded_keep [OF g2]) (simp add: k_mem_def)
  ultimately have "boot_ready s3"
    using c3(3) rest(2) by (simp add: boot_ready_def vm_ready_def k_vm_def m_vm_def)
  moreover have "k_io u = (fd_init io)\<lparr>com1 := com1 (fd_init io) @ boot_log\<rparr>" using B c2(6) by simp
  then have "com1 (k_io s3) = com1 (k_io s) @ sched_log @ (mid1 @ mid2) @ boot_log @ c"
    "polls (k_io s3) = drop_scancodes (polls (k_io s))" "kbd_shift_down (k_io s3) = kbd_shift_down (k_io s)"
    using c2(7-9) c1(5) by (simp_all add: io3 fd_init_outputs)
  moreover have "kernel_boot E es fb (s, k) = Some (s3, k2)" by (simp add: kernel_boot_def c1(1) c2(1) c3(1))
  ultimately show ?thesis by blast
qed

subsection \<open>The shell from boot on\<close>

lemma nothing_open_quiet:
  assumes "quiet s s'" "fd_ok (k_io s)" "nothing_open s"
  shows "nothing_open s'"
proof -
  have q: "fd_view (k_io s') = fd_view (k_io s)" "pipe_view (k_io s') = pipe_view (k_io s)"
    "used_fds (k_vol s') = used_fds (k_vol s)"
    using assms(1) by (simp_all add: quiet_def fd_calm_def k_vol_def)
  have L: "length (fds (k_io s)) = FD_MAX" "length (pipes (k_io s)) = PIPE_MAX"
    using assms(2) by (simp_all add: fd_ok_def sizes_ok_def)
  have L': "length (fds (k_io s')) = FD_MAX" "length (pipes (k_io s')) = PIPE_MAX"
    using arg_cong [OF q(1), of length] arg_cong [OF q(2), of length] L by (simp_all add: fd_view_def pipe_view_def)
  have "d_used (fds (k_io s') ! i) = d_used (fds (k_io s) ! i)" if "i < FD_MAX" for i
    using arg_cong [OF q(1), of "\<lambda>v. v ! i = None"] that L L' by (simp add: fd_view_def split: if_splits)
  moreover have "p_used (pipes (k_io s') ! i) = p_used (pipes (k_io s) ! i)" if "i < PIPE_MAX" for i
    using arg_cong [OF q(2), of "\<lambda>v. v ! i = None"] that L L' by (simp add: pipe_view_def pipe_flag_def split: if_splits)
  ultimately show ?thesis using assms(3) q(3) by (simp add: nothing_open_def)
qed

lemma shell_start_quiet:
  assumes "nothing_open s"
  shows "quiet s (shell_start E y s)"
proof -
  obtain v ok where v: "fat12_init 256 (vol (k_io s)) = (v, ok)" by fastforce
  have "used_fds v = replicate FAT12_MAX_FDS False"
    using fat12_init_used [of "vol (k_io s)" FAT12_MAX_FDS 256] assms v by (simp add: nothing_open_def k_vol_def)
  with assms show ?thesis
    by (simp add: shell_start_def vol_do_def m_draw_def kernel_defs v quiet_def fd_calm_def fd_view_def pipe_view_def
        nothing_open_def)
qed

lemma kernel_main_contract:
  assumes M: "boot_map es b t" and C: "cold s" and mouse: "\<And>h. mouse_init (e_dev E) h \<noteq> None"
    and P: "no_programs E" and run: "kernel_main n E es fb (s, k) = Some s'"
  shows "shell_idle s' \<and> nothing_open s'"
proof -
  obtain u k' where u: "kernel_boot E es fb (s, k) = Some (u, k')" "boot_ready u"
    using kernel_boots_contract [OF M C mouse] by blast
  have i: "shell_idle u" "nothing_open u" "fd_ok (k_io u)" using u(2) by (simp_all add: boot_ready_def shell_idle_def)
  let ?v = "shell_start E (get_y (m_screen u)) u"
  note q = shell_start_quiet [OF i(2), of E "get_y (m_screen u)"]
  note iv = quiet_idle [OF q i(1)]
  have "shell_turns n E ?v = Some s'" using run u(1) by (simp add: kernel_main_def shell_run_def)
  moreover have "length (fds (k_io ?v)) = FD_MAX" using iv by (simp add: shell_idle_def fd_ok_def sizes_ok_def)
  ultimately have r: "quiet ?v s'" using yieldsD [OF shell_turns_quiet [OF P iv]] by blast
  from quiet_trans [OF q r] i show ?thesis using quiet_idle nothing_open_quiet by blast
qed

subsection \<open>The theorems\<close>

text \<open>Of all gates only that of the system calls may be entered from ring 3.\<close>

lemma ring3_gates: "filter (\<lambda>g. gate_flags g AND 0x60 = 0x60) (syscall_init (idt_init [])) =
    [\<lparr>gate_num = 0x80, gate_handler = ''syscall_stub'', gate_selector = 0x08, gate_flags = 0xEE\<rparr>]"
  by (simp add: idt_init_def syscall_init_def idt_set_gate_def)

text \<open>C4. The kernel boots: on every memory map whose usable region has room and at most 1 GB, with the frame bitmap and
  the heap below the page tables (\<open>boot_map\<close>), whatever the disk, the ACPI tables and the framebuffer
  address, provided that the mouse controller's buffer can be emptied, \<^verbatim>\<open>kernel_main\<close> reaches its shell with
  the invariants of scheduler, descriptors, shared memory, heap and mouse established, the first 64 MB mapped to themselves, no
  frame in use after the self tests and the stack guard intact, and it has reported on the serial port that the
  self test of the scheduler passed (\<open>sched_log\<close>) and, later, that those of interrupts, stack guard, paging, frames,
  pages and formatted output did (\<open>boot_log\<close>). What stands between the two comes from the ACPI tables and the
  disk, whose file system may be found unusable.\<close>

theorem kernel_boots:
  assumes "boot_map es b t" and "cold s" and "\<forall>h. mouse_init (e_dev E) h \<noteq> None"
  shows "\<exists>s' k' mid c. kernel_boot E es fb (s, k) = Some (s', k') \<and> boot_ready s'
    \<and> com1 (k_io s') = com1 (k_io s) @ sched_log @ mid @ boot_log @ c"
  using kernel_boots_contract [OF assms(1,2), of E fb k] assms(3) by blast

lemma cold_tiny: "cold machine_tiny"
  by (simp add: cold_def machine_tiny_def sched0_def MAX_TASKS_def io_booted_def fd_init_def io0_def used_fds_def
      fat_blank_def FAT12_MAX_FDS_def shmem0_def SHMEM_MAX_def)

lemma boot_map_16mb: "boot_map map_16mb 0x100000 4096"
  by (simp add: boot_map_def region_16mb page_base_def pmm_bmap_pages_def pagetab_area_def)

lemma mouse_silent: "\<forall>h. mouse_init (e_dev env_tiny) h \<noteq> None"
proof -
  have "mouse_drain (\<lambda>_ _. 0) h = Some (h @ [In8 0x64 0])" for h
    by (subst mouse_drain.simps) (simp add: inb_def)
  then show ?thesis by (simp add: mouse_init_def env_tiny_def Let_def case_prod_unfold)
qed

lemma kernel_boots_witness:
  "\<exists>s' k'. kernel_boot env_tiny map_16mb 0xFD000000 (machine_tiny, \<lparr>b_gates = [], framebuffer = 0, fb_pitch = 0\<rparr>) = Some (s', k')
    \<and> pmm_live (vm_pmm (k_vm s')) = {} \<and> prefix sched_log (com1 (k_io s'))"
  using kernel_boots [OF boot_map_16mb cold_tiny mouse_silent,
      of "0xFD000000" "\<lparr>b_gates = [], framebuffer = 0, fb_pitch = 0\<rparr>"]
  by (auto simp: boot_ready_def machine_tiny_def io0_def fd_init_outputs)

text \<open>A line typed on the keyboard, as the shell reads it.\<close>

fun typed_line :: "nat \<Rightarrow> u8 \<Rightarrow> u8 list \<Rightarrow> u8 list \<Rightarrow> u8 list option" where
  "typed_line cap sh [] buf = None"
| "typed_line cap sh (sc # scs) buf =
     (let (sh, c) = read_key sc sh in
      if c = 0 then typed_line cap sh scs buf
      else if c = 0x0D \<or> c = 0x0A then Some buf
      else if c = 0x08 \<or> c = 0x7F then typed_line cap sh scs (butlast buf)
      else if length buf < cap - 1 then typed_line cap sh scs (buf @ [c])
      else typed_line cap sh scs buf)"

lemma shift_frame [simp]: "kbd_shift_down (k_io (k_putc c s)) = kbd_shift_down (k_io s)"
  "kbd_shift_down (k_io (m_update_cursor s)) = kbd_shift_down (k_io s)" "kbd_shift_down (k_io (m_draw f s)) = kbd_shift_down (k_io s)"
  by (simp_all add: k_putc_def m_update_cursor_def m_draw_def split: prod.split)

lemma readline_typed:
  "typed_line cap (kbd_shift_down (k_io s)) scs buf = Some line \<Longrightarrow>
     \<exists>s'. readline_loop E cap y (map Scancode scs) pend buf x s = Some (s', line)"
  by (induction scs arbitrary: buf x s) (auto simp: Let_def split: prod.splits if_splits)

lemma shell_readline_typed:
  assumes "polls (k_io s) = map Scancode scs" "typed_line cap (kbd_shift_down (k_io s)) scs [] = Some line"
  shows "\<exists>s'. shell_readline E cap s = Some (s', line)"
proof -
  have "drop_serial (map Scancode scs) = map Scancode scs" by (cases scs) (simp_all add: drop_serial_def)
  then show ?thesis
    using assms readline_typed by (simp add: shell_readline_def Let_def k_puts_bytes_def m_draw_def)
qed

lemma nothing_open_room:
  assumes "nothing_open s" "fd_ok (k_io s)"
  shows "\<exists>io. fd_pipe (k_io s) = (io, Some (3, 4))"
proof -
  have L: "length (fds (k_io s)) = FD_MAX" using assms(2) by (simp add: fd_ok_def sizes_ok_def)
  have n: "\<not> d_used (fds (k_io s) ! i)" if "3 \<le> i" "i < FD_MAX" for i using assms(1) that by (simp add: nothing_open_def)
  have "\<not> p_used (pipes (k_io s) ! 0)" using assms(1) by (simp add: nothing_open_def PIPE_MAX_def)
  then have "alloc_pipe (k_io s) = Some 0" by (simp add: alloc_pipe_def PIPE_MAX_def upt_rec)
  moreover have "alloc_fd (k_io s) = Some 3" using n [of 3] by (simp add: alloc_fd_def FD_MAX_def upt_rec)
  moreover have "alloc_fd (set_fd 3 (d\<lparr>d_used := True\<rparr>) (k_io s)) = Some 4" for d
    using n [of 4] L by (simp add: alloc_fd_def set_fd_def FD_MAX_def upt_rec)
  ultimately show ?thesis by (simp add: fd_pipe_def Let_def)
qed

text \<open>The keys of \<^verbatim>\<open>echo hi | cat\<close>, after the reading at boot that finds no key.\<close>

definition keys_echo :: "u8 list" where
  "keys_echo = [0x12, 0x2E, 0x23, 0x18, 0x39, 0x23, 0x17, 0x39, 0x2A, 0x2B, 0xAA, 0x39, 0x2E, 0x1E, 0x14, 0x1C]"

lemma typed_echo: "typed_line CMD_BUF 0 keys_echo [] = Some (bytes ''echo '' @ [0x68, 0x69] @ bytes '' | cat'')"
  by code_simp

definition machine_keys :: machine where
  "machine_keys = machine_tiny\<lparr>k_io := (k_io machine_tiny)\<lparr>polls := Scancode 0 # map Scancode keys_echo\<rparr>\<rparr>"

lemma cold_keys: "cold machine_keys"
  using cold_tiny by (simp add: cold_def machine_keys_def io_booted_def)

lemma shell_start_keys: "polls (k_io (shell_start E y s)) = polls (k_io s)"
  "kbd_shift_down (k_io (shell_start E y s)) = kbd_shift_down (k_io s)"
  by (simp_all add: shell_start_def vol_do_def m_draw_def kernel_defs split: prod.split)

text \<open>C3. From boot on, after any number of command lines, whatever they were as long as they start no program
  (\<open>no_programs\<close>: one that is started does not come back), the kernel's shell is back in its idle state: the
  descriptor table is sound and nothing is open but the three standard streams, no pipe is in use, no file is open,
  nothing is redirected.\<close>

theorem kernel_main_clean:
  assumes "boot_map es b t" and "cold s" and "\<forall>h. mouse_init (e_dev E) h \<noteq> None"
    and "no_programs E" and "kernel_main n E es fb (s, k) = Some s'"
  shows "shell_idle s' \<and> nothing_open s'"
  using kernel_main_contract [OF assms(1,2) _ assms(4,5)] assms(3) by blast

text \<open>After the line \<^verbatim>\<open>echo hi | cat\<close>.\<close>

lemma kernel_main_clean_witness:
  "\<exists>s'. kernel_main 1 env_idle map_16mb 0xFD000000 (machine_keys, \<lparr>b_gates = [], framebuffer = 0, fb_pitch = 0\<rparr>) = Some s'
    \<and> nothing_open s'"
proof -
  let ?k = "\<lparr>b_gates = [], framebuffer = 0, fb_pitch = 0\<rparr> :: boot"
  have ms: "\<forall>h. mouse_init (e_dev env_idle) h \<noteq> None" using mouse_silent by (simp add: env_idle_def)
  then have m: "mouse_init (e_dev env_idle) h \<noteq> None" for h by blast
  from kernel_boots_contract [OF boot_map_16mb cold_keys m, of "0xFD000000" ?k]
  obtain u k' where u: "kernel_boot env_idle map_16mb 0xFD000000 (machine_keys, ?k) = Some (u, k')" "boot_ready u"
    "polls (k_io u) = map Scancode keys_echo" "kbd_shift_down (k_io u) = 0"
    by (auto simp: machine_keys_def machine_tiny_def fd_init_outputs io0_def)
  have i: "shell_idle u" "nothing_open u" "fd_ok (k_io u)" using u(2) by (simp_all add: boot_ready_def shell_idle_def)
  define v where "v = shell_start env_idle (get_y (m_screen u)) u"
  have q: "quiet u v" unfolding v_def by (rule shell_start_quiet [OF i(2)])
  have iv: "shell_idle v" by (rule quiet_idle [OF q i(1)])
  have "polls (k_io v) = map Scancode keys_echo" "kbd_shift_down (k_io v) = 0" by (simp_all add: v_def shell_start_keys u(3,4))
  then obtain w where w: "shell_readline env_idle CMD_BUF v = Some (w, bytes ''echo '' @ [0x68, 0x69] @ bytes '' | cat'')"
    using shell_readline_typed [of v keys_echo CMD_BUF] typed_echo by auto
  have "length (fds (k_io v)) = FD_MAX" using iv by (simp add: shell_idle_def fd_ok_def sizes_ok_def)
  with yieldsD [OF shell_readline_quiet [OF quiet_self] w] have qw: "quiet v w" by simp
  have iw: "shell_idle w" by (rule quiet_idle [OF qw iv])
  have "nothing_open w" using nothing_open_quiet [OF quiet_trans [OF q qw] i(3,2)] .
  moreover have "fd_ok (k_io w)" using iw by (simp add: shell_idle_def)
  ultimately obtain io where "fd_pipe (k_io w) = (io, Some (3, 4))" using nothing_open_room by blast
  from echo_cat_contract [OF iw this, of "[0x68, 0x69]" env_idle] w
  have "\<exists>s'. shell_turn env_idle v = Some s'" by (auto simp: shell_turn_def)
  then obtain s' where "kernel_main 1 env_idle map_16mb 0xFD000000 (machine_keys, ?k) = Some s'"
    using u(1) by (auto simp: kernel_main_def shell_run_def v_def [symmetric])
  with kernel_main_clean [OF boot_map_16mb cold_keys ms idle_programs this] show ?thesis by blast
qed

end
