(* ===== verification/Serial_Port.thy ===== *)
theory Serial_Port
  imports Serial Ports
begin

text \<open>
  \<^verbatim>\<open>kernel/io/serial/serial.cpp\<close> at the level of the ports, waiting loops included: every operation reads the line
  status register until the device is ready. The theory shows that the driver refines the list of bytes of theory
  \<open>Serial\<close>, and that it returns when the device does not stay busy for ever.
\<close>

definition COM1 :: u16 where "COM1 = 0x3F8"

text \<open>\<^verbatim>\<open>while (!(inb(COM1 + 5) & mask));\<close>\<close>

partial_function (option) uart_wait :: "device \<Rightarrow> u8 \<Rightarrow> pio list \<Rightarrow> pio list option" where
  "uart_wait dev msk h =
     (case inb dev (COM1 + 5) h of (x, h1) \<Rightarrow> if x AND msk \<noteq> 0 then Some h1 else uart_wait dev msk h1)"

definition uart_init :: "pio list \<Rightarrow> pio list" where
  "uart_init h = fold (\<lambda>(p, x). outb p x) serial_init h"

definition uart_send :: "device \<Rightarrow> u8 \<Rightarrow> pio list \<Rightarrow> pio list option" where
  "uart_send dev c h = map_option (outb COM1 c) (uart_wait dev 0x20 h)"

definition uart_putc :: "device \<Rightarrow> u8 \<Rightarrow> pio list \<Rightarrow> pio list option" where
  "uart_putc dev c h =
     (if c = 10 then Option.bind (uart_send dev 13 h) (uart_send dev c) else uart_send dev c h)"

fun uart_text :: "device \<Rightarrow> u8 list \<Rightarrow> pio list \<Rightarrow> pio list option" where
  "uart_text dev [] h = Some h"
| "uart_text dev (c # s) h = Option.bind (uart_putc dev c h) (uart_text dev s)"

definition uart_puts :: "device \<Rightarrow> u8 list \<Rightarrow> pio list \<Rightarrow> pio list option" where
  "uart_puts dev s h = Option.bind (uart_text dev (cstr s) h) (uart_putc dev 10)"

definition uart_puthex :: "device \<Rightarrow> u32 \<Rightarrow> pio list \<Rightarrow> pio list option" where
  "uart_puthex dev n h =
     Option.bind (uart_puts dev (bytes ''0x'') h)
       (uart_text dev (map (\<lambda>i. hex_digits ! unat (drop_bit i n AND 0xF)) [28, 24, 20, 16, 12, 8, 4, 0]))"

definition uart_getc :: "device \<Rightarrow> pio list \<Rightarrow> (u8 \<times> pio list) option" where
  "uart_getc dev h = map_option (inb dev COM1) (uart_wait dev 0x01 h)"

definition uart_ready :: "device \<Rightarrow> pio list \<Rightarrow> u8 \<times> pio list" where
  "uart_ready dev h = (case inb dev (COM1 + 5) h of (x, h1) \<Rightarrow> (x AND 0x01, h1))"

subsection \<open>The bytes on the line\<close>

definition com1_sent :: "pio list \<Rightarrow> u8 list" where
  "com1_sent h = map (\<lambda>(p, x). ucast x) (filter (\<lambda>(p, x). p = COM1) (pio_outs h))"

lemma com1_sent_out [simp]: "com1_sent (outb COM1 c h) = com1_sent h @ [c]"
  by (simp add: com1_sent_def ucast_up_ucast_id is_up)

lemma uart_wait_sent: "uart_wait dev msk h = Some h' \<Longrightarrow> com1_sent h' = com1_sent h"
proof (induction rule: uart_wait.raw_induct [rotated, consumes 1, case_names step])
  case (step f dev msk h h')
  have "com1_sent (snd (inb dev (COM1 + 5) h)) = com1_sent h" by (simp add: inb_def com1_sent_def Let_def)
  with step show ?case by (auto split: prod.splits if_splits)
qed

lemma uart_send_sent: "uart_send dev c h = Some h' \<Longrightarrow> com1_sent h' = com1_sent h @ [c]"
  using uart_wait_sent by (auto simp: uart_send_def)

lemma uart_putc_sent: "uart_putc dev c h = Some h' \<Longrightarrow> com1_sent h' = serial_putc c (com1_sent h)"
  using uart_send_sent by (auto simp: uart_putc_def serial_putc_def Option.bind_eq_Some_conv split: if_splits)

lemma uart_text_sent: "uart_text dev s h = Some h' \<Longrightarrow> com1_sent h' = fold serial_putc s (com1_sent h)"
  by (induction s arbitrary: h) (auto simp: Option.bind_eq_Some_conv dest: uart_putc_sent)

text \<open>The driver puts on the line exactly what the model of the rest of the kernel says.\<close>

theorem uart_puts_refines: "uart_puts dev s h = Some h' \<Longrightarrow> com1_sent h' = serial_puts s (com1_sent h)"
  by (fastforce simp: uart_puts_def serial_puts_def Option.bind_eq_Some_conv dest: uart_putc_sent uart_text_sent)

theorem uart_puthex_refines: "uart_puthex dev n h = Some h' \<Longrightarrow> com1_sent h' = serial_puthex n (com1_sent h)"
proof -
  assume "uart_puthex dev n h = Some h'"
  then obtain g where g: "uart_puts dev (bytes ''0x'') h = Some g"
    "uart_text dev (map (\<lambda>i. hex_digits ! unat (drop_bit i n AND 0xF)) [28, 24, 20, 16, 12, 8, 4, 0]) g = Some h'"
    unfolding uart_puthex_def Option.bind_eq_Some_conv by blast
  from uart_text_sent [OF g(2)] show ?thesis
    by (simp only: uart_puts_refines [OF g(1)] serial_puthex_def fold_map comp_def)
qed

subsection \<open>The waiting ends\<close>

text \<open>The history after \<open>n\<close> readings of the line status.\<close>

fun uart_polls :: "device \<Rightarrow> nat \<Rightarrow> pio list \<Rightarrow> pio list" where
  "uart_polls dev 0 h = h"
| "uart_polls dev (Suc n) h = uart_polls dev n (snd (inb dev (COM1 + 5) h))"

definition uart_live :: "device \<Rightarrow> u8 \<Rightarrow> bool" where
  "uart_live dev msk \<longleftrightarrow> (\<forall>h. \<exists>n. fst (inb dev (COM1 + 5) (uart_polls dev n h)) AND msk \<noteq> 0)"

lemma uart_wait_ends:
  assumes "fst (inb dev (COM1 + 5) (uart_polls dev n h)) AND msk \<noteq> 0"
  shows "uart_wait dev msk h \<noteq> None"
  using assms
proof (induction n arbitrary: h)
  case 0
  then show ?case by (subst uart_wait.simps) (simp add: case_prod_unfold)
next
  case (Suc n)
  from Suc.IH [of "snd (inb dev (COM1 + 5) h)"] Suc.prems show ?case
    by (subst uart_wait.simps) (simp add: case_prod_unfold)
qed

lemma uart_send_ends: "uart_live dev 0x20 \<Longrightarrow> \<exists>h'. uart_send dev c h = Some h'"
  using uart_wait_ends [of dev _ h "0x20"] by (auto simp: uart_live_def uart_send_def)

lemma uart_putc_ends: "uart_live dev 0x20 \<Longrightarrow> \<exists>h'. uart_putc dev c h = Some h'"
proof -
  assume "uart_live dev 0x20"
  then obtain f where "uart_send dev c h = Some (f c h)" for c h using uart_send_ends by metis
  then show ?thesis by (simp add: uart_putc_def)
qed

lemma uart_text_ends: "uart_live dev 0x20 \<Longrightarrow> \<exists>h'. uart_text dev s h = Some h'"
proof (induction s arbitrary: h)
  case (Cons c s)
  from uart_putc_ends [OF Cons.prems] obtain g where "uart_putc dev c h = Some g" by blast
  with Cons show ?case by simp
qed simp

theorem uart_puts_ends: "uart_live dev 0x20 \<Longrightarrow> \<exists>h'. uart_puts dev s h = Some h'"
proof -
  assume l: "uart_live dev 0x20"
  from uart_text_ends [OF l] obtain g where "uart_text dev (cstr s) h = Some g" by blast
  with uart_putc_ends [OF l] show ?thesis by (simp add: uart_puts_def)
qed

theorem uart_getc_ends: "uart_live dev 0x01 \<Longrightarrow> \<exists>c h'. uart_getc dev h = Some (c, h')"
  using uart_wait_ends [of dev _ h "0x01"] by (auto simp: uart_live_def uart_getc_def inb_def Let_def)

end
