(* ===== verification/Extras.thy ===== *)
theory Extras
  imports Fat_Frame Klib_Mem Chars
begin

text \<open>
  Headers that no other file of the kernel includes yet: the file interface of \<^verbatim>\<open>kernel/klib/libc.hpp\<close>, the alignment and
  bit macros of \<^verbatim>\<open>kernel/klib/macros.h\<close> at type \<^verbatim>\<open>u32\<close>, \<^verbatim>\<open>kernel/system/palette_dump.hpp\<close>, and the two templates at
  the end of \<^verbatim>\<open>kernel/klib/men.h\<close>, whose size of an object is an argument.
\<close>

subsection \<open>Files\<close>

text \<open>A \<^verbatim>\<open>FILE*\<close> is the index of its element of \<^verbatim>\<open>_fpool\<close>; \<^verbatim>\<open>None\<close> is the null pointer.\<close>

record stdio =
  st_vol :: fatfs
  fpool :: "int list"

definition fopen :: "u8 list \<Rightarrow> stdio \<Rightarrow> stdio \<times> nat option" where
  "fopen path s =
     (let path = (if chr0 path = 0x2F then tl path else path);
          (v, fd) = fat12_open path (st_vol s); s = s\<lparr>st_vol := v\<rparr>
      in if fd < 0 then (s, None) else (s\<lparr>fpool := (fpool s)[nat fd := fd]\<rparr>, Some (nat fd)))"

text \<open>The quotient of signed numbers is cut off towards zero.\<close>

definition fread :: "int \<Rightarrow> int \<Rightarrow> nat \<Rightarrow> stdio \<Rightarrow> (stdio \<times> int \<times> u8 list) option" where
  "fread sz cnt f s =
     (if sz \<le> 0 \<or> cnt \<le> 0 then Some (s, 0, [])
      else let n = word_of_int sz * word_of_int cnt :: u32
      in if n div word_of_int sz \<noteq> word_of_int cnt then Some (s, 0, [])
      else map_option (\<lambda>(v, r, out). (s\<lparr>st_vol := v\<rparr>, (if r < 0 then - (- r div sz) else r div sz), out))
             (fat12_read (fpool s ! f) n (st_vol s)))"

definition fclose :: "nat \<Rightarrow> stdio \<Rightarrow> stdio" where
  "fclose f s = s\<lparr>st_vol := fat12_close (fpool s ! f) (st_vol s)\<rparr>"

definition fseek :: "int \<Rightarrow> int \<Rightarrow> int" where "fseek off whence = 0"
definition ftell :: int where "ftell = 0"
definition feof :: int where "feof = 0"

text \<open>The test for overflow is exact: a request is refused precisely when its size in bytes does not fit.\<close>

lemma fread_guard:
  assumes "0 < sz" "sz < 2147483648" "0 < cnt" "cnt < 2147483648"
  shows "word_of_int sz * word_of_int cnt div word_of_int sz = (word_of_int cnt :: u32) \<longleftrightarrow> sz * cnt < 4294967296"
proof -
  let ?n = "word_of_int sz * word_of_int cnt :: u32"
  have u: "uint (word_of_int sz :: u32) = sz" "uint (word_of_int cnt :: u32) = cnt"
    using assms by (simp_all add: uint_word_of_int)
  have n: "uint ?n = sz * cnt mod 4294967296" by (simp add: uint_word_ariths u)
  have "?n div word_of_int sz = (word_of_int cnt :: u32) \<longleftrightarrow> uint ?n div sz = cnt"
    by (simp add: word_uint_eq_iff uint_div u)
  also have "\<dots> \<longleftrightarrow> sz * cnt < 4294967296"
  proof
    assume "sz * cnt < 4294967296"
    with assms show "uint ?n div sz = cnt" by (simp add: n)
  next
    assume "uint ?n div sz = cnt"
    then have "sz * cnt \<le> uint ?n"
      using assms(1) by (metis div_mult_mod_eq le_add_same_cancel1 mult.commute pos_mod_sign)
    moreover have "uint ?n < 4294967296" by (simp add: n)
    ultimately show "sz * cnt < 4294967296" by simp
  qed
  finally show ?thesis .
qed

lemma fread_overflow:
  assumes "0 < sz" "sz < 2147483648" "0 < cnt" "cnt < 2147483648" "4294967296 \<le> sz * cnt"
  shows "fread sz cnt f s = Some (s, 0, [])"
  using assms fread_guard [OF assms(1-4)] by (simp add: fread_def Let_def)

subsection \<open>Macros\<close>

definition ALIGN_UP :: "u32 \<Rightarrow> u32 \<Rightarrow> u32" where "ALIGN_UP x a = (x + a - 1) AND NOT (a - 1)"
definition ALIGN_DOWN :: "u32 \<Rightarrow> u32 \<Rightarrow> u32" where "ALIGN_DOWN x a = x AND NOT (a - 1)"
definition IS_ALIGNED :: "u32 \<Rightarrow> u32 \<Rightarrow> bool" where "IS_ALIGNED x a \<longleftrightarrow> x AND (a - 1) = 0"
definition PAGE_ALIGN :: "u32 \<Rightarrow> u32" where "PAGE_ALIGN x = ALIGN_UP x 4096"
definition IS_PAGE_ALIGNED :: "u32 \<Rightarrow> bool" where "IS_PAGE_ALIGNED x \<longleftrightarrow> IS_ALIGNED x 4096"
definition IS_POW2 :: "u32 \<Rightarrow> bool" where "IS_POW2 x \<longleftrightarrow> x \<noteq> 0 \<and> x AND (x - 1) = 0"
definition ROUND_UP :: "u32 \<Rightarrow> u32 \<Rightarrow> u32" where "ROUND_UP x n = (x + n - 1) div n * n"
definition ROUND_DOWN :: "u32 \<Rightarrow> u32 \<Rightarrow> u32" where "ROUND_DOWN x n = x div n * n"
definition BIT :: "nat \<Rightarrow> u32" where "BIT n = push_bit n 1"
definition BIT_SET :: "u32 \<Rightarrow> nat \<Rightarrow> u32" where "BIT_SET x n = x OR BIT n"
definition BIT_CLR :: "u32 \<Rightarrow> nat \<Rightarrow> u32" where "BIT_CLR x n = x AND NOT (BIT n)"
definition BIT_FLIP :: "u32 \<Rightarrow> nat \<Rightarrow> u32" where "BIT_FLIP x n = x XOR BIT n"
definition BIT_CHECK :: "u32 \<Rightarrow> nat \<Rightarrow> u32" where "BIT_CHECK x n = drop_bit n x AND 1"

lemma unat_pow2: "k < 32 \<Longrightarrow> unat (2 ^ k :: u32) = 2 ^ k"
proof -
  assume "k < 32"
  then have "(2 :: nat) ^ k < 2 ^ 32" by (intro power_strict_increasing) simp_all
  then show ?thesis using unat_of_nat_u32 [of "2 ^ k"] by simp
qed

text \<open>For a power of two the masks round as the divisions do.\<close>

lemma align_down_round:
  assumes "k < 32"
  shows "ALIGN_DOWN x (2 ^ k) = ROUND_DOWN x (2 ^ k)" "unat (ALIGN_DOWN x (2 ^ k)) = unat x div 2 ^ k * 2 ^ k"
proof -
  have m: "(2 ^ k - 1 :: u32) = mask k" by (simp add: mask_eq_exp_minus_1)
  have "x AND NOT (mask k) = push_bit k (drop_bit k x)"
    by (rule bit_word_eqI) (auto simp: bit_simps)
  then have a: "ALIGN_DOWN x (2 ^ k) = push_bit k (drop_bit k x)" by (simp add: ALIGN_DOWN_def m)
  then show "ALIGN_DOWN x (2 ^ k) = ROUND_DOWN x (2 ^ k)"
    by (simp add: ROUND_DOWN_def push_bit_eq_mult drop_bit_eq_div)
  have d: "unat (x div 2 ^ k) = unat x div 2 ^ k" by (simp only: unat_div unat_pow2 [OF assms])
  have "unat x div 2 ^ k * 2 ^ k \<le> unat x" by (rule div_times_less_eq_dividend)
  moreover have "unat x < 4294967296" by (rule unat_u32_less)
  ultimately have "unat (x div 2 ^ k) * unat (2 ^ k :: u32) < 4294967296"
    unfolding d unat_pow2 [OF assms] by (rule le_less_trans)
  from unat_mult_u32 [OF this] have "unat (x div 2 ^ k * 2 ^ k) = unat x div 2 ^ k * 2 ^ k"
    by (simp only: d unat_pow2 [OF assms])
  then show "unat (ALIGN_DOWN x (2 ^ k)) = unat x div 2 ^ k * 2 ^ k"
    by (simp only: a push_bit_eq_mult drop_bit_eq_div)
qed

lemma align_up_round: "k < 32 \<Longrightarrow> ALIGN_UP x (2 ^ k) = ROUND_UP x (2 ^ k)"
  using align_down_round(1) [of k "x + 2 ^ k - 1"]
  by (simp add: ALIGN_UP_def ALIGN_DOWN_def ROUND_UP_def ROUND_DOWN_def)

lemma bit_macros:
  assumes "n < 32"
  shows "BIT_CHECK (BIT_SET x m) n = (if n = m then 1 else BIT_CHECK x n)"
    "BIT_CHECK (BIT_CLR x m) n = (if n = m then 0 else BIT_CHECK x n)"
    "BIT_FLIP (BIT_FLIP x m) m = x"
proof -
  have c: "BIT_CHECK y n = of_bool (bit y n)" for y
    by (simp add: BIT_CHECK_def and_one_eq bit_iff_odd_drop_bit odd_iff_mod_2_eq_one mod2_eq_if)
  show "BIT_CHECK (BIT_SET x m) n = (if n = m then 1 else BIT_CHECK x n)"
    "BIT_CHECK (BIT_CLR x m) n = (if n = m then 0 else BIT_CHECK x n)"
    using assms by (auto simp: c BIT_SET_def BIT_CLR_def BIT_def bit_simps)
  show "BIT_FLIP (BIT_FLIP x m) m = x" by (simp add: BIT_FLIP_def xor.assoc)
qed

subsection \<open>The palette\<close>

definition palette_dump :: "(nat \<Rightarrow> u8) \<Rightarrow> (nat \<Rightarrow> u8)" where
  "palette_dump vga =
     fold (\<lambda>color. let cell_x = color mod 16 * 20; cell_y = color div 16 * 12 in
       fold (\<lambda>y. fold (\<lambda>x vga. vga((cell_y + y) * 320 + (cell_x + x) := word_of_nat color)) [0..<19]) [0..<11])
     [0..<256] vga"

lemma fold_update_other: "(\<And>x. x \<in> set xs \<Longrightarrow> f x \<noteq> a) \<Longrightarrow> fold (\<lambda>x m. m(f x := v x)) xs m a = m a"
  by (induction xs arbitrary: m) auto

lemma fold_frame: "(\<And>x m. x \<in> set xs \<Longrightarrow> f x m a = m a) \<Longrightarrow> fold f xs m a = (m a :: 'b)"
  by (induction xs arbitrary: m) auto

text \<open>It writes inside the 320 by 200 pixels only.\<close>

lemma palette_dump_inside:
  assumes "320 * 200 \<le> a"
  shows "palette_dump vga a = vga a"
  unfolding palette_dump_def Let_def
proof (rule fold_frame, rule fold_frame, rule fold_update_other)
  fix color y x :: nat
  assume "color \<in> set [0..<256]" "y \<in> set [0..<11]" "x \<in> set [0..<19]"
  then have "color mod 16 < 16" "color div 16 < 16" "y < 11" "x < 19" by (simp_all add: less_mult_imp_div_less)
  then have "color mod 16 * 20 + x < 320" "color div 16 * 12 + y < 200" by linarith+
  moreover have "q * 320 + p < 200 * 320" if "p < 320" "q < 200" for p q :: nat using that by linarith
  ultimately have "(color div 16 * 12 + y) * 320 + (color mod 16 * 20 + x) < 200 * 320" by blast
  with assms show "(color div 16 * 12 + y) * 320 + (color mod 16 * 20 + x) \<noteq> a" by simp
qed

subsection \<open>Objects\<close>

definition zero_obj :: "nat \<Rightarrow> u32 \<Rightarrow> mem \<Rightarrow> mem" where
  "zero_obj size_of obj m = mem_zero obj size_of m"

definition obj_eq :: "nat \<Rightarrow> u32 \<Rightarrow> u32 \<Rightarrow> mem \<Rightarrow> bool" where
  "obj_eq size_of a b m \<longleftrightarrow> mem_eq a b size_of m"

end
