(* ===== verification/Spec2Isabelle.thy ===== *)
theory Spec2Isabelle
  imports E820 Memory_Layout Vmm Sched Fat12 Fat_Roundtrip Fd_Spec Libgcc Printf Klib_Mem Shmem Elf_Image
    Ata Shell_Pipe Kernel_Calls Boot_Spec Serial_Port Extras
begin

text \<open>
  A development beside WarkRune, a 32-bit x86 kernel in freestanding C++ (\<^verbatim>\<open>kernel/\<close>). The two boot stages
  (\<^verbatim>\<open>bootloader/\<close>, assembly) load the kernel, leave the BIOS memory map at \<^verbatim>\<open>0x6000\<close> and the
  framebuffer address at \<^verbatim>\<open>0x5000\<close>, and enter \<^verbatim>\<open>kernel_main\<close> (\<^verbatim>\<open>kernel/kernel.cpp\<close>). It sets up
  interrupts and the scheduler, reads the memory map, switches paging on, initialises the frame allocator, the
  heap, virtual memory and shared memory, mounts the FAT12 volume at sector 256, and runs the shell. The shell
  and the system call handler (interrupt \<^verbatim>\<open>0x80\<close>) call the same components.

  \<^bold>\<open>Conventions.\<close> A component's static variables are the fields of a record, an operation is a function from
  the state to the new state and the result; fixed-width integers are words that wrap as in the code; pointers
  are addresses (\<open>u32\<close>). A loop is structural recursion, a fold over the values of its counter, or a
  \<open>partial_function (option)\<close> where only the data bounds it; \<open>None\<close> then says that it does not end (or that
  the access faults, or that the kernel halts), and the theorems that a run returns say \<open>Some\<close>. No fuel is used
  anywhere, but for the endless loop of \<^verbatim>\<open>shell_run\<close>, which is stopped after \<open>n\<close> turns for every \<open>n\<close>. Hardware is
  seen through its effects: a device is a function from the history of port accesses to the value read, bytes sent to
  the serial port are a list, the polls of keyboard and serial port and the interrupts that wake a halted
  processor are lists that are consumed, a disk is a map of sectors some of which fail.

  \<^bold>\<open>Memory.\<close> \<open>E820\<close> (\<^verbatim>\<open>memory.cpp\<close>) selects the region; \<open>Pmm\<close> (\<^verbatim>\<open>pmm.cpp\<close>) is the frame bitmap, the
  instance of the interface \<open>frame_allocator\<close> of \<open>Frame_Allocator\<close>; \<open>Paging\<close> (\<^verbatim>\<open>paging.cpp\<close>) the two-level
  tables, the instance of \<open>page_map\<close> of \<open>Page_Map\<close>; \<open>Vmm\<close> (\<^verbatim>\<open>vmm.cpp\<close>) joins the two, with the invariant
  that every mapped page of its region owns its frame. \<open>Kmalloc\<close> (\<^verbatim>\<open>kmalloc.cpp\<close>) proves that the pointer
  chasing of the heap refines operations on a list of blocks, and \<open>Kmalloc_Contract\<close> what its clients rely on.
  \<open>Memory_Layout\<close> compares the address ranges of heap, bitmap, page tables, back buffer and pool. \<open>Virt_Mem\<close> adds bytes seen through the
  page tables and runs of pages; \<open>Shmem\<close> (\<^verbatim>\<open>shmem.cpp\<close>) the named regions: fresh, zeroed, isolated, given
  back in full.

  \<^bold>\<open>Tasks.\<close> \<open>Sched\<close> (\<^verbatim>\<open>sched.cpp\<close>, \<^verbatim>\<open>tss.cpp\<close>): the round robin of at most four tasks, its invariant,
  what a tick does on every branch, and that no runnable task waits more than 60 ticks.

  \<^bold>\<open>Files.\<close> \<^verbatim>\<open>fat12.cpp\<close> from below: \<open>Bytes\<close>, \<open>Fat_Disk\<close> (sectors), \<open>Fat_Table\<close> and \<open>Fat_Packed\<close> (the 12-bit
  table in both copies, allocation, freeing of chains), \<open>Fat_Names\<close> (8.3 names), \<open>Fat_Dir\<close> and \<open>Fat_Dir_Spec\<close>
  (directory entries, search, slots), \<open>Fat12\<close> (all operations of the interface), \<open>Fat_File_Spec\<close> (reading
  delivers the bytes of the chain of clusters), \<open>Fat_Frame\<close> (which operations leave the table of open files
  alone), \<open>Fat_Copy\<close> (copying into sectors), \<open>Fat_Write\<close> (writing: one composable relation for the walk, the
  copy and the growth of the chain) and \<open>Fat_Roundtrip\<close> (create, write, close, open and read give back the bytes). \<open>Ring\<close>, \<open>Pipe\<close> and \<open>Fd\<close> (\<^verbatim>\<open>fd.cpp\<close>) are the descriptors and pipes over it; \<open>Fd_Spec\<close> proves the
  invariant of every reachable state of the descriptor table and that a pipe is a bounded queue.

  \<^bold>\<open>Programs.\<close> \<open>Kernel_State\<close> puts the components' states side by side. \<open>Page_Run\<close> holds the frames of
  consecutive pages and both ways of giving them back; \<open>Elf\<close> (\<^verbatim>\<open>elf.cpp\<close>, \<^verbatim>\<open>elf.hpp\<close>) loading, unloading and
  running a program; \<open>Elf_Spec\<close> proves that no path leaks, \<open>Elf_Image\<close> that what is loaded is what the file
  says.

  \<^bold>\<open>Devices.\<close> \<open>Ports\<close> (\<^verbatim>\<open>io.hpp\<close>) is the history of port accesses; over it \<open>Mouse\<close> (\<^verbatim>\<open>mouse.cpp\<close>: the packet automaton
  and its invariant), \<open>Clock\<close> (\<^verbatim>\<open>pit.cpp\<close>, \<^verbatim>\<open>rtc.hpp\<close>, \<^verbatim>\<open>pcspk.cpp\<close>: ticks, sleeping, dates), \<open>Ata\<close> (\<^verbatim>\<open>ata.cpp\<close>: what
  reads and writes do on a drive that follows the protocol, \<open>ata_drive\<close>: it takes a sector count of 0 for 256, asks for
  data while words of the command are outstanding and at no other time, and may stay busy after the last one), \<open>Acpi\<close> (\<^verbatim>\<open>acpi.cpp\<close>: the search for the tables and for
  the soft-off package, which reads the table through a reader that can refuse) and \<open>Serial_Port\<close> (\<^verbatim>\<open>serial.cpp\<close>: the driver with its waiting loops, a refinement of the list of
  bytes of \<open>Serial\<close> that the rest is modelled over). \<open>Keyboard\<close> (\<^verbatim>\<open>keyboard.hpp\<close>) translates scancodes.

  \<^bold>\<open>Screen.\<close> \<open>Screen\<close> (\<^verbatim>\<open>text.cpp\<close>) draws pixels, text and rectangles into the back buffer and presents it in every
  pixel format; \<open>Cursor\<close> (\<^verbatim>\<open>shell.cpp\<close>) moves the mouse cursor over it and restores what it covered.

  \<^bold>\<open>System calls.\<close> \<open>Machine\<close> extends the kernel's state by devices, screen and shell; \<open>Syscall\<close> (\<^verbatim>\<open>syscall.cpp\<close>) is the
  handler with all its calls; the name of a shared region is read as far as the comparisons look, and a pointer
  given back to the heap is followed through the page tables when it lies outside the heap's pool. \<open>Syscall_Spec\<close> proves
  what memory a call can write and which calls are refused, \<open>Syscall_Fd\<close> the rules by which every call keeps the
  descriptor invariant. \<open>Kernel_Calls\<close>, behind the shell, ties the two together: the call that waits for a key runs
  the serial shell, and the invariant holds for the kernel's own handler (\<open>kernel_syscall\<close>).

  \<^bold>\<open>Shell.\<close> \<open>Cpuid\<close> (\<^verbatim>\<open>cpuid.cpp\<close>) and \<open>Panic\<close> (\<^verbatim>\<open>panic.hpp\<close>, \<^verbatim>\<open>exceptions.cpp\<close>); \<open>Shell_Path\<close> (paths and the working
  directory), \<open>Shell_Io\<close> (output, line input, listings), \<open>Shell_Cmd\<close> (the built-in commands) and \<open>Shell\<close> (the
  dispatcher, pipelines, redirection and both shells), all of \<^verbatim>\<open>shell.cpp\<close>. \<open>Fd_Calm\<close> and \<open>Shell_Spec\<close> hold the rules by
  which every command is shown to leave the descriptors as it found them, \<open>Shell_Pipe\<close> the theorems on pipelines.

  \<^bold>\<open>Boot.\<close> \<open>Boot\<close> (\<^verbatim>\<open>kernel.cpp\<close>, \<^verbatim>\<open>idt.hpp\<close>, \<^verbatim>\<open>stack.hpp\<close>) composes all of this in the order of \<^verbatim>\<open>kernel_main\<close>.
  The header of the heap is also stored into the frame bitmap where the two meet (\<open>heap_header_store\<close>).
  \<open>Boot_Vm\<close> and \<open>Boot_Tests\<close> treat the self tests, \<open>Boot_Spec\<close> proves that the kernel boots, that the
  invariants of all components then hold together, and that the shell keeps nothing open from then on.

  \<^bold>\<open>Library.\<close> \<open>Chars\<close>, \<open>Klib_Str\<close> (\<^verbatim>\<open>str.h\<close>), \<open>Klib_Mem\<close> (\<^verbatim>\<open>men.h\<close>), \<open>Printf\<close> (\<^verbatim>\<open>printf.hpp\<close>; its \<^verbatim>\<open>int\<close>
  counters are bounded, \<open>None\<close> is their overflow),
  \<open>Libgcc\<close> (\<^verbatim>\<open>libgcc_stubs.cpp\<close>) and \<open>Extras\<close> (headers that nothing includes yet: \<^verbatim>\<open>libc.hpp\<close>, \<^verbatim>\<open>macros.h\<close>,
  \<^verbatim>\<open>palette_dump.hpp\<close>). \<open>Prelude\<close> has the integer types, search loops and word lemmas that all share.

  \<^bold>\<open>What is assumed.\<close> The kernel's static data are not reached through the mappings that user programs ask for (the
  loader does not check this), nor through frames of the pool: the bytes of the page tables and of the back buffer
  are kept apart from the bytes of the frames, although \<open>Memory_Layout.fixed_areas_in_pool\<close> shows that the pool
  reaches over both. The headers of heap blocks are a map from the addresses of blocks (\<open>kh_hdr\<close>), the words of the
  frame bitmap and the entries of the page tables are functions of their index: the heap's pool, the bitmap, the page
  tables and the variables of the kernel are kept apart from the memory that pages map. Two stores that cross this
  line are modelled where they happen: \<^verbatim>\<open>kfree\<close> of a pointer outside the pool by a system call, and the header of the heap and
  the test pattern of \<^verbatim>\<open>kernel_main\<close> in the bitmap. The FAT theorems assume a mounted volume of at most 4085 clusters
  whose geometry is consistent (\<open>vol_ok\<close>) and, where they say so, a device without read errors. A program in ring 3
  is a parameter that maps a machine to the machine it leaves; the theorems on the shell and on the descriptor
  invariant of system calls speak of lines and calls that start none (\<open>no_programs\<close>: a program that is started does
  not come back), because the kernel closes nothing that a program leaves open. The theorems on booting assume that
  the memory map has room, that its largest region is of at most 1 GB with bitmap and heap below the page tables
  (\<open>boot_map\<close>), that the static variables are as the loader leaves them (\<open>cold\<close>) and that the
  buffer of the mouse controller can be emptied. The font, the instruction \<^verbatim>\<open>cpuid\<close>, the addresses of string literals
  and the contents of an uninitialised directory entry are parameters (\<open>env\<close>). Interrupts do not arrive in the middle
  of an operation.

  \<^bold>\<open>Not modelled.\<close> The assembly (boot stages, descriptor tables, interrupt entry and PIC set-up, context switch, entry
  to ring 3, the ring of scancodes, font), which is not the language of the development; \<^verbatim>\<open>rng.h\<close>, which cannot be
  compiled; headers of type names, attributes and declarations; the example program \<^verbatim>\<open>test.cpp\<close>; the picture
  \<^verbatim>\<open>logo.hpp\<close>, which nothing shows.
\<close>

end
